(* ===== verification/Prelude.thy ===== *)
theory Prelude
  imports Complex_Main "HOL-Library.Word" "HOL-Library.DAList"
begin

text \<open>
  Shared material of the development: Go maps (finite maps with a size), Go byte
  strings, big-endian field encodings, instants and durations, and the lemma
  collections the component theories feed.

  \<^item> A Go \<open>map[K]V\<close> is a \<open>('k, 'v) gomap\<close>: a finite map with the operations index
    (\<open>mget\<close>), index with the zero value for a missing key (\<open>mget0\<close>), assignment
    (\<open>mput\<close>), \<open>delete\<close> (\<open>mdel\<close>) and \<open>len\<close> (\<open>mlen\<close>).
  \<^item> A Go \<open>string\<close> is a \<open>string\<close> (a list of 8-bit characters), a \<open>[]byte\<close> a list of
    \<open>8 word\<close>.
  \<^item> A \<open>time.Time\<close> is the number of nanoseconds since the zero \<open>time.Time\<close>, a
    \<open>time.Duration\<close> a number of nanoseconds, both \<open>int\<close>.
\<close>

unbundle bit_operations_syntax

section \<open>Collections\<close>

named_theorems wf_intros \<open>introduction rules of the components' invariants\<close>
named_theorems frame_simps \<open>fields an operation leaves alone\<close>

section \<open>Go maps\<close>

type_synonym ('k, 'v) gomap = "('k, 'v) alist"

abbreviation mget :: "('k, 'v) gomap \<Rightarrow> 'k \<Rightarrow> 'v option" where
  "mget m \<equiv> DAList.lookup m"

abbreviation mempty :: "('k, 'v) gomap" where
  "mempty \<equiv> DAList.empty"

abbreviation mput :: "'k \<Rightarrow> 'v \<Rightarrow> ('k, 'v) gomap \<Rightarrow> ('k, 'v) gomap" where
  "mput k v m \<equiv> DAList.update k v m"

abbreviation mdel :: "'k \<Rightarrow> ('k, 'v) gomap \<Rightarrow> ('k, 'v) gomap" where
  "mdel k m \<equiv> DAList.delete k m"

definition mlen :: "('k, 'v) gomap \<Rightarrow> int" where
  "mlen m = int (length (DAList.impl_of m))"

definition mkeys :: "('k, 'v) gomap \<Rightarrow> 'k list" where
  "mkeys m = map fst (DAList.impl_of m)"

definition mget0 :: "('k, int) gomap \<Rightarrow> 'k \<Rightarrow> int" where
  "mget0 m k = (case mget m k of None \<Rightarrow> 0 | Some v \<Rightarrow> v)"

abbreviation mdom :: "('k, 'v) gomap \<Rightarrow> 'k set" where
  "mdom m \<equiv> dom (mget m)"

lemma lookup_update_fun [simp]: "mget (mput k v m) = (mget m)(k \<mapsto> v)"
  by (rule ext) (auto simp: lookup_update)

lemma mdom_conv: "mdom m = set (mkeys m)"
  unfolding mkeys_def by transfer (simp add: dom_map_of_conv_image_fst)

lemma finite_mdom [simp, intro]: "finite (mdom m)"
  by (simp add: mdom_conv)

lemma distinct_mkeys [simp]: "distinct (mkeys m)"
  by (simp add: mkeys_def)

lemma mlen_card: "mlen m = int (card (mdom m))"
proof -
  have "card (set (mkeys m)) = length (mkeys m)"
    by (rule distinct_card) simp
  then show ?thesis
    by (simp add: mlen_def mdom_conv) (simp add: mkeys_def)
qed

lemma mlen_nonneg [simp]: "0 \<le> mlen m"
  by (simp add: mlen_def)

lemma mlen_empty [simp]: "mlen mempty = 0"
  by (simp add: mlen_card dom_def)

lemma mlen_put_new: "mget m k = None \<Longrightarrow> mlen (mput k v m) = mlen m + 1"
  by (simp add: mlen_card domIff)

lemma mlen_put_old: "mget m k = Some w \<Longrightarrow> mlen (mput k v m) = mlen m"
  by (simp add: mlen_card domI insert_absorb)

lemma mlen_del_old:
  assumes "mget m k = Some w"
  shows "mlen (mdel k m) = mlen m - 1"
proof -
  have "k \<in> mdom m" using assms by auto
  then have "card (mdom m - {k}) = card (mdom m) - 1" "0 < card (mdom m)"
    by (auto simp: card_gt_0_iff)
  then show ?thesis by (simp add: mlen_card)
qed

lemma mlen_del_new: "mget m k = None \<Longrightarrow> mlen (mdel k m) = mlen m"
  by (simp add: mlen_card domIff)

lemma mget0_empty [simp]: "mget0 mempty k = 0"
  by (simp add: mget0_def)

lemma mget0_put [simp]: "mget0 (mput k v m) k' = (if k' = k then v else mget0 m k')"
  by (simp add: mget0_def)

lemma mget0_del [simp]: "mget0 (mdel k m) k' = (if k' = k then 0 else mget0 m k')"
  by (simp add: mget0_def)

text \<open>
  The interface the clients of a Go map rely on, and its discharge for \<open>gomap\<close>: what
  an index expression returns after an assignment or a \<open>delete\<close>, and what \<open>len\<close> counts.
\<close>

locale go_map =
  fixes get :: "'m \<Rightarrow> 'k \<Rightarrow> 'v option"
    and put :: "'k \<Rightarrow> 'v \<Rightarrow> 'm \<Rightarrow> 'm"
    and del :: "'k \<Rightarrow> 'm \<Rightarrow> 'm"
    and len :: "'m \<Rightarrow> int"
  assumes get_put: "get (put k v m) = (get m)(k \<mapsto> v)"
    and get_del: "get (del k m) = (get m)(k := None)"
    and finite_get: "finite (dom (get m))"
    and len_card: "len m = int (card (dom (get m)))"
begin

lemma len_put_le: "len (put k v m) \<le> len m + 1"
  by (simp add: len_card get_put finite_get card_insert_if)

lemma len_del_le: "len (del k m) \<le> len m"
  by (simp add: len_card get_del finite_get card_Diff1_le)

lemma put_bounded:
  "len m < b \<or> get m k \<noteq> None \<and> len m \<le> b \<Longrightarrow> len (put k v m) \<le> b"
  using finite_get [of m]
  by (auto simp: len_card get_put card_insert_if domIff)

end

interpretation gm: go_map mget mput mdel mlen
  by unfold_locales (simp_all add: mlen_card)

section \<open>Decimal numbers\<close>

text \<open>The verb \<open>%d\<close> of \<^verbatim>\<open>fmt\<close> on a number that is not negative, and on any number.\<close>

fun show_nat :: "nat \<Rightarrow> string" where
  "show_nat n = (if n < 10 then [char_of (48 + n)] else show_nat (n div 10) @ [char_of (48 + n mod 10)])"

declare show_nat.simps [simp del]

definition show_int :: "int \<Rightarrow> string" where
  "show_int n = (if n < 0 then ''-'' @ show_nat (nat (- n)) else show_nat (nat n))"

section \<open>Bytes and big-endian fields\<close>

type_synonym byte = "8 word"
type_synonym bytes = "byte list"

definition bytes_of_string :: "string \<Rightarrow> bytes" where
  "bytes_of_string s = map of_char s"

lemma unat_of_char_byte: "unat (of_char c :: byte) = of_char c"
proof -
  have "(of_char c :: byte) = of_nat (of_char c)"
    by (simp only: of_nat_of_char)
  moreover have "of_char c < (256 :: nat)"
  proof -
    have "of_char c mod 256 = (of_char c :: nat)"
      by (metis char_of_char of_char_of)
    then show ?thesis by (metis mod_less_divisor zero_less_numeral)
  qed
  ultimately show ?thesis
    by (simp add: unsigned_of_nat take_bit_nat_eq_self)
qed

lemma of_char_byte_inj: "(of_char c :: byte) = of_char d \<Longrightarrow> c = d"
  by (metis of_char_eq_iff unat_of_char_byte)

lemma bytes_of_string_inj: "bytes_of_string s = bytes_of_string t \<Longrightarrow> s = t"
  unfolding bytes_of_string_def
  by (auto intro: list.inj_map_strong of_char_byte_inj)

lemma length_bytes_of_string [simp]: "length (bytes_of_string s) = length s"
  by (simp add: bytes_of_string_def)

text \<open>\<open>binary.BigEndian.PutUint16/32/64\<close> and \<open>Uint16/Uint32\<close>.\<close>

definition be16 :: "16 word \<Rightarrow> bytes" where
  "be16 w = [ucast (drop_bit 8 w), ucast w]"

definition be32 :: "32 word \<Rightarrow> bytes" where
  "be32 w = [ucast (drop_bit 24 w), ucast (drop_bit 16 w), ucast (drop_bit 8 w), ucast w]"

definition be64 :: "64 word \<Rightarrow> bytes" where
  "be64 w = be32 (ucast (drop_bit 32 w)) @ be32 (ucast w)"

definition get_be16 :: "byte \<Rightarrow> byte \<Rightarrow> 16 word" where
  "get_be16 a b = push_bit 8 (ucast a) OR ucast b"

definition get_be32 :: "byte \<Rightarrow> byte \<Rightarrow> byte \<Rightarrow> byte \<Rightarrow> 32 word" where
  "get_be32 a b c d =
     push_bit 24 (ucast a) OR push_bit 16 (ucast b) OR push_bit 8 (ucast c) OR ucast d"

lemma length_be [simp]: "length (be16 w) = 2" "length (be32 x) = 4" "length (be64 y) = 8"
  by (simp_all add: be16_def be32_def be64_def)

lemma get_be16_be16:
  "get_be16 (ucast (drop_bit 8 w)) (ucast w) = w"
  unfolding get_be16_def
  by (rule bit_word_eqI) (auto simp: bit_simps)

lemma get_be32_be32:
  "get_be32 (ucast (drop_bit 24 w)) (ucast (drop_bit 16 w)) (ucast (drop_bit 8 w)) (ucast w) = w"
proof (rule bit_word_eqI)
  fix n :: nat
  assume "n < LENGTH(32)"
  then consider "n < 8" | "8 \<le> n" "n < 16" | "16 \<le> n" "n < 24" | "24 \<le> n" "n < 32"
    by fastforce
  then show "bit (get_be32 (ucast (drop_bit 24 w)) (ucast (drop_bit 16 w)) (ucast (drop_bit 8 w))
      (ucast w)) n = bit w n"
    by cases (auto simp: get_be32_def bit_simps)
qed

lemma be16_inj: "be16 w = be16 w' \<Longrightarrow> w = w'"
  unfolding be16_def by (metis get_be16_be16 list.inject)

lemma be32_inj: "be32 w = be32 w' \<Longrightarrow> w = w'"
  unfolding be32_def by (metis get_be32_be32 list.inject)

lemma be64_inj:
  assumes "be64 w = be64 w'"
  shows "w = w'"
proof -
  have hi: "(ucast (drop_bit 32 w) :: 32 word) = ucast (drop_bit 32 w')"
    and lo: "(ucast w :: 32 word) = ucast w'"
    using assms by (auto simp: be64_def intro: be32_inj)
  have split: "v = push_bit 32 (ucast (ucast (drop_bit 32 v) :: 32 word)) OR ucast (ucast v :: 32 word)"
    for v :: "64 word"
    by (rule bit_word_eqI) (auto simp: bit_simps)
  show ?thesis
    by (subst split [of w], subst split [of w']) (simp only: hi lo)
qed

lemma be16_append_eq [simp]: "be16 w @ xs = be16 w' @ ys \<longleftrightarrow> w = w' \<and> xs = ys"
  by (auto simp: be16_inj)

lemma be32_append_eq [simp]: "be32 w @ xs = be32 w' @ ys \<longleftrightarrow> w = w' \<and> xs = ys"
  by (auto simp: be32_inj)

lemma be64_append_eq [simp]: "be64 w @ xs = be64 w' @ ys \<longleftrightarrow> w = w' \<and> xs = ys"
  by (auto simp: be64_inj)

text \<open>Reading a field at the front of a slice.\<close>

definition u16 :: "bytes \<Rightarrow> 16 word" where
  "u16 bs = get_be16 (bs ! 0) (bs ! 1)"

definition u32 :: "bytes \<Rightarrow> 32 word" where
  "u32 bs = get_be32 (bs ! 0) (bs ! 1) (bs ! 2) (bs ! 3)"

lemma u16_be16 [simp]: "u16 (be16 w @ xs) = w" "u16 (be16 w) = w"
  by (simp_all add: u16_def be16_def get_be16_be16)

lemma u32_be32 [simp]: "u32 (be32 w @ xs) = w" "u32 (be32 w) = w"
  by (simp_all add: u32_def be32_def get_be32_be32 numeral_2_eq_2 numeral_3_eq_3)

lemma be32_get_be32: "be32 (get_be32 a b c d) = [a, b, c, d]"
proof -
  have "(ucast (drop_bit 24 (get_be32 a b c d)) :: byte) = a" "(ucast (drop_bit 16 (get_be32 a b c d)) :: byte) = b"
    "(ucast (drop_bit 8 (get_be32 a b c d)) :: byte) = c" "(ucast (get_be32 a b c d) :: byte) = d"
    unfolding get_be32_def by (rule bit_word_eqI; auto simp: bit_simps dest: bit_imp_le_length)+
  then show ?thesis by (simp add: be32_def)
qed

lemma length_4_cases: "length (xs :: 'a list) = 4 \<longleftrightarrow> (\<exists>a b c d. xs = [a, b, c, d])"
  by (auto simp: length_Suc_conv numeral_eq_Suc)

lemma be32_u32 [simp]: "length bs = 4 \<Longrightarrow> be32 (u32 bs) = bs"
  by (auto simp: length_4_cases u32_def be32_get_be32)

text \<open>Conversion of bytes to a Go string.\<close>

definition string_of_bytes :: "bytes \<Rightarrow> string" where
  "string_of_bytes bs = map (\<lambda>b. char_of (unat b)) bs"

lemma string_of_bytes_of_string [simp]: "string_of_bytes (bytes_of_string s) = s"
  by (simp add: string_of_bytes_def bytes_of_string_def unat_of_char_byte comp_def)

lemma length_string_of_bytes [simp]: "length (string_of_bytes bs) = length bs"
  by (simp add: string_of_bytes_def)

lemma of_nat_word_inj:
  assumes "n < 2 ^ LENGTH('a)" "m < 2 ^ LENGTH('a)" "(of_nat n :: 'a::len word) = of_nat m"
  shows "n = m"
proof -
  have "unat (of_nat k :: 'a word) = k" if "k < 2 ^ LENGTH('a)" for k
    using that by (simp add: unsigned_of_nat take_bit_nat_eq_self)
  with assms show ?thesis by metis
qed

section \<open>Time\<close>

definition second :: int where
  "second = 1000000000"

definition millisecond :: int where
  "millisecond = 1000000"

definition minute :: int where
  "minute = 60 * second"

end
