(* ===== verification/Ratelimit.thy ===== *)
theory Ratelimit
  imports Prelude
begin

text \<open>
  Token buckets and the per-key limiter of \<^verbatim>\<open>internal/ratelimit/ratelimit.go\<close>.

  \<^item> \<open>Bucket\<close> and \<open>keyedBucket\<close> are the structs, \<open>Bucket_AllowN\<close> and
    \<open>KeyedLimiter_AllowN\<close> the operations, with the clock reading as an argument.
  \<^item> Token amounts are exact rationals where the source has \<open>float64\<close>; rounding is not
    modelled. Instants are integers (nanoseconds).
  \<^item> The pointers \<open>*keyedBucket\<close> shared between the map and the LRU list are addresses
    (\<open>nat\<close>) of an explicit store \<open>heap\<close>; \<open>container/list\<close> is the list of the addresses
    it holds, front first.

  The interface \<open>token_limiter\<close> states, once for both limiters, what makes a limiter
  sound (a potential no request can exceed), and derives the bound on everything
  granted over any sequence of requests.
\<close>

section \<open>Definitions\<close>

text \<open>\<open>Duration.Seconds()\<close>.\<close>

definition Seconds :: "int \<Rightarrow> rat" where
  "Seconds d = of_int d / of_int second"

record Bucket =
  rate :: rat
  burst :: rat
  tokens :: rat
  last_refill :: int

definition NewBucket :: "rat \<Rightarrow> rat \<Rightarrow> int \<Rightarrow> Bucket" where
  "NewBucket ratePerSec brst now =
     \<lparr>rate = ratePerSec, burst = brst, tokens = brst, last_refill = now\<rparr>"

definition Bucket_AllowN :: "rat \<Rightarrow> int \<Rightarrow> Bucket \<Rightarrow> Bucket \<times> bool" where
  "Bucket_AllowN n now b =
     (let elapsed = Seconds (now - last_refill b);
          b1 = (if elapsed > 0
                then let t = tokens b + elapsed * rate b
                     in b\<lparr>tokens := (if t > burst b then burst b else t), last_refill := now\<rparr>
                else b)
      in if tokens b1 \<ge> n then (b1\<lparr>tokens := tokens b1 - n\<rparr>, True) else (b1, False))"

definition Bucket_Allow :: "int \<Rightarrow> Bucket \<Rightarrow> Bucket \<times> bool" where
  "Bucket_Allow now b = Bucket_AllowN 1 now b"

record keyedBucket =
  kb_key :: string
  kb_tokens :: rat
  kb_lastRefill :: int
  kb_lastSeen :: int

record KeyedLimiter =
  buckets :: "(string, nat) gomap"
  lru :: "nat list"
  heap :: "nat \<Rightarrow> keyedBucket"
  next_addr :: nat
  kl_rate :: rat
  kl_burst :: rat
  maxKeys :: int
  idleExpiry :: int

definition NewKeyedLimiter :: "rat \<Rightarrow> rat \<Rightarrow> int \<Rightarrow> int \<Rightarrow> KeyedLimiter" where
  "NewKeyedLimiter ratePerSec brst mk idle =
     \<lparr>buckets = mempty, lru = [],
      heap = (\<lambda>_. \<lparr>kb_key = '''', kb_tokens = 0, kb_lastRefill = 0, kb_lastSeen = 0\<rparr>),
      next_addr = 0, kl_rate = ratePerSec, kl_burst = brst, maxKeys = mk, idleExpiry = idle\<rparr>"

text \<open>\<open>list.MoveToFront\<close> on the element at an address.\<close>

definition moveToFront :: "nat \<Rightarrow> nat list \<Rightarrow> nat list" where
  "moveToFront p xs = p # remove1 p xs"

text \<open>
  The full-table branch for an unknown key: \<open>None\<close> is the early \<open>return false\<close>, otherwise
  the limiter after recycling the least recently used bucket and \<open>kb\<close> (\<open>None\<close> for \<open>nil\<close>).
\<close>

definition kl_recycle :: "string \<Rightarrow> int \<Rightarrow> KeyedLimiter \<Rightarrow> (KeyedLimiter \<times> nat option) option" where
  "kl_recycle key now k =
     (if mlen (buckets k) \<ge> maxKeys k
      then (if lru k = [] then None
            else let oldest = last (lru k);
                     candidate = heap k oldest;
                     k1 = k\<lparr>buckets := mdel (kb_key candidate) (buckets k)\<rparr>
                 in if now - kb_lastSeen candidate < idleExpiry k
                    then Some (k1\<lparr>heap := (heap k1)(oldest := candidate\<lparr>kb_key := key\<rparr>),
                                  lru := moveToFront oldest (lru k1),
                                  buckets := mput key oldest (buckets k1)\<rparr>, Some oldest)
                    else Some (k1\<lparr>lru := butlast (lru k1)\<rparr>, None))
      else Some (k, None))"

definition kl_insert :: "string \<Rightarrow> int \<Rightarrow> KeyedLimiter \<Rightarrow> KeyedLimiter \<times> nat" where
  "kl_insert key now k =
     (let p = next_addr k
      in (k\<lparr>heap := (heap k)(p := \<lparr>kb_key = key, kb_tokens = kl_burst k,
                                   kb_lastRefill = now, kb_lastSeen = now\<rparr>),
            lru := p # lru k, buckets := mput key p (buckets k), next_addr := Suc p\<rparr>, p))"

definition kl_bind :: "string \<Rightarrow> int \<Rightarrow> KeyedLimiter \<Rightarrow> (KeyedLimiter \<times> nat) option" where
  "kl_bind key now k =
     (case mget (buckets k) key of
        Some p \<Rightarrow> Some (k\<lparr>lru := moveToFront p (lru k)\<rparr>, p)
      | None \<Rightarrow>
          (case kl_recycle key now k of
             None \<Rightarrow> None
           | Some (k1, Some p) \<Rightarrow> Some (k1, p)
           | Some (k1, None) \<Rightarrow> Some (kl_insert key now k1)))"

definition kl_charge :: "nat \<Rightarrow> rat \<Rightarrow> int \<Rightarrow> KeyedLimiter \<Rightarrow> KeyedLimiter \<times> bool" where
  "kl_charge p n now k =
     (let kb = (heap k p)\<lparr>kb_lastSeen := now\<rparr>;
          elapsed = Seconds (now - kb_lastRefill kb);
          kb1 = (if elapsed > 0
                 then let t = kb_tokens kb + elapsed * kl_rate k
                      in kb\<lparr>kb_tokens := (if t > kl_burst k then kl_burst k else t),
                            kb_lastRefill := now\<rparr>
                 else kb)
      in if kb_tokens kb1 < n then (k\<lparr>heap := (heap k)(p := kb1)\<rparr>, False)
         else (k\<lparr>heap := (heap k)(p := kb1\<lparr>kb_tokens := kb_tokens kb1 - n\<rparr>)\<rparr>, True))"

definition KeyedLimiter_AllowN :: "string \<Rightarrow> rat \<Rightarrow> int \<Rightarrow> KeyedLimiter \<Rightarrow> KeyedLimiter \<times> bool" where
  "KeyedLimiter_AllowN key n now k =
     (case kl_bind key now k of
        None \<Rightarrow> (k, False)
      | Some (k1, p) \<Rightarrow> kl_charge p n now k1)"

definition KeyedLimiter_Allow :: "string \<Rightarrow> int \<Rightarrow> KeyedLimiter \<Rightarrow> KeyedLimiter \<times> bool" where
  "KeyedLimiter_Allow key now k = KeyedLimiter_AllowN key 1 now k"

definition KeyedLimiter_Len :: "KeyedLimiter \<Rightarrow> int" where
  "KeyedLimiter_Len k = mlen (buckets k)"

text \<open>
  What a limiter grants over a sequence of timed requests, and the time of the last one.
\<close>

fun granted :: "('r \<Rightarrow> int \<Rightarrow> 's \<Rightarrow> 's \<times> bool) \<Rightarrow> ('r \<Rightarrow> rat) \<Rightarrow> 's \<Rightarrow> (int \<times> 'r) list \<Rightarrow> rat" where
  "granted allow cost s [] = 0"
| "granted allow cost s ((t, r) # rs) =
     (let (s', ok) = allow r t s
      in (if ok then cost r else 0) + granted allow cost s' rs)"

definition keyed_allow :: "string \<times> rat \<Rightarrow> int \<Rightarrow> KeyedLimiter \<Rightarrow> KeyedLimiter \<times> bool" where
  "keyed_allow r now k = KeyedLimiter_AllowN (fst r) (snd r) now k"

section \<open>Durations in seconds\<close>

lemma Seconds_0 [simp]: "Seconds 0 = 0"
  by (simp add: Seconds_def)

lemma Seconds_pos [simp]: "0 < Seconds d \<longleftrightarrow> 0 < d"
  by (simp add: Seconds_def second_def zero_less_divide_iff)

lemma Seconds_nonneg [simp]: "0 \<le> Seconds d \<longleftrightarrow> 0 \<le> d"
  by (simp add: Seconds_def second_def zero_le_divide_iff)

lemma Seconds_eq_0 [simp]: "Seconds d = 0 \<longleftrightarrow> d = 0"
  by (simp add: Seconds_def second_def)

lemma Seconds_mono: "d \<le> e \<Longrightarrow> Seconds d \<le> Seconds e"
  by (simp add: Seconds_def second_def divide_right_mono)

lemma Seconds_split: "Seconds (a - c) = Seconds (a - b) + Seconds (b - c)"
  by (simp add: Seconds_def second_def field_simps)

section \<open>The interface of a limiter\<close>

locale token_limiter =
  fixes allow :: "'r \<Rightarrow> int \<Rightarrow> 's \<Rightarrow> 's \<times> bool"
    and cost :: "'r \<Rightarrow> rat"
    and pot :: "'s \<Rightarrow> int \<Rightarrow> rat"
    and gain :: "'s \<Rightarrow> rat"
    and inv :: "'s \<Rightarrow> int \<Rightarrow> bool"
  assumes inv_allow: "inv s t \<Longrightarrow> t \<le> now \<Longrightarrow> 0 \<le> cost r \<Longrightarrow> inv (fst (allow r now s)) now"
    and pot_allow: "inv s t \<Longrightarrow> t \<le> now \<Longrightarrow> 0 \<le> cost r \<Longrightarrow>
      pot (fst (allow r now s)) now + (if snd (allow r now s) then cost r else 0) \<le> pot s now"
    and gain_allow: "gain (fst (allow r now s)) = gain s"
    and pot_time: "inv s t \<Longrightarrow> t \<le> u \<Longrightarrow> pot s u \<le> pot s t + gain s * Seconds (u - t)"
    and pot_nonneg: "inv s t \<Longrightarrow> 0 \<le> pot s t"
begin

lemma granted_le_pot:
  "inv s t \<Longrightarrow> sorted (t # map fst rs) \<Longrightarrow> \<forall>x\<in>set rs. 0 \<le> cost (snd x) \<Longrightarrow>
   granted allow cost s rs \<le> pot s t + gain s * Seconds (last (t # map fst rs) - t)"
proof (induction rs arbitrary: s t)
  case Nil
  then show ?case using pot_nonneg by simp
next
  case (Cons x rs)
  obtain u r where x: "x = (u, r)" by (cases x)
  obtain s' ok where al: "allow r u s = (s', ok)" by (cases "allow r u s")
  have tu: "t \<le> u" and c: "0 \<le> cost r" using Cons.prems x by auto
  have "inv s' u" using inv_allow [OF Cons.prems(1) tu c] al by simp
  then have IH: "granted allow cost s' rs \<le> pot s' u + gain s' * Seconds (last (u # map fst rs) - u)"
    using Cons.IH Cons.prems x by auto
  have "pot s' u + (if ok then cost r else 0) \<le> pot s u" and "gain s' = gain s"
    using pot_allow [OF Cons.prems(1) tu c] gain_allow [of r u s] al by auto
  moreover have "pot s u \<le> pot s t + gain s * Seconds (u - t)"
    by (rule pot_time [OF Cons.prems(1) tu])
  moreover have "gain s * Seconds (u - t) + gain s * Seconds (last (u # map fst rs) - u)
      = gain s * Seconds (last (u # map fst rs) - t)"
    by (simp only: Seconds_split [of "last (u # map fst rs)" t u] distrib_left add.commute)
  ultimately show ?case using IH x al by auto
qed

end

section \<open>The single bucket\<close>

text \<open>The tokens a bucket has at an instant, were it refilled then.\<close>

definition avail :: "rat \<Rightarrow> rat \<Rightarrow> rat \<Rightarrow> int \<Rightarrow> rat" where
  "avail r brst toks d = min brst (toks + r * Seconds d)"

lemma avail_time:
  assumes "0 \<le> r" "d \<le> e"
  shows "avail r brst toks e \<le> avail r brst toks d + r * Seconds (e - d)"
proof -
  have "r * Seconds e = r * Seconds (e - d) + r * Seconds d"
    using Seconds_split [of e 0 d] by (simp add: distrib_left)
  moreover have "0 \<le> r * Seconds (e - d)"
    using assms by simp
  ultimately show ?thesis
    unfolding avail_def by (auto simp: min_def)
qed

lemma avail_mono:
  assumes "0 \<le> r" "d \<le> e"
  shows "avail r brst toks d \<le> avail r brst toks e"
  using mult_left_mono [OF Seconds_mono [OF assms(2)] assms(1)]
  by (auto simp: avail_def min_def)

lemma avail_0: "avail r brst toks 0 = min brst toks"
  by (simp add: avail_def)

definition bucket_inv :: "Bucket \<Rightarrow> int \<Rightarrow> bool" where
  "bucket_inv b t \<longleftrightarrow> 0 \<le> rate b \<and> 0 \<le> tokens b \<and> tokens b \<le> burst b \<and> last_refill b \<le> t"

definition bucket_pot :: "Bucket \<Rightarrow> int \<Rightarrow> rat" where
  "bucket_pot b t = avail (rate b) (burst b) (tokens b) (t - last_refill b)"

lemma NewBucket_inv: "0 \<le> r \<Longrightarrow> 0 \<le> m \<Longrightarrow> t0 \<le> t \<Longrightarrow> bucket_inv (NewBucket r m t0) t"
  by (simp add: bucket_inv_def NewBucket_def)

lemma Bucket_AllowN_frame [frame_simps]:
  "rate (fst (Bucket_AllowN n now b)) = rate b" "burst (fst (Bucket_AllowN n now b)) = burst b"
  by (simp_all add: Bucket_AllowN_def Let_def)

text \<open>\<open>AllowN\<close> in terms of what is available: it grants exactly when the request fits.\<close>

lemma Bucket_AllowN_avail:
  assumes "last_refill b \<le> now" "tokens b \<le> burst b"
  shows "Bucket_AllowN n now b =
    (let a = bucket_pot b now
     in (b\<lparr>tokens := (if n \<le> a then a - n else a), last_refill := now\<rparr>, n \<le> a))"
  using assms
  by (cases b) (auto simp: Bucket_AllowN_def bucket_pot_def avail_def Let_def min_def
      mult.commute less_le)

interpretation tb: token_limiter Bucket_AllowN "\<lambda>n. n" bucket_pot rate bucket_inv
proof
  fix b :: Bucket and t now :: int and n :: rat
  assume inv: "bucket_inv b t" and le: "t \<le> now" and n: "0 \<le> n"
  have *: "last_refill b \<le> now" "tokens b \<le> burst b" "0 \<le> rate b" "0 \<le> tokens b"
    using inv le by (auto simp: bucket_inv_def)
  have a: "0 \<le> bucket_pot b now" "bucket_pot b now \<le> burst b"
    using * by (auto simp: bucket_pot_def avail_def)
  show "bucket_inv (fst (Bucket_AllowN n now b)) now"
    unfolding Bucket_AllowN_avail [OF *(1,2)] bucket_inv_def
    using * a n by (auto simp: Let_def)
  show "bucket_pot (fst (Bucket_AllowN n now b)) now
      + (if snd (Bucket_AllowN n now b) then n else 0) \<le> bucket_pot b now"
    unfolding Bucket_AllowN_avail [OF *(1,2)]
    using a n by (auto simp: Let_def bucket_pot_def avail_0)
next
  fix b :: Bucket and t u :: int
  assume "bucket_inv b t" "t \<le> u"
  then show "bucket_pot b u \<le> bucket_pot b t + rate b * Seconds (u - t)"
    using avail_time [of "rate b" "t - last_refill b" "u - last_refill b"]
    by (simp add: bucket_pot_def bucket_inv_def)
qed (auto simp: frame_simps bucket_inv_def bucket_pot_def avail_def)

section \<open>The keyed limiter: shape\<close>

text \<open>
  The map and the list hold the same buckets: an address is in the list exactly when the
  map reaches it, under the key stored in the bucket.
\<close>

definition kl_wf :: "KeyedLimiter \<Rightarrow> bool" where
  "kl_wf k \<longleftrightarrow> distinct (lru k) \<and> (\<forall>p\<in>set (lru k). p < next_addr k) \<and>
     (\<forall>key p. mget (buckets k) key = Some p \<longleftrightarrow> p \<in> set (lru k) \<and> kb_key (heap k p) = key) \<and>
     int (length (lru k)) \<le> max 0 (maxKeys k)"

lemma kl_wf_len:
  assumes "kl_wf k"
  shows "mlen (buckets k) = int (length (lru k))"
proof -
  have get: "\<And>key p. mget (buckets k) key = Some p \<longleftrightarrow> p \<in> set (lru k) \<and> kb_key (heap k p) = key"
    and d: "distinct (lru k)" using assms by (auto simp: kl_wf_def)
  have "bij_betw (\<lambda>p. kb_key (heap k p)) (set (lru k)) (mdom (buckets k))"
  proof (rule bij_betw_imageI)
    show "inj_on (\<lambda>p. kb_key (heap k p)) (set (lru k))"
      by (rule inj_onI) (metis get option.inject)
    show "(\<lambda>p. kb_key (heap k p)) ` set (lru k) = mdom (buckets k)"
      using get by (auto simp: dom_def image_iff)
  qed
  then have "card (mdom (buckets k)) = card (set (lru k))"
    by (simp add: bij_betw_same_card)
  with d show ?thesis by (simp add: mlen_card distinct_card)
qed

lemma set_moveToFront [simp]: "p \<in> set xs \<Longrightarrow> set (moveToFront p xs) = set xs"
  by (auto simp: moveToFront_def dest: set_remove1_subset [THEN subsetD] intro: in_set_remove1 [THEN iffD2, rotated])

lemma length_moveToFront [simp]: "p \<in> set xs \<Longrightarrow> length (moveToFront p xs) = length xs"
  using length_pos_if_in_set [of p xs] by (simp add: moveToFront_def length_remove1)

lemma distinct_moveToFront [simp]: "distinct xs \<Longrightarrow> distinct (moveToFront p xs)"
  by (simp add: moveToFront_def)

lemma set_butlast_distinct: "distinct xs \<Longrightarrow> xs \<noteq> [] \<Longrightarrow> set (butlast xs) = set xs - {last xs}"
  by (induction xs rule: rev_induct) auto

lemma kl_wf_touch:
  "kl_wf k \<Longrightarrow> mget (buckets k) key = Some p \<Longrightarrow> kl_wf (k\<lparr>lru := moveToFront p (lru k)\<rparr>)"
  by (simp add: kl_wf_def)

lemma kl_recycle_frame:
  "kl_recycle key now k = Some (k', q) \<Longrightarrow>
   kl_rate k' = kl_rate k \<and> kl_burst k' = kl_burst k \<and> maxKeys k' = maxKeys k \<and> idleExpiry k' = idleExpiry k"
  by (auto simp: kl_recycle_def Let_def split: if_splits)

lemma kl_recycle_cases [consumes 1, case_names room reuse idle]:
  assumes "kl_recycle key now k = Some (k', q)"
  obtains "mlen (buckets k) < maxKeys k" "k' = k" "q = None"
  | "lru k \<noteq> []" "q = Some (last (lru k))" "now - kb_lastSeen (heap k (last (lru k))) < idleExpiry k"
    "k' = k\<lparr>heap := (heap k)(last (lru k) := (heap k (last (lru k)))\<lparr>kb_key := key\<rparr>),
           lru := moveToFront (last (lru k)) (lru k),
           buckets := mput key (last (lru k)) (mdel (kb_key (heap k (last (lru k)))) (buckets k))\<rparr>"
  | "lru k \<noteq> []" "q = None" "idleExpiry k \<le> now - kb_lastSeen (heap k (last (lru k)))"
    "k' = k\<lparr>buckets := mdel (kb_key (heap k (last (lru k)))) (buckets k), lru := butlast (lru k)\<rparr>"
proof -
  from assms have "mlen (buckets k) < maxKeys k \<and> k' = k \<and> q = None \<or>
      maxKeys k \<le> mlen (buckets k) \<and> lru k \<noteq> []"
    by (simp add: kl_recycle_def not_le split: if_splits)
  then show thesis
    using assms that by (cases "now - kb_lastSeen (heap k (last (lru k))) < idleExpiry k")
      (auto simp: kl_recycle_def Let_def)
qed

lemma kl_recycle_wf:
  assumes wf: "kl_wf k" and new: "mget (buckets k) key = None"
    and rec: "kl_recycle key now k = Some (k', q)"
  shows "kl_wf k'"
    and "q = Some p \<Longrightarrow> mget (buckets k') key = Some p"
    and "q = None \<Longrightarrow> mget (buckets k') key = None \<and> int (length (lru k')) < maxKeys k'"
proof -
  let ?o = "last (lru k)"
  have get: "\<And>key p. mget (buckets k) key = Some p \<longleftrightarrow> p \<in> set (lru k) \<and> kb_key (heap k p) = key"
    using wf by (auto simp: kl_wf_def)
  note len = kl_wf_len [OF wf]
  have "kl_wf k' \<and> (q = Some p \<longrightarrow> mget (buckets k') key = Some p) \<and>
      (q = None \<longrightarrow> mget (buckets k') key = None \<and> int (length (lru k')) < maxKeys k')"
    using rec
  proof (cases rule: kl_recycle_cases)
    case room
    then show ?thesis using wf new len by simp
  next
    case reuse
    have o: "?o \<in> set (lru k)" using reuse by simp
    have nk: "kb_key (heap k r) \<noteq> key" if "r \<in> set (lru k)" for r
      using get [of key r] new that by auto
    have ko: "key \<noteq> kb_key (heap k ?o)" using nk [OF o] by simp
    have "kb_key (heap k r) \<noteq> kb_key (heap k ?o)" if "r \<in> set (lru k)" "r \<noteq> ?o" for r
      using get that o by (metis option.inject)
    with nk ko show ?thesis using reuse wf o unfolding kl_wf_def by auto
  next
    case idle
    have o: "?o \<in> set (lru k)" using idle by simp
    have d: "distinct (lru k)" using wf by (simp add: kl_wf_def)
    have "kb_key (heap k r) \<noteq> kb_key (heap k ?o)" if "r \<in> set (lru k)" "r \<noteq> ?o" for r
      using get that o by (metis option.inject)
    moreover have "int (length (lru k) - Suc 0) < maxKeys k"
      using idle(1) wf by (cases "lru k") (auto simp: kl_wf_def)
    ultimately show ?thesis using idle wf o new set_butlast_distinct [OF d idle(1)] d
      unfolding kl_wf_def by (auto simp: distinct_butlast)
  qed
  then show "kl_wf k'" "q = Some p \<Longrightarrow> mget (buckets k') key = Some p"
    "q = None \<Longrightarrow> mget (buckets k') key = None \<and> int (length (lru k')) < maxKeys k'"
    by auto
qed

lemma kl_insert_wf:
  "kl_wf k \<Longrightarrow> mget (buckets k) key = None \<Longrightarrow> int (length (lru k)) < maxKeys k \<Longrightarrow>
   kl_wf (fst (kl_insert key now k)) \<and>
   mget (buckets (fst (kl_insert key now k))) key = Some (snd (kl_insert key now k))"
  unfolding kl_wf_def kl_insert_def Let_def by (auto, metis option.distinct(1))

lemma kl_bind_wf:
  assumes "kl_wf k" and "kl_bind key now k = Some (k', p)"
  shows "kl_wf k'" and "mget (buckets k') key = Some p"
proof -
  have "kl_wf k' \<and> mget (buckets k') key = Some p"
  proof (cases "mget (buckets k) key")
    case (Some a)
    then show ?thesis using assms kl_wf_touch by (auto simp: kl_bind_def)
  next
    case None
    then obtain k1 q where r: "kl_recycle key now k = Some (k1, q)"
      using assms by (auto simp: kl_bind_def split: option.splits)
    then show ?thesis
      using assms None kl_recycle_wf [OF assms(1) None r] kl_insert_wf [of k1 key now]
      by (auto simp: kl_bind_def split: option.splits)
  qed
  then show "kl_wf k'" "mget (buckets k') key = Some p" by auto
qed

lemma kl_charge_shape [frame_simps]:
  "buckets (fst (kl_charge p n now k)) = buckets k" "lru (fst (kl_charge p n now k)) = lru k"
  "next_addr (fst (kl_charge p n now k)) = next_addr k"
  "kb_key (heap (fst (kl_charge p n now k)) r) = kb_key (heap k r)"
  "kl_rate (fst (kl_charge p n now k)) = kl_rate k" "kl_burst (fst (kl_charge p n now k)) = kl_burst k"
  "maxKeys (fst (kl_charge p n now k)) = maxKeys k"
  "idleExpiry (fst (kl_charge p n now k)) = idleExpiry k"
  by (simp_all add: kl_charge_def Let_def)

lemma kl_charge_wf: "kl_wf k \<Longrightarrow> kl_wf (fst (kl_charge p n now k))"
  by (simp add: kl_wf_def frame_simps)

lemma KeyedLimiter_AllowN_wf: "kl_wf k \<Longrightarrow> kl_wf (fst (KeyedLimiter_AllowN key n now k))"
  using kl_bind_wf(1) kl_charge_wf
  by (auto simp: KeyedLimiter_AllowN_def split: option.splits)

section \<open>The keyed limiter: tokens\<close>

definition kb_avail :: "KeyedLimiter \<Rightarrow> nat \<Rightarrow> int \<Rightarrow> rat" where
  "kb_avail k p t = avail (kl_rate k) (kl_burst k) (kb_tokens (heap k p)) (t - kb_lastRefill (heap k p))"

definition slots :: "KeyedLimiter \<Rightarrow> rat" where
  "slots k = of_int (max 0 (maxKeys k))"

definition kl_inv :: "KeyedLimiter \<Rightarrow> int \<Rightarrow> bool" where
  "kl_inv k t \<longleftrightarrow> kl_wf k \<and> 0 \<le> kl_rate k \<and> 0 \<le> kl_burst k \<and>
     kl_burst k \<le> kl_rate k * Seconds (idleExpiry k) \<and>
     (\<forall>p\<in>set (lru k). 0 \<le> kb_tokens (heap k p) \<and> kb_tokens (heap k p) \<le> kl_burst k \<and>
        kb_lastRefill (heap k p) \<le> kb_lastSeen (heap k p) \<and> kb_lastSeen (heap k p) \<le> t)"

text \<open>
  The potential: what every slot of the table holds, a slot not yet in use counting as a
  full bucket.
\<close>

definition kl_pot :: "KeyedLimiter \<Rightarrow> int \<Rightarrow> rat" where
  "kl_pot k t = (\<Sum>p\<in>set (lru k). kb_avail k p t) + (slots k - of_nat (length (lru k))) * kl_burst k"

lemma kl_inv_later: "kl_inv k t \<Longrightarrow> t \<le> u \<Longrightarrow> kl_inv k u"
  by (auto simp: kl_inv_def intro: order_trans)

lemma kl_inv_room: "kl_wf k \<Longrightarrow> of_nat (length (lru k)) \<le> slots k"
  unfolding kl_wf_def slots_def by (metis of_int_le_iff of_int_of_nat_eq)

lemma kb_avail_bounds:
  assumes "kl_inv k t" "p \<in> set (lru k)"
  shows "0 \<le> kb_avail k p t" "kb_avail k p t \<le> kl_burst k"
proof -
  have "0 \<le> kl_rate k * Seconds (t - kb_lastRefill (heap k p))" "0 \<le> kb_tokens (heap k p)" "0 \<le> kl_burst k"
    using assms by (auto simp: kl_inv_def intro!: mult_nonneg_nonneg)
  then show "0 \<le> kb_avail k p t" "kb_avail k p t \<le> kl_burst k"
    by (auto simp: kb_avail_def avail_def)
qed

lemma kl_pot_nonneg: "kl_inv k t \<Longrightarrow> 0 \<le> kl_pot k t"
  unfolding kl_pot_def
  by (intro add_nonneg_nonneg sum_nonneg mult_nonneg_nonneg)
    (auto simp: kb_avail_bounds kl_inv_def kl_inv_room)

lemma kl_pot_time:
  assumes inv: "kl_inv k t" and tu: "t \<le> u"
  shows "kl_pot k u \<le> kl_pot k t + (slots k * kl_rate k) * Seconds (u - t)"
proof -
  have r: "0 \<le> kl_rate k" and d: "distinct (lru k)" and wf: "kl_wf k"
    using inv by (auto simp: kl_inv_def kl_wf_def)
  have "kb_avail k p u \<le> kb_avail k p t + kl_rate k * Seconds (u - t)" for p
    using avail_time [OF r, of "t - kb_lastRefill (heap k p)" "u - kb_lastRefill (heap k p)"] tu
    by (simp add: kb_avail_def)
  then have "(\<Sum>p\<in>set (lru k). kb_avail k p u)
      \<le> (\<Sum>p\<in>set (lru k). kb_avail k p t + kl_rate k * Seconds (u - t))"
    by (rule sum_mono)
  also have "\<dots> = (\<Sum>p\<in>set (lru k). kb_avail k p t) + of_nat (length (lru k)) * (kl_rate k * Seconds (u - t))"
    using d by (simp add: sum.distrib distinct_card)
  also have "\<dots> \<le> (\<Sum>p\<in>set (lru k). kb_avail k p t) + slots k * (kl_rate k * Seconds (u - t))"
    using kl_inv_room [OF wf] r tu by (intro add_left_mono mult_right_mono) auto
  finally show ?thesis by (simp add: kl_pot_def mult.assoc)
qed

lemma kl_recycle_pot:
  assumes inv: "kl_inv k now" and new: "mget (buckets k) key = None"
    and rec: "kl_recycle key now k = Some (k', q)"
  shows "kl_inv k' now" "kl_pot k' now \<le> kl_pot k now"
proof -
  have wf: "kl_wf k" and wf': "kl_wf k'"
    using inv kl_recycle_wf(1) [OF _ new rec] by (auto simp: kl_inv_def)
  have d: "distinct (lru k)" using wf by (simp add: kl_wf_def)
  have "kl_inv k' now \<and> kl_pot k' now \<le> kl_pot k now"
    using rec
  proof (cases rule: kl_recycle_cases)
    case room
    then show ?thesis using inv by simp
  next
    case reuse
    have "kb_avail k' p now = kb_avail k p now" for p
      using reuse by (simp add: kb_avail_def)
    moreover have "kl_inv k' now" using reuse inv wf' by (auto simp: kl_inv_def)
    ultimately show ?thesis using reuse by (simp add: kl_pot_def slots_def)
  next
    case idle
    let ?o = "last (lru k)"
    have o: "?o \<in> set (lru k)" using idle by simp
    have s: "set (lru k') = set (lru k) - {?o}"
      using idle set_butlast_distinct [OF d] by simp
    have frame: "kl_rate k' = kl_rate k" "kl_burst k' = kl_burst k" "maxKeys k' = maxKeys k"
      "heap k' = heap k" "idleExpiry k' = idleExpiry k" "length (lru k') = length (lru k) - 1"
      using idle by simp_all
    have B: "kl_burst k \<le> kl_rate k * Seconds (idleExpiry k)" and r: "0 \<le> kl_rate k"
      and tok: "0 \<le> kb_tokens (heap k ?o)"
      and le: "kb_lastRefill (heap k ?o) \<le> kb_lastSeen (heap k ?o)"
      using inv o by (auto simp: kl_inv_def)
    have "idleExpiry k \<le> now - kb_lastRefill (heap k ?o)"
      using idle(3) le by linarith
    from mult_left_mono [OF Seconds_mono [OF this] r] B tok
    have full: "kb_avail k ?o now = kl_burst k"
      by (simp add: kb_avail_def avail_def min_def)
    have "(\<Sum>p\<in>set (lru k). kb_avail k p now) = kl_burst k + (\<Sum>p\<in>set (lru k) - {?o}. kb_avail k p now)"
      using o full by (simp add: sum.remove)
    moreover have "(of_nat (length (lru k')) :: rat) = of_nat (length (lru k)) - 1"
      using frame(6) idle(1) by (simp add: of_nat_diff Suc_le_eq)
    ultimately have "kl_pot k' now = kl_pot k now"
      using frame by (simp add: kl_pot_def s slots_def kb_avail_def algebra_simps)
    moreover have "kl_inv k' now" using inv wf' frame s by (auto simp: kl_inv_def)
    ultimately show ?thesis by simp
  qed
  then show "kl_inv k' now" "kl_pot k' now \<le> kl_pot k now" by auto
qed

lemma kl_insert_pot:
  assumes inv: "kl_inv k now" and new: "mget (buckets k) key = None" and room: "int (length (lru k)) < maxKeys k"
  shows "kl_inv (fst (kl_insert key now k)) now" "kl_pot (fst (kl_insert key now k)) now = kl_pot k now"
proof -
  have wf: "kl_wf k" using inv by (simp add: kl_inv_def)
  then have fresh: "next_addr k \<notin> set (lru k)" by (auto simp: kl_wf_def)
  show "kl_inv (fst (kl_insert key now k)) now"
    using inv kl_insert_wf [OF wf new room] fresh by (auto simp: kl_inv_def kl_insert_def Let_def)
  let ?k = "fst (kl_insert key now k)"
  have "(\<Sum>p\<in>set (lru k). kb_avail ?k p now) = (\<Sum>p\<in>set (lru k). kb_avail k p now)"
    using fresh by (intro sum.cong) (auto simp: kl_insert_def Let_def kb_avail_def)
  moreover have "kb_avail ?k (next_addr k) now = kl_burst k"
    by (simp add: kl_insert_def Let_def kb_avail_def avail_0)
  ultimately have "(\<Sum>p\<in>set (lru ?k). kb_avail ?k p now) = kl_burst k + (\<Sum>p\<in>set (lru k). kb_avail k p now)"
    using fresh by (simp add: kl_insert_def Let_def)
  then show "kl_pot ?k now = kl_pot k now"
    by (simp add: kl_pot_def slots_def) (simp add: kl_insert_def Let_def algebra_simps)
qed

lemma kl_bind_pot:
  assumes inv: "kl_inv k now" and b: "kl_bind key now k = Some (k', p)"
  shows "kl_inv k' now" "kl_pot k' now \<le> kl_pot k now"
proof -
  have wf: "kl_wf k" using inv by (simp add: kl_inv_def)
  have "kl_inv k' now \<and> kl_pot k' now \<le> kl_pot k now"
  proof (cases "mget (buckets k) key")
    case (Some a)
    then have "a \<in> set (lru k)" using wf by (auto simp: kl_wf_def)
    then show ?thesis using inv b Some kl_wf_touch [OF wf Some]
      by (auto simp: kl_bind_def kl_inv_def kl_pot_def slots_def kb_avail_def)
  next
    case None
    then obtain k1 q where r: "kl_recycle key now k = Some (k1, q)"
      using b by (auto simp: kl_bind_def split: option.splits)
    note kl_recycle_pot [OF inv None r] kl_recycle_wf(3) [OF wf None r]
    then show ?thesis using b None r kl_insert_pot [of k1 now key]
      by (auto simp: kl_bind_def split: option.splits)
  qed
  then show "kl_inv k' now" "kl_pot k' now \<le> kl_pot k now" by auto
qed

lemma kl_charge_avail:
  assumes "kl_inv k now" "p \<in> set (lru k)"
  shows "kl_charge p n now k =
    (let a = kb_avail k p now
     in (k\<lparr>heap := (heap k)(p := (heap k p)\<lparr>kb_lastSeen := now, kb_lastRefill := now,
            kb_tokens := (if n \<le> a then a - n else a)\<rparr>)\<rparr>, n \<le> a))"
proof -
  have "kb_lastRefill (heap k p) \<le> now" "kb_tokens (heap k p) \<le> kl_burst k"
    using assms by (auto simp: kl_inv_def)
  then show ?thesis
    by (cases "heap k p") (auto simp: kl_charge_def kb_avail_def avail_def Let_def min_def
        mult.commute less_le not_le)
qed

lemma kl_charge_pot:
  assumes inv: "kl_inv k now" and p: "p \<in> set (lru k)" and n: "0 \<le> n"
  shows "kl_inv (fst (kl_charge p n now k)) now"
    and "kl_pot (fst (kl_charge p n now k)) now + (if snd (kl_charge p n now k) then n else 0)
      \<le> kl_pot k now"
proof -
  let ?a = "kb_avail k p now"
  note a = kb_avail_bounds [OF inv p]
  have wf: "kl_wf (fst (kl_charge p n now k))"
    using inv by (simp add: kl_inv_def kl_charge_wf)
  show "kl_inv (fst (kl_charge p n now k)) now"
    using inv wf a n p unfolding kl_charge_avail [OF inv p] by (auto simp: kl_inv_def Let_def)
  have "kb_avail (fst (kl_charge p n now k)) p now = (if n \<le> ?a then ?a - n else ?a)"
    using a n unfolding kl_charge_avail [OF inv p] by (auto simp: Let_def kb_avail_def avail_0)
  moreover have "kb_avail (fst (kl_charge p n now k)) r now = kb_avail k r now" if "r \<noteq> p" for r
    using that by (simp add: kl_charge_avail [OF inv p] Let_def kb_avail_def)
  ultimately show "kl_pot (fst (kl_charge p n now k)) now + (if snd (kl_charge p n now k) then n else 0)
      \<le> kl_pot k now"
    using p by (simp add: kl_pot_def slots_def frame_simps sum.remove kl_charge_avail [OF inv p] Let_def)
qed

lemma KeyedLimiter_AllowN_frame [frame_simps]:
  "kl_rate (fst (KeyedLimiter_AllowN key n now k)) = kl_rate k"
  "kl_burst (fst (KeyedLimiter_AllowN key n now k)) = kl_burst k"
  "maxKeys (fst (KeyedLimiter_AllowN key n now k)) = maxKeys k"
  "slots (fst (KeyedLimiter_AllowN key n now k)) = slots k"
  by (auto simp: KeyedLimiter_AllowN_def kl_bind_def kl_insert_def Let_def frame_simps slots_def
      dest: kl_recycle_frame split: option.splits)

interpretation kt: token_limiter keyed_allow snd kl_pot "\<lambda>k. slots k * kl_rate k" kl_inv
proof
  fix k :: KeyedLimiter and t now :: int and r :: "string \<times> rat"
  assume "kl_inv k t" and le: "t \<le> now" and n: "0 \<le> snd r"
  then have inv: "kl_inv k now" by (rule_tac kl_inv_later)
  show "kl_inv (fst (keyed_allow r now k)) now"
    using inv kl_bind_pot [OF inv, of "fst r"] kl_charge_pot(1) [of _ now _ "snd r"] n
      kl_bind_wf [of k "fst r" now] kl_wf_def
    by (auto simp: keyed_allow_def KeyedLimiter_AllowN_def kl_inv_def split: option.splits)
  show "kl_pot (fst (keyed_allow r now k)) now + (if snd (keyed_allow r now k) then snd r else 0)
      \<le> kl_pot k now"
  proof (cases "kl_bind (fst r) now k")
    case None
    then show ?thesis by (simp add: keyed_allow_def KeyedLimiter_AllowN_def)
  next
    case (Some z)
    obtain k1 p where z: "z = (k1, p)" by (cases z)
    note b = kl_bind_pot [OF inv Some [unfolded z]]
    have "p \<in> set (lru k1)"
      using kl_bind_wf [OF _ Some [unfolded z]] inv by (auto simp: kl_inv_def kl_wf_def)
    from kl_charge_pot(2) [OF b(1) this n] b(2) Some z show ?thesis
      by (auto simp: keyed_allow_def KeyedLimiter_AllowN_def)
  qed
qed (auto simp: keyed_allow_def frame_simps kl_pot_nonneg kl_pot_time)

lemma NewKeyedLimiter_wf: "kl_wf (NewKeyedLimiter r m mk idle)"
  by (simp add: kl_wf_def NewKeyedLimiter_def)

lemma NewKeyedLimiter_inv:
  "0 \<le> r \<Longrightarrow> 0 \<le> m \<Longrightarrow> m \<le> r * Seconds idle \<Longrightarrow> kl_inv (NewKeyedLimiter r m mk idle) t"
  using NewKeyedLimiter_wf [of r m mk idle] by (simp add: kl_inv_def NewKeyedLimiter_def)

fun keyed_run :: "KeyedLimiter \<Rightarrow> (int \<times> string \<times> rat) list \<Rightarrow> KeyedLimiter" where
  "keyed_run k [] = k"
| "keyed_run k ((t, r) # rs) = keyed_run (fst (keyed_allow r t k)) rs"

lemma keyed_run_wf: "kl_wf k \<Longrightarrow> kl_wf (keyed_run k rs) \<and> maxKeys (keyed_run k rs) = maxKeys k"
  by (induction k rs rule: keyed_run.induct)
    (auto simp: keyed_allow_def KeyedLimiter_AllowN_wf frame_simps)

section \<open>Properties\<close>

text \<open>
  A token bucket never grants more than its capacity plus what its rate refills: over
  any sequence of \<open>AllowN\<close> calls at non-decreasing times, the total cost of the granted
  ones is at most \<open>burst + rate * elapsed\<close>.
\<close>

theorem bucket_grant_bound:
  assumes "0 \<le> r" "0 \<le> m" "sorted (t0 # map fst rs)" "\<forall>x\<in>set rs. 0 \<le> snd x"
  shows "granted Bucket_AllowN (\<lambda>n. n) (NewBucket r m t0) rs
    \<le> m + r * Seconds (last (t0 # map fst rs) - t0)"
proof -
  have "bucket_pot (NewBucket r m t0) t0 = m" "rate (NewBucket r m t0) = r"
    by (simp_all add: bucket_pot_def NewBucket_def avail_0)
  with tb.granted_le_pot [OF NewBucket_inv [OF assms(1,2) order_refl] assms(3,4)]
  show ?thesis by simp
qed

theorem bucket_grant_bound_witness:
  "granted Bucket_AllowN (\<lambda>n. n) (NewBucket 1 2 0) [(0, 1), (0, 1), (second, 1)]
    \<le> 2 + 1 * Seconds (last [0, 0, 0, second] - 0)"
  using bucket_grant_bound [of 1 2 0 "[(0, 1), (0, 1), (second, 1)]"] by (simp add: second_def)

text \<open>
  C16. Rotating keys buys nothing when an idle bucket would have refilled anyway: if
  \<open>burst \<le> rate * idleExpiry\<close>, which the limits of the server are not checked for, everything the per-key limiter grants over any sequence of
  requests under any keys, with clock readings that do not go back, is at most \<open>maxKeys\<close> buckets' worth, however many keys appear and
  however often the table recycles its slots. Balances are exact rationals here, \<open>float64\<close> in the code.
\<close>

theorem keyed_grant_bound:
  assumes "0 \<le> r" "0 \<le> m" "m \<le> r * Seconds idle"
    and "sorted (t0 # map fst rs)" "\<forall>x\<in>set rs. 0 \<le> snd (snd x)"
  shows "granted keyed_allow snd (NewKeyedLimiter r m mk idle) rs
    \<le> of_int (max 0 mk) * (m + r * Seconds (last (t0 # map fst rs) - t0))"
proof -
  have eqs: "kl_pot (NewKeyedLimiter r m mk idle) t0 = of_int (max 0 mk) * m"
    "slots (NewKeyedLimiter r m mk idle) * kl_rate (NewKeyedLimiter r m mk idle) = of_int (max 0 mk) * r"
    by (simp_all add: kl_pot_def slots_def NewKeyedLimiter_def)
  from kt.granted_le_pot [OF NewKeyedLimiter_inv [OF assms(1-3)] assms(4,5), of mk]
  show ?thesis unfolding eqs by (simp only: distrib_left mult.assoc)
qed

theorem keyed_grant_bound_witness:
  "granted keyed_allow snd (NewKeyedLimiter 1 2 1 (2 * second)) [(0, ''a'', 2), (0, ''b'', 2)]
    \<le> of_int (max 0 1) * (2 + 1 * Seconds (last [0, 0, 0] - 0))"
  using keyed_grant_bound [of 1 2 "2 * second" 0 "[(0, ''a'', 2), (0, ''b'', 2)]" 1]
  by (simp add: Seconds_def second_def)

text \<open>
  The limiter's own memory is bounded: whatever the requests, the number of keys it
  tracks never exceeds \<open>maxKeys\<close>.
\<close>

theorem keyed_memory_bound:
  "KeyedLimiter_Len (keyed_run (NewKeyedLimiter r m mk idle) rs) \<le> max 0 mk"
proof -
  have "kl_wf (keyed_run (NewKeyedLimiter r m mk idle) rs)"
    and mk: "maxKeys (keyed_run (NewKeyedLimiter r m mk idle) rs) = mk"
    using keyed_run_wf [OF NewKeyedLimiter_wf] by (auto simp: NewKeyedLimiter_def)
  then show ?thesis
    using kl_wf_len by (auto simp: KeyedLimiter_Len_def kl_wf_def)
qed

text \<open>
  A bucket that has waited long enough grants: with \<open>n\<close> tokens' worth of time elapsed
  since the last refill and \<open>n\<close> within the capacity, \<open>AllowN\<close> succeeds.
\<close>

theorem bucket_eventually_grants:
  assumes "0 \<le> tokens b" "tokens b \<le> burst b" "n \<le> burst b"
    and "last_refill b \<le> now" "n \<le> rate b * Seconds (now - last_refill b)"
  shows "snd (Bucket_AllowN n now b)"
  using assms by (simp add: Bucket_AllowN_avail [OF assms(4,2)] Let_def bucket_pot_def avail_def)

theorem bucket_eventually_grants_witness:
  "snd (Bucket_AllowN 3 (2 * second) \<lparr>rate = 2, burst = 5, tokens = 0, last_refill = 0\<rparr>)"
  by (rule bucket_eventually_grants) (simp_all add: Seconds_def second_def)

end
