(* ===== verification/Replay.thy ===== *)
theory Replay
  imports Prelude
begin

text \<open>
  The anti-replay window of \<^verbatim>\<open>internal/agent/replay.go\<close>.

  \<open>replayGuard\<close> is the struct, with \<open>bits\<close> the array of sixteen \<open>uint64\<close>; \<open>accept\<close> keeps
  the 64-bit arithmetic of the source. The loop that clears the slots the window moves
  over is a \<^theory_text>\<open>partial_function\<close>: \<open>None\<close> means that it does not return, which the
  wrap-around of its counter makes possible.

  The specification is a set of the identifiers accepted so far (\<open>spec_accept\<close>); the
  refinement says that the bit array implements it, and \<open>accept_never_twice\<close> that no
  identifier is accepted twice.
\<close>

section \<open>Definitions\<close>

definition replayWindowBits :: nat where
  "replayWindowBits = 1024"

definition replayWindowWords :: nat where
  "replayWindowWords = replayWindowBits div 64"

record replayGuard =
  started :: bool
  highest :: "64 word"
  bits :: "64 word list"

definition replayGuard_reset :: "replayGuard \<Rightarrow> replayGuard" where
  "replayGuard_reset g =
     g\<lparr>started := False, highest := 0, bits := replicate replayWindowWords 0\<rparr>"

definition slot :: "64 word \<Rightarrow> nat \<times> 64 word" where
  "slot ident =
     (let pos = ident mod of_nat replayWindowBits
      in (unat (pos div 64), push_bit (unat (pos mod 64)) 1))"

definition replay_set :: "64 word \<Rightarrow> 64 word list \<Rightarrow> 64 word list" where
  "replay_set ident bs = (let (w, m) = slot ident in bs[w := bs ! w OR m])"

definition replay_clear :: "64 word \<Rightarrow> 64 word list \<Rightarrow> 64 word list" where
  "replay_clear ident bs = (let (w, m) = slot ident in bs[w := bs ! w AND NOT m])"

definition isSet :: "64 word \<Rightarrow> 64 word list \<Rightarrow> bool" where
  "isSet ident bs = (let (w, m) = slot ident in bs ! w AND m \<noteq> 0)"

text \<open>\<open>for v := g.highest + 1; v <= id; v++ { g.clear(v) }\<close>, on \<open>uint64\<close>.\<close>

partial_function (option) clear_range ::
  "64 word \<Rightarrow> 64 word \<Rightarrow> 64 word list \<Rightarrow> 64 word list option" where
  "clear_range v ident bs =
     (if v \<le> ident then clear_range (v + 1) ident (replay_clear v bs) else Some bs)"

definition accept :: "64 word \<Rightarrow> replayGuard \<Rightarrow> (replayGuard \<times> bool) option" where
  "accept ident g =
     (if \<not> started g
      then Some (g\<lparr>started := True, highest := ident, bits := replay_set ident (bits g)\<rparr>, True)
      else if ident > highest g
      then (case (if ident - highest g \<ge> of_nat replayWindowBits
                  then Some (replicate replayWindowWords 0)
                  else clear_range (highest g + 1) ident (bits g)) of
              None \<Rightarrow> None
            | Some bs \<Rightarrow> Some (g\<lparr>highest := ident, bits := replay_set ident bs\<rparr>, True))
      else if highest g - ident \<ge> of_nat replayWindowBits then Some (g, False)
      else if isSet ident (bits g) then Some (g, False)
      else Some (g\<lparr>bits := replay_set ident (bits g)\<rparr>, True))"

text \<open>The specification: a set of accepted identifiers and a sliding window.\<close>

definition spec_accept :: "nat set \<Rightarrow> nat \<Rightarrow> bool" where
  "spec_accept S i \<longleftrightarrow>
     S = {} \<or> Max S < i \<or> Max S - i < replayWindowBits \<and> i \<notin> S"

definition replay_refines :: "replayGuard \<Rightarrow> nat set \<Rightarrow> bool" where
  "replay_refines g S \<longleftrightarrow>
     length (bits g) = replayWindowWords \<and> finite S \<and> (started g \<longleftrightarrow> S \<noteq> {}) \<and>
     (if started g
      then unat (highest g) = Max S \<and>
           (\<forall>i. unat i \<le> Max S \<longrightarrow> Max S - unat i < replayWindowBits \<longrightarrow>
                (isSet i (bits g) \<longleftrightarrow> unat i \<in> S))
      else \<forall>i. \<not> isSet i (bits g))"

text \<open>Feeding the guard a sequence of identifiers: what it accepted, or \<open>None\<close> on a hang.\<close>

fun replay_run :: "replayGuard \<Rightarrow> 64 word list \<Rightarrow> 64 word list option" where
  "replay_run g [] = Some []"
| "replay_run g (i # is) =
     (case accept i g of
        None \<Rightarrow> None
      | Some (g', ok) \<Rightarrow> map_option (\<lambda>acc. if ok then i # acc else acc) (replay_run g' is))"

section \<open>The bit array\<close>

definition wpos :: "64 word \<Rightarrow> nat" where
  "wpos i = unat i mod 1024"

definition wbit :: "64 word list \<Rightarrow> nat \<Rightarrow> bool" where
  "wbit bs p = bit (bs ! (p div 64)) (p mod 64)"

lemmas window_consts = replayWindowBits_def replayWindowWords_def

lemma wpos_less [simp]: "wpos i < 1024" "wpos i div 64 < 16"
  by (auto simp: wpos_def)

lemma slot_conv: "slot i = (wpos i div 64, push_bit (wpos i mod 64) 1)"
proof -
  have "unat (i mod 1024) = wpos i"
    by (simp add: wpos_def unat_mod)
  then show ?thesis
    by (simp add: slot_def Let_def window_consts unat_div unat_mod)
qed

lemma isSet_conv: "isSet i bs = wbit bs (wpos i)"
  by (simp add: isSet_def slot_conv wbit_def bit_iff_and_push_bit_not_eq_0)

lemma same_slot: "p div 64 = q div 64 \<Longrightarrow> p mod 64 = q mod 64 \<Longrightarrow> p = (q :: nat)"
  by (metis div_mult_mod_eq)

lemma wbit_set:
  "length bs = 16 \<Longrightarrow> p < 1024 \<Longrightarrow> wbit (replay_set i bs) p = (p = wpos i \<or> wbit bs p)"
  by (auto simp: replay_set_def slot_conv wbit_def nth_list_update bit_simps dest: same_slot)

lemma wbit_clear:
  "length bs = 16 \<Longrightarrow> p < 1024 \<Longrightarrow> wbit (replay_clear i bs) p = (p \<noteq> wpos i \<and> wbit bs p)"
  by (auto simp: replay_clear_def slot_conv wbit_def nth_list_update bit_simps dest: same_slot)

lemma length_set [simp]: "length (replay_set i bs) = length bs"
  by (simp add: replay_set_def slot_conv)

lemma length_clear [simp]: "length (replay_clear i bs) = length bs"
  by (simp add: replay_clear_def slot_conv)

lemma wbit_zero: "p < 1024 \<Longrightarrow> \<not> wbit (replicate 16 0) p"
  by (simp add: wbit_def)

section \<open>The clearing loop\<close>

lemma unat_succ: "v \<noteq> - 1 \<Longrightarrow> unat (v + 1 :: 64 word) = Suc (unat v)"
  by (metis add.commute unatSuc add_eq_0_iff)

text \<open>The loop returns when the bound is not the largest \<open>uint64\<close>, and clears the range.\<close>

lemma clear_range_returns:
  assumes "ident \<noteq> - 1" "length bs = 16"
  shows "\<exists>bs'. clear_range v ident bs = Some bs' \<and> length bs' = 16 \<and>
    (\<forall>p<1024. wbit bs' p \<longleftrightarrow> wbit bs p \<and> (\<forall>x. v \<le> x \<longrightarrow> x \<le> ident \<longrightarrow> wpos x \<noteq> p))"
  using assms(2)
proof (induction "Suc (unat ident) - unat v" arbitrary: v bs)
  case 0
  then have "\<not> v \<le> ident" by (simp add: word_le_nat_alt)
  with 0 show ?case by (auto simp: clear_range.simps)
next
  case (Suc n)
  then have le: "v \<le> ident" by (simp add: word_le_nat_alt)
  then have "v \<noteq> - 1" using assms(1) by (metis word_order.extremum_uniqueI)
  then have s: "unat (v + 1) = Suc (unat v)" by (rule unat_succ)
  then have "n = Suc (unat ident) - unat (v + 1)" "length (replay_clear v bs) = 16"
    using Suc by simp_all
  from Suc.hyps(1) [OF this] obtain bs' where
    r: "clear_range (v + 1) ident (replay_clear v bs) = Some bs'" "length bs' = 16"
    and w: "\<And>p. p < 1024 \<Longrightarrow> wbit bs' p \<longleftrightarrow> wbit (replay_clear v bs) p \<and>
        (\<forall>x. v + 1 \<le> x \<longrightarrow> x \<le> ident \<longrightarrow> wpos x \<noteq> p)"
    by blast
  have "v \<le> x \<longleftrightarrow> x = v \<or> v + 1 \<le> x" for x
    using s by (auto simp: word_le_nat_alt word_unat_eq_iff)
  then have "\<forall>p<1024. wbit bs' p \<longleftrightarrow> wbit bs p \<and> (\<forall>x. v \<le> x \<longrightarrow> x \<le> ident \<longrightarrow> wpos x \<noteq> p)"
    using w le Suc.prems by (auto simp: wbit_clear)
  with r le show ?case by (auto simp: clear_range.simps [of v])
qed

text \<open>With the largest \<open>uint64\<close> as bound the counter wraps to 0 and the loop never ends.\<close>

lemma clear_range_Some_bound: "clear_range v ident bs = Some bs' \<Longrightarrow> ident \<noteq> - 1"
proof (rule clear_range.raw_induct [where P = "\<lambda>v ident bs bs'. ident \<noteq> - 1"])
  fix f v ident bs and bs' :: "64 word list"
  assume IH: "\<And>v ident bs y. f v ident bs = Some y \<Longrightarrow> ident \<noteq> - 1"
    and eq: "(if v \<le> ident then f (v + 1) ident (replay_clear v bs) else Some bs) = Some bs'"
  show "ident \<noteq> - 1"
  proof (cases "v \<le> ident")
    case True
    with eq IH show ?thesis by simp
  next
    case False
    then show ?thesis by (auto simp: word_order.extremum)
  qed
qed

lemma clear_range_None: "clear_range v (- 1) bs = None"
  using clear_range_Some_bound by (cases "clear_range v (- 1) bs") auto

section \<open>Refinement of the set specification\<close>

lemma nat_window_inj:
  assumes "a mod m = b mod m" "a \<le> h" "b \<le> h" "h - a < m" "h - b < (m :: nat)"
  shows "a = b"
proof -
  have "x = y" if "x \<le> y" "x mod m = y mod m" "y - x < m" for x y
    using that mod_eq_dvd_iff_nat [of x y m] nat_dvd_not_less [of "y - x" m] by fastforce
  from this [of a b] this [of b a] assms show ?thesis
    by (metis diff_le_mono le_less_trans nle_le)
qed

lemma window_inj:
  assumes "wpos i = wpos j" "unat i \<le> h" "unat j \<le> h" "h - unat i < 1024" "h - unat j < 1024"
  shows "i = j"
  using assms nat_window_inj [of "unat i" 1024 "unat j" h] by (simp add: wpos_def word_unat_eq_iff)

lemmas unat_eq = word_unat_eq_iff [symmetric]

lemma accept_None_iff:
  "length (bits g) = replayWindowWords \<Longrightarrow>
   accept i g = None \<longleftrightarrow> started g \<and> highest g < i \<and> i - highest g < 1024 \<and> i = - 1"
  using clear_range_returns [of i "bits g" "highest g + 1"] clear_range_None [of "highest g + 1" "bits g"]
  by (cases "i = - 1") (auto simp: accept_def window_consts not_le split: option.splits)

lemma unat_diff_less: "j \<le> i \<Longrightarrow> i - j < (1024 :: 64 word) \<longleftrightarrow> unat i - unat j < 1024"
  by (simp add: word_less_nat_alt unat_sub)

lemma refines_first:
  assumes "replay_refines g S" "\<not> started g"
  shows "replay_refines (g\<lparr>started := True, highest := i, bits := replay_set i (bits g)\<rparr>) {unat i}"
  using assms window_inj [of _ i "unat i"]
  by (auto simp: replay_refines_def window_consts isSet_conv wbit_set unat_eq)

lemma refines_jump:
  assumes r: "replay_refines g S" and st: "started g" and hi: "highest g < i"
    and far: "\<not> i - highest g < 1024"
  shows "replay_refines (g\<lparr>highest := i, bits := replay_set i (replicate 16 0)\<rparr>) (insert (unat i) S)"
proof -
  have S: "finite S" "S \<noteq> {}" and m: "unat (highest g) = Max S"
    using r st by (auto simp: replay_refines_def)
  have far': "1024 \<le> unat i - Max S" and gt: "Max S < unat i"
    using far hi m unat_diff_less [OF less_imp_le [OF hi]] by (auto simp: word_less_nat_alt [of "highest g"])
  then have max: "Max (insert (unat i) S) = unat i" using S by simp
  have notS: "unat j \<notin> S" if "unat i - unat j < 1024" for j :: "64 word"
    using Max_ge [OF S(1), of "unat j"] far' gt that by linarith
  show ?thesis
    using S r st max notS window_inj [of _ i "unat i"]
    by (auto simp: replay_refines_def window_consts isSet_conv wbit_set wbit_zero unat_eq)
qed

lemma refines_slide:
  assumes r: "replay_refines g S" and st: "started g" and hi: "highest g < i"
    and near: "i - highest g < 1024" and top: "i \<noteq> - 1"
  shows "\<exists>bs. clear_range (highest g + 1) i (bits g) = Some bs \<and>
    replay_refines (g\<lparr>highest := i, bits := replay_set i bs\<rparr>) (insert (unat i) S)"
proof -
  have S: "finite S" "S \<noteq> {}" and m: "unat (highest g) = Max S" and len: "length (bits g) = 16"
    and old: "\<And>j. unat j \<le> Max S \<Longrightarrow> Max S - unat j < 1024 \<Longrightarrow> wbit (bits g) (wpos j) \<longleftrightarrow> unat j \<in> S"
    using r st by (auto simp: replay_refines_def window_consts isSet_conv)
  have gt: "Max S < unat i" and near': "unat i - Max S < 1024"
    using near hi m unat_diff_less [OF less_imp_le [OF hi]] by (auto simp: word_less_nat_alt [of "highest g"])
  have "highest g \<noteq> - 1" using hi by (metis word_order.extremum_strict)
  then have low: "highest g + 1 \<le> x \<longleftrightarrow> Max S < unat x" for x
    using unat_succ m by (simp add: word_le_nat_alt Suc_le_eq)
  obtain bs where bs: "clear_range (highest g + 1) i (bits g) = Some bs" "length bs = 16"
    and w: "\<forall>p<1024. wbit bs p \<longleftrightarrow> wbit (bits g) p \<and>
        (\<forall>x. Max S < unat x \<longrightarrow> x \<le> i \<longrightarrow> wpos x \<noteq> p)"
    using clear_range_returns [OF top len, of "highest g + 1", unfolded low] by (elim exE conjE)
  have "wbit (replay_set i bs) (wpos j) \<longleftrightarrow> unat j \<in> insert (unat i) S"
    if j: "unat j \<le> unat i" "unat i - unat j < 1024" for j
  proof (cases "Max S < unat j")
    case True
    then have "unat j \<notin> S" using Max_ge [OF S(1)] by (meson leD)
    moreover have "\<not> wbit bs (wpos j)" using w True j by (auto simp: word_le_nat_alt)
    ultimately show ?thesis
      using bs(2) window_inj [of j i "unat i"] j by (auto simp: wbit_set unat_eq)
  next
    case False
    have "wpos x \<noteq> wpos j" if "Max S < unat x" "x \<le> i" for x
    proof -
      have "unat i - unat x < 1024" using that False j by linarith
      with window_inj [of x j "unat i"] that False j show ?thesis by (auto simp: word_le_nat_alt)
    qed
    moreover have "wpos j \<noteq> wpos i" "unat j \<noteq> unat i"
      using window_inj [of j i "unat i"] j False gt by auto
    ultimately show ?thesis
      using w old [of j] bs(2) False j near' gt by (auto simp: wbit_set)
  qed
  then show ?thesis
    using bs S gt st by (intro exI [of _ bs])
      (auto simp: replay_refines_def window_consts isSet_conv)
qed

lemma refines_late:
  assumes "replay_refines g S" "started g" "\<not> highest g < i" "highest g - i < 1024"
  shows "replay_refines (g\<lparr>bits := replay_set i (bits g)\<rparr>) (insert (unat i) S)"
proof -
  have S: "finite S" "S \<noteq> {}" and m: "unat (highest g) = Max S" and len: "length (bits g) = 16"
    using assms by (auto simp: replay_refines_def window_consts)
  have le: "unat i \<le> Max S" and near: "Max S - unat i < 1024"
    using assms m unat_diff_less [of i "highest g"] by (auto simp: word_less_nat_alt [of "highest g"] not_less word_le_nat_alt)
  then have max: "Max (insert (unat i) S) = Max S" using S by simp
  show ?thesis
    using assms S max len m le near window_inj [of _ i "Max S"]
    by (auto simp: replay_refines_def window_consts isSet_conv wbit_set unat_eq)
qed

lemma accept_refines:
  assumes r: "replay_refines g S"
    and ok: "\<not> (started g \<and> highest g < i \<and> i - highest g < 1024 \<and> i = - 1)"
  shows "\<exists>g'. accept i g = Some (g', spec_accept S (unat i)) \<and>
    replay_refines g' (if spec_accept S (unat i) then insert (unat i) S else S)"
proof (cases "started g")
  case False
  then have "S = {}" using r by (simp add: replay_refines_def)
  with refines_first [OF r False] False show ?thesis by (simp add: accept_def spec_accept_def)
next
  case st: True
  have S: "S \<noteq> {}" and m: "unat (highest g) = Max S"
    using r st by (auto simp: replay_refines_def)
  show ?thesis
  proof (cases "highest g < i")
    case True
    then have sp: "spec_accept S (unat i)" using m by (simp add: spec_accept_def word_less_nat_alt)
    show ?thesis
    proof (cases "i - highest g < 1024")
      case near: True
      from refines_slide [OF r st True near] ok st True near sp show ?thesis
        by (auto simp: accept_def window_consts not_le)
    next
      case far: False
      from refines_jump [OF r st True far] st True far sp show ?thesis
        by (auto simp: accept_def window_consts not_less)
    qed
  next
    case low: False
    then have le: "unat i \<le> Max S" using m by (simp add: word_less_nat_alt)
    have near: "highest g - i < 1024 \<longleftrightarrow> Max S - unat i < 1024"
      using low m by (simp add: unat_diff_less)
    have seen: "isSet i (bits g) \<longleftrightarrow> unat i \<in> S" if "Max S - unat i < 1024"
      using r st le that by (simp add: replay_refines_def window_consts)
    show ?thesis
      using low st S le near seen r refines_late [OF r st low]
      by (auto simp: accept_def spec_accept_def window_consts not_le not_less)
  qed
qed

lemma reset_refines: "replay_refines (replayGuard_reset g) {}"
  by (auto simp: replay_refines_def replayGuard_reset_def window_consts isSet_conv wbit_zero)

lemma accept_Some_refines:
  assumes r: "replay_refines g S" and a: "accept i g = Some (g', ok)"
  shows "replay_refines g' (if ok then insert (unat i) S else S)" "ok \<Longrightarrow> unat i \<notin> S"
proof -
  have len: "length (bits g) = replayWindowWords" using r by (simp add: replay_refines_def)
  have "\<not> (started g \<and> highest g < i \<and> i - highest g < 1024 \<and> i = - 1)"
    using a accept_None_iff [OF len, of i] by auto
  from accept_refines [OF r this] a have ok: "ok = spec_accept S (unat i)"
    and g': "replay_refines g' (if ok then insert (unat i) S else S)" by auto
  show "replay_refines g' (if ok then insert (unat i) S else S)" by (rule g')
  have "finite S" using r by (simp add: replay_refines_def)
  then show "ok \<Longrightarrow> unat i \<notin> S" using ok by (auto simp: spec_accept_def dest: Max_ge leD)
qed

lemma replay_run_distinct:
  "replay_refines g S \<Longrightarrow> replay_run g is = Some acc \<Longrightarrow>
   distinct acc \<and> unat ` set acc \<inter> S = {}"
proof (induction "is" arbitrary: g S acc)
  case Nil
  then show ?case by simp
next
  case (Cons i "is")
  then obtain g' ok acc' where a: "accept i g = Some (g', ok)" and r: "replay_run g' is = Some acc'"
    and acc: "acc = (if ok then i # acc' else acc')"
    by (auto split: option.splits)
  note step = accept_Some_refines [OF Cons.prems(1) a]
  from Cons.IH [OF step(1) r] have "distinct acc'" "unat ` set acc' \<inter> (if ok then insert (unat i) S else S) = {}" by auto
  then show ?case using step(2) acc by (auto split: if_splits)
qed

section \<open>Properties\<close>

text \<open>
  No identifier is accepted twice between two resets: over any sequence of identifiers,
  in any order and with any repetitions, the accepted ones are distinct.
\<close>

theorem replay_never_twice:
  "replay_run (replayGuard_reset g) is = Some acc \<Longrightarrow> distinct acc"
  using replay_run_distinct [OF reset_refines] by blast

theorem replay_never_twice_witness:
  "replay_run (replayGuard_reset \<lparr>started = True, highest = 9, bits = []\<rparr>) [5, 5] = Some [5] \<and>
   distinct [5 :: 64 word]"
proof -
  have "replay_run (replayGuard_reset \<lparr>started = True, highest = 9, bits = []\<rparr>) [5, 5] = Some [5]"
    by (simp add: accept_def replayGuard_reset_def replay_set_def isSet_def slot_def window_consts)
  with replay_never_twice show ?thesis by blast
qed

text \<open>
  C15. The sixteen words implement the sliding-window specification: from a guard that
  represents the accepted set \<open>S\<close>, \<open>accept\<close> returns for every identifier below the largest
  \<open>uint64\<close>, says yes exactly when the identifier is newer than everything accepted or is an
  unseen one at most 1023 behind, and the resulting guard represents the new set.
\<close>

theorem replay_window_refinement:
  assumes "replay_refines g S" "i \<noteq> - 1"
  shows "\<exists>g'. accept i g = Some (g', spec_accept S (unat i)) \<and>
    replay_refines g' (if spec_accept S (unat i) then insert (unat i) S else S)"
  by (rule accept_refines) (use assms in auto)

theorem replay_window_refinement_witness:
  "\<exists>g'. accept 7 (replayGuard_reset \<lparr>started = False, highest = 0, bits = []\<rparr>)
      = Some (g', spec_accept {} (unat (7 :: 64 word))) \<and>
    replay_refines g' (if spec_accept {} (unat (7 :: 64 word)) then insert (unat (7 :: 64 word)) {} else {})"
  by (rule replay_window_refinement [OF reset_refines]) simp

text \<open>
  C21. When \<open>accept\<close> does not return: exactly when the identifier is the largest \<open>uint64\<close> and
  lies less than a window ahead of the highest one, in which case the counter of the
  clearing loop wraps around and the loop runs forever (holding the guard's mutex).
\<close>

theorem replay_accept_hangs_iff:
  "length (bits g) = replayWindowWords \<Longrightarrow>
   accept i g = None \<longleftrightarrow> started g \<and> highest g < i \<and> i - highest g < 1024 \<and> i = - 1"
  by (rule accept_None_iff)

theorem replay_accept_hangs_iff_witness:
  "accept (- 1) \<lparr>started = True, highest = - 2, bits = replicate replayWindowWords 0\<rparr> = None"
  using replay_accept_hangs_iff
    [of "\<lparr>started = True, highest = - 2, bits = replicate replayWindowWords 0\<rparr>" "- 1"]
  by (simp add: word_less_def unsigned_minus_1_eq_mask mask_eq_exp_minus_1)

end
