(* ===== verification/Proto.thy ===== *)
theory Proto
  imports Prelude
begin

text \<open>
  The tool-channel protocol values of \<^verbatim>\<open>internal/proto\<close>: the message of \<^verbatim>\<open>message.go\<close>, the frames of \<^verbatim>\<open>tool.go\<close>, the
  additional authenticated data of \<^verbatim>\<open>aad.go\<close>, the negotiated session of \<^verbatim>\<open>session.go\<close> and
  the sealing functions of \<^verbatim>\<open>aead.go\<close>.

  XChaCha20-Poly1305 (\<^verbatim>\<open>golang.org/x/crypto\<close>) is a parameter: a \<open>cipher\<close> with its \<open>Seal\<close>
  and \<open>Open\<close>; a property that rests on its documented behaviour says so with the
  predicates \<open>cipher_correct\<close> and \<open>cipher_binds_aad\<close>. The textual wrapping of a ciphertext
  (a JSON string holding base64) is a parameter as well, the record \<open>armor\<close>.
  Random nonces are arguments: \<open>None\<close> is a failing entropy source.
\<close>

section \<open>Frames\<close>

record Message =
  msg_Type :: string
  msg_Payload :: bytes

definition MsgToolReq :: string where "MsgToolReq = ''tool_req''"
definition MsgToolResp :: string where "MsgToolResp = ''tool_resp''"
definition MsgToolStream :: string where "MsgToolStream = ''tool_stream''"
definition MsgToolCancel :: string where "MsgToolCancel = ''tool_cancel''"

lemmas tool_msg_types = MsgToolReq_def MsgToolResp_def MsgToolStream_def MsgToolCancel_def

record ToolReq =
  req_ID :: "64 word"
  req_Tool :: string
  req_ArgsJSON :: bytes
  req_DeadlineMs :: "32 word"

record ToolResp =
  resp_ID :: "64 word"
  resp_OK :: bool
  resp_ResultJSON :: bytes
  resp_ErrorCode :: string
  resp_ErrorMsg :: string

record StreamChunk =
  ch_ID :: "64 word"
  ch_Seq :: "32 word"
  ch_Fin :: bool
  ch_Stream :: string
  ch_Data :: bytes

record Cancel =
  can_ID :: "64 word"
  can_Reason :: string

record Hello =
  hel_Version :: string
  hel_Versions :: "string list"
  hel_Capabilities :: "string list"
  hel_NonceB64 :: string

record HelloAck =
  ack_Version :: string
  ack_Versions :: "string list"
  ack_Capabilities :: "string list"
  ack_NonceB64 :: string
  ack_Accept :: bool
  ack_ErrorMsg :: string

section \<open>Additional authenticated data\<close>

definition addString :: "bytes \<Rightarrow> string \<Rightarrow> bytes" where
  "addString buf s = buf @ be32 (of_nat (length s)) @ bytes_of_string s"

definition addUint64 :: "bytes \<Rightarrow> 64 word \<Rightarrow> bytes" where
  "addUint64 buf v = buf @ be64 v"

definition addUint32 :: "bytes \<Rightarrow> 32 word \<Rightarrow> bytes" where
  "addUint32 buf v = buf @ be32 v"

definition addBool :: "bytes \<Rightarrow> bool \<Rightarrow> bytes" where
  "addBool buf v = buf @ [if v then 1 else 0]"

definition newAADBuilder :: "string \<Rightarrow> bytes" where
  "newAADBuilder tag = addString [] tag"

definition ToolReqAAD :: "64 word \<Rightarrow> string \<Rightarrow> 32 word \<Rightarrow> bytes" where
  "ToolReqAAD i tool deadlineMs =
     addUint32 (addString (addUint64 (newAADBuilder ''req'') i) tool) deadlineMs"

definition ToolRespAAD :: "64 word \<Rightarrow> bool \<Rightarrow> string \<Rightarrow> string \<Rightarrow> bytes" where
  "ToolRespAAD i ok errorCode errorMsg =
     addString (addString (addBool (addUint64 (newAADBuilder ''resp'') i) ok) errorCode) errorMsg"

definition StreamChunkAAD :: "64 word \<Rightarrow> 32 word \<Rightarrow> string \<Rightarrow> bool \<Rightarrow> bytes" where
  "StreamChunkAAD i sq stream fin =
     addBool (addString (addUint32 (addUint64 (newAADBuilder ''chunk'') i) sq) stream) fin"

section \<open>Sessions\<close>

definition ToolProtocolVersionV1 :: string where "ToolProtocolVersionV1 = ''1''"
definition ToolProtocolVersionV2 :: string where "ToolProtocolVersionV2 = ''2''"
definition ToolProtocolVersion :: string where "ToolProtocolVersion = ToolProtocolVersionV2"

record Session =
  Key :: bytes
  Version :: string

definition zero_key :: bytes where
  "zero_key = replicate 32 0"

definition Active :: "Session \<Rightarrow> bool" where
  "Active s = (Key s \<noteq> zero_key)"

definition effectiveVersion :: "Session \<Rightarrow> string" where
  "effectiveVersion s = (if Version s = '''' then ToolProtocolVersion else Version s)"

definition Legacy :: "Session \<Rightarrow> bool" where
  "Legacy s = (effectiveVersion s = ToolProtocolVersionV1)"

definition RequireSealedResp :: "Session \<Rightarrow> bool" where
  "RequireSealedResp s = (\<not> Legacy s)"

definition RequireStreamTerminator :: "Session \<Rightarrow> bool" where
  "RequireStreamTerminator s = (\<not> Legacy s)"

definition AntiReplay :: "Session \<Rightarrow> bool" where
  "AntiReplay s = (\<not> Legacy s)"

definition ReqAAD :: "Session \<Rightarrow> 64 word \<Rightarrow> string \<Rightarrow> 32 word \<Rightarrow> bytes" where
  "ReqAAD s i tool deadlineMs = (if Legacy s then [] else ToolReqAAD i tool deadlineMs)"

definition RespAAD :: "Session \<Rightarrow> 64 word \<Rightarrow> bool \<Rightarrow> string \<Rightarrow> string \<Rightarrow> bytes" where
  "RespAAD s i ok errorCode errorMsg = (if Legacy s then [] else ToolRespAAD i ok errorCode errorMsg)"

definition StreamAAD :: "Session \<Rightarrow> 64 word \<Rightarrow> 32 word \<Rightarrow> string \<Rightarrow> bool \<Rightarrow> bytes" where
  "StreamAAD s i sq stream fin = (if Legacy s then [] else StreamChunkAAD i sq stream fin)"

section \<open>Sealing\<close>

text \<open>The AEAD of the third-party package: key, nonce, text, additional data.\<close>

record cipher =
  c_Seal :: "bytes \<Rightarrow> bytes \<Rightarrow> bytes \<Rightarrow> bytes \<Rightarrow> bytes"
  c_Open :: "bytes \<Rightarrow> bytes \<Rightarrow> bytes \<Rightarrow> bytes \<Rightarrow> bytes option"

definition cipher_correct :: "cipher \<Rightarrow> bool" where
  "cipher_correct c \<longleftrightarrow> (\<forall>k n p a. c_Open c k n (c_Seal c k n p a) a = Some p)"

definition cipher_binds_aad :: "cipher \<Rightarrow> bool" where
  "cipher_binds_aad c \<longleftrightarrow> (\<forall>k n p a a'. a' \<noteq> a \<longrightarrow> c_Open c k n (c_Seal c k n p a) a' = None)"

text \<open>The textual form of a ciphertext inside a JSON document, and its reader.\<close>

record armor =
  a_wrap :: "bytes \<Rightarrow> bytes"
  a_unwrap :: "bytes \<Rightarrow> bytes option"

definition armor_roundtrip :: "armor \<Rightarrow> bool" where
  "armor_roundtrip m \<longleftrightarrow> (\<forall>ct. a_unwrap m (a_wrap m ct) = Some ct)"

datatype aead_error = RandNonce | CiphertextTooShort | AeadOpen | BadWrapping

definition NonceSizeX :: nat where
  "NonceSizeX = 24"

definition AEADSeal :: "cipher \<Rightarrow> bytes option \<Rightarrow> bytes \<Rightarrow> bytes \<Rightarrow> bytes \<Rightarrow> aead_error + bytes" where
  "AEADSeal c rnd key plain aad =
     (case rnd of
        None \<Rightarrow> Inl RandNonce
      | Some nonce \<Rightarrow> Inr (nonce @ c_Seal c key nonce plain aad))"

definition AEADOpen :: "cipher \<Rightarrow> bytes \<Rightarrow> bytes \<Rightarrow> bytes \<Rightarrow> aead_error + bytes" where
  "AEADOpen c key ct aad =
     (if length ct < NonceSizeX then Inl CiphertextTooShort
      else case c_Open c key (take NonceSizeX ct) (drop NonceSizeX ct) aad of
             None \<Rightarrow> Inl AeadOpen
           | Some plain \<Rightarrow> Inr plain)"

definition AEADSealJSON ::
  "cipher \<Rightarrow> armor \<Rightarrow> bytes option \<Rightarrow> bytes \<Rightarrow> bytes \<Rightarrow> bytes \<Rightarrow> aead_error + bytes" where
  "AEADSealJSON c m rnd key plain aad =
     (case AEADSeal c rnd key plain aad of
        Inl e \<Rightarrow> Inl e
      | Inr ct \<Rightarrow> Inr (a_wrap m ct))"

definition AEADOpenJSON :: "cipher \<Rightarrow> armor \<Rightarrow> bytes \<Rightarrow> bytes \<Rightarrow> bytes \<Rightarrow> aead_error + bytes" where
  "AEADOpenJSON c m key raw aad =
     (case a_unwrap m raw of
        None \<Rightarrow> Inl BadWrapping
      | Some ct \<Rightarrow> AEADOpen c key ct aad)"

section \<open>Field boundaries\<close>

lemmas aad_defs = ToolReqAAD_def ToolRespAAD_def StreamChunkAAD_def newAADBuilder_def
  addString_def addUint64_def addUint32_def addBool_def

lemma str_field_inj:
  assumes eq: "be32 (of_nat (length s)) @ bytes_of_string s @ xs
      = be32 (of_nat (length t)) @ bytes_of_string t @ ys"
    and "length s < 2 ^ 32" "length t < 2 ^ 32"
  shows "s = t \<and> xs = ys"
proof -
  have "(of_nat (length s) :: 32 word) = of_nat (length t)" using eq by simp
  then have "length s = length t"
    using assms(2,3) by (intro of_nat_word_inj [where 'a = 32]) auto
  with eq show ?thesis by (auto dest: bytes_of_string_inj)
qed

lemma str_field_inj_end:
  assumes "be32 (of_nat (length s)) @ bytes_of_string s = be32 (of_nat (length t)) @ bytes_of_string t"
    and "length s < 2 ^ 32" "length t < 2 ^ 32"
  shows "s = t"
  using str_field_inj [of s "[]" t "[]"] assms by simp

lemma ToolReqAAD_inj:
  assumes "ToolReqAAD i tool d = ToolReqAAD i' tool' d'" "length tool < 2 ^ 32" "length tool' < 2 ^ 32"
  shows "i = i' \<and> tool = tool' \<and> d = d'"
  using assms str_field_inj [of tool "be32 d" tool' "be32 d'"]
  by (auto simp: aad_defs dest: be32_inj)

lemma ToolRespAAD_inj:
  assumes "ToolRespAAD i ok ec em = ToolRespAAD i' ok' ec' em'"
    and "length ec < 2 ^ 32" "length ec' < 2 ^ 32" "length em < 2 ^ 32" "length em' < 2 ^ 32"
  shows "i = i' \<and> ok = ok' \<and> ec = ec' \<and> em = em'"
proof -
  have "i = i'" "ok = ok'" and "be32 (of_nat (length ec)) @ bytes_of_string ec @ be32 (of_nat (length em)) @ bytes_of_string em
      = be32 (of_nat (length ec')) @ bytes_of_string ec' @ be32 (of_nat (length em')) @ bytes_of_string em'"
    using assms(1) by (auto simp: aad_defs split: if_splits)
  with str_field_inj [OF this(3) assms(2,3)] str_field_inj_end [OF _ assms(4,5)] show ?thesis by auto
qed

lemma StreamChunkAAD_inj:
  assumes "StreamChunkAAD i q st fin = StreamChunkAAD i' q' st' fin'"
    and "length st < 2 ^ 32" "length st' < 2 ^ 32"
  shows "i = i' \<and> q = q' \<and> st = st' \<and> fin = fin'"
  using assms str_field_inj [of st "[if fin then 1 else 0]" st' "[if fin' then 1 else 0]"]
  by (auto simp: aad_defs split: if_splits)

lemma aad_tags_disjoint:
  "ToolReqAAD i tool d \<noteq> ToolRespAAD i' ok ec em"
  "ToolReqAAD i tool d \<noteq> StreamChunkAAD i' q st fin"
  "ToolRespAAD i ok ec em \<noteq> StreamChunkAAD i' q st fin"
  by (simp_all add: aad_defs be32_def)

lemma AEADOpen_Seal:
  assumes "cipher_correct c" "length n = NonceSizeX" "AEADSeal c (Some n) k p a = Inr ct"
  shows "AEADOpen c k ct a = Inr p"
  using assms by (auto simp: AEADSeal_def AEADOpen_def cipher_correct_def)

lemma AEADOpen_other_aad:
  assumes "cipher_binds_aad c" "length n = NonceSizeX" "AEADSeal c (Some n) k p a = Inr ct" "a' \<noteq> a"
  shows "AEADOpen c k ct a' = Inl AeadOpen"
  using assms by (auto simp: AEADSeal_def AEADOpen_def cipher_binds_aad_def)

lemma AEADOpenJSON_SealJSON:
  assumes "cipher_correct c" "armor_roundtrip m" "length n = NonceSizeX"
    and "AEADSealJSON c m (Some n) k p a = Inr w"
  shows "AEADOpenJSON c m k w a = Inr p"
  using assms AEADOpen_Seal [OF assms(1,3)]
  by (auto simp: AEADSealJSON_def AEADOpenJSON_def armor_roundtrip_def split: sum.splits)

lemma AEADOpenJSON_other_aad:
  assumes "cipher_binds_aad c" "armor_roundtrip m" "length n = NonceSizeX"
    and "AEADSealJSON c m (Some n) k p a = Inr w" "a' \<noteq> a"
  shows "AEADOpenJSON c m k w a' = Inl AeadOpen"
  using assms AEADOpen_other_aad [OF assms(1,3)]
  by (auto simp: AEADSealJSON_def AEADOpenJSON_def armor_roundtrip_def split: sum.splits)

text \<open>
  A concrete cipher and wrapping for which the laws hold, used by the witnesses: the
  additional data is written in front of the text, each byte escaped.
\<close>

fun esc :: "bytes \<Rightarrow> bytes" where
  "esc [] = [0]"
| "esc (b # bs) = 1 # b # esc bs"

lemma esc_prefix_free: "take (length (esc a')) (esc a @ p) = esc a' \<Longrightarrow> a' = a"
proof (induction a arbitrary: a')
  case Nil
  then show ?case by (cases a') auto
next
  case (Cons b bs)
  then show ?case by (cases a') auto
qed

definition esc_cipher :: cipher where
  "esc_cipher = \<lparr>
     c_Seal = (\<lambda>k n p a. esc a @ p),
     c_Open = (\<lambda>k n ct a. if take (length (esc a)) ct = esc a then Some (drop (length (esc a)) ct) else None)\<rparr>"

definition plain_armor :: armor where
  "plain_armor = \<lparr>a_wrap = (\<lambda>b. b), a_unwrap = Some\<rparr>"

lemma esc_cipher_correct: "cipher_correct esc_cipher"
  by (simp add: cipher_correct_def esc_cipher_def)

lemma esc_cipher_binds: "cipher_binds_aad esc_cipher"
  unfolding cipher_binds_aad_def esc_cipher_def
  by (auto simp del: take_append dest: esc_prefix_free)

lemma plain_armor_roundtrip: "armor_roundtrip plain_armor"
  by (simp add: armor_roundtrip_def plain_armor_def)

lemmas esc_cipher_laws = esc_cipher_correct esc_cipher_binds plain_armor_roundtrip

section \<open>Properties\<close>

text \<open>
  A sealed request is bound to its clear-text fields: on a v2 session, with a cipher that
  rejects foreign additional data, the args of a request opened under any other call
  identifier, tool name or deadline, or as a response or stream frame, fail to open.
\<close>

theorem sealed_request_cannot_be_rebound:
  assumes "cipher_binds_aad c" "armor_roundtrip m" "\<not> Legacy s" "length n = NonceSizeX"
    and "AEADSealJSON c m (Some n) (Key s) p (ReqAAD s i tool d) = Inr w"
    and "length tool < 2 ^ 32" "length tool' < 2 ^ 32"
  shows "((i', tool', d') \<noteq> (i, tool, d) \<longrightarrow>
      AEADOpenJSON c m (Key s) w (ReqAAD s i' tool' d') = Inl AeadOpen) \<and>
    AEADOpenJSON c m (Key s) w (RespAAD s i' ok ec em) = Inl AeadOpen \<and>
    AEADOpenJSON c m (Key s) w (StreamAAD s i' q st fin) = Inl AeadOpen"
proof -
  note opn = AEADOpenJSON_other_aad [OF assms(1,2,4,5)]
  have aad: "ReqAAD s i tool d = ToolReqAAD i tool d" using assms(3) by (simp add: ReqAAD_def)
  have "ReqAAD s i' tool' d' \<noteq> ReqAAD s i tool d" if "(i', tool', d') \<noteq> (i, tool, d)"
    using that assms(3,6,7) ToolReqAAD_inj [of i' tool' d' i tool d] by (auto simp: ReqAAD_def)
  moreover have "RespAAD s i' ok ec em \<noteq> ReqAAD s i tool d" "StreamAAD s i' q st fin \<noteq> ReqAAD s i tool d"
    using assms(3) by (simp_all add: ReqAAD_def RespAAD_def StreamAAD_def aad_tags_disjoint [THEN not_sym])
  ultimately show ?thesis using opn by blast
qed

theorem sealed_request_cannot_be_rebound_witness:
  "AEADOpenJSON esc_cipher plain_armor (Key \<lparr>Key = [1], Version = ''2''\<rparr>)
     (replicate 24 0 @ esc (ToolReqAAD 1 ''read_file'' 0) @ [7])
     (ReqAAD \<lparr>Key = [1], Version = ''2''\<rparr> 1 ''write_file'' 0) = Inl AeadOpen"
proof -
  let ?s = "\<lparr>Key = [1], Version = ''2''\<rparr> :: Session"
  have v2: "\<not> Legacy ?s" by (simp add: Legacy_def effectiveVersion_def ToolProtocolVersionV1_def)
  have "AEADSealJSON esc_cipher plain_armor (Some (replicate 24 0)) (Key ?s) [7] (ReqAAD ?s 1 ''read_file'' 0)
      = Inr (replicate 24 0 @ esc (ToolReqAAD 1 ''read_file'' 0) @ [7])"
    using v2 by (simp add: AEADSealJSON_def AEADSeal_def esc_cipher_def plain_armor_def ReqAAD_def)
  from sealed_request_cannot_be_rebound [OF esc_cipher_laws(2,3) v2 _ this, of "''write_file''" 1 0]
  show ?thesis by (simp add: NonceSizeX_def)
qed

text \<open>
  A response is bound to its verdict: on a v2 session, the sealed result of a response
  opened with the success flag flipped, or with any other identifier, error code or error
  message, fails to open; with the fields it was sealed under it opens to the result.
\<close>

theorem sealed_response_bound_to_verdict:
  assumes "cipher_correct c" "cipher_binds_aad c" "armor_roundtrip m" "\<not> Legacy s" "length n = NonceSizeX"
    and "AEADSealJSON c m (Some n) (Key s) p (RespAAD s i ok ec em) = Inr w"
    and "length ec < 2 ^ 32" "length ec' < 2 ^ 32" "length em < 2 ^ 32" "length em' < 2 ^ 32"
  shows "AEADOpenJSON c m (Key s) w (RespAAD s i' ok' ec' em') =
    (if (i', ok', ec', em') = (i, ok, ec, em) then Inr p else Inl AeadOpen)"
proof (cases "(i', ok', ec', em') = (i, ok, ec, em)")
  case True
  then show ?thesis using AEADOpenJSON_SealJSON [OF assms(1,3,5,6)] by simp
next
  case False
  then have "RespAAD s i' ok' ec' em' \<noteq> RespAAD s i ok ec em"
    using assms(4,7-10) ToolRespAAD_inj [of i' ok' ec' em' i ok ec em] by (auto simp: RespAAD_def)
  with False show ?thesis using AEADOpenJSON_other_aad [OF assms(2,3,5,6)] by simp
qed

theorem sealed_response_bound_to_verdict_witness:
  "AEADOpenJSON esc_cipher plain_armor [1]
     (replicate 24 0 @ esc (ToolRespAAD 1 True [] []) @ [7])
     (RespAAD \<lparr>Key = [1], Version = ''2''\<rparr> 1 False [] []) = Inl AeadOpen"
proof -
  let ?s = "\<lparr>Key = [1], Version = ''2''\<rparr> :: Session"
  have v2: "\<not> Legacy ?s" by (simp add: Legacy_def effectiveVersion_def ToolProtocolVersionV1_def)
  have "AEADSealJSON esc_cipher plain_armor (Some (replicate 24 0)) (Key ?s) [7] (RespAAD ?s 1 True [] [])
      = Inr (replicate 24 0 @ esc (ToolRespAAD 1 True [] []) @ [7])"
    using v2 by (simp add: AEADSealJSON_def AEADSeal_def esc_cipher_def plain_armor_def RespAAD_def)
  from sealed_response_bound_to_verdict [OF esc_cipher_laws v2 _ this, of "[]" "[]" 1 False]
  show ?thesis by (simp add: NonceSizeX_def)
qed

end
