(* ===== verification/Handshake.thy ===== *)
theory Handshake
  imports Proto
begin

text \<open>
  Version negotiation and key derivation of the tool channel: \<^verbatim>\<open>internal/proto/handshake.go\<close>,
  and the two ends that use it, \<open>buildHelloAck\<close> of \<^verbatim>\<open>internal/client/share.go\<close> and
  \<open>handshakeToolCapturing\<close> / \<open>sessionFromAck\<close> of \<^verbatim>\<open>internal/client/help_mcp.go\<close>.

  HKDF (\<^verbatim>\<open>golang.org/x/crypto/hkdf\<close>) is the parameter \<open>kdf\<close> (secret, salt, info), random
  nonces are arguments, and the texts of the error messages are not modelled: an error
  carries the values its text is made of.
\<close>

section \<open>Definitions\<close>

definition DefaultMinProto :: string where
  "DefaultMinProto = ToolProtocolVersionV2"

definition SupportedToolVersions :: "string list" where
  "SupportedToolVersions = [ToolProtocolVersionV2, ToolProtocolVersionV1]"

datatype side = SideShare | SideHelp

datatype proto_error =
    IncompatibleVersionError side side string string \<comment> \<open>local side, peer side, want, got\<close>
  | PeerRejected string
  | UnsupportedChosen string
  | SuspiciousChoice string string
  | BadMinProto string
  | NoAck

fun versionRank_from :: "int \<Rightarrow> string list \<Rightarrow> string \<Rightarrow> int" where
  "versionRank_from i [] v = -1"
| "versionRank_from i (s # ss) v = (if s = v then i else versionRank_from (i + 1) ss v)"

definition versionRank :: "string \<Rightarrow> int" where
  "versionRank v = versionRank_from 0 SupportedToolVersions v"

definition SatisfiesMinProto :: "string \<Rightarrow> string \<Rightarrow> bool" where
  "SatisfiesMinProto v flr =
     (let f = (if flr = [] then DefaultMinProto else flr); r = versionRank v
      in r \<ge> 0 \<and> r \<le> versionRank f)"

definition NormalizeMinProto :: "string \<Rightarrow> proto_error + string" where
  "NormalizeMinProto v =
     (if v = [] then Inr DefaultMinProto
      else if versionRank v < 0 then Inl (BadMinProto v)
      else Inr v)"

definition DeriveSessionKey ::
  "(bytes \<Rightarrow> bytes \<Rightarrow> bytes \<Rightarrow> bytes) \<Rightarrow> string \<Rightarrow> string \<Rightarrow> string \<Rightarrow> string \<Rightarrow> bytes" where
  "DeriveSessionKey kdf code nonceShare nonceHelp version =
     (let v = (if version = [] then ToolProtocolVersion else version);
          salt = bytes_of_string (nonceShare @ ''|'' @ nonceHelp);
          info = bytes_of_string (''rat-tool-v'' @ v)
      in kdf (bytes_of_string code) salt info)"

definition ToolCapabilities :: "string list" where
  "ToolCapabilities = [''exec'', ''read_file'', ''write_file'', ''list_dir'', ''stat'', ''glob'',
     ''grep'', ''process_list'', ''tail_log'']"

definition supportedDownTo :: "string \<Rightarrow> string list" where
  "supportedDownTo minProto =
     (let f = (if minProto = [] then DefaultMinProto else minProto)
      in filter (\<lambda>v. versionRank v \<le> versionRank f) SupportedToolVersions)"

definition helloWithAnchor :: "string \<Rightarrow> string \<Rightarrow> string \<Rightarrow> Hello" where
  "helloWithAnchor anchor minProto nonce =
     \<lparr>hel_Version = anchor, hel_Versions = supportedDownTo minProto,
      hel_Capabilities = ToolCapabilities, hel_NonceB64 = nonce\<rparr>"

definition NewHello :: "string \<Rightarrow> string \<Rightarrow> Hello" where
  "NewHello minProto nonce = helloWithAnchor ToolProtocolVersion minProto nonce"

definition NewFallbackHello :: "string \<Rightarrow> string \<Rightarrow> Hello" where
  "NewFallbackHello minProto nonce =
     (let f = (if minProto = [] then DefaultMinProto else minProto) in helloWithAnchor f f nonce)"

definition ShouldRetryWithFallbackAnchor :: "HelloAck \<Rightarrow> string \<Rightarrow> bool" where
  "ShouldRetryWithFallbackAnchor ack minProto =
     (if ack_Accept ack then False
      else (if minProto = [] then DefaultMinProto else minProto) \<noteq> ToolProtocolVersion)"

definition peerVersions :: "string \<Rightarrow> string list \<Rightarrow> string list" where
  "peerVersions single list =
     (if length list > 0 then list else if single = [] then [] else [single])"

definition peerBestVersion :: "string \<Rightarrow> string list \<Rightarrow> string" where
  "peerBestVersion single list =
     foldl (\<lambda>best p. if versionRank p < 0 then best
                     else if best = [] \<or> versionRank p < versionRank best then p else best)
       [] (peerVersions single list)"

definition NegotiateToolVersion ::
  "string \<Rightarrow> string list \<Rightarrow> string \<Rightarrow> side \<Rightarrow> side \<Rightarrow> proto_error + string" where
  "NegotiateToolVersion single list minProto localSide peerSide =
     (let f = (if minProto = [] then DefaultMinProto else minProto);
          peer = peerVersions single list;
          best = (case find (\<lambda>v. v \<in> set peer) SupportedToolVersions of None \<Rightarrow> [] | Some v \<Rightarrow> v);
          peerBest = peerBestVersion single list
      in if best = [] \<or> versionRank best > versionRank f
         then Inl (IncompatibleVersionError localSide peerSide f peerBest)
         else Inr best)"

fun betterVersionThan :: "string \<Rightarrow> string list \<Rightarrow> string \<Rightarrow> string" where
  "betterVersionThan chosen [] minProto = []"
| "betterVersionThan chosen (v # vs) minProto =
     (if versionRank v < 0 then betterVersionThan chosen vs minProto
      else if versionRank v > versionRank minProto then betterVersionThan chosen vs minProto
      else if versionRank v < versionRank chosen then v
      else betterVersionThan chosen vs minProto)"

definition InterpretHelloAck :: "HelloAck \<Rightarrow> string \<Rightarrow> side \<Rightarrow> side \<Rightarrow> proto_error + string" where
  "InterpretHelloAck ack minProto localSide peerSide =
     (let f = (if minProto = [] then DefaultMinProto else minProto)
      in if \<not> ack_Accept ack
         then (let peerBest = peerBestVersion (ack_Version ack) (ack_Versions ack)
               in if peerBest \<noteq> [] \<and> versionRank peerBest > versionRank f
                  then Inl (IncompatibleVersionError localSide peerSide f peerBest)
                  else Inl (PeerRejected (ack_ErrorMsg ack)))
         else let chosen = (if ack_Version ack = [] then ToolProtocolVersionV1 else ack_Version ack)
              in if versionRank chosen < 0 then Inl (UnsupportedChosen chosen)
                 else if versionRank chosen > versionRank f
                 then Inl (IncompatibleVersionError localSide peerSide f chosen)
                 else let newer = betterVersionThan chosen (ack_Versions ack) f
                      in if newer \<noteq> [] then Inl (SuspiciousChoice chosen newer) else Inr chosen)"

subsection \<open>The two ends\<close>

text \<open>
  \<open>buildHelloAck\<close>: the answer and, when the version could be agreed, the session. The text
  in the answer's error field is rendered by \<open>render\<close>.
\<close>

definition buildHelloAck ::
  "(bytes \<Rightarrow> bytes \<Rightarrow> bytes \<Rightarrow> bytes) \<Rightarrow> (proto_error \<Rightarrow> string) \<Rightarrow> string \<Rightarrow>
   Hello \<Rightarrow> string \<Rightarrow> string \<Rightarrow> HelloAck \<times> (proto_error + Session)" where
  "buildHelloAck kdf render nonce hello code minProto =
     (case NegotiateToolVersion (hel_Version hello) (hel_Versions hello) minProto SideShare SideHelp of
        Inl e \<Rightarrow> (\<lparr>ack_Version = ToolProtocolVersion, ack_Versions = supportedDownTo minProto,
                   ack_Capabilities = [], ack_NonceB64 = [], ack_Accept = False, ack_ErrorMsg = render e\<rparr>, Inl e)
      | Inr version \<Rightarrow>
          (\<lparr>ack_Version = version, ack_Versions = supportedDownTo minProto,
            ack_Capabilities = ToolCapabilities, ack_NonceB64 = nonce, ack_Accept = True, ack_ErrorMsg = []\<rparr>,
           Inr \<lparr>Key = DeriveSessionKey kdf code nonce (hel_NonceB64 hello) version, Version = version\<rparr>))"

definition sessionFromAck ::
  "(bytes \<Rightarrow> bytes \<Rightarrow> bytes \<Rightarrow> bytes) \<Rightarrow> string \<Rightarrow> string \<Rightarrow> HelloAck \<Rightarrow> Hello \<Rightarrow> proto_error + Session" where
  "sessionFromAck kdf code minProto ack hello =
     (case InterpretHelloAck ack minProto SideHelp SideShare of
        Inl e \<Rightarrow> Inl e
      | Inr version \<Rightarrow>
          Inr \<lparr>Key = DeriveSessionKey kdf code (ack_NonceB64 ack) (hel_NonceB64 hello) version,
               Version = version\<rparr>)"

text \<open>
  The initiator: \<open>peer\<close> is what comes back for a Hello (\<open>None\<close>: the connection failed),
  \<open>n1\<close> and \<open>n2\<close> the nonces of the two rounds.
\<close>

definition handshakeTool ::
  "(bytes \<Rightarrow> bytes \<Rightarrow> bytes \<Rightarrow> bytes) \<Rightarrow> string \<Rightarrow> string \<Rightarrow> string \<Rightarrow> string \<Rightarrow>
   (Hello \<Rightarrow> HelloAck option) \<Rightarrow> proto_error + Session" where
  "handshakeTool kdf code minProto n1 n2 peer =
     (let hello = NewHello minProto n1
      in case peer hello of
           None \<Rightarrow> Inl NoAck
         | Some ack \<Rightarrow>
             if ShouldRetryWithFallbackAnchor ack minProto
             then let hello2 = NewFallbackHello minProto n2
                  in case peer hello2 of
                       None \<Rightarrow> Inl NoAck
                     | Some ack2 \<Rightarrow> sessionFromAck kdf code minProto ack2 hello2
             else sessionFromAck kdf code minProto ack hello)"

section \<open>Ranks\<close>

lemmas version_consts = ToolProtocolVersion_def ToolProtocolVersionV1_def ToolProtocolVersionV2_def
  DefaultMinProto_def SupportedToolVersions_def

lemma versionRank_eq: "versionRank v = (if v = ''2'' then 0 else if v = ''1'' then 1 else -1)"
  by (simp add: versionRank_def version_consts)

lemma supportedDownTo_eq:
  "supportedDownTo m = (if m = ''1'' then [''2'', ''1''] else if m = ''2'' \<or> m = [] then [''2''] else [])"
  by (auto simp: supportedDownTo_def versionRank_eq version_consts)

lemma SatisfiesMinProto_eq:
  "SatisfiesMinProto v m \<longleftrightarrow> v = ''2'' \<and> m \<in> {[], ''1'', ''2''} \<or> v = ''1'' \<and> m = ''1''"
  by (auto simp: SatisfiesMinProto_def versionRank_eq version_consts)

lemma betterVersionThan_empty:
  "betterVersionThan c vs m = [] \<Longrightarrow> v \<in> set vs \<Longrightarrow> 0 \<le> versionRank v \<Longrightarrow>
   versionRank v \<le> versionRank m \<Longrightarrow> versionRank c \<le> versionRank v"
  by (induction vs) (auto simp: versionRank_eq split: if_splits)

lemma InterpretHelloAck_Inr:
  assumes "InterpretHelloAck ack m l p = Inr v"
  shows "ack_Accept ack" "SatisfiesMinProto v m"
    and "u \<in> set (ack_Versions ack) \<Longrightarrow> SatisfiesMinProto u m \<Longrightarrow> versionRank v \<le> versionRank u"
proof -
  let ?f = "if m = [] then DefaultMinProto else m"
  show "ack_Accept ack" "SatisfiesMinProto v m"
    using assms by (auto simp: InterpretHelloAck_def SatisfiesMinProto_def Let_def split: if_splits)
  assume "u \<in> set (ack_Versions ack)" "SatisfiesMinProto u m"
  moreover have "betterVersionThan v (ack_Versions ack) ?f = []"
    using assms by (auto simp: InterpretHelloAck_def Let_def split: if_splits)
  ultimately show "versionRank v \<le> versionRank u"
    using betterVersionThan_empty [of v "ack_Versions ack" ?f u] by (auto simp: SatisfiesMinProto_def Let_def)
qed

lemma sessionFromAck_Inr:
  "sessionFromAck kdf code m ack hello = Inr s \<Longrightarrow> InterpretHelloAck ack m SideHelp SideShare = Inr (Version s)"
  by (auto simp: sessionFromAck_def split: sum.splits)

lemma handshakeTool_Inr:
  assumes "handshakeTool kdf code m n1 n2 peer = Inr s"
  obtains hello ack where "peer hello = Some ack" "sessionFromAck kdf code m ack hello = Inr s"
  using assms by (auto simp: handshakeTool_def Let_def split: option.splits if_splits)

lemma Negotiate_new_hello:
  assumes "mH \<in> {[], ''1'', ''2''}" "mS \<in> {[], ''1'', ''2''}"
  shows "NegotiateToolVersion a (supportedDownTo mH) mS l p = Inr ''2''"
  using assms
  by (auto simp: NegotiateToolVersion_def supportedDownTo_eq versionRank_eq version_consts peerVersions_def Let_def)

lemma NegotiateToolVersion_Inr_iff:
  "NegotiateToolVersion single list m l p = Inr v \<longleftrightarrow>
     (let P = set (peerVersions single list) in
        v = ''2'' \<and> ''2'' \<in> P \<and> m \<in> {[], ''1'', ''2''} \<or> v = ''1'' \<and> ''1'' \<in> P \<and> ''2'' \<notin> P \<and> m = ''1'')"
  by (cases "''2'' \<in> set (peerVersions single list)"; cases "''1'' \<in> set (peerVersions single list)";
      cases "m = []"; cases "m = ''1''"; cases "m = ''2''")
    (simp_all add: NegotiateToolVersion_def versionRank_eq version_consts Let_def, simp_all only: eq_commute)

lemma no_newer_than_2: "(\<forall>u \<in> S. 0 \<le> versionRank u \<longrightarrow> versionRank ''2'' \<le> versionRank u)"
  by (simp add: versionRank_eq)

lemma no_newer_than_1: "(\<forall>u \<in> S. 0 \<le> versionRank u \<longrightarrow> versionRank ''1'' \<le> versionRank u) \<longleftrightarrow> ''2'' \<notin> S"
proof
  assume "\<forall>u \<in> S. 0 \<le> versionRank u \<longrightarrow> versionRank ''1'' \<le> versionRank u"
  from bspec [OF this, of "''2''"] show "''2'' \<notin> S" by (auto simp: versionRank_eq)
next
  assume "''2'' \<notin> S"
  then have "u \<noteq> ''2''" if "u \<in> S" for u using that by metis
  then show "\<forall>u \<in> S. 0 \<le> versionRank u \<longrightarrow> versionRank ''1'' \<le> versionRank u"
    by (simp add: versionRank_eq)
qed

section \<open>Properties\<close>

text \<open>
  Negotiation picks the best common version: \<open>NegotiateToolVersion\<close> returns \<open>v\<close> exactly
  when the peer offers \<open>v\<close>, \<open>v\<close> is supported here and not below the floor, and nothing newer
  is common; otherwise it reports the incompatibility with the best version the peer has.
\<close>

theorem negotiation_best_common:
  "NegotiateToolVersion single list m l p = Inr v \<longleftrightarrow>
     v \<in> set (peerVersions single list) \<and> SatisfiesMinProto v m \<and>
     (\<forall>u \<in> set (peerVersions single list). 0 \<le> versionRank u \<longrightarrow> versionRank v \<le> versionRank u)"
proof (cases "v = ''2'' \<or> v = ''1''")
  case True
  then show ?thesis
    by (elim disjE) (simp_all add: NegotiateToolVersion_Inr_iff SatisfiesMinProto_eq no_newer_than_2
        no_newer_than_1 Let_def conj_ac)
next
  case False
  then show ?thesis by (simp add: NegotiateToolVersion_Inr_iff SatisfiesMinProto_eq Let_def)
qed

theorem negotiation_best_common_witness:
  "NegotiateToolVersion ''1'' [''3'', ''2'', ''1''] ''1'' SideShare SideHelp = Inr ''2''"
  by (subst negotiation_best_common) (auto simp: peerVersions_def SatisfiesMinProto_eq versionRank_eq)

text \<open>
  No answer, honest or forged, drags the initiator below its floor: whatever the peer (or
  whoever sits in between) sends back in either round, a session the initiator accepts has
  a version that satisfies its minimum; with the default minimum it is never the
  unauthenticated v1.
\<close>

theorem handshake_respects_floor:
  assumes "handshakeTool kdf code m n1 n2 peer = Inr s"
  shows "SatisfiesMinProto (Version s) m \<and> (m \<noteq> ''1'' \<longrightarrow> \<not> Legacy s)"
proof -
  from assms obtain hello ack where "sessionFromAck kdf code m ack hello = Inr s"
    by (rule handshakeTool_Inr)
  then have "SatisfiesMinProto (Version s) m"
    using InterpretHelloAck_Inr(2) sessionFromAck_Inr by blast
  then show ?thesis
    by (auto simp: SatisfiesMinProto_eq Legacy_def effectiveVersion_def version_consts)
qed

definition demo_kdf :: "bytes \<Rightarrow> bytes \<Rightarrow> bytes \<Rightarrow> bytes" where
  "demo_kdf secret salt info = secret @ salt @ info"

theorem handshake_respects_floor_witness:
  "\<exists>s. handshakeTool demo_kdf ''abc'' [] ''n1'' ''n2''
      (\<lambda>h. Some (fst (buildHelloAck demo_kdf (\<lambda>_. []) ''ns'' h ''abc'' []))) = Inr s \<and>
    SatisfiesMinProto (Version s) [] \<and> \<not> Legacy s"
proof -
  let ?h = "handshakeTool demo_kdf ''abc'' [] ''n1'' ''n2''
      (\<lambda>h. Some (fst (buildHelloAck demo_kdf (\<lambda>_. []) ''ns'' h ''abc'' [])))"
  have "\<not> isl ?h" by code_simp
  then obtain s where "?h = Inr s" by (cases ?h) simp_all
  with handshake_respects_floor [OF this] show ?thesis by auto
qed

text \<open>
  Two current ends agree: with the same assist code and any valid minimum on either side,
  the handshake over a faithful channel succeeds, at version 2, and the session the
  initiator derives is the one the responder derived.
\<close>

theorem handshake_agreement:
  assumes "mH \<in> {[], ''1'', ''2''}" "mS \<in> {[], ''1'', ''2''}"
  shows "\<exists>s. handshakeTool kdf code mH n1 n2
      (\<lambda>h. Some (fst (buildHelloAck kdf render nS h code mS))) = Inr s \<and>
    snd (buildHelloAck kdf render nS (NewHello mH n1) code mS) = Inr s \<and> Version s = ''2''"
proof -
  let ?hello = "NewHello mH n1"
  have neg: "NegotiateToolVersion (hel_Version ?hello) (hel_Versions ?hello) mS SideShare SideHelp = Inr ''2''"
    using Negotiate_new_hello [OF assms] by (simp add: NewHello_def helloWithAnchor_def)
  have "betterVersionThan ''2'' vs f = []" for vs f
    by (induction vs) (auto simp: versionRank_eq)
  then have "InterpretHelloAck (fst (buildHelloAck kdf render nS ?hello code mS)) mH SideHelp SideShare = Inr ''2''"
    using neg assms(1) by (auto simp: buildHelloAck_def InterpretHelloAck_def versionRank_eq version_consts Let_def)
  then show ?thesis
    using neg by (intro exI conjI)
      (auto simp: handshakeTool_def buildHelloAck_def ShouldRetryWithFallbackAnchor_def sessionFromAck_def Let_def)
qed

theorem handshake_agreement_witness:
  "\<exists>s. handshakeTool demo_kdf ''abc'' ''1'' ''n1'' ''n2''
      (\<lambda>h. Some (fst (buildHelloAck demo_kdf (\<lambda>_. []) ''ns'' h ''abc'' ''2''))) = Inr s \<and>
    snd (buildHelloAck demo_kdf (\<lambda>_. []) ''ns'' (NewHello ''1'' ''n1'') ''abc'' ''2'') = Inr s \<and> Version s = ''2''"
  by (rule handshake_agreement) simp_all

text \<open>
  C11. Tampering with the offer cannot downgrade two current ends, not even when both run in
  compatibility mode: if every Hello is rewritten in transit in any way but the
  responder's answers arrive as sent, a session the initiator accepts is at version 2.
\<close>

theorem tampered_hello_cannot_downgrade:
  assumes "mS \<in> {[], ''1'', ''2''}"
    and "handshakeTool kdf code mH n1 n2
      (\<lambda>h. Some (fst (buildHelloAck kdf render nS (tamper h) code mS))) = Inr s"
  shows "Version s = ''2''"
proof -
  obtain h where "sessionFromAck kdf code mH (fst (buildHelloAck kdf render nS (tamper h) code mS)) h = Inr s"
    using assms(2) by (rule handshakeTool_Inr) auto
  then have i: "InterpretHelloAck (fst (buildHelloAck kdf render nS (tamper h) code mS)) mH SideHelp SideShare
      = Inr (Version s)" by (rule sessionFromAck_Inr)
  have "''2'' \<in> set (ack_Versions (fst (buildHelloAck kdf render nS (tamper h) code mS)))"
    using assms(1) by (auto simp: buildHelloAck_def supportedDownTo_eq split: sum.splits)
  from InterpretHelloAck_Inr(3) [OF i this] InterpretHelloAck_Inr(2) [OF i]
  show ?thesis by (auto simp: SatisfiesMinProto_eq versionRank_eq)
qed

theorem tampered_hello_cannot_downgrade_witness:
  "\<exists>s. handshakeTool demo_kdf ''abc'' ''1'' ''n1'' ''n2''
      (\<lambda>h. Some (fst (buildHelloAck demo_kdf (\<lambda>_. []) ''ns'' (h\<lparr>hel_Capabilities := []\<rparr>) ''abc'' ''1''))) = Inr s \<and>
    Version s = ''2''"
proof -
  let ?h = "handshakeTool demo_kdf ''abc'' ''1'' ''n1'' ''n2''
      (\<lambda>h. Some (fst (buildHelloAck demo_kdf (\<lambda>_. []) ''ns'' (h\<lparr>hel_Capabilities := []\<rparr>) ''abc'' ''1'')))"
  have "\<not> isl ?h" by code_simp
  then obtain s where "?h = Inr s" by (cases ?h) simp_all
  with tampered_hello_cannot_downgrade [OF _ this] show ?thesis by auto
qed

end
