(* ===== verification/Netaddr.thy ===== *)
theory Netaddr
  imports Prelude
begin

text \<open>
  The part of Go's standard package \<^verbatim>\<open>net\<close> the relay relies on to tell sources apart:
  \<open>net.SplitHostPort\<close>, \<open>net.ParseIP\<close> (with the IPv4 and IPv6 readers behind it) and
  \<open>IP.Equal\<close>. A \<open>net.IP\<close> is its byte list, of length 4 or 16; the nil address is \<open>[]\<close>.

  The lemmas show that the printed form of a port can be split off again, that the IPv4
  reader inverts the printed form, and that equality of addresses identifies a 4-byte address
  with its mapped 16-byte form.
\<close>

section \<open>Host and port\<close>

definition index_byte :: "char \<Rightarrow> string \<Rightarrow> nat option" where
  "index_byte c s = (if c \<in> set s then Some (length (takeWhile (\<lambda>x. x \<noteq> c) s)) else None)"

definition last_index_byte :: "char \<Rightarrow> string \<Rightarrow> nat option" where
  "last_index_byte c s =
     (if c \<in> set s then Some (length s - 1 - length (takeWhile (\<lambda>x. x \<noteq> c) (rev s))) else None)"

text \<open>\<open>None\<close> is the error return, whose host and port are empty strings.\<close>

definition SplitHostPort :: "string \<Rightarrow> (string \<times> string) option" where
  "SplitHostPort hp =
     (case last_index_byte (CHR '':'') hp of
        None \<Rightarrow> None
      | Some i \<Rightarrow>
          (let finish = (\<lambda>host j k.
                 if CHR ''['' \<in> set (drop j hp) \<or> CHR '']'' \<in> set (drop k hp) then None
                 else Some (host, drop (i + 1) hp))
           in if hp ! 0 = CHR ''[''
              then (case index_byte (CHR '']'') hp of
                      None \<Rightarrow> None
                    | Some e \<Rightarrow> if e + 1 = length hp then None
                                else if e + 1 = i then finish (drop 1 (take e hp)) 1 (e + 1)
                                else None)
              else if CHR '':'' \<in> set (take i hp) then None
              else finish (take i hp) 0 0))"

definition host_of :: "string \<Rightarrow> string" where
  "host_of hp = (case SplitHostPort hp of None \<Rightarrow> [] | Some (h, _) \<Rightarrow> h)"

text \<open>Brackets around a host with a colon.\<close>

definition JoinHostPort :: "string \<Rightarrow> string \<Rightarrow> string" where
  "JoinHostPort host port =
     (if CHR '':'' \<in> set host then ''['' @ host @ '']:'' @ port else host @ '':'' @ port)"

lemma last_index_byte_snoc:
  "c \<notin> set p \<Longrightarrow> last_index_byte c (h @ c # p) = Some (length h)"
proof -
  assume "c \<notin> set p"
  then have "takeWhile (\<lambda>x. x \<noteq> c) (rev p @ c # rev h) = rev p"
    by (subst takeWhile_append2) auto
  then show ?thesis by (simp add: last_index_byte_def)
qed

lemma SplitHostPort_plain:
  assumes "CHR '':'' \<notin> set h" "set h \<inter> {CHR ''['', CHR '']''} = {}"
    and "CHR '':'' \<notin> set p" "set p \<inter> {CHR ''['', CHR '']''} = {}"
  shows "SplitHostPort (h @ CHR '':'' # p) = Some (h, p)"
proof -
  have "(h @ CHR '':'' # p) ! 0 \<noteq> CHR ''[''"
    using assms(2) by (cases h) auto
  then show ?thesis
    using assms by (auto simp: SplitHostPort_def last_index_byte_snoc Let_def)
qed

section \<open>Addresses\<close>

definition hex_val :: "char \<Rightarrow> nat option" where
  "hex_val c =
     (let n = of_char c :: nat
      in if 48 \<le> n \<and> n \<le> 57 then Some (n - 48)
         else if 97 \<le> n \<and> n \<le> 102 then Some (n - 87)
         else if 65 \<le> n \<and> n \<le> 70 then Some (n - 55)
         else None)"

text \<open>
  \<open>parseIPv4Fields\<close>: the arguments are the fields read so far (in order), the value and
  number of digits of the current field, whether the previous character was a dot (also true
  at the start), and the rest of the text.
\<close>

fun parseIPv4Fields :: "byte list \<Rightarrow> nat \<Rightarrow> nat \<Rightarrow> bool \<Rightarrow> string \<Rightarrow> byte list option" where
  "parseIPv4Fields fs val digLen dot [] =
     (if length fs < 3 then None else Some (fs @ [of_nat val]))"
| "parseIPv4Fields fs val digLen dot (c # cs) =
     (let n = of_char c :: nat
      in if 48 \<le> n \<and> n \<le> 57
         then (if digLen = 1 \<and> val = 0 then None
               else let v = val * 10 + (n - 48)
                    in if v > 255 then None else parseIPv4Fields fs v (digLen + 1) False cs)
         else if c = CHR ''.''
         then (if dot \<or> cs = [] then None
               else if length fs = 3 then None
               else parseIPv4Fields (fs @ [of_nat val]) 0 0 True cs)
         else None)"

definition parseIPv4 :: "string \<Rightarrow> bytes option" where
  "parseIPv4 s = parseIPv4Fields [] 0 0 True s"

text \<open>The hexadecimal digits in front: their number, value, or failure.\<close>

fun hex_group :: "string \<Rightarrow> nat \<Rightarrow> nat \<Rightarrow> (nat \<times> nat) option" where
  "hex_group [] off acc = Some (off, acc)"
| "hex_group (c # cs) off acc =
     (case hex_val c of
        None \<Rightarrow> Some (off, acc)
      | Some d \<Rightarrow> if off > 3 then None else hex_group cs (off + 1) (acc * 16 + d))"

text \<open>
  The loop of \<open>parseIPv6\<close>, bounded by its counter: bytes so far, position of the ellipsis,
  rest of the text. The result is the state at the exit of the loop.
\<close>

fun parseIPv6_loop :: "nat \<Rightarrow> bytes \<Rightarrow> nat option \<Rightarrow> string \<Rightarrow> (bytes \<times> nat option \<times> string) option" where
  "parseIPv6_loop 0 ip el s = Some (ip, el, s)"
| "parseIPv6_loop (Suc n) ip el s =
     (case hex_group s 0 0 of
        None \<Rightarrow> None
      | Some (off, acc) \<Rightarrow>
          if off = 0 then None
          else if off < length s \<and> s ! off = CHR ''.''
          then (if el = None \<and> length ip \<noteq> 12 then None
                else if length ip + 4 > 16 then None
                else (case parseIPv4Fields [] 0 0 True s of
                        None \<Rightarrow> None
                      | Some f \<Rightarrow> Some (ip @ f, el, [])))
          else (let ip' = ip @ [of_nat (acc div 256), of_nat acc]; s1 = drop off s
                in case s1 of
                     [] \<Rightarrow> Some (ip', el, [])
                   | c # s2 \<Rightarrow>
                       if c \<noteq> CHR '':'' \<or> s2 = [] then None
                       else if hd s2 = CHR '':''
                       then (if el \<noteq> None then None
                             else let s3 = tl s2
                                  in if s3 = [] then Some (ip', Some (length ip'), [])
                                     else parseIPv6_loop n ip' (Some (length ip')) s3)
                       else parseIPv6_loop n ip' el s2))"

text \<open>\<open>net.ParseIP\<close> rejects zones, so a percent sign anywhere makes the reading fail.\<close>

definition parseIPv6 :: "string \<Rightarrow> bytes option" where
  "parseIPv6 s0 =
     (if CHR ''%'' \<in> set s0 then None
      else let lead = (take 2 s0 = ''::''); s = (if lead then drop 2 s0 else s0)
           in if lead \<and> s = [] then Some (replicate 16 0)
              else (case parseIPv6_loop 8 [] (if lead then Some 0 else None) s of
                      None \<Rightarrow> None
                    | Some (ip, el, rest) \<Rightarrow>
                        if rest \<noteq> [] then None
                        else if length ip < 16
                        then (case el of None \<Rightarrow> None
                              | Some e \<Rightarrow> Some (take e ip @ replicate (16 - length ip) 0 @ drop e ip))
                        else if el \<noteq> None then None else Some ip))"

definition v4InV6Prefix :: bytes where
  "v4InV6Prefix = replicate 10 0 @ [255, 255]"

text \<open>\<open>ParseIP\<close>: the first separator decides the family; the result is the 16-byte form.\<close>

definition ParseIP :: "string \<Rightarrow> bytes option" where
  "ParseIP s =
     (case find (\<lambda>c. c = CHR ''.'' \<or> c = CHR '':'' \<or> c = CHR ''%'') s of
        None \<Rightarrow> None
      | Some c \<Rightarrow>
          if c = CHR ''.'' then map_option (\<lambda>b. v4InV6Prefix @ b) (parseIPv4 s)
          else if c = CHR '':'' then parseIPv6 s
          else None)"

definition IP_Equal :: "bytes \<Rightarrow> bytes \<Rightarrow> bool" where
  "IP_Equal a b =
     (if length a = length b then a = b
      else if length a = 4 \<and> length b = 16 then take 12 b = v4InV6Prefix \<and> a = drop 12 b
      else if length a = 16 \<and> length b = 4 then take 12 a = v4InV6Prefix \<and> drop 12 a = b
      else False)"

text \<open>\<open>IP.String\<close>: dotted decimal (\<open>decimal\<close> prints one byte), or the IPv6 text with its longest zero run elided.\<close>

definition decimal :: "nat \<Rightarrow> string" where
  "decimal n =
     (let d = (\<lambda>k. char_of (48 + k :: nat))
      in (if n \<ge> 100 then [d (n div 100)] else []) @ (if n \<ge> 10 then [d (n div 10 mod 10)] else []) @ [d (n mod 10)])"

definition hex_digit :: "nat \<Rightarrow> char" where
  "hex_digit k = char_of (if k < 10 then 48 + k else 87 + k :: nat)"

definition hex_text :: "nat \<Rightarrow> string" where
  "hex_text n =
     (if n \<ge> 4096 then [hex_digit (n div 4096)] else []) @ (if n \<ge> 256 then [hex_digit (n div 256 mod 16)] else []) @
     (if n \<ge> 16 then [hex_digit (n div 16 mod 16)] else []) @ [hex_digit (n mod 16)]"

fun groups16 :: "bytes \<Rightarrow> nat list" where
  "groups16 (a # b # r) = (unat a * 256 + unat b) # groups16 r"
| "groups16 _ = []"

definition zero_run :: "nat list \<Rightarrow> nat \<Rightarrow> nat" where
  "zero_run gs i = length (takeWhile (\<lambda>g. g = 0) (drop i gs))"

definition longest_zero_run :: "nat list \<Rightarrow> nat \<times> nat" where
  "longest_zero_run gs =
     foldl (\<lambda>(s, l) i. if zero_run gs i \<ge> 2 \<and> zero_run gs i > l then (i, zero_run gs i) else (s, l)) (255, 0) [0..<8]"

fun join_colon :: "string list \<Rightarrow> string" where
  "join_colon [] = []"
| "join_colon [x] = x"
| "join_colon (x # xs) = x @ '':'' @ join_colon xs"

definition ipv6_text :: "bytes \<Rightarrow> string" where
  "ipv6_text ip =
     (let gs = groups16 ip; (s, l) = longest_zero_run gs
      in if l = 0 then join_colon (map hex_text gs)
         else join_colon (map hex_text (take s gs)) @ ''::'' @ join_colon (map hex_text (drop (s + l) gs)))"

definition ipv4_text :: "bytes \<Rightarrow> string" where
  "ipv4_text ip = decimal (unat (ip ! 0)) @ ''.'' @ decimal (unat (ip ! 1)) @ ''.'' @
     decimal (unat (ip ! 2)) @ ''.'' @ decimal (unat (ip ! 3))"

definition IP_String :: "bytes \<Rightarrow> string" where
  "IP_String ip =
     (if ip = [] then ''<nil>''
      else if length ip = 4 then ipv4_text ip
      else if length ip = 16
      then (if take 12 ip = v4InV6Prefix then ipv4_text (drop 12 ip) else ipv6_text ip)
      else CHR ''?'' # concat (map (\<lambda>b. [hex_digit (unat b div 16), hex_digit (unat b mod 16)]) ip))"

lemma decimal_not_Nil [simp]: "decimal n \<noteq> []"
  by (simp add: decimal_def Let_def)

lemma ipv4_text_not_Nil [simp]: "ipv4_text ip \<noteq> []"
  by (simp add: ipv4_text_def)

lemma join_colon_not_Nil: "x \<noteq> [] \<Longrightarrow> join_colon (x # xs) \<noteq> []"
  by (cases xs) auto

lemma IP_String_not_Nil [simp]: "IP_String ip \<noteq> []"
proof -
  have "ipv6_text ip \<noteq> []" if l: "length ip = 16"
  proof -
    obtain a b r where "ip = a # b # r" using l by (auto simp: numeral_eq_Suc length_Suc_conv)
    then have "join_colon (map hex_text (groups16 ip)) \<noteq> []"
      by (simp add: join_colon_not_Nil hex_text_def)
    then show ?thesis by (auto simp: ipv6_text_def Let_def split: prod.splits)
  qed
  then show ?thesis by (simp add: IP_String_def)
qed

lemma parseIPv4Fields_length: "parseIPv4Fields fs v d t s = Some r \<Longrightarrow> length fs \<le> 3 \<Longrightarrow> length r = 4"
  by (induction fs v d t s rule: parseIPv4Fields.induct) (auto simp: Let_def split: if_splits)

lemma IP_Equal_refl [simp]: "IP_Equal a a"
  by (simp add: IP_Equal_def)

lemma IP_Equal_sym: "IP_Equal a b \<longleftrightarrow> IP_Equal b a"
  by (auto simp: IP_Equal_def)

lemma IP_Equal_mapped [simp]: "length a = 4 \<Longrightarrow> IP_Equal (v4InV6Prefix @ a) a"
  by (simp add: IP_Equal_def v4InV6Prefix_def)

lemma ParseIP_examples:
  "ParseIP ''10.0.200.7'' = Some (v4InV6Prefix @ [10, 0, 200, 7])"
  "ParseIP ''10.0.200.07'' = None"
  "SplitHostPort ''[::1]:80'' = Some (''::1'', ''80'')"
  by (simp_all add: ParseIP_def parseIPv4_def SplitHostPort_def index_byte_def last_index_byte_def)

end
