(* ===== verification/Session_Manager.thy ===== *)
theory Session_Manager
  imports Netaddr
begin

text \<open>
  The session table of the relay: \<^verbatim>\<open>internal/relay/session.go\<close>. One definition per method of
  \<open>SessionManager\<close>, in the order of the source.

  Sessions are shared by pointer among four indexes and the closures of timers, so they live
  in an explicit store: a pointer is an address (a number), \<open>sess\<close> holds what it points to.
  A client connection is never written by these methods and is a value; two connection
  pointers are equal when their identifiers are (each accepted connection gets its own).
  Every method runs under the manager's lock, hence is one atomic step; the current time is
  its argument \<open>now\<close> (nanoseconds), the values drawn from \<open>generateSessionID\<close> are the list
  \<open>ids\<close> and the order in which Go ranges over the session map is the list \<open>order\<close>.
  Invariants and properties are in \<^verbatim>\<open>Session_Inv.thy\<close>.
\<close>

section \<open>Data\<close>

datatype sm_error =
    ErrSessionNotFound | ErrCodeExpired | ErrCodeInvalid | ErrSessionHasHelper
  | ErrMaxTotalSessions | ErrMaxSessionsPerIP

definition helpDisconnectDebounce :: int where
  "helpDisconnectDebounce = 5 * second"

definition shareConflictMaxReplaces :: nat where
  "shareConflictMaxReplaces = 3"

definition shareConflictWindow :: int where
  "shareConflictWindow = minute"

definition shareConflictCooldown :: int where
  "shareConflictCooldown = 10 * minute"

text \<open>\<open>cc_Conn\<close> is the remote address of the connection, \<open>None\<close> for a nil \<open>Conn\<close>.\<close>

record ClientConn =
  cc_ID :: string
  cc_Type :: string
  cc_ClientID :: string
  cc_Version :: string
  cc_Host :: string
  cc_supportsUpdateNotice :: bool
  cc_Conn :: "string option"

text \<open>
  \<open>helpDisconnectTimer\<close> is \<open>None\<close> for nil and otherwise the instant the timer is set for;
  \<open>conflictUntil\<close> is \<open>None\<close> for the zero time.
\<close>

record TunnelSession =
  ts_ID :: string
  Code :: string
  Share :: "ClientConn option"
  Help :: "ClientConn option"
  CreatedAt :: int
  ExpiresAt :: int
  ts_ClientID :: string
  CreatorIP :: string
  countedByIP :: bool
  SharePublicAddr :: string
  SharePrivateAddr :: string
  ShareNATType :: string
  HelpPublicAddr :: string
  HelpPrivateAddr :: string
  HelpNATType :: string
  closed :: bool
  shareReady :: bool
  dataPlaneReady :: bool
  helpDisconnectTimer :: "int option"
  pendingHelpID :: string
  liveReplaces :: "int list"
  conflictUntil :: "int option"

record SessionManager =
  sessions :: "(string, nat) gomap"
  byCode :: "(string, nat) gomap"
  byClientID :: "(string, nat) gomap"
  byConnID :: "(string, nat) gomap"
  sessionCountPerIP :: "(string, int) gomap"
  reconnectGrace :: int
  sess :: "nat \<Rightarrow> TunnelSession"
  next_ref :: nat

definition no_session :: TunnelSession where
  "no_session =
     \<lparr>ts_ID = [], Code = [], Share = None, Help = None, CreatedAt = 0, ExpiresAt = 0,
      ts_ClientID = [], CreatorIP = [], countedByIP = False, SharePublicAddr = [], SharePrivateAddr = [],
      ShareNATType = [], HelpPublicAddr = [], HelpPrivateAddr = [], HelpNATType = [],
      closed = False, shareReady = False, dataPlaneReady = False,
      helpDisconnectTimer = None, pendingHelpID = [], liveReplaces = [], conflictUntil = None\<rparr>"

definition NewSessionManager :: "int \<Rightarrow> SessionManager" where
  "NewSessionManager grace =
     \<lparr>sessions = mempty, byCode = mempty, byClientID = mempty, byConnID = mempty,
      sessionCountPerIP = mempty, reconnectGrace = grace, sess = (\<lambda>_. no_session), next_ref = 0\<rparr>"

text \<open>Assignment through a session pointer.\<close>

definition upd :: "nat \<Rightarrow> (TunnelSession \<Rightarrow> TunnelSession) \<Rightarrow> SessionManager \<Rightarrow> SessionManager" where
  "upd r f sm = sm\<lparr>sess := (sess sm)(r := f (sess sm r))\<rparr>"

section \<open>Operations\<close>

text \<open>
  \<open>createSession\<close>; \<open>None\<close> when every drawn identifier is taken, that is, when the loop over
  \<open>generateSessionID\<close> has not come to an end yet.
\<close>

definition createSession ::
  "string \<Rightarrow> ClientConn option \<Rightarrow> int \<Rightarrow> string \<Rightarrow> string \<Rightarrow> int \<Rightarrow> int \<Rightarrow> bool \<Rightarrow>
   int \<Rightarrow> string list \<Rightarrow> SessionManager \<Rightarrow> (SessionManager \<times> (sm_error + nat)) option" where
  "createSession code share ttl clientID shareIP maxPerIP maxTotal ready now ids sm =
     (if mlen (sessions sm) \<ge> maxTotal then Some (sm, Inl ErrMaxTotalSessions)
      else if shareIP \<noteq> [] \<and> maxPerIP > 0 \<and> mget0 (sessionCountPerIP sm) shareIP \<ge> maxPerIP
      then Some (sm, Inl ErrMaxSessionsPerIP)
      else case find (\<lambda>i. mget (sessions sm) i = None) ids of
             None \<Rightarrow> None
           | Some sid \<Rightarrow>
               let counted = (shareIP \<noteq> [] \<and> maxPerIP > 0);
                   session = no_session\<lparr>ts_ID := sid, Code := code, Share := share, CreatedAt := now,
                     ExpiresAt := now + ttl, ts_ClientID := clientID, CreatorIP := shareIP,
                     countedByIP := counted, shareReady := ready\<rparr>;
                   r = next_ref sm
               in Some
                 (sm\<lparr>sess := (sess sm)(r := session), next_ref := Suc r,
                     sessions := mput sid r (sessions sm),
                     byCode := mput code r (byCode sm),
                     byClientID := (if clientID \<noteq> [] then mput clientID r (byClientID sm) else byClientID sm),
                     byConnID := (case share of None \<Rightarrow> byConnID sm | Some c \<Rightarrow> mput (cc_ID c) r (byConnID sm)),
                     sessionCountPerIP :=
                       (if counted
                        then mput shareIP (mget0 (sessionCountPerIP sm) shareIP + 1) (sessionCountPerIP sm)
                        else sessionCountPerIP sm)\<rparr>, Inr r))"

definition GetSessionByCode :: "string \<Rightarrow> int \<Rightarrow> SessionManager \<Rightarrow> sm_error + nat" where
  "GetSessionByCode code now sm =
     (case mget (byCode sm) code of
        None \<Rightarrow> Inl ErrCodeInvalid
      | Some r \<Rightarrow> if now > ExpiresAt (sess sm r) then Inl ErrCodeExpired
                  else if closed (sess sm r) then Inl ErrSessionNotFound
                  else Inr r)"

definition GetSessionByClientID :: "string \<Rightarrow> int \<Rightarrow> SessionManager \<Rightarrow> nat option" where
  "GetSessionByClientID clientID now sm =
     (if clientID = [] then None
      else case mget (byClientID sm) clientID of
             None \<Rightarrow> None
           | Some r \<Rightarrow> if now > ExpiresAt (sess sm r) \<or> closed (sess sm r) then None else Some r)"

record ReuseSessionResult =
  rr_SessionID :: string
  rr_Code :: string
  rr_ExpiresAt :: int
  OldShare :: "ClientConn option"
  OldHelp :: "ClientConn option"
  Conflict :: bool
  OnlineVersion :: string
  OnlineHost :: string

definition recordLiveReplace :: "int list \<Rightarrow> int \<Rightarrow> int list" where
  "recordLiveReplace ts now =
     (let cutoff = now - shareConflictWindow;
          kept = filter (\<lambda>t. t > cutoff) ts @ [now]
      in drop (length kept - (shareConflictMaxReplaces + 1)) kept)"

text \<open>\<open>conflictResult\<close>, called with the online share \<open>old\<close>.\<close>

definition conflictResult :: "TunnelSession \<Rightarrow> ClientConn \<Rightarrow> ReuseSessionResult" where
  "conflictResult session old =
     \<lparr>rr_SessionID = ts_ID session, rr_Code = [], rr_ExpiresAt = 0, OldShare = None, OldHelp = None,
      Conflict = True, OnlineVersion = cc_Version old, OnlineHost = cc_Host old\<rparr>"

text \<open>The conflict check: \<open>Inl\<close> is the refusal (with the session as left behind).\<close>

definition conflictCheck ::
  "int \<Rightarrow> ClientConn \<Rightarrow> TunnelSession \<Rightarrow> (TunnelSession \<times> ReuseSessionResult) + TunnelSession" where
  "conflictCheck now newShare session =
     (case Share session of
        None \<Rightarrow> Inr session
      | Some old \<Rightarrow>
          if cc_ID old = cc_ID newShare then Inr session
          else if (case conflictUntil session of None \<Rightarrow> False | Some u \<Rightarrow> now < u)
          then Inl (session\<lparr>conflictUntil := Some (now + shareConflictCooldown)\<rparr>, conflictResult session old)
          else let lr = recordLiveReplace (liveReplaces session) now
               in if length lr > shareConflictMaxReplaces
                  then Inl (session\<lparr>liveReplaces := [], conflictUntil := Some (now + shareConflictCooldown)\<rparr>,
                            conflictResult session old)
                  else Inr (session\<lparr>liveReplaces := lr\<rparr>))"

definition opt_del :: "ClientConn option \<Rightarrow> (string, nat) gomap \<Rightarrow> (string, nat) gomap" where
  "opt_del c m = (case c of None \<Rightarrow> m | Some x \<Rightarrow> mdel (cc_ID x) m)"

definition takeOver :: "ClientConn \<Rightarrow> TunnelSession \<Rightarrow> TunnelSession" where
  "takeOver newShare session =
     session\<lparr>helpDisconnectTimer := None, Help := None, pendingHelpID := [], Share := Some newShare,
       SharePublicAddr := [], SharePrivateAddr := [], ShareNATType := [],
       HelpPublicAddr := [], HelpPrivateAddr := [], HelpNATType := [],
       shareReady := False, dataPlaneReady := False\<rparr>"

definition ReuseSessionByClientID ::
  "string \<Rightarrow> ClientConn \<Rightarrow> int \<Rightarrow> SessionManager \<Rightarrow> SessionManager \<times> ReuseSessionResult option \<times> bool" where
  "ReuseSessionByClientID clientID newShare now sm =
     (if clientID = [] then (sm, None, False)
      else case mget (byClientID sm) clientID of
             None \<Rightarrow> (sm, None, False)
           | Some r \<Rightarrow>
               if now > ExpiresAt (sess sm r) \<or> closed (sess sm r) then (sm, None, False)
               else case conflictCheck now newShare (sess sm r) of
                      Inl (session', res) \<Rightarrow> (upd r (\<lambda>_. session') sm, Some res, False)
                    | Inr session' \<Rightarrow>
                        let res = \<lparr>rr_SessionID = ts_ID session', rr_Code = Code session',
                                   rr_ExpiresAt = ExpiresAt session', OldShare = Share session', OldHelp = Help session',
                                   Conflict = False, OnlineVersion = [], OnlineHost = []\<rparr>;
                            conns = mput (cc_ID newShare) r (opt_del (Help session') (opt_del (Share session') (byConnID sm)))
                        in ((upd r (\<lambda>_. takeOver newShare session') sm)\<lparr>byConnID := conns\<rparr>, Some res, True))"

definition MarkShareReady :: "string \<Rightarrow> string \<Rightarrow> SessionManager \<Rightarrow> SessionManager \<times> bool" where
  "MarkShareReady sessionID expectedShareID sm =
     (case mget (sessions sm) sessionID of
        None \<Rightarrow> (sm, False)
      | Some r \<Rightarrow>
          (if closed (sess sm r) then (sm, False)
           else case Share (sess sm r) of
                  None \<Rightarrow> (sm, False)
                | Some c \<Rightarrow> if cc_ID c \<noteq> expectedShareID then (sm, False)
                            else (upd r (\<lambda>s. s\<lparr>shareReady := True\<rparr>) sm, True)))"

record JoinSessionResult =
  jr_SessionID :: string
  jr_Share :: ClientConn
  jr_ShareID :: string
  jr_ShareVersion :: string
  jr_ShareHost :: string

text \<open>The cancellation of a pending disconnect and the new generation of the Help side.\<close>

definition installHelp :: "ClientConn \<Rightarrow> TunnelSession \<Rightarrow> TunnelSession" where
  "installHelp help session =
     (let s1 = (if helpDisconnectTimer session \<noteq> None
                then session\<lparr>helpDisconnectTimer := None, pendingHelpID := []\<rparr> else session)
      in s1\<lparr>Help := Some help, HelpPublicAddr := [], HelpPrivateAddr := [], HelpNATType := [],
            dataPlaneReady := False\<rparr>)"

definition JoinSession ::
  "string \<Rightarrow> ClientConn \<Rightarrow> int \<Rightarrow> SessionManager \<Rightarrow> SessionManager \<times> (sm_error + JoinSessionResult)" where
  "JoinSession code help now sm =
     (case mget (byCode sm) code of
        None \<Rightarrow> (sm, Inl ErrCodeInvalid)
      | Some r \<Rightarrow>
          (let s = sess sm r
           in if now > ExpiresAt s then (sm, Inl ErrCodeExpired)
              else if closed s then (sm, Inl ErrSessionNotFound)
              else if Help s \<noteq> None \<and> pendingHelpID s = [] then (sm, Inl ErrSessionHasHelper)
              else case Share s of
                     None \<Rightarrow> (sm, Inl ErrSessionNotFound)
                   | Some share \<Rightarrow>
                       if \<not> shareReady s then (sm, Inl ErrSessionNotFound)
                       else ((upd r (installHelp help) sm)
                               \<lparr>byConnID := mput (cc_ID help) r (opt_del (Help s) (byConnID sm))\<rparr>,
                             Inr \<lparr>jr_SessionID = ts_ID s, jr_Share = share, jr_ShareID = cc_ID share,
                                  jr_ShareVersion = cc_Version share, jr_ShareHost = cc_Host share\<rparr>)))"

definition RollbackJoin :: "string \<Rightarrow> string \<Rightarrow> SessionManager \<Rightarrow> SessionManager" where
  "RollbackJoin sessionID helpID sm =
     (case mget (sessions sm) sessionID of
        None \<Rightarrow> sm
      | Some r \<Rightarrow>
          (case Help (sess sm r) of
             None \<Rightarrow> sm
           | Some h \<Rightarrow>
               if cc_ID h = helpID
               then (upd r (\<lambda>s. s\<lparr>Help := None, dataPlaneReady := False\<rparr>) sm)
                      \<lparr>byConnID := mdel helpID (byConnID sm)\<rparr>
               else sm))"

definition ActivateDataPlane :: "string \<Rightarrow> string \<Rightarrow> string \<Rightarrow> SessionManager \<Rightarrow> SessionManager \<times> bool" where
  "ActivateDataPlane sessionID expectedShareID expectedHelpID sm =
     (case mget (sessions sm) sessionID of
        None \<Rightarrow> (sm, False)
      | Some r \<Rightarrow>
          (let s = sess sm r
           in if closed s then (sm, False)
              else case (Share s, Help s) of
                     (Some c, Some h) \<Rightarrow>
                       if cc_ID c \<noteq> expectedShareID \<or> cc_ID h \<noteq> expectedHelpID then (sm, False)
                       else if pendingHelpID s \<noteq> [] then (sm, False)
                       else (upd r (\<lambda>s. s\<lparr>dataPlaneReady := True\<rparr>) sm, True)
                   | _ \<Rightarrow> (sm, False)))"

definition IsActiveDataSession :: "string \<Rightarrow> SessionManager \<Rightarrow> bool" where
  "IsActiveDataSession sessionID sm =
     (case mget (sessions sm) sessionID of
        None \<Rightarrow> False
      | Some r \<Rightarrow> (let s = sess sm r in
          \<not> closed s \<and> Share s \<noteq> None \<and> shareReady s \<and> Help s \<noteq> None \<and> pendingHelpID s = [] \<and> dataPlaneReady s))"

definition hostMatchesIP :: "string \<Rightarrow> bytes \<Rightarrow> bool" where
  "hostMatchesIP hostPort srcIP =
     (if hostPort = [] then False
      else let host = (case SplitHostPort hostPort of None \<Rightarrow> hostPort | Some (h, _) \<Rightarrow> h)
           in case ParseIP host of None \<Rightarrow> False | Some ip \<Rightarrow> IP_Equal ip srcIP)"

definition conn_addr :: "ClientConn option \<Rightarrow> string list" where
  "conn_addr c = (case c of None \<Rightarrow> [] | Some x \<Rightarrow> (case cc_Conn x of None \<Rightarrow> [] | Some a \<Rightarrow> [a]))"

definition sessionKnowsIPLocked :: "TunnelSession \<Rightarrow> bytes \<Rightarrow> bool" where
  "sessionKnowsIPLocked session srcIP =
     list_ex (\<lambda>c. hostMatchesIP c srcIP)
       ([SharePublicAddr session, SharePrivateAddr session, HelpPublicAddr session, HelpPrivateAddr session]
        @ conn_addr (Share session) @ conn_addr (Help session))"

text \<open>The nil source address is the empty byte list.\<close>

definition IsActiveDataSource :: "string \<Rightarrow> bytes \<Rightarrow> SessionManager \<Rightarrow> bool" where
  "IsActiveDataSource sessionID srcIP sm =
     (case mget (sessions sm) sessionID of
        None \<Rightarrow> False
      | Some r \<Rightarrow> (let s = sess sm r in
          if closed s \<or> Share s = None \<or> \<not> shareReady s \<or> Help s = None \<or> pendingHelpID s \<noteq> [] \<or> \<not> dataPlaneReady s
          then False
          else if srcIP = [] then False
          else sessionKnowsIPLocked s srcIP))"

definition decrementSessionCountLocked :: "string \<Rightarrow> (string, int) gomap \<Rightarrow> (string, int) gomap" where
  "decrementSessionCountLocked shareIP counts =
     (if shareIP = [] then counts
      else case mget counts shareIP of
             None \<Rightarrow> counts
           | Some cur \<Rightarrow> if cur \<le> 1 then mdel shareIP counts else mput shareIP (cur - 1) counts)"

text \<open>Removal of an index entry when it points to the given session.\<close>

definition del_if :: "string \<Rightarrow> nat \<Rightarrow> (string, nat) gomap \<Rightarrow> (string, nat) gomap" where
  "del_if k r m = (if mget m k = Some r then mdel k m else m)"

definition opt_del_if :: "ClientConn option \<Rightarrow> nat \<Rightarrow> (string, nat) gomap \<Rightarrow> (string, nat) gomap" where
  "opt_del_if c r m = (case c of None \<Rightarrow> m | Some x \<Rightarrow> del_if (cc_ID x) r m)"

definition deleteSessionLocked ::
  "string \<Rightarrow> nat option \<Rightarrow> SessionManager \<Rightarrow> SessionManager \<times> ClientConn option \<times> ClientConn option \<times> bool" where
  "deleteSessionLocked sessionID expected sm =
     (case mget (sessions sm) sessionID of
        None \<Rightarrow> (sm, None, None, False)
      | Some r \<Rightarrow>
          if expected \<noteq> Some r then (sm, None, None, False)
          else let s = sess sm r
               in ((upd r (\<lambda>s. s\<lparr>closed := True, dataPlaneReady := False, helpDisconnectTimer := None,
                                countedByIP := False\<rparr>) sm)
                     \<lparr>byConnID := opt_del_if (Help s) r (opt_del_if (Share s) r (byConnID sm)),
                      sessions := mdel sessionID (sessions sm),
                      byCode := del_if (Code s) r (byCode sm),
                      byClientID := (if ts_ClientID s \<noteq> [] then del_if (ts_ClientID s) r (byClientID sm)
                                     else byClientID sm),
                      sessionCountPerIP := (if countedByIP s
                                            then decrementSessionCountLocked (CreatorIP s) (sessionCountPerIP sm)
                                            else sessionCountPerIP sm)\<rparr>,
                   Share s, Help s, True))"

text \<open>\<open>CloseSession\<close>: the new state and the connections it closes after unlocking.\<close>

definition open_conns :: "ClientConn option \<Rightarrow> ClientConn list" where
  "open_conns c = (case c of None \<Rightarrow> [] | Some x \<Rightarrow> if cc_Conn x = None then [] else [x])"

definition CloseSession :: "string \<Rightarrow> SessionManager \<Rightarrow> SessionManager \<times> ClientConn list" where
  "CloseSession sessionID sm =
     (let (sm', share, help, _) = deleteSessionLocked sessionID (mget (sessions sm) sessionID) sm
      in (sm', open_conns share @ open_conns help))"

definition GetActiveSessions :: "SessionManager \<Rightarrow> int" where
  "GetActiveSessions sm = mlen (sessions sm)"

definition graceAfterInUseLocked :: "nat \<Rightarrow> int \<Rightarrow> SessionManager \<Rightarrow> SessionManager" where
  "graceAfterInUseLocked r now sm =
     (if reconnectGrace sm \<le> 0 \<or> closed (sess sm r) then sm
      else let until = now + reconnectGrace sm;
               sm1 = (if until > ExpiresAt (sess sm r) then upd r (\<lambda>s. s\<lparr>ExpiresAt := until\<rparr>) sm else sm);
               c = Code (sess sm r)
           in if mget (byCode sm1) c = None then sm1\<lparr>byCode := mput c r (byCode sm1)\<rparr> else sm1)"

record DisconnectResult =
  PeerToNotify :: "ClientConn option"
  dr_SessionID :: string
  WasShare :: bool
  ResetDataPlane :: bool

definition DisconnectClient :: "string \<Rightarrow> int \<Rightarrow> SessionManager \<Rightarrow> SessionManager \<times> DisconnectResult option" where
  "DisconnectClient clientID now sm =
     (case mget (byConnID sm) clientID of
        None \<Rightarrow> (sm, None)
      | Some r \<Rightarrow>
          (let s = sess sm r
           in if (case Help s of None \<Rightarrow> False | Some h \<Rightarrow> cc_ID h = clientID)
              then let sm1 = (upd r (\<lambda>s. s\<lparr>dataPlaneReady := False\<rparr>) sm)\<lparr>byConnID := mdel clientID (byConnID sm)\<rparr>;
                       sm2 = (if Share s \<noteq> None then graceAfterInUseLocked r now sm1 else sm1)
                   in (upd r (\<lambda>s. s\<lparr>pendingHelpID := clientID,
                                   helpDisconnectTimer := Some (now + helpDisconnectDebounce)\<rparr>) sm2,
                       Some \<lparr>PeerToNotify = None, dr_SessionID = ts_ID s, WasShare = False, ResetDataPlane = True\<rparr>)
              else if (case Share s of None \<Rightarrow> False | Some c \<Rightarrow> cc_ID c = clientID)
              then let sm1 = (upd r (\<lambda>s. s\<lparr>dataPlaneReady := False, shareReady := False\<rparr>) sm)
                               \<lparr>byConnID := mdel clientID (byConnID sm)\<rparr>;
                       sm2 = (if Help s \<noteq> None then graceAfterInUseLocked r now sm1 else sm1)
                   in (upd r (\<lambda>s. s\<lparr>Share := None, liveReplaces := [], conflictUntil := None\<rparr>) sm2,
                       Some \<lparr>PeerToNotify = Help s, dr_SessionID = ts_ID s, WasShare = True, ResetDataPlane = True\<rparr>)
              else (sm, None)))"

text \<open>
  The callback of the debounce timer on the session it was armed for: the new state and the
  share to notify.
\<close>

definition helpTimerFired :: "nat \<Rightarrow> SessionManager \<Rightarrow> SessionManager \<times> ClientConn option" where
  "helpTimerFired r sm =
     (let s = sess sm r
      in case Help s of
           None \<Rightarrow> (sm, None)
         | Some h \<Rightarrow>
             if cc_ID h = pendingHelpID s
             then (upd r (\<lambda>s. s\<lparr>Help := None, pendingHelpID := []\<rparr>) sm, Share s)
             else (sm, None))"

definition cleanup_one ::
  "int \<Rightarrow> string \<Rightarrow> SessionManager \<times> string list \<times> ClientConn list \<Rightarrow> SessionManager \<times> string list \<times> ClientConn list" where
  "cleanup_one now sid st =
     (let (sm, expired, toClose) = st
      in case mget (sessions sm) sid of
           None \<Rightarrow> st
         | Some r \<Rightarrow>
             if now > ExpiresAt (sess sm r)
             then let sm1 = sm\<lparr>byCode := del_if (Code (sess sm r)) r (byCode sm)\<rparr>
                  in if Share (sess sm r) \<noteq> None \<and> Help (sess sm r) \<noteq> None then (sm1, expired, toClose)
                     else let (sm2, share, help, deleted) = deleteSessionLocked sid (Some r) sm1
                          in if deleted
                             then (sm2, expired @ [sid], toClose @ open_conns share @ open_conns help)
                             else (sm2, expired, toClose)
             else st)"

definition CleanupExpired :: "int \<Rightarrow> string list \<Rightarrow> SessionManager \<Rightarrow> SessionManager \<times> string list \<times> ClientConn list" where
  "CleanupExpired now order sm = fold (cleanup_one now) order (sm, [], [])"

record PeerAddrUpdate =
  pu_Peer :: ClientConn
  IsShareSide :: bool
  SameNetwork :: bool
  pu_NATType :: string

definition detectSameNetwork :: "string \<Rightarrow> string \<Rightarrow> string \<Rightarrow> string \<Rightarrow> bool" where
  "detectSameNetwork shareRemote helpRemote sharePrivate helpPrivate =
     (host_of shareRemote \<noteq> [] \<and> host_of shareRemote = host_of helpRemote)"

text \<open>\<open>None\<close> is the panic on a paired connection without a \<open>Conn\<close>.\<close>

definition sameNetwork_of :: "TunnelSession \<Rightarrow> bool option" where
  "sameNetwork_of s =
     (case (Share s, Help s) of
        (Some c, Some h) \<Rightarrow>
          (case (cc_Conn c, cc_Conn h) of
             (Some a, Some b) \<Rightarrow> Some (detectSameNetwork a b (SharePrivateAddr s) (HelpPrivateAddr s))
           | _ \<Rightarrow> None)
      | _ \<Rightarrow> None)"

definition UpdatePeerAddr ::
  "string \<Rightarrow> string \<Rightarrow> string \<Rightarrow> string \<Rightarrow> SessionManager \<Rightarrow> (SessionManager \<times> PeerAddrUpdate option) option" where
  "UpdatePeerAddr clientID publicAddr privateAddr natType sm =
     (case mget (byConnID sm) clientID of
        None \<Rightarrow> Some (sm, None)
      | Some r \<Rightarrow>
          (let s = sess sm r
           in if (case Share s of None \<Rightarrow> False | Some c \<Rightarrow> cc_ID c = clientID)
              then let sm' = upd r (\<lambda>s. s\<lparr>SharePublicAddr := publicAddr, SharePrivateAddr := privateAddr,
                                          ShareNATType := natType\<rparr>) sm
                   in (case Help s of
                         None \<Rightarrow> Some (sm', None)
                       | Some h \<Rightarrow> map_option (\<lambda>same. (sm', Some \<lparr>pu_Peer = h, IsShareSide = True,
                                     SameNetwork = same, pu_NATType = natType\<rparr>)) (sameNetwork_of (sess sm' r)))
              else if (case Help s of None \<Rightarrow> False | Some h \<Rightarrow> cc_ID h = clientID)
              then let sm' = upd r (\<lambda>s. s\<lparr>HelpPublicAddr := publicAddr, HelpPrivateAddr := privateAddr,
                                          HelpNATType := natType\<rparr>) sm
                   in (case Share s of
                         None \<Rightarrow> Some (sm', None)
                       | Some c \<Rightarrow> map_option (\<lambda>same. (sm', Some \<lparr>pu_Peer = c, IsShareSide = False,
                                     SameNetwork = same, pu_NATType = natType\<rparr>)) (sameNetwork_of (sess sm' r)))
              else Some (sm, None)))"

definition FindPeer :: "string \<Rightarrow> SessionManager \<Rightarrow> ClientConn option" where
  "FindPeer clientID sm =
     (case mget (byConnID sm) clientID of
        None \<Rightarrow> None
      | Some r \<Rightarrow>
          (let s = sess sm r
           in if (case Share s of None \<Rightarrow> False | Some c \<Rightarrow> cc_ID c = clientID) then Help s
              else if (case Help s of None \<Rightarrow> False | Some h \<Rightarrow> cc_ID h = clientID) then Share s
              else None))"

section \<open>Runs\<close>

text \<open>
  The atomic steps of the manager as events, with what each reads from its environment: the
  arguments, the clock, drawn identifiers and iteration orders. A debounce callback may run at
  any time on any session ever created: \<open>Timer.Stop\<close> does not hold back a callback that has
  already started and waits for the lock.
\<close>

record limits =
  maxSessionsPerIP :: int
  maxTotalSessions :: int

datatype sm_event =
    EvCreate string "ClientConn option" int string string bool int "string list"
  | EvReuse string ClientConn int
  | EvMarkReady string string
  | EvJoin string ClientConn int
  | EvRollback string string
  | EvActivate string string string
  | EvClose string
  | EvDisconnect string int
  | EvTimer nat
  | EvCleanup int "string list"
  | EvUpdateAddr string string string string

fun sm_apply :: "limits \<Rightarrow> sm_event \<Rightarrow> SessionManager \<Rightarrow> SessionManager option" where
  "sm_apply L (EvCreate code share ttl cid ip ready now ids) sm =
     map_option fst (createSession code share ttl cid ip (maxSessionsPerIP L) (maxTotalSessions L) ready now ids sm)"
| "sm_apply L (EvReuse cid c now) sm = Some (fst (ReuseSessionByClientID cid c now sm))"
| "sm_apply L (EvMarkReady sid k) sm = Some (fst (MarkShareReady sid k sm))"
| "sm_apply L (EvJoin code c now) sm = Some (fst (JoinSession code c now sm))"
| "sm_apply L (EvRollback sid k) sm = Some (RollbackJoin sid k sm)"
| "sm_apply L (EvActivate sid k k') sm = Some (fst (ActivateDataPlane sid k k' sm))"
| "sm_apply L (EvClose sid) sm = Some (fst (CloseSession sid sm))"
| "sm_apply L (EvDisconnect k now) sm = Some (fst (DisconnectClient k now sm))"
| "sm_apply L (EvTimer r) sm = Some (fst (helpTimerFired r sm))"
| "sm_apply L (EvCleanup now order) sm = Some (fst (CleanupExpired now order sm))"
| "sm_apply L (EvUpdateAddr k a b n) sm = map_option fst (UpdatePeerAddr k a b n sm)"

text \<open>The connection an event registers, if any.\<close>

fun ev_conn :: "sm_event \<Rightarrow> ClientConn option" where
  "ev_conn (EvCreate code share ttl cid ip ready now ids) = share"
| "ev_conn (EvReuse cid c now) = Some c"
| "ev_conn (EvJoin code c now) = Some c"
| "ev_conn _ = None"

text \<open>
  Runs in which a connection that registers has a non-empty identifier and takes no part in a
  session yet, as the server's connection states ensure.
\<close>

definition member_id :: "TunnelSession \<Rightarrow> string \<Rightarrow> bool" where
  "member_id s k =
     ((case Share s of None \<Rightarrow> False | Some c \<Rightarrow> cc_ID c = k) \<or> (case Help s of None \<Rightarrow> False | Some h \<Rightarrow> cc_ID h = k))"

definition conn_free :: "string \<Rightarrow> SessionManager \<Rightarrow> bool" where
  "conn_free k sm = (k \<noteq> [] \<and> (\<forall>sid r. mget (sessions sm) sid = Some r \<longrightarrow> \<not> member_id (sess sm r) k))"

definition ev_fresh :: "sm_event \<Rightarrow> SessionManager \<Rightarrow> bool" where
  "ev_fresh e sm = (case ev_conn e of None \<Rightarrow> True | Some c \<Rightarrow> conn_free (cc_ID c) sm)"

inductive sm_reach :: "limits \<Rightarrow> int \<Rightarrow> SessionManager \<Rightarrow> bool" for L :: limits and grace :: int where
  sm_init: "sm_reach L grace (NewSessionManager grace)"
| sm_step: "sm_reach L grace sm \<Longrightarrow> ev_fresh e sm \<Longrightarrow> sm_apply L e sm = Some sm' \<Longrightarrow> sm_reach L grace sm'"

text \<open>An executable form: a list of events is run while each is enabled.\<close>

lemma conn_free_code [code]:
  "conn_free k sm = (k \<noteq> [] \<and> list_all (\<lambda>sid. case mget (sessions sm) sid of None \<Rightarrow> True
     | Some r \<Rightarrow> \<not> member_id (sess sm r) k) (mkeys (sessions sm)))"
  unfolding conn_free_def list_all_iff mdom_conv [symmetric] by (auto simp: dom_def split: option.splits)

fun sm_run :: "limits \<Rightarrow> sm_event list \<Rightarrow> SessionManager \<Rightarrow> SessionManager option" where
  "sm_run L [] sm = Some sm"
| "sm_run L (e # es) sm =
     (if ev_fresh e sm then (case sm_apply L e sm of None \<Rightarrow> None | Some sm' \<Rightarrow> sm_run L es sm') else None)"

lemma sm_run_reach: "sm_reach L g sm \<Longrightarrow> sm_run L es sm = Some sm' \<Longrightarrow> sm_reach L g sm'"
  by (induction es arbitrary: sm) (auto split: if_splits option.splits intro: sm_step)

end
