(* ===== verification/Session_Inv.thy ===== *)
theory Session_Inv
  imports Session_Manager
begin

text \<open>
  Invariants and properties of the session table (\<^verbatim>\<open>Session_Manager.thy\<close>): \<open>sm_inv\<close> and its
  preservation by every method, hence by every interleaving of them (\<open>sm_reach\<close>), and what
  follows for routing, the data plane, the quotas, expiry and the conflict detection.
\<close>

section \<open>The invariant\<close>

definition live :: "SessionManager \<Rightarrow> nat \<Rightarrow> bool" where
  "live sm r = (mget (sessions sm) (ts_ID (sess sm r)) = Some r)"

text \<open>The connections a session is reachable from: both sides, less a Help that is pending.\<close>

definition routed :: "TunnelSession \<Rightarrow> string \<Rightarrow> bool" where
  "routed s k = ((\<exists>c. Share s = Some c \<and> cc_ID c = k) \<or> (\<exists>h. Help s = Some h \<and> cc_ID h = k \<and> pendingHelpID s = []))"

definition ts_ok :: "TunnelSession \<Rightarrow> bool" where
  "ts_ok s =
     (\<not> closed s \<and>
      (\<forall>c. Share s = Some c \<longrightarrow> cc_ID c \<noteq> []) \<and>
      (\<forall>h. Help s = Some h \<longrightarrow> cc_ID h \<noteq> []) \<and>
      (\<forall>c h. Share s = Some c \<longrightarrow> Help s = Some h \<longrightarrow> cc_ID c \<noteq> cc_ID h \<and> shareReady s) \<and>
      (dataPlaneReady s \<longrightarrow> Share s \<noteq> None \<and> Help s \<noteq> None \<and> pendingHelpID s = []) \<and>
      (pendingHelpID s \<noteq> [] \<longrightarrow> helpDisconnectTimer s \<noteq> None \<and> (\<forall>h. Help s = Some h \<longrightarrow> cc_ID h = pendingHelpID s)) \<and>
      length (liveReplaces s) \<le> shareConflictMaxReplaces \<and>
      (countedByIP s \<longrightarrow> CreatorIP s \<noteq> []))"

definition counted :: "SessionManager \<Rightarrow> string \<Rightarrow> string set" where
  "counted sm ip =
     {sid. \<exists>r. mget (sessions sm) sid = Some r \<and> countedByIP (sess sm r) \<and> CreatorIP (sess sm r) = ip}"

definition table_ok :: "SessionManager \<Rightarrow> bool" where
  "table_ok sm = (\<forall>sid r. mget (sessions sm) sid = Some r \<longrightarrow>
     ts_ID (sess sm r) = sid \<and> r < next_ref sm \<and> ts_ok (sess sm r))"

definition index_ok :: "SessionManager \<Rightarrow> bool" where
  "index_ok sm =
     ((\<forall>c r. mget (byCode sm) c = Some r \<longrightarrow> live sm r \<and> Code (sess sm r) = c) \<and>
      (\<forall>k r. mget (byClientID sm) k = Some r \<longrightarrow> live sm r \<and> ts_ClientID (sess sm r) = k \<and> k \<noteq> []))"

definition conn_ok :: "SessionManager \<Rightarrow> bool" where
  "conn_ok sm =
     ((\<forall>k r. mget (byConnID sm) k = Some r \<longleftrightarrow> live sm r \<and> routed (sess sm r) k) \<and>
      (\<forall>r r' k. live sm r \<longrightarrow> live sm r' \<longrightarrow> member_id (sess sm r) k \<longrightarrow> member_id (sess sm r') k \<longrightarrow> r = r'))"

definition quota_ok :: "limits \<Rightarrow> SessionManager \<Rightarrow> bool" where
  "quota_ok L sm =
     ((\<forall>ip. mget0 (sessionCountPerIP sm) ip = int (card (counted sm ip))) \<and>
      (0 \<le> maxTotalSessions L \<longrightarrow> mlen (sessions sm) \<le> maxTotalSessions L) \<and>
      (\<forall>ip. 0 < maxSessionsPerIP L \<longrightarrow> int (card (counted sm ip)) \<le> maxSessionsPerIP L))"

definition sm_inv :: "limits \<Rightarrow> SessionManager \<Rightarrow> bool" where
  "sm_inv L sm = (table_ok sm \<and> index_ok sm \<and> conn_ok sm \<and> quota_ok L sm)"

lemmas sm_inv_defs = sm_inv_def table_ok_def index_ok_def conn_ok_def

section \<open>Changes of one session\<close>

lemma upd_simps [simp]:
  "sess (upd r f sm) = (sess sm)(r := f (sess sm r))" "sessions (upd r f sm) = sessions sm"
  "byCode (upd r f sm) = byCode sm" "byClientID (upd r f sm) = byClientID sm" "byConnID (upd r f sm) = byConnID sm"
  "sessionCountPerIP (upd r f sm) = sessionCountPerIP sm" "next_ref (upd r f sm) = next_ref sm"
  "reconnectGrace (upd r f sm) = reconnectGrace sm"
  by (simp_all add: upd_def)

lemma member_id_iff:
  "member_id s k \<longleftrightarrow> (\<exists>c. Share s = Some c \<and> cc_ID c = k) \<or> (\<exists>h. Help s = Some h \<and> cc_ID h = k)"
  by (auto simp: member_id_def split: option.splits)

lemma routed_member: "routed s k \<Longrightarrow> member_id s k"
  by (auto simp: routed_def member_id_iff)

lemma live_ran: "table_ok sm \<Longrightarrow> live sm r \<longleftrightarrow> (\<exists>sid. mget (sessions sm) sid = Some r)"
  by (auto simp: live_def table_ok_def)

lemma counted_finite [simp]: "finite (counted sm ip)"
  by (rule finite_subset [of _ "mdom (sessions sm)"]) (auto simp: counted_def)

definition same_key :: "TunnelSession \<Rightarrow> TunnelSession \<Rightarrow> bool" where
  "same_key s s' = (ts_ID s' = ts_ID s \<and> Code s' = Code s \<and> ts_ClientID s' = ts_ClientID s \<and>
     countedByIP s' = countedByIP s \<and> CreatorIP s' = CreatorIP s)"

lemma live_put:
  "same_key (sess sm r) s' \<Longrightarrow> live (sm\<lparr>sess := (sess sm)(r := s'), byConnID := conns\<rparr>) q \<longleftrightarrow> live sm q"
  by (simp add: live_def same_key_def)

lemma counted_put:
  "same_key (sess sm r) s' \<Longrightarrow> counted (sm\<lparr>sess := (sess sm)(r := s'), byConnID := conns\<rparr>) ip = counted sm ip"
  by (auto simp: counted_def same_key_def)

lemma inv_put:
  assumes inv: "sm_inv L sm" and live: "live sm r" and same: "same_key (sess sm r) s'" and ok: "ts_ok s'"
    and own: "\<And>k. mget conns k = Some r \<longleftrightarrow> routed s' k"
    and others: "\<And>k q. q \<noteq> r \<Longrightarrow> mget conns k = Some q \<longleftrightarrow> mget (byConnID sm) k = Some q"
    and mem: "\<And>k. member_id s' k \<Longrightarrow> member_id (sess sm r) k \<or> conn_free k sm"
  shows "sm_inv L (sm\<lparr>sess := (sess sm)(r := s'), byConnID := conns\<rparr>)" (is "sm_inv L ?sm")
proof -
  have t: "table_ok sm" and i: "index_ok sm" and c: "conn_ok sm" and q: "quota_ok L sm"
    using inv by (auto simp: sm_inv_def)
  note lv = live_put [OF same, of conns]
  have "table_ok ?sm" using t ok same by (auto simp: table_ok_def same_key_def)
  moreover have "index_ok ?sm"
    using i same by (auto simp: index_ok_def lv same_key_def)
  moreover have "conn_ok ?sm"
  proof -
    have A: "mget conns k = Some p \<longleftrightarrow> live sm p \<and> routed (if p = r then s' else sess sm p) k" for k p
      using own others live c by (auto simp: conn_ok_def)
    have B: "p = r" if "live sm p" "member_id s' k" "member_id (sess sm p) k" for p k
    proof (cases "member_id (sess sm r) k")
      case True
      then show ?thesis using that c live unfolding conn_ok_def by blast
    next
      case False
      then show ?thesis using mem [OF that(2)] that by (auto simp: conn_free_def live_def)
    qed
    have C: "p = p'" if "live sm p" "live sm p'" "member_id (sess sm p) k" "member_id (sess sm p') k" for p p' k
      using that c unfolding conn_ok_def by blast
    have D: "p = p'" if "live sm p" "live sm p'" "member_id (if p = r then s' else sess sm p) k"
        "member_id (if p' = r then s' else sess sm p') k" for p p' k
      using that B C by metis
    show ?thesis unfolding conn_ok_def lv
    proof (intro conjI allI impI)
      fix k p show "mget (byConnID ?sm) k = Some p \<longleftrightarrow> live sm p \<and> routed (sess ?sm p) k"
        using A [of k p] by simp
    next
      fix p p' k
      assume a: "live sm p" "live sm p'" "member_id (sess ?sm p) k" "member_id (sess ?sm p') k"
      show "p = p'" using D [of p p' k] a by simp
    qed
  qed
  moreover have "quota_ok L ?sm"
    using q by (simp add: quota_ok_def counted_put [OF same])
  ultimately show ?thesis by (simp add: sm_inv_def)
qed

lemma inv_upd:
  assumes "sm_inv L sm" "live sm r" "same_key (sess sm r) (f (sess sm r))" "ts_ok (f (sess sm r))"
    and "\<And>k. routed (f (sess sm r)) k \<longleftrightarrow> routed (sess sm r) k"
    and "\<And>k. member_id (f (sess sm r)) k \<Longrightarrow> member_id (sess sm r) k"
  shows "sm_inv L (upd r f sm)"
proof -
  have "mget (byConnID sm) k = Some r \<longleftrightarrow> routed (f (sess sm r)) k" for k
    using assms(1,2,5) by (auto simp: sm_inv_def conn_ok_def)
  from inv_put [OF assms(1-4) this _ disjI1 [OF assms(6)]]
  have "sm_inv L (sm\<lparr>sess := (sess sm)(r := f (sess sm r)), byConnID := byConnID sm\<rparr>)" by simp
  then show ?thesis by (simp add: upd_def)
qed

lemma inv_dead:
  assumes inv: "sm_inv L sm" and dead: "\<not> live sm r" and same: "same_key (sess sm r) (f (sess sm r))"
  shows "sm_inv L (upd r f sm)"
proof -
  have t: "table_ok sm" and i: "index_ok sm" and c: "conn_ok sm" and q: "quota_ok L sm"
    using inv by (auto simp: sm_inv_def)
  have dead': "mget (sessions sm) sid \<noteq> Some r" for sid
    using dead by (auto simp: live_ran [OF t])
  have lv: "live (upd r f sm) p \<longleftrightarrow> live sm p" for p
    using same by (simp add: live_def same_key_def)
  have ne: "live sm p \<Longrightarrow> p \<noteq> r" for p using dead by auto
  have "table_ok (upd r f sm)" using t dead' by (auto simp: table_ok_def)
  moreover have "index_ok (upd r f sm)"
    using i ne unfolding index_ok_def lv by auto
  moreover have "conn_ok (upd r f sm)"
  proof -
    have "routed (sess (upd r f sm) p) k \<longleftrightarrow> routed (sess sm p) k" "member_id (sess (upd r f sm) p) k \<longleftrightarrow> member_id (sess sm p) k"
      if "live sm p" for p k
      using ne [OF that] by simp_all
    then show ?thesis using c unfolding conn_ok_def lv by (metis upd_simps(5))
  qed
  moreover have "counted (upd r f sm) ip = counted sm ip" for ip
  proof (rule set_eqI)
    fix sid show "sid \<in> counted (upd r f sm) ip \<longleftrightarrow> sid \<in> counted sm ip"
      using dead' [of sid] by (cases "mget (sessions sm) sid") (auto simp: counted_def)
  qed
  then have "quota_ok L (upd r f sm)" using q by (simp add: quota_ok_def)
  ultimately show ?thesis by (simp add: sm_inv_def)
qed

lemma code_frame [simp]:
  "live (sm\<lparr>byCode := codes\<rparr>) = live sm" "counted (sm\<lparr>byCode := codes\<rparr>) = counted sm"
  by (auto simp: live_def counted_def fun_eq_iff)

lemma inv_code:
  assumes "sm_inv L sm" "\<And>c r. mget codes c = Some r \<Longrightarrow> live sm r \<and> Code (sess sm r) = c"
  shows "sm_inv L (sm\<lparr>byCode := codes\<rparr>)"
proof -
  have "index_ok (sm\<lparr>byCode := codes\<rparr>)"
    using assms by (simp add: sm_inv_def index_ok_def)
  moreover have "table_ok (sm\<lparr>byCode := codes\<rparr>)" "conn_ok (sm\<lparr>byCode := codes\<rparr>)" "quota_ok L (sm\<lparr>byCode := codes\<rparr>)"
    using assms(1) by (simp_all add: sm_inv_def table_ok_def conn_ok_def quota_ok_def)
  ultimately show ?thesis by (simp add: sm_inv_def)
qed

section \<open>Lookups\<close>

lemma inv_sessions:
  assumes "sm_inv L sm" "mget (sessions sm) sid = Some r"
  shows "live sm r" "ts_ok (sess sm r)" "ts_ID (sess sm r) = sid" "r < next_ref sm"
  using assms by (auto simp: sm_inv_def table_ok_def live_def)

lemma inv_live:
  assumes "sm_inv L sm" "live sm r"
  shows "ts_ok (sess sm r)" "r < next_ref sm"
  using assms inv_sessions [OF assms(1)] by (auto simp: live_def)

lemma inv_byCode:
  assumes "sm_inv L sm" "mget (byCode sm) c = Some r"
  shows "live sm r" "ts_ok (sess sm r)" "Code (sess sm r) = c"
proof -
  show "live sm r" "Code (sess sm r) = c" using assms by (auto simp: sm_inv_def index_ok_def)
  then show "ts_ok (sess sm r)" using inv_live [OF assms(1)] by blast
qed

lemma inv_byClientID:
  assumes "sm_inv L sm" "mget (byClientID sm) k = Some r"
  shows "live sm r" "ts_ok (sess sm r)" "ts_ClientID (sess sm r) = k"
proof -
  show "live sm r" "ts_ClientID (sess sm r) = k" using assms by (auto simp: sm_inv_def index_ok_def)
  then show "ts_ok (sess sm r)" using inv_live [OF assms(1)] by blast
qed

lemma inv_byConnID:
  assumes "sm_inv L sm"
  shows "mget (byConnID sm) k = Some r \<longleftrightarrow> live sm r \<and> routed (sess sm r) k"
  using assms by (auto simp: sm_inv_def conn_ok_def)

lemma conn_owner:
  assumes "sm_inv L sm" "mget (byConnID sm) k = Some q" "live sm r" "member_id (sess sm r) k"
  shows "q = r"
  using assms inv_byConnID [OF assms(1), of k q] routed_member unfolding sm_inv_def conn_ok_def by blast

lemma conn_free_None:
  assumes "sm_inv L sm" "conn_free k sm"
  shows "mget (byConnID sm) k = None"
proof (cases "mget (byConnID sm) k")
  case (Some q)
  then have "live sm q" "member_id (sess sm q) k"
    using inv_byConnID [OF assms(1), of k q] routed_member by blast+
  then show ?thesis using assms(2) by (auto simp: conn_free_def live_def)
qed simp

lemma mget_opt_del: "mget (opt_del c m) k = (if \<exists>x. c = Some x \<and> cc_ID x = k then None else mget m k)"
  by (auto simp: opt_del_def split: option.splits)

section \<open>Preservation\<close>

lemma recordLiveReplace_length: "length (recordLiveReplace ts now) \<le> shareConflictMaxReplaces + 1"
  by (simp add: recordLiveReplace_def Let_def)

lemma conflictCheck_Inl:
  assumes "conflictCheck now c s = Inl (s', res)" "length (liveReplaces s) \<le> shareConflictMaxReplaces"
  shows "s' = s\<lparr>liveReplaces := liveReplaces s', conflictUntil := conflictUntil s'\<rparr>"
    and "length (liveReplaces s') \<le> shareConflictMaxReplaces"
  using assms by (cases s; auto simp: conflictCheck_def Let_def split: option.splits if_splits)+

lemma conflictCheck_Inr:
  assumes "conflictCheck now c s = Inr s'" "length (liveReplaces s) \<le> shareConflictMaxReplaces"
  shows "s' = s\<lparr>liveReplaces := liveReplaces s'\<rparr>" "length (liveReplaces s') \<le> shareConflictMaxReplaces"
  using assms by (cases s; auto simp: conflictCheck_def Let_def split: option.splits if_splits)+

lemmas ts_defs = ts_ok_def same_key_def routed_def member_id_iff

lemma inv_MarkShareReady: "sm_inv L sm \<Longrightarrow> sm_inv L (fst (MarkShareReady sid k sm))"
  using inv_sessions [of L sm sid]
  by (auto simp: MarkShareReady_def ts_defs split: option.splits intro!: inv_upd)

lemma inv_ActivateDataPlane: "sm_inv L sm \<Longrightarrow> sm_inv L (fst (ActivateDataPlane sid k k' sm))"
  using inv_sessions [of L sm sid]
  by (auto simp: ActivateDataPlane_def ts_defs Let_def split: option.splits intro!: inv_upd)

lemma inv_UpdatePeerAddr:
  assumes "sm_inv L sm" "UpdatePeerAddr k a b n sm = Some (sm', res)"
  shows "sm_inv L sm'"
proof (cases "mget (byConnID sm) k")
  case (Some r)
  then have "live sm r" "ts_ok (sess sm r)"
    using inv_byConnID [OF assms(1)] inv_live [OF assms(1)] by blast+
  then show ?thesis
    using assms Some
    by (auto simp: UpdatePeerAddr_def ts_defs Let_def split: option.splits if_splits intro!: inv_upd)
qed (use assms in \<open>simp add: UpdatePeerAddr_def\<close>)

lemma inv_helpTimerFired: 
  assumes "sm_inv L sm"
  shows "sm_inv L (fst (helpTimerFired r sm))"
proof (cases "live sm r")
  case True
  have "routed (sess sm r) k" if "Help (sess sm r) = Some h" "cc_ID h = pendingHelpID (sess sm r)"
    "routed ((sess sm r)\<lparr>Help := None, pendingHelpID := []\<rparr>) k" for h k
    using that by (auto simp: routed_def)
  then show ?thesis
    using assms True inv_live [OF assms True]
    by (auto simp: helpTimerFired_def ts_defs Let_def split: option.splits intro!: inv_upd)
next
  case False
  then show ?thesis using assms
    by (auto simp: helpTimerFired_def same_key_def Let_def split: option.splits intro!: inv_dead)
qed

lemma inv_RollbackJoin:
  assumes "sm_inv L sm"
  shows "sm_inv L (RollbackJoin sid k sm)"
proof (cases "mget (sessions sm) sid")
  case (Some r)
  note r = inv_sessions [OF assms Some]
  show ?thesis
  proof (cases "\<exists>h. Help (sess sm r) = Some h \<and> cc_ID h = k")
    case True
    then obtain h where h: "Help (sess sm r) = Some h" "cc_ID h = k" by blast
    let ?s = "(sess sm r)\<lparr>Help := None, dataPlaneReady := False\<rparr>"
    have "sm_inv L (sm\<lparr>sess := (sess sm)(r := ?s), byConnID := mdel k (byConnID sm)\<rparr>)"
    proof (rule inv_put [OF assms r(1)])
      show "same_key (sess sm r) ?s" "ts_ok ?s"
        using r(2) by (auto simp: ts_defs)
      show "mget (mdel k (byConnID sm)) x = Some r \<longleftrightarrow> routed ?s x" for x
        using h r(1,2) inv_byConnID [OF assms, of x r] by (auto simp: ts_defs)
      show "mget (mdel k (byConnID sm)) x = Some q \<longleftrightarrow> mget (byConnID sm) x = Some q" if "q \<noteq> r" for x q
        using that conn_owner [OF assms _ r(1), of x q] h by (auto simp: member_id_iff)
      show "member_id ?s x \<Longrightarrow> member_id (sess sm r) x \<or> conn_free x sm" for x
        by (auto simp: member_id_iff)
    qed
    then show ?thesis using Some h by (simp add: RollbackJoin_def upd_def)
  next
    case False
    then show ?thesis using Some assms by (auto simp: RollbackJoin_def split: option.splits)
  qed
qed (use assms in \<open>simp add: RollbackJoin_def\<close>)

text \<open>A free connection takes a seat in a session whose previous holders leave the index.\<close>

lemma inv_seat:
  assumes inv: "sm_inv L sm" and live: "live sm r" and free: "conn_free k sm"
    and same: "same_key (sess sm r) s'" and ok: "ts_ok s'"
    and own: "\<And>x. routed s' x \<longleftrightarrow> x = k \<or> mget m x = Some r"
    and sub: "\<And>x. mget m x = (if member_id (sess sm r) x \<and> D x then None else mget (byConnID sm) x)"
    and mem: "\<And>x. member_id s' x \<Longrightarrow> x = k \<or> member_id (sess sm r) x"
  shows "sm_inv L (sm\<lparr>sess := (sess sm)(r := s'), byConnID := mput k r m\<rparr>)"
proof (rule inv_put [OF inv live same ok])
  show "mget (mput k r m) x = Some r \<longleftrightarrow> routed s' x" for x
    using own by simp
  show "mget (mput k r m) x = Some q \<longleftrightarrow> mget (byConnID sm) x = Some q" if "q \<noteq> r" for x q
    using that sub conn_owner [OF inv _ live, of x q] conn_free_None [OF inv free] by auto
  show "member_id (sess sm r) x \<or> conn_free x sm" if "member_id s' x" for x
    using mem [OF that] free by auto
qed

lemma inv_JoinSession:
  assumes inv: "sm_inv L sm" and free: "conn_free (cc_ID c) sm"
  shows "sm_inv L (fst (JoinSession code c now sm))"
proof (cases "fst (JoinSession code c now sm) = sm")
  case False
  then obtain r share where r: "mget (byCode sm) code = Some r" "\<not> (Help (sess sm r) \<noteq> None \<and> pendingHelpID (sess sm r) = [])"
      "Share (sess sm r) = Some share" "shareReady (sess sm r)"
    and eq: "fst (JoinSession code c now sm) = (upd r (installHelp c) sm)
        \<lparr>byConnID := mput (cc_ID c) r (opt_del (Help (sess sm r)) (byConnID sm))\<rparr>"
    by (auto simp: JoinSession_def Let_def split: option.splits if_splits)
  note live = inv_byCode(1,2) [OF inv r(1)]
  have ne: "cc_ID c \<noteq> []" "\<not> member_id (sess sm r) (cc_ID c)"
    using free live(1) by (auto simp: conn_free_def live_def)
  have "sm_inv L (sm\<lparr>sess := (sess sm)(r := installHelp c (sess sm r)),
      byConnID := mput (cc_ID c) r (opt_del (Help (sess sm r)) (byConnID sm))\<rparr>)"
  proof (rule inv_seat [OF inv live(1) free, where D = "\<lambda>x. \<exists>h. Help (sess sm r) = Some h \<and> cc_ID h = x"])
    show "same_key (sess sm r) (installHelp c (sess sm r))" by (simp add: same_key_def installHelp_def Let_def)
    show "ts_ok (installHelp c (sess sm r))"
      using live(2) r ne by (auto simp: ts_defs installHelp_def Let_def)
    show "routed (installHelp c (sess sm r)) x \<longleftrightarrow>
        x = cc_ID c \<or> mget (opt_del (Help (sess sm r)) (byConnID sm)) x = Some r" for x
    proof -
      have "routed (installHelp c (sess sm r)) x \<longleftrightarrow> x = cc_ID share \<or> x = cc_ID c"
      proof -
        have "pendingHelpID (installHelp c (sess sm r)) = []"
          using live(2) by (auto simp: installHelp_def ts_ok_def Let_def)
        then show ?thesis
          using r(3) by (simp add: routed_def) (auto simp: installHelp_def Let_def)
      qed
      moreover have "mget (opt_del (Help (sess sm r)) (byConnID sm)) x = Some r \<longleftrightarrow>
          routed (sess sm r) x \<and> \<not> (\<exists>h. Help (sess sm r) = Some h \<and> cc_ID h = x)"
        using inv_byConnID [OF inv, of x r] live(1) by (simp add: mget_opt_del)
      moreover have "\<dots> \<longleftrightarrow> x = cc_ID share"
      proof -
        have "cc_ID share \<noteq> cc_ID h" if "Help (sess sm r) = Some h" for h
          using live(2) r(3) that by (simp add: ts_ok_def)
        then show ?thesis using r(3) unfolding routed_def by auto
      qed
      ultimately show ?thesis by auto
    qed
    show "mget (opt_del (Help (sess sm r)) (byConnID sm)) x =
        (if member_id (sess sm r) x \<and> (\<exists>h. Help (sess sm r) = Some h \<and> cc_ID h = x) then None
         else mget (byConnID sm) x)" for x
      by (auto simp: mget_opt_del member_id_iff)
    show "x = cc_ID c \<or> member_id (sess sm r) x" if "member_id (installHelp c (sess sm r)) x" for x
      using that by (auto simp: member_id_iff installHelp_def Let_def split: if_splits)
  qed
  then show ?thesis by (simp add: eq upd_def)
qed (use inv in simp)

lemma inv_Reuse:
  assumes inv: "sm_inv L sm" and free: "conn_free (cc_ID c) sm"
  shows "sm_inv L (fst (ReuseSessionByClientID cid c now sm))"
proof (cases "\<exists>r. cid \<noteq> [] \<and> mget (byClientID sm) cid = Some r \<and> \<not> (now > ExpiresAt (sess sm r) \<or> closed (sess sm r))")
  case True
  then obtain r where r: "cid \<noteq> []" "mget (byClientID sm) cid = Some r" "\<not> (now > ExpiresAt (sess sm r) \<or> closed (sess sm r))"
    by blast
  let ?s = "sess sm r"
  note live = inv_byClientID(1,2) [OF inv r(2)]
  have len: "length (liveReplaces ?s) \<le> shareConflictMaxReplaces" using live(2) by (simp add: ts_ok_def)
  have ne: "cc_ID c \<noteq> []" "\<not> member_id ?s (cc_ID c)"
    using free live(1) by (auto simp: conn_free_def live_def)
  show ?thesis
  proof (cases "conflictCheck now c ?s")
    case (Inl p)
    then obtain s' res where p: "conflictCheck now c ?s = Inl (s', res)" by (cases p) auto
    note f = conflictCheck_Inl [OF p len]
    have "ts_ok s'" "same_key ?s s'" "routed s' k = routed ?s k" "member_id s' k = member_id ?s k" for k
      using live(2) f(2) by (subst f(1), simp add: ts_defs)+
    then have "sm_inv L (upd r (\<lambda>_. s') sm)"
      by (intro inv_upd [OF inv live(1)]) simp_all
    then show ?thesis using r p by (simp add: ReuseSessionByClientID_def)
  next
    case (Inr s')
    note f = conflictCheck_Inr [OF Inr len]
    have fields: "Share s' = Share ?s" "Help s' = Help ?s"
      by (subst f(1), simp)+
    let ?m = "opt_del (Help ?s) (opt_del (Share ?s) (byConnID sm))"
    have "sm_inv L (sm\<lparr>sess := (sess sm)(r := takeOver c s'), byConnID := mput (cc_ID c) r ?m\<rparr>)"
    proof (rule inv_seat [OF inv live(1) free, where D = "\<lambda>_. True"])
      show "same_key ?s (takeOver c s')"
        by (subst f(1)) (simp add: same_key_def takeOver_def)
      show "ts_ok (takeOver c s')"
        using live(2) f(2) ne by (subst f(1)) (simp add: ts_ok_def takeOver_def)
      show "routed (takeOver c s') x \<longleftrightarrow> x = cc_ID c \<or> mget ?m x = Some r" for x
        using live inv_byConnID [OF inv, of x r] by (auto simp: mget_opt_del routed_def takeOver_def)
      show "mget ?m x = (if member_id ?s x \<and> True then None else mget (byConnID sm) x)" for x
        by (auto simp: mget_opt_del member_id_iff)
      show "x = cc_ID c \<or> member_id ?s x" if "member_id (takeOver c s') x" for x
        using that by (auto simp: member_id_iff takeOver_def)
    qed
    then show ?thesis
      using r Inr by (simp add: ReuseSessionByClientID_def Let_def upd_def fields)
  qed
next
  case False
  then show ?thesis
    using inv by (auto simp: ReuseSessionByClientID_def split: option.splits)
qed

lemma grace_shape:
  obtains e codes where
    "graceAfterInUseLocked r now sm = (upd r (\<lambda>s. s\<lparr>ExpiresAt := e\<rparr>) sm)\<lparr>byCode := codes\<rparr>"
    "codes = byCode sm \<or> codes = mput (Code (sess sm r)) r (byCode sm)"
proof -
  let ?g = "graceAfterInUseLocked r now sm"
  have triv: "upd r (\<lambda>s. s\<lparr>ExpiresAt := ExpiresAt (sess sm r)\<rparr>) sm = sm" by (simp add: upd_def)
  have "?g = (upd r (\<lambda>s. s\<lparr>ExpiresAt := ExpiresAt (sess ?g r)\<rparr>) sm)\<lparr>byCode := byCode ?g\<rparr>"
    using triv by (simp add: graceAfterInUseLocked_def Let_def upd_def)
  moreover have "byCode ?g = byCode sm \<or> byCode ?g = mput (Code (sess sm r)) r (byCode sm)"
    by (simp add: graceAfterInUseLocked_def Let_def)
  ultimately show ?thesis by (rule that)
qed

text \<open>A member leaves the index, and the code may be published again.\<close>

lemma inv_leave:
  assumes inv: "sm_inv L sm" and live: "live sm r" and mem: "member_id (sess sm r) k"
    and same: "same_key (sess sm r) s'" and ok: "ts_ok s'"
    and own: "\<And>x. routed s' x \<longleftrightarrow> routed (sess sm r) x \<and> x \<noteq> k"
    and sub: "\<And>x. member_id s' x \<Longrightarrow> member_id (sess sm r) x"
    and codes: "codes = byCode sm \<or> codes = mput (Code (sess sm r)) r (byCode sm)"
  shows "sm_inv L (sm\<lparr>sess := (sess sm)(r := s'), byConnID := mdel k (byConnID sm), byCode := codes\<rparr>)"
proof -
  let ?sm = "sm\<lparr>sess := (sess sm)(r := s'), byConnID := mdel k (byConnID sm)\<rparr>"
  have inv': "sm_inv L ?sm"
  proof (rule inv_put [OF inv live same ok])
    show "mget (mdel k (byConnID sm)) x = Some r \<longleftrightarrow> routed s' x" for x
      using own inv_byConnID [OF inv, of x r] live by auto
    show "mget (mdel k (byConnID sm)) x = Some q \<longleftrightarrow> mget (byConnID sm) x = Some q" if "q \<noteq> r" for x q
      using that conn_owner [OF inv _ live, of x q] mem by auto
    show "member_id s' x \<Longrightarrow> member_id (sess sm r) x \<or> conn_free x sm" for x
      using sub by blast
  qed
  have "live ?sm q \<and> Code (sess ?sm q) = c" if "mget codes c = Some q" for c q
  proof -
    have "live sm q \<and> Code (sess sm q) = c"
      using that codes inv_byCode(1,3) [OF inv] live by (auto split: if_splits)
    then show ?thesis using same by (auto simp: live_put [OF same]) (auto simp: same_key_def)
  qed
  from inv_code [OF inv' this] show ?thesis by simp
qed

lemma grace_upd:
  "graceAfterInUseLocked r now ((upd r f sm)\<lparr>byConnID := m\<rparr>) = g \<Longrightarrow> Code (f (sess sm r)) = Code (sess sm r) \<Longrightarrow>
   \<exists>e codes. g = sm\<lparr>sess := (sess sm)(r := (f (sess sm r))\<lparr>ExpiresAt := e\<rparr>), byConnID := m, byCode := codes\<rparr> \<and>
     (codes = byCode sm \<or> codes = mput (Code (sess sm r)) r (byCode sm))"
proof -
  assume g: "graceAfterInUseLocked r now ((upd r f sm)\<lparr>byConnID := m\<rparr>) = g" and c: "Code (f (sess sm r)) = Code (sess sm r)"
  obtain e codes where "g = (upd r (\<lambda>s. s\<lparr>ExpiresAt := e\<rparr>) ((upd r f sm)\<lparr>byConnID := m\<rparr>))\<lparr>byCode := codes\<rparr>"
    "codes = byCode sm \<or> codes = mput (Code (sess sm r)) r (byCode sm)"
    by (rule grace_shape [of r now "(upd r f sm)\<lparr>byConnID := m\<rparr>"]) (auto simp: g c)
  then show ?thesis by (intro exI [of _ e] exI [of _ codes]) (simp add: upd_def)
qed

text \<open>The state after a disconnect, in one record update.\<close>

lemma DisconnectClient_shape:
  assumes "mget (byConnID sm) k = Some r"
  shows "(\<exists>h e t codes. Help (sess sm r) = Some h \<and> cc_ID h = k \<and>
      codes \<in> {byCode sm, mput (Code (sess sm r)) r (byCode sm)} \<and>
      fst (DisconnectClient k now sm) = sm\<lparr>sess := (sess sm)(r := (sess sm r)\<lparr>dataPlaneReady := False, ExpiresAt := e,
          pendingHelpID := k, helpDisconnectTimer := Some t\<rparr>), byConnID := mdel k (byConnID sm), byCode := codes\<rparr>)
    \<or> (\<exists>c e codes. Share (sess sm r) = Some c \<and> cc_ID c = k \<and> \<not> (\<exists>h. Help (sess sm r) = Some h \<and> cc_ID h = k) \<and>
      codes \<in> {byCode sm, mput (Code (sess sm r)) r (byCode sm)} \<and>
      fst (DisconnectClient k now sm) = sm\<lparr>sess := (sess sm)(r := (sess sm r)\<lparr>dataPlaneReady := False, shareReady := False,
          ExpiresAt := e, Share := None, liveReplaces := [], conflictUntil := None\<rparr>), byConnID := mdel k (byConnID sm), byCode := codes\<rparr>)
    \<or> fst (DisconnectClient k now sm) = sm"
proof -
  let ?s = "sess sm r"
  have dflt: "\<exists>e codes. (upd r f sm)\<lparr>byConnID := m\<rparr> = sm\<lparr>sess := (sess sm)(r := (f ?s)\<lparr>ExpiresAt := e\<rparr>), byConnID := m, byCode := codes\<rparr> \<and>
     (codes = byCode sm \<or> codes = mput (Code ?s) r (byCode sm))" for f m
    by (rule exI [of _ "ExpiresAt (f ?s)"], rule exI [of _ "byCode sm"]) (simp add: upd_def)
  consider (H) h where "Help ?s = Some h" "cc_ID h = k"
    | (S) c where "Share ?s = Some c" "cc_ID c = k" "\<not> (\<exists>h. Help ?s = Some h \<and> cc_ID h = k)"
    | (N) "\<not> (\<exists>h. Help ?s = Some h \<and> cc_ID h = k)" "\<not> (\<exists>h. Share ?s = Some h \<and> cc_ID h = k)"
    by blast
  then show ?thesis
  proof cases
    case H
    let ?sm1 = "(upd r (\<lambda>s. s\<lparr>dataPlaneReady := False\<rparr>) sm)\<lparr>byConnID := mdel k (byConnID sm)\<rparr>"
    obtain e codes where "(if Share ?s \<noteq> None then graceAfterInUseLocked r now ?sm1 else ?sm1) =
        sm\<lparr>sess := (sess sm)(r := ?s\<lparr>dataPlaneReady := False, ExpiresAt := e\<rparr>), byConnID := mdel k (byConnID sm), byCode := codes\<rparr>"
      and codes: "codes = byCode sm \<or> codes = mput (Code ?s) r (byCode sm)"
      using dflt [where f = "\<lambda>s. s\<lparr>dataPlaneReady := False\<rparr>" and m = "mdel k (byConnID sm)"]
        grace_upd [where r = r and now = now and sm = sm and f = "\<lambda>s. s\<lparr>dataPlaneReady := False\<rparr>" and m = "mdel k (byConnID sm)", OF refl]
      by (cases "Share ?s") auto
    then have "fst (DisconnectClient k now sm) = sm\<lparr>sess := (sess sm)(r := ?s\<lparr>dataPlaneReady := False, ExpiresAt := e,
          pendingHelpID := k, helpDisconnectTimer := Some (now + helpDisconnectDebounce)\<rparr>),
          byConnID := mdel k (byConnID sm), byCode := codes\<rparr>"
      using assms H by (simp add: DisconnectClient_def Let_def)
    then show ?thesis using H codes by blast
  next
    case S
    let ?sm1 = "(upd r (\<lambda>s. s\<lparr>dataPlaneReady := False, shareReady := False\<rparr>) sm)\<lparr>byConnID := mdel k (byConnID sm)\<rparr>"
    obtain e codes where "(if Help ?s \<noteq> None then graceAfterInUseLocked r now ?sm1 else ?sm1) =
        sm\<lparr>sess := (sess sm)(r := ?s\<lparr>dataPlaneReady := False, shareReady := False, ExpiresAt := e\<rparr>),
           byConnID := mdel k (byConnID sm), byCode := codes\<rparr>"
      and codes: "codes = byCode sm \<or> codes = mput (Code ?s) r (byCode sm)"
      using dflt [where f = "\<lambda>s. s\<lparr>dataPlaneReady := False, shareReady := False\<rparr>" and m = "mdel k (byConnID sm)"]
        grace_upd [where r = r and now = now and sm = sm and f = "\<lambda>s. s\<lparr>dataPlaneReady := False, shareReady := False\<rparr>" and m = "mdel k (byConnID sm)", OF refl]
      by (cases "Help ?s") auto
    then have "fst (DisconnectClient k now sm) = sm\<lparr>sess := (sess sm)(r := ?s\<lparr>dataPlaneReady := False, shareReady := False,
          ExpiresAt := e, Share := None, liveReplaces := [], conflictUntil := None\<rparr>),
          byConnID := mdel k (byConnID sm), byCode := codes\<rparr>"
    proof -
      have "\<not> (case Help ?s of None \<Rightarrow> False | Some h \<Rightarrow> cc_ID h = k)" using S(3) by (auto split: option.splits)
      with \<open>_ = sm\<lparr>sess := _, byConnID := _, byCode := _\<rparr>\<close> show ?thesis
        using assms S(1,2) by (simp add: DisconnectClient_def Let_def)
    qed
    then show ?thesis using S codes by blast
  next
    case N
    then show ?thesis using assms by (auto simp: DisconnectClient_def Let_def split: option.splits)
  qed
qed

lemma inv_DisconnectClient:
  assumes inv: "sm_inv L sm"
  shows "sm_inv L (fst (DisconnectClient k now sm))"
proof (cases "mget (byConnID sm) k")
  case None
  then show ?thesis using inv by (simp add: DisconnectClient_def)
next
  case (Some r)
  let ?s = "sess sm r"
  have live: "live sm r" and rt: "routed ?s k" using inv_byConnID [OF inv, of k r] Some by auto
  note ok = inv_live(1) [OF inv live]
  show ?thesis
    using DisconnectClient_shape [OF Some, of now]
  proof (elim disjE exE conjE)
    fix h e t codes
    assume a: "Help ?s = Some h" "cc_ID h = k"
      and codes: "codes \<in> {byCode sm, mput (Code ?s) r (byCode sm)}"
      and eq: "fst (DisconnectClient k now sm) = sm\<lparr>sess := (sess sm)(r := ?s\<lparr>dataPlaneReady := False, ExpiresAt := e,
          pendingHelpID := k, helpDisconnectTimer := Some t\<rparr>), byConnID := mdel k (byConnID sm), byCode := codes\<rparr>"
    have "k \<noteq> []" using ok a by (auto simp: ts_ok_def)
    then show ?thesis unfolding eq
      using ok a codes by (intro inv_leave [OF inv live]) (auto simp: ts_defs)
  next
    fix c e codes
    assume a: "Share ?s = Some c" "cc_ID c = k"
      and codes: "codes \<in> {byCode sm, mput (Code ?s) r (byCode sm)}"
      and eq: "fst (DisconnectClient k now sm) = sm\<lparr>sess := (sess sm)(r := ?s\<lparr>dataPlaneReady := False, shareReady := False,
          ExpiresAt := e, Share := None, liveReplaces := [], conflictUntil := None\<rparr>), byConnID := mdel k (byConnID sm), byCode := codes\<rparr>"
    let ?s' = "?s\<lparr>dataPlaneReady := False, shareReady := False, ExpiresAt := e, Share := None, liveReplaces := [], conflictUntil := None\<rparr>"
    have ne: "cc_ID h \<noteq> k" if "Help ?s = Some h" for h using ok a that by (auto simp: ts_ok_def)
    show ?thesis unfolding eq
    proof (rule inv_leave [OF inv live])
      show "member_id ?s k" using a by (simp add: member_id_iff)
      show "same_key ?s ?s'" by (simp add: same_key_def)
      show "ts_ok ?s'" using ok by (simp add: ts_ok_def)
      show "routed ?s' x \<longleftrightarrow> routed ?s x \<and> x \<noteq> k" for x using a ne by (auto simp: routed_def)
      show "member_id ?s' x \<Longrightarrow> member_id ?s x" for x by (auto simp: member_id_iff)
      show "codes = byCode sm \<or> codes = mput (Code ?s) r (byCode sm)" using codes by simp
    qed
  qed (use inv in simp)
qed

text \<open>Deletion.\<close>

lemma mget_del_if: "mget (del_if k r m) x = (if x = k \<and> mget m k = Some r then None else mget m x)"
  by (auto simp: del_if_def)

lemma mget_opt_del_if:
  "mget (opt_del_if c r m) x = (if (\<exists>y. c = Some y \<and> cc_ID y = x) \<and> mget m x = Some r then None else mget m x)"
  by (auto simp: opt_del_if_def mget_del_if split: option.splits)

lemma mget0_decrement:
  "mget0 (decrementSessionCountLocked ip m) x =
     (if x = ip \<and> ip \<noteq> [] then (if mget0 m ip \<le> 1 then 0 else mget0 m ip - 1) else mget0 m x)"
  by (auto simp: decrementSessionCountLocked_def mget0_def split: option.splits)

lemma card_counted_del:
  assumes "table_ok sm" "mget (sessions sm) sid = Some r"
    and "\<And>q. q \<noteq> r \<Longrightarrow> sess sm' q = sess sm q" "sessions sm' = mdel sid (sessions sm)"
  shows "counted sm' ip = counted sm ip - {sid}"
proof (rule set_eqI)
  fix x
  have "mget (sessions sm) x = Some q \<Longrightarrow> x \<noteq> sid \<Longrightarrow> q \<noteq> r" for q
    using assms(1,2) by (auto simp: table_ok_def)
  then show "x \<in> counted sm' ip \<longleftrightarrow> x \<in> counted sm ip - {sid}"
    using assms(3,4) by (cases "mget (sessions sm) x") (auto simp: counted_def)
qed

lemma inv_delete:
  assumes inv: "sm_inv L sm"
  shows "sm_inv L (fst (deleteSessionLocked sid ex sm))"
proof (cases "\<exists>r. mget (sessions sm) sid = Some r \<and> ex = Some r")
  case False
  then show ?thesis using inv by (auto simp: deleteSessionLocked_def split: option.splits)
next
  case True
  then obtain r where r: "mget (sessions sm) sid = Some r" "ex = Some r" by blast
  let ?s = "sess sm r" and ?sm = "fst (deleteSessionLocked sid ex sm)"
  note l = inv_sessions [OF inv r(1)]
  have t: "table_ok sm" and i: "index_ok sm" and c: "conn_ok sm" and q: "quota_ok L sm"
    using inv by (auto simp: sm_inv_def)
  have uniq: "mget (sessions sm) x = Some p \<Longrightarrow> x \<noteq> sid \<longleftrightarrow> p \<noteq> r" for x p
    using t r(1) by (auto simp: table_ok_def)
  have fields [simp]: "sessions ?sm = mdel sid (sessions sm)" "next_ref ?sm = next_ref sm"
      "byCode ?sm = del_if (Code ?s) r (byCode sm)"
      "byConnID ?sm = opt_del_if (Help ?s) r (opt_del_if (Share ?s) r (byConnID sm))"
      "byClientID ?sm = (if ts_ClientID ?s \<noteq> [] then del_if (ts_ClientID ?s) r (byClientID sm) else byClientID sm)"
      "sessionCountPerIP ?sm = (if countedByIP ?s then decrementSessionCountLocked (CreatorIP ?s) (sessionCountPerIP sm)
          else sessionCountPerIP sm)"
    using r by (simp_all add: deleteSessionLocked_def Let_def)
  have other [simp]: "p \<noteq> r \<Longrightarrow> sess ?sm p = sess sm p" for p
    using r by (simp add: deleteSessionLocked_def Let_def)
  have id_r: "ts_ID (sess ?sm r) = sid"
    using r l(3) by (simp add: deleteSessionLocked_def Let_def)
  have keys [simp]: "Code (sess ?sm p) = Code (sess sm p)" "ts_ClientID (sess ?sm p) = ts_ClientID (sess sm p)" for p
    using r by (simp_all add: deleteSessionLocked_def Let_def)
  have lv: "live ?sm p \<longleftrightarrow> live sm p \<and> p \<noteq> r" for p
    using uniq l(1,3) id_r by (cases "p = r") (auto simp: live_def)
  have "table_ok ?sm"
    using t uniq unfolding table_ok_def by auto
  moreover have "index_ok ?sm"
    using i unfolding index_ok_def lv by (auto simp: mget_del_if)
  moreover have "conn_ok ?sm"
  proof -
    have "mget (byConnID ?sm) k = Some p \<longleftrightarrow> live sm p \<and> p \<noteq> r \<and> routed (sess sm p) k" for k p
    proof -
      have "mget (byConnID ?sm) k = Some p \<longleftrightarrow> mget (byConnID sm) k = Some p \<and> p \<noteq> r"
        using inv_byConnID [OF inv, of k r] l(1) by (auto simp: mget_opt_del_if routed_def)
      then show ?thesis using inv_byConnID [OF inv, of k p] by auto
    qed
    moreover have "p = p'" if "live sm p" "live sm p'" "member_id (sess sm p) k" "member_id (sess sm p') k" for p p' k
      using that c unfolding conn_ok_def by blast
    ultimately show ?thesis unfolding conn_ok_def lv by (metis other)
  qed
  moreover have "quota_ok L ?sm"
  proof -
    have cd: "counted ?sm ip = counted sm ip - {sid}" for ip
      by (rule card_counted_del [OF t r(1)]) simp_all
    have mem: "sid \<in> counted sm ip \<longleftrightarrow> countedByIP ?s \<and> CreatorIP ?s = ip" for ip
      using r(1) by (auto simp: counted_def)
    have pos: "0 < card (counted sm ip)" if "sid \<in> counted sm ip" for ip
      using that by (auto simp: card_gt_0_iff)
    have card: "int (card (counted ?sm ip)) = int (card (counted sm ip)) - (if sid \<in> counted sm ip then 1 else 0)" for ip
      using pos [of ip] by (auto simp: cd card_Diff_singleton_if)
    have "countedByIP ?s \<Longrightarrow> CreatorIP ?s \<noteq> []" using l(2) by (simp add: ts_ok_def)
    then have "mget0 (sessionCountPerIP ?sm) ip = int (card (counted ?sm ip))" for ip
      using q pos [of ip]
      unfolding card mem by (auto simp: quota_ok_def mget0_decrement)
    moreover have "mlen (sessions ?sm) \<le> mlen (sessions sm)"
      using mlen_del_old [OF r(1)] by simp
    moreover have "int (card (counted ?sm ip)) \<le> int (card (counted sm ip))" for ip
      by (simp add: card)
    ultimately show ?thesis using q unfolding quota_ok_def by (meson order_trans)
  qed
  ultimately show ?thesis by (simp add: sm_inv_def)
qed

lemma inv_CloseSession: "sm_inv L sm \<Longrightarrow> sm_inv L (fst (CloseSession sid sm))"
  using inv_delete by (auto simp: CloseSession_def Let_def split: prod.splits) (metis fst_conv)

lemma inv_cleanup_one:
  assumes "sm_inv L (fst st)"
  shows "sm_inv L (fst (cleanup_one now sid st))"
proof -
  obtain sm ex cl where st: "st = (sm, ex, cl)" by (cases st)
  have inv: "sm_inv L sm" using assms st by simp
  have "sm_inv L (sm\<lparr>byCode := del_if (Code (sess sm r)) r (byCode sm)\<rparr>)" for r
  proof (rule inv_code [OF inv])
    fix c q assume "mget (del_if (Code (sess sm r)) r (byCode sm)) c = Some q"
    then have "mget (byCode sm) c = Some q" by (simp add: mget_del_if split: if_splits)
    from inv_byCode(1,3) [OF inv this] show "live sm q \<and> Code (sess sm q) = c" by blast
  qed
  note inv' = this
  show ?thesis
  proof (cases "mget (sessions sm) sid")
    case (Some r)
    let ?sm1 = "sm\<lparr>byCode := del_if (Code (sess sm r)) r (byCode sm)\<rparr>"
    obtain sm2 a b d where "deleteSessionLocked sid (Some r) ?sm1 = (sm2, a, b, d)"
      by (cases "deleteSessionLocked sid (Some r) ?sm1")
    moreover from this have "sm_inv L sm2" using inv_delete [OF inv', of sid "Some r" r] by simp
    ultimately show ?thesis using Some inv inv' by (simp add: st cleanup_one_def Let_def)
  qed (simp add: st cleanup_one_def inv)
qed

lemma inv_CleanupExpired:
  assumes "sm_inv L sm"
  shows "sm_inv L (fst (CleanupExpired now order sm))"
proof -
  have "sm_inv L (fst st) \<Longrightarrow> sm_inv L (fst (fold (cleanup_one now) order st))" for st
    by (induction order arbitrary: st) (simp_all only: fold_simps(1) fold.simps comp_apply id_apply inv_cleanup_one)
  then show ?thesis using assms by (simp add: CleanupExpired_def)
qed

text \<open>Creation.\<close>

lemma createSession_Inr:
  assumes "createSession code share ttl cid ip mp mt ready now ids sm = Some (sm', Inr r)"
  obtains sid where "mget (sessions sm) sid = None" "sid \<in> set ids" "r = next_ref sm" "mlen (sessions sm) < mt"
    "ip \<noteq> [] \<and> mp > 0 \<longrightarrow> mget0 (sessionCountPerIP sm) ip < mp"
    "sessions sm' = mput sid r (sessions sm)" "byCode sm' = mput code r (byCode sm)"
    "byClientID sm' = (if cid \<noteq> [] then mput cid r (byClientID sm) else byClientID sm)"
    "byConnID sm' = (case share of None \<Rightarrow> byConnID sm | Some c \<Rightarrow> mput (cc_ID c) r (byConnID sm))"
    "sessionCountPerIP sm' = (if ip \<noteq> [] \<and> mp > 0
       then mput ip (mget0 (sessionCountPerIP sm) ip + 1) (sessionCountPerIP sm) else sessionCountPerIP sm)"
    "next_ref sm' = Suc (next_ref sm)" "reconnectGrace sm' = reconnectGrace sm"
    "sess sm' = (sess sm)(r := no_session\<lparr>ts_ID := sid, Code := code, Share := share, CreatedAt := now,
       ExpiresAt := now + ttl, ts_ClientID := cid, CreatorIP := ip, countedByIP := ip \<noteq> [] \<and> mp > 0, shareReady := ready\<rparr>)"
proof -
  have 1: "\<not> mlen (sessions sm) \<ge> mt" "\<not> (ip \<noteq> [] \<and> mp > 0 \<and> mget0 (sessionCountPerIP sm) ip \<ge> mp)"
    using assms unfolding createSession_def by (auto split: if_splits)
  from 1 obtain sid where 2: "find (\<lambda>i. mget (sessions sm) i = None) ids = Some sid"
    using assms unfolding createSession_def by (cases "find (\<lambda>i. mget (sessions sm) i = None) ids") auto
  then have 3: "mget (sessions sm) sid = None" "sid \<in> set ids"
    by (auto simp: find_Some_iff)
  show ?thesis
    by (rule that [of sid]) (use assms 1 2 3 in \<open>simp_all add: createSession_def Let_def\<close>,
        use assms 1 2 3 in \<open>auto simp: createSession_def Let_def\<close>)
qed

lemma inv_createSession:
  assumes inv: "sm_inv L sm" and free: "\<And>c. share = Some c \<Longrightarrow> conn_free (cc_ID c) sm"
    and cr: "createSession code share ttl cid ip (maxSessionsPerIP L) (maxTotalSessions L) ready now ids sm = Some (sm', Inr r)"
  shows "sm_inv L sm'"
proof -
  obtain sid where n: "mget (sessions sm) sid = None" and r: "r = next_ref sm"
    and room: "mlen (sessions sm) < maxTotalSessions L"
    and room': "ip \<noteq> [] \<and> maxSessionsPerIP L > 0 \<longrightarrow> mget0 (sessionCountPerIP sm) ip < maxSessionsPerIP L"
    and f: "sessions sm' = mput sid r (sessions sm)" "byCode sm' = mput code r (byCode sm)"
    "byClientID sm' = (if cid \<noteq> [] then mput cid r (byClientID sm) else byClientID sm)"
    "byConnID sm' = (case share of None \<Rightarrow> byConnID sm | Some c \<Rightarrow> mput (cc_ID c) r (byConnID sm))"
    "sessionCountPerIP sm' = (if ip \<noteq> [] \<and> maxSessionsPerIP L > 0
       then mput ip (mget0 (sessionCountPerIP sm) ip + 1) (sessionCountPerIP sm) else sessionCountPerIP sm)"
    "next_ref sm' = Suc (next_ref sm)"
    and h: "sess sm' = (sess sm)(r := no_session\<lparr>ts_ID := sid, Code := code, Share := share, CreatedAt := now,
       ExpiresAt := now + ttl, ts_ClientID := cid, CreatorIP := ip, countedByIP := ip \<noteq> [] \<and> maxSessionsPerIP L > 0,
       shareReady := ready\<rparr>)"
    using cr by (rule createSession_Inr) blast
  have t: "table_ok sm" and i: "index_ok sm" and c: "conn_ok sm" and q: "quota_ok L sm"
    using inv by (auto simp: sm_inv_def)
  have old: "mget (sessions sm) x = Some p \<Longrightarrow> p \<noteq> r" for x p
    using t r by (auto simp: table_ok_def)
  have oldl: "live sm p \<Longrightarrow> p \<noteq> r" for p using old by (auto simp: live_def)
  have lv: "live sm' p \<longleftrightarrow> p = r \<or> live sm p" for p
    using f(1) h n old oldl by (cases "p = r") (auto simp: live_def no_session_def)
  have sess [simp]: "p \<noteq> r \<Longrightarrow> sess sm' p = sess sm p" for p using h by simp
  have ne: "share = Some c \<Longrightarrow> cc_ID c \<noteq> []" for c using free by (simp add: conn_free_def)
  have new: "ts_ok (sess sm' r)" "ts_ID (sess sm' r) = sid" "Code (sess sm' r) = code" "ts_ClientID (sess sm' r) = cid"
    using ne by (simp_all add: h ts_ok_def no_session_def)
  have newr: "routed (sess sm' r) k \<longleftrightarrow> (\<exists>c. share = Some c \<and> cc_ID c = k)"
    "member_id (sess sm' r) k \<longleftrightarrow> (\<exists>c. share = Some c \<and> cc_ID c = k)" for k
    by (simp_all add: h no_session_def routed_def member_id_iff)
  have "table_ok sm'"
    unfolding table_ok_def
  proof (intro allI impI)
    fix x p assume "mget (sessions sm') x = Some p"
    then show "ts_ID (sess sm' p) = x \<and> p < next_ref sm' \<and> ts_ok (sess sm' p)"
      using t f(1,6) new(1,2) r old [of x p] by (cases "p = r") (auto simp: table_ok_def less_Suc_eq split: if_splits)
  qed
  moreover have "index_ok sm'"
    unfolding index_ok_def lv
  proof (intro conjI allI impI)
    fix k p
    show "p = r \<or> live sm p" "Code (sess sm' p) = k" if "mget (byCode sm') k = Some p"
      using that i f(2) new(3) oldl [of p] by (cases "p = r"; auto simp: index_ok_def split: if_splits)+
    show "p = r \<or> live sm p" "ts_ClientID (sess sm' p) = k" "k \<noteq> []" if "mget (byClientID sm') k = Some p"
      using that i f(3) new(4) oldl [of p] by (cases "p = r"; auto simp: index_ok_def split: if_splits)+
  qed
  moreover have "conn_ok sm'"
  proof -
    have free': "share = Some c \<Longrightarrow> mget (byConnID sm) (cc_ID c) = None" for c
      using conn_free_None [OF inv free] by blast
    have "mget (byConnID sm) k \<noteq> Some r" for k
      using inv_byConnID [OF inv, of k r] oldl by blast
    then have A: "mget (byConnID sm') k = Some p \<longleftrightarrow> live sm' p \<and> routed (sess sm' p) k" for k p
      using inv_byConnID [OF inv, of k p] f(4) newr(1) [of k] free' oldl [of p]
      by (cases "p = r"; cases share) (auto simp: lv)
    have B: "\<not> member_id (sess sm p) k" if "live sm p" "share = Some c" "cc_ID c = k" for p k c
      using that free by (auto simp: conn_free_def live_def)
    have C: "p = p'" if "live sm p" "live sm p'" "member_id (sess sm p) k" "member_id (sess sm p') k" for p p' k
      using that c unfolding conn_ok_def by blast
    have "p = p'" if "live sm' p" "live sm' p'" "member_id (sess sm' p) k" "member_id (sess sm' p') k" for p p' k
      using that B C newr(2) sess oldl unfolding lv by metis
    with A show ?thesis unfolding conn_ok_def by blast
  qed
  moreover have "quota_ok L sm'"
  proof -
    have cd: "counted sm' x = (if ip \<noteq> [] \<and> maxSessionsPerIP L > 0 \<and> x = ip then insert sid (counted sm x) else counted sm x)" for x
    proof (rule set_eqI)
      fix y show "y \<in> counted sm' x \<longleftrightarrow> y \<in> (if ip \<noteq> [] \<and> maxSessionsPerIP L > 0 \<and> x = ip then insert sid (counted sm x) else counted sm x)"
        using old [of y] n by (cases "mget (sessions sm) y") (auto simp: counted_def f(1) h no_session_def)
    qed
    have "sid \<notin> counted sm x" for x using n by (auto simp: counted_def)
    then have card: "int (card (counted sm' x)) = int (card (counted sm x)) + (if ip \<noteq> [] \<and> maxSessionsPerIP L > 0 \<and> x = ip then 1 else 0)" for x
      by (simp add: cd)
    have "mget0 (sessionCountPerIP sm) x = int (card (counted sm x))" for x
      using q by (simp add: quota_ok_def)
    then show ?thesis
      using q room room' mlen_put_new [OF n] unfolding quota_ok_def card f by auto
  qed
  ultimately show ?thesis by (simp add: sm_inv_def)
qed

lemma inv_init: "sm_inv L (NewSessionManager g)"
  by (auto simp: sm_inv_def table_ok_def index_ok_def conn_ok_def quota_ok_def NewSessionManager_def
      live_def counted_def)

lemma inv_apply:
  assumes "sm_inv L sm" "ev_fresh e sm" "sm_apply L e sm = Some sm'"
  shows "sm_inv L sm'"
proof (cases e)
  case (EvCreate code share ttl cid ip ready now ids)
  then obtain res where "createSession code share ttl cid ip (maxSessionsPerIP L) (maxTotalSessions L) ready now ids sm = Some (sm', res)"
    using assms(3) by auto
  moreover have "sm' = sm" if "res = Inl err" for err
    using calculation that by (auto simp: createSession_def Let_def split: if_splits option.splits)
  moreover have "conn_free (cc_ID c) sm" if "share = Some c" for c
    using assms(2) EvCreate that by (simp add: ev_fresh_def)
  ultimately show ?thesis using assms(1) by (cases res) (simp, blast intro: inv_createSession)
next
  case (EvUpdateAddr k a b n)
  then show ?thesis using assms inv_UpdatePeerAddr by (auto simp: map_option_case split: option.splits)
qed (use assms in \<open>auto simp: ev_fresh_def inv_Reuse inv_MarkShareReady inv_JoinSession inv_RollbackJoin
      inv_ActivateDataPlane inv_CloseSession inv_DisconnectClient inv_helpTimerFired inv_CleanupExpired\<close>)

lemma reach_inv: "sm_reach L g sm \<Longrightarrow> sm_inv L sm"
  by (induction rule: sm_reach.induct) (auto intro: inv_init inv_apply)

end
