(* ===== verification/Session_Props.thy ===== *)
theory Session_Props
  imports Session_Inv
begin

text \<open>
  What the invariant of the session table gives its clients: routing stays inside a session,
  the data plane is bound to one pairing, quotas are exact, expiry spares sessions in use and
  grants them a grace period, and the takeover of an online share is rate limited.
\<close>

section \<open>A concrete run\<close>

text \<open>A share registers, a helper joins and the data plane is activated.\<close>

definition demo_share :: ClientConn where
  "demo_share = \<lparr>cc_ID = ''cli_s'', cc_Type = ''share'', cc_ClientID = ''pc1'', cc_Version = ''1.0'',
     cc_Host = ''u@h'', cc_supportsUpdateNotice = True, cc_Conn = Some ''1.2.3.4:5''\<rparr>"

definition demo_help :: ClientConn where
  "demo_help = \<lparr>cc_ID = ''cli_h'', cc_Type = ''help'', cc_ClientID = [], cc_Version = ''1.0'',
     cc_Host = ''v@h'', cc_supportsUpdateNotice = True, cc_Conn = Some ''1.2.3.9:5''\<rparr>"

definition demo_limits :: limits where
  "demo_limits = \<lparr>maxSessionsPerIP = 5, maxTotalSessions = 10\<rparr>"

definition demo_events :: "sm_event list" where
  "demo_events = [EvCreate ''AB'' (Some demo_share) 1000 ''pc1'' ''1.2.3.4'' False 0 [''ses''],
     EvMarkReady ''ses'' ''cli_s'', EvJoin ''AB'' demo_help 5, EvActivate ''ses'' ''cli_s'' ''cli_h'']"

definition demo_sm :: SessionManager where
  "demo_sm = the (sm_run demo_limits demo_events (NewSessionManager 100))"

lemma demo_reach: "sm_reach demo_limits 100 demo_sm"
proof -
  have "sm_run demo_limits demo_events (NewSessionManager 100) \<noteq> None" by code_simp
  then show ?thesis
    unfolding demo_sm_def by (intro sm_run_reach [OF sm_init]) auto
qed

section \<open>Routing\<close>

lemma FindPeer_cases:
  assumes inv: "sm_inv L sm" and peer: "FindPeer k sm = Some c"
  obtains (share) r s where "live sm r" "Share (sess sm r) = Some s" "cc_ID s = k" "Help (sess sm r) = Some c"
  | (helper) r h where "live sm r" "Help (sess sm r) = Some h" "cc_ID h = k" "pendingHelpID (sess sm r) = []"
      "Share (sess sm r) = Some c" "cc_ID c \<noteq> k"
proof -
  obtain r where r: "mget (byConnID sm) k = Some r"
    using peer by (auto simp: FindPeer_def split: option.splits)
  then have l: "live sm r" and rt: "routed (sess sm r) k" using inv_byConnID [OF inv] by blast+
  show thesis
  proof (cases "\<exists>s. Share (sess sm r) = Some s \<and> cc_ID s = k")
    case True
    then show thesis using peer r l share by (auto simp: FindPeer_def Let_def)
  next
    case False
    then obtain h where h: "Help (sess sm r) = Some h" "cc_ID h = k" "pendingHelpID (sess sm r) = []"
      using rt by (auto simp: routed_def)
    have "Share (sess sm r) = Some c"
      using peer r h False by (auto simp: FindPeer_def Let_def split: option.splits)
    then show thesis using helper l h False by blast
  qed
qed

lemma FindPeer_share:
  assumes "sm_inv L sm" "live sm r" "Share (sess sm r) = Some s"
  shows "FindPeer (cc_ID s) sm = Help (sess sm r)"
proof -
  have "mget (byConnID sm) (cc_ID s) = Some r"
    using assms inv_byConnID by (auto simp: routed_def)
  then show ?thesis using assms(3) by (simp add: FindPeer_def Let_def)
qed

lemma FindPeer_help:
  assumes "sm_inv L sm" "live sm r" "Help (sess sm r) = Some h" "pendingHelpID (sess sm r) = []"
  shows "FindPeer (cc_ID h) sm = Share (sess sm r)"
proof -
  have "mget (byConnID sm) (cc_ID h) = Some r"
    using assms inv_byConnID by (auto simp: routed_def)
  moreover have "Share (sess sm r) = Some s \<Longrightarrow> cc_ID s \<noteq> cc_ID h" for s
    using inv_live(1) [OF assms(1,2)] assms(3) by (simp add: ts_ok_def)
  ultimately show ?thesis using assms(3) by (auto simp: FindPeer_def Let_def split: option.splits)
qed

lemma FindPeer_pending:
  assumes "sm_inv L sm" "live sm r" "Help (sess sm r) = Some h" "pendingHelpID (sess sm r) \<noteq> []"
  shows "FindPeer (cc_ID h) sm = None"
proof -
  have ne: "Share (sess sm r) = Some s \<Longrightarrow> cc_ID s \<noteq> cc_ID h" for s
    using inv_live(1) [OF assms(1,2)] assms(3) by (simp add: ts_ok_def)
  have "mget (byConnID sm) (cc_ID h) = None"
  proof (cases "mget (byConnID sm) (cc_ID h)")
    case (Some q)
    have "member_id (sess sm r) (cc_ID h)" using assms(3) by (simp add: member_id_iff)
    then have "q = r" using conn_owner [OF assms(1) Some assms(2)] by simp
    then have "routed (sess sm r) (cc_ID h)" using Some inv_byConnID [OF assms(1)] by blast
    then show ?thesis using assms(3,4) ne by (auto simp: routed_def)
  qed simp
  then show ?thesis by (simp add: FindPeer_def)
qed

text \<open>
  C12. Messages are routed inside one session: in every reachable state the peer \<open>FindPeer\<close>
  names for a connection is the other side of that connection's own session, and the routing
  is mutual, except that a Help whose disconnect is being debounced is named but is no longer
  routed itself.
\<close>

theorem routing_is_mutual:
  assumes "sm_reach L g sm" and "FindPeer k sm = Some c"
  shows "\<exists>sid r. mget (sessions sm) sid = Some r \<and> member_id (sess sm r) k \<and> member_id (sess sm r) (cc_ID c) \<and>
    cc_ID c \<noteq> k \<and>
    (if pendingHelpID (sess sm r) = cc_ID c then FindPeer (cc_ID c) sm = None
     else \<exists>c'. FindPeer (cc_ID c) sm = Some c' \<and> cc_ID c' = k)"
proof -
  note inv = reach_inv [OF assms(1)]
  from inv assms(2) show ?thesis
  proof (cases rule: FindPeer_cases)
    case (share r s)
    note ok = inv_live(1) [OF inv share(1)]
    have "FindPeer (cc_ID c) sm = (if pendingHelpID (sess sm r) = cc_ID c then None else Some s)"
    proof (cases "pendingHelpID (sess sm r) = []")
      case True
      then show ?thesis using FindPeer_help [OF inv share(1,4)] share(2,4) ok by (auto simp: ts_ok_def)
    next
      case False
      then show ?thesis using FindPeer_pending [OF inv share(1,4)] share(4) ok by (auto simp: ts_ok_def)
    qed
    moreover have "cc_ID c \<noteq> k" using ok share(2-4) by (auto simp: ts_ok_def)
    ultimately show ?thesis using share unfolding live_def member_id_iff by auto
  next
    case (helper r h)
    note ok = inv_live(1) [OF inv helper(1)]
    have "FindPeer (cc_ID c) sm = Some h" using FindPeer_share [OF inv helper(1,5)] helper(2) by simp
    moreover have "pendingHelpID (sess sm r) \<noteq> cc_ID c" using ok helper(4,5) by (auto simp: ts_ok_def)
    ultimately show ?thesis using helper
      by (intro exI [of _ "ts_ID (sess sm r)"] exI [of _ r]) (simp add: live_def member_id_iff)
  qed
qed

theorem routing_is_mutual_witness:
  "\<exists>c'. FindPeer ''cli_s'' demo_sm = Some demo_help \<and> FindPeer ''cli_h'' demo_sm = Some c' \<and> cc_ID c' = ''cli_s''"
proof -
  have p: "FindPeer ''cli_s'' demo_sm = Some demo_help" by code_simp
  have "\<not> FindPeer ''cli_h'' demo_sm = None" by code_simp
  then show ?thesis
    using routing_is_mutual [OF demo_reach p] p by (auto simp: demo_help_def split: if_splits)
qed

section \<open>Data plane\<close>

text \<open>What a step that is not the activation of a session leaves of its data plane.\<close>

definition plane_kept :: "SessionManager \<Rightarrow> SessionManager \<Rightarrow> string \<Rightarrow> bool" where
  "plane_kept sm sm' sid =
     (\<forall>r. mget (sessions sm') sid = Some r \<longrightarrow> dataPlaneReady (sess sm' r) \<longrightarrow>
        mget (sessions sm) sid = Some r \<and> dataPlaneReady (sess sm r) \<and>
        Share (sess sm' r) = Share (sess sm r) \<and> Help (sess sm' r) = Help (sess sm r))"

lemma plane_kept_refl [simp]: "plane_kept sm sm sid"
  by (simp add: plane_kept_def)

lemma plane_kept_trans: "plane_kept a b sid \<Longrightarrow> plane_kept b c sid \<Longrightarrow> plane_kept a c sid"
  by (auto simp: plane_kept_def)

lemma plane_kept_upd:
  "(dataPlaneReady (f (sess sm r)) \<Longrightarrow> dataPlaneReady (sess sm r) \<and>
      Share (f (sess sm r)) = Share (sess sm r) \<and> Help (f (sess sm r)) = Help (sess sm r)) \<Longrightarrow>
   plane_kept sm (upd r f sm) sid"
  by (auto simp: plane_kept_def)

lemma plane_kept_frame [simp]:
  "plane_kept sm (sm'\<lparr>byConnID := m\<rparr>) sid = plane_kept sm sm' sid"
  "plane_kept sm (sm'\<lparr>byCode := m\<rparr>) sid = plane_kept sm sm' sid"
  by (simp_all add: plane_kept_def)

lemma plane_kept_delete: "plane_kept sm (fst (deleteSessionLocked sid' ex sm)) sid"
  by (auto simp: deleteSessionLocked_def plane_kept_def Let_def split: option.splits if_splits)

lemma plane_kept_cleanup: "plane_kept sm (fst (CleanupExpired now order sm)) sid"
proof -
  have one: "plane_kept (fst st) (fst (cleanup_one now x st)) sid" for x st
  proof -
    obtain m ex cl where st: "st = (m, ex, cl)" by (cases st)
    let ?m1 = "\<lambda>r. m\<lparr>byCode := del_if (Code (sess m r)) r (byCode m)\<rparr>"
    have "plane_kept m (?m1 r) sid" for r by simp
    moreover have "plane_kept (?m1 r) (fst (deleteSessionLocked x (Some r) (?m1 r))) sid" for r
      by (rule plane_kept_delete)
    ultimately have del: "plane_kept m (fst (deleteSessionLocked x (Some r) (?m1 r))) sid" for r
      by (rule plane_kept_trans)
    show ?thesis
    proof (cases "mget (sessions m) x")
      case (Some r)
      obtain m2 a b d where "deleteSessionLocked x (Some r) (?m1 r) = (m2, a, b, d)"
        by (cases "deleteSessionLocked x (Some r) (?m1 r)")
      moreover from this have "plane_kept m m2 sid" using del [of r] by simp
      ultimately show ?thesis using Some by (simp add: st cleanup_one_def Let_def)
    qed (simp add: st cleanup_one_def)
  qed
  have "plane_kept (fst st) (fst (fold (cleanup_one now) order st)) sid" for st
  proof (induction order arbitrary: st)
    case (Cons x xs)
    show ?case using plane_kept_trans [OF one Cons.IH [of "cleanup_one now x st"]] by simp
  qed simp
  from this [of "(sm, [], [])"] show ?thesis by (simp add: CleanupExpired_def)
qed

lemma plane_kept_disconnect: "plane_kept sm (fst (DisconnectClient k now sm)) sid"
proof (cases "mget (byConnID sm) k")
  case (Some r)
  from DisconnectClient_shape [OF Some, of now] show ?thesis
    by (elim disjE exE conjE) (simp_all add: plane_kept_def)
qed (simp add: DisconnectClient_def)

lemma plane_kept_timer:
  assumes "sm_inv L sm"
  shows "plane_kept sm (fst (helpTimerFired r sm)) sid"
proof -
  have "\<not> dataPlaneReady (sess sm r)"
    if "mget (sessions sm) sid = Some r" "Help (sess sm r) = Some h" "cc_ID h = pendingHelpID (sess sm r)" for h
    using inv_sessions(2) [OF assms that(1)] that(2,3) by (auto simp: ts_ok_def)
  then show ?thesis by (auto simp: helpTimerFired_def plane_kept_def Let_def split: option.splits)
qed

lemma plane_kept_reuse: "plane_kept sm (fst (ReuseSessionByClientID cid c now sm)) sid"
proof -
  have "Share s' = Share s \<and> Help s' = Help s \<and> dataPlaneReady s' = dataPlaneReady s"
    if "conflictCheck now c s = Inl (s', res)" for s s' res
    using that by (auto simp: conflictCheck_def Let_def split: option.splits if_splits)
  then show ?thesis
    by (auto simp: ReuseSessionByClientID_def Let_def takeOver_def split: option.splits sum.splits intro!: plane_kept_upd)
qed

lemma plane_kept_create:
  assumes "sm_inv L sm"
    and "createSession code share ttl cid ip mp mt ready now ids sm = Some (sm', res)"
  shows "plane_kept sm sm' sid"
proof (cases res)
  case (Inl e)
  then show ?thesis using assms(2) by (auto simp: createSession_def Let_def split: if_splits option.splits)
next
  case (Inr r)
  have "\<exists>sid'. sessions sm' = mput sid' r (sessions sm) \<and> \<not> dataPlaneReady (sess sm' r) \<and>
      (\<forall>q. q \<noteq> r \<longrightarrow> sess sm' q = sess sm q)"
    using assms(2) unfolding Inr
  proof (rule createSession_Inr)
    fix sid'
    assume "sessions sm' = mput sid' r (sessions sm)"
      and "sess sm' = (sess sm)(r := no_session\<lparr>ts_ID := sid', Code := code, Share := share, CreatedAt := now,
       ExpiresAt := now + ttl, ts_ClientID := cid, CreatorIP := ip, countedByIP := ip \<noteq> [] \<and> mp > 0, shareReady := ready\<rparr>)"
    then show ?thesis by (intro exI [of _ sid']) (simp add: no_session_def)
  qed
  then show ?thesis by (auto simp: plane_kept_def split: if_splits)
qed

lemma plane_kept_activate:
  assumes inv: "sm_inv L sm" and ne: "sid' \<noteq> sid"
  shows "plane_kept sm (fst (ActivateDataPlane sid' k k' sm)) sid"
proof -
  have "mget (sessions sm) sid' = Some r \<Longrightarrow> mget (sessions sm) sid \<noteq> Some r" for r
    using inv_sessions(3) [OF inv] ne by metis
  then show ?thesis
    by (auto simp: ActivateDataPlane_def plane_kept_def Let_def split: option.splits)
qed

lemma plane_kept_apply:
  assumes inv: "sm_inv L sm" and ap: "sm_apply L e sm = Some sm'" and na: "\<forall>k k'. e \<noteq> EvActivate sid k k'"
  shows "plane_kept sm sm' sid"
proof (cases e)
  case (EvCreate code share ttl cid ip ready now ids)
  then show ?thesis using ap plane_kept_create [OF inv] by auto
next
  case (EvActivate sid' k k')
  then show ?thesis using ap na plane_kept_activate [OF inv, of sid' sid k k'] by auto
next
  case (EvTimer r)
  then show ?thesis using ap plane_kept_timer [OF inv] by auto
next
  case (EvClose x)
  then show ?thesis using ap plane_kept_delete [of sm x "mget (sessions sm) x" sid]
    by (auto simp: CloseSession_def split: prod.splits)
qed (use ap in \<open>auto simp: plane_kept_reuse plane_kept_cleanup plane_kept_disconnect
      MarkShareReady_def JoinSession_def installHelp_def RollbackJoin_def UpdatePeerAddr_def Let_def
      split: option.splits if_splits intro!: plane_kept_upd\<close>)

text \<open>
  C5. The data plane belongs to one pairing: if a session's data plane is active after a
  step other than its own activation, it was active before, with the same Share and the same
  Help. So between losing either side (or replacing it) and the next \<open>ActivateDataPlane\<close> the
  relay admits nothing for the session, whatever other steps interleave.
\<close>

theorem data_plane_epoch:
  assumes "sm_reach L g sm" "ev_fresh e sm" "sm_apply L e sm = Some sm'" "\<forall>k k'. e \<noteq> EvActivate sid k k'"
    and "IsActiveDataSession sid sm'"
  shows "IsActiveDataSession sid sm \<and>
    (\<exists>r. mget (sessions sm) sid = Some r \<and> mget (sessions sm') sid = Some r \<and>
      Share (sess sm' r) = Share (sess sm r) \<and> Help (sess sm' r) = Help (sess sm r))"
proof -
  note inv = reach_inv [OF assms(1)]
  obtain r where r: "mget (sessions sm') sid = Some r" "dataPlaneReady (sess sm' r)"
    using assms(5) by (auto simp: IsActiveDataSession_def Let_def split: option.splits)
  with plane_kept_apply [OF inv assms(3,4)]
  have k: "mget (sessions sm) sid = Some r" "dataPlaneReady (sess sm r)"
    "Share (sess sm' r) = Share (sess sm r)" "Help (sess sm' r) = Help (sess sm r)"
    by (auto simp: plane_kept_def)
  have "IsActiveDataSession sid sm"
    using k(1,2) inv_sessions(2) [OF inv k(1)] by (auto simp: IsActiveDataSession_def ts_ok_def Let_def)
  with k r show ?thesis by blast
qed

theorem data_plane_epoch_witness:
  "\<exists>sm'. sm_apply demo_limits (EvUpdateAddr ''cli_s'' ''9.9.9.9:1'' [] []) demo_sm = Some sm' \<and>
     IsActiveDataSession ''ses'' sm' \<and> IsActiveDataSession ''ses'' demo_sm"
proof -
  let ?e = "EvUpdateAddr ''cli_s'' ''9.9.9.9:1'' [] []"
  have "\<not> sm_apply demo_limits ?e demo_sm = None" by code_simp
  then obtain sm' where ap: "sm_apply demo_limits ?e demo_sm = Some sm'" by blast
  have "IsActiveDataSession ''ses'' (the (sm_apply demo_limits ?e demo_sm))" by code_simp
  then have "IsActiveDataSession ''ses'' sm'" by (simp only: ap option.sel)
  moreover have "ev_fresh ?e demo_sm" by (simp add: ev_fresh_def)
  moreover have "\<forall>k k'. ?e \<noteq> EvActivate ''ses'' k k'" by simp
  ultimately show ?thesis using data_plane_epoch [OF demo_reach _ ap] ap by blast
qed

section \<open>Quotas\<close>

text \<open>
  Quotas hold exactly: in every reachable state the table is within the total limit, the
  per-address counters equal the number of sessions charged to each address, and that number
  is within the per-address limit; no release is lost or done twice.
\<close>

theorem session_quotas_exact:
  assumes "sm_reach L g sm" "0 \<le> maxTotalSessions L" "0 < maxSessionsPerIP L"
  shows "GetActiveSessions sm \<le> maxTotalSessions L \<and>
    (\<forall>ip. mget0 (sessionCountPerIP sm) ip = int (card {sid. \<exists>r. mget (sessions sm) sid = Some r \<and>
        countedByIP (sess sm r) \<and> CreatorIP (sess sm r) = ip}) \<and>
      mget0 (sessionCountPerIP sm) ip \<le> maxSessionsPerIP L)"
proof -
  have "quota_ok L sm" using reach_inv [OF assms(1)] by (simp add: sm_inv_def)
  then show ?thesis using assms(2,3) by (simp add: quota_ok_def counted_def GetActiveSessions_def)
qed

theorem session_quotas_exact_witness:
  "GetActiveSessions demo_sm \<le> 10 \<and> mget0 (sessionCountPerIP demo_sm) ''1.2.3.4'' = 1 \<and>
   mget0 (sessionCountPerIP demo_sm) ''1.2.3.4'' \<le> 5"
proof -
  have "mget0 (sessionCountPerIP demo_sm) ''1.2.3.4'' = 1" by code_simp
  then show ?thesis
    using session_quotas_exact [OF demo_reach] by (simp add: demo_limits_def)
qed

section \<open>Expiry\<close>

lemma grace_spec:
  assumes "0 < reconnectGrace sm" "\<not> closed (sess sm r)"
  shows "sess (graceAfterInUseLocked r now sm) r =
      (sess sm r)\<lparr>ExpiresAt := max (ExpiresAt (sess sm r)) (now + reconnectGrace sm)\<rparr>"
    and "byCode (graceAfterInUseLocked r now sm) =
      (if mget (byCode sm) (Code (sess sm r)) = None then mput (Code (sess sm r)) r (byCode sm) else byCode sm)"
  using assms by (auto simp: graceAfterInUseLocked_def Let_def max_def)

text \<open>
  A session in use survives a dropped connection: when either side of a paired session
  disconnects, the assist code resolves to the same session for at least the grace period,
  even if it had expired and its code had been withdrawn, unless another session has taken
  the code; the data plane is inactive at once.
\<close>

theorem in_use_session_gets_grace:
  assumes "sm_reach L g sm" "mget (byConnID sm) k = Some r" "Share (sess sm r) \<noteq> None" "Help (sess sm r) \<noteq> None"
    and "0 < reconnectGrace sm" "mget (byCode sm) (Code (sess sm r)) \<in> {None, Some r}" "t \<le> now + reconnectGrace sm"
  shows "GetSessionByCode (Code (sess sm r)) t (fst (DisconnectClient k now sm)) = Inr r \<and>
    \<not> IsActiveDataSession (ts_ID (sess sm r)) (fst (DisconnectClient k now sm))"
proof -
  note inv = reach_inv [OF assms(1)]
  have live: "live sm r" and rt: "routed (sess sm r) k" using inv_byConnID [OF inv] assms(2) by blast+
  have nc: "\<not> closed (sess sm r)" using inv_live(1) [OF inv live] by (simp add: ts_ok_def)
  have lk: "mget (sessions sm) (ts_ID (sess sm r)) = Some r" using live by (simp add: live_def)
  obtain c h where ch: "Share (sess sm r) = Some c" "Help (sess sm r) = Some h" using assms(3,4) by blast
  let ?m = "\<lambda>f. (upd r f sm)\<lparr>byConnID := mdel k (byConnID sm)\<rparr>"
  have g: "ExpiresAt (sess (graceAfterInUseLocked r now (?m f)) r) \<ge> t"
      "\<not> closed (sess (graceAfterInUseLocked r now (?m f)) r)"
      "\<not> dataPlaneReady (sess (graceAfterInUseLocked r now (?m f)) r)"
      "mget (byCode (graceAfterInUseLocked r now (?m f))) (Code (sess sm r)) = Some r"
      "sessions (graceAfterInUseLocked r now (?m f)) = sessions sm"
    if "\<not> closed (f (sess sm r))" "\<not> dataPlaneReady (f (sess sm r))" "Code (f (sess sm r)) = Code (sess sm r)" for f
    using that assms(5-7) by (auto simp: grace_spec graceAfterInUseLocked_def Let_def)
  show ?thesis
  proof (cases "cc_ID h = k")
    case True
    then show ?thesis
      using assms(2) ch nc lk g [of "\<lambda>s. s\<lparr>dataPlaneReady := False\<rparr>"]
      by (simp add: DisconnectClient_def GetSessionByCode_def IsActiveDataSession_def Let_def)
  next
    case False
    then have "cc_ID c = k" using rt ch by (auto simp: routed_def)
    then show ?thesis
      using assms(2) ch nc lk False g [of "\<lambda>s. s\<lparr>dataPlaneReady := False, shareReady := False\<rparr>"]
      by (simp add: DisconnectClient_def GetSessionByCode_def IsActiveDataSession_def Let_def)
  qed
qed

theorem in_use_session_gets_grace_witness:
  "GetSessionByCode ''AB'' 2099 (fst (DisconnectClient ''cli_h'' 1999 demo_sm)) = Inr 0"
proof -
  have "mget (byConnID demo_sm) ''cli_h'' = Some 0" "\<not> Share (sess demo_sm 0) = None" "\<not> Help (sess demo_sm 0) = None"
    "reconnectGrace demo_sm = 100" "Code (sess demo_sm 0) = ''AB''" "mget (byCode demo_sm) ''AB'' = Some 0"
    by code_simp+
  then show ?thesis
    using in_use_session_gets_grace [OF demo_reach, of "''cli_h''" 0 2099 1999] by simp
qed

text \<open>The sessions a cleanup at time \<open>now\<close> may remove.\<close>

definition idle_expired :: "int \<Rightarrow> SessionManager \<Rightarrow> string \<Rightarrow> bool" where
  "idle_expired now sm sid =
     (case mget (sessions sm) sid of
        None \<Rightarrow> False
      | Some r \<Rightarrow> now > ExpiresAt (sess sm r) \<and> \<not> (Share (sess sm r) \<noteq> None \<and> Help (sess sm r) \<noteq> None))"

lemma deleteSessionLocked_frame:
  assumes "mget (sessions sm) x = Some r"
  shows "snd (snd (snd (deleteSessionLocked x (Some r) sm)))"
    and "sessions (fst (deleteSessionLocked x (Some r) sm)) = mdel x (sessions sm)"
    and "q \<noteq> r \<Longrightarrow> sess (fst (deleteSessionLocked x (Some r) sm)) q = sess sm q"
  using assms by (simp_all add: deleteSessionLocked_def Let_def)

lemma cleanup_one_effect:
  assumes inv: "sm_inv L (fst st)"
  shows "sessions (fst (cleanup_one now x st)) =
      (if idle_expired now (fst st) x then mdel x (sessions (fst st)) else sessions (fst st))"
    and "fst (snd (cleanup_one now x st)) = fst (snd st) @ (if idle_expired now (fst st) x then [x] else [])"
    and "mget (sessions (fst st)) y = Some q \<Longrightarrow> y \<noteq> x \<Longrightarrow> sess (fst (cleanup_one now x st)) q = sess (fst st) q"
proof -
  obtain m ex cl where st: "st = (m, ex, cl)" by (cases st)
  have neq: "mget (sessions m) x = Some r \<Longrightarrow> mget (sessions m) y = Some q \<Longrightarrow> y \<noteq> x \<Longrightarrow> q \<noteq> r" for r
    using inv inv_sessions(3) unfolding st fst_conv by metis
  show "sessions (fst (cleanup_one now x st)) =
      (if idle_expired now (fst st) x then mdel x (sessions (fst st)) else sessions (fst st))"
    "fst (snd (cleanup_one now x st)) = fst (snd st) @ (if idle_expired now (fst st) x then [x] else [])"
    "mget (sessions (fst st)) y = Some q \<Longrightarrow> y \<noteq> x \<Longrightarrow> sess (fst (cleanup_one now x st)) q = sess (fst st) q"
    using neq by (auto simp: st cleanup_one_def idle_expired_def deleteSessionLocked_def Let_def split: option.splits)
qed

lemma idle_expired_step:
  assumes "sm_inv L (fst st)" "y \<noteq> x"
  shows "idle_expired now (fst (cleanup_one now x st)) y \<longleftrightarrow> idle_expired now (fst st) y"
  using cleanup_one_effect(1) [OF assms(1), of now x] cleanup_one_effect(3) [OF assms(1), of y _ x now] assms(2)
  by (auto simp: idle_expired_def split: option.splits)

lemma cleanup_fold:
  assumes "sm_inv L (fst st)" "distinct order"
  shows "mget (sessions (fst (fold (cleanup_one now) order st))) sid =
      (if sid \<in> set order \<and> idle_expired now (fst st) sid then None else mget (sessions (fst st)) sid) \<and>
    set (fst (snd (fold (cleanup_one now) order st))) = set (fst (snd st)) \<union> {x \<in> set order. idle_expired now (fst st) x}"
  using assms
proof (induction order arbitrary: st)
  case (Cons x xs)
  let ?st = "cleanup_one now x st"
  have inv': "sm_inv L (fst ?st)" by (rule inv_cleanup_one [OF Cons.prems(1)])
  have step: "y \<in> set xs \<Longrightarrow> idle_expired now (fst ?st) y \<longleftrightarrow> idle_expired now (fst st) y" for y
    using idle_expired_step [OF Cons.prems(1), of y x now] Cons.prems(2) by auto
  show ?case
    using Cons.IH [OF inv'] Cons.prems(2) step cleanup_one_effect(1,2) [OF Cons.prems(1), of now x] by auto
qed auto

text \<open>
  A cleanup removes exactly the expired sessions that are not in use, in whatever order
  the map is traversed: paired sessions stay in the table, unexpired ones too, and the list
  it returns names the removed ones.
\<close>

theorem cleanup_removes_idle_expired:
  assumes "sm_reach L g sm" "distinct order" "set order = mdom (sessions sm)"
  shows "(\<forall>sid. mget (sessions (fst (CleanupExpired now order sm))) sid =
      (case mget (sessions sm) sid of
         None \<Rightarrow> None
       | Some r \<Rightarrow> if now > ExpiresAt (sess sm r) \<and> (Share (sess sm r) = None \<or> Help (sess sm r) = None)
                   then None else Some r)) \<and>
    set (fst (snd (CleanupExpired now order sm))) =
      {sid. \<exists>r. mget (sessions sm) sid = Some r \<and> now > ExpiresAt (sess sm r) \<and>
         (Share (sess sm r) = None \<or> Help (sess sm r) = None)}"
proof -
  note f = cleanup_fold [of L "(sm, [], [])" order now, OF _ assms(2)]
  have inv: "sm_inv L (fst (sm, [], []))" using reach_inv [OF assms(1)] by simp
  have dom: "x \<in> set order \<longleftrightarrow> mget (sessions sm) x \<noteq> None" for x using assms(3) by (simp add: domIff)
  show ?thesis
    using f [OF inv] by (auto simp: CleanupExpired_def idle_expired_def dom split: option.splits)
qed

theorem cleanup_removes_idle_expired_witness:
  "mget (sessions (fst (CleanupExpired 2000 [''ses''] demo_sm))) ''ses'' = Some 0 \<and>
   mget (sessions (fst (CleanupExpired 2000 [''ses''] (fst (helpTimerFired 0 (fst (DisconnectClient ''cli_h'' 5 demo_sm))))))) ''ses'' = None"
proof -
  let ?sm = "fst (helpTimerFired 0 (fst (DisconnectClient ''cli_h'' 5 demo_sm)))"
  have "sm_run demo_limits [EvDisconnect ''cli_h'' 5, EvTimer 0] demo_sm = Some ?sm"
    by (simp add: ev_fresh_def)
  then have re: "sm_reach demo_limits 100 ?sm" by (rule sm_run_reach [OF demo_reach])
  have "set (mkeys (sessions demo_sm)) = {''ses''}" "set (mkeys (sessions ?sm)) = {''ses''}" by code_simp+
  then have d: "mdom (sessions demo_sm) = {''ses''}" "mdom (sessions ?sm) = {''ses''}" by (simp_all add: mdom_conv)
  have "mget (sessions demo_sm) ''ses'' = Some 0" "\<not> Share (sess demo_sm 0) = None" "\<not> Help (sess demo_sm 0) = None" by code_simp+
  moreover have "mget (sessions ?sm) ''ses'' = Some 0" "Help (sess ?sm 0) = None" "ExpiresAt (sess ?sm 0) = 1000" by code_simp+
  ultimately show ?thesis
    using cleanup_removes_idle_expired [OF demo_reach, of "[''ses'']" 2000]
      cleanup_removes_idle_expired [OF re, of "[''ses'']" 2000] d by simp
qed

section \<open>Takeovers\<close>

text \<open>
  The times at which an online share is replaced when connections with one client identifier
  ask for a session in turn: each attempt runs the conflict check and, unless refused, takes
  the session over.
\<close>

definition opposed :: "TunnelSession \<Rightarrow> ClientConn \<Rightarrow> bool" where
  "opposed s c = (case Share s of None \<Rightarrow> False | Some old \<Rightarrow> cc_ID old \<noteq> cc_ID c)"

fun takeovers :: "TunnelSession \<Rightarrow> (int \<times> ClientConn) list \<Rightarrow> int list" where
  "takeovers s [] = []"
| "takeovers s ((t, c) # xs) =
     (case conflictCheck t c s of
        Inl (s', _) \<Rightarrow> takeovers s' xs
      | Inr s' \<Rightarrow> (if opposed s c then [t] else []) @ takeovers (takeOver c s') xs)"

definition attempts_from :: "int \<Rightarrow> (int \<times> ClientConn) list \<Rightarrow> bool" where
  "attempts_from T xs = (sorted (map fst xs) \<and> (\<forall>x \<in> set xs. T \<le> fst x))"

lemma attempts_from_Cons [simp]: "attempts_from T ((t, c) # xs) \<longleftrightarrow> T \<le> t \<and> attempts_from t xs"
  by (auto simp: attempts_from_def)

text \<open>The three outcomes of a conflict check.\<close>

lemma conflictCheck_cases:
  obtains (unopposed) "conflictCheck t c s = Inr s" "\<not> opposed s c"
  | (cooling) u res where "conflictUntil s = Some u" "t < u"
      "conflictCheck t c s = Inl (s\<lparr>conflictUntil := Some (t + shareConflictCooldown)\<rparr>, res)"
  | (storm) res where "length (recordLiveReplace (liveReplaces s) t) > shareConflictMaxReplaces"
      "\<forall>u. conflictUntil s = Some u \<longrightarrow> u \<le> t"
      "conflictCheck t c s = Inl (s\<lparr>liveReplaces := [], conflictUntil := Some (t + shareConflictCooldown)\<rparr>, res)"
  | (replaced) "length (recordLiveReplace (liveReplaces s) t) \<le> shareConflictMaxReplaces"
      "opposed s c" "\<forall>u. conflictUntil s = Some u \<longrightarrow> u \<le> t"
      "conflictCheck t c s = Inr (s\<lparr>liveReplaces := recordLiveReplace (liveReplaces s) t\<rparr>)"
proof (cases "opposed s c")
  case False
  then have "conflictCheck t c s = Inr s" by (cases "Share s") (simp_all add: conflictCheck_def opposed_def)
  with False show thesis by (rule unopposed [rotated])
next
  case True
  then obtain old where o: "Share s = Some old" "cc_ID old \<noteq> cc_ID c" by (auto simp: opposed_def split: option.splits)
  show thesis
  proof (cases "\<exists>u. conflictUntil s = Some u \<and> t < u")
    case True
    then obtain u where "conflictUntil s = Some u" "t < u" by blast
    then show thesis by (rule cooling) (simp add: conflictCheck_def o \<open>conflictUntil s = Some u\<close> \<open>t < u\<close>)
  next
    case False
    then have "\<not> (case conflictUntil s of None \<Rightarrow> False | Some u \<Rightarrow> t < u)" "\<forall>u. conflictUntil s = Some u \<longrightarrow> u \<le> t"
      by (auto split: option.splits)
    note nu = this
    show thesis
    proof (cases "length (recordLiveReplace (liveReplaces s) t) > shareConflictMaxReplaces")
      case True
      then show thesis by (rule storm [OF _ nu(2)]) (simp add: conflictCheck_def o nu(1) True Let_def)
    next
      case False
      then show thesis using o \<open>opposed s c\<close> by (intro replaced [OF _ _ nu(2)]) (auto simp: conflictCheck_def nu(1) Let_def)
    qed
  qed
qed

lemma takeOver_conflict [simp]:
  "liveReplaces (takeOver c s) = liveReplaces s" "conflictUntil (takeOver c s) = conflictUntil s"
  by (simp_all add: takeOver_def)

lemma takeovers_from: "attempts_from T xs \<Longrightarrow> t \<in> set (takeovers s xs) \<Longrightarrow> T \<le> t"
proof (induction xs arbitrary: s T)
  case (Cons x xs)
  obtain a c where x: "x = (a, c)" by (cases x)
  have "T \<le> a" "attempts_from a xs" using Cons.prems(1) x by auto
  then show ?case
    using Cons.prems(2) Cons.IH [of a] by (fastforce simp: x split: sum.splits if_splits)
qed simp

lemma takeovers_cooling:
  "attempts_from T xs \<Longrightarrow> conflictUntil s = Some u \<Longrightarrow> u \<le> T + shareConflictCooldown \<Longrightarrow>
   t \<in> set (takeovers s xs) \<Longrightarrow> u \<le> t"
proof (induction xs arbitrary: s T u)
  case (Cons x xs)
  obtain a c where x: "x = (a, c)" by (cases x)
  have a: "T \<le> a" "attempts_from a xs" using Cons.prems(1) x by auto
  show ?case
  proof (cases rule: conflictCheck_cases [of a c s])
    case unopposed
    then show ?thesis using Cons.IH [of a "takeOver c s" u] Cons.prems a by (auto simp: x)
  next
    case (cooling v res)
    then show ?thesis
      using Cons.IH [of a "s\<lparr>conflictUntil := Some (a + shareConflictCooldown)\<rparr>" "a + shareConflictCooldown"] Cons.prems a
      by (simp add: x)
  next
    case (storm res)
    then show ?thesis
      using Cons.IH [of a "s\<lparr>liveReplaces := [], conflictUntil := Some (a + shareConflictCooldown)\<rparr>" "a + shareConflictCooldown"] Cons.prems a
      by (simp add: x)
  next
    case replaced
    then have "u \<le> a" using Cons.prems(2) by blast
    then show ?thesis using Cons.prems(4) takeovers_from [OF a(2)] replaced by (fastforce simp: x)
  qed
qed simp

text \<open>Four replacements span at least a window: the property of a list of times.\<close>

definition spaced :: "int list \<Rightarrow> bool" where
  "spaced ts = (\<forall>i. i + shareConflictMaxReplaces < length ts \<longrightarrow>
     ts ! (i + shareConflictMaxReplaces) - ts ! i \<ge> shareConflictWindow)"

lemma spaced_append:
  assumes "spaced ts" "length ds + length ks \<le> shareConflictMaxReplaces"
    and "\<And>d t. d \<in> set ds \<Longrightarrow> t \<in> set (drop (length ks) ts) \<Longrightarrow> t - d \<ge> shareConflictWindow"
  shows "spaced (ds @ ts)"
  unfolding spaced_def
proof (intro allI impI)
  fix i assume i: "i + shareConflictMaxReplaces < length (ds @ ts)"
  show "(ds @ ts) ! (i + shareConflictMaxReplaces) - (ds @ ts) ! i \<ge> shareConflictWindow"
  proof (cases "i < length ds")
    case True
    let ?j = "i + shareConflictMaxReplaces - length ds"
    have "length ks \<le> ?j" "?j < length ts" "\<not> i + shareConflictMaxReplaces < length ds" using True assms(2) i by auto
    then have "ts ! ?j = drop (length ks) ts ! (?j - length ks)" "?j - length ks < length (drop (length ks) ts)"
      by simp_all
    then have "ts ! ?j \<in> set (drop (length ks) ts)" by (metis nth_mem)
    then show ?thesis
      using assms(3) [of "ds ! i"] True \<open>\<not> i + shareConflictMaxReplaces < length ds\<close> by (simp add: nth_append)
  next
    case False
    then show ?thesis
      using assms(1) [unfolded spaced_def, rule_format, of "i - length ds"] i by (simp add: nth_append)
  qed
qed

lemma recordLiveReplace_short:
  assumes "length (recordLiveReplace lr t) \<le> shareConflictMaxReplaces"
  shows "recordLiveReplace lr t = filter (\<lambda>x. x > t - shareConflictWindow) lr @ [t]"
  using assms by (auto simp: recordLiveReplace_def Let_def shareConflictMaxReplaces_def)

lemma sorted_filter_split:
  "sorted lr \<Longrightarrow> lr = filter (\<lambda>x. \<not> x > (b::int)) lr @ filter (\<lambda>x. x > b) lr"
proof (induction lr)
  case (Cons a lr)
  show ?case
  proof (cases "a > b")
    case True
    then have "\<forall>x \<in> set lr. x > b" using Cons.prems by auto
    then have "filter (\<lambda>x. \<not> x > b) lr = []" "filter (\<lambda>x. x > b) lr = lr" by (auto simp: filter_empty_conv filter_id_conv)
    then show ?thesis using True by simp
  next
    case False
    then show ?thesis using Cons by simp
  qed
qed simp

lemma takeovers_unopposed:
  "conflictCheck a c s = Inr s \<Longrightarrow> \<not> opposed s c \<Longrightarrow>
   takeovers s ((a, c) # xs) = takeovers (takeOver c s) xs"
  by (simp only: takeovers.simps sum.case if_False append_Nil)

lemma takeovers_spaced:
  assumes "attempts_from T xs" "sorted (liveReplaces s)" "\<forall>x \<in> set (liveReplaces s). x \<le> T"
    and "length (liveReplaces s) \<le> shareConflictMaxReplaces"
  shows "spaced (liveReplaces s @ takeovers s xs)"
  using assms
proof (induction xs arbitrary: s T)
  case Nil
  then show ?case by (simp add: spaced_def)
next
  case (Cons x xs)
  obtain a c where x: "x = (a, c)" by (cases x)
  have a: "T \<le> a" "attempts_from a xs" using Cons.prems(1) x by auto
  have old: "\<forall>y \<in> set (liveReplaces s). y \<le> a" using Cons.prems(3) a(1) by auto
  show ?case
  proof (cases rule: conflictCheck_cases [of a c s])
    case unopposed
    show ?thesis
      using Cons.IH [OF a(2), of "takeOver c s"] Cons.prems(2,4) old unfolding x takeovers_unopposed [OF unopposed] by simp
  next
    case (cooling v res)
    then show ?thesis
      using Cons.IH [OF a(2), of "s\<lparr>conflictUntil := Some (a + shareConflictCooldown)\<rparr>"] Cons.prems old by (simp add: x)
  next
    case (storm res)
    let ?s = "s\<lparr>liveReplaces := [], conflictUntil := Some (a + shareConflictCooldown)\<rparr>"
    have "spaced (takeovers ?s xs)" using Cons.IH [OF a(2), of ?s] by simp
    moreover have "t - d \<ge> shareConflictWindow" if "d \<in> set (liveReplaces s)" "t \<in> set (takeovers ?s xs)" for d t
      using takeovers_cooling [OF a(2), of ?s "a + shareConflictCooldown" t] that old
      by (auto simp: shareConflictCooldown_def shareConflictWindow_def minute_def second_def)
    ultimately show ?thesis
      using spaced_append [of "takeovers ?s xs" "liveReplaces s" "[]"] Cons.prems(4) storm by (simp add: x)
  next
    case replaced
    let ?k = "filter (\<lambda>y. y > a - shareConflictWindow) (liveReplaces s)"
    let ?d = "filter (\<lambda>y. \<not> y > a - shareConflictWindow) (liveReplaces s)"
    note lr = recordLiveReplace_short [OF replaced(1)]
    let ?s = "takeOver c (s\<lparr>liveReplaces := ?k @ [a]\<rparr>)"
    have "sorted (?k @ [a])" using Cons.prems(2) old sorted_filter [of id, simplified] by (auto simp: sorted_append)
    then have sp: "spaced ((?k @ [a]) @ takeovers ?s xs)"
      using Cons.IH [OF a(2), of ?s] old replaced(1) lr by simp
    have "t - d \<ge> shareConflictWindow" if "d \<in> set ?d" "t \<in> set (a # takeovers ?s xs)" for d t
      using that takeovers_from [OF a(2)] by fastforce
    then have "spaced (?d @ (?k @ [a]) @ takeovers ?s xs)"
      using spaced_append [OF sp, of ?d ?k] Cons.prems(4) arg_cong [OF sorted_filter_split [OF Cons.prems(2), of "a - shareConflictWindow"], of length]
      by simp
    then show ?thesis
      using replaced lr sorted_filter_split [OF Cons.prems(2), of "a - shareConflictWindow"]
      by (simp add: x) (metis append.assoc)
  qed
qed

text \<open>
  Two processes with one client identifier cannot drive each other out in a storm: of
  the attempts on a fresh session, in whatever order and at whatever rate, any four
  replacements of an online share span at least the conflict window of one minute.
\<close>

theorem takeover_storm_bounded:
  assumes "sorted (map fst xs)" "liveReplaces s = []" "i + 3 < length (takeovers s xs)"
  shows "takeovers s xs ! (i + 3) - takeovers s xs ! i \<ge> 60 * second"
proof -
  have "attempts_from (Min (insert 0 (fst ` set xs))) xs"
    using assms(1) by (auto simp: attempts_from_def intro: Min_le)
  then have "spaced (takeovers s xs)"
    using takeovers_spaced [of _ xs s] assms(2) by simp
  then show ?thesis
    using assms(3) by (auto simp: spaced_def shareConflictMaxReplaces_def shareConflictWindow_def minute_def)
qed

theorem takeover_storm_bounded_witness:
  "\<exists>ts. takeovers (no_session\<lparr>Share := Some demo_share\<rparr>)
      [(0, demo_help), (0, demo_share), (0, demo_help), (61 * second, demo_share)] = ts \<and>
    3 < length ts \<and> ts ! 3 - ts ! 0 \<ge> 60 * second"
proof -
  let ?s = "no_session\<lparr>Share := Some demo_share\<rparr>"
  let ?xs = "[(0, demo_help), (0, demo_share), (0, demo_help), (61 * second, demo_share)]"
  have "3 < length (takeovers ?s ?xs)" by code_simp
  moreover have "sorted (map fst ?xs)" "liveReplaces ?s = []" by (simp_all add: second_def no_session_def)
  ultimately show ?thesis using takeover_storm_bounded [of ?xs ?s 0] by auto
qed

end
