(* ===== verification/Stun.thy ===== *)
theory Stun
  imports Netaddr
begin

text \<open>
  The STUN codec: \<^verbatim>\<open>internal/p2p/stun.go\<close> and \<open>AddXorMappedAddress\<close> of
  \<^verbatim>\<open>internal/p2p/stun_server.go\<close>. Lengths are \<open>uint16\<close> and truncate as in the source. The
  slice expression that may be out of range is a branch of its own (\<open>SlicePanic\<close>): the
  attribute values it is applied to are made with exactly their length as capacity.

  The properties are the round trip of \<open>Pack\<close> and \<open>UnpackSTUN\<close>, the recovery of the
  reflexive address by the client, and when the address reader panics.
\<close>

section \<open>Definitions\<close>

definition STUNBindingRequest :: "16 word" where "STUNBindingRequest = 0x0001"
definition STUNBindingResponse :: "16 word" where "STUNBindingResponse = 0x0101"
definition STUNAttrMappedAddress :: "16 word" where "STUNAttrMappedAddress = 0x0001"
definition STUNAttrXorMappedAddr :: "16 word" where "STUNAttrXorMappedAddr = 0x0020"
definition STUNAttrSoftware :: "16 word" where "STUNAttrSoftware = 0x8022"
definition stunMagicCookie :: "32 word" where "stunMagicCookie = 0x2112A442"
definition stunHeaderSize :: nat where "stunHeaderSize = 20"

datatype stun_error = ErrSTUNInvalidMessage | InvalidAddressData | NoMappedAddress | SlicePanic

record STUNAttribute =
  at_Type :: "16 word"
  at_Length :: "16 word"
  at_Value :: bytes

record STUNMessage =
  st_Type :: "16 word"
  st_Length :: "16 word"
  st_Magic :: "32 word"
  st_TID :: bytes
  st_Attrs :: "STUNAttribute list"

record MappedAddress =
  ma_Family :: "16 word"
  ma_Port :: "16 word"
  ma_IP :: bytes

record UDPAddr =
  udp_IP :: bytes
  udp_Port :: int

text \<open>\<open>NewBindingRequest\<close>, with the random transaction identifier as argument.\<close>

definition NewBindingRequest :: "bytes \<Rightarrow> STUNMessage" where
  "NewBindingRequest tid =
     \<lparr>st_Type = STUNBindingRequest, st_Length = 0, st_Magic = stunMagicCookie, st_TID = tid, st_Attrs = []\<rparr>"

definition attr_pad :: "16 word \<Rightarrow> nat" where
  "attr_pad len = unat ((4 - (len mod 4)) mod 4)"

text \<open>
  The bytes of one attribute in the zeroed buffer: \<open>copy\<close> writes at most \<open>Length\<close> bytes of
  the value.
\<close>

definition pack_attr :: "STUNAttribute \<Rightarrow> bytes" where
  "pack_attr a =
     (let n = unat (at_Length a)
      in be16 (at_Type a) @ be16 (at_Length a) @ take n (at_Value a)
         @ replicate (n - length (at_Value a)) 0 @ replicate (attr_pad (at_Length a)) 0)"

definition STUNMessage_Pack :: "STUNMessage \<Rightarrow> bytes" where
  "STUNMessage_Pack m =
     (let body = concat (map pack_attr (st_Attrs m))
      in be16 (st_Type m) @ be16 (of_nat (length body)) @ be32 (st_Magic m) @ st_TID m @ body)"

text \<open>The attribute loop on the part of the datagram between \<open>offset\<close> and \<open>expectedLen\<close>.\<close>

function unpack_attrs :: "bytes \<Rightarrow> STUNAttribute list" where
  "unpack_attrs bs =
     (if length bs < 4 then []
      else let len = u16 (drop 2 bs); e = 4 + unat len
           in if e > length bs then []
              else \<lparr>at_Type = u16 bs, at_Length = len, at_Value = take (unat len) (drop 4 bs)\<rparr>
                   # unpack_attrs (drop (e + attr_pad len) bs))"
  by pat_completeness auto
termination by (relation "measure length") auto

declare unpack_attrs.simps [simp del]

definition UnpackSTUN :: "bytes \<Rightarrow> stun_error + STUNMessage" where
  "UnpackSTUN data =
     (if length data < stunHeaderSize then Inl ErrSTUNInvalidMessage
      else let len = u16 (drop 2 data); magic = u32 (drop 4 data)
           in if magic \<noteq> stunMagicCookie then Inl ErrSTUNInvalidMessage
              else if length data < stunHeaderSize + unat len then Inl ErrSTUNInvalidMessage
              else Inr \<lparr>st_Type = u16 data, st_Length = len, st_Magic = magic,
                        st_TID = take 12 (drop 8 data),
                        st_Attrs = unpack_attrs (take (unat len) (drop stunHeaderSize data))\<rparr>)"

text \<open>The key stream of the XOR form: the cookie, then the transaction identifier.\<close>

definition xor_stream :: "32 word \<Rightarrow> bytes \<Rightarrow> bytes" where
  "xor_stream magic tid = be32 magic @ tid"

definition parseMappedAddress :: "bytes \<Rightarrow> 32 word \<Rightarrow> bytes \<Rightarrow> bool \<Rightarrow> stun_error + MappedAddress" where
  "parseMappedAddress data magic tid xored =
     (if length data < 8 then Inl InvalidAddressData
      else let family = u16 data;
               port = (if xored then u16 (drop 2 data) XOR ucast (drop_bit 16 magic) else u16 (drop 2 data))
           in if family = 1
              then let ip = (if xored then u32 (drop 4 data) XOR magic else u32 (drop 4 data))
                   in Inr \<lparr>ma_Family = family, ma_Port = port, ma_IP = be32 ip\<rparr>
              else if family = 2
              then (if length data < 20 then Inl SlicePanic
                    else let ip = take 16 (drop 4 data)
                         in Inr \<lparr>ma_Family = family, ma_Port = port,
                                 ma_IP = (if xored then map2 (XOR) ip (xor_stream magic tid) else ip)\<rparr>)
              else Inr \<lparr>ma_Family = family, ma_Port = port, ma_IP = []\<rparr>)"

definition GetMappedAddress :: "STUNMessage \<Rightarrow> stun_error + MappedAddress" where
  "GetMappedAddress m =
     (case find (\<lambda>a. at_Type a = STUNAttrXorMappedAddr \<or> at_Type a = STUNAttrMappedAddress) (st_Attrs m) of
        None \<Rightarrow> Inl NoMappedAddress
      | Some a \<Rightarrow> parseMappedAddress (at_Value a) (st_Magic m) (st_TID m) (at_Type a = STUNAttrXorMappedAddr))"

definition AddSoftwareAttribute :: "string \<Rightarrow> STUNMessage \<Rightarrow> STUNMessage" where
  "AddSoftwareAttribute name m =
     m\<lparr>st_Attrs := st_Attrs m @ [\<lparr>at_Type = STUNAttrSoftware, at_Length = of_nat (length name),
                                  at_Value = bytes_of_string name\<rparr>]\<rparr>"

text \<open>\<open>IP.To4\<close> and \<open>IP.To16\<close>; the nil result is \<open>[]\<close>.\<close>

definition To4 :: "bytes \<Rightarrow> bytes" where
  "To4 ip = (if length ip = 4 then ip
             else if length ip = 16 \<and> take 12 ip = v4InV6Prefix then drop 12 ip else [])"

definition To16 :: "bytes \<Rightarrow> bytes" where
  "To16 ip = (if length ip = 4 then v4InV6Prefix @ ip else if length ip = 16 then ip else [])"

text \<open>\<open>None\<close> is the index panic on an address that is neither 4 nor 16 bytes long.\<close>

definition AddXorMappedAddress :: "UDPAddr \<Rightarrow> 32 word \<Rightarrow> bytes \<Rightarrow> STUNMessage \<Rightarrow> STUNMessage option" where
  "AddXorMappedAddress addr magic tid m =
     (let family = (if To4 (udp_IP addr) = [] then 2 else 1) :: 16 word;
          xorPort = of_int (udp_Port addr) XOR ucast (drop_bit 16 magic);
          add = (\<lambda>value. m\<lparr>st_Attrs := st_Attrs m @ [\<lparr>at_Type = STUNAttrXorMappedAddr,
                   at_Length = of_nat (length value), at_Value = value\<rparr>]\<rparr>)
      in if family = 1
         then Some (add (be16 family @ be16 xorPort @ be32 (u32 (To4 (udp_IP addr)) XOR magic)))
         else if To16 (udp_IP addr) = [] then None
         else Some (add (be16 family @ be16 xorPort @ map2 (XOR) (To16 (udp_IP addr)) (xor_stream magic tid))))"

section \<open>Attributes\<close>

definition attr_ok :: "STUNAttribute \<Rightarrow> bool" where
  "attr_ok a = (unat (at_Length a) = length (at_Value a))"

lemma pack_attr_ok:
  "attr_ok a \<Longrightarrow> pack_attr a = be16 (at_Type a) @ be16 (at_Length a) @ at_Value a @ replicate (attr_pad (at_Length a)) 0"
  by (simp add: pack_attr_def attr_ok_def Let_def)

lemma unpack_attrs_Nil [simp]: "unpack_attrs [] = []"
  by (simp add: unpack_attrs.simps)

lemma unpack_pack_attr:
  assumes "attr_ok a"
  shows "unpack_attrs (pack_attr a @ rest) = a # unpack_attrs rest"
proof -
  let ?v = "at_Value a" and ?z = "replicate (attr_pad (at_Length a)) (0 :: byte)"
  have eq: "pack_attr a @ rest = be16 (at_Type a) @ be16 (at_Length a) @ ?v @ ?z @ rest"
    using assms by (simp add: pack_attr_ok)
  have len: "unat (at_Length a) = length ?v" using assms by (simp add: attr_ok_def)
  have d2: "drop 2 (be16 x @ ys) = ys" for x ys by simp
  have d4: "drop 4 (be16 x @ be16 y @ ys) = ys" for x y ys by simp
  have "drop (4 + length ?v + length ?z) (be16 (at_Type a) @ be16 (at_Length a) @ ?v @ ?z @ rest) = rest"
    by simp
  then show ?thesis
    unfolding eq by (subst unpack_attrs.simps) (simp add: d2 d4 len Let_def)
qed

lemma unpack_attrs_concat: "list_all attr_ok as \<Longrightarrow> unpack_attrs (concat (map pack_attr as)) = as"
  by (induction as) (simp_all add: unpack_pack_attr)

lemma xor_self_cancel: "(x XOR y) XOR y = (x :: 'a::len word)"
  by (simp add: xor.assoc)

lemma map2_xor_cancel: "length xs \<le> length ks \<Longrightarrow> map2 (XOR) (map2 (XOR) xs ks) ks = (xs :: bytes)"
  by (induction xs ks rule: list_induct2') (simp_all add: xor_self_cancel)

section \<open>Properties\<close>

definition stun_wf :: "STUNMessage \<Rightarrow> bool" where
  "stun_wf m = (st_Magic m = stunMagicCookie \<and> length (st_TID m) = 12 \<and> list_all attr_ok (st_Attrs m) \<and>
     length (concat (map pack_attr (st_Attrs m))) < 2 ^ 16)"

lemma UnpackSTUN_Pack:
  assumes "stun_wf m"
  shows "UnpackSTUN (STUNMessage_Pack m) = Inr (m\<lparr>st_Length := of_nat (length (concat (map pack_attr (st_Attrs m))))\<rparr>)"
proof -
  let ?b = "concat (map pack_attr (st_Attrs m))"
  let ?p = "STUNMessage_Pack m"
  have p: "?p = be16 (st_Type m) @ be16 (of_nat (length ?b)) @ be32 (st_Magic m) @ st_TID m @ ?b"
    by (simp add: STUNMessage_Pack_def Let_def)
  have w: "length (st_TID m) = 12" "st_Magic m = stunMagicCookie" "list_all attr_ok (st_Attrs m)" "length ?b < 2 ^ 16"
    using assms by (auto simp: stun_wf_def)
  have u: "unat (of_nat (length ?b) :: 16 word) = length ?b"
    using w(4) by (simp add: unsigned_of_nat take_bit_nat_eq_self)
  have d: "drop 2 ?p = be16 (of_nat (length ?b)) @ be32 (st_Magic m) @ st_TID m @ ?b"
    "drop 4 ?p = be32 (st_Magic m) @ st_TID m @ ?b" "drop 8 ?p = st_TID m @ ?b" "drop 20 ?p = ?b"
    using w(1) by (simp_all add: p)
  have "length ?p = 20 + length ?b" using w(1) by (simp add: p)
  moreover have "u16 ?p = st_Type m" by (simp add: p)
  ultimately show ?thesis
    using w(1,2) unpack_attrs_concat [OF w(3)]
    by (simp add: UnpackSTUN_def stunHeaderSize_def d u Let_def)
qed

text \<open>
  Packing and unpacking are inverse: a message with a 12-byte transaction identifier,
  the magic cookie and attributes whose declared lengths match is read back from its packed
  form unchanged, with \<open>Length\<close> set to the size of the attribute section, whatever the
  padding of the attributes.
\<close>

theorem stun_pack_unpack:
  assumes "stun_wf m"
  shows "UnpackSTUN (STUNMessage_Pack m) =
    Inr (m\<lparr>st_Length := of_nat (length (STUNMessage_Pack m) - stunHeaderSize)\<rparr>)"
proof -
  have "length (STUNMessage_Pack m) - stunHeaderSize = length (concat (map pack_attr (st_Attrs m)))"
    using assms by (simp add: STUNMessage_Pack_def stun_wf_def stunHeaderSize_def Let_def)
  then show ?thesis using UnpackSTUN_Pack [OF assms] by simp
qed

theorem stun_pack_unpack_witness:
  "UnpackSTUN (STUNMessage_Pack (AddSoftwareAttribute ''abcde'' (NewBindingRequest (replicate 12 7)))) =
     Inr ((AddSoftwareAttribute ''abcde'' (NewBindingRequest (replicate 12 7)))\<lparr>st_Length := 12\<rparr>)"
proof -
  let ?m = "AddSoftwareAttribute ''abcde'' (NewBindingRequest (replicate 12 7))"
  have pad: "attr_pad 5 = 3" by code_simp
  have "stun_wf ?m" "length (STUNMessage_Pack ?m) = 32"
    by (simp_all add: stun_wf_def STUNMessage_Pack_def AddSoftwareAttribute_def NewBindingRequest_def attr_ok_def
        pack_attr_def pad Let_def)
  then show ?thesis using stun_pack_unpack [of ?m] by (simp add: stunHeaderSize_def)
qed

text \<open>
  C22. The address reader panics exactly on data of the IPv6 family with 8 to 19 bytes; data of fewer than 8 bytes gives an
  error and everything else a value. The panic is reachable from the network: for every such data the binding response
  that carries it in its address attribute is accepted by \<open>UnpackSTUN\<close> and makes \<open>GetMappedAddress\<close> slice out of range.
\<close>

theorem short_ipv6_address_panics:
  "(parseMappedAddress data magic t xored = Inl SlicePanic \<longleftrightarrow> u16 data = 2 \<and> 8 \<le> length data \<and> length data \<le> 19) \<and>
   (parseMappedAddress data magic t xored = Inl InvalidAddressData \<longleftrightarrow> length data < 8) \<and>
   ((\<exists>addr. parseMappedAddress data magic t xored = Inr addr) \<longleftrightarrow> 8 \<le> length data \<and> \<not> (u16 data = 2 \<and> length data \<le> 19)) \<and>
   (8 \<le> length v \<and> length v \<le> 19 \<and> u16 v = 2 \<and> length tid = 12 \<and> ty \<in> {STUNAttrXorMappedAddr, STUNAttrMappedAddress} \<longrightarrow>
     (let a = \<lparr>at_Type = ty, at_Length = of_nat (length v), at_Value = v\<rparr>;
          m = \<lparr>st_Type = STUNBindingResponse, st_Length = of_nat (length (pack_attr a)), st_Magic = stunMagicCookie, st_TID = tid, st_Attrs = [a]\<rparr>
      in UnpackSTUN (STUNMessage_Pack m) = Inr m \<and> GetMappedAddress m = Inl SlicePanic))"
proof (intro conjI impI)
  show "parseMappedAddress data magic t xored = Inl SlicePanic \<longleftrightarrow> u16 data = 2 \<and> 8 \<le> length data \<and> length data \<le> 19"
    "parseMappedAddress data magic t xored = Inl InvalidAddressData \<longleftrightarrow> length data < 8"
    "(\<exists>addr. parseMappedAddress data magic t xored = Inr addr) \<longleftrightarrow> 8 \<le> length data \<and> \<not> (u16 data = 2 \<and> length data \<le> 19)"
    by (auto simp: parseMappedAddress_def Let_def)
  assume v: "8 \<le> length v \<and> length v \<le> 19 \<and> u16 v = 2 \<and> length tid = 12 \<and> ty \<in> {STUNAttrXorMappedAddr, STUNAttrMappedAddress}"
  let ?a = "\<lparr>at_Type = ty, at_Length = of_nat (length v), at_Value = v\<rparr>"
  let ?m = "\<lparr>st_Type = STUNBindingResponse, st_Length = of_nat (length (pack_attr ?a)), st_Magic = stunMagicCookie, st_TID = tid, st_Attrs = [?a]\<rparr>"
  have u: "unat (of_nat (length v) :: 16 word) = length v" using v by (simp add: unsigned_of_nat take_bit_nat_eq_self)
  have "attr_pad n \<le> 3" for n
  proof -
    have "unat ((4 - n mod 4) mod 4) = unat (4 - n mod 4) mod 4" by (simp add: unat_mod_distrib)
    then show ?thesis by (simp add: attr_pad_def)
  qed
  from this [of "of_nat (length v)"] have "length (pack_attr ?a) < 2 ^ 16" using v u by (simp add: pack_attr_def Let_def)
  then have "stun_wf ?m" using v u by (simp add: stun_wf_def attr_ok_def)
  then have "UnpackSTUN (STUNMessage_Pack ?m) = Inr ?m" using UnpackSTUN_Pack [of ?m] by simp
  moreover have "GetMappedAddress ?m = Inl SlicePanic" using v by (auto simp: GetMappedAddress_def parseMappedAddress_def Let_def)
  ultimately show "let a = ?a;
        m = \<lparr>st_Type = STUNBindingResponse, st_Length = of_nat (length (pack_attr a)), st_Magic = stunMagicCookie, st_TID = tid, st_Attrs = [a]\<rparr>
      in UnpackSTUN (STUNMessage_Pack m) = Inr m \<and> GetMappedAddress m = Inl SlicePanic" by (simp add: Let_def)
qed

theorem short_ipv6_address_panics_witness:
  "\<exists>m. UnpackSTUN (STUNMessage_Pack m) = Inr m \<and> GetMappedAddress m = Inl SlicePanic \<and> length (at_Value (hd (st_Attrs m))) = 19"
proof -
  let ?v = "[0, 2, 0, 0, 0, 0, 0, 0, 0, 0, 0, 0, 0, 0, 0, 0, 0, 0, 0]"
  have "u16 ?v = 2" by code_simp
  then show ?thesis
    using short_ipv6_address_panics [of "[]" 0 "[]" False ?v "replicate 12 0" STUNAttrMappedAddress] by (auto simp: Let_def)
qed

end
