(* ===== verification/P2P_Limits.thy ===== *)
theory P2P_Limits
  imports Prelude
begin

text \<open>
  The capacity limits of the STUN/UDP relay, \<^verbatim>\<open>internal/p2p/limits.go\<close>, with the constants of
  \<^verbatim>\<open>internal/p2p/stun_server.go\<close> they default to. Rates are rationals, counts integers.
\<close>

definition relayMarker :: byte where "relayMarker = 255"
definition relaySessionTTL :: int where "relaySessionTTL = 5 * minute"
definition maxSessionIDLen :: nat where "maxSessionIDLen = 64"
definition maxUDPPayloadSize :: nat where "maxUDPPayloadSize = 1400"
definition maxRelayDatagramSize :: nat where
  "maxRelayDatagramSize = 1 + 1 + maxSessionIDLen + maxUDPPayloadSize"

record p2p_Limits =
  WorkerCount :: int
  TaskQueueDepth :: int
  PacketsPerIPRate :: rat
  PacketsPerIPBurst :: rat
  PacketsGlobalRate :: rat
  PacketsGlobalBurst :: rat
  LimiterMaxKeys :: int
  LimiterIdleSeconds :: int
  MaxRelaySessionsTotal :: int
  MaxRelaySessionsPerIP :: int
  RelayBytesPerSession :: int
  RelayBytesBurstSession :: int
  RelayBytesGlobal :: int
  RelayBytesBurstGlobal :: int
  InvalidLogSampleEvery :: "64 word"

definition p2p_DefaultLimits :: p2p_Limits where
  "p2p_DefaultLimits =
     \<lparr>WorkerCount = 4, TaskQueueDepth = 256, PacketsPerIPRate = 1000, PacketsPerIPBurst = 2000,
      PacketsGlobalRate = 20000, PacketsGlobalBurst = 40000, LimiterMaxKeys = 8192,
      LimiterIdleSeconds = 600, MaxRelaySessionsTotal = 5000, MaxRelaySessionsPerIP = 64,
      RelayBytesPerSession = 2 * 1024 * 1024, RelayBytesBurstSession = 4 * 1024 * 1024,
      RelayBytesGlobal = 20 * 1024 * 1024, RelayBytesBurstGlobal = 40 * 1024 * 1024,
      InvalidLogSampleEvery = 1000\<rparr>"

definition dflt :: "'a::zero \<Rightarrow> 'a \<Rightarrow> 'a" where
  "dflt d x = (if x = 0 then d else x)"

definition normalizeLimits :: "p2p_Limits \<Rightarrow> p2p_Limits" where
  "normalizeLimits l =
     (let d = p2p_DefaultLimits
      in \<lparr>WorkerCount = dflt (WorkerCount d) (WorkerCount l),
          TaskQueueDepth = dflt (TaskQueueDepth d) (TaskQueueDepth l),
          PacketsPerIPRate = dflt (PacketsPerIPRate d) (PacketsPerIPRate l),
          PacketsPerIPBurst = dflt (PacketsPerIPBurst d) (PacketsPerIPBurst l),
          PacketsGlobalRate = dflt (PacketsGlobalRate d) (PacketsGlobalRate l),
          PacketsGlobalBurst = dflt (PacketsGlobalBurst d) (PacketsGlobalBurst l),
          LimiterMaxKeys = dflt (LimiterMaxKeys d) (LimiterMaxKeys l),
          LimiterIdleSeconds = dflt (LimiterIdleSeconds d) (LimiterIdleSeconds l),
          MaxRelaySessionsTotal = dflt (MaxRelaySessionsTotal d) (MaxRelaySessionsTotal l),
          MaxRelaySessionsPerIP = dflt (MaxRelaySessionsPerIP d) (MaxRelaySessionsPerIP l),
          RelayBytesPerSession = dflt (RelayBytesPerSession d) (RelayBytesPerSession l),
          RelayBytesBurstSession = dflt (RelayBytesBurstSession d) (RelayBytesBurstSession l),
          RelayBytesGlobal = dflt (RelayBytesGlobal d) (RelayBytesGlobal l),
          RelayBytesBurstGlobal = dflt (RelayBytesBurstGlobal d) (RelayBytesBurstGlobal l),
          InvalidLogSampleEvery = dflt (InvalidLogSampleEvery d) (InvalidLogSampleEvery l)\<rparr>)"

definition p2p_checks :: "p2p_Limits \<Rightarrow> (string \<times> rat) list" where
  "p2p_checks l =
     [(''worker_count'', of_int (WorkerCount l)),
      (''task_queue_depth'', of_int (TaskQueueDepth l)),
      (''packets_per_ip_rate'', PacketsPerIPRate l),
      (''packets_per_ip_burst'', PacketsPerIPBurst l),
      (''packets_global_rate'', PacketsGlobalRate l),
      (''packets_global_burst'', PacketsGlobalBurst l),
      (''limiter_max_keys'', of_int (LimiterMaxKeys l)),
      (''limiter_idle_seconds'', of_int (LimiterIdleSeconds l)),
      (''max_relay_sessions_total'', of_int (MaxRelaySessionsTotal l)),
      (''max_relay_sessions_per_ip'', of_int (MaxRelaySessionsPerIP l)),
      (''relay_bytes_per_session'', of_int (RelayBytesPerSession l)),
      (''relay_bytes_burst_session'', of_int (RelayBytesBurstSession l)),
      (''relay_bytes_global'', of_int (RelayBytesGlobal l)),
      (''relay_bytes_burst_global'', of_int (RelayBytesBurstGlobal l)),
      (''invalid_log_sample_every'', of_nat (unat (InvalidLogSampleEvery l)))]"

text \<open>The name of the first check that fails, if any.\<close>

definition p2p_ValidateLimits :: "p2p_Limits \<Rightarrow> string option" where
  "p2p_ValidateLimits l = map_option fst (find (\<lambda>c. snd c \<le> 0) (p2p_checks l))"

lemma dflt_dflt [simp]: "dflt d (dflt d x) = dflt d x"
  by (simp add: dflt_def)

lemma normalizeLimits_idem [simp]: "normalizeLimits (normalizeLimits l) = normalizeLimits l"
  by (simp add: normalizeLimits_def Let_def)

lemma validated_positive:
  "p2p_ValidateLimits l = None \<longleftrightarrow> (\<forall>c \<in> set (p2p_checks l). 0 < snd c)"
  by (auto simp: p2p_ValidateLimits_def find_None_iff not_le)

lemma validated_counts:
  "p2p_ValidateLimits l = None \<Longrightarrow>
     0 < TaskQueueDepth l \<and> 0 < LimiterMaxKeys l \<and> 0 < MaxRelaySessionsTotal l \<and> 0 < MaxRelaySessionsPerIP l"
  by (simp add: validated_positive p2p_checks_def)

end
