(* ===== verification/Stun_Server.thy ===== *)
theory Stun_Server
  imports Stun P2P_Limits Ratelimit
begin

text \<open>
  The STUN server with its UDP relay, \<^verbatim>\<open>internal/p2p/stun_server.go\<close>: datagram admission
  (\<open>serve\<close>), the binding handler, the relay handler and the removal of relay entries.

  Each handler is one step: the relay table is only touched under \<open>relayMu\<close>, and the check of
  the data session inside that lock is the one that admits. Datagrams sent are part of the
  result; failures of the socket are not modelled. Relay entries are looked up and removed
  under one lock, so the pointer comparison of \<open>deleteRelaySessionLocked\<close> compares the entry
  with itself and entries are values.
\<close>

section \<open>Definitions\<close>

record stunTask =
  task_data :: bytes
  task_remoteAddr :: UDPAddr
  isRelay :: bool

definition makeRelayHeader :: "string \<Rightarrow> bytes" where
  "makeRelayHeader sessionID = relayMarker # of_nat (length sessionID) # bytes_of_string sessionID"

definition parseRelayHeader :: "bytes \<Rightarrow> (string \<times> bytes) option" where
  "parseRelayHeader data =
     (if length data < 2 \<or> data ! 0 \<noteq> relayMarker then None
      else let sidLen = unat (data ! 1)
           in if sidLen = 0 \<or> sidLen > maxSessionIDLen then None
              else if length data < 2 + sidLen then None
              else Some (string_of_bytes (take sidLen (drop 2 data)), drop (2 + sidLen) data))"

text \<open>\<open>rs_peers\<close> holds the registered ones of the two slots (\<open>count\<close> is its length).\<close>

record relaySession =
  rs_peers :: "UDPAddr list"
  rs_lastSeen :: int
  rs_creatorIP :: string
  byteLimiter :: Bucket

record STUNServer =
  relaySessions :: "(string, relaySession) gomap"
  relayCountPerIP :: "(string, int) gomap"
  relayByteGlobal :: Bucket
  invalidPktCount :: "64 word"
  taskQueue :: "stunTask list"
  udpLimiterPerIP :: KeyedLimiter
  udpLimiterGlobal :: Bucket
  stun_limits :: p2p_Limits

definition shouldSample :: "64 word \<Rightarrow> 64 word \<Rightarrow> bool" where
  "shouldSample n every = (every \<le> 1 \<or> (n - 1) mod every = 0)"

text \<open>The counter, and whether a line is written.\<close>

definition logSampledInvalidPacket :: "STUNServer \<Rightarrow> STUNServer \<times> bool" where
  "logSampledInvalidPacket s =
     (let n = invalidPktCount s + 1
      in (s\<lparr>invalidPktCount := n\<rparr>, shouldSample n (InvalidLogSampleEvery (stun_limits s))))"

definition NewSTUNServer :: "p2p_Limits \<Rightarrow> int \<Rightarrow> string + STUNServer" where
  "NewSTUNServer l0 now =
     (let l = normalizeLimits l0
      in case p2p_ValidateLimits l of
           Some name \<Rightarrow> Inl name
         | None \<Rightarrow> Inr
             \<lparr>relaySessions = mempty, relayCountPerIP = mempty,
              relayByteGlobal = NewBucket (of_int (RelayBytesGlobal l)) (of_int (RelayBytesBurstGlobal l)) now,
              invalidPktCount = 0, taskQueue = [],
              udpLimiterPerIP = NewKeyedLimiter (PacketsPerIPRate l) (PacketsPerIPBurst l) (LimiterMaxKeys l)
                (LimiterIdleSeconds l * second),
              udpLimiterGlobal = NewBucket (PacketsGlobalRate l) (PacketsGlobalBurst l) now,
              stun_limits = l\<rparr>)"

datatype stun_out = Dropped string | Ignored | Queued | Accepted | Sent bytes UDPAddr

definition drop_pkt :: "string \<Rightarrow> STUNServer \<Rightarrow> STUNServer \<times> stun_out" where
  "drop_pkt reason s = (fst (logSampledInvalidPacket s), Dropped reason)"

text \<open>One round of \<open>serve\<close>: \<open>ReadFromUDP\<close> cuts the datagram to the buffer.\<close>

definition serve :: "bytes \<Rightarrow> UDPAddr \<Rightarrow> int \<Rightarrow> STUNServer \<Rightarrow> STUNServer \<times> stun_out" where
  "serve datagram remoteAddr now s =
     (let buf = take (maxRelayDatagramSize + 1) datagram;
          (perIP, ok1) = KeyedLimiter_Allow (IP_String (udp_IP remoteAddr)) now (udpLimiterPerIP s);
          s1 = s\<lparr>udpLimiterPerIP := perIP\<rparr>
      in if \<not> ok1 then drop_pkt ''pps_limited_ip'' s1
         else let (glob, ok2) = Bucket_Allow now (udpLimiterGlobal s1);
                  s2 = s1\<lparr>udpLimiterGlobal := glob\<rparr>
              in if \<not> ok2 then drop_pkt ''pps_limited_global'' s2
                 else let relay = (length buf > 0 \<and> buf ! 0 = relayMarker)
                      in if relay \<and> length buf > maxRelayDatagramSize then drop_pkt ''datagram_too_large'' s2
                         else if int (length (taskQueue s2)) < TaskQueueDepth (stun_limits s2)
                         then (s2\<lparr>taskQueue := taskQueue s2 @
                                 [\<lparr>task_data = buf, task_remoteAddr = remoteAddr, isRelay = relay\<rparr>]\<rparr>, Queued)
                         else drop_pkt ''queue_full'' s2)"

definition handlePacket :: "bytes \<Rightarrow> UDPAddr \<Rightarrow> STUNServer \<Rightarrow> (STUNServer \<times> stun_out) option" where
  "handlePacket data remoteAddr s =
     (case UnpackSTUN data of
        Inl _ \<Rightarrow> Some (drop_pkt ''invalid_stun'' s)
      | Inr msg \<Rightarrow>
          if st_Type msg \<noteq> STUNBindingRequest then Some (drop_pkt ''non_binding_stun'' s)
          else let resp = \<lparr>st_Type = STUNBindingResponse, st_Length = 0, st_Magic = st_Magic msg,
                           st_TID = st_TID msg, st_Attrs = []\<rparr>
               in case AddXorMappedAddress remoteAddr (st_Magic msg) (st_TID msg) resp of
                    None \<Rightarrow> None
                  | Some resp1 \<Rightarrow>
                      Some (s, Sent (STUNMessage_Pack (AddSoftwareAttribute ''remote-assist-stun/1.0'' resp1)) remoteAddr))"

text \<open>
  The slot of a peer: an exact match, else a free slot, else a match by address with the port
  updated; \<open>None\<close> when both slots belong to others.
\<close>

definition peer_eq :: "UDPAddr \<Rightarrow> UDPAddr \<Rightarrow> bool" where
  "peer_eq a b = (IP_Equal (udp_IP a) (udp_IP b) \<and> udp_Port a = udp_Port b)"

fun index_of :: "('a \<Rightarrow> bool) \<Rightarrow> 'a list \<Rightarrow> nat option" where
  "index_of P [] = None"
| "index_of P (x # xs) = (if P x then Some 0 else map_option Suc (index_of P xs))"

definition findPeerSlot :: "UDPAddr \<Rightarrow> UDPAddr list \<Rightarrow> (UDPAddr list \<times> nat) option" where
  "findPeerSlot from peers =
     (case index_of (\<lambda>p. peer_eq p from) peers of
        Some i \<Rightarrow> Some (peers, i)
      | None \<Rightarrow>
          if length peers \<ge> 2
          then (case index_of (\<lambda>p. IP_Equal (udp_IP p) (udp_IP from)) peers of
                  Some i \<Rightarrow> Some (peers[i := from], i)
                | None \<Rightarrow> None)
          else Some (peers @ [from], length peers))"

definition newRelaySession :: "UDPAddr \<Rightarrow> int \<Rightarrow> p2p_Limits \<Rightarrow> relaySession" where
  "newRelaySession from now l =
     \<lparr>rs_peers = [], rs_lastSeen = now, rs_creatorIP = IP_String (udp_IP from),
      byteLimiter = NewBucket (of_int (RelayBytesPerSession l)) (of_int (RelayBytesBurstSession l)) now\<rparr>"

text \<open>The body of the handler once the entry of the session is at hand.\<close>

definition forwardRelay ::
  "string \<Rightarrow> relaySession \<Rightarrow> bytes \<Rightarrow> UDPAddr \<Rightarrow> int \<Rightarrow> STUNServer \<Rightarrow> STUNServer \<times> stun_out" where
  "forwardRelay sessionID session payload from now s =
     (case findPeerSlot from (rs_peers session) of
        None \<Rightarrow> (s\<lparr>relaySessions := mput sessionID session (relaySessions s)\<rparr>, Ignored)
      | Some (peers, peerIdx) \<Rightarrow>
          let session1 = session\<lparr>rs_peers := peers\<rparr>;
              otherIdx = 1 - int peerIdx;
              put = (\<lambda>e s. s\<lparr>relaySessions := mput sessionID e (relaySessions s)\<rparr>)
          in if otherIdx < int (length peers)
             then let target = peers ! nat otherIdx;
                      (b, ok) = Bucket_AllowN (of_nat (length payload)) now (byteLimiter session1);
                      session2 = session1\<lparr>byteLimiter := b\<rparr>
                  in if \<not> ok then drop_pkt ''relay_bytes_session'' (put session2 s)
                     else let (g, ok2) = Bucket_AllowN (of_nat (length payload)) now (relayByteGlobal s);
                              s1 = s\<lparr>relayByteGlobal := g\<rparr>
                          in if \<not> ok2 then drop_pkt ''relay_bytes_global'' (put session2 s1)
                             else (put (session2\<lparr>rs_lastSeen := now\<rparr>) s1, Sent payload target)
             else (put (session1\<lparr>rs_lastSeen := now\<rparr>) s, Accepted))"

text \<open>
  \<open>validator\<close> is the optional data-session validator as the early check finds it, \<open>recheck\<close>
  the same validator at the time of the second check, inside the lock.
\<close>

definition handleRelayPacket ::
  "(string \<Rightarrow> bytes \<Rightarrow> bool) option \<Rightarrow> (string \<Rightarrow> bytes \<Rightarrow> bool) \<Rightarrow> bytes \<Rightarrow> UDPAddr \<Rightarrow> int \<Rightarrow>
   STUNServer \<Rightarrow> STUNServer \<times> stun_out" where
  "handleRelayPacket validator recheck data from now s =
     (case parseRelayHeader data of
        None \<Rightarrow> drop_pkt ''bad_relay_header'' s
      | Some (sessionID, payload) \<Rightarrow>
          if payload = [] then drop_pkt ''bad_relay_header'' s
          else if (case validator of None \<Rightarrow> True | Some v \<Rightarrow> \<not> v sessionID (udp_IP from))
          then drop_pkt ''inactive_data_session'' s
          else if \<not> recheck sessionID (udp_IP from) then drop_pkt ''inactive_data_session_recheck'' s
          else case mget (relaySessions s) sessionID of
                 Some session \<Rightarrow> forwardRelay sessionID session payload from now s
               | None \<Rightarrow>
                   let creatorIP = IP_String (udp_IP from)
                   in if mlen (relaySessions s) \<ge> MaxRelaySessionsTotal (stun_limits s) \<or>
                         mget0 (relayCountPerIP s) creatorIP \<ge> MaxRelaySessionsPerIP (stun_limits s)
                      then drop_pkt ''relay_state_limited'' s
                      else forwardRelay sessionID (newRelaySession from now (stun_limits s)) payload from now
                             (s\<lparr>relayCountPerIP := mput creatorIP (mget0 (relayCountPerIP s) creatorIP + 1)
                                  (relayCountPerIP s)\<rparr>))"

text \<open>A worker takes the oldest task.\<close>

definition worker ::
  "(string \<Rightarrow> bytes \<Rightarrow> bool) option \<Rightarrow> (string \<Rightarrow> bytes \<Rightarrow> bool) \<Rightarrow> int \<Rightarrow> STUNServer \<Rightarrow> (STUNServer \<times> stun_out) option" where
  "worker validator recheck now s =
     (case taskQueue s of
        [] \<Rightarrow> Some (s, Ignored)
      | t # ts \<Rightarrow>
          let s1 = s\<lparr>taskQueue := ts\<rparr>
          in if isRelay t then Some (handleRelayPacket validator recheck (task_data t) (task_remoteAddr t) now s1)
             else handlePacket (task_data t) (task_remoteAddr t) s1)"

definition deleteRelaySessionLocked :: "string \<Rightarrow> STUNServer \<Rightarrow> STUNServer" where
  "deleteRelaySessionLocked sid s =
     (case mget (relaySessions s) sid of
        None \<Rightarrow> s
      | Some cur \<Rightarrow>
          s\<lparr>relaySessions := mdel sid (relaySessions s),
            relayCountPerIP :=
              (if rs_creatorIP cur \<noteq> []
               then (let n = mget0 (relayCountPerIP s) (rs_creatorIP cur)
                     in if n \<le> 1 then mdel (rs_creatorIP cur) (relayCountPerIP s)
                        else mput (rs_creatorIP cur) (n - 1) (relayCountPerIP s))
               else relayCountPerIP s)\<rparr>)"

definition InvalidateRelaySession :: "string \<Rightarrow> STUNServer \<Rightarrow> STUNServer" where
  "InvalidateRelaySession sessionID s = deleteRelaySessionLocked sessionID s"

definition cleanup_relay_one :: "int \<Rightarrow> string \<Rightarrow> STUNServer \<Rightarrow> STUNServer" where
  "cleanup_relay_one now sid s =
     (case mget (relaySessions s) sid of
        None \<Rightarrow> s
      | Some e \<Rightarrow> if now - rs_lastSeen e > relaySessionTTL then deleteRelaySessionLocked sid s else s)"

text \<open>One tick of \<open>cleanupRelaySessions\<close>, the map traversed in the order \<open>order\<close>.\<close>

definition cleanupRelaySessions :: "int \<Rightarrow> string list \<Rightarrow> STUNServer \<Rightarrow> STUNServer" where
  "cleanupRelaySessions now order s = fold (cleanup_relay_one now) order s"

text \<open>The table part of \<open>Close\<close>.\<close>

definition STUNServer_Close :: "string list \<Rightarrow> STUNServer \<Rightarrow> STUNServer" where
  "STUNServer_Close order s = fold deleteRelaySessionLocked order s"

end
