(* ===== verification/Stun_Server_Props.thy ===== *)
theory Stun_Server_Props
  imports Stun_Server
begin

text \<open>
  Properties of the STUN server (\<^verbatim>\<open>Stun_Server.thy\<close>): the client reads its own address back,
  the relay table and the task queue stay within their limits, and a relayed datagram stays
  inside its session.
\<close>

section \<open>Binding\<close>

lemma find_first [simp]: "P x \<Longrightarrow> find P (x # xs) = Some x"
  by simp

lemma UnpackSTUN_fields:
  assumes "UnpackSTUN data = Inr m"
  shows "st_Magic m = stunMagicCookie" "length (st_TID m) = 12"
  using assms by (auto simp: UnpackSTUN_def stunHeaderSize_def Let_def split: if_splits)

text \<open>The address a server reflects: the 4-byte form when there is one.\<close>

definition reflexive :: "UDPAddr \<Rightarrow> MappedAddress" where
  "reflexive a =
     (if To4 (udp_IP a) \<noteq> []
      then \<lparr>ma_Family = 1, ma_Port = of_int (udp_Port a), ma_IP = To4 (udp_IP a)\<rparr>
      else \<lparr>ma_Family = 2, ma_Port = of_int (udp_Port a), ma_IP = udp_IP a\<rparr>)"

lemma parse_xor_v4:
  "length ip = 4 \<Longrightarrow>
   parseMappedAddress (be16 1 @ be16 (p XOR ucast (drop_bit 16 magic)) @ be32 (u32 ip XOR magic)) magic tid True =
     Inr \<lparr>ma_Family = 1, ma_Port = p, ma_IP = ip\<rparr>"
  by (simp add: parseMappedAddress_def xor_self_cancel Let_def)

lemma parse_xor_v6:
  assumes "length ip = 16" "length tid = 12"
  shows "parseMappedAddress (be16 2 @ be16 (p XOR ucast (drop_bit 16 magic)) @ map2 (XOR) ip (xor_stream magic tid)) magic tid True =
     Inr \<lparr>ma_Family = 2, ma_Port = p, ma_IP = ip\<rparr>"
proof -
  have len: "length (xor_stream magic tid) = 16" using assms(2) by (simp add: xor_stream_def)
  then have "map2 (XOR) (map2 (XOR) ip (xor_stream magic tid)) (xor_stream magic tid) = ip"
    using assms(1) by (intro map2_xor_cancel) simp
  then show ?thesis
    using assms(1) len by (simp add: parseMappedAddress_def xor_self_cancel Let_def)
qed

lemma AddXor_reflexive:
  assumes "length (udp_IP a) \<in> {4, 16}" "length tid = 12"
  obtains v where "AddXorMappedAddress a magic tid m =
      Some (m\<lparr>st_Attrs := st_Attrs m @ [\<lparr>at_Type = STUNAttrXorMappedAddr, at_Length = of_nat (length v), at_Value = v\<rparr>]\<rparr>)"
    "length v \<in> {8, 20}" "parseMappedAddress v magic tid True = Inr (reflexive a)"
proof (cases "To4 (udp_IP a) = []")
  case False
  then have l: "length (To4 (udp_IP a)) = 4" by (auto simp: To4_def split: if_splits)
  show thesis
    by (rule that [of "be16 1 @ be16 (of_int (udp_Port a) XOR ucast (drop_bit 16 magic)) @ be32 (u32 (To4 (udp_IP a)) XOR magic)"])
      (use False parse_xor_v4 [OF l] in \<open>simp_all add: AddXorMappedAddress_def reflexive_def Let_def\<close>)
next
  case True
  then have l: "length (udp_IP a) = 16" "To16 (udp_IP a) = udp_IP a"
    using assms(1) by (auto simp: To4_def To16_def)
  then have "udp_IP a \<noteq> []" by auto
  moreover have "length (map2 (XOR) (udp_IP a) (xor_stream magic tid)) = 16"
    using l(1) assms(2) by (simp add: xor_stream_def)
  ultimately show thesis
    using True l parse_xor_v6 [OF l(1) assms(2)]
    by (intro that [of "be16 2 @ be16 (of_int (udp_Port a) XOR ucast (drop_bit 16 magic)) @ map2 (XOR) (udp_IP a) (xor_stream magic tid)"])
      (simp_all add: AddXorMappedAddress_def reflexive_def Let_def)
qed

text \<open>
  A client learns its own address: for every binding request the server can read, the
  answer goes back to the sender, and \<open>UnpackSTUN\<close> followed by \<open>GetMappedAddress\<close> on it
  gives the address and port the server saw, under the transaction identifier of the request,
  for IPv4, IPv4-mapped and IPv6 sources.
\<close>

theorem binding_reflects_source:
  assumes "UnpackSTUN req = Inr msg" "st_Type msg = STUNBindingRequest" "length (udp_IP from) \<in> {4, 16}"
  shows "\<exists>resp m. handlePacket req from s = Some (s, Sent resp from) \<and> UnpackSTUN resp = Inr m \<and>
    st_Type m = STUNBindingResponse \<and> st_TID m = st_TID msg \<and> GetMappedAddress m = Inr (reflexive from)"
proof -
  note msg = UnpackSTUN_fields [OF assms(1)]
  let ?resp = "\<lparr>st_Type = STUNBindingResponse, st_Length = 0, st_Magic = st_Magic msg, st_TID = st_TID msg, st_Attrs = []\<rparr>"
  obtain v where v: "AddXorMappedAddress from (st_Magic msg) (st_TID msg) ?resp =
      Some (?resp\<lparr>st_Attrs := [\<lparr>at_Type = STUNAttrXorMappedAddr, at_Length = of_nat (length v), at_Value = v\<rparr>]\<rparr>)"
    and lv: "length v \<in> {8, 20}" and p: "parseMappedAddress v (st_Magic msg) (st_TID msg) True = Inr (reflexive from)"
    using AddXor_reflexive [OF assms(3) msg(2), of "st_Magic msg" ?resp] by auto
  let ?m = "AddSoftwareAttribute ''remote-assist-stun/1.0''
    (?resp\<lparr>st_Attrs := [\<lparr>at_Type = STUNAttrXorMappedAddr, at_Length = of_nat (length v), at_Value = v\<rparr>]\<rparr>)"
  have pad: "attr_pad 8 = 0" "attr_pad 20 = 0" "attr_pad 22 = 2" by code_simp+
  have "stun_wf ?m"
    using msg lv by (auto simp: stun_wf_def AddSoftwareAttribute_def attr_ok_def pack_attr_def pad Let_def)
  then obtain n where "UnpackSTUN (STUNMessage_Pack ?m) = Inr (?m\<lparr>st_Length := n\<rparr>)"
    using UnpackSTUN_Pack by blast
  moreover have "handlePacket req from s = Some (s, Sent (STUNMessage_Pack ?m) from)"
    using assms(1,2) v by (simp add: handlePacket_def Let_def)
  moreover have "GetMappedAddress (?m\<lparr>st_Length := n\<rparr>) = Inr (reflexive from)"
    using p by (simp add: GetMappedAddress_def AddSoftwareAttribute_def)
  moreover have "st_Type (?m\<lparr>st_Length := n\<rparr>) = STUNBindingResponse" "st_TID (?m\<lparr>st_Length := n\<rparr>) = st_TID msg"
    by (simp_all add: AddSoftwareAttribute_def)
  ultimately show ?thesis by blast
qed

definition demo_server :: STUNServer where
  "demo_server = projr (NewSTUNServer p2p_DefaultLimits 0)"

theorem binding_reflects_source_witness:
  "\<exists>resp m. handlePacket (STUNMessage_Pack (NewBindingRequest (replicate 12 7))) \<lparr>udp_IP = [10, 0, 0, 9], udp_Port = 4000\<rparr> demo_server =
      Some (demo_server, Sent resp \<lparr>udp_IP = [10, 0, 0, 9], udp_Port = 4000\<rparr>) \<and> UnpackSTUN resp = Inr m \<and>
    GetMappedAddress m = Inr \<lparr>ma_Family = 1, ma_Port = 4000, ma_IP = [10, 0, 0, 9]\<rparr>"
proof -
  let ?q = "NewBindingRequest (replicate 12 7)" and ?a = "\<lparr>udp_IP = [10, 0, 0, 9], udp_Port = 4000\<rparr>"
  have "stun_wf ?q" by (simp add: stun_wf_def NewBindingRequest_def)
  from UnpackSTUN_Pack [OF this] have "UnpackSTUN (STUNMessage_Pack ?q) = Inr ?q"
    by (simp add: NewBindingRequest_def)
  moreover have "st_Type ?q = STUNBindingRequest" by (simp add: NewBindingRequest_def)
  moreover have "reflexive ?a = \<lparr>ma_Family = 1, ma_Port = 4000, ma_IP = [10, 0, 0, 9]\<rparr>"
    by (simp add: reflexive_def To4_def)
  ultimately show ?thesis using binding_reflects_source [of "STUNMessage_Pack ?q" ?q ?a demo_server] by auto
qed

section \<open>The relay table\<close>

definition created_by :: "STUNServer \<Rightarrow> string \<Rightarrow> string set" where
  "created_by s ip = {sid. \<exists>e. mget (relaySessions s) sid = Some e \<and> rs_creatorIP e = ip}"

definition relay_ok :: "STUNServer \<Rightarrow> bool" where
  "relay_ok s =
     ((\<forall>sid e. mget (relaySessions s) sid = Some e \<longrightarrow> length (rs_peers e) \<le> 2 \<and> rs_creatorIP e \<noteq> []) \<and>
      (\<forall>ip. mget0 (relayCountPerIP s) ip = int (card (created_by s ip))) \<and>
      mlen (relaySessions s) \<le> MaxRelaySessionsTotal (stun_limits s) \<and>
      (\<forall>ip. int (card (created_by s ip)) \<le> MaxRelaySessionsPerIP (stun_limits s)) \<and>
      int (length (taskQueue s)) \<le> TaskQueueDepth (stun_limits s))"

lemma created_by_finite [simp]: "finite (created_by s ip)"
  by (rule finite_subset [of _ "mdom (relaySessions s)"]) (auto simp: created_by_def)

text \<open>What a handler may change besides the relay table.\<close>

lemma drop_pkt_fields [simp]:
  "relaySessions (fst (drop_pkt r s)) = relaySessions s" "relayCountPerIP (fst (drop_pkt r s)) = relayCountPerIP s"
  "stun_limits (fst (drop_pkt r s)) = stun_limits s" "taskQueue (fst (drop_pkt r s)) = taskQueue s"
  "snd (drop_pkt r s) = Dropped r"
  by (simp_all add: drop_pkt_def logSampledInvalidPacket_def Let_def)

lemma relay_ok_cong:
  assumes "relaySessions s' = relaySessions s" "relayCountPerIP s' = relayCountPerIP s"
    "stun_limits s' = stun_limits s" "taskQueue s' = taskQueue s"
  shows "relay_ok s' \<longleftrightarrow> relay_ok s"
  unfolding relay_ok_def created_by_def assms ..

lemma relay_ok_drop [simp]: "relay_ok (fst (drop_pkt r s)) \<longleftrightarrow> relay_ok s"
  by (rule relay_ok_cong) simp_all

lemma index_of_less: "index_of P xs = Some i \<Longrightarrow> i < length xs \<and> P (xs ! i)"
  by (induction P xs arbitrary: i rule: index_of.induct) (auto split: if_splits)

lemma findPeerSlot_length:
  "findPeerSlot from peers = Some (peers', i) \<Longrightarrow> length peers \<le> 2 \<Longrightarrow>
     length peers' \<le> 2 \<and> i < length peers' \<and> peer_eq (peers' ! i) from"
  by (auto simp: findPeerSlot_def peer_eq_def dest!: index_of_less split: option.splits if_splits)

lemma forwardRelay_effect:
  assumes "length (rs_peers session) \<le> 2"
  obtains e where "relaySessions (fst (forwardRelay sid session payload from now s)) = mput sid e (relaySessions s)"
    "rs_creatorIP e = rs_creatorIP session" "length (rs_peers e) \<le> 2"
    "relayCountPerIP (fst (forwardRelay sid session payload from now s)) = relayCountPerIP s"
    "stun_limits (fst (forwardRelay sid session payload from now s)) = stun_limits s"
    "taskQueue (fst (forwardRelay sid session payload from now s)) = taskQueue s"
    "\<And>p t. snd (forwardRelay sid session payload from now s) = Sent p t \<Longrightarrow>
       p = payload \<and> (\<exists>i < length (rs_peers e). \<exists>j < length (rs_peers e). i \<noteq> j \<and> peer_eq (rs_peers e ! i) from \<and> rs_peers e ! j = t)"
proof (cases "findPeerSlot from (rs_peers session)")
  case None
  then show thesis using assms by (intro that [of session]) (simp_all add: forwardRelay_def)
next
  case (Some p)
  obtain peers i where p: "p = (peers, i)" by (cases p)
  note f = findPeerSlot_length [OF Some [unfolded p] assms]
  let ?s1 = "session\<lparr>rs_peers := peers\<rparr>"
  obtain b ok where b: "Bucket_AllowN (of_nat (length payload)) now (byteLimiter session) = (b, ok)"
    by (cases "Bucket_AllowN (of_nat (length payload)) now (byteLimiter session)")
  obtain g ok2 where g: "Bucket_AllowN (of_nat (length payload)) now (relayByteGlobal s) = (g, ok2)"
    by (cases "Bucket_AllowN (of_nat (length payload)) now (relayByteGlobal s)")
  note d = forwardRelay_def Some p b g Let_def
  consider (alone) "\<not> 1 - int i < int (length peers)" | (over) "1 - int i < int (length peers)" "\<not> (ok \<and> ok2)"
    | (fwd) "1 - int i < int (length peers)" "ok" "ok2" by blast
  then show thesis
  proof cases
    case alone
    then show thesis using f by (intro that [of "?s1\<lparr>rs_lastSeen := now\<rparr>"]) (simp_all add: d)
  next
    case over
    then obtain r s' where "forwardRelay sid session payload from now s = drop_pkt r s'"
      "relaySessions s' = mput sid (?s1\<lparr>byteLimiter := b\<rparr>) (relaySessions s)" "relayCountPerIP s' = relayCountPerIP s"
      "stun_limits s' = stun_limits s" "taskQueue s' = taskQueue s"
    proof (cases ok)
      case True
      with over that show thesis by (simp add: d)
    next
      case False
      with over that show thesis by (simp add: d)
    qed
    then show thesis using f by (intro that [of "?s1\<lparr>byteLimiter := b\<rparr>"]) simp_all
  next
    case fwd
    have "i = 0 \<or> i = 1" using f by auto
    then have j: "nat (1 - int i) < length peers" "i \<noteq> nat (1 - int i)" using fwd(1) f by auto
    show thesis
      using f fwd j by (intro that [of "?s1\<lparr>byteLimiter := b, rs_lastSeen := now\<rparr>"]) (auto simp: d)
  qed
qed

lemma created_by_put:
  assumes "relaySessions s' = mput sid e (relaySessions s)" "mget (relaySessions s) sid = Some e0" "rs_creatorIP e = rs_creatorIP e0"
  shows "created_by s' ip = created_by s ip"
  using assms by (auto simp: created_by_def)

lemma created_by_new:
  assumes "relaySessions s' = mput sid e (relaySessions s)" "mget (relaySessions s) sid = None"
  shows "created_by s' ip = (if ip = rs_creatorIP e then insert sid (created_by s ip) else created_by s ip)"
  using assms by (auto simp: created_by_def split: if_splits)

lemma relay_ok_handleRelayPacket:
  assumes ok: "relay_ok s"
  shows "relay_ok (fst (handleRelayPacket v rc data from now s))"
proof (cases "snd (handleRelayPacket v rc data from now s) \<in> range Dropped \<and>
    relay_ok (fst (handleRelayPacket v rc data from now s))")
  case True
  then show ?thesis by simp
next
  case nd: False
  obtain sid payload where parsed: "parseRelayHeader data = Some (sid, payload)" "payload \<noteq> []"
    and adm: "\<not> (case v of None \<Rightarrow> True | Some v \<Rightarrow> \<not> v sid (udp_IP from))" "rc sid (udp_IP from)"
    using nd ok by (auto simp: handleRelayPacket_def split: option.splits prod.splits if_splits)
  show ?thesis
  proof (cases "mget (relaySessions s) sid")
    case (Some session)
    have l: "length (rs_peers session) \<le> 2" using ok Some by (auto simp: relay_ok_def)
    have eq: "handleRelayPacket v rc data from now s = forwardRelay sid session payload from now s"
      using parsed adm Some by (simp add: handleRelayPacket_def)
    obtain e where e: "relaySessions (fst (forwardRelay sid session payload from now s)) = mput sid e (relaySessions s)"
      "rs_creatorIP e = rs_creatorIP session" "length (rs_peers e) \<le> 2"
      "relayCountPerIP (fst (forwardRelay sid session payload from now s)) = relayCountPerIP s"
      "stun_limits (fst (forwardRelay sid session payload from now s)) = stun_limits s"
      "taskQueue (fst (forwardRelay sid session payload from now s)) = taskQueue s"
      using l by (rule forwardRelay_effect [of session sid payload "from" now s])
    have "mlen (mput sid e (relaySessions s)) = mlen (relaySessions s)" by (rule mlen_put_old [OF Some])
    then show ?thesis
      using ok e(2,3) Some unfolding eq relay_ok_def created_by_put [OF e(1) Some e(2)] e(1,4-6) by auto
  next
    case None
    let ?ip = "IP_String (udp_IP from)" and ?n = "newRelaySession from now (stun_limits s)"
    have room: "\<not> (mlen (relaySessions s) \<ge> MaxRelaySessionsTotal (stun_limits s) \<or>
        mget0 (relayCountPerIP s) ?ip \<ge> MaxRelaySessionsPerIP (stun_limits s))"
      using nd ok parsed adm None by (auto simp: handleRelayPacket_def Let_def)
    let ?s1 = "s\<lparr>relayCountPerIP := mput ?ip (mget0 (relayCountPerIP s) ?ip + 1) (relayCountPerIP s)\<rparr>"
    have eq: "handleRelayPacket v rc data from now s = forwardRelay sid ?n payload from now ?s1"
      using parsed adm None room by (simp add: handleRelayPacket_def Let_def)
    have "length (rs_peers ?n) \<le> 2" by (simp add: newRelaySession_def)
    then obtain e where e: "relaySessions (fst (forwardRelay sid ?n payload from now ?s1)) = mput sid e (relaySessions s)"
      "rs_creatorIP e = ?ip" "length (rs_peers e) \<le> 2"
      "relayCountPerIP (fst (forwardRelay sid ?n payload from now ?s1)) = relayCountPerIP ?s1"
      "stun_limits (fst (forwardRelay sid ?n payload from now ?s1)) = stun_limits s"
      "taskQueue (fst (forwardRelay sid ?n payload from now ?s1)) = taskQueue s"
      by (rule forwardRelay_effect [of ?n sid payload "from" now ?s1]) (simp_all add: newRelaySession_def)
    have "sid \<notin> created_by s x" for x using None by (auto simp: created_by_def)
    then have card: "int (card (created_by (fst (forwardRelay sid ?n payload from now ?s1)) x)) =
        int (card (created_by s x)) + (if x = ?ip then 1 else 0)" for x
      using created_by_new [OF e(1) None, of x] e(2) by simp
    have "mget0 (relayCountPerIP s) x = int (card (created_by s x))" for x
      using ok by (simp add: relay_ok_def)
    then show ?thesis
      using ok room e(2,3) mlen_put_new [OF None, of e] unfolding eq relay_ok_def card e(1,4-6) by auto
  qed
qed

lemma relay_ok_delete:
  assumes ok: "relay_ok s"
  shows "relay_ok (deleteRelaySessionLocked sid s)"
proof (cases "mget (relaySessions s) sid")
  case None
  then show ?thesis using ok by (simp add: deleteRelaySessionLocked_def)
next
  case (Some cur)
  let ?s = "deleteRelaySessionLocked sid s" and ?ip = "rs_creatorIP cur"
  have ne: "?ip \<noteq> []" using ok Some by (auto simp: relay_ok_def)
  have f: "relaySessions ?s = mdel sid (relaySessions s)" "stun_limits ?s = stun_limits s" "taskQueue ?s = taskQueue s"
    using Some by (simp_all add: deleteRelaySessionLocked_def)
  have cd: "created_by ?s x = created_by s x - {sid}" for x
    by (auto simp: created_by_def f(1))
  have mem: "sid \<in> created_by s x \<longleftrightarrow> x = ?ip" for x using Some by (auto simp: created_by_def)
  have pos: "0 < card (created_by s ?ip)" using mem by (auto simp: card_gt_0_iff)
  have card: "int (card (created_by ?s x)) = int (card (created_by s x)) - (if x = ?ip then 1 else 0)" for x
    using pos mem by (auto simp: cd card_Diff_singleton_if)
  have cnt: "mget0 (relayCountPerIP s) x = int (card (created_by s x))" for x
    using ok by (simp add: relay_ok_def)
  have "mget0 (relayCountPerIP ?s) x = int (card (created_by ?s x))" for x
    using pos Some ne unfolding card by (auto simp: deleteRelaySessionLocked_def cnt Let_def)
  moreover have "mlen (relaySessions ?s) \<le> mlen (relaySessions s)"
    using mlen_del_old [OF Some] by (simp add: f(1))
  moreover have "mget (relaySessions ?s) x = Some e \<Longrightarrow> mget (relaySessions s) x = Some e" for x e
    by (simp add: f(1) split: if_splits)
  moreover have "int (card (created_by ?s x)) \<le> int (card (created_by s x))" for x by (simp add: card)
  ultimately show ?thesis using ok unfolding relay_ok_def f(2,3) by (meson order_trans)
qed

lemma relay_ok_cleanup: "relay_ok s \<Longrightarrow> relay_ok (cleanupRelaySessions now order s)"
  unfolding cleanupRelaySessions_def
  by (induction order arbitrary: s) (auto simp: cleanup_relay_one_def relay_ok_delete split: option.splits)

lemma relay_ok_queue:
  "relay_ok s \<Longrightarrow> int (length q) \<le> TaskQueueDepth (stun_limits s) \<Longrightarrow> relay_ok (s\<lparr>taskQueue := q\<rparr>)"
  by (simp add: relay_ok_def created_by_def)

lemma relay_ok_serve:
  assumes "relay_ok s"
  shows "relay_ok (fst (serve d a now s))"
proof -
  have lim: "relay_ok (s\<lparr>udpLimiterPerIP := k, udpLimiterGlobal := b\<rparr>)" "relay_ok (s\<lparr>udpLimiterPerIP := k\<rparr>)" for k b
    using assms by (simp_all add: relay_ok_def created_by_def)
  show ?thesis
    by (auto simp: serve_def lim Let_def split: prod.splits intro!: relay_ok_queue)
qed

text \<open>The steps of the server, each with the clock and the validator it finds.\<close>

datatype stun_event =
    EvServe bytes UDPAddr int
  | EvWork "(string \<Rightarrow> bytes \<Rightarrow> bool) option" "string \<Rightarrow> bytes \<Rightarrow> bool" int
  | EvInvalidate string
  | EvRelayCleanup int "string list"

fun stun_apply :: "stun_event \<Rightarrow> STUNServer \<Rightarrow> STUNServer option" where
  "stun_apply (EvServe d a now) s = Some (fst (serve d a now s))"
| "stun_apply (EvWork v rc now) s = map_option fst (worker v rc now s)"
| "stun_apply (EvInvalidate sid) s = Some (InvalidateRelaySession sid s)"
| "stun_apply (EvRelayCleanup now order) s = Some (cleanupRelaySessions now order s)"

fun stun_run :: "stun_event list \<Rightarrow> STUNServer \<Rightarrow> STUNServer option" where
  "stun_run [] s = Some s"
| "stun_run (e # es) s = (case stun_apply e s of None \<Rightarrow> None | Some s' \<Rightarrow> stun_run es s')"

lemma relay_ok_apply:
  assumes ok: "relay_ok s" and ap: "stun_apply e s = Some s'"
  shows "relay_ok s'"
proof (cases e)
  case (EvWork v rc now)
  have tl: "relay_ok (s\<lparr>taskQueue := ts\<rparr>)" if "taskQueue s = t # ts" for t ts
    using ok that by (intro relay_ok_queue) (auto simp: relay_ok_def)
  have hp: "relay_ok s2" if "relay_ok s1" "handlePacket d a s1 = Some (s2, out)" for s1 s2 d a out
    using that by (auto simp: handlePacket_def drop_pkt_def Let_def split: sum.splits if_splits option.splits)
      (metis relay_ok_drop drop_pkt_def fst_conv)+
  show ?thesis
  proof (cases "taskQueue s")
    case Nil
    then show ?thesis using ap EvWork ok by (simp add: worker_def)
  next
    case (Cons t ts)
    obtain out where w: "worker v rc now s = Some (s', out)" using ap EvWork by auto
    show ?thesis
    proof (cases "isRelay t")
      case True
      then show ?thesis
        using w Cons relay_ok_handleRelayPacket [OF tl [OF Cons]] by (simp add: worker_def Let_def) (metis fst_conv)
    next
      case False
      then show ?thesis using w Cons hp [OF tl [OF Cons]] by (simp add: worker_def Let_def)
    qed
  qed
qed (use ap ok in \<open>auto simp: relay_ok_serve relay_ok_cleanup relay_ok_delete InvalidateRelaySession_def\<close>)

lemma relay_ok_init:
  assumes "NewSTUNServer l now = Inr s"
  shows "relay_ok s"
  using assms validated_counts [of "normalizeLimits l"]
  by (auto simp: NewSTUNServer_def relay_ok_def created_by_def Let_def split: option.splits)

lemma relay_ok_run: "relay_ok s \<Longrightarrow> stun_run es s = Some s' \<Longrightarrow> relay_ok s'"
  by (induction es arbitrary: s) (auto split: option.splits intro: relay_ok_apply)

lemma stun_limits_run_ok:
  "NewSTUNServer l now = Inr s \<Longrightarrow> stun_run es s = Some s' \<Longrightarrow> relay_ok s'"
  using relay_ok_init relay_ok_run by blast

text \<open>
  The relay state is bounded and its accounting exact: after any sequence of datagrams,
  worker steps, invalidations and cleanups, under whatever validator, the table and the queue
  are within the limits, every entry has at most two peers, and the counter of a source
  address is the number of entries it created, within its own limit.
\<close>

theorem relay_state_bounded:
  assumes "NewSTUNServer l now = Inr s0" "stun_run es s0 = Some s"
  shows "mlen (relaySessions s) \<le> MaxRelaySessionsTotal (stun_limits s) \<and>
    int (length (taskQueue s)) \<le> TaskQueueDepth (stun_limits s) \<and>
    (\<forall>sid e. mget (relaySessions s) sid = Some e \<longrightarrow> length (rs_peers e) \<le> 2) \<and>
    (\<forall>ip. mget0 (relayCountPerIP s) ip =
        int (card {sid. \<exists>e. mget (relaySessions s) sid = Some e \<and> rs_creatorIP e = ip}) \<and>
      mget0 (relayCountPerIP s) ip \<le> MaxRelaySessionsPerIP (stun_limits s))"
  using stun_limits_run_ok [OF assms] by (simp add: relay_ok_def created_by_def)

theorem relay_state_bounded_witness:
  "\<exists>s0 s. NewSTUNServer p2p_DefaultLimits 0 = Inr s0 \<and>
     stun_run [EvServe (makeRelayHeader ''ses'' @ [1]) \<lparr>udp_IP = [10, 0, 0, 9], udp_Port = 4000\<rparr> 1,
       EvWork (Some (\<lambda>_ _. True)) (\<lambda>_ _. True) 2] s0 = Some s \<and> mlen (relaySessions s) \<le> 5000"
proof -
  let ?es = "[EvServe (makeRelayHeader ''ses'' @ [1]) \<lparr>udp_IP = [10, 0, 0, 9], udp_Port = 4000\<rparr> 1,
       EvWork (Some (\<lambda>_ _. True)) (\<lambda>_ _. True) 2]"
  have l: "normalizeLimits p2p_DefaultLimits = p2p_DefaultLimits"
    by (simp add: normalizeLimits_def dflt_def p2p_DefaultLimits_def)
  have "p2p_ValidateLimits p2p_DefaultLimits = None"
    by (simp add: validated_positive p2p_checks_def p2p_DefaultLimits_def)
  then obtain s0 where s0: "NewSTUNServer p2p_DefaultLimits 0 = Inr s0" "s0 = demo_server"
    unfolding demo_server_def by (simp add: NewSTUNServer_def l)
  have "\<not> stun_run ?es demo_server = None" by code_simp
  then obtain s where s: "stun_run ?es demo_server = Some s" by blast
  have "MaxRelaySessionsTotal (stun_limits (the (stun_run ?es demo_server))) = 5000" by code_simp
  then have "MaxRelaySessionsTotal (stun_limits s) = 5000" by (simp only: s option.sel)
  then show ?thesis using relay_state_bounded [OF s0(1), of ?es s] s s0 by simp
qed

section \<open>Forwarding\<close>

lemma parseRelayHeader_make:
  assumes "sid \<noteq> []" "length sid \<le> maxSessionIDLen"
  shows "parseRelayHeader (makeRelayHeader sid @ payload) = Some (sid, payload)"
proof -
  have "unat (of_nat (length sid) :: byte) = length sid"
    using assms(2) by (simp add: unsigned_of_nat take_bit_nat_eq_self maxSessionIDLen_def)
  then show ?thesis
    using assms by (simp add: parseRelayHeader_def makeRelayHeader_def)
qed

text \<open>
  C6. A relayed datagram stays inside its session: when the relay sends something on, it is
  the unchanged payload of a datagram whose header names a session the validator admits for
  this source, it goes to the address in the other slot of that session than the source's own,
  and no other session's entry changes.
\<close>

theorem relay_forward_confined:
  assumes "NewSTUNServer l n0 = Inr s0" "stun_run es s0 = Some s"
    and "handleRelayPacket v rc (makeRelayHeader sid @ payload) from now s = (s', Sent p t)"
    and "sid \<noteq> []" "length sid \<le> maxSessionIDLen"
  shows "p = payload \<and> rc sid (udp_IP from) \<and>
    (\<exists>e. mget (relaySessions s') sid = Some e \<and>
      (\<exists>i < length (rs_peers e). \<exists>j < length (rs_peers e). i \<noteq> j \<and> peer_eq (rs_peers e ! i) from \<and> rs_peers e ! j = t)) \<and>
    (\<forall>sid'. sid' \<noteq> sid \<longrightarrow> mget (relaySessions s') sid' = mget (relaySessions s) sid')"
proof -
  note ph = parseRelayHeader_make [OF assms(4,5), of payload]
  have adm: "payload \<noteq> []" "\<not> (case v of None \<Rightarrow> True | Some v \<Rightarrow> \<not> v sid (udp_IP from))" "rc sid (udp_IP from)"
    using assms(3) by (auto simp: handleRelayPacket_def ph drop_pkt_def split: if_splits)
  obtain session s1 where fw: "handleRelayPacket v rc (makeRelayHeader sid @ payload) from now s = forwardRelay sid session payload from now s1"
    and l: "length (rs_peers session) \<le> 2" and s1: "relaySessions s1 = relaySessions s"
  proof (cases "mget (relaySessions s) sid")
    case (Some session)
    then show thesis using that [of session s] adm stun_limits_run_ok [OF assms(1,2)] by (auto simp: handleRelayPacket_def ph relay_ok_def)
  next
    case None
    then show thesis
      using that [of "newRelaySession from now (stun_limits s)" "s\<lparr>relayCountPerIP := mput (IP_String (udp_IP from))
          (mget0 (relayCountPerIP s) (IP_String (udp_IP from)) + 1) (relayCountPerIP s)\<rparr>"] adm assms(3)
      by (simp add: handleRelayPacket_def ph drop_pkt_def newRelaySession_def Let_def split: if_splits)
  qed
  have f: "forwardRelay sid session payload from now s1 = (s', Sent p t)" using fw assms(3) by simp
  from l show ?thesis
    by (rule forwardRelay_effect [of session sid payload "from" now s1]) (use f s1 adm in auto)
qed

definition demo_relay_events :: "stun_event list" where
  "demo_relay_events =
     [EvServe (makeRelayHeader ''ses'' @ [1]) \<lparr>udp_IP = [10, 0, 0, 9], udp_Port = 4000\<rparr> 1,
      EvWork (Some (\<lambda>_ _. True)) (\<lambda>_ _. True) 2]"

theorem relay_forward_confined_witness:
  "\<exists>s' t. handleRelayPacket (Some (\<lambda>_ _. True)) (\<lambda>_ _. True) (makeRelayHeader ''ses'' @ [7])
      \<lparr>udp_IP = [10, 0, 0, 8], udp_Port = 4001\<rparr> 3 (the (stun_run demo_relay_events demo_server)) = (s', Sent [7] t) \<and>
    (\<exists>e. mget (relaySessions s') ''ses'' = Some e \<and> (\<exists>j < length (rs_peers e). rs_peers e ! j = t))"
proof -
  let ?a = "\<lparr>udp_IP = [10, 0, 0, 8], udp_Port = 4001\<rparr>"
  let ?s = "the (stun_run demo_relay_events demo_server)"
  let ?r = "handleRelayPacket (Some (\<lambda>_ _. True)) (\<lambda>_ _. True) (makeRelayHeader ''ses'' @ [7]) ?a 3 ?s"
  have "p2p_ValidateLimits (normalizeLimits p2p_DefaultLimits) = None" by code_simp
  then have s0: "NewSTUNServer p2p_DefaultLimits 0 = Inr demo_server"
    unfolding demo_server_def by (simp add: NewSTUNServer_def Let_def)
  have "\<not> stun_run demo_relay_events demo_server = None" by code_simp
  then have run: "stun_run demo_relay_events demo_server = Some ?s" by simp
  have out: "(case snd ?r of Sent p t \<Rightarrow> p = [7] | _ \<Rightarrow> False)" by code_simp
  then obtain t where "snd ?r = Sent [7] t" by (cases "snd ?r") simp_all
  then have r: "?r = (fst ?r, Sent [7] t)" by (metis prod.collapse)
  from relay_forward_confined [OF s0 run r] show ?thesis
    using r by (simp add: maxSessionIDLen_def) blast
qed

end
