(* ===== verification/Relay_Code.thy ===== *)
theory Relay_Code
  imports Prelude
begin

text \<open>
  Assist codes and peer-supplied display strings: \<^verbatim>\<open>internal/relay/code.go\<close> and
  \<^verbatim>\<open>internal/relay/sanitize.go\<close>.

  A Go string is its list of bytes; \<open>runes\<close> is the decoding of a \<open>range\<close> loop over it (an
  invalid byte is U+FFFD) and \<open>encode_rune\<close> what \<open>WriteRune\<close> appends. The relay gets these
  strings from \<^verbatim>\<open>encoding/json\<close>, whose results are valid UTF-8, so that \<open>strings.Map\<close> with a
  mapping that only removes ASCII runes is a filter on bytes.
\<close>

section \<open>Runes\<close>

definition cont :: "nat \<Rightarrow> bool" where
  "cont b = (128 \<le> b \<and> b \<le> 191)"

definition second_ok :: "nat \<Rightarrow> nat \<Rightarrow> bool" where
  "second_ok b0 b1 =
     (if b0 = 224 then 160 \<le> b1 \<and> b1 \<le> 191
      else if b0 = 237 then 128 \<le> b1 \<and> b1 \<le> 159
      else if b0 = 240 then 144 \<le> b1 \<and> b1 \<le> 191
      else if b0 = 244 then 128 \<le> b1 \<and> b1 \<le> 143
      else cont b1)"

definition rune_error :: nat where
  "rune_error = 65533"

text \<open>The first rune of a non-empty byte list and its width.\<close>

definition decode_rune :: "nat list \<Rightarrow> nat \<times> nat" where
  "decode_rune bs =
     (let b0 = bs ! 0; n = length bs
      in if b0 < 128 then (b0, 1)
         else if 194 \<le> b0 \<and> b0 \<le> 223 \<and> n \<ge> 2 \<and> cont (bs ! 1)
         then ((b0 mod 32) * 64 + bs ! 1 mod 64, 2)
         else if 224 \<le> b0 \<and> b0 \<le> 239 \<and> n \<ge> 3 \<and> second_ok b0 (bs ! 1) \<and> cont (bs ! 2)
         then ((b0 mod 16) * 4096 + (bs ! 1 mod 64) * 64 + bs ! 2 mod 64, 3)
         else if 240 \<le> b0 \<and> b0 \<le> 244 \<and> n \<ge> 4 \<and> second_ok b0 (bs ! 1) \<and> cont (bs ! 2) \<and> cont (bs ! 3)
         then ((b0 mod 8) * 262144 + (bs ! 1 mod 64) * 4096 + (bs ! 2 mod 64) * 64 + bs ! 3 mod 64, 4)
         else (rune_error, 1))"

function runes_of :: "nat list \<Rightarrow> nat list" where
  "runes_of bs = (if bs = [] then [] else let (r, w) = decode_rune bs in r # runes_of (drop w bs))"
  by pat_completeness auto
termination by (relation "measure length") (auto simp: decode_rune_def Let_def split: if_splits)

declare runes_of.simps [simp del]

definition runes :: "string \<Rightarrow> nat list" where
  "runes s = runes_of (map of_char s)"

definition encode_rune :: "nat \<Rightarrow> string" where
  "encode_rune r0 =
     (let r = (if r0 > 1114111 \<or> 55296 \<le> r0 \<and> r0 \<le> 57343 then rune_error else r0)
      in map char_of
           (if r < 128 then [r]
            else if r < 2048 then [192 + r div 64, 128 + r mod 64]
            else if r < 65536 then [224 + r div 4096, 128 + r div 64 mod 64, 128 + r mod 64]
            else [240 + r div 262144, 128 + r div 4096 mod 64, 128 + r div 64 mod 64, 128 + r mod 64]))"

text \<open>The Unicode property White\_Space (\<open>unicode.IsSpace\<close>) and the category Cf.\<close>

definition IsSpace :: "nat \<Rightarrow> bool" where
  "IsSpace r = (9 \<le> r \<and> r \<le> 13 \<or> r = 32 \<or> r = 133 \<or> r = 160 \<or> r = 5760 \<or> 8192 \<le> r \<and> r \<le> 8202 \<or>
     r = 8232 \<or> r = 8233 \<or> r = 8239 \<or> r = 8287 \<or> r = 12288)"

definition cf_ranges :: "(nat \<times> nat) list" where
  "cf_ranges = [(173, 173), (1536, 1541), (1564, 1564), (1757, 1757), (1807, 1807), (2192, 2193), (2274, 2274),
     (6158, 6158), (8203, 8207), (8234, 8238), (8288, 8292), (8294, 8303), (65279, 65279), (65529, 65531),
     (69821, 69821), (69837, 69837), (78896, 78911), (113824, 113827), (119155, 119162), (917505, 917505),
     (917536, 917631)]"

definition IsCf :: "nat \<Rightarrow> bool" where
  "IsCf r = list_ex (\<lambda>(a, b). a \<le> r \<and> r \<le> b) cf_ranges"

section \<open>Definitions\<close>

definition charset :: string where
  "charset = ''ABCDEFGHJKMNPQRSTUVWXYZabcdefghjkmnpqrstuvwxyz23456789''"

definition defaultCodeLength :: int where
  "defaultCodeLength = 10"

definition NewCodeManager :: "int \<Rightarrow> int" where
  "NewCodeManager codeLength = (if codeLength \<le> 0 then defaultCodeLength else codeLength)"

text \<open>
  \<open>generateCode\<close>: \<open>draws\<close> are the results of the successive calls of \<open>rand.Int\<close>, \<open>None\<close> for
  a failure of the random source.
\<close>

fun generateCode :: "nat \<Rightarrow> nat option list \<Rightarrow> string option" where
  "generateCode 0 draws = Some []"
| "generateCode (Suc n) [] = None"
| "generateCode (Suc n) (None # ds) = None"
| "generateCode (Suc n) (Some d # ds) = map_option (\<lambda>cs. charset ! d # cs) (generateCode n ds)"

definition normalizeCode :: "string \<Rightarrow> string" where
  "normalizeCode code = filter (\<lambda>r. \<not> (r = CHR ''-'' \<or> r = CHR '' '' \<or> r = CHR ''_'')) code"

definition FormatCode :: "string \<Rightarrow> string" where
  "FormatCode code = (if length code \<le> 4 then code else take 4 code @ ''-'' @ drop 4 code)"

text \<open>The formatting the share side prints (\<^verbatim>\<open>formatCode\<close> of \<^verbatim>\<open>internal/client/share.go\<close>).\<close>

definition client_formatCode :: "string \<Rightarrow> string" where
  "client_formatCode code = (if length code < 4 then code else take 4 code @ ''-'' @ drop 4 code)"

definition maxPeerStringLen :: nat where
  "maxPeerStringLen = 120"

definition dropped_rune :: "nat \<Rightarrow> bool" where
  "dropped_rune r = (r < 32 \<or> r = 127 \<or> IsCf r)"

text \<open>\<open>strings.TrimSpace\<close> on runes.\<close>

definition TrimSpace :: "nat list \<Rightarrow> nat list" where
  "TrimSpace rs = rev (dropWhile IsSpace (rev (dropWhile IsSpace rs)))"

fun sanitize_loop :: "nat \<Rightarrow> nat list \<Rightarrow> nat list" where
  "sanitize_loop n [] = []"
| "sanitize_loop n (r # rs) =
     (if dropped_rune r then sanitize_loop n rs
      else if n + 1 \<ge> maxPeerStringLen then [r] else r # sanitize_loop (n + 1) rs)"

definition sanitize_runes :: "string \<Rightarrow> nat list" where
  "sanitize_runes s = sanitize_loop 0 (TrimSpace (runes s))"

definition sanitizePeerString :: "string \<Rightarrow> string" where
  "sanitizePeerString s = concat (map encode_rune (sanitize_runes s))"

section \<open>Lemmas\<close>

lemma generateCode_spec:
  "generateCode n ds = Some c \<Longrightarrow> \<forall>d \<in> set ds. \<forall>k. d = Some k \<longrightarrow> k < length charset \<Longrightarrow>
   length c = n \<and> set c \<subseteq> set charset"
proof (induction n ds arbitrary: c rule: generateCode.induct)
  case (4 n d ds)
  then show ?case by (auto simp: nth_mem)
qed auto

lemma charset_clean: "set charset \<inter> {CHR ''-'', CHR '' '', CHR ''_''} = {}"
  by (simp add: charset_def)

lemma normalizeCode_clean: "set c \<inter> {CHR ''-'', CHR '' '', CHR ''_''} = {} \<Longrightarrow> normalizeCode c = c"
  by (auto simp: normalizeCode_def filter_id_conv)

lemma normalizeCode_append: "normalizeCode (a @ b) = normalizeCode a @ normalizeCode b"
  by (simp add: normalizeCode_def)

lemma normalize_format:
  "set c \<inter> {CHR ''-'', CHR '' '', CHR ''_''} = {} \<Longrightarrow>
   normalizeCode (FormatCode c) = c \<and> normalizeCode (client_formatCode c) = c"
proof -
  assume c: "set c \<inter> {CHR ''-'', CHR '' '', CHR ''_''} = {}"
  then have "normalizeCode (take 4 c) = take 4 c" "normalizeCode (drop 4 c) = drop 4 c"
    by (auto intro!: normalizeCode_clean dest: in_set_takeD in_set_dropD)
  moreover have "normalizeCode ''-'' = []" by (simp add: normalizeCode_def)
  ultimately have "normalizeCode (take 4 c @ ''-'' @ drop 4 c) = c"
    by (simp only: normalizeCode_append) simp
  then show ?thesis
    using normalizeCode_clean [OF c] unfolding FormatCode_def client_formatCode_def by simp
qed

lemma sanitize_loop_kept: "r \<in> set (sanitize_loop n rs) \<Longrightarrow> r \<in> set rs \<and> \<not> dropped_rune r"
  by (induction n rs rule: sanitize_loop.induct) (auto split: if_splits)

lemma sanitize_loop_length: "n < maxPeerStringLen \<Longrightarrow> n + length (sanitize_loop n rs) \<le> maxPeerStringLen"
  by (induction n rs rule: sanitize_loop.induct) auto

section \<open>Properties\<close>

text \<open>
  Assist codes survive being written down: a code the relay generates has the configured
  length, consists of letters of the unambiguous alphabet, and is recovered by the
  normalisation a helper's input goes through from either of the two printed forms, the relay's and
  the client's.
\<close>

theorem assist_code_round_trip:
  assumes "generateCode n draws = Some c" "\<forall>d \<in> set draws. \<forall>k. d = Some k \<longrightarrow> k < length charset"
  shows "length c = n \<and> set c \<subseteq> set charset \<and> normalizeCode (FormatCode c) = c \<and> normalizeCode (client_formatCode c) = c"
  using generateCode_spec [OF assms] normalize_format [of c] charset_clean by auto

theorem assist_code_round_trip_witness:
  "generateCode 6 (map Some [0, 52, 3, 9, 20, 30]) = Some ''A8DKXh'' \<and> FormatCode ''A8DKXh'' = ''A8DK-Xh'' \<and>
   normalizeCode (FormatCode ''A8DKXh'') = ''A8DKXh''"
proof -
  have g: "generateCode 6 (map Some [0, 52, 3, 9, 20, 30]) = Some ''A8DKXh''" by code_simp
  moreover have "FormatCode ''A8DKXh'' = ''A8DK-Xh''" by code_simp
  moreover have "length charset = 54" by code_simp
  ultimately show ?thesis
    using assist_code_round_trip [OF g] by simp
qed

text \<open>
  Peer-supplied display strings are bounded and free of ASCII control and format
  characters: what is kept is at most 120 runes, none below U+0020, none U+007F and none of
  category Cf (so no direction overrides or zero-width characters). C1 control characters are
  not removed: U+009B passes through.
\<close>

theorem sanitized_strings_bounded:
  "length (sanitize_runes s) \<le> 120 \<and> (\<forall>r. r \<in> set (sanitize_runes s) \<longrightarrow> 32 \<le> r \<and> r \<noteq> 127 \<and> \<not> IsCf r) \<and>
   155 \<in> set (sanitize_runes (map char_of [97, 194, 155, 98 :: nat]))"
proof -
  have "length (sanitize_runes s) \<le> 120"
    using sanitize_loop_length [of 0 "TrimSpace (runes s)"] by (simp add: sanitize_runes_def maxPeerStringLen_def)
  moreover have "32 \<le> r \<and> r \<noteq> 127 \<and> \<not> IsCf r" if "r \<in> set (sanitize_runes s)" for r
    using sanitize_loop_kept [of r 0 "TrimSpace (runes s)"] that by (auto simp: sanitize_runes_def dropped_rune_def)
  moreover have "sanitize_runes (map char_of [97, 194, 155, 98 :: nat]) = [97, 155, 98]"
  proof -
    have "runes (map char_of [97, 194, 155, 98 :: nat]) = [97, 155, 98]"
      by (simp add: runes_def runes_of.simps decode_rune_def cont_def)
    then show ?thesis
      by (simp add: sanitize_runes_def TrimSpace_def IsSpace_def dropped_rune_def IsCf_def cf_ranges_def maxPeerStringLen_def)
  qed
  ultimately show ?thesis by simp
qed

theorem sanitized_strings_bounded_witness:
  "length (sanitize_runes ''user@host'') \<le> 120"
  using sanitized_strings_bounded [of "''user@host''"] by simp

end
