(* ===== verification/Gostrings.thy ===== *)
theory Gostrings
  imports Relay_Code
begin

text \<open>
  The functions of Go's packages \<^verbatim>\<open>strings\<close> and \<^verbatim>\<open>strconv\<close> that the version, address and update
  code calls. A string is its list of bytes; functions that look at runes decode UTF-8 as the
  library does, and give back slices of the original bytes.

  Case conversion maps the letters A to Z and the two other runes whose lower case is an ASCII
  letter; the remaining runes, which every caller compares with ASCII text only, are left
  alone.
\<close>

section \<open>Definitions\<close>

definition HasPrefix :: "string \<Rightarrow> string \<Rightarrow> bool" where
  "HasPrefix s p = (take (length p) s = p)"

definition HasSuffix :: "string \<Rightarrow> string \<Rightarrow> bool" where
  "HasSuffix s p = (length p \<le> length s \<and> drop (length s - length p) s = p)"

definition TrimPrefix :: "string \<Rightarrow> string \<Rightarrow> string" where
  "TrimPrefix s p = (if HasPrefix s p then drop (length p) s else s)"

definition TrimSuffix :: "string \<Rightarrow> string \<Rightarrow> string" where
  "TrimSuffix s p = (if HasSuffix s p then take (length s - length p) s else s)"

text \<open>The encodings of the runes of White\_Space; none is empty.\<close>

definition space_bytes :: "string list" where
  "space_bytes = map (map char_of)
     ([[9], [10], [11], [12], [13], [32], [194, 133], [194, 160], [225, 154, 128 :: nat]] @
      map (\<lambda>b. [226, 128, b]) [128, 129, 130, 131, 132, 133, 134, 135, 136, 137, 138, 168, 169, 175] @
      [[226, 129, 159], [227, 128, 128]])"

lemma space_bytes_nonempty: "e \<in> set space_bytes \<Longrightarrow> e \<noteq> []"
  by (auto simp: space_bytes_def)

function trim_left :: "string \<Rightarrow> string" where
  "trim_left s = (case find (HasPrefix s) space_bytes of None \<Rightarrow> s | Some e \<Rightarrow> trim_left (drop (length e) s))"
  by pat_completeness auto
termination
proof (relation "measure length")
  fix s e assume "find (HasPrefix s) space_bytes = Some e"
  then have "e \<in> set space_bytes" "HasPrefix s e" by (auto simp: find_Some_iff)
  then have "e \<noteq> []" "take (length e) s = e" by (auto simp: space_bytes_nonempty HasPrefix_def)
  then have "s \<noteq> []" by (cases s) auto
  with \<open>e \<noteq> []\<close> show "(drop (length e) s, s) \<in> measure length" by simp
qed simp

declare trim_left.simps [simp del]

function trim_right :: "string \<Rightarrow> string" where
  "trim_right s = (case find (HasSuffix s) space_bytes of None \<Rightarrow> s | Some e \<Rightarrow> trim_right (take (length s - length e) s))"
  by pat_completeness auto
termination
proof (relation "measure length")
  fix s e assume "find (HasSuffix s) space_bytes = Some e"
  then have "e \<in> set space_bytes" "HasSuffix s e" by (auto simp: find_Some_iff)
  then have "0 < length e" "length e \<le> length s" by (auto simp: space_bytes_nonempty HasSuffix_def)
  then have "length s - length e < length s" by linarith
  then show "(take (length s - length e) s, s) \<in> measure length" by simp
qed simp

declare trim_right.simps [simp del]

definition strings_TrimSpace :: "string \<Rightarrow> string" where
  "strings_TrimSpace s = trim_right (trim_left s)"

definition is_digit :: "char \<Rightarrow> bool" where
  "is_digit c = (48 \<le> (of_char c :: nat) \<and> (of_char c :: nat) \<le> 57)"

definition is_hex_lower :: "char \<Rightarrow> bool" where
  "is_hex_lower c = (is_digit c \<or> 97 \<le> (of_char c :: nat) \<and> (of_char c :: nat) \<le> 102)"

fun split_on :: "char \<Rightarrow> string \<Rightarrow> string list" where
  "split_on d [] = [[]]"
| "split_on d (c # cs) = (if c = d then [] # split_on d cs else (c # hd (split_on d cs)) # tl (split_on d cs))"

definition digits_val :: "string \<Rightarrow> nat" where
  "digits_val s = foldl (\<lambda>acc c. acc * 10 + (of_char c - 48)) 0 s"

text \<open>\<open>strconv.Atoi\<close> on a 64-bit platform: an optional sign, digits, in range.\<close>

definition Atoi :: "string \<Rightarrow> int option" where
  "Atoi s =
     (let neg = (take 1 s = ''-''); ds = (if take 1 s = ''-'' \<or> take 1 s = ''+'' then drop 1 s else s)
      in if ds = [] \<or> \<not> list_all is_digit ds then None
         else let n = int (digits_val ds)
              in if neg then (if n \<le> 2 ^ 63 then Some (- n) else None)
                 else if n < 2 ^ 63 then Some n else None)"

text \<open>\<open>strings.NewReplacer(\<dots>).Replace\<close> for keys none of which starts another.\<close>

function replace_all :: "(string \<times> string) list \<Rightarrow> string \<Rightarrow> string" where
  "replace_all kvs [] = []"
| "replace_all kvs (c # cs) =
     (case find (\<lambda>(k, v). k \<noteq> [] \<and> HasPrefix (c # cs) k) kvs of
        None \<Rightarrow> c # replace_all kvs cs
      | Some (k, v) \<Rightarrow> v @ replace_all kvs (drop (length k) (c # cs)))"
  by pat_completeness auto
termination
proof (relation "measure (\<lambda>(kvs, s). length s)", simp, simp, clarsimp)
  fix kvs :: "(string \<times> string) list" and c cs k v
  assume "find (\<lambda>(k, v). k \<noteq> [] \<and> HasPrefix (c # cs) k) kvs = Some (k, v)"
  then have "k \<noteq> []" by (auto simp: find_Some_iff)
  then show "Suc (length cs) - length k < Suc (length cs)" by simp
qed

definition fold_rune :: "nat \<Rightarrow> nat" where
  "fold_rune r = (if 65 \<le> r \<and> r \<le> 90 then r + 32 else if r = 383 then 115 else if r = 8490 then 107 else r)"

definition lower_rune :: "nat \<Rightarrow> nat" where
  "lower_rune r = (if 65 \<le> r \<and> r \<le> 90 then r + 32 else if r = 304 then 105 else if r = 8490 then 107 else r)"

text \<open>\<open>strings.EqualFold\<close> with an ASCII text in lower case.\<close>

definition EqualFold :: "string \<Rightarrow> string \<Rightarrow> bool" where
  "EqualFold s t = (map fold_rune (runes s) = runes t)"

definition ToLower :: "string \<Rightarrow> string" where
  "ToLower s = concat (map (encode_rune \<circ> lower_rune) (runes s))"

function fields_from :: "string \<Rightarrow> string \<Rightarrow> string list" where
  "fields_from cur s =
     (if s = [] then (if cur = [] then [] else [cur])
      else let (r, w) = decode_rune (map of_char s)
           in if IsSpace r then (if cur = [] then [] else [cur]) @ fields_from [] (drop w s)
              else fields_from (cur @ take w s) (drop w s))"
  by pat_completeness auto
termination
  by (relation "measure (\<lambda>(cur, s). length s)") (auto simp: decode_rune_def Let_def split: if_splits)

declare fields_from.simps [simp del]

definition Fields :: "string \<Rightarrow> string list" where
  "Fields s = fields_from [] s"

definition contains_sub :: "string \<Rightarrow> string \<Rightarrow> bool" where
  "contains_sub s p = list_ex (\<lambda>i. HasPrefix (drop i s) p) [0..<Suc (length s)]"

section \<open>ASCII text\<close>

definition ascii :: "string \<Rightarrow> bool" where
  "ascii s = list_all (\<lambda>c. (of_char c :: nat) < 128) s"

lemma runes_Nil [simp]: "runes [] = []"
  by (simp add: runes_def runes_of.simps)

lemma runes_Cons_ascii: "(of_char c :: nat) < 128 \<Longrightarrow> runes (c # s) = of_char c # runes s"
  by (simp add: runes_def runes_of.simps [of "of_char c # map of_char s"] decode_rune_def)

lemma runes_ascii: "ascii s \<Longrightarrow> runes s = map of_char s"
  by (induction s) (auto simp: ascii_def runes_Cons_ascii)

lemma ascii_append [simp]: "ascii (a @ b) \<longleftrightarrow> ascii a \<and> ascii b"
  by (simp add: ascii_def)

text \<open>Text that starts and ends with a printable ASCII character is left alone by \<open>TrimSpace\<close>.\<close>

definition solid :: "char \<Rightarrow> bool" where
  "solid c = (32 < (of_char c :: nat) \<and> (of_char c :: nat) < 128)"

lemma space_bytes_not_solid: "e \<in> set space_bytes \<Longrightarrow> \<not> solid (hd e) \<and> \<not> solid (last e)"
  by (auto simp: space_bytes_def solid_def)

lemma trim_left_solid: "s \<noteq> [] \<Longrightarrow> solid (hd s) \<Longrightarrow> trim_left s = s"
proof -
  assume s: "s \<noteq> []" "solid (hd s)"
  have "\<not> HasPrefix s e" if "e \<in> set space_bytes" for e
    using that s space_bytes_nonempty [OF that] space_bytes_not_solid [OF that]
    by (metis HasPrefix_def hd_take length_greater_0_conv)
  then have "find (HasPrefix s) space_bytes = None" by (auto simp: find_None_iff)
  then show "trim_left s = s" by (simp add: trim_left.simps)
qed

lemma trim_right_solid: "s \<noteq> [] \<Longrightarrow> solid (last s) \<Longrightarrow> trim_right s = s"
proof -
  assume s: "s \<noteq> []" "solid (last s)"
  have "\<not> HasSuffix s e" if e: "e \<in> set space_bytes" for e
  proof
    assume h: "HasSuffix s e"
    then have "drop (length s - length e) s = e" by (simp add: HasSuffix_def)
    moreover have "length s - length e < length s"
      using s space_bytes_nonempty [OF e] by (simp add: diff_less)
    ultimately have "last s = last e" by (metis last_drop)
    with s space_bytes_not_solid [OF e] show False by simp
  qed
  then have "find (HasSuffix s) space_bytes = None" by (auto simp: find_None_iff)
  then show "trim_right s = s" by (simp add: trim_right.simps)
qed

lemma TrimSpace_solid: "s \<noteq> [] \<Longrightarrow> solid (hd s) \<Longrightarrow> solid (last s) \<Longrightarrow> strings_TrimSpace s = s"
  by (simp add: strings_TrimSpace_def trim_left_solid trim_right_solid)

lemma split_on_ne [simp]: "split_on d s \<noteq> []"
  by (cases s) auto

lemma digits_only_ascii: "list_all is_digit s \<Longrightarrow> ascii s"
  by (auto simp: ascii_def list_all_iff is_digit_def)

end
