(* ===== verification/Stun_Race.thy ===== *)
theory Stun_Race
  imports Gostrings Netaddr
begin

text \<open>
  The candidate STUN servers of a client, \<^verbatim>\<open>internal/p2p/stun_race.go\<close>: the check of an address
  learnt from the relay and the merge of configured, advertised and built-in servers. The
  race of the candidates itself is in \<open>Stun_Discover\<close>.
\<close>

section \<open>Checking an address\<close>

text \<open>\<open>strconv.ParseUint(label, 0, 32)\<close>: does it succeed? Underscores as base 0 allows them.\<close>

definition base_digits :: "string \<Rightarrow> nat \<times> string" where
  "base_digits s =
     (if HasPrefix s ''0'' then
        (if length s \<ge> 3 \<and> s ! 1 \<in> {CHR ''b'', CHR ''B''} then (2, drop 2 s)
         else if length s \<ge> 3 \<and> s ! 1 \<in> {CHR ''o'', CHR ''O''} then (8, drop 2 s)
         else if length s \<ge> 3 \<and> s ! 1 \<in> {CHR ''x'', CHR ''X''} then (16, drop 2 s)
         else (8, drop 1 s))
      else (10, s))"

definition digit_in :: "nat \<Rightarrow> char \<Rightarrow> nat option" where
  "digit_in base c =
     (case hex_val c of None \<Rightarrow> None | Some d \<Rightarrow> if d < base then Some d else None)"

fun uint_loop :: "nat \<Rightarrow> nat \<Rightarrow> string \<Rightarrow> nat option" where
  "uint_loop base acc [] = Some acc"
| "uint_loop base acc (c # cs) =
     (if c = CHR ''_'' then uint_loop base acc cs
      else case digit_in base c of
             None \<Rightarrow> None
           | Some d \<Rightarrow> if acc * base + d < 2 ^ 32 then uint_loop base (acc * base + d) cs else None)"

text \<open>\<open>underscoreOK\<close>: an underscore stands between digits or after the base prefix.\<close>

fun underscore_loop :: "bool \<Rightarrow> char \<Rightarrow> string \<Rightarrow> bool" where
  "underscore_loop hex i [] = (i \<noteq> CHR ''_'')"
| "underscore_loop hex i (c # cs) =
     (if is_digit c \<or> hex \<and> (97 \<le> (of_char c :: nat) \<and> (of_char c :: nat) \<le> 102 \<or> 65 \<le> (of_char c :: nat) \<and> (of_char c :: nat) \<le> 70)
      then underscore_loop hex (CHR ''0'') cs
      else if c = CHR ''_'' then (i = CHR ''0'' \<and> underscore_loop hex (CHR ''_'') cs)
      else i \<noteq> CHR ''_'' \<and> underscore_loop hex (CHR ''!'') cs)"

definition underscoreOK :: "string \<Rightarrow> bool" where
  "underscoreOK s =
     (if length s \<ge> 2 \<and> s ! 0 = CHR ''0'' \<and> s ! 1 \<in> {CHR ''b'', CHR ''B'', CHR ''o'', CHR ''O'', CHR ''x'', CHR ''X''}
      then underscore_loop (s ! 1 \<in> {CHR ''x'', CHR ''X''}) (CHR ''0'') (drop 2 s)
      else underscore_loop False (CHR ''^'') s)"

definition ParseUint32 :: "string \<Rightarrow> nat option" where
  "ParseUint32 s =
     (if s = [] then None
      else case uint_loop (fst (base_digits s)) 0 (snd (base_digits s)) of
             None \<Rightarrow> None
           | Some n \<Rightarrow> if CHR ''_'' \<in> set s \<and> \<not> underscoreOK s then None else Some n)"

definition inetAtonForm :: "string \<Rightarrow> bool" where
  "inetAtonForm host = list_all (\<lambda>label. ParseUint32 label \<noteq> None) (split_on (CHR ''.'') host)"

definition ip_To4 :: "bytes \<Rightarrow> bytes option" where
  "ip_To4 ip =
     (if length ip = 4 then Some ip
      else if length ip = 16 \<and> take 12 ip = replicate 10 0 @ [255, 255] then Some (drop 12 ip)
      else None)"

definition v4_unusable :: "bytes \<Rightarrow> bool" where
  "v4_unusable v4 =
     (v4 ! 0 = 127 \<or> v4 = [0, 0, 0, 0] \<or> v4 ! 0 = 0 \<or> (v4 ! 0 = 169 \<and> v4 ! 1 = 254) \<or>
      (224 \<le> v4 ! 0 \<and> v4 ! 0 \<le> 239) \<or> 240 \<le> v4 ! 0)"

definition host_char :: "char \<Rightarrow> bool" where
  "host_char c = (let r = of_char c :: nat in 97 \<le> r \<and> r \<le> 122 \<or> 65 \<le> r \<and> r \<le> 90 \<or> 48 \<le> r \<and> r \<le> 57 \<or> r = 46 \<or> r = 45)"

text \<open>True where \<open>CheckSTUNServer\<close> returns nil.\<close>

definition CheckSTUNServer :: "string \<Rightarrow> bool" where
  "CheckSTUNServer s =
     (case SplitHostPort s of
        None \<Rightarrow> False
      | Some (host, port) \<Rightarrow>
          if host = [] \<or> length s > 255 then False
          else case Atoi port of
                 None \<Rightarrow> False
               | Some n \<Rightarrow>
                   if n < 1 \<or> n > 65535 \<or> dropWhile is_digit port \<noteq> [] then False
                   else case ParseIP host of
                          Some ip \<Rightarrow>
                            (case ip_To4 ip of
                               None \<Rightarrow> False
                             | Some v4 \<Rightarrow> CHR '':'' \<notin> set host \<and> \<not> v4_unusable v4)
                        | None \<Rightarrow>
                            let lower = ToLower (TrimSuffix host ''.'')
                            in if lower = ''localhost'' \<or> HasSuffix lower ''.localhost'' then False
                               else if dropWhile is_digit (last (split_on (CHR ''.'') lower)) = [] \<or> inetAtonForm lower then False
                               else list_all host_char host)"

section \<open>Merging candidates\<close>

definition FallbackSTUNServers :: "string list" where
  "FallbackSTUNServers =
     [''stun.chat.bilibili.com:3478'', ''stun.miwifi.com:3478'', ''stun.cloudflare.com:3478'', ''stun.l.google.com:19302'']"

definition maxAdvertisedSTUN :: nat where
  "maxAdvertisedSTUN = 4"

definition maxSTUNCandidates :: nat where
  "maxSTUNCandidates = 9"

text \<open>The closure \<open>add\<close>; the map \<open>seen\<close> holds exactly the entries of \<open>out\<close>.\<close>

definition stun_add :: "string \<Rightarrow> string list \<Rightarrow> string list" where
  "stun_add s0 out =
     (let s = strings_TrimSpace s0
      in if s = [] \<or> s \<in> set out \<or> length out \<ge> maxSTUNCandidates then out else out @ [s])"

fun add_advertised :: "nat \<Rightarrow> string list \<Rightarrow> string list \<Rightarrow> string list" where
  "add_advertised taken [] out = out"
| "add_advertised taken (s # ss) out =
     (if taken \<ge> maxAdvertisedSTUN then out
      else let t = strings_TrimSpace s
           in if CheckSTUNServer t then add_advertised (taken + 1) ss (stun_add t out)
              else add_advertised taken ss out)"

definition MergeSTUNCandidates :: "string \<Rightarrow> string list \<Rightarrow> string list \<Rightarrow> string list" where
  "MergeSTUNCandidates configured advertised fb =
     fold stun_add fb (add_advertised 0 advertised (stun_add configured []))"

section \<open>Lemmas\<close>

lemma stun_add_cases:
  "stun_add s out = out \<or> stun_add s out = out @ [strings_TrimSpace s]"
  by (simp add: stun_add_def Let_def)

lemma stun_add_distinct: "distinct out \<Longrightarrow> distinct (stun_add s out)"
  by (simp add: stun_add_def Let_def)

lemma stun_add_length: "length (stun_add s out) \<le> length out + 1"
  using stun_add_cases [of s out] by auto

lemma stun_add_mono: "set out \<subseteq> set (stun_add s out)"
  using stun_add_cases [of s out] by auto

lemma stun_add_mem:
  "length out < maxSTUNCandidates \<Longrightarrow> strings_TrimSpace s \<noteq> [] \<Longrightarrow> strings_TrimSpace s \<in> set (stun_add s out)"
  by (simp add: stun_add_def Let_def)

lemma fold_add:
  "distinct out \<Longrightarrow> distinct (fold stun_add ss out) \<and> length (fold stun_add ss out) \<le> length out + length ss \<and>
   (\<exists>ys. fold stun_add ss out = out @ ys \<and> set ys \<subseteq> strings_TrimSpace ` set ss)"
proof (induction ss arbitrary: out)
  case (Cons s ss)
  obtain xs where xs: "stun_add s out = out @ xs" "set xs \<subseteq> {strings_TrimSpace s}"
    using stun_add_cases [of s out] by auto
  obtain ys where "fold stun_add ss (stun_add s out) = stun_add s out @ ys" "set ys \<subseteq> strings_TrimSpace ` set ss"
    using Cons.IH [of "stun_add s out"] stun_add_distinct [OF Cons.prems] by blast
  with xs have "fold stun_add (s # ss) out = out @ xs @ ys \<and> set (xs @ ys) \<subseteq> strings_TrimSpace ` set (s # ss)" by auto
  moreover have "length (fold stun_add (s # ss) out) \<le> length out + length (s # ss)" "distinct (fold stun_add (s # ss) out)"
    using Cons.IH [of "stun_add s out"] stun_add_distinct [OF Cons.prems] stun_add_length [of s out] by auto
  ultimately show ?case by blast
qed simp

definition advertised_ok :: "string list \<Rightarrow> string \<Rightarrow> bool" where
  "advertised_ok ss y = (\<exists>s \<in> set ss. CheckSTUNServer (strings_TrimSpace s) \<and> y = strings_TrimSpace (strings_TrimSpace s))"

lemma advertised_ok_Cons: "advertised_ok ss y \<Longrightarrow> advertised_ok (s # ss) y"
  by (auto simp: advertised_ok_def)

lemma add_advertised_spec:
  "distinct out \<Longrightarrow> taken \<le> maxAdvertisedSTUN \<Longrightarrow>
   distinct (add_advertised taken ss out) \<and>
   length (add_advertised taken ss out) + taken \<le> length out + maxAdvertisedSTUN \<and>
   (\<exists>ys. add_advertised taken ss out = out @ ys \<and> (\<forall>y \<in> set ys. advertised_ok ss y))"
proof (induction taken ss out rule: add_advertised.induct)
  case (2 taken s ss out)
  let ?t = "strings_TrimSpace s"
  consider "taken \<ge> maxAdvertisedSTUN" | "taken < maxAdvertisedSTUN" "CheckSTUNServer ?t"
    | "taken < maxAdvertisedSTUN" "\<not> CheckSTUNServer ?t" by linarith
  then show ?case
  proof cases
    case 2
    have ih: "distinct (add_advertised (taken + 1) ss (stun_add ?t out)) \<and>
       length (add_advertised (taken + 1) ss (stun_add ?t out)) + (taken + 1) \<le> length (stun_add ?t out) + maxAdvertisedSTUN \<and>
       (\<exists>ys. add_advertised (taken + 1) ss (stun_add ?t out) = stun_add ?t out @ ys \<and>
          (\<forall>y \<in> set ys. advertised_ok ss y))"
      by (rule "2.IH"(1)) (use 2 "2.prems" stun_add_distinct in auto)
    have "\<exists>ys. stun_add ?t out = out @ ys \<and> (\<forall>y \<in> set ys. advertised_ok (s # ss) y)"
      using stun_add_cases [of ?t out] 2(2) by (fastforce simp: advertised_ok_def)
    with ih obtain ys zs where "add_advertised (taken + 1) ss (stun_add ?t out) = out @ ys @ zs"
      "\<forall>y \<in> set (ys @ zs). advertised_ok (s # ss) y"
      using advertised_ok_Cons by fastforce
    then show ?thesis
      using ih 2 stun_add_length [of ?t out] by (auto simp: Let_def)
  next
    case 3
    then have "add_advertised taken (s # ss) out = add_advertised taken ss out" by (simp add: Let_def)
    then show ?thesis using 3 "2.IH"(2) "2.prems" advertised_ok_Cons by (fastforce simp: Let_def)
  qed (use "2.prems" in auto)
qed simp

lemma fold_add_mem:
  "length out + length ss \<le> maxSTUNCandidates \<Longrightarrow> s \<in> set ss \<Longrightarrow> strings_TrimSpace s \<noteq> [] \<Longrightarrow>
   strings_TrimSpace s \<in> set (fold stun_add ss out)"
proof (induction ss arbitrary: out)
  case (Cons a ss)
  show ?case
  proof (cases "s = a")
    case True
    have "strings_TrimSpace s \<in> set (stun_add a out)"
      using stun_add_mem [of out a] Cons.prems True by simp
    moreover have "set (stun_add a out) \<subseteq> set (fold stun_add ss (stun_add a out))"
    proof -
      have mono: "set o1 \<subseteq> set (fold stun_add xs o1)" for xs o1
        by (induction xs arbitrary: o1) (use stun_add_mono in fastforce)+
      show ?thesis by (rule mono)
    qed
    ultimately show ?thesis by auto
  next
    case False
    then show ?thesis
      using Cons.IH [of "stun_add a out"] Cons.prems stun_add_length [of a out] by simp
  qed
qed simp

section \<open>Properties\<close>

text \<open>
  The candidates a client races are distinct, start with the configured server, never
  number more than nine, and no list the relay sends squeezes out a built-in server: with at
  most four of those, each is a candidate, whatever is configured and advertised. Every
  candidate beyond the configured and the built-in ones passed the address check.
\<close>

theorem stun_candidates_keep_fallback:
  assumes "length fb \<le> 4"
  shows "distinct (MergeSTUNCandidates conf adv fb) \<and> length (MergeSTUNCandidates conf adv fb) \<le> 9 \<and>
    (strings_TrimSpace conf \<noteq> [] \<longrightarrow> hd (MergeSTUNCandidates conf adv fb) = strings_TrimSpace conf) \<and>
    (\<forall>s. s \<in> set fb \<longrightarrow> strings_TrimSpace s \<noteq> [] \<longrightarrow> strings_TrimSpace s \<in> set (MergeSTUNCandidates conf adv fb)) \<and>
    (\<forall>x. x \<in> set (MergeSTUNCandidates conf adv fb) \<longrightarrow>
       x = strings_TrimSpace conf \<or> advertised_ok adv x \<or> x \<in> strings_TrimSpace ` set fb)"
proof -
  let ?c = "stun_add conf []"
  let ?a = "add_advertised 0 adv ?c"
  have c: "distinct ?c" "length ?c \<le> 1" using stun_add_distinct [of "[]"] stun_add_length [of conf "[]"] by auto
  have a: "distinct ?a" "length ?a \<le> length ?c + 4" "\<exists>ys. ?a = ?c @ ys \<and> (\<forall>y \<in> set ys. advertised_ok adv y)"
    using add_advertised_spec [OF c(1), of 0 adv] by (auto simp: maxAdvertisedSTUN_def)
  have f: "distinct (fold stun_add fb ?a)" "length (fold stun_add fb ?a) \<le> length ?a + length fb"
    "\<exists>ys. fold stun_add fb ?a = ?a @ ys \<and> set ys \<subseteq> strings_TrimSpace ` set fb"
    using fold_add [OF a(1)] by blast+
  have "strings_TrimSpace conf \<noteq> [] \<Longrightarrow> ?c = [strings_TrimSpace conf]"
    by (simp add: stun_add_def maxSTUNCandidates_def)
  then have "strings_TrimSpace conf \<noteq> [] \<longrightarrow> hd (MergeSTUNCandidates conf adv fb) = strings_TrimSpace conf"
    using a(3) f(3) by (auto simp: MergeSTUNCandidates_def)
  moreover have "x = strings_TrimSpace conf \<or> advertised_ok adv x \<or> x \<in> strings_TrimSpace ` set fb"
    if "x \<in> set (MergeSTUNCandidates conf adv fb)" for x
  proof -
    have "set ?c \<subseteq> {strings_TrimSpace conf}" using stun_add_cases [of conf "[]"] by auto
    with that a(3) f(3) show ?thesis by (auto simp: MergeSTUNCandidates_def)
  qed
  moreover have "length ?a + length fb \<le> maxSTUNCandidates"
    using a(2) c(2) assms by (simp add: maxSTUNCandidates_def)
  ultimately show ?thesis
    using f(1,2) fold_add_mem [of ?a fb] unfolding MergeSTUNCandidates_def maxSTUNCandidates_def by fastforce
qed

theorem stun_candidates_keep_fallback_witness:
  "length (MergeSTUNCandidates ''relay.example:3478'' [''a.example:1'', ''b.example:2''] FallbackSTUNServers) \<le> 9 \<and>
   strings_TrimSpace ''stun.l.google.com:19302'' \<in>
     set (MergeSTUNCandidates ''relay.example:3478'' [''a.example:1'', ''b.example:2''] FallbackSTUNServers)"
proof -
  have l: "length FallbackSTUNServers \<le> 4" by (simp add: FallbackSTUNServers_def)
  have "strings_TrimSpace ''stun.l.google.com:19302'' \<noteq> []" by (simp add: TrimSpace_solid solid_def)
  moreover have "''stun.l.google.com:19302'' \<in> set FallbackSTUNServers" by (simp add: FallbackSTUNServers_def)
  ultimately show ?thesis
    using stun_candidates_keep_fallback [OF l, of "''relay.example:3478''" "[''a.example:1'', ''b.example:2'']"] by blast
qed

end
