(* ===== verification/Relay_Limits.thy ===== *)
theory Relay_Limits
  imports P2P_Limits
begin

text \<open>
  The capacity limits of the relay, \<^verbatim>\<open>internal/relay/limits.go\<close>, with the constants of
  \<^verbatim>\<open>internal/relay/server.go\<close> they default to. Rates are rationals, counts integers; reading
  limits from JSON is not modelled.
\<close>

definition maxMessageSize :: int where "maxMessageSize = 4 * 1024 * 1024"
definition toolMinFrameCostKiB :: rat where "toolMinFrameCostKiB = 16"
definition toolThrottleMaxWait :: int where "toolThrottleMaxWait = 2 * second"
definition toolThrottleStep :: int where "toolThrottleStep = 20 * millisecond"

record relay_Limits =
  rl_MaxConnectionsTotal :: int
  rl_MaxConnectionsPerIP :: int
  rl_MaxJoinFailures :: int
  rl_JoinRatePerIP :: rat
  rl_JoinBurstPerIP :: rat
  rl_JoinRateGlobal :: rat
  rl_JoinBurstGlobal :: rat
  rl_RejectAuditSampleEvery :: "64 word"
  rl_CreateRatePerIP :: rat
  rl_CreateBurstPerIP :: rat
  rl_CreateRateGlobal :: rat
  rl_CreateBurstGlobal :: rat
  rl_MaxActiveSessionsPerIP :: int
  rl_MaxActiveSessionsTotal :: int
  rl_HeartbeatRatePerIP :: rat
  rl_HeartbeatBurstPerIP :: rat
  rl_HeartbeatRateGlobal :: rat
  rl_HeartbeatBurstGlobal :: rat
  rl_DataRatePerConnection :: rat
  rl_DataBurstPerConnection :: rat
  rl_DataRateGlobal :: rat
  rl_DataBurstGlobal :: rat
  rl_ToolRateKiBPerConnection :: rat
  rl_ToolBurstKiBPerConnection :: rat
  rl_ToolRateKiBGlobal :: rat
  rl_ToolBurstKiBGlobal :: rat
  rl_ControlRatePerConnection :: rat
  rl_ControlBurstPerConnection :: rat
  rl_ControlRateGlobal :: rat
  rl_ControlBurstGlobal :: rat
  rl_LimiterMaxKeys :: int
  rl_LimiterIdleSeconds :: int
  rl_UDP :: p2p_Limits

definition relay_DefaultLimits :: relay_Limits where
  "relay_DefaultLimits =
     \<lparr>rl_MaxConnectionsTotal = 2000,
      rl_MaxConnectionsPerIP = 128,
      rl_MaxJoinFailures = 5,
      rl_JoinRatePerIP = 5,
      rl_JoinBurstPerIP = 20,
      rl_JoinRateGlobal = 200,
      rl_JoinBurstGlobal = 400,
      rl_RejectAuditSampleEvery = 1000,
      rl_CreateRatePerIP = 2,
      rl_CreateBurstPerIP = 10,
      rl_CreateRateGlobal = 100,
      rl_CreateBurstGlobal = 200,
      rl_MaxActiveSessionsPerIP = 10,
      rl_MaxActiveSessionsTotal = 5000,
      rl_HeartbeatRatePerIP = 10,
      rl_HeartbeatBurstPerIP = 20,
      rl_HeartbeatRateGlobal = 500,
      rl_HeartbeatBurstGlobal = 1000,
      rl_DataRatePerConnection = 100,
      rl_DataBurstPerConnection = 200,
      rl_DataRateGlobal = 5000,
      rl_DataBurstGlobal = 10000,
      rl_ToolRateKiBPerConnection = 16384,
      rl_ToolBurstKiBPerConnection = 32768,
      rl_ToolRateKiBGlobal = 131072,
      rl_ToolBurstKiBGlobal = 262144,
      rl_ControlRatePerConnection = 2,
      rl_ControlBurstPerConnection = 5,
      rl_ControlRateGlobal = 1000,
      rl_ControlBurstGlobal = 2000,
      rl_LimiterMaxKeys = 8192,
      rl_LimiterIdleSeconds = 600,
      rl_UDP = p2p_DefaultLimits\<rparr>"

definition zero_p2p_Limits :: p2p_Limits where
  "zero_p2p_Limits =
     \<lparr>WorkerCount = 0, TaskQueueDepth = 0, PacketsPerIPRate = 0, PacketsPerIPBurst = 0,
      PacketsGlobalRate = 0, PacketsGlobalBurst = 0, LimiterMaxKeys = 0,
      LimiterIdleSeconds = 0, MaxRelaySessionsTotal = 0, MaxRelaySessionsPerIP = 0,
      RelayBytesPerSession = 0, RelayBytesBurstSession = 0,
      RelayBytesGlobal = 0, RelayBytesBurstGlobal = 0, InvalidLogSampleEvery = 0\<rparr>"

definition relay_normalizeLimits :: "relay_Limits \<Rightarrow> relay_Limits" where
  "relay_normalizeLimits l =
     (let d = relay_DefaultLimits
      in \<lparr>rl_MaxConnectionsTotal = dflt (rl_MaxConnectionsTotal d) (rl_MaxConnectionsTotal l),
          rl_MaxConnectionsPerIP = dflt (rl_MaxConnectionsPerIP d) (rl_MaxConnectionsPerIP l),
          rl_MaxJoinFailures = dflt (rl_MaxJoinFailures d) (rl_MaxJoinFailures l),
          rl_JoinRatePerIP = dflt (rl_JoinRatePerIP d) (rl_JoinRatePerIP l),
          rl_JoinBurstPerIP = dflt (rl_JoinBurstPerIP d) (rl_JoinBurstPerIP l),
          rl_JoinRateGlobal = dflt (rl_JoinRateGlobal d) (rl_JoinRateGlobal l),
          rl_JoinBurstGlobal = dflt (rl_JoinBurstGlobal d) (rl_JoinBurstGlobal l),
          rl_RejectAuditSampleEvery = dflt (rl_RejectAuditSampleEvery d) (rl_RejectAuditSampleEvery l),
          rl_CreateRatePerIP = dflt (rl_CreateRatePerIP d) (rl_CreateRatePerIP l),
          rl_CreateBurstPerIP = dflt (rl_CreateBurstPerIP d) (rl_CreateBurstPerIP l),
          rl_CreateRateGlobal = dflt (rl_CreateRateGlobal d) (rl_CreateRateGlobal l),
          rl_CreateBurstGlobal = dflt (rl_CreateBurstGlobal d) (rl_CreateBurstGlobal l),
          rl_MaxActiveSessionsPerIP = dflt (rl_MaxActiveSessionsPerIP d) (rl_MaxActiveSessionsPerIP l),
          rl_MaxActiveSessionsTotal = dflt (rl_MaxActiveSessionsTotal d) (rl_MaxActiveSessionsTotal l),
          rl_HeartbeatRatePerIP = dflt (rl_HeartbeatRatePerIP d) (rl_HeartbeatRatePerIP l),
          rl_HeartbeatBurstPerIP = dflt (rl_HeartbeatBurstPerIP d) (rl_HeartbeatBurstPerIP l),
          rl_HeartbeatRateGlobal = dflt (rl_HeartbeatRateGlobal d) (rl_HeartbeatRateGlobal l),
          rl_HeartbeatBurstGlobal = dflt (rl_HeartbeatBurstGlobal d) (rl_HeartbeatBurstGlobal l),
          rl_DataRatePerConnection = dflt (rl_DataRatePerConnection d) (rl_DataRatePerConnection l),
          rl_DataBurstPerConnection = dflt (rl_DataBurstPerConnection d) (rl_DataBurstPerConnection l),
          rl_DataRateGlobal = dflt (rl_DataRateGlobal d) (rl_DataRateGlobal l),
          rl_DataBurstGlobal = dflt (rl_DataBurstGlobal d) (rl_DataBurstGlobal l),
          rl_ToolRateKiBPerConnection = dflt (rl_ToolRateKiBPerConnection d) (rl_ToolRateKiBPerConnection l),
          rl_ToolBurstKiBPerConnection = dflt (rl_ToolBurstKiBPerConnection d) (rl_ToolBurstKiBPerConnection l),
          rl_ToolRateKiBGlobal = dflt (rl_ToolRateKiBGlobal d) (rl_ToolRateKiBGlobal l),
          rl_ToolBurstKiBGlobal = dflt (rl_ToolBurstKiBGlobal d) (rl_ToolBurstKiBGlobal l),
          rl_ControlRatePerConnection = dflt (rl_ControlRatePerConnection d) (rl_ControlRatePerConnection l),
          rl_ControlBurstPerConnection = dflt (rl_ControlBurstPerConnection d) (rl_ControlBurstPerConnection l),
          rl_ControlRateGlobal = dflt (rl_ControlRateGlobal d) (rl_ControlRateGlobal l),
          rl_ControlBurstGlobal = dflt (rl_ControlBurstGlobal d) (rl_ControlBurstGlobal l),
          rl_LimiterMaxKeys = dflt (rl_LimiterMaxKeys d) (rl_LimiterMaxKeys l),
          rl_LimiterIdleSeconds = dflt (rl_LimiterIdleSeconds d) (rl_LimiterIdleSeconds l),
          rl_UDP = (if rl_UDP l = zero_p2p_Limits then rl_UDP d else rl_UDP l)\<rparr>)"

definition relay_checks :: "relay_Limits \<Rightarrow> (string \<times> rat) list" where
  "relay_checks l =
     [(''max_connections_total'', of_int (rl_MaxConnectionsTotal l)),
      (''max_connections_per_ip'', of_int (rl_MaxConnectionsPerIP l)),
      (''max_join_failures'', of_int (rl_MaxJoinFailures l)),
      (''join_rate_per_ip'', rl_JoinRatePerIP l),
      (''join_burst_per_ip'', rl_JoinBurstPerIP l),
      (''join_rate_global'', rl_JoinRateGlobal l),
      (''join_burst_global'', rl_JoinBurstGlobal l),
      (''reject_audit_sample_every'', of_nat (unat (rl_RejectAuditSampleEvery l))),
      (''create_rate_per_ip'', rl_CreateRatePerIP l),
      (''create_burst_per_ip'', rl_CreateBurstPerIP l),
      (''create_rate_global'', rl_CreateRateGlobal l),
      (''create_burst_global'', rl_CreateBurstGlobal l),
      (''max_active_sessions_per_ip'', of_int (rl_MaxActiveSessionsPerIP l)),
      (''max_active_sessions_total'', of_int (rl_MaxActiveSessionsTotal l)),
      (''heartbeat_rate_per_ip'', rl_HeartbeatRatePerIP l),
      (''heartbeat_burst_per_ip'', rl_HeartbeatBurstPerIP l),
      (''heartbeat_rate_global'', rl_HeartbeatRateGlobal l),
      (''heartbeat_burst_global'', rl_HeartbeatBurstGlobal l),
      (''data_rate_per_connection'', rl_DataRatePerConnection l),
      (''data_burst_per_connection'', rl_DataBurstPerConnection l),
      (''data_rate_global'', rl_DataRateGlobal l),
      (''data_burst_global'', rl_DataBurstGlobal l),
      (''tool_rate_kib_per_connection'', rl_ToolRateKiBPerConnection l),
      (''tool_burst_kib_per_connection'', rl_ToolBurstKiBPerConnection l),
      (''tool_rate_kib_global'', rl_ToolRateKiBGlobal l),
      (''tool_burst_kib_global'', rl_ToolBurstKiBGlobal l),
      (''control_rate_per_connection'', rl_ControlRatePerConnection l),
      (''control_burst_per_connection'', rl_ControlBurstPerConnection l),
      (''control_rate_global'', rl_ControlRateGlobal l),
      (''control_burst_global'', rl_ControlBurstGlobal l),
      (''limiter_max_keys'', of_int (rl_LimiterMaxKeys l)),
      (''limiter_idle_seconds'', of_int (rl_LimiterIdleSeconds l))]"

text \<open>The first complaint of \<open>ValidateLimits\<close>, if any.\<close>

datatype limit_error = NotPositive string | TooSmall string | UDPNotPositive string

definition maxFrameKiB :: rat where
  "maxFrameKiB = of_int maxMessageSize / 1024"

definition relay_ValidateLimits :: "relay_Limits \<Rightarrow> limit_error option" where
  "relay_ValidateLimits l =
     (case find (\<lambda>c. snd c \<le> 0) (relay_checks l) of
        Some (n, _) \<Rightarrow> Some (NotPositive n)
      | None \<Rightarrow>
          (case find (\<lambda>c. snd c < maxFrameKiB)
                  [(''tool_burst_kib_per_connection'', rl_ToolBurstKiBPerConnection l),
                   (''tool_burst_kib_global'', rl_ToolBurstKiBGlobal l)] of
             Some (n, _) \<Rightarrow> Some (TooSmall n)
           | None \<Rightarrow> map_option UDPNotPositive (p2p_ValidateLimits (rl_UDP l))))"

lemma relay_validated:
  assumes "relay_ValidateLimits l = None"
  shows "\<forall>c \<in> set (relay_checks l). 0 < snd c" "maxFrameKiB \<le> rl_ToolBurstKiBPerConnection l"
    "maxFrameKiB \<le> rl_ToolBurstKiBGlobal l" "p2p_ValidateLimits (rl_UDP l) = None"
  using assms
  by (auto simp: relay_ValidateLimits_def find_None_iff not_le not_less split: option.splits if_splits)

lemma zero_UDP_invalid: "p2p_ValidateLimits zero_p2p_Limits \<noteq> None"
  by (simp add: p2p_ValidateLimits_def p2p_checks_def zero_p2p_Limits_def)

lemma normalize_idem: "relay_normalizeLimits (relay_normalizeLimits l) = relay_normalizeLimits l"
proof -
  have "p2p_DefaultLimits \<noteq> zero_p2p_Limits" by (simp add: p2p_DefaultLimits_def zero_p2p_Limits_def)
  then show ?thesis by (simp add: relay_normalizeLimits_def relay_DefaultLimits_def Let_def)
qed

end
