(* ===== verification/Update.thy ===== *)
theory Update
  imports Gostrings
begin

text \<open>
  Version comparison and update notices: \<^verbatim>\<open>internal/update/update.go\<close>. Texts outside ASCII are
  written as their UTF-8 bytes. The lemmas show that versions are compared lexicographically
  and that whatever the relay sends, the link of a notice is a safe https URL.
\<close>

section \<open>Versions\<close>

definition DefaultDownloadURL :: string where
  "DefaultDownloadURL = ''https://github.com/kegechen/remote-assist-tool/releases/download/{version}/remote-assist-cli-{os}-{arch}{ext}''"

definition DefaultReleasePage :: string where
  "DefaultReleasePage = ''https://github.com/kegechen/remote-assist-tool/releases/tag/{version}''"

definition releasedPlatforms :: "string list" where
  "releasedPlatforms = [''windows/amd64'', ''windows/arm64'', ''linux/amd64'', ''linux/arm64'', ''darwin/amd64'', ''darwin/arm64'']"

text \<open>The regular expression \<^verbatim>\<open>^-\d+-g[0-9a-f]+(-dirty)?$\<close>.\<close>

definition describeSuffix :: "string \<Rightarrow> bool" where
  "describeSuffix s =
     (let r1 = drop 1 s; r2 = dropWhile is_digit r1; r3 = drop 2 r2
      in HasPrefix s ''-'' \<and> takeWhile is_digit r1 \<noteq> [] \<and> HasPrefix r2 ''-g'' \<and>
         takeWhile is_hex_lower r3 \<noteq> [] \<and> dropWhile is_hex_lower r3 \<in> {[], ''-dirty''})"

record version =
  ver_num :: "int list"
  ver_pre :: bool

definition part_val :: "string \<Rightarrow> int option" where
  "part_val p =
     (case Atoi p of
        None \<Rightarrow> None
      | Some n \<Rightarrow> if n < 0 \<or> p = [] \<or> (length p > 1 \<and> hd p = CHR ''0'') then None else Some n)"

text \<open>\<open>parse\<close>: the version and its suffix, \<open>None\<close> for a failure.\<close>

definition parse :: "string \<Rightarrow> (version \<times> string) option" where
  "parse s0 =
     (let s = TrimPrefix (TrimPrefix (strings_TrimSpace s0) ''v'') ''V'';
          core = takeWhile (\<lambda>c. c \<noteq> CHR ''-'' \<and> c \<noteq> CHR ''+'') s;
          suffix = dropWhile (\<lambda>c. c \<noteq> CHR ''-'' \<and> c \<noteq> CHR ''+'') s;
          parts = split_on (CHR ''.'') core;
          vals = map part_val parts
      in if length parts \<noteq> 3 then None
         else if None \<in> set vals then None
         else Some (\<lparr>ver_num = map the vals,
                     ver_pre = (suffix \<noteq> [] \<and> \<not> HasPrefix suffix ''+'' \<and> \<not> describeSuffix suffix)\<rparr>, suffix))"

definition ParseVersion :: "string \<Rightarrow> int list option" where
  "ParseVersion s = (case parse s of None \<Rightarrow> None | Some (pv, _) \<Rightarrow> Some (ver_num pv))"

definition IsRelease :: "string \<Rightarrow> bool" where
  "IsRelease s = (case parse s of None \<Rightarrow> False | Some (_, suffix) \<Rightarrow> suffix = [])"

definition format_release :: "int list \<Rightarrow> string" where
  "format_release num = ''v'' @ show_nat (nat (num ! 0)) @ ''.'' @ show_nat (nat (num ! 1)) @ ''.'' @ show_nat (nat (num ! 2))"

definition NormalizeRelease :: "string \<Rightarrow> string option" where
  "NormalizeRelease s =
     (case parse s of
        None \<Rightarrow> None
      | Some (v, suffix) \<Rightarrow> if suffix \<noteq> [] then None else Some (format_release (ver_num v)))"

definition NormalizeDefaultURLVersion :: "string \<Rightarrow> string \<Rightarrow> string \<Rightarrow> string" where
  "NormalizeDefaultURLVersion latest downloadURL releasePage =
     (if (downloadURL \<noteq> [] \<and> downloadURL \<noteq> DefaultDownloadURL \<and> contains_sub downloadURL ''{version}'') \<or>
         (releasePage \<noteq> [] \<and> releasePage \<noteq> DefaultReleasePage \<and> contains_sub releasePage ''{version}'')
      then latest
      else case NormalizeRelease latest of Some normalized \<Rightarrow> normalized | None \<Rightarrow> latest)"

definition normalizeTemplateVersion :: "string \<Rightarrow> string \<Rightarrow> string" where
  "normalizeTemplateVersion latest template =
     (if template = DefaultDownloadURL \<or> template = DefaultReleasePage
      then case NormalizeRelease latest of Some normalized \<Rightarrow> normalized | None \<Rightarrow> latest
      else latest)"

text \<open>The loop over the three numbers.\<close>

fun nums_newer :: "int list \<Rightarrow> int list \<Rightarrow> bool \<Rightarrow> bool" where
  "nums_newer (l # ls) (c # cs) pre = (if l \<noteq> c then l > c else nums_newer ls cs pre)"
| "nums_newer _ _ pre = pre"

definition Newer :: "string \<Rightarrow> string \<Rightarrow> bool" where
  "Newer latest current =
     (if \<not> IsRelease latest then False
      else case (parse latest, parse current) of
             (Some (l, _), Some (c, _)) \<Rightarrow> nums_newer (ver_num l) (ver_num c) (ver_pre c)
           | _ \<Rightarrow> False)"

section \<open>Links\<close>

definition unsafe_rune :: "nat \<Rightarrow> bool" where
  "unsafe_rune r = (r \<le> 32 \<or> r = 127 \<or> 128 \<le> r \<and> r \<le> 159)"

definition SafeURL :: "string \<Rightarrow> bool" where
  "SafeURL u =
     (if \<not> HasPrefix u ''https://'' \<or> length u > 2048 then False
      else \<not> list_ex unsafe_rune (runes u))"

definition normalizeArch :: "string \<Rightarrow> string" where
  "normalizeArch arch0 =
     (let arch = ToLower (strings_TrimSpace arch0)
      in if arch = ''x86_64'' then ''amd64'' else if arch = ''aarch64'' then ''arm64'' else arch)"

definition expand :: "string \<Rightarrow> string \<Rightarrow> string \<Rightarrow> string \<Rightarrow> string \<Rightarrow> string" where
  "expand template ver goos goarch ext =
     replace_all [(''{version}'', ver), (''{os}'', goos), (''{arch}'', goarch), (''{ext}'', ext)] template"

definition ExpandURL :: "string \<Rightarrow> string \<Rightarrow> string \<Rightarrow> string \<Rightarrow> string" where
  "ExpandURL template ver goos goarch0 =
     (let goarch = normalizeArch goarch0
      in if template = [] \<or> goos @ ''/'' @ goarch \<notin> set releasedPlatforms then []
         else expand template ver goos goarch (if goos = ''windows'' then ''.exe'' else []))"

definition isOtherGOOS :: "string \<Rightarrow> bool" where
  "isOtherGOOS s = (s \<in> {''freebsd'', ''openbsd'', ''netbsd'', ''dragonfly'', ''solaris'', ''illumos'', ''aix'', ''plan9'', ''android'', ''ios'', ''js'', ''wasip1''})"

text \<open>The failure of \<open>PlatformFromHost\<close> is \<open>None\<close>; its values are then empty strings.\<close>

definition PlatformFromHost :: "string \<Rightarrow> (string \<times> string) option" where
  "PlatformFromHost host =
     (let f = Fields host
      in if length f < 2 then None
         else let goarch = normalizeArch (last f); sys = butlast f; lst = last sys
              in if EqualFold lst ''windows'' \<or> (length sys \<ge> 2 \<and> EqualFold (sys ! (length sys - 2)) ''windows'')
                 then Some (''windows'', goarch)
                 else if lst = ''darwin'' then Some (''darwin'', goarch)
                 else if contains_sub lst ''@'' then None
                 else if isOtherGOOS lst then Some (lst, goarch)
                 else Some (''linux'', goarch))"

section \<open>Notices\<close>

record Notice =
  Current :: string
  Latest :: string
  URL :: string

definition Notice_String :: "Notice \<Rightarrow> string" where
  "Notice_String n =
     map char_of [229, 143, 145, 231, 142, 176, 230, 150, 176, 231, 137, 136, 230, 156, 172, 32 :: nat] @ Latest n @
     map char_of [239, 188, 136, 229, 189, 147, 229, 137, 141, 32 :: nat] @ Current n @
     map char_of [239, 188, 137, 239, 188, 140, 229, 187, 186, 232, 174, 174, 229, 141, 135, 231, 186, 167, 239, 188, 140, 228, 184, 139, 232, 189, 189, 239, 188, 154 :: nat] @ URL n"

definition PeerString :: "Notice \<Rightarrow> string" where
  "PeerString n =
     map char_of [232, 162, 171, 229, 141, 143, 229, 138, 169, 231, 171, 175, 231, 137, 136, 230, 156, 172, 32 :: nat] @ Current n @
     map char_of [32, 228, 189, 142, 228, 186, 142, 230, 156, 128, 230, 150, 176, 231, 137, 136, 32 :: nat] @ Latest n @
     map char_of [239, 188, 140, 229, 187, 186, 232, 174, 174, 229, 175, 185, 230, 150, 185, 229, 141, 135, 231, 186, 167, 239, 188, 140, 228, 184, 139, 232, 189, 189, 239, 188, 154 :: nat] @ URL n"

text \<open>\<open>printable\<close>; \<open>strings.Map\<close> writes the runes that are kept.\<close>

definition printable :: "string \<Rightarrow> string" where
  "printable s = concat (map encode_rune (filter (\<lambda>r. \<not> (r < 32 \<or> r = 127 \<or> 128 \<le> r \<and> r \<le> 159)) (runes s)))"

text \<open>The fallback to the release page, shared by \<open>Check\<close> and \<open>CheckUnknown\<close>.\<close>

definition releasePageURL :: "string \<Rightarrow> string \<Rightarrow> string" where
  "releasePageURL latest releasePage =
     (let url = expand releasePage (normalizeTemplateVersion latest releasePage) [] [] []
      in if SafeURL url then url
         else expand DefaultReleasePage (normalizeTemplateVersion latest DefaultReleasePage) [] [] [])"

definition Check :: "string \<Rightarrow> string \<Rightarrow> string \<Rightarrow> string \<Rightarrow> string \<Rightarrow> string \<Rightarrow> Notice option" where
  "Check current latest urlTemplate releasePage goos goarch =
     (if \<not> Newer latest current then None
      else let urlVersion = (if urlTemplate = DefaultDownloadURL then normalizeTemplateVersion latest urlTemplate else latest);
               url0 = ExpandURL urlTemplate urlVersion goos goarch;
               url1 = (if SafeURL url0 then url0
                       else ExpandURL DefaultDownloadURL (normalizeTemplateVersion latest DefaultDownloadURL) goos goarch);
               url = (if url1 = [] then releasePageURL latest releasePage else url1)
           in Some \<lparr>Current = printable current, Latest = latest, URL = url\<rparr>)"

text \<open>\<open>CheckSelf\<close>, with the platform of the process as arguments.\<close>

definition CheckSelf :: "string \<Rightarrow> string \<Rightarrow> string \<Rightarrow> string \<Rightarrow> string \<Rightarrow> string \<Rightarrow> Notice option" where
  "CheckSelf goos goarch current latest urlTemplate releasePage = Check current latest urlTemplate releasePage goos goarch"

definition CheckPeer :: "string \<Rightarrow> string \<Rightarrow> string \<Rightarrow> string \<Rightarrow> string \<Rightarrow> Notice option" where
  "CheckPeer peerVersion peerHost latest urlTemplate releasePage =
     (let (goos, goarch) = (case PlatformFromHost peerHost of None \<Rightarrow> ([], []) | Some p \<Rightarrow> p)
      in Check peerVersion latest urlTemplate releasePage goos goarch)"

definition CheckUnknown :: "string \<Rightarrow> string \<Rightarrow> Notice option" where
  "CheckUnknown latest releasePage =
     (if \<not> IsRelease latest then None
      else Some \<lparr>Current = map char_of [230, 151, 167, 231, 137, 136, 229, 174, 162, 230, 136, 183, 231, 171, 175 :: nat],
                 Latest = latest, URL = releasePageURL latest releasePage\<rparr>)"

section \<open>Printed numbers\<close>

lemma char_zero: "char_of (48 :: nat) = CHR ''0''"
  by code_simp

lemma char_digit: "n < 10 \<Longrightarrow> of_char (char_of (48 + n :: nat) :: char) = (48 + n :: nat)"
  by simp

lemma show_nat_spec:
  "list_all is_digit (show_nat n) \<and> show_nat n \<noteq> [] \<and> digits_val (show_nat n) = n \<and>
   (length (show_nat n) > 1 \<longrightarrow> hd (show_nat n) \<noteq> CHR ''0'') \<and> (n \<noteq> 0 \<longrightarrow> hd (show_nat n) \<noteq> CHR ''0'')"
proof (induction n rule: show_nat.induct)
  case (1 n)
  show ?case
  proof (cases "n < 10")
    case True
    have "char_of (48 + n) = CHR ''0'' \<longleftrightarrow> n = 0"
    proof
      assume "char_of (48 + n) = CHR ''0''"
      then have "of_char (char_of (48 + n :: nat) :: char) = (of_char CHR ''0'' :: nat)" by simp
      with char_digit [OF True] show "n = 0" by simp
    qed (simp add: char_zero)
    with True char_digit [OF True] show ?thesis
      by (simp add: show_nat.simps [of n] is_digit_def digits_val_def)
  next
    case False
    have d: "n mod 10 < 10" by simp
    have ih: "list_all is_digit (show_nat (n div 10))" "show_nat (n div 10) \<noteq> []"
      "digits_val (show_nat (n div 10)) = n div 10" "n div 10 \<noteq> 0 \<longrightarrow> hd (show_nat (n div 10)) \<noteq> CHR ''0''"
      using 1 [OF False] by blast+
    have eq: "show_nat n = show_nat (n div 10) @ [char_of (48 + n mod 10)]"
      using False by (simp add: show_nat.simps [of n])
    have "n div 10 \<noteq> 0" using False by auto
    moreover have "digits_val (show_nat n) = n"
      using ih(3) char_digit [OF d] by (simp add: eq digits_val_def)
    moreover have "is_digit (char_of (48 + n mod 10))"
      using d unfolding is_digit_def char_digit [OF d] by linarith
    ultimately show ?thesis using ih by (simp add: eq)
  qed
qed

lemmas show_nat_digits = show_nat_spec [THEN conjunct1]
lemmas show_nat_ne = show_nat_spec [THEN conjunct2, THEN conjunct1]

lemma show_nat_length: "n < 10 ^ k \<Longrightarrow> 0 < k \<Longrightarrow> length (show_nat n) \<le> k"
proof (induction k arbitrary: n)
  case (Suc k)
  show ?case
  proof (cases "n < 10")
    case True
    then show ?thesis by (simp add: show_nat.simps [of n])
  next
    case False
    then have "0 < k" using Suc.prems by (cases k) auto
    moreover have "n div 10 < 10 ^ k" using Suc.prems by (simp add: less_mult_imp_div_less mult.commute)
    ultimately show ?thesis using False Suc.IH [of "n div 10"] by (simp add: show_nat.simps [of n])
  qed
qed simp

lemma digit_not_sign: "is_digit c \<Longrightarrow> c \<noteq> CHR ''-'' \<and> c \<noteq> CHR ''+'' \<and> c \<noteq> CHR ''.'' \<and> c \<noteq> CHR ''V'' \<and> solid c"
  by (auto simp: is_digit_def solid_def)

lemma show_nat_chars: "c \<in> set (show_nat n) \<Longrightarrow> c \<noteq> CHR ''-'' \<and> c \<noteq> CHR ''+'' \<and> c \<noteq> CHR ''.'' \<and> c \<noteq> CHR ''V'' \<and> solid c"
  using show_nat_digits [of n] digit_not_sign by (auto simp: list_all_iff)

lemma part_val_show: "int n < 2 ^ 63 \<Longrightarrow> part_val (show_nat n) = Some (int n)"
proof -
  assume n: "int n < 2 ^ 63"
  obtain c cs where s: "show_nat n = c # cs" using show_nat_ne [of n] by (cases "show_nat n") auto
  have "is_digit c" using show_nat_digits [of n] by (simp add: s)
  then have "c \<noteq> CHR ''-''" "c \<noteq> CHR ''+''" using digit_not_sign by blast+
  then have "Atoi (show_nat n) = Some (int n)"
    using n show_nat_spec [of n] by (simp add: Atoi_def s)
  then show ?thesis using show_nat_spec [of n] by (auto simp: part_val_def)
qed

section \<open>Versions, lemmas\<close>

lemma split_on_app: "d \<notin> set a \<Longrightarrow> split_on d (a @ d # b) = a # split_on d b"
  by (induction a) auto

lemma split_on_none: "d \<notin> set a \<Longrightarrow> split_on d a = [a]"
  by (induction a) auto

lemma Atoi_bound: "Atoi s = Some n \<Longrightarrow> n < 2 ^ 63"
  by (auto simp: Atoi_def Let_def split: if_splits)

lemma parse_nums: "parse s = Some (v, sfx) \<Longrightarrow>
  \<exists>a b c. ver_num v = [a, b, c] \<and> 0 \<le> a \<and> a < 2 ^ 63 \<and> 0 \<le> b \<and> b < 2 ^ 63 \<and> 0 \<le> c \<and> c < 2 ^ 63"
proof -
  assume p: "parse s = Some (v, sfx)"
  define parts where "parts = split_on (CHR ''.'')
    (takeWhile (\<lambda>c. c \<noteq> CHR ''-'' \<and> c \<noteq> CHR ''+'') (TrimPrefix (TrimPrefix (strings_TrimSpace s) ''v'') ''V''))"
  have l: "length parts = 3" and some: "None \<notin> set (map part_val parts)" and v: "ver_num v = map (the \<circ> part_val) parts"
    using p unfolding parse_def Let_def parts_def [symmetric] by (auto split: if_splits)
  obtain x y z where xyz: "parts = [x, y, z]"
    using l by (auto simp: numeral_3_eq_3 length_Suc_conv)
  have "\<exists>n. part_val q = Some n \<and> 0 \<le> n \<and> n < 2 ^ 63" if "q \<in> set parts" for q
  proof -
    have "part_val q \<noteq> None" using some that by (metis image_eqI list.set_map)
    then obtain n where n: "part_val q = Some n" by blast
    then have "Atoi q = Some n \<and> 0 \<le> n" by (auto simp: part_val_def split: option.splits if_splits)
    with n Atoi_bound [of q n] show ?thesis by blast
  qed
  from this [of x] this [of y] this [of z] show ?thesis by (auto simp: v xyz)
qed

lemma parse_release_pre: "parse s = Some (v, []) \<Longrightarrow> \<not> ver_pre v"
proof -
  have gen: "ver_pre v = (sfx \<noteq> [] \<and> \<not> HasPrefix sfx ''+'' \<and> \<not> describeSuffix sfx)"
    if "(if A then None else if B then None
         else Some (\<lparr>ver_num = n, ver_pre = (f \<noteq> [] \<and> \<not> HasPrefix f ''+'' \<and> \<not> describeSuffix f)\<rparr>, f)) = Some (v, sfx)"
    for A B n f sfx
    using that by (cases A; cases B) auto
  assume "parse s = Some (v, [])"
  from gen [OF this [unfolded parse_def Let_def]] show ?thesis by simp
qed

lemma parse_canonical:
  assumes "0 \<le> a" "a < 2 ^ 63" "0 \<le> b" "b < 2 ^ 63" "0 \<le> c" "c < 2 ^ 63"
  shows "parse (format_release [a, b, c]) = Some (\<lparr>ver_num = [a, b, c], ver_pre = False\<rparr>, [])"
proof -
  define x y z where "x = show_nat (nat a)" "y = show_nat (nat b)" "z = show_nat (nat c)"
  let ?core = "x @ ''.'' @ y @ ''.'' @ z"
  have f: "format_release [a, b, c] = CHR ''v'' # ?core" by (simp add: format_release_def x_y_z_def)
  have ne: "x \<noteq> []" "z \<noteq> []" by (auto simp: x_y_z_def show_nat_ne)
  have last_solid: "solid (last (CHR ''v'' # ?core))"
    using ne show_nat_chars [of "last z" "nat c"] by (simp add: x_y_z_def(3) [symmetric])
  have trim: "strings_TrimSpace (CHR ''v'' # ?core) = CHR ''v'' # ?core"
    by (rule TrimSpace_solid) (use last_solid in \<open>auto simp: solid_def\<close>)
  have pre_v: "TrimPrefix (CHR ''v'' # ?core) ''v'' = ?core"
    by (simp add: TrimPrefix_def HasPrefix_def)
  have pre_V: "TrimPrefix ?core ''V'' = ?core"
    using ne(1) show_nat_chars [of "hd x" "nat a"]
    by (cases x) (auto simp: TrimPrefix_def HasPrefix_def x_y_z_def(1) [symmetric])
  have clean: "\<forall>q \<in> set ?core. q \<noteq> CHR ''-'' \<and> q \<noteq> CHR ''+''"
    using show_nat_chars by (auto simp: x_y_z_def)
  have tw: "takeWhile (\<lambda>q. q \<noteq> CHR ''-'' \<and> q \<noteq> CHR ''+'') ?core = ?core"
    "dropWhile (\<lambda>q. q \<noteq> CHR ''-'' \<and> q \<noteq> CHR ''+'') ?core = []"
    using clean by (auto simp: takeWhile_eq_all_conv dropWhile_eq_Nil_conv)
  have dots: "CHR ''.'' \<notin> set x" "CHR ''.'' \<notin> set y" "CHR ''.'' \<notin> set z"
    using show_nat_chars by (auto simp: x_y_z_def)
  have sp: "split_on (CHR ''.'') ?core = [x, y, z]"
    using dots by (simp add: split_on_app split_on_none)
  have vals: "part_val x = Some a" "part_val y = Some b" "part_val z = Some c"
    using assms part_val_show [of "nat a"] part_val_show [of "nat b"] part_val_show [of "nat c"]
    by (simp_all add: x_y_z_def)
  show ?thesis
    unfolding f parse_def Let_def trim pre_v pre_V tw sp by (simp add: vals HasPrefix_def)
qed

lemma NormalizeRelease_Some:
  "NormalizeRelease s = Some t \<longleftrightarrow> (\<exists>v. parse s = Some (v, []) \<and> t = format_release (ver_num v))"
  by (auto simp: NormalizeRelease_def split: option.splits if_splits)

lemma NormalizeRelease_parse:
  "NormalizeRelease s = Some t \<Longrightarrow> \<exists>v. parse s = Some (v, []) \<and> parse t = Some (v, []) \<and> t = format_release (ver_num v)"
proof -
  assume "NormalizeRelease s = Some t"
  then obtain v where v: "parse s = Some (v, [])" "t = format_release (ver_num v)"
    by (auto simp: NormalizeRelease_Some)
  obtain a b c where abc: "ver_num v = [a, b, c]" "0 \<le> a" "a < 2 ^ 63" "0 \<le> b" "b < 2 ^ 63" "0 \<le> c" "c < 2 ^ 63"
    using parse_nums [OF v(1)] by blast
  have "v = \<lparr>ver_num = [a, b, c], ver_pre = False\<rparr>"
    using abc(1) parse_release_pre [OF v(1)] by (cases v) simp
  then have "parse t = Some (v, [])"
    unfolding v(2) using parse_canonical [OF abc(2-7)] by simp
  with v show ?thesis by blast
qed

lemma IsRelease_iff: "IsRelease s \<longleftrightarrow> (\<exists>v. parse s = Some (v, []))"
  by (auto simp: IsRelease_def split: option.splits)

lemma Newer_iff:
  "Newer a b \<longleftrightarrow> (\<exists>l c sfx. parse a = Some (l, []) \<and> parse b = Some (c, sfx) \<and>
     nums_newer (ver_num l) (ver_num c) (ver_pre c))"
  by (auto simp: Newer_def IsRelease_def split: option.splits)

section \<open>Links, lemmas\<close>

definition url_char :: "char \<Rightarrow> bool" where
  "url_char c = (32 < (of_char c :: nat) \<and> (of_char c :: nat) < 127)"

lemma SafeURL_ascii: "HasPrefix u ''https://'' \<Longrightarrow> length u \<le> 2048 \<Longrightarrow> list_all url_char u \<Longrightarrow> SafeURL u"
proof -
  assume u: "HasPrefix u ''https://''" "length u \<le> 2048" "list_all url_char u"
  then have "runes u = map of_char u"
    by (intro runes_ascii) (auto simp: ascii_def list_all_iff url_char_def)
  with u show ?thesis
    by (auto simp: SafeURL_def list_ex_iff list_all_iff url_char_def unsafe_rune_def)
qed

lemma expand_DefaultReleasePage:
  "expand DefaultReleasePage v os arch ext = ''https://github.com/kegechen/remote-assist-tool/releases/tag/'' @ v"
  by (simp add: expand_def DefaultReleasePage_def HasPrefix_def)

lemma expand_DefaultDownloadURL:
  "expand DefaultDownloadURL v os arch ext =
   ''https://github.com/kegechen/remote-assist-tool/releases/download/'' @ v @ ''/remote-assist-cli-'' @ os @ ''-'' @ arch @ ext"
  by (simp add: expand_def DefaultDownloadURL_def HasPrefix_def)

lemma show_nat_url: "n < 2 ^ 63 \<Longrightarrow> list_all url_char (show_nat (nat n)) \<and> length (show_nat (nat n)) \<le> 19"
proof -
  assume n: "n < 2 ^ 63"
  then have "nat n < 10 ^ 19" by simp
  then have "length (show_nat (nat n)) \<le> 19" by (rule show_nat_length) simp
  moreover have "list_all url_char (show_nat (nat n))"
    using show_nat_digits [of "nat n"] by (auto simp: list_all_iff is_digit_def url_char_def)
  ultimately show ?thesis by simp
qed

lemma release_tag_url:
  assumes "IsRelease latest" "t = DefaultDownloadURL \<or> t = DefaultReleasePage"
  shows "list_all url_char (normalizeTemplateVersion latest t) \<and> length (normalizeTemplateVersion latest t) \<le> 60"
proof -
  obtain v where v: "parse latest = Some (v, [])" using assms(1) by (auto simp: IsRelease_iff)
  obtain a b c where abc: "ver_num v = [a, b, c]" "a < 2 ^ 63" "b < 2 ^ 63" "c < 2 ^ 63"
    using parse_nums [OF v] by blast
  have "normalizeTemplateVersion latest t = format_release [a, b, c]"
    using assms(2) by (auto simp: normalizeTemplateVersion_def NormalizeRelease_def v abc(1))
  then show ?thesis
    using show_nat_url [OF abc(2)] show_nat_url [OF abc(3)] show_nat_url [OF abc(4)]
    by (simp add: format_release_def url_char_def)
qed

lemma default_page_safe: "IsRelease latest \<Longrightarrow> SafeURL (expand DefaultReleasePage (normalizeTemplateVersion latest DefaultReleasePage) [] [] [])"
  unfolding expand_DefaultReleasePage
  by (rule SafeURL_ascii) (use release_tag_url [of latest DefaultReleasePage] in \<open>auto simp: HasPrefix_def url_char_def\<close>)

lemma releasePageURL_safe: "IsRelease latest \<Longrightarrow> SafeURL (releasePageURL latest releasePage)"
  using default_page_safe by (simp add: releasePageURL_def Let_def)

lemma released_platform_chars:
  "goos @ ''/'' @ goarch \<in> set releasedPlatforms \<Longrightarrow>
   list_all url_char goos \<and> list_all url_char goarch \<and> length goos + length goarch \<le> 12"
proof -
  assume p: "goos @ ''/'' @ goarch \<in> set releasedPlatforms"
  have "list_all (\<lambda>q. list_all url_char q \<and> length q \<le> 13) releasedPlatforms"
    by (simp add: releasedPlatforms_def url_char_def)
  then have "\<forall>q \<in> set releasedPlatforms. list_all url_char q \<and> length q \<le> 13"
    by (simp only: list_all_iff)
  from bspec [OF this p] have "list_all url_char (goos @ ''/'' @ goarch)" "length (goos @ ''/'' @ goarch) \<le> 13"
    by blast+
  then show ?thesis by simp
qed

lemma default_download_safe:
  fixes goos goarch :: string
  assumes "IsRelease latest"
  defines "u \<equiv> ExpandURL DefaultDownloadURL (normalizeTemplateVersion latest DefaultDownloadURL) goos goarch"
  shows "u = [] \<or> SafeURL u"
proof (cases "goos @ ''/'' @ normalizeArch goarch \<in> set releasedPlatforms")
  case True
  let ?ext = "if goos = ''windows'' then ''.exe'' else []"
  have ext: "list_all url_char ?ext" "length ?ext \<le> 4" by (auto simp: url_char_def)
  have d: "DefaultDownloadURL \<noteq> []" by (simp add: DefaultDownloadURL_def)
  have "u = expand DefaultDownloadURL (normalizeTemplateVersion latest DefaultDownloadURL) goos (normalizeArch goarch) ?ext"
    unfolding u_def ExpandURL_def Let_def using True d by simp
  moreover have "SafeURL (expand DefaultDownloadURL (normalizeTemplateVersion latest DefaultDownloadURL) goos (normalizeArch goarch) ?ext)"
    unfolding expand_DefaultDownloadURL
  proof (rule SafeURL_ascii, goal_cases)
    case 1 show ?case by (simp add: HasPrefix_def)
  next
    case 2 show ?case
      using ext(2) release_tag_url [OF assms(1), of DefaultDownloadURL] released_platform_chars [OF True] by simp
  next
    case 3 show ?case
      using ext(1) release_tag_url [OF assms(1), of DefaultDownloadURL] released_platform_chars [OF True]
      by (simp only: list_all_append) (simp add: url_char_def)
  qed
  ultimately show ?thesis by simp
next
  case False
  then show ?thesis by (simp add: u_def ExpandURL_def Let_def)
qed

lemma Newer_IsRelease: "Newer latest current \<Longrightarrow> IsRelease latest"
  by (simp add: Newer_def split: if_splits)

lemma Check_safe: "Check current latest t p goos goarch = Some n \<Longrightarrow> SafeURL (URL n)"
proof -
  assume c: "Check current latest t p goos goarch = Some n"
  then have "IsRelease latest" using Newer_IsRelease by (auto simp: Check_def split: if_splits)
  then show ?thesis
    using c default_download_safe [of latest goos goarch] releasePageURL_safe [of latest p]
    by (auto simp: Check_def Let_def SafeURL_def [of "[]"] HasPrefix_def split: if_splits)
qed

section \<open>Properties\<close>

lemma nums_newer_iff:
  "nums_newer [a, b, c] [x, y, z] pre \<longleftrightarrow>
   a > x \<or> a = x \<and> (b > y \<or> b = y \<and> (c > z \<or> c = z \<and> pre))"
  by auto

lemma trim_blank:
  assumes "s \<noteq> []" "solid (hd s)" "solid (last s)"
  shows "strings_TrimSpace (char_of (10 :: nat) # s) = s" "strings_TrimSpace (CHR '' '' # s) = s"
proof -
  have "trim_left (char_of (10 :: nat) # s) = trim_left s"
    by (subst trim_left.simps) (simp add: space_bytes_def HasPrefix_def)
  moreover have "trim_left (CHR '' '' # s) = trim_left s"
  proof -
    have sp: "CHR '' '' = char_of (32 :: nat)" by code_simp
    show ?thesis unfolding sp by (subst trim_left.simps) (simp add: space_bytes_def HasPrefix_def)
  qed
  moreover have "trim_left s = s" using assms by (simp add: trim_left_solid)
  ultimately show "strings_TrimSpace (char_of (10 :: nat) # s) = s" "strings_TrimSpace (CHR '' '' # s) = s"
    using assms by (simp_all add: strings_TrimSpace_def trim_right_solid)
qed

lemma digit_chars:
  "char_of (48 :: nat) = CHR ''0''" "char_of (49 :: nat) = CHR ''1''" "char_of (50 :: nat) = CHR ''2''" "char_of (51 :: nat) = CHR ''3''"
  by code_simp+

lemmas parse_eval = Newer_def IsRelease_def NormalizeRelease_def parse_def TrimSpace_solid solid_def TrimPrefix_def HasPrefix_def
  part_val_def Atoi_def is_digit_def is_hex_lower_def digits_val_def describeSuffix_def format_release_def show_nat.simps

text \<open>
  The comparison of versions is a strict order on releases that puts a pre-release below
  the release of its number: \<open>Newer\<close> is irreflexive, asymmetric and transitive, and two texts
  it does not order, both releases, carry the same three numbers, hence the same canonical
  tag.
\<close>

theorem version_order:
  "\<not> Newer a a \<and> (Newer a b \<longrightarrow> \<not> Newer b a) \<and> (Newer a b \<and> Newer b c \<longrightarrow> Newer a c) \<and>
   (IsRelease a \<and> IsRelease b \<and> \<not> Newer a b \<and> \<not> Newer b a \<longrightarrow> NormalizeRelease a = NormalizeRelease b)"
proof -
  have num: "\<exists>x y z. ver_num v = [x, y, z]" if "parse s = Some (v, sfx)" for s v sfx
    using parse_nums [OF that] by blast
  have irr: "\<not> Newer a a"
    using num parse_release_pre by (fastforce simp: Newer_iff nums_newer_iff)
  have asym: "\<not> Newer b a" if ab: "Newer a b"
  proof
    assume "Newer b a"
    with ab obtain l k where p: "parse a = Some (l, [])" "parse b = Some (k, [])"
      "nums_newer (ver_num l) (ver_num k) (ver_pre k)" "nums_newer (ver_num k) (ver_num l) (ver_pre l)"
      by (auto simp: Newer_iff)
    obtain x y z where x: "ver_num l = [x, y, z]" using num [OF p(1)] by blast
    obtain x' y' z' where x': "ver_num k = [x', y', z']" using num [OF p(2)] by blast
    show False
      using p(3,4) parse_release_pre [OF p(1)] parse_release_pre [OF p(2)] unfolding x x' nums_newer_iff by linarith
  qed
  have trans: "Newer a c" if nb: "Newer a b" "Newer b c"
  proof -
    obtain l k m sfx where p: "parse a = Some (l, [])" "parse b = Some (k, [])" "parse c = Some (m, sfx)"
      "nums_newer (ver_num l) (ver_num k) (ver_pre k)" "nums_newer (ver_num k) (ver_num m) (ver_pre m)"
      using nb by (auto simp: Newer_iff)
    obtain x y z where x: "ver_num l = [x, y, z]" using num [OF p(1)] by blast
    obtain x' y' z' where x': "ver_num k = [x', y', z']" using num [OF p(2)] by blast
    obtain x'' y'' z'' where x'': "ver_num m = [x'', y'', z'']" using num [OF p(3)] by blast
    have "nums_newer (ver_num l) (ver_num m) (ver_pre m)"
      using p(4,5) parse_release_pre [OF p(2)] unfolding x x' x'' nums_newer_iff by linarith
    with p show ?thesis by (auto simp: Newer_iff)
  qed
  have tot: "NormalizeRelease a = NormalizeRelease b"
    if r: "IsRelease a" "IsRelease b" "\<not> Newer a b" "\<not> Newer b a"
  proof -
    obtain l k where p: "parse a = Some (l, [])" "parse b = Some (k, [])"
      using r(1,2) by (auto simp: IsRelease_iff)
    obtain x y z where x: "ver_num l = [x, y, z]" using num [OF p(1)] by blast
    obtain x' y' z' where x': "ver_num k = [x', y', z']" using num [OF p(2)] by blast
    have "\<not> nums_newer [x, y, z] [x', y', z'] (ver_pre k)" "\<not> nums_newer [x', y', z'] [x, y, z] (ver_pre l)"
      using r(3,4) p x x' by (auto simp: Newer_iff)
    then have "x = x' \<and> y = y' \<and> z = z'" unfolding nums_newer_iff by linarith
    then show ?thesis by (simp add: NormalizeRelease_def p x x')
  qed
  show ?thesis using irr asym trans tot by blast
qed

theorem version_order_witness:
  "Newer ''v1.10.0'' ''1.9.3'' \<and> Newer ''1.9.3'' ''1.9.3-rc1'' \<and> Newer ''v1.10.0'' ''1.9.3-rc1'' \<and>
   \<not> Newer ''1.9.3'' ''1.9.3-4-gabc''"
proof -
  have a: "Newer ''v1.10.0'' ''1.9.3''" by (simp add: parse_eval)
  have b: "Newer ''1.9.3'' ''1.9.3-rc1''" by (simp add: parse_eval)
  have c: "\<not> Newer ''1.9.3'' ''1.9.3-4-gabc''" by (simp add: parse_eval)
  show ?thesis using version_order [of "''v1.10.0''" "''1.9.3''" "''1.9.3-rc1''"] a b c by simp
qed

text \<open>
  A canonical tag denotes the version it was made from: normalising any accepted spelling
  of a release (surrounding space, leading v or V) gives \<open>vX.Y.Z\<close>, which is again a release,
  has the same numbers and is its own normal form.
\<close>

theorem release_tag_round_trip:
  assumes "NormalizeRelease s = Some t"
  shows "IsRelease t \<and> ParseVersion t = ParseVersion s \<and> NormalizeRelease t = Some t \<and> \<not> Newer s t \<and> \<not> Newer t s"
proof -
  obtain v where v: "parse s = Some (v, [])" "parse t = Some (v, [])" "t = format_release (ver_num v)"
    using NormalizeRelease_parse [OF assms] by blast
  then obtain a b c where "ver_num v = [a, b, c]" using parse_nums by blast
  with v parse_release_pre [OF v(1)] show ?thesis
    by (simp add: IsRelease_iff ParseVersion_def NormalizeRelease_Some Newer_iff nums_newer_iff)
qed

theorem release_tag_round_trip_witness:
  "NormalizeRelease '' 1.20.3'' = Some ''v1.20.3'' \<and> NormalizeRelease ''v1.20.3'' = Some ''v1.20.3''"
proof -
  have "NormalizeRelease '' 1.20.3'' = Some ''v1.20.3''"
    using trim_blank(2) [of "''1.20.3''"] by (simp add: parse_eval digit_chars)
  then show ?thesis using release_tag_round_trip [of "'' 1.20.3''" "''v1.20.3''"] by simp
qed

text \<open>
  The link of every update notice is a safe URL (https, at most 2048 bytes, no control
  character or white space), whatever version, templates and host string the relay or the
  peer supply: unsafe templates fall back to the built-in ones, whose expansion is safe for
  every release number. The announced version itself is shown as received: white space
  around it, a line break included, passes.
\<close>

theorem notice_url_safe:
  "(CheckPeer peerVersion peerHost latest template page = Some n \<longrightarrow> SafeURL (URL n)) \<and>
   (CheckSelf goos goarch current latest template page = Some n \<longrightarrow> SafeURL (URL n)) \<and>
   (CheckUnknown latest page = Some n \<longrightarrow> SafeURL (URL n)) \<and>
   map_option Latest (CheckUnknown (char_of (10 :: nat) # ''1.2.3'') page) = Some (char_of (10 :: nat) # ''1.2.3'')"
proof -
  have "CheckUnknown latest page = Some n \<longrightarrow> SafeURL (URL n)"
    using releasePageURL_safe [of latest page] by (auto simp: CheckUnknown_def split: if_splits)
  moreover have "IsRelease (char_of (10 :: nat) # ''1.2.3'')"
    using trim_blank(1) [of "''1.2.3''"] by (simp add: parse_eval)
  ultimately show ?thesis
    by (auto simp: CheckPeer_def CheckSelf_def CheckUnknown_def Let_def
        intro: Check_safe split: prod.splits option.splits if_splits)
qed

theorem notice_url_safe_witness:
  "\<exists>n. CheckPeer ''1.0.0'' ''me@pc Windows 11 amd64'' ''1.2.0'' ''http://evil'' [] = Some n \<and> SafeURL (URL n)"
proof -
  have "Newer ''1.2.0'' ''1.0.0''" by (simp add: parse_eval)
  then have "CheckPeer ''1.0.0'' ''me@pc Windows 11 amd64'' ''1.2.0'' ''http://evil'' [] \<noteq> None"
    by (simp add: CheckPeer_def Check_def Let_def split: prod.split)
  then obtain n where "CheckPeer ''1.0.0'' ''me@pc Windows 11 amd64'' ''1.2.0'' ''http://evil'' [] = Some n" by blast
  then show ?thesis
    using notice_url_safe [of "''1.0.0''" "''me@pc Windows 11 amd64''" "''1.2.0''" "''http://evil''" "[]" n] by blast
qed

end
