(* ===== verification/Relay_Notice.thy ===== *)
theory Relay_Notice
  imports Update Session_Manager Stun_Race
begin

text \<open>
  What the relay announces to clients: the update information and its optional file
  (\<^verbatim>\<open>internal/relay/update_info_file.go\<close>), the notice appended to a display field for clients
  that predate structured notices (\<^verbatim>\<open>internal/relay/update_notice.go\<close>), and the check of the
  list of STUN addresses the relay hands out (\<open>ValidateAdvertiseSTUN\<close> of
  \<^verbatim>\<open>internal/relay/server.go\<close>).

  The JSON decoders are parameters: \<open>strict\<close> is the result of decoding one value without
  unknown fields (\<open>None\<close> for an error or trailing data), \<open>envelope\<close> the field
  \<^verbatim>\<open>latest_version\<close> of a plain decoding.
\<close>

section \<open>Update information\<close>

record UpdateInfo =
  LatestVersion :: string
  DownloadURL :: string
  ReleasePage :: string

definition no_info :: UpdateInfo where
  "no_info = \<lparr>LatestVersion = [], DownloadURL = [], ReleasePage = []\<rparr>"

definition normalizeUpdateInfo :: "UpdateInfo \<Rightarrow> UpdateInfo" where
  "normalizeUpdateInfo info =
     info\<lparr>LatestVersion := NormalizeDefaultURLVersion (LatestVersion info) (DownloadURL info) (ReleasePage info)\<rparr>"

definition mergeUpdateInfo :: "UpdateInfo \<Rightarrow> UpdateInfo \<Rightarrow> UpdateInfo" where
  "mergeUpdateInfo base override =
     (let o1 = (if LatestVersion override = [] then override\<lparr>LatestVersion := LatestVersion base\<rparr> else override);
          o2 = (if DownloadURL o1 = [] then o1\<lparr>DownloadURL := DownloadURL base\<rparr> else o1);
          o3 = (if ReleasePage o2 = [] then o2\<lparr>ReleasePage := ReleasePage base\<rparr> else o2)
      in o3\<lparr>LatestVersion := NormalizeDefaultURLVersion (LatestVersion o3) (DownloadURL o3) (ReleasePage o3)\<rparr>)"

definition parseUpdateInfoFile :: "(bytes \<Rightarrow> UpdateInfo option) \<Rightarrow> bytes \<Rightarrow> UpdateInfo option" where
  "parseUpdateInfoFile strict data =
     (case strict data of
        None \<Rightarrow> None
      | Some i \<Rightarrow>
          let info = i\<lparr>LatestVersion := strings_TrimSpace (LatestVersion i)\<rparr>
          in if EqualFold (LatestVersion info) ''none'' then Some no_info
             else if (DownloadURL info \<noteq> [] \<and> \<not> SafeURL (DownloadURL info)) \<or>
                     (ReleasePage info \<noteq> [] \<and> \<not> SafeURL (ReleasePage info)) then None
             else if LatestVersion info = [] then Some info
             else if \<not> IsRelease (LatestVersion info) then None
             else Some info)"

section \<open>The announcement file\<close>

definition maxUpdateInfoFileBytes :: nat where
  "maxUpdateInfoFileBytes = 64 * 1024"

text \<open>
  One observation of the file by \<open>os.Stat\<close> and the reading after it: size and modification
  time, and the contents up to one byte beyond the limit (\<open>None\<close> when opening or reading
  fails).
\<close>

datatype file_obs = NotExist | StatError | Directory | Regular int int "bytes option"

record updateInfoFileState =
  fs_initialized :: bool
  fs_exists :: bool
  fs_disabled :: bool
  fs_size :: int
  fs_modTime :: int

definition no_file_state :: updateInfoFileState where
  "no_file_state = \<lparr>fs_initialized = False, fs_exists = False, fs_disabled = False, fs_size = 0, fs_modTime = 0\<rparr>"

definition rememberUpdateInfoFileMetadata :: "int \<Rightarrow> int \<Rightarrow> updateInfoFileState \<Rightarrow> updateInfoFileState" where
  "rememberUpdateInfoFileMetadata sz mtime st =
     st\<lparr>fs_initialized := True, fs_exists := True, fs_size := sz, fs_modTime := mtime\<rparr>"

text \<open>The result \<open>None\<close> is an error; otherwise the information read and whether it changed.\<close>

definition readUpdateInfoFile ::
  "(bytes \<Rightarrow> UpdateInfo option) \<Rightarrow> (bytes \<Rightarrow> string option) \<Rightarrow> file_obs \<Rightarrow> updateInfoFileState \<Rightarrow>
   updateInfoFileState \<times> (UpdateInfo \<times> bool) option" where
  "readUpdateInfoFile strict envelope obs st =
     (case obs of
        NotExist \<Rightarrow>
          (st\<lparr>fs_initialized := True, fs_exists := False, fs_disabled := False\<rparr>,
           Some (no_info, \<not> fs_initialized st \<or> fs_exists st))
      | StatError \<Rightarrow> (st, None)
      | Directory \<Rightarrow> (st, None)
      | Regular sz mtime contents \<Rightarrow>
          if fs_initialized st \<and> fs_exists st \<and> fs_size st = sz \<and> fs_modTime st = mtime
          then (st, Some (no_info, False))
          else (case contents of
                  None \<Rightarrow> (st, None)
                | Some data \<Rightarrow>
                    let st1 = rememberUpdateInfoFileMetadata sz mtime st
                    in if length data > maxUpdateInfoFileBytes then (st1, None)
                       else (case parseUpdateInfoFile strict data of
                               None \<Rightarrow> (st1, None)
                             | Some info \<Rightarrow>
                                 (case envelope data of
                                    None \<Rightarrow> (st1, None)
                                  | Some lv \<Rightarrow>
                                      (st1\<lparr>fs_disabled := EqualFold (strings_TrimSpace lv) ''none''\<rparr>, Some (info, True))))))"

text \<open>
  \<open>reloadUpdateInfoFile\<close> on the announced value; the flag tells whether it returned without
  an error.
\<close>

definition reloadUpdateInfoFile ::
  "(bytes \<Rightarrow> UpdateInfo option) \<Rightarrow> (bytes \<Rightarrow> string option) \<Rightarrow> UpdateInfo \<Rightarrow> file_obs \<Rightarrow>
   updateInfoFileState \<times> UpdateInfo \<Rightarrow> (updateInfoFileState \<times> UpdateInfo) \<times> bool" where
  "reloadUpdateInfoFile strict envelope base obs sv =
     (let (st, value) = sv
      in case readUpdateInfoFile strict envelope obs st of
           (st1, None) \<Rightarrow> ((st1, value), False)
         | (st1, Some (info, changed)) \<Rightarrow>
             if \<not> changed then ((st1, value), True)
             else ((st1, if \<not> fs_exists st1 then base
                         else if \<not> fs_disabled st1 then mergeUpdateInfo base info
                         else info), True))"

section \<open>Notices for old clients\<close>

definition legacyUpdatePrefix :: string where
  "legacyUpdatePrefix = map char_of [91, 229, 141, 135, 231, 186, 167, 230, 143, 144, 231, 164, 186, 93, 32 :: nat]"

definition needsLegacyUpdateNotice :: "string \<Rightarrow> bool \<Rightarrow> bool" where
  "needsLegacyUpdateNotice ver supports =
     (if supports then False
      else if ver = [] then True
      else case ParseVersion ver of None \<Rightarrow> False | Some n \<Rightarrow> n ! 0 = 0)"

definition legacyNotice :: "string \<Rightarrow> string \<Rightarrow> UpdateInfo \<Rightarrow> Notice option" where
  "legacyNotice ver host info =
     (if ver \<noteq> [] then CheckPeer ver host (LatestVersion info) (DownloadURL info) (ReleasePage info)
      else CheckUnknown (LatestVersion info) (ReleasePage info))"

definition legacyShareSessionReadyHost :: "UpdateInfo \<Rightarrow> ClientConn \<Rightarrow> string \<Rightarrow> string" where
  "legacyShareSessionReadyHost info share peerHost =
     (if \<not> needsLegacyUpdateNotice (cc_Version share) (cc_supportsUpdateNotice share) then peerHost
      else case legacyNotice (cc_Version share) (cc_Host share) info of
             None \<Rightarrow> peerHost
           | Some notice \<Rightarrow> peerHost @ [char_of (10 :: nat)] @ legacyUpdatePrefix @ Notice_String notice)"

definition legacyHelpUpdateHost :: "UpdateInfo \<Rightarrow> ClientConn \<Rightarrow> string \<Rightarrow> string" where
  "legacyHelpUpdateHost info client peerHost =
     (if \<not> needsLegacyUpdateNotice (cc_Version client) (cc_supportsUpdateNotice client) then peerHost
      else case legacyNotice (cc_Version client) (cc_Host client) info of
             None \<Rightarrow> peerHost
           | Some notice \<Rightarrow> peerHost @ [char_of (10 :: nat)] @ legacyUpdatePrefix @
               map char_of [229, 141, 143, 229, 138, 169, 231, 171, 175, 230, 156, 172, 230, 156, 186, 239, 188, 154 :: nat] @ Notice_String notice)"

section \<open>Advertised STUN servers\<close>

definition maxAdvertiseSTUN :: nat where
  "maxAdvertiseSTUN = 4"

definition ValidateAdvertiseSTUN :: "string list \<Rightarrow> bool" where
  "ValidateAdvertiseSTUN servers = (length servers \<le> maxAdvertiseSTUN \<and> list_all CheckSTUNServer servers)"

section \<open>Properties\<close>

definition valid_info :: "UpdateInfo \<Rightarrow> bool" where
  "valid_info i =
     ((LatestVersion i = [] \<or> IsRelease (LatestVersion i)) \<and> (DownloadURL i = [] \<or> SafeURL (DownloadURL i)) \<and>
      (ReleasePage i = [] \<or> SafeURL (ReleasePage i)))"

lemma valid_no_info: "valid_info no_info"
  by (simp add: valid_info_def no_info_def)

lemma NormalizeRelease_Nil: "NormalizeRelease [] = None"
proof -
  have "strings_TrimSpace [] = []"
    by (simp add: strings_TrimSpace_def trim_left.simps trim_right.simps space_bytes_def HasPrefix_def HasSuffix_def)
  then show ?thesis by (simp add: parse_eval)
qed

lemma normalized_release:
  "v = [] \<or> IsRelease v \<Longrightarrow> NormalizeDefaultURLVersion v d r = [] \<or> IsRelease (NormalizeDefaultURLVersion v d r)"
  using NormalizeRelease_parse [of v] NormalizeRelease_Nil
  by (fastforce simp: NormalizeDefaultURLVersion_def IsRelease_iff split: option.split)

lemma merge_valid: "valid_info b \<Longrightarrow> valid_info i \<Longrightarrow> valid_info (mergeUpdateInfo b i)"
proof -
  assume vb: "valid_info b" and vi: "valid_info i"
  define l where "l = (if LatestVersion i = [] then LatestVersion b else LatestVersion i)"
  define d where "d = (if DownloadURL i = [] then DownloadURL b else DownloadURL i)"
  define r where "r = (if ReleasePage i = [] then ReleasePage b else ReleasePage i)"
  have m: "mergeUpdateInfo b i = i\<lparr>DownloadURL := d, ReleasePage := r, LatestVersion := NormalizeDefaultURLVersion l d r\<rparr>"
    unfolding mergeUpdateInfo_def Let_def l_def d_def r_def by (cases i) simp
  have "l = [] \<or> IsRelease l" "d = [] \<or> SafeURL d" "r = [] \<or> SafeURL r"
    using vb vi by (auto simp: valid_info_def l_def d_def r_def)
  then show ?thesis
    using normalized_release [of l d r] unfolding m valid_info_def by simp
qed

lemma parse_file_valid: "parseUpdateInfoFile strict data = Some i \<Longrightarrow> valid_info i"
  using valid_no_info by (auto simp: parseUpdateInfoFile_def valid_info_def Let_def split: option.splits if_splits)

lemma read_valid: "readUpdateInfoFile strict envelope obs st = (st1, Some (i, c)) \<Longrightarrow> valid_info i"
  using parse_file_valid valid_no_info
  by (auto simp: readUpdateInfoFile_def Let_def split: file_obs.splits option.splits if_splits)

text \<open>The polling loop of \<open>updateInfoLoop\<close> over a sequence of observations.\<close>

definition poll ::
  "(bytes \<Rightarrow> UpdateInfo option) \<Rightarrow> (bytes \<Rightarrow> string option) \<Rightarrow> UpdateInfo \<Rightarrow> file_obs list \<Rightarrow>
   updateInfoFileState \<times> UpdateInfo \<Rightarrow> updateInfoFileState \<times> UpdateInfo" where
  "poll strict envelope base obss sv = foldl (\<lambda>s obs. fst (reloadUpdateInfoFile strict envelope base obs s)) sv obss"

definition poll_inv :: "UpdateInfo \<Rightarrow> updateInfoFileState \<times> UpdateInfo \<Rightarrow> bool" where
  "poll_inv base sv = (valid_info (snd sv) \<and> (\<not> fs_exists (fst sv) \<longrightarrow> snd sv = base))"

lemma reload_inv:
  assumes "valid_info base" "poll_inv base sv"
  shows "poll_inv base (fst (reloadUpdateInfoFile strict envelope base obs sv))"
proof -
  obtain st v where sv: "sv = (st, v)" by (cases sv)
  obtain st1 res where r: "readUpdateInfoFile strict envelope obs st = (st1, res)" by fastforce
  show ?thesis
  proof (cases res)
    case None
    then have "st1 = st \<or> fs_exists st1"
      using r by (auto simp: readUpdateInfoFile_def rememberUpdateInfoFileMetadata_def Let_def
          split: file_obs.splits option.splits if_splits)
    with None r assms show ?thesis by (auto simp: sv reloadUpdateInfoFile_def poll_inv_def)
  next
    case (Some p)
    obtain i c where p: "p = (i, c)" by (cases p)
    have i: "valid_info i" using read_valid r Some p by blast
    show ?thesis
    proof (cases c)
      case True
      with r Some p i assms show ?thesis
        by (auto simp: sv reloadUpdateInfoFile_def poll_inv_def merge_valid)
    next
      case False
      with r Some p have "fs_exists st1 = fs_exists st"
        by (auto simp: readUpdateInfoFile_def Let_def split: file_obs.splits option.splits if_splits)
      with False r Some p assms show ?thesis by (auto simp: sv reloadUpdateInfoFile_def poll_inv_def)
    qed
  qed
qed

lemma poll_keeps: "valid_info base \<Longrightarrow> poll_inv base sv \<Longrightarrow> poll_inv base (poll strict envelope base obss sv)"
  by (induction obss arbitrary: sv) (auto simp: poll_def reload_inv)

text \<open>
  Hot reloading never announces anything unfit: over any sequence of observations of the
  announcement file (missing, unreadable, oversized, malformed, changing), with any JSON
  decoder, the announced version is empty or a release and the links are empty or safe URLs,
  given that the configured ones are; a reload that fails leaves the announcement as it was;
  and once the file is gone the configured announcement is back.
\<close>

theorem announcement_always_valid:
  assumes "valid_info base"
  shows "valid_info (snd (poll strict envelope base obss (no_file_state, base))) \<and>
    snd (poll strict envelope base (obss @ [NotExist]) (no_file_state, base)) = base \<and>
    (\<not> snd (reloadUpdateInfoFile strict envelope base obs sv) \<longrightarrow>
       snd (fst (reloadUpdateInfoFile strict envelope base obs sv)) = snd sv)"
proof -
  have "poll_inv base (no_file_state, base)"
    using assms by (simp add: poll_inv_def no_file_state_def)
  then have inv: "poll_inv base (poll strict envelope base os (no_file_state, base))" for os
    by (rule poll_keeps [OF assms])
  have "\<not> fs_exists (fst (fst (reloadUpdateInfoFile strict envelope base NotExist s)))" for s
    by (cases s) (simp add: reloadUpdateInfoFile_def readUpdateInfoFile_def)
  then have gone: "\<not> fs_exists (fst (poll strict envelope base (obss @ [NotExist]) (no_file_state, base)))"
    by (simp add: poll_def)
  have again: "snd (poll strict envelope base (obss @ [NotExist]) (no_file_state, base)) = base"
    using inv [of "obss @ [NotExist]"] gone unfolding poll_inv_def by blast
  have "\<not> snd (reloadUpdateInfoFile strict envelope base obs sv) \<longrightarrow>
        snd (fst (reloadUpdateInfoFile strict envelope base obs sv)) = snd sv"
    by (auto simp: reloadUpdateInfoFile_def split: prod.splits option.splits if_splits)
  with inv [of obss] again show ?thesis by (simp only: poll_inv_def simp_thms)
qed

definition demo_info :: UpdateInfo where
  "demo_info = \<lparr>LatestVersion = ''v1.2.3'', DownloadURL = [], ReleasePage = ''https://example.org/r''\<rparr>"

theorem announcement_always_valid_witness:
  "snd (poll (\<lambda>_. Some \<lparr>LatestVersion = ''none'', DownloadURL = [], ReleasePage = []\<rparr>) (\<lambda>_. Some ''none'') demo_info
          [Regular 2 7 (Some [123, 125])] (no_file_state, demo_info)) = no_info \<and>
   snd (poll (\<lambda>_. Some \<lparr>LatestVersion = ''none'', DownloadURL = [], ReleasePage = []\<rparr>) (\<lambda>_. Some ''none'') demo_info
          ([Regular 2 7 (Some [123, 125])] @ [NotExist]) (no_file_state, demo_info)) = demo_info"
proof -
  have none: "EqualFold (strings_TrimSpace ''none'') ''none''"
    by (simp add: TrimSpace_solid solid_def EqualFold_def runes_Cons_ascii fold_rune_def)
  have trim: "strings_TrimSpace ''none'' = ''none''"
    by (simp add: TrimSpace_solid solid_def)
  have v: "valid_info demo_info"
    by (simp add: valid_info_def demo_info_def parse_eval SafeURL_def runes_Cons_ascii unsafe_rune_def)
  show ?thesis
    using announcement_always_valid [OF v, of "\<lambda>_. Some \<lparr>LatestVersion = ''none'', DownloadURL = [], ReleasePage = []\<rparr>"
        "\<lambda>_. Some ''none''" "[Regular 2 7 (Some [123, 125])]"] none
    by (simp add: trim poll_def reloadUpdateInfoFile_def readUpdateInfoFile_def parseUpdateInfoFile_def
        rememberUpdateInfoFileMetadata_def maxUpdateInfoFileBytes_def no_file_state_def)
qed

end
