(* ===== verification/Relay_Server.thy ===== *)
theory Relay_Server
  imports Session_Manager Stun_Server Relay_Limits Relay_Notice Proto
begin

text \<open>
  The relay server, \<^verbatim>\<open>internal/relay/server.go\<close>, with the entry of QUIC connections
  (\<^verbatim>\<open>quic_listener.go\<close>): configuration, admission of connections, the read loop and the
  per-connection state machine (\<open>handleMessage\<close>) with its handlers, the end of a connection,
  the periodic cleanup, the poll of the announcement file and the debounce callback, on top of
  the session table and the STUN server.

  A handler returns the new server, the new connection state, the list of its effects on
  connections (in order) and whether the read loop closes the connection; \<open>None\<close> where the
  source has not returned yet (identifier collisions, throttling) or panics. Payloads are
  bytes; their JSON decoders are the parameter \<open>dec\<close>. What a handler draws from its
  environment (one reading of the clock per handler, random numbers) is in \<open>env\<close>. Texts of
  errors and logging are not modelled, sampling counters are. A write to a connection is an
  effect; that it may fail and then closes the connection is left to the environment.
\<close>

section \<open>Messages\<close>

definition MsgRegisterRequest :: string where "MsgRegisterRequest = ''register_request''"
definition MsgJoinRequest :: string where "MsgJoinRequest = ''join_request''"
definition MsgTunnelData :: string where "MsgTunnelData = ''tunnel_data''"
definition MsgHeartbeat :: string where "MsgHeartbeat = ''heartbeat''"
definition MsgPeerAddrAdvertise :: string where "MsgPeerAddrAdvertise = ''peer_addr_advertise''"
definition MsgP2PConnected :: string where "MsgP2PConnected = ''p2p_connected''"

definition tool_msgs :: "string list" where
  "tool_msgs = [''tool_hello'', ''tool_hello_ack'', ''tool_req'', ''tool_resp'', ''tool_stream'', ''tool_cancel'']"

record RegisterRequest =
  rq_ClientID :: string
  rq_Version :: string
  rq_Host :: string
  rq_SupportsUpdateNotice :: bool

record JoinRequest =
  jq_Code :: string
  jq_Version :: string
  jq_Host :: string
  jq_SupportsUpdateNotice :: bool

record PeerAddrAdvertise =
  pa_PublicAddr :: string
  pa_PrivateAddr :: string
  pa_NATType :: string

text \<open>What the relay sends: the constructors are the message types, with the fields it sets.\<close>

datatype server_msg =
    RegisterResponse string int UpdateInfo "string list"  \<comment> \<open>code, expiry, update, STUN servers\<close>
  | JoinOK string string string UpdateInfo "string list"  \<comment> \<open>session, peer version, peer host\<close>
  | JoinFailed
  | SessionReady string string string                     \<comment> \<open>session, peer version, peer host\<close>
  | ErrorMessage string                                    \<comment> \<open>code\<close>
  | PeerAddrReady string string bool bool string          \<comment> \<open>public, private, is share, same network, NAT\<close>
  | TunnelData bytes
  | Heartbeat int
  | Forward Message

datatype effect = Send ClientConn server_msg | Close ClientConn

definition sendMsg :: "ClientConn \<Rightarrow> server_msg \<Rightarrow> effect list" where
  "sendMsg c m = (if cc_Conn c = None then [] else [Send c m])"

record decoders =
  dec_Message :: "bytes \<Rightarrow> Message option"
  dec_Register :: "bytes \<Rightarrow> RegisterRequest option"
  dec_Join :: "bytes \<Rightarrow> JoinRequest option"
  dec_Advertise :: "bytes \<Rightarrow> PeerAddrAdvertise option"

record env =
  e_now :: int
  e_clock :: "int list"          \<comment> \<open>readings of the clock in the throttling loop\<close>
  e_draws :: "nat option list"   \<comment> \<open>random numbers for a code\<close>
  e_ids :: "string list"         \<comment> \<open>drawn session identifiers\<close>

section \<open>Server state\<close>

text \<open>The fields of the configuration that the logic reads; addresses, certificates and the audit log are not.\<close>

record Config =
  cfg_CodeTTL :: int
  cfg_CodeLength :: int
  cfg_NoAuth :: bool
  cfg_DisableSourceIPLimits :: bool
  cfg_Limits :: relay_Limits
  cfg_Update :: UpdateInfo
  cfg_UpdateInfoFile :: string
  cfg_AdvertiseSTUN :: "string list"

record Server =
  sv_config :: Config
  sv_codes :: int
  sv_limits :: relay_Limits
  sv_updateInfo :: UpdateInfo
  sv_updateInfoBase :: UpdateInfo
  sv_updateInfoFile :: string
  sv_fileState :: updateInfoFileState
  sv_sessions :: SessionManager
  sv_clients :: "(string, unit) gomap"
  sv_stunServer :: "STUNServer option"
  connTotal :: int
  connPerIP :: "(string, int) gomap"
  joinLimiterPerIP :: KeyedLimiter
  joinLimiterGlobal :: Bucket
  createLimiterPerIP :: KeyedLimiter
  createLimiterGlobal :: Bucket
  heartbeatLimiterPerIP :: KeyedLimiter
  heartbeatLimiterGlobal :: Bucket
  tunnelDataLimiterPerConn :: KeyedLimiter
  tunnelDataLimiterGlobal :: Bucket
  controlLimiterPerConn :: KeyedLimiter
  controlLimiterGlobal :: Bucket
  toolLimiterPerConn :: KeyedLimiter
  toolLimiterGlobal :: Bucket
  rejectSampleCtr :: "64 word"
  logSampleCtr :: "64 word"
  p2pSampleCtr :: "64 word"
  toolThrottleSampleCtr :: "64 word"

text \<open>The state of a connection that only its own read loop touches.\<close>

record Client =
  cl_conn :: ClientConn
  joinFailures :: int

definition connStateNew :: string where "connStateNew = []"
definition connStateShare :: string where "connStateShare = ''share''"
definition connStateHelp :: string where "connStateHelp = ''help''"

definition NoAuthCode :: string where "NoAuthCode = ''noauth''"

definition sourceIPLimitsDisabled :: "Server \<Rightarrow> bool" where
  "sourceIPLimitsDisabled s = cfg_DisableSourceIPLimits (sv_config s)"

definition keyed :: "(relay_Limits \<Rightarrow> rat) \<Rightarrow> (relay_Limits \<Rightarrow> rat) \<Rightarrow> relay_Limits \<Rightarrow> KeyedLimiter" where
  "keyed rt brst l = NewKeyedLimiter (rt l) (brst l) (rl_LimiterMaxKeys l) (rl_LimiterIdleSeconds l * second)"

datatype config_error = InvalidLimits limit_error | InvalidAdvertiseSTUN | UpdateInfoFileNotAbsolute

text \<open>
  The server \<open>NewServer\<close> builds before it reads the announcement file. \<open>filepath.IsAbs\<close> is that
  of Unix. The STUN server is the one \<open>StartWithContextReady\<close> starts, if any.
\<close>

definition buildServer :: "Config \<Rightarrow> relay_Limits \<Rightarrow> UpdateInfo \<Rightarrow> STUNServer option \<Rightarrow> int \<Rightarrow> Server" where
  "buildServer cfg l base stun now =
     \<lparr>sv_config = cfg, sv_codes = NewCodeManager (cfg_CodeLength cfg), sv_limits = l,
      sv_updateInfo = base, sv_updateInfoBase = base, sv_updateInfoFile = cfg_UpdateInfoFile cfg, sv_fileState = no_file_state,
      sv_sessions = NewSessionManager (cfg_CodeTTL cfg), sv_clients = mempty, sv_stunServer = stun,
      connTotal = 0, connPerIP = mempty,
      joinLimiterPerIP = keyed rl_JoinRatePerIP rl_JoinBurstPerIP l,
      joinLimiterGlobal = NewBucket (rl_JoinRateGlobal l) (rl_JoinBurstGlobal l) now,
      createLimiterPerIP = keyed rl_CreateRatePerIP rl_CreateBurstPerIP l,
      createLimiterGlobal = NewBucket (rl_CreateRateGlobal l) (rl_CreateBurstGlobal l) now,
      heartbeatLimiterPerIP = keyed rl_HeartbeatRatePerIP rl_HeartbeatBurstPerIP l,
      heartbeatLimiterGlobal = NewBucket (rl_HeartbeatRateGlobal l) (rl_HeartbeatBurstGlobal l) now,
      tunnelDataLimiterPerConn = keyed rl_DataRatePerConnection rl_DataBurstPerConnection l,
      tunnelDataLimiterGlobal = NewBucket (rl_DataRateGlobal l) (rl_DataBurstGlobal l) now,
      controlLimiterPerConn = keyed rl_ControlRatePerConnection rl_ControlBurstPerConnection l,
      controlLimiterGlobal = NewBucket (rl_ControlRateGlobal l) (rl_ControlBurstGlobal l) now,
      toolLimiterPerConn = keyed rl_ToolRateKiBPerConnection rl_ToolBurstKiBPerConnection l,
      toolLimiterGlobal = NewBucket (rl_ToolRateKiBGlobal l) (rl_ToolBurstKiBGlobal l) now,
      rejectSampleCtr = 0, logSampleCtr = 0, p2pSampleCtr = 0, toolThrottleSampleCtr = 0\<rparr>"

text \<open>One poll of the announcement file (\<open>reloadUpdateInfoFile\<close> on the server).\<close>

definition updateInfoTick ::
  "(bytes \<Rightarrow> UpdateInfo option) \<Rightarrow> (bytes \<Rightarrow> string option) \<Rightarrow> file_obs \<Rightarrow> Server \<Rightarrow> Server" where
  "updateInfoTick strict envelope obs s =
     (if sv_updateInfoFile s = [] then s
      else let ((st, v), _) = reloadUpdateInfoFile strict envelope (sv_updateInfoBase s) obs (sv_fileState s, sv_updateInfo s)
           in s\<lparr>sv_fileState := st, sv_updateInfo := v\<rparr>)"

definition NewServer ::
  "(bytes \<Rightarrow> UpdateInfo option) \<Rightarrow> (bytes \<Rightarrow> string option) \<Rightarrow> file_obs \<Rightarrow> STUNServer option \<Rightarrow> int \<Rightarrow> Config \<Rightarrow>
   config_error + Server" where
  "NewServer strict envelope obs stun now cfg0 =
     (let cfg1 = (if cfg_CodeTTL cfg0 = 0 then cfg0\<lparr>cfg_CodeTTL := 30 * minute\<rparr> else cfg0);
          cfg2 = (if cfg_CodeLength cfg1 = 0 then cfg1\<lparr>cfg_CodeLength := 10\<rparr> else cfg1);
          l = relay_normalizeLimits (cfg_Limits cfg2)
      in case relay_ValidateLimits l of
           Some e \<Rightarrow> Inl (InvalidLimits e)
         | None \<Rightarrow>
             if \<not> ValidateAdvertiseSTUN (cfg_AdvertiseSTUN cfg2) then Inl InvalidAdvertiseSTUN
             else if cfg_UpdateInfoFile cfg2 \<noteq> [] \<and> \<not> HasPrefix (cfg_UpdateInfoFile cfg2) ''/''
             then Inl UpdateInfoFileNotAbsolute
             else let base = normalizeUpdateInfo (cfg_Update cfg2);
                      cfg3 = cfg2\<lparr>cfg_Limits := l, cfg_Update := base\<rparr>
                  in Inr (updateInfoTick strict envelope obs (buildServer cfg3 l base stun now)))"

section \<open>Admission\<close>

definition acquireConnSlot :: "string \<Rightarrow> Server \<Rightarrow> Server \<times> bool" where
  "acquireConnSlot ip s =
     (if connTotal s \<ge> rl_MaxConnectionsTotal (sv_limits s) then (s, False)
      else if \<not> sourceIPLimitsDisabled s \<and> mget0 (connPerIP s) ip \<ge> rl_MaxConnectionsPerIP (sv_limits s)
      then (s, False)
      else (s\<lparr>connTotal := connTotal s + 1, connPerIP := mput ip (mget0 (connPerIP s) ip + 1) (connPerIP s)\<rparr>, True))"

definition releaseConnSlot :: "string \<Rightarrow> Server \<Rightarrow> Server" where
  "releaseConnSlot ip s =
     (case mget (connPerIP s) ip of
        None \<Rightarrow> s
      | Some cur \<Rightarrow>
          s\<lparr>connPerIP := (if cur \<le> 1 then mdel ip (connPerIP s) else mput ip (cur - 1) (connPerIP s)),
            connTotal := (if connTotal s > 0 then connTotal s - 1 else connTotal s)\<rparr>)"

definition sampleHit :: "64 word \<Rightarrow> 64 word \<Rightarrow> bool" where
  "sampleHit n every = (every \<le> 1 \<or> (n - 1) mod every = 0)"

definition logSampled :: "Server \<Rightarrow> Server" where
  "logSampled s = s\<lparr>logSampleCtr := logSampleCtr s + 1\<rparr>"

definition logP2PSampled :: "Server \<Rightarrow> Server" where
  "logP2PSampled s = s\<lparr>p2pSampleCtr := p2pSampleCtr s + 1\<rparr>"

definition logToolThrottleSampled :: "Server \<Rightarrow> Server" where
  "logToolThrottleSampled s = s\<lparr>toolThrottleSampleCtr := toolThrottleSampleCtr s + 1\<rparr>"

definition allowDataMessage :: "ClientConn \<Rightarrow> int \<Rightarrow> Server \<Rightarrow> Server \<times> bool" where
  "allowDataMessage c now s =
     (let (k, ok) = KeyedLimiter_Allow (cc_ID c) now (tunnelDataLimiterPerConn s);
          s1 = s\<lparr>tunnelDataLimiterPerConn := k\<rparr>
      in if \<not> ok then (logSampled s1, False)
         else let (g, ok2) = Bucket_Allow now (tunnelDataLimiterGlobal s1);
                  s2 = s1\<lparr>tunnelDataLimiterGlobal := g\<rparr>
              in if \<not> ok2 then (logSampled s2, False) else (s2, True))"

definition allowControlMessage :: "ClientConn \<Rightarrow> int \<Rightarrow> Server \<Rightarrow> Server \<times> bool" where
  "allowControlMessage c now s =
     (let (k, ok) = KeyedLimiter_Allow (cc_ID c) now (controlLimiterPerConn s);
          s1 = s\<lparr>controlLimiterPerConn := k\<rparr>
      in if \<not> ok then (logSampled s1, False)
         else let (g, ok2) = Bucket_Allow now (controlLimiterGlobal s1);
                  s2 = s1\<lparr>controlLimiterGlobal := g\<rparr>
              in if \<not> ok2 then (logSampled s2, False) else (s2, True))"

text \<open>
  The loop of \<open>allowToolMessage\<close>, one clock reading per round; \<open>None\<close> when the readings end
  while it is still waiting.
\<close>

fun toolWait :: "string \<Rightarrow> rat \<Rightarrow> int \<Rightarrow> bool \<Rightarrow> bool \<Rightarrow> int list \<Rightarrow> Server \<Rightarrow> (Server \<times> bool) option" where
  "toolWait key cost deadline paid throttled [] s = None"
| "toolWait key cost deadline paid throttled (t # ts) s =
     (let (k, paid') = (if paid then (toolLimiterPerConn s, True)
                        else KeyedLimiter_AllowN key cost t (toolLimiterPerConn s));
          s1 = s\<lparr>toolLimiterPerConn := k\<rparr>;
          (g, ok) = (if paid' then Bucket_AllowN cost t (toolLimiterGlobal s1) else (toolLimiterGlobal s1, False));
          s2 = s1\<lparr>toolLimiterGlobal := g\<rparr>
      in if paid' \<and> ok then Some (s2, True)
         else let s3 = (if throttled then s2 else logToolThrottleSampled s2)
              in if \<not> t < deadline then Some (logSampled s3, False)
                 else toolWait key cost deadline paid' True ts s3)"

definition toolCost :: "nat \<Rightarrow> rat" where
  "toolCost payloadBytes =
     (let cost = of_nat ((payloadBytes + 1023) div 1024)
      in if cost < toolMinFrameCostKiB then toolMinFrameCostKiB else cost)"

definition allowToolMessage :: "ClientConn \<Rightarrow> nat \<Rightarrow> int \<Rightarrow> int list \<Rightarrow> Server \<Rightarrow> (Server \<times> bool) option" where
  "allowToolMessage c payloadBytes start clock s =
     toolWait (cc_ID c) (toolCost payloadBytes) (start + toolThrottleMaxWait) False False clock s"

definition clientHost :: "ClientConn \<Rightarrow> string" where
  "clientHost c =
     (case cc_Conn c of
        None \<Rightarrow> []
      | Some addr \<Rightarrow> (case SplitHostPort addr of None \<Rightarrow> addr | Some (h, _) \<Rightarrow> h))"

text \<open>\<open>registerClient\<close>: the identifier that took effect; \<open>None\<close> while every drawn one is taken.\<close>

definition registerClient :: "ClientConn \<Rightarrow> string list \<Rightarrow> Server \<Rightarrow> (Server \<times> ClientConn) option" where
  "registerClient c ids s =
     (case find (\<lambda>i. mget (sv_clients s) i = None) (cc_ID c # ids) of
        None \<Rightarrow> None
      | Some i \<Rightarrow> Some (s\<lparr>sv_clients := mput i () (sv_clients s)\<rparr>, c\<lparr>cc_ID := i\<rparr>))"

text \<open>
  The source address of a connection, without its port if it has one, is what slots are
  counted by. \<open>handleConn\<close> up to the read loop: the connection's state, or none when the
  connection is refused.
\<close>

definition conn_host :: "string \<Rightarrow> string" where
  "conn_host addr = (case SplitHostPort addr of None \<Rightarrow> addr | Some (h, _) \<Rightarrow> h)"

definition new_conn :: "string \<Rightarrow> string \<Rightarrow> ClientConn" where
  "new_conn addr clientID =
     \<lparr>cc_ID = clientID, cc_Type = connStateNew, cc_ClientID = [], cc_Version = [], cc_Host = [],
      cc_supportsUpdateNotice = False, cc_Conn = Some addr\<rparr>"

definition startConn :: "string \<Rightarrow> string list \<Rightarrow> Server \<Rightarrow> (Server \<times> Client option) option" where
  "startConn addr ids s =
     (case ids of
        [] \<Rightarrow> None
      | i # is \<Rightarrow>
          (case registerClient (new_conn addr i) is s of
             None \<Rightarrow> None
           | Some (s1, c) \<Rightarrow> Some (s1, Some \<lparr>cl_conn = c, joinFailures = 0\<rparr>)))"

definition handleConn :: "string \<Rightarrow> string list \<Rightarrow> Server \<Rightarrow> (Server \<times> Client option) option" where
  "handleConn addr ids s =
     (let (s1, ok) = acquireConnSlot (conn_host addr) s
      in if \<not> ok then Some (s1, None) else startConn addr ids s1)"

text \<open>\<open>opened\<close> tells whether the client opened its stream in time.\<close>

definition acceptQUICConn :: "string \<Rightarrow> bool \<Rightarrow> string list \<Rightarrow> Server \<Rightarrow> (Server \<times> Client option) option" where
  "acceptQUICConn addr opened ids s =
     (let (s1, ok) = acquireConnSlot (conn_host addr) s
      in if \<not> ok then Some (s1, None)
         else if \<not> opened then Some (releaseConnSlot (conn_host addr) s1, None)
         else startConn addr ids s1)"

definition invalidateRelay :: "string \<Rightarrow> Server \<Rightarrow> Server" where
  "invalidateRelay sid s = s\<lparr>sv_stunServer := map_option (InvalidateRelaySession sid) (sv_stunServer s)\<rparr>"

section \<open>Handlers\<close>

definition perIPAllow :: "Server \<Rightarrow> string \<Rightarrow> int \<Rightarrow> KeyedLimiter \<Rightarrow> KeyedLimiter \<times> bool" where
  "perIPAllow s host now k = (if sourceIPLimitsDisabled s then (k, True) else KeyedLimiter_Allow host now k)"

text \<open>
  The end of a successful registration: publish the share after its response, then ask the
  previous helper to join again.
\<close>

definition finishRegister ::
  "Client \<Rightarrow> string \<Rightarrow> string \<Rightarrow> int \<Rightarrow> ClientConn option \<Rightarrow> Server \<Rightarrow> effect list \<Rightarrow> Server \<times> Client \<times> effect list \<times> bool" where
  "finishRegister client sessionID code expiresAt oldHelp s effs =
     (let c = (cl_conn client)\<lparr>cc_Type := connStateShare\<rparr>;
          client1 = client\<lparr>cl_conn := c\<rparr>;
          effs1 = effs @ sendMsg c (RegisterResponse code (expiresAt div second) (sv_updateInfo s) (cfg_AdvertiseSTUN (sv_config s)));
          (sm, ready) = MarkShareReady sessionID (cc_ID c) (sv_sessions s);
          s1 = s\<lparr>sv_sessions := sm\<rparr>
      in if \<not> ready then (s1, client1, effs1, True)
         else (s1, client1,
               effs1 @ (case oldHelp of
                          None \<Rightarrow> []
                        | Some h \<Rightarrow> if cc_Conn h = None then []
                                    else sendMsg h (ErrorMessage ''PEER_RECONNECTED'') @ [Close h]), False))"

definition handleRegister :: "env \<Rightarrow> Client \<Rightarrow> Server \<Rightarrow> (Server \<times> Client \<times> effect list \<times> bool) option" where
  "handleRegister e client s =
     (let c = cl_conn client;
          host = clientHost c;
          (k, ok) = perIPAllow s host (e_now e) (createLimiterPerIP s);
          s1 = s\<lparr>createLimiterPerIP := k\<rparr>
      in if \<not> ok then Some (s1, client, sendMsg c (ErrorMessage ''RATE_LIMITED''), True)
         else let (g, ok2) = Bucket_Allow (e_now e) (createLimiterGlobal s1);
                  s2 = s1\<lparr>createLimiterGlobal := g\<rparr>
              in if \<not> ok2 then Some (s2, client, sendMsg c (ErrorMessage ''RATE_LIMITED''), True)
                 else let (sm, res, reused) =
                            (if cc_ClientID c \<noteq> [] then ReuseSessionByClientID (cc_ClientID c) c (e_now e) (sv_sessions s2)
                             else (sv_sessions s2, None, False));
                          s3 = s2\<lparr>sv_sessions := sm\<rparr>
                      in if \<not> reused \<and> (case res of None \<Rightarrow> False | Some r \<Rightarrow> Conflict r)
                         then Some (s3, client, sendMsg c (ErrorMessage ''CLIENT_ID_CONFLICT''), True)
                         else case (if reused then res else None) of
                           Some r \<Rightarrow>
                             Some (finishRegister client (rr_SessionID r) (rr_Code r) (rr_ExpiresAt r) (OldHelp r)
                                    (invalidateRelay (rr_SessionID r) s3)
                                    (case OldShare r of
                                       None \<Rightarrow> []
                                     | Some o1 \<Rightarrow> if cc_ID o1 \<noteq> cc_ID c \<and> cc_Conn o1 \<noteq> None then [Close o1] else []))
                         | None \<Rightarrow>
                             (case (if cfg_NoAuth (sv_config s3) then Some NoAuthCode
                                    else generateCode (nat (sv_codes s3)) (e_draws e)) of
                                None \<Rightarrow> Some (s3, client, sendMsg c (ErrorMessage ''CODE_GEN_FAILED''), True)
                              | Some code \<Rightarrow>
                                  (case createSession code (Some c) (cfg_CodeTTL (sv_config s3)) (cc_ClientID c) host
                                          (if sourceIPLimitsDisabled s3 then 0 else rl_MaxActiveSessionsPerIP (sv_limits s3))
                                          (rl_MaxActiveSessionsTotal (sv_limits s3)) False (e_now e) (e_ids e) (sv_sessions s3) of
                                     None \<Rightarrow> None
                                   | Some (sm2, Inl _) \<Rightarrow>
                                       Some (s3\<lparr>sv_sessions := sm2\<rparr>, client, sendMsg c (ErrorMessage ''SESSION_LIMIT''), True)
                                   | Some (sm2, Inr r) \<Rightarrow>
                                       Some (finishRegister client (ts_ID (sess sm2 r)) code (ExpiresAt (sess sm2 r)) None
                                         (s3\<lparr>sv_sessions := sm2\<rparr>) []))))"

definition rejectJoin :: "Client \<Rightarrow> Server \<Rightarrow> Server \<times> Client \<times> effect list \<times> bool" where
  "rejectJoin client s =
     (let client1 = client\<lparr>joinFailures := joinFailures client + 1\<rparr>
      in (s\<lparr>rejectSampleCtr := rejectSampleCtr s + 1\<rparr>, client1, sendMsg (cl_conn client) JoinFailed,
          joinFailures client1 \<ge> rl_MaxJoinFailures (sv_limits s)))"

definition handleJoin :: "env \<Rightarrow> Client \<Rightarrow> string \<Rightarrow> Server \<Rightarrow> Server \<times> Client \<times> effect list \<times> bool" where
  "handleJoin e client code0 s =
     (let code = normalizeCode code0;
          c = cl_conn client;
          host = clientHost c;
          (k, ok) = perIPAllow s host (e_now e) (joinLimiterPerIP s);
          s1 = s\<lparr>joinLimiterPerIP := k\<rparr>
      in if \<not> ok then rejectJoin client s1
         else let (g, ok2) = Bucket_Allow (e_now e) (joinLimiterGlobal s1);
                  s2 = s1\<lparr>joinLimiterGlobal := g\<rparr>
              in if \<not> ok2 then rejectJoin client s2
                 else case JoinSession code c (e_now e) (sv_sessions s2) of
                        (sm, Inl _) \<Rightarrow> rejectJoin client (s2\<lparr>sv_sessions := sm\<rparr>)
                      | (sm, Inr jr) \<Rightarrow>
                          let s3 = invalidateRelay (jr_SessionID jr) (s2\<lparr>sv_sessions := sm\<rparr>);
                              (sm2, active) = ActivateDataPlane (jr_SessionID jr) (jr_ShareID jr) (cc_ID c) (sv_sessions s3);
                              s4 = s3\<lparr>sv_sessions := sm2\<rparr>
                          in if \<not> active
                             then rejectJoin client (s4\<lparr>sv_sessions := RollbackJoin (jr_SessionID jr) (cc_ID c) sm2\<rparr>)
                             else let c1 = c\<lparr>cc_Type := connStateHelp\<rparr>
                                  in (s4, client\<lparr>cl_conn := c1, joinFailures := 0\<rparr>,
                                      sendMsg c1 (JoinOK (jr_SessionID jr) (jr_ShareVersion jr)
                                          (legacyHelpUpdateHost (sv_updateInfo s4) c1 (jr_ShareHost jr)) (sv_updateInfo s4) (cfg_AdvertiseSTUN (sv_config s4)))
                                      @ sendMsg (jr_Share jr) (SessionReady (jr_SessionID jr) (cc_Version c1)
                                          (legacyShareSessionReadyHost (sv_updateInfo s4) (jr_Share jr) (cc_Host c1))), False))"

definition forwardToPeer :: "ClientConn \<Rightarrow> Message \<Rightarrow> Server \<Rightarrow> effect list" where
  "forwardToPeer c msg s =
     (case FindPeer (cc_ID c) (sv_sessions s) of None \<Rightarrow> [] | Some target \<Rightarrow> sendMsg target (Forward msg))"

definition handleTunnelData :: "ClientConn \<Rightarrow> bytes \<Rightarrow> Server \<Rightarrow> effect list" where
  "handleTunnelData c payload s =
     (case FindPeer (cc_ID c) (sv_sessions s) of None \<Rightarrow> [] | Some target \<Rightarrow> sendMsg target (TunnelData payload))"

definition port_of :: "string \<Rightarrow> string" where
  "port_of hp = (case SplitHostPort hp of None \<Rightarrow> [] | Some (_, p) \<Rightarrow> p)"

definition publicAddrFallback :: "ClientConn \<Rightarrow> PeerAddrAdvertise \<Rightarrow> Server \<Rightarrow> Server \<times> string" where
  "publicAddrFallback c advert s =
     (case cc_Conn c of
        None \<Rightarrow> (s, pa_PublicAddr advert)
      | Some remote \<Rightarrow>
          if pa_PublicAddr advert \<noteq> [] then (s, pa_PublicAddr advert)
          else (case SplitHostPort remote of
                  None \<Rightarrow> (s, [])
                | Some (host, _) \<Rightarrow>
                    if host = [] then (s, [])
                    else let privPort = port_of (pa_PrivateAddr advert)
                         in if privPort \<noteq> [] \<and> privPort \<noteq> ''0''
                            then (logP2PSampled s, JoinHostPort host privPort)
                            else (logP2PSampled s, [])))"

definition handlePeerAddrAdvertise ::
  "decoders \<Rightarrow> ClientConn \<Rightarrow> Message \<Rightarrow> Server \<Rightarrow> (Server \<times> effect list) option" where
  "handlePeerAddrAdvertise dec c msg s =
     (case dec_Advertise dec (msg_Payload msg) of
        None \<Rightarrow> Some (s, [])
      | Some advert \<Rightarrow>
          let (s1, pub) = publicAddrFallback c advert s
          in case UpdatePeerAddr (cc_ID c) pub (pa_PrivateAddr advert) (pa_NATType advert) (sv_sessions s1) of
               None \<Rightarrow> None
             | Some (sm, pu) \<Rightarrow>
                 let s2 = s1\<lparr>sv_sessions := sm\<rparr>
                 in (case pu of
                       None \<Rightarrow> Some (s2, [])
                     | Some u \<Rightarrow>
                         Some (logP2PSampled s2,
                               sendMsg (pu_Peer u) (PeerAddrReady pub (pa_PrivateAddr advert) (IsShareSide u)
                                 (SameNetwork u) (pu_NATType u)))))"

text \<open>The dispatch of a message of a registered connection.\<close>

definition handleBusiness ::
  "decoders \<Rightarrow> env \<Rightarrow> Client \<Rightarrow> Message \<Rightarrow> Server \<Rightarrow> (Server \<times> Client \<times> effect list \<times> bool) option" where
  "handleBusiness dec e client msg s =
     (let c = cl_conn client
      in if msg_Type msg = MsgTunnelData
         then let (s1, ok) = allowDataMessage c (e_now e) s
              in if \<not> ok then Some (s1, client, [], False)
                 else Some (s1, client, handleTunnelData c (msg_Payload msg) s1, False)
         else if msg_Type msg = MsgHeartbeat
         then let (k, ok) = perIPAllow s (clientHost c) (e_now e) (heartbeatLimiterPerIP s);
                  s1 = s\<lparr>heartbeatLimiterPerIP := k\<rparr>
              in if \<not> ok then Some (logSampled s1, client, [], False)
                 else let (g, ok2) = Bucket_Allow (e_now e) (heartbeatLimiterGlobal s1);
                          s2 = s1\<lparr>heartbeatLimiterGlobal := g\<rparr>
                      in if \<not> ok2 then Some (logSampled s2, client, [], False)
                         else Some (s2, client, sendMsg c (Heartbeat (e_now e div second)), False)
         else if msg_Type msg = MsgPeerAddrAdvertise
         then let (s1, ok) = allowControlMessage c (e_now e) s
              in if \<not> ok then Some (s1, client, [], False)
                 else map_option (\<lambda>(s2, effs). (s2, client, effs, False)) (handlePeerAddrAdvertise dec c msg s1)
         else if msg_Type msg = MsgP2PConnected
         then Some (fst (allowControlMessage c (e_now e) s), client, [], False)
         else case allowToolMessage c (length (msg_Payload msg)) (e_now e) (e_clock e) s of
                None \<Rightarrow> None
              | Some (s1, ok) \<Rightarrow>
                  if \<not> ok then Some (s1, client, sendMsg c (ErrorMessage ''RATE_LIMITED''), True)
                  else Some (s1, client, forwardToPeer c msg s1, False))"

definition business_msgs :: "string list" where
  "business_msgs = [MsgTunnelData, MsgHeartbeat, MsgPeerAddrAdvertise, MsgP2PConnected] @ tool_msgs"

definition handleMessage ::
  "decoders \<Rightarrow> env \<Rightarrow> Client \<Rightarrow> Message \<Rightarrow> Server \<Rightarrow> (Server \<times> Client \<times> effect list \<times> bool) option" where
  "handleMessage dec e client msg s =
     (let c = cl_conn client
      in if msg_Type msg = MsgRegisterRequest
         then (if cc_Type c \<noteq> connStateNew then Some (s, client, [], True)
               else case dec_Register dec (msg_Payload msg) of
                      None \<Rightarrow> Some (s, client, [], True)
                    | Some rq \<Rightarrow>
                        handleRegister e
                          (client\<lparr>cl_conn := c\<lparr>cc_ClientID := rq_ClientID rq, cc_Version := sanitizePeerString (rq_Version rq),
                             cc_Host := sanitizePeerString (rq_Host rq),
                             cc_supportsUpdateNotice := rq_SupportsUpdateNotice rq\<rparr>\<rparr>) s)
         else if msg_Type msg = MsgJoinRequest
         then (if cc_Type c \<noteq> connStateNew then Some (s, client, [], True)
               else case dec_Join dec (msg_Payload msg) of
                      None \<Rightarrow> Some (s, client, [], True)
                    | Some jq \<Rightarrow>
                        Some (handleJoin e
                          (client\<lparr>cl_conn := c\<lparr>cc_Version := sanitizePeerString (jq_Version jq),
                             cc_Host := sanitizePeerString (jq_Host jq),
                             cc_supportsUpdateNotice := jq_SupportsUpdateNotice jq\<rparr>\<rparr>) (jq_Code jq) s))
         else if msg_Type msg \<in> set business_msgs
         then (if cc_Type c = connStateNew then Some (s, client, [], True)
               else handleBusiness dec e client msg s)
         else Some (s, client, [], True))"

text \<open>
  One line of the read loop: a line that does not fit the scanner's buffer ends the loop, a
  carriage return in front of the line break is dropped.
\<close>

definition readLine ::
  "decoders \<Rightarrow> env \<Rightarrow> Client \<Rightarrow> bytes \<Rightarrow> Server \<Rightarrow> (Server \<times> Client \<times> effect list \<times> bool) option" where
  "readLine dec e client raw s =
     (if int (length raw) \<ge> maxMessageSize then Some (s, client, [], True)
      else let line = (if raw \<noteq> [] \<and> last raw = 13 then butlast raw else raw)
           in if line = [] then Some (s, client, [], False)
              else case dec_Message dec line of
                     None \<Rightarrow> Some (s, client, [], True)
                   | Some msg \<Rightarrow> handleMessage dec e client msg s)"

text \<open>The deferred end of \<open>serveConn\<close>, then the release of the slot by its caller.\<close>

definition endConn :: "Client \<Rightarrow> int \<Rightarrow> Server \<Rightarrow> Server \<times> effect list" where
  "endConn client now s =
     (let c = cl_conn client;
          s1 = s\<lparr>sv_clients := mdel (cc_ID c) (sv_clients s)\<rparr>;
          (sm, res) = DisconnectClient (cc_ID c) now (sv_sessions s1);
          s2 = s1\<lparr>sv_sessions := sm\<rparr>
      in case res of
           None \<Rightarrow> (s2, [Close c])
         | Some r \<Rightarrow>
             ((if ResetDataPlane r then invalidateRelay (dr_SessionID r) s2 else s2),
              (case PeerToNotify r of None \<Rightarrow> [] | Some p \<Rightarrow> sendMsg p (ErrorMessage ''PEER_DISCONNECTED'')) @ [Close c]))"

definition closeConn :: "string \<Rightarrow> Client \<Rightarrow> int \<Rightarrow> Server \<Rightarrow> Server \<times> effect list" where
  "closeConn addr client now s = (let (s1, effs) = endConn client now s in (releaseConnSlot (conn_host addr) s1, effs))"

text \<open>The debounce callback with \<open>notifyShareHelpGone\<close>.\<close>

definition helpTimer :: "nat \<Rightarrow> Server \<Rightarrow> Server \<times> effect list" where
  "helpTimer r s =
     (let (sm, share) = helpTimerFired r (sv_sessions s)
      in (s\<lparr>sv_sessions := sm\<rparr>,
          case share of None \<Rightarrow> [] | Some c \<Rightarrow> sendMsg c (ErrorMessage ''PEER_DISCONNECTED'')))"

text \<open>One tick of \<open>cleanupLoop\<close>.\<close>

definition cleanupTick :: "int \<Rightarrow> string list \<Rightarrow> Server \<Rightarrow> Server \<times> effect list" where
  "cleanupTick now order s =
     (let (sm, expired, toClose) = CleanupExpired now order (sv_sessions s)
      in (fold invalidateRelay expired (s\<lparr>sv_sessions := sm\<rparr>), map Close toClose))"

end
