(* ===== verification/Relay_System.thy ===== *)
theory Relay_System
  imports Session_Props Stun_Server_Props
begin

text \<open>
  Control plane and UDP relay together, at the granularity of their locks. The session table
  (\<^verbatim>\<open>internal/relay/session.go\<close>) takes one atomic step per method; a UDP worker
  (\<open>handleRelayPacket\<close> of \<^verbatim>\<open>internal/p2p/stun_server.go\<close>) holds \<open>relayMu\<close> from its second check of
  the data session to the end, and while it does the session table may move on but neither
  \<open>InvalidateRelaySession\<close> nor the cleanup of relay entries can run. \<open>sys_lock\<close> is the packet of
  the worker that holds \<open>relayMu\<close>, if any; its early check, made before it took the lock, may
  have seen any state.
\<close>

record sys =
  sys_sm :: SessionManager
  sys_stun :: STUNServer
  sys_lock :: "(bytes \<times> UDPAddr \<times> int) option"

datatype sys_event =
    Ctl sm_event
  | Serve bytes UDPAddr int
  | Answer bytes UDPAddr                                       \<comment> \<open>a worker on a STUN request\<close>
  | RelayBegin "(string \<Rightarrow> bytes \<Rightarrow> bool) option" bytes UDPAddr int
  | RelayEnd
  | Invalidate string
  | RelayCleanup int "string list"

definition packet_sid :: "bytes \<Rightarrow> string option" where
  "packet_sid data = map_option fst (parseRelayHeader data)"

text \<open>A packet passes up to and with the second check.\<close>

definition admitted :: "(string \<Rightarrow> bytes \<Rightarrow> bool) option \<Rightarrow> bytes \<Rightarrow> UDPAddr \<Rightarrow> SessionManager \<Rightarrow> bool" where
  "admitted v data from sm =
     (case parseRelayHeader data of
        None \<Rightarrow> False
      | Some (sid, payload) \<Rightarrow>
          payload \<noteq> [] \<and> (case v of None \<Rightarrow> False | Some f \<Rightarrow> f sid (udp_IP from)) \<and> IsActiveDataSource sid (udp_IP from) sm)"

definition relayEnd :: "bytes \<Rightarrow> UDPAddr \<Rightarrow> int \<Rightarrow> STUNServer \<Rightarrow> STUNServer" where
  "relayEnd data from now s = fst (handleRelayPacket (Some (\<lambda>_ _. True)) (\<lambda>_ _. True) data from now s)"

fun sys_apply :: "limits \<Rightarrow> sys_event \<Rightarrow> sys \<Rightarrow> sys option" where
  "sys_apply L (Ctl e) s =
     (if ev_fresh e (sys_sm s) then map_option (\<lambda>sm. s\<lparr>sys_sm := sm\<rparr>) (sm_apply L e (sys_sm s)) else None)"
| "sys_apply L (Serve d a now) s = Some (s\<lparr>sys_stun := fst (serve d a now (sys_stun s))\<rparr>)"
| "sys_apply L (Answer d a) s = map_option (\<lambda>r. s\<lparr>sys_stun := fst r\<rparr>) (handlePacket d a (sys_stun s))"
| "sys_apply L (RelayBegin v d a now) s =
     (if sys_lock s \<noteq> None then None
      else if admitted v d a (sys_sm s) then Some (s\<lparr>sys_lock := Some (d, a, now)\<rparr>)
      else Some (s\<lparr>sys_stun := fst (handleRelayPacket v (\<lambda>sid ip. IsActiveDataSource sid ip (sys_sm s)) d a now (sys_stun s))\<rparr>))"
| "sys_apply L RelayEnd s =
     (case sys_lock s of
        None \<Rightarrow> None
      | Some (d, a, now) \<Rightarrow> Some (s\<lparr>sys_stun := relayEnd d a now (sys_stun s), sys_lock := None\<rparr>))"
| "sys_apply L (Invalidate sid) s =
     (if sys_lock s \<noteq> None then None else Some (s\<lparr>sys_stun := InvalidateRelaySession sid (sys_stun s)\<rparr>))"
| "sys_apply L (RelayCleanup now order) s =
     (if sys_lock s \<noteq> None then None else Some (s\<lparr>sys_stun := cleanupRelaySessions now order (sys_stun s)\<rparr>))"

fun sys_run :: "limits \<Rightarrow> sys_event list \<Rightarrow> sys \<Rightarrow> sys option" where
  "sys_run L [] s = Some s"
| "sys_run L (e # es) s = (case sys_apply L e s of None \<Rightarrow> None | Some s' \<Rightarrow> sys_run L es s')"

section \<open>Relay entries\<close>

text \<open>The two halves of a worker, run back to back, are the handler.\<close>

lemma relay_halves:
  assumes "admitted v d a sm"
  shows "handleRelayPacket v (\<lambda>sid ip. IsActiveDataSource sid ip sm) d a now s =
         handleRelayPacket (Some (\<lambda>_ _. True)) (\<lambda>_ _. True) d a now s"
  using assms by (auto simp: admitted_def handleRelayPacket_def split: option.splits)

lemma relaySessions_log [simp]: "relaySessions (fst (logSampledInvalidPacket s)) = relaySessions s"
  by (simp add: logSampledInvalidPacket_def Let_def)

lemma relaySessions_drop [simp]: "relaySessions (fst (drop_pkt r s)) = relaySessions s"
  by (simp add: drop_pkt_def)

lemma not_admitted_frame:
  assumes "\<not> admitted v d a sm"
  shows "relaySessions (fst (handleRelayPacket v (\<lambda>sid ip. IsActiveDataSource sid ip sm) d a now s)) = relaySessions s"
  using assms by (auto simp: admitted_def handleRelayPacket_def split: option.splits)

lemma forwardRelay_other:
  "sid' \<noteq> sid \<Longrightarrow> mget (relaySessions (fst (forwardRelay sid e p a now s))) sid' = mget (relaySessions s) sid'"
  by (auto simp: forwardRelay_def Let_def split: option.splits prod.splits)

lemma handleRelayPacket_other:
  assumes "packet_sid d \<noteq> Some sid"
  shows "mget (relaySessions (fst (handleRelayPacket v rc d a now s))) sid = mget (relaySessions s) sid"
proof (cases "parseRelayHeader d")
  case (Some p)
  obtain x y where p: "p = (x, y)" by (cases p)
  have "sid \<noteq> x" using assms Some p by (auto simp: packet_sid_def)
  then show ?thesis
    by (auto simp: handleRelayPacket_def Some p Let_def forwardRelay_other split: option.splits)
qed (simp add: handleRelayPacket_def)

lemma delete_relay_mono: "mget (relaySessions s) sid = None \<Longrightarrow> mget (relaySessions (deleteRelaySessionLocked x s)) sid = None"
  by (auto simp: deleteRelaySessionLocked_def split: option.splits)

lemma delete_relay_gone: "mget (relaySessions (deleteRelaySessionLocked sid s)) sid = None"
  by (auto simp: deleteRelaySessionLocked_def split: option.splits)

lemma cleanup_relay_mono: "mget (relaySessions s) sid = None \<Longrightarrow> mget (relaySessions (cleanupRelaySessions now order s)) sid = None"
  unfolding cleanupRelaySessions_def
proof (induction order arbitrary: s)
  case (Cons x xs)
  have "mget (relaySessions (cleanup_relay_one now x s)) sid = None"
    using Cons.prems by (auto simp: cleanup_relay_one_def delete_relay_mono split: option.splits)
  then show ?case using Cons.IH by simp
qed simp

lemma serve_relaySessions: "relaySessions (fst (serve d a now s)) = relaySessions s"
  by (auto simp: serve_def Let_def split: prod.splits)

lemma handlePacket_relaySessions: "handlePacket d a s = Some (s', out) \<Longrightarrow> relaySessions s' = relaySessions s"
  by (auto simp: handlePacket_def drop_pkt_def Let_def split: sum.splits if_splits option.splits)

section \<open>No stale relay state\<close>

definition activates :: "string \<Rightarrow> sys_event \<Rightarrow> bool" where
  "activates sid e = (case e of Ctl (EvActivate x _ _) \<Rightarrow> x = sid | _ \<Rightarrow> False)"

definition quiet :: "limits \<Rightarrow> string \<Rightarrow> sys \<Rightarrow> bool" where
  "quiet L sid s =
     (sm_inv L (sys_sm s) \<and> \<not> IsActiveDataSession sid (sys_sm s) \<and> mget (relaySessions (sys_stun s)) sid = None \<and>
      (\<forall>d a now. sys_lock s = Some (d, a, now) \<longrightarrow> packet_sid d \<noteq> Some sid))"

lemma inactive_source: "\<not> IsActiveDataSession sid sm \<Longrightarrow> \<not> IsActiveDataSource sid ip sm"
  by (auto simp: IsActiveDataSession_def IsActiveDataSource_def Let_def split: option.splits)

lemma inactive_kept:
  assumes inv: "sm_inv L sm" and fr: "ev_fresh e sm" and ap: "sm_apply L e sm = Some sm'"
    and na: "\<forall>k k'. e \<noteq> EvActivate sid k k'" and off: "\<not> IsActiveDataSession sid sm"
  shows "\<not> IsActiveDataSession sid sm'"
proof
  assume "IsActiveDataSession sid sm'"
  then obtain r where r: "mget (sessions sm') sid = Some r" "dataPlaneReady (sess sm' r)"
    by (auto simp: IsActiveDataSession_def Let_def split: option.splits)
  with plane_kept_apply [OF inv ap na] have k: "mget (sessions sm) sid = Some r" "dataPlaneReady (sess sm r)"
    by (auto simp: plane_kept_def)
  have "ts_ok (sess sm r)" using inv_sessions(2) [OF inv k(1)] .
  with k off show False by (auto simp: IsActiveDataSession_def ts_ok_def Let_def)
qed

lemma quiet_step:
  assumes q: "quiet L sid s" and ap: "sys_apply L e s = Some s'" and na: "\<not> activates sid e"
  shows "quiet L sid s'"
proof (cases e)
  case (Ctl c)
  obtain sm' where c: "ev_fresh c (sys_sm s)" "sm_apply L c (sys_sm s) = Some sm'" "s' = s\<lparr>sys_sm := sm'\<rparr>"
    using ap Ctl by (auto split: if_splits)
  have "\<forall>k k'. c \<noteq> EvActivate sid k k'" using na Ctl by (auto simp: activates_def)
  then show ?thesis
    using q c inv_apply [OF _ c(1,2)] inactive_kept [OF _ c(1,2)] by (auto simp: quiet_def)
next
  case (RelayBegin v d a now)
  show ?thesis
  proof (cases "admitted v d a (sys_sm s)")
    case True
    then have "packet_sid d \<noteq> Some sid"
      using q inactive_source [of sid "sys_sm s"] by (auto simp: quiet_def admitted_def packet_sid_def split: option.splits)
    with True show ?thesis using q ap RelayBegin by (auto simp: quiet_def split: if_splits)
  next
    case False
    with q ap RelayBegin not_admitted_frame [OF False] show ?thesis by (auto simp: quiet_def split: if_splits)
  qed
next
  case RelayEnd
  then obtain d a now where l: "sys_lock s = Some (d, a, now)" "s' = s\<lparr>sys_stun := relayEnd d a now (sys_stun s), sys_lock := None\<rparr>"
    using ap by (auto split: option.splits)
  then have "mget (relaySessions (relayEnd d a now (sys_stun s))) sid = None"
    using q handleRelayPacket_other [of d sid] by (auto simp: quiet_def relayEnd_def)
  with q l show ?thesis by (simp add: quiet_def)
next
  case (Answer d a)
  then obtain st out where "handlePacket d a (sys_stun s) = Some (st, out)" "s' = s\<lparr>sys_stun := st\<rparr>"
    using ap by auto
  with q handlePacket_relaySessions show ?thesis by (auto simp: quiet_def)
qed (use q ap in \<open>auto simp: quiet_def serve_relaySessions InvalidateRelaySession_def delete_relay_mono cleanup_relay_mono
      split: if_splits\<close>)

lemma quiet_run:
  "quiet L sid s \<Longrightarrow> sys_run L es s = Some s' \<Longrightarrow> list_all (\<lambda>e. \<not> activates sid e) es \<Longrightarrow> quiet L sid s'"
  by (induction es arbitrary: s) (auto split: option.splits intro: quiet_step)

text \<open>
  C13. No stale relay state survives a change of pairing, however the UDP workers and the
  control plane interleave: once \<open>InvalidateRelaySession\<close> has run for a session whose data
  plane is inactive (as every handler that replaces or loses a side does), the relay table
  holds no entry for the session and no worker is about to create one, through any further
  steps (registrations, joins, packets that passed their first check long ago, cleanups), up to
  the session's next activation. So the new pairing starts from an empty entry and cannot be
  joined to an address of the old one.
\<close>

theorem no_stale_relay_entry:
  assumes "sm_reach L g (sys_sm s)" "\<not> IsActiveDataSession sid (sys_sm s)"
    and "sys_apply L (Invalidate sid) s = Some s1"
    and "sys_run L es s1 = Some s2" "list_all (\<lambda>e. \<not> activates sid e) es"
  shows "mget (relaySessions (sys_stun s2)) sid = None \<and>
    (\<forall>d a now. sys_lock s2 = Some (d, a, now) \<longrightarrow> packet_sid d \<noteq> Some sid) \<and>
    (\<forall>v d a now. packet_sid d = Some sid \<longrightarrow> \<not> admitted v d a (sys_sm s2))"
proof -
  have s1: "sys_lock s = None" "s1 = s\<lparr>sys_stun := InvalidateRelaySession sid (sys_stun s)\<rparr>"
    using assms(3) by (cases "sys_lock s"; simp)+
  have "quiet L sid s1"
    using s1 assms(2) reach_inv [OF assms(1)] by (simp add: quiet_def InvalidateRelaySession_def delete_relay_gone)
  from quiet_run [OF this assms(4,5)] show ?thesis
    using inactive_source [of sid "sys_sm s2"]
    by (auto simp: quiet_def admitted_def packet_sid_def split: option.splits)
qed

definition demo_sys :: sys where
  "demo_sys = \<lparr>sys_sm = fst (DisconnectClient ''cli_h'' 50 demo_sm), sys_stun = demo_server, sys_lock = None\<rparr>"

theorem no_stale_relay_entry_witness:
  "\<exists>s1 s2. sys_apply demo_limits (Invalidate ''ses'') demo_sys = Some s1 \<and>
     sys_run demo_limits [RelayBegin (Some (\<lambda>_ _. True)) (makeRelayHeader ''ses'' @ [1]) \<lparr>udp_IP = [10, 0, 0, 9], udp_Port = 4000\<rparr> 60] s1 = Some s2 \<and>
     mget (relaySessions (sys_stun s2)) ''ses'' = None"
proof -
  let ?es = "[RelayBegin (Some (\<lambda>_ _. True)) (makeRelayHeader ''ses'' @ [1]) \<lparr>udp_IP = [10, 0, 0, 9], udp_Port = 4000\<rparr> 60]"
  have ap: "sm_apply demo_limits (EvDisconnect ''cli_h'' 50) demo_sm = Some (sys_sm demo_sys)"
    by (simp add: demo_sys_def)
  have reach: "sm_reach demo_limits 100 (sys_sm demo_sys)"
    by (rule sm_step [OF demo_reach _ ap]) (simp add: ev_fresh_def)
  have off: "\<not> IsActiveDataSession ''ses'' (sys_sm demo_sys)" by code_simp
  have "sys_lock demo_sys = None" by (simp add: demo_sys_def)
  then obtain s1 where s1: "sys_apply demo_limits (Invalidate ''ses'') demo_sys = Some s1" "sys_lock s1 = None" by simp
  then obtain s2 where s2: "sys_run demo_limits ?es s1 = Some s2" by fastforce
  have "list_all (\<lambda>e. \<not> activates ''ses'' e) ?es" by (simp add: activates_def)
  from no_stale_relay_entry [OF reach off s1(1) s2 this] s1 s2 show ?thesis by blast
qed

end
