(* ===== verification/Relay_Server_Props.thy ===== *)
theory Relay_Server_Props
  imports Relay_Server Relay_System
begin

text \<open>
  Properties of the relay server: what failed joins reveal, what a successful join
  establishes, the connection state machine, the fate of tool frames, the limits, and the
  invariant of whole-server runs, which discharges the assumption of the session table that
  registering connections are fresh and counts connection slots exactly.
\<close>

section \<open>Frames\<close>

text \<open>The part of the server that rate limiting and sampling leave alone.\<close>

definition core where
  "core s = (sv_sessions s, sv_clients s, connTotal s, connPerIP s, sv_limits s, sv_config s, sv_stunServer s)"

lemma core_eq [simp]:
  "core (s\<lparr>tunnelDataLimiterPerConn := k\<rparr>) = core s" "core (s\<lparr>tunnelDataLimiterGlobal := g\<rparr>) = core s"
  "core (s\<lparr>controlLimiterPerConn := k\<rparr>) = core s" "core (s\<lparr>controlLimiterGlobal := g\<rparr>) = core s"
  "core (s\<lparr>toolLimiterPerConn := k\<rparr>) = core s" "core (s\<lparr>toolLimiterGlobal := g\<rparr>) = core s"
  "core (s\<lparr>heartbeatLimiterPerIP := k\<rparr>) = core s" "core (s\<lparr>heartbeatLimiterGlobal := g\<rparr>) = core s"
  "core (s\<lparr>createLimiterPerIP := k\<rparr>) = core s" "core (s\<lparr>createLimiterGlobal := g\<rparr>) = core s"
  "core (s\<lparr>joinLimiterPerIP := k\<rparr>) = core s" "core (s\<lparr>joinLimiterGlobal := g\<rparr>) = core s"
  "core (s\<lparr>rejectSampleCtr := n\<rparr>) = core s"
  "core (logSampled s) = core s" "core (logP2PSampled s) = core s" "core (logToolThrottleSampled s) = core s"
  by (simp_all add: core_def logSampled_def logP2PSampled_def logToolThrottleSampled_def)

lemma core_allowData: "core (fst (allowDataMessage c now s)) = core s"
  by (simp add: allowDataMessage_def Let_def split: prod.split)

lemma core_allowControl: "core (fst (allowControlMessage c now s)) = core s"
  by (simp add: allowControlMessage_def Let_def split: prod.split)

lemma core_toolWait: "toolWait key cost dl paid thr ts s = Some (s', ok) \<Longrightarrow> core s' = core s"
proof (induction ts arbitrary: paid thr s)
  case (Cons t ts)
  obtain k p where k: "(if paid then (toolLimiterPerConn s, True) else KeyedLimiter_AllowN key cost t (toolLimiterPerConn s)) = (k, p)"
    by fastforce
  let ?s1 = "s\<lparr>toolLimiterPerConn := k\<rparr>"
  obtain g ok' where g: "(if p then Bucket_AllowN cost t (toolLimiterGlobal ?s1) else (toolLimiterGlobal ?s1, False)) = (g, ok')"
    by fastforce
  let ?s2 = "?s1\<lparr>toolLimiterGlobal := g\<rparr>"
  let ?s3 = "if thr then ?s2 else logToolThrottleSampled ?s2"
  have c3: "core ?s3 = core s" by simp
  have eq: "toolWait key cost dl paid thr (t # ts) s =
      (if p \<and> ok' then Some (?s2, True) else if \<not> t < dl then Some (logSampled ?s3, False)
       else toolWait key cost dl p True ts ?s3)"
    by (simp only: toolWait.simps Let_def k g prod.case)
  note pr = Cons.prems [unfolded eq]
  show ?case
  proof (cases "p \<and> ok'")
    case True
    have "s' = ?s2" using pr by (simp only: True simp_thms if_True option.inject prod.inject)
    then show ?thesis by simp
  next
    case deny: False
    show ?thesis
    proof (cases "t < dl")
      case True
      have "toolWait key cost dl p True ts ?s3 = Some (s', ok)"
        using pr by (simp only: deny True if_True if_False not_True_eq_False)
      from Cons.IH [OF this] c3 show ?thesis by simp
    next
      case False
      have "s' = logSampled ?s3"
        using pr by (simp only: deny False if_True if_False not_False_eq_True option.inject prod.inject)
      then show ?thesis using c3 by (simp only: core_eq)
    qed
  qed
qed simp

lemma core_projs:
  assumes "core s = core s'"
  shows "sv_sessions s = sv_sessions s'" "sv_clients s = sv_clients s'" "connTotal s = connTotal s'"
    "connPerIP s = connPerIP s'" "sv_limits s = sv_limits s'" "sv_config s = sv_config s'" "sv_stunServer s = sv_stunServer s'"
  using assms by (simp_all add: core_def)

lemma invalidateRelay_frame [simp]:
  "sv_sessions (invalidateRelay x s) = sv_sessions s" "sv_clients (invalidateRelay x s) = sv_clients s"
  "connTotal (invalidateRelay x s) = connTotal s" "connPerIP (invalidateRelay x s) = connPerIP s"
  "sv_limits (invalidateRelay x s) = sv_limits s" "sv_config (invalidateRelay x s) = sv_config s"
  by (simp_all add: invalidateRelay_def)

section \<open>Failed joins\<close>

definition join_failed :: "Client \<Rightarrow> Server \<Rightarrow> Server \<times> Client \<times> effect list \<times> bool \<Rightarrow> bool" where
  "join_failed client s out =
     (case out of (s', client', effs, close) \<Rightarrow>
        client' = client\<lparr>joinFailures := joinFailures client + 1\<rparr> \<and> effs = sendMsg (cl_conn client) JoinFailed \<and>
        close = (joinFailures client + 1 \<ge> rl_MaxJoinFailures (sv_limits s)))"

lemma rejectJoin_failed: "sv_limits s1 = sv_limits s \<Longrightarrow> join_failed client s (rejectJoin client s1)"
  by (simp add: join_failed_def rejectJoin_def Let_def)

text \<open>Either a join fails in the one way there is, or the connection becomes a helper.\<close>

lemma handleJoin_cases:
  obtains (fail) "join_failed client s (handleJoin e client code s)"
  | (ok) s' client' effs where "handleJoin e client code s = (s', client', effs, False)"
      "cc_Type (cl_conn client') = connStateHelp" "joinFailures client' = 0"
proof -
  obtain k a where k: "perIPAllow s (clientHost (cl_conn client)) (e_now e) (joinLimiterPerIP s) = (k, a)" by fastforce
  let ?s1 = "s\<lparr>joinLimiterPerIP := k\<rparr>"
  obtain g b where g: "Bucket_Allow (e_now e) (joinLimiterGlobal ?s1) = (g, b)" by fastforce
  let ?s2 = "?s1\<lparr>joinLimiterGlobal := g\<rparr>"
  obtain sm res where j: "JoinSession (normalizeCode code) (cl_conn client) (e_now e) (sv_sessions ?s2) = (sm, res)" by fastforce
  consider "\<not> a" | "a" "\<not> b" | err where "a" "b" "res = Inl err" | jr where "a" "b" "res = Inr jr"
    by (cases res) auto
  then show thesis
  proof cases
    case 4
    let ?s3 = "invalidateRelay (jr_SessionID jr) (?s2\<lparr>sv_sessions := sm\<rparr>)"
    obtain sm2 act where ac: "ActivateDataPlane (jr_SessionID jr) (jr_ShareID jr) (cc_ID (cl_conn client)) (sv_sessions ?s3) = (sm2, act)"
      by fastforce
    show thesis
    proof (cases act)
      case True
      show thesis
        by (rule ok) (use 4 True k g j ac in \<open>auto simp: handleJoin_def Let_def\<close>)
    next
      case False
      show thesis
        by (rule fail) (use 4 False k g j ac in \<open>simp add: handleJoin_def Let_def rejectJoin_failed\<close>)
    qed
  qed (rule fail; use k g j in \<open>simp add: handleJoin_def Let_def rejectJoin_failed\<close>)+
qed

text \<open>A series of joins on one connection, with the server each of them meets; it ends when the connection is closed.\<close>

fun join_series :: "Client \<Rightarrow> (env \<times> string \<times> Server) list \<Rightarrow> effect list list" where
  "join_series client [] = []"
| "join_series client ((e, code, s) # js) =
     (case handleJoin e client code s of
        (s', client', effs, close) \<Rightarrow>
          effs # (if close \<or> cc_Type (cl_conn client') = connStateHelp then [] else join_series client' js))"

lemma join_series_bound:
  assumes "\<forall>(e, code, s) \<in> set js. rl_MaxJoinFailures (sv_limits s) = m"
    and "joinFailures client < m"
  shows "int (length (join_series client js)) \<le> m - joinFailures client"
  using assms
proof (induction js arbitrary: client)
  case (Cons j js)
  obtain e code s where j: "j = (e, code, s)" by (cases j)
  obtain s' client' effs close where h: "handleJoin e client code s = (s', client', effs, close)"
    by (cases "handleJoin e client code s")
  show ?case
  proof (cases rule: handleJoin_cases [of client s e code])
    case fail
    show ?thesis
    proof (cases "close \<or> cc_Type (cl_conn client') = connStateHelp")
      case True
      then show ?thesis using Cons.prems by (simp add: h j)
    next
      case False
      have f: "joinFailures client' = joinFailures client + 1" "\<not> joinFailures client + 1 \<ge> m"
        using fail False Cons.prems(1) by (auto simp: join_failed_def h j)
      have "int (length (join_series client' js)) \<le> m - joinFailures client'"
        by (rule Cons.IH) (use f Cons.prems(1) in auto)
      with False f show ?thesis by (simp add: h j)
    qed
  next
    case (ok s'' client'' effs'')
    then show ?thesis using Cons.prems h by (simp add: j)
  qed
qed simp

text \<open>
  C17. Failed joins look alike and are rationed. Whatever the reason (either rate limit, an
  unknown or expired code, a session that has its helper, a share that is not ready, an
  activation that failed), in whatever state of the server: the connection is sent the same
  single answer, is left in the same state and is closed by the same rule, so that nothing tells a
  wrong code from a right one; and a connection gets at most \<open>MaxJoinFailures\<close> answers to
  joins, whatever the codes and however the server changes in between.
\<close>

theorem failed_joins_look_alike:
  assumes "handleJoin e1 client code1 s1 = (s1', c1, effs1, close1)" "cc_Type (cl_conn c1) \<noteq> connStateHelp"
    and "handleJoin e2 client code2 s2 = (s2', c2, effs2, close2)" "cc_Type (cl_conn c2) \<noteq> connStateHelp"
    and "rl_MaxJoinFailures (sv_limits s1) = m" "rl_MaxJoinFailures (sv_limits s2) = m"
    and "\<forall>(e, code, s) \<in> set js. rl_MaxJoinFailures (sv_limits s) = m" "joinFailures client = 0" "0 < m"
  shows "effs1 = effs2 \<and> c1 = c2 \<and> close1 = close2 \<and> int (length (join_series client js)) \<le> m"
proof -
  have "join_failed client s1 (s1', c1, effs1, close1)"
    by (cases rule: handleJoin_cases [of client s1 e1 code1]) (use assms(1,2) in auto)
  moreover have "join_failed client s2 (s2', c2, effs2, close2)"
    by (cases rule: handleJoin_cases [of client s2 e2 code2]) (use assms(3,4) in auto)
  moreover have "int (length (join_series client js)) \<le> m"
    using join_series_bound [OF assms(7), of client] assms(8,9) by simp
  ultimately show ?thesis using assms(5,6) by (simp add: join_failed_def)
qed

definition demo_config :: Config where
  "demo_config = \<lparr>cfg_CodeTTL = 1800 * second, cfg_CodeLength = 6, cfg_NoAuth = False, cfg_DisableSourceIPLimits = False,
     cfg_Limits = relay_DefaultLimits, cfg_Update = no_info, cfg_UpdateInfoFile = [], cfg_AdvertiseSTUN = []\<rparr>"

definition demo_srv :: Server where
  "demo_srv = buildServer demo_config relay_DefaultLimits no_info None 0"

definition demo_client :: "string \<Rightarrow> string \<Rightarrow> Client" where
  "demo_client addr i = \<lparr>cl_conn = (new_conn addr i)\<lparr>cc_supportsUpdateNotice := True\<rparr>, joinFailures = 0\<rparr>"

definition demo_env :: "int \<Rightarrow> env" where
  "demo_env t = \<lparr>e_now = t, e_clock = [], e_draws = map Some [0, 1, 2, 3, 4, 5], e_ids = [''ses'']\<rparr>"

text \<open>The demonstration server after a share has registered.\<close>

definition demo_srv1 :: "(Server \<times> Client \<times> effect list \<times> bool) option" where
  "demo_srv1 = handleRegister (demo_env 1) (demo_client ''10.0.0.1:4000'' ''cli_s'') demo_srv"

theorem failed_joins_look_alike_witness:
  "\<exists>s1 s2 c effs. handleJoin (demo_env 2) (demo_client ''10.0.0.2:5000'' ''cli_h'') ''WRONG1'' demo_srv = (s1, c, effs, False) \<and>
     handleJoin (demo_env 9) (demo_client ''10.0.0.2:5000'' ''cli_h'') ''other'' (fst (the demo_srv1)) = (s2, c, effs, False)"
proof -
  let ?cl = "demo_client ''10.0.0.2:5000'' ''cli_h''"
  let ?r1 = "handleJoin (demo_env 2) ?cl ''WRONG1'' demo_srv"
  let ?r2 = "handleJoin (demo_env 9) ?cl ''other'' (fst (the demo_srv1))"
  have t1: "cc_Type (cl_conn (fst (snd ?r1))) \<noteq> connStateHelp \<and> \<not> snd (snd (snd ?r1))" by code_simp
  have t2: "cc_Type (cl_conn (fst (snd ?r2))) \<noteq> connStateHelp \<and> \<not> snd (snd (snd ?r2))" by code_simp
  obtain s1 c1 effs1 close1 where r1: "?r1 = (s1, c1, effs1, close1)" by (cases ?r1)
  obtain s2 c2 effs2 close2 where r2: "?r2 = (s2, c2, effs2, close2)" by (cases ?r2)
  have m: "rl_MaxJoinFailures (sv_limits demo_srv) = 5" "rl_MaxJoinFailures (sv_limits (fst (the demo_srv1))) = 5" by code_simp+
  have "effs1 = effs2 \<and> c1 = c2 \<and> close1 = close2 \<and> int (length (join_series ?cl [])) \<le> 5"
    by (rule failed_joins_look_alike [OF r1 _ r2 _ m]) (use t1 t2 r1 r2 in \<open>auto simp: demo_client_def\<close>)
  with r1 r2 t1 show ?thesis by simp
qed
section \<open>Successful joins\<close>

lemma JoinSession_Inr:
  assumes "JoinSession code c now sm = (sm', Inr jr)"
  obtains r share where "mget (byCode sm) code = Some r" "Share (sess sm r) = Some share" "shareReady (sess sm r)"
    "\<not> now > ExpiresAt (sess sm r)"
    "sm' = (upd r (installHelp c) sm)\<lparr>byConnID := mput (cc_ID c) r (opt_del (Help (sess sm r)) (byConnID sm))\<rparr>"
    "jr = \<lparr>jr_SessionID = ts_ID (sess sm r), jr_Share = share, jr_ShareID = cc_ID share,
           jr_ShareVersion = cc_Version share, jr_ShareHost = cc_Host share\<rparr>"
  using assms by (auto simp: JoinSession_def Let_def split: option.splits if_splits)

lemma installHelp_simps [simp]:
  "ts_ID (installHelp c s) = ts_ID s" "closed (installHelp c s) = closed s" "Share (installHelp c s) = Share s"
  "Help (installHelp c s) = Some c" "shareReady (installHelp c s) = shareReady s" "Code (installHelp c s) = Code s"
  by (simp_all add: installHelp_def Let_def)

lemma installHelp_pending: "ts_ok s \<Longrightarrow> pendingHelpID (installHelp c s) = []"
  by (auto simp: installHelp_def ts_ok_def Let_def)

text \<open>A granted join is activated and pairs the two connections.\<close>

lemma join_activates:
  assumes inv: "sm_inv L sm" and free: "conn_free (cc_ID c) sm"
    and j: "JoinSession code c now sm = (sm', Inr jr)"
  obtains r share sm2 where "mget (byCode sm) code = Some r" "jr_SessionID jr = ts_ID (sess sm r)"
    "Share (sess sm r) = Some share" "jr_Share jr = share" "\<not> now > ExpiresAt (sess sm r)"
    "ActivateDataPlane (jr_SessionID jr) (jr_ShareID jr) (cc_ID c) sm' = (sm2, True)"
    "IsActiveDataSession (jr_SessionID jr) sm2" "FindPeer (cc_ID c) sm2 = Some share" "FindPeer (cc_ID share) sm2 = Some c"
proof -
  obtain r share where r: "mget (byCode sm) code = Some r" "Share (sess sm r) = Some share" "shareReady (sess sm r)"
      "\<not> now > ExpiresAt (sess sm r)"
    and sm': "sm' = (upd r (installHelp c) sm)\<lparr>byConnID := mput (cc_ID c) r (opt_del (Help (sess sm r)) (byConnID sm))\<rparr>"
    and jr: "jr = \<lparr>jr_SessionID = ts_ID (sess sm r), jr_Share = share, jr_ShareID = cc_ID share,
           jr_ShareVersion = cc_Version share, jr_ShareHost = cc_Host share\<rparr>"
    using j by (rule JoinSession_Inr)
  note live = inv_byCode(1,2) [OF inv r(1)]
  have inv': "sm_inv L sm'" using inv_JoinSession [OF inv free, of code now] j by simp
  have table: "mget (sessions sm') (ts_ID (sess sm r)) = Some r"
    using live(1) by (simp add: sm' live_def)
  have s': "sess sm' r = installHelp c (sess sm r)" by (simp add: sm')
  have ok: "\<not> closed (sess sm r)" using live(2) by (simp add: ts_ok_def)
  have ne: "cc_ID share \<noteq> cc_ID c"
    using free live(1) r(2) by (auto simp: conn_free_def live_def member_id_iff)
  define sm2 where "sm2 = upd r (\<lambda>s. s\<lparr>dataPlaneReady := True\<rparr>) sm'"
  have act: "ActivateDataPlane (jr_SessionID jr) (jr_ShareID jr) (cc_ID c) sm' = (sm2, True)"
    using table r(2) ok installHelp_pending [OF live(2), of c]
    by (simp add: ActivateDataPlane_def jr s' sm2_def Let_def)
  have active: "IsActiveDataSession (jr_SessionID jr) sm2"
    using table r(2,3) ok installHelp_pending [OF live(2), of c]
    by (simp add: IsActiveDataSession_def jr sm2_def s' Let_def)
  have live': "live sm' r" using table s' by (simp add: live_def)
  have "mget (byConnID sm') (cc_ID c) = Some r" by (simp add: sm')
  moreover have "mget (byConnID sm') (cc_ID share) = Some r"
    using inv_byConnID [OF inv', of "cc_ID share" r] live' r(2) by (auto simp: routed_def s')
  ultimately have "FindPeer (cc_ID c) sm2 = Some share" "FindPeer (cc_ID share) sm2 = Some c"
    using ne r(2) by (auto simp: FindPeer_def sm2_def s')
  with that r act active jr show thesis by simp
qed

text \<open>What a join that is granted does, from the two limiters on.\<close>

definition limiters_pass :: "env \<Rightarrow> Client \<Rightarrow> Server \<Rightarrow> bool" where
  "limiters_pass e client s =
     (snd (perIPAllow s (clientHost (cl_conn client)) (e_now e) (joinLimiterPerIP s)) \<and>
      snd (Bucket_Allow (e_now e) (joinLimiterGlobal s)))"

lemma invalidate_gone:
  "sv_stunServer (invalidateRelay sid s) = Some t \<Longrightarrow> mget (relaySessions t) sid = None"
  by (auto simp: invalidateRelay_def InvalidateRelaySession_def delete_relay_gone)

lemma handleJoin_granted:
  assumes inv: "sm_inv L (sv_sessions s)" and free: "conn_free (cc_ID (cl_conn client)) (sv_sessions s)"
    and lim: "limiters_pass e client s"
    and j: "JoinSession (normalizeCode code) (cl_conn client) (e_now e) (sv_sessions s) = (sm', Inr jr)"
    and sm2: "ActivateDataPlane (jr_SessionID jr) (jr_ShareID jr) (cc_ID (cl_conn client)) sm' = (sm2, True)"
  obtains s' where "handleJoin e client code s =
      (s', client\<lparr>cl_conn := (cl_conn client)\<lparr>cc_Type := connStateHelp\<rparr>, joinFailures := 0\<rparr>,
       sendMsg ((cl_conn client)\<lparr>cc_Type := connStateHelp\<rparr>) (JoinOK (jr_SessionID jr) (jr_ShareVersion jr)
         (legacyHelpUpdateHost (sv_updateInfo s) ((cl_conn client)\<lparr>cc_Type := connStateHelp\<rparr>) (jr_ShareHost jr))
         (sv_updateInfo s) (cfg_AdvertiseSTUN (sv_config s)))
       @ sendMsg (jr_Share jr) (SessionReady (jr_SessionID jr) (cc_Version (cl_conn client))
         (legacyShareSessionReadyHost (sv_updateInfo s) (jr_Share jr) (cc_Host (cl_conn client)))), False)"
    "sv_sessions s' = sm2" "\<forall>t. sv_stunServer s' = Some t \<longrightarrow> mget (relaySessions t) (jr_SessionID jr) = None"
    "sv_clients s' = sv_clients s" "connTotal s' = connTotal s" "connPerIP s' = connPerIP s"
    "sv_limits s' = sv_limits s" "sv_config s' = sv_config s"
proof -
  obtain k where k: "perIPAllow s (clientHost (cl_conn client)) (e_now e) (joinLimiterPerIP s) = (k, True)"
    using lim unfolding limiters_pass_def by (metis prod.collapse)
  obtain g where g: "Bucket_Allow (e_now e) (joinLimiterGlobal s) = (g, True)"
    using lim unfolding limiters_pass_def by (metis prod.collapse)
  define s3 where "s3 = invalidateRelay (jr_SessionID jr) (s\<lparr>joinLimiterPerIP := k, joinLimiterGlobal := g, sv_sessions := sm'\<rparr>)"
  define s4 where "s4 = s3\<lparr>sv_sessions := sm2\<rparr>"
  have fr: "sv_updateInfo s4 = sv_updateInfo s" "sv_config s4 = sv_config s" "sv_limits s4 = sv_limits s" "sv_clients s4 = sv_clients s"
    "connTotal s4 = connTotal s" "connPerIP s4 = connPerIP s" "sv_sessions s4 = sm2"
    by (simp_all add: s4_def s3_def invalidateRelay_def)
  have "mget (relaySessions t) (jr_SessionID jr) = None" if "sv_stunServer s4 = Some t" for t
  proof -
    have "sv_stunServer s3 = Some t" using that by (simp add: s4_def)
    then show ?thesis unfolding s3_def by (rule invalidate_gone)
  qed
  with fr show thesis
    by (intro that [of s4]) (use k g j sm2 in \<open>simp_all add: handleJoin_def s3_def s4_def Let_def\<close>)
qed

lemma handleJoin_help:
  assumes h: "handleJoin e client code s = (s', client', effs, close)"
    and t: "cc_Type (cl_conn client') = connStateHelp" "cc_Type (cl_conn client) \<noteq> connStateHelp"
  obtains sm' jr where "limiters_pass e client s"
    "JoinSession (normalizeCode code) (cl_conn client) (e_now e) (sv_sessions s) = (sm', Inr jr)"
proof -
  have nf: "\<not> join_failed client s (handleJoin e client code s)"
    using h t by (auto simp: join_failed_def)
  have lim: "limiters_pass e client s"
  proof (rule ccontr)
    assume "\<not> limiters_pass e client s"
    then have "join_failed client s (handleJoin e client code s)"
      by (auto simp: limiters_pass_def handleJoin_def Let_def rejectJoin_failed split: prod.splits)
    with nf show False by simp
  qed
  obtain sm res where j: "JoinSession (normalizeCode code) (cl_conn client) (e_now e) (sv_sessions s) = (sm, res)" by fastforce
  obtain k where k: "perIPAllow s (clientHost (cl_conn client)) (e_now e) (joinLimiterPerIP s) = (k, True)"
    using lim unfolding limiters_pass_def by (metis prod.collapse)
  obtain g where g: "Bucket_Allow (e_now e) (joinLimiterGlobal s) = (g, True)"
    using lim unfolding limiters_pass_def by (metis prod.collapse)
  show thesis
  proof (cases res)
    case (Inl err)
    then have "join_failed client s (handleJoin e client code s)"
      using k g j by (simp add: handleJoin_def Let_def rejectJoin_failed)
    with nf show ?thesis by simp
  next
    case (Inr jr)
    with that lim j show ?thesis by blast
  qed
qed

text \<open>
  A join pairs exactly the two sides. When a connection becomes a helper, the code it
  gave names a session that has not expired; afterwards the session's data plane is active, each of
  the two connections is the other's peer, the UDP relay holds no entry left over from an
  earlier pairing, the helper has been sent its join answer and the share the announcement, in
  this order, and the connection stays open. Conversely a join that passes the rate limits and
  that the session table grants is never refused.
\<close>

theorem join_pairs_both_sides:
  assumes "sm_reach L g (sv_sessions s)" "conn_free (cc_ID (cl_conn client)) (sv_sessions s)"
    and "cc_Type (cl_conn client) = connStateNew" "handleJoin e client code s = (s', client', effs, close)"
  shows "(cc_Type (cl_conn client') = connStateHelp \<longleftrightarrow>
      limiters_pass e client s \<and>
      (\<exists>sm' jr. JoinSession (normalizeCode code) (cl_conn client) (e_now e) (sv_sessions s) = (sm', Inr jr))) \<and>
    (cc_Type (cl_conn client') = connStateHelp \<longrightarrow>
      (\<exists>r share. mget (byCode (sv_sessions s)) (normalizeCode code) = Some r \<and>
        e_now e \<le> ExpiresAt (sess (sv_sessions s) r) \<and> Share (sess (sv_sessions s) r) = Some share \<and>
        IsActiveDataSession (ts_ID (sess (sv_sessions s) r)) (sv_sessions s') \<and>
        FindPeer (cc_ID (cl_conn client)) (sv_sessions s') = Some share \<and>
        FindPeer (cc_ID share) (sv_sessions s') = Some (cl_conn client) \<and>
        (\<forall>t. sv_stunServer s' = Some t \<longrightarrow> mget (relaySessions t) (ts_ID (sess (sv_sessions s) r)) = None) \<and>
        \<not> close \<and>
        (\<exists>m1 m2. effs = sendMsg (cl_conn client') m1 @ sendMsg share m2)))"
proof -
  note inv = reach_inv [OF assms(1)]
  have new: "cc_Type (cl_conn client) \<noteq> connStateHelp" using assms(3) by (simp add: connStateNew_def connStateHelp_def)
  have granted: "cc_Type (cl_conn client') = connStateHelp \<and>
      (\<exists>r share. mget (byCode (sv_sessions s)) (normalizeCode code) = Some r \<and>
        e_now e \<le> ExpiresAt (sess (sv_sessions s) r) \<and> Share (sess (sv_sessions s) r) = Some share \<and>
        IsActiveDataSession (ts_ID (sess (sv_sessions s) r)) (sv_sessions s') \<and>
        FindPeer (cc_ID (cl_conn client)) (sv_sessions s') = Some share \<and>
        FindPeer (cc_ID share) (sv_sessions s') = Some (cl_conn client) \<and>
        (\<forall>t. sv_stunServer s' = Some t \<longrightarrow> mget (relaySessions t) (ts_ID (sess (sv_sessions s) r)) = None) \<and>
        \<not> close \<and> (\<exists>m1 m2. effs = sendMsg (cl_conn client') m1 @ sendMsg share m2))"
    if lim: "limiters_pass e client s"
      and j: "JoinSession (normalizeCode code) (cl_conn client) (e_now e) (sv_sessions s) = (sm', Inr jr)" for sm' jr
  proof -
    obtain r share sm2 where a: "mget (byCode (sv_sessions s)) (normalizeCode code) = Some r" "jr_SessionID jr = ts_ID (sess (sv_sessions s) r)"
      "Share (sess (sv_sessions s) r) = Some share" "jr_Share jr = share" "\<not> e_now e > ExpiresAt (sess (sv_sessions s) r)"
      "ActivateDataPlane (jr_SessionID jr) (jr_ShareID jr) (cc_ID (cl_conn client)) sm' = (sm2, True)"
      "IsActiveDataSession (jr_SessionID jr) sm2" "FindPeer (cc_ID (cl_conn client)) sm2 = Some share" "FindPeer (cc_ID share) sm2 = Some (cl_conn client)"
      using join_activates [OF inv assms(2) j] by blast
    show ?thesis
      by (rule handleJoin_granted [OF inv assms(2) lim j a(6)]) (use a assms(4) in fastforce)
  qed
  show ?thesis using granted handleJoin_help [OF assms(4) _ new] by blast
qed

section \<open>Handlers as runs of the session table\<close>

text \<open>The limits the server gives to the session table.\<close>

definition sv_L :: "Server \<Rightarrow> limits" where
  "sv_L s = \<lparr>maxSessionsPerIP = (if sourceIPLimitsDisabled s then 0 else rl_MaxActiveSessionsPerIP (sv_limits s)),
             maxTotalSessions = rl_MaxActiveSessionsTotal (sv_limits s)\<rparr>"

inductive sm_steps :: "limits \<Rightarrow> SessionManager \<Rightarrow> SessionManager \<Rightarrow> bool" for L :: limits where
  steps_refl [intro]: "sm_steps L sm sm"
| steps_step: "sm_steps L sm sm1 \<Longrightarrow> ev_fresh e sm1 \<Longrightarrow> sm_apply L e sm1 = Some sm2 \<Longrightarrow> sm_steps L sm sm2"

lemma steps_one: "ev_fresh e sm \<Longrightarrow> sm_apply L e sm = Some sm' \<Longrightarrow> sm_steps L sm sm'"
  by (rule steps_step [OF steps_refl])

lemma steps_reach: "sm_steps L sm sm' \<Longrightarrow> sm_reach L g sm \<Longrightarrow> sm_reach L g sm'"
  by (induction rule: sm_steps.induct) (auto intro: sm_step)

text \<open>The connections that take part in a session; no step adds one but the registering connection.\<close>

definition members :: "SessionManager \<Rightarrow> string set" where
  "members sm = {k. \<exists>sid r. mget (sessions sm) sid = Some r \<and> member_id (sess sm r) k}"

lemma conn_free_iff: "conn_free k sm \<longleftrightarrow> k \<noteq> [] \<and> k \<notin> members sm"
  by (auto simp: conn_free_def members_def)

lemma members_subI:
  assumes "\<And>sid r. mget (sessions sm') sid = Some r \<Longrightarrow> mget (sessions sm) sid = Some r"
    and "\<And>sid r k. mget (sessions sm') sid = Some r \<Longrightarrow> member_id (sess sm' r) k \<Longrightarrow> member_id (sess sm r) k \<or> k \<in> K"
  shows "members sm' \<subseteq> members sm \<union> K"
  using assms unfolding members_def by blast

lemma members_upd:
  assumes "\<And>k. member_id (f (sess sm r)) k \<Longrightarrow> member_id (sess sm r) k \<or> k \<in> K"
  shows "members ((upd r f sm)\<lparr>byConnID := m\<rparr>) \<subseteq> members sm \<union> K" "members (upd r f sm) \<subseteq> members sm \<union> K"
  by (rule members_subI; use assms in \<open>auto split: if_splits\<close>)+

lemma member_id_cong: "Share s = Share t \<Longrightarrow> Help s = Help t \<Longrightarrow> member_id s k = member_id t k"
  by (simp add: member_id_def)

lemma members_delete: "members (fst (deleteSessionLocked sid ex sm)) \<subseteq> members sm"
proof -
  obtain sm' rest where d: "deleteSessionLocked sid ex sm = (sm', rest)"
    by (cases "deleteSessionLocked sid ex sm")
  have "members sm' \<subseteq> members sm \<union> {}"
    by (rule members_subI; use d in \<open>auto simp: deleteSessionLocked_def member_id_iff Let_def split: option.splits if_splits\<close>)
  then show ?thesis by (simp add: d)
qed

lemma members_cleanup: "members (fst (CleanupExpired now order sm)) \<subseteq> members sm"
proof -
  have one: "members (fst (cleanup_one now x st)) \<subseteq> members (fst st)" for x st
  proof -
    obtain m ex cl where st: "st = (m, ex, cl)" by (cases st)
    have frame: "members (m\<lparr>byCode := b\<rparr>) = members m" for b by (simp add: members_def)
    show ?thesis
    proof (cases "mget (sessions m) x")
      case (Some r)
      let ?m1 = "m\<lparr>byCode := del_if (Code (sess m r)) r (byCode m)\<rparr>"
      obtain m2 a b d where d: "deleteSessionLocked x (Some r) ?m1 = (m2, a, b, d)"
        by (cases "deleteSessionLocked x (Some r) ?m1")
      have "members m2 \<subseteq> members m" using members_delete [of x "Some r" ?m1] by (simp add: d frame)
      with Some d show ?thesis by (simp add: st cleanup_one_def Let_def frame)
    qed (simp add: st cleanup_one_def)
  qed
  have "members (fst (fold (cleanup_one now) order st)) \<subseteq> members (fst st)" for st
  proof (induction order arbitrary: st)
    case (Cons x xs)
    show ?case using subset_trans [OF Cons.IH one] by simp
  qed simp
  from this [of "(sm, [], [])"] show ?thesis by (simp add: CleanupExpired_def)
qed

lemma members_disconnect: "members (fst (DisconnectClient k now sm)) \<subseteq> members sm"
proof (cases "mget (byConnID sm) k")
  case (Some r)
  from DisconnectClient_shape [OF Some, of now] show ?thesis
    by (elim disjE exE conjE; simp only:)
       (rule members_subI [where K = "{}", simplified]; auto simp: member_id_iff split: if_splits)+
qed (simp add: DisconnectClient_def)

lemma members_reuse: "members (fst (ReuseSessionByClientID cid c now sm)) \<subseteq> insert (cc_ID c) (members sm)"
proof -
  have "Share s' = Share s \<and> Help s' = Help s" if "conflictCheck now c s = Inl (s', res)" for s s' res
    using that by (auto simp: conflictCheck_def Let_def split: option.splits if_splits)
  then have l: "members (upd r (\<lambda>_. s') sm) \<subseteq> members sm \<union> {cc_ID c}" if "conflictCheck now c (sess sm r) = Inl (s', res)" for r s' res
    using that by (intro members_upd) (auto simp: member_id_iff)
  have "members ((upd r (\<lambda>_. takeOver c s') sm)\<lparr>byConnID := m\<rparr>) \<subseteq> members sm \<union> {cc_ID c}" for r s' m
    by (rule members_upd) (auto simp: member_id_iff takeOver_def)
  with l show ?thesis
    by (auto simp: ReuseSessionByClientID_def Let_def split: option.splits sum.splits)
qed

lemma members_create:
  assumes "createSession code share ttl cid ip mp mt ready now ids sm = Some (sm', res)" "sm_inv L sm"
  shows "members sm' \<subseteq> (case share of None \<Rightarrow> {} | Some c \<Rightarrow> {cc_ID c}) \<union> members sm"
proof (cases res)
  case (Inl e)
  then show ?thesis using assms(1) by (auto simp: createSession_def Let_def split: if_splits option.splits)
next
  case (Inr r)
  show ?thesis
    using assms(1) unfolding Inr
  proof (rule createSession_Inr)
    fix sid'
    assume s: "sessions sm' = mput sid' r (sessions sm)" "r = next_ref sm"
      "sess sm' = (sess sm)(r := no_session\<lparr>ts_ID := sid', Code := code, Share := share, CreatedAt := now,
       ExpiresAt := now + ttl, ts_ClientID := cid, CreatorIP := ip, countedByIP := ip \<noteq> [] \<and> mp > 0, shareReady := ready\<rparr>)"
    have "mget (sessions sm) x \<noteq> Some r" for x
      using inv_sessions(4) [OF assms(2), of x r] s(2) by auto
    with s show ?thesis
      by (auto simp: members_def member_id_iff no_session_def split: if_splits option.splits)
  qed
qed

lemma members_apply:
  assumes inv: "sm_inv L sm" and ap: "sm_apply L e sm = Some sm'"
  shows "members sm' \<subseteq> (case ev_conn e of None \<Rightarrow> {} | Some c \<Rightarrow> {cc_ID c}) \<union> members sm"
proof (cases e)
  case (EvCreate code share ttl cid ip ready now ids)
  then obtain res where "createSession code share ttl cid ip (maxSessionsPerIP L) (maxTotalSessions L) ready now ids sm = Some (sm', res)"
    using ap by auto
  from members_create [OF this inv] EvCreate show ?thesis by simp
next
  case (EvClose x)
  have "members (fst (CloseSession x sm)) \<subseteq> members sm"
    using members_delete [of x "mget (sessions sm) x" sm] by (auto simp: CloseSession_def split: prod.splits)
  with EvClose ap show ?thesis by auto
next
  case (EvTimer r)
  have "members (fst (helpTimerFired r sm)) \<subseteq> members sm \<union> {}"
    by (rule members_subI) (auto simp: helpTimerFired_def Let_def member_id_iff split: option.splits if_splits)
  with EvTimer ap show ?thesis by auto
next
  case (EvJoin code c now)
  have "members (fst (JoinSession code c now sm)) \<subseteq> members sm \<union> {cc_ID c}"
    by (rule members_subI) (auto simp: JoinSession_def installHelp_def Let_def member_id_iff split: option.splits if_splits)
  with EvJoin ap show ?thesis by auto
next
  case (EvRollback sid k)
  have "members (RollbackJoin sid k sm) \<subseteq> members sm \<union> {}"
    by (rule members_subI) (auto simp: RollbackJoin_def member_id_iff split: option.splits if_splits)
  with EvRollback ap show ?thesis by auto
next
  case (EvMarkReady sid k)
  have "members (fst (MarkShareReady sid k sm)) \<subseteq> members sm \<union> {}"
    by (rule members_subI) (auto simp: MarkShareReady_def member_id_iff split: option.splits if_splits)
  with EvMarkReady ap show ?thesis by auto
next
  case (EvActivate sid k k')
  have "members (fst (ActivateDataPlane sid k k' sm)) \<subseteq> members sm \<union> {}"
    by (rule members_subI) (auto simp: ActivateDataPlane_def member_id_iff Let_def split: option.splits if_splits)
  with EvActivate ap show ?thesis by auto
next
  case (EvUpdateAddr k a b n)
  have "members sm1 \<subseteq> members sm \<union> {}" if "UpdatePeerAddr k a b n sm = Some (sm1, u)" for sm1 u
    by (rule members_subI) (use that in \<open>auto simp: UpdatePeerAddr_def member_id_iff Let_def split: option.splits if_splits\<close>)
  with EvUpdateAddr ap show ?thesis by fastforce
qed (use ap members_reuse members_disconnect members_cleanup in fastforce)+

text \<open>
  What a handler does to the session table, on behalf of the connection \<open>k\<close>: a run of the table
  in which at most \<open>k\<close> joins a session, and nothing else of what counts connections changes.
\<close>

definition table_run :: "string \<Rightarrow> bool \<Rightarrow> Server \<Rightarrow> Server \<Rightarrow> bool" where
  "table_run k joined s s' =
     (sm_steps (sv_L s) (sv_sessions s) (sv_sessions s') \<and>
      members (sv_sessions s') \<subseteq> members (sv_sessions s) \<union> (if joined then {k} else {}) \<and>
      sv_clients s' = sv_clients s \<and> connTotal s' = connTotal s \<and> connPerIP s' = connPerIP s \<and>
      sv_limits s' = sv_limits s \<and> sv_config s' = sv_config s)"

lemma table_run_core: "core s' = core s \<Longrightarrow> table_run k j s s'"
  by (auto simp: table_run_def core_def)

lemma table_run_refl [simp]: "table_run k j s s"
  by (rule table_run_core) simp

lemma sv_L_cong: "sv_limits s' = sv_limits s \<Longrightarrow> sv_config s' = sv_config s \<Longrightarrow> sv_L s' = sv_L s"
  by (simp add: sv_L_def sourceIPLimitsDisabled_def)

lemma steps_trans: "sm_steps L b c \<Longrightarrow> sm_steps L a b \<Longrightarrow> sm_steps L a c"
  by (induction rule: sm_steps.induct) (auto intro: steps_step)

lemma table_run_trans:
  "table_run k j s s1 \<Longrightarrow> table_run k j' s1 s2 \<Longrightarrow> table_run k (j \<or> j') s s2"
  unfolding table_run_def using sv_L_cong [of s1 s] steps_trans by (auto split: if_splits)

lemma table_run_event:
  assumes "sm_inv (sv_L s) (sv_sessions s)" "ev_fresh e (sv_sessions s)"
    and "sm_apply (sv_L s) e (sv_sessions s) = Some (sv_sessions s')"
    and "sv_clients s' = sv_clients s" "connTotal s' = connTotal s" "connPerIP s' = connPerIP s"
      "sv_limits s' = sv_limits s" "sv_config s' = sv_config s"
    and "case ev_conn e of None \<Rightarrow> True | Some c \<Rightarrow> j \<and> cc_ID c = k"
  shows "table_run k j s s'"
  using assms members_apply [OF assms(1,3)] steps_one [OF assms(2,3)]
  by (auto simp: table_run_def split: option.splits if_splits)

lemma table_run_inv: "table_run k j s s' \<Longrightarrow> sm_inv (sv_L s) (sv_sessions s) \<Longrightarrow> sm_inv (sv_L s') (sv_sessions s')"
proof -
  assume t: "table_run k j s s'" and i: "sm_inv (sv_L s) (sv_sessions s)"
  have "sm_inv L sm'" if "sm_steps L sm sm'" "sm_inv L sm" for L sm sm'
    using that by (induction rule: sm_steps.induct) (auto intro: inv_apply)
  moreover have "sv_L s' = sv_L s" using t by (auto simp: table_run_def intro: sv_L_cong)
  ultimately show ?thesis using t i by (auto simp: table_run_def)
qed

lemma fresh_none [simp]: "ev_conn e = None \<Longrightarrow> ev_fresh e sm"
  by (simp add: ev_fresh_def)

lemma run_finishRegister:
  assumes "sm_inv (sv_L s) (sv_sessions s)" "finishRegister client sid code ex oh s effs = (s', client', effs', close)"
  shows "table_run k j s s' \<and> cc_ID (cl_conn client') = cc_ID (cl_conn client) \<and> cc_Type (cl_conn client') = connStateShare"
proof -
  obtain sm ready where m: "MarkShareReady sid (cc_ID (cl_conn client)) (sv_sessions s) = (sm, ready)" by fastforce
  have s': "s' = s\<lparr>sv_sessions := sm\<rparr>" "cc_ID (cl_conn client') = cc_ID (cl_conn client)" "cc_Type (cl_conn client') = connStateShare"
    using assms(2) m by (auto simp: finishRegister_def Let_def split: if_splits)
  have "table_run k j s (s\<lparr>sv_sessions := sm\<rparr>)"
    by (rule table_run_event [where e = "EvMarkReady sid (cc_ID (cl_conn client))"]) (use assms(1) m in auto)
  with s' show ?thesis by simp
qed

lemma Reuse_not_reused:
  assumes "ReuseSessionByClientID cid c now sm = (sm', res, False)" "\<not> (case res of None \<Rightarrow> False | Some r \<Rightarrow> Conflict r)"
  shows "sm' = sm"
  using assms by (auto simp: ReuseSessionByClientID_def conflictCheck_def conflictResult_def Let_def
      split: option.splits sum.splits if_splits)

lemma run_invalidate: "table_run k j s (invalidateRelay x s)"
  by (auto simp: table_run_def)

lemma members_reuse_conflict:
  assumes "ReuseSessionByClientID cid c now sm = (sm', res, False)"
  shows "members sm' \<subseteq> members sm"
proof -
  have eq: "Share s' = Share s \<and> Help s' = Help s" if "conflictCheck now c s = Inl (s', r)" for s s' r
    using that by (auto simp: conflictCheck_def Let_def split: option.splits if_splits)
  have "members sm' \<subseteq> members sm \<union> {}"
    by (rule members_subI; use assms eq in \<open>fastforce simp: ReuseSessionByClientID_def member_id_iff Let_def
      split: option.splits sum.splits if_splits\<close>)
  then show ?thesis by simp
qed

text \<open>Registration: a run of the table; the connection takes part in a session only as a share.\<close>

lemma run_handleRegister:
  assumes inv: "sm_inv (sv_L s) (sv_sessions s)" and free: "conn_free (cc_ID (cl_conn client)) (sv_sessions s)"
    and h: "handleRegister e client s = Some (s', client', effs, close)"
  shows "table_run (cc_ID (cl_conn client)) (cc_Type (cl_conn client') = connStateShare) s s' \<and>
    cc_ID (cl_conn client') = cc_ID (cl_conn client) \<and>
    (cc_Type (cl_conn client') = connStateShare \<or> cc_Type (cl_conn client') = cc_Type (cl_conn client))"
proof -
  let ?c = "cl_conn client"
  obtain k a where k: "perIPAllow s (clientHost ?c) (e_now e) (createLimiterPerIP s) = (k, a)" by fastforce
  let ?s1 = "s\<lparr>createLimiterPerIP := k\<rparr>"
  obtain g b where g: "Bucket_Allow (e_now e) (createLimiterGlobal ?s1) = (g, b)" by fastforce
  let ?s2 = "?s1\<lparr>createLimiterGlobal := g\<rparr>"
  have c2: "core ?s2 = core s" by simp
  obtain sm res reused where r: "(if cc_ClientID ?c \<noteq> [] then ReuseSessionByClientID (cc_ClientID ?c) ?c (e_now e) (sv_sessions ?s2)
      else (sv_sessions ?s2, None, False)) = (sm, res, reused)" by (metis prod_cases3)
  let ?s3 = "?s2\<lparr>sv_sessions := sm\<rparr>"
  consider (limited) "\<not> a \<or> \<not> b" | (conflict) "a" "b" "\<not> reused" "case res of None \<Rightarrow> False | Some r \<Rightarrow> Conflict r"
    | (reuse) q where "a" "b" "reused" "res = Some q" | (fresh) "a" "b" "\<not> reused" "\<not> (case res of None \<Rightarrow> False | Some r \<Rightarrow> Conflict r)"
    | (odd) "a" "b" "reused" "res = None"
    by (cases a; cases b; cases reused; cases res) auto
  then show ?thesis
  proof cases
    case limited
    then have "core s' = core s \<and> client' = client"
      using h k g by (auto simp: handleRegister_def Let_def split: if_splits)
    then show ?thesis by (simp add: table_run_core)
  next
    case odd
    then show ?thesis using r by (auto simp: ReuseSessionByClientID_def Let_def split: if_splits option.splits sum.splits)
  next
    case conflict
    have s': "s' = ?s3" "client' = client" using h k g r conflict by (auto simp: handleRegister_def Let_def)
    have "sm_steps (sv_L s) (sv_sessions s) sm"
    proof (cases "cc_ClientID ?c = []")
      case False
      have "ev_fresh (EvReuse (cc_ClientID ?c) ?c (e_now e)) (sv_sessions s)" using free by (simp add: ev_fresh_def)
      then show ?thesis by (rule steps_one) (use r False in simp)
    qed (use r in auto)
    moreover have "members sm \<subseteq> members (sv_sessions s)"
      using r conflict(3) members_reuse_conflict by (auto split: if_splits)
    ultimately show ?thesis using s' by (auto simp: table_run_def)
  next
    case (reuse q)
    then have cid: "cc_ClientID ?c \<noteq> []" using r by auto
    have run3: "table_run (cc_ID ?c) True s ?s3"
      by (rule table_run_event [where e = "EvReuse (cc_ClientID ?c) ?c (e_now e)"])
         (use inv free cid r in \<open>auto simp: ev_fresh_def\<close>)
    let ?s4 = "invalidateRelay (rr_SessionID q) ?s3"
    have run4: "table_run (cc_ID ?c) True s ?s4"
      using table_run_trans [OF run3 run_invalidate, of True "rr_SessionID q"] by simp
    obtain s5 client5 effs5 close5 x where f: "finishRegister client (rr_SessionID q) (rr_Code q) (rr_ExpiresAt q) (OldHelp q) ?s4 x = (s', client', effs5, close5)"
      using h k g r reuse by (auto simp: handleRegister_def Let_def)
    from run_finishRegister [OF table_run_inv [OF run4 inv] f, of "cc_ID ?c" True] table_run_trans [OF run4] show ?thesis
      by fastforce
  next
    case fresh
    have sm: "sm = sv_sessions s"
    proof (cases "cc_ClientID ?c = []")
      case False
      then have "ReuseSessionByClientID (cc_ClientID ?c) ?c (e_now e) (sv_sessions s) = (sm, res, False)" using r fresh(3) by simp
      from Reuse_not_reused [OF this fresh(4)] show ?thesis .
    qed (use r in auto)
    let ?code = "if cfg_NoAuth (sv_config s) then Some NoAuthCode else generateCode (nat (sv_codes s)) (e_draws e)"
    show ?thesis
    proof (cases ?code)
      case None
      have "core s' = core s \<and> client' = client" using h k g r fresh None sm
        by (auto simp: handleRegister_def Let_def cong: if_cong)
      then show ?thesis by (simp add: table_run_core)
    next
      case (Some code)
      let ?mp = "if sourceIPLimitsDisabled s then 0 else rl_MaxActiveSessionsPerIP (sv_limits s)"
      let ?create = "createSession code (Some ?c) (cfg_CodeTTL (sv_config s)) (cc_ClientID ?c) (clientHost ?c) ?mp
        (rl_MaxActiveSessionsTotal (sv_limits s)) False (e_now e) (e_ids e) (sv_sessions s)"
      have dis: "sourceIPLimitsDisabled ?s2 = sourceIPLimitsDisabled s" by (simp add: sourceIPLimitsDisabled_def)
      note facts = h k g r fresh Some sm
      obtain sm2 res2 where cr: "?create = Some (sm2, res2)"
      proof (cases ?create)
        case None
        then show ?thesis using facts by (simp add: handleRegister_def Let_def dis cong: if_cong)
      qed auto
      have run: "table_run (cc_ID ?c) True s (?s2\<lparr>sv_sessions := sm2\<rparr>)"
        by (rule table_run_event [where e = "EvCreate code (Some ?c) (cfg_CodeTTL (sv_config s)) (cc_ClientID ?c) (clientHost ?c) False (e_now e) (e_ids e)"])
           (use inv free cr in \<open>auto simp: ev_fresh_def sv_L_def\<close>)
      show ?thesis
      proof (cases res2)
        case (Inl err)
        then have "sm2 = sv_sessions s"
          using cr by (auto simp: createSession_def Let_def split: if_splits option.splits)
        moreover have "s' = ?s2\<lparr>sv_sessions := sm2\<rparr> \<and> client' = client"
          using facts cr Inl by (simp add: handleRegister_def Let_def dis cong: if_cong)
        ultimately show ?thesis by (simp add: table_run_core core_def)
      next
        case (Inr q)
        have f: "finishRegister client (ts_ID (sess sm2 q)) code (ExpiresAt (sess sm2 q)) None (?s2\<lparr>sv_sessions := sm2\<rparr>) [] = (s', client', effs, close)"
          using facts cr Inr by (simp add: handleRegister_def Let_def dis cong: if_cong)
        from run_finishRegister [OF table_run_inv [OF run inv] f, of "cc_ID ?c" True] table_run_trans [OF run] show ?thesis
          by fastforce
      qed
    qed
  qed
qed

text \<open>Joining: a run of the table; the connection takes part in a session only as a helper.\<close>

lemma run_handleJoin:
  assumes inv: "sm_inv (sv_L s) (sv_sessions s)" and free: "conn_free (cc_ID (cl_conn client)) (sv_sessions s)"
    and new: "cc_Type (cl_conn client) \<noteq> connStateHelp"
    and h: "handleJoin e client code s = (s', client', effs, close)"
  shows "table_run (cc_ID (cl_conn client)) (cc_Type (cl_conn client') = connStateHelp) s s' \<and>
    cc_ID (cl_conn client') = cc_ID (cl_conn client) \<and>
    (cc_Type (cl_conn client') = connStateHelp \<or> cc_Type (cl_conn client') = cc_Type (cl_conn client))"
proof (cases "limiters_pass e client s")
  case False
  then have "core s' = core s \<and> client' = client\<lparr>joinFailures := joinFailures client + 1\<rparr>"
    using h by (auto simp: limiters_pass_def handleJoin_def rejectJoin_def Let_def split: prod.splits if_splits)
  then show ?thesis by (simp add: table_run_core)
next
  case lim: True
  obtain k where k: "perIPAllow s (clientHost (cl_conn client)) (e_now e) (joinLimiterPerIP s) = (k, True)"
    using lim unfolding limiters_pass_def by (metis prod.collapse)
  obtain g where g: "Bucket_Allow (e_now e) (joinLimiterGlobal s) = (g, True)"
    using lim unfolding limiters_pass_def by (metis prod.collapse)
  obtain sm res where j: "JoinSession (normalizeCode code) (cl_conn client) (e_now e) (sv_sessions s) = (sm, res)" by fastforce
  show ?thesis
  proof (cases res)
    case (Inl err)
    then have "sm = sv_sessions s" using j by (auto simp: JoinSession_def Let_def split: option.splits if_splits)
    then have "core s' = core s \<and> client' = client\<lparr>joinFailures := joinFailures client + 1\<rparr>"
      using h k g j Inl by (auto simp: handleJoin_def rejectJoin_def Let_def core_def)
    then show ?thesis by (simp add: table_run_core)
  next
    case (Inr jr)
    let ?c = "cl_conn client"
    obtain r share sm2 where a: "ActivateDataPlane (jr_SessionID jr) (jr_ShareID jr) (cc_ID ?c) sm = (sm2, True)"
      using join_activates [OF inv free j [unfolded Inr]] by blast
    have res: "cc_Type (cl_conn client') = connStateHelp \<and> cc_ID (cl_conn client') = cc_ID ?c \<and> sv_sessions s' = sm2 \<and>
        sv_clients s' = sv_clients s \<and> connTotal s' = connTotal s \<and> connPerIP s' = connPerIP s \<and>
        sv_limits s' = sv_limits s \<and> sv_config s' = sv_config s"
      by (rule handleJoin_granted [OF inv free lim j [unfolded Inr] a]) (use h in auto)
    have r1: "table_run (cc_ID ?c) True s (s\<lparr>sv_sessions := sm\<rparr>)"
      by (rule table_run_event [where e = "EvJoin (normalizeCode code) ?c (e_now e)"])
         (use inv free j in \<open>auto simp: ev_fresh_def\<close>)
    have r2: "table_run (cc_ID ?c) False (s\<lparr>sv_sessions := sm\<rparr>) s'"
      by (rule table_run_event [where e = "EvActivate (jr_SessionID jr) (jr_ShareID jr) (cc_ID ?c)"])
         (use table_run_inv [OF r1 inv] a res in auto)
    from table_run_trans [OF r1 r2] res show ?thesis by simp
  qed
qed

lemma run_handleBusiness:
  assumes inv: "sm_inv (sv_L s) (sv_sessions s)" and h: "handleBusiness dec e client msg s = Some (s', client', effs, close)"
  shows "table_run k j s s' \<and> client' = client"
proof -
  have core_run: "table_run k j s s1" if "core s1 = core s" for s1 using that by (rule table_run_core)
  consider (data) "msg_Type msg = MsgTunnelData" | (beat) "msg_Type msg = MsgHeartbeat"
    | (adv) "msg_Type msg = MsgPeerAddrAdvertise" | (p2p) "msg_Type msg = MsgP2PConnected"
    | (tool) "msg_Type msg \<notin> {MsgTunnelData, MsgHeartbeat, MsgPeerAddrAdvertise, MsgP2PConnected}" by blast
  then show ?thesis
  proof cases
    case data
    then have "s' = fst (allowDataMessage (cl_conn client) (e_now e) s) \<and> client' = client"
      using h by (auto simp: handleBusiness_def Let_def split: prod.splits if_splits)
    then show ?thesis using core_run core_allowData by simp
  next
    case beat
    moreover have "MsgHeartbeat \<noteq> MsgTunnelData" by (simp add: MsgHeartbeat_def MsgTunnelData_def)
    ultimately have "core s' = core s \<and> client' = client"
      using h by (auto simp: handleBusiness_def Let_def split: prod.splits if_splits)
    then show ?thesis using core_run by simp
  next
    case p2p
    have "MsgP2PConnected \<notin> {MsgTunnelData, MsgHeartbeat, MsgPeerAddrAdvertise}"
      by (simp add: MsgP2PConnected_def MsgHeartbeat_def MsgTunnelData_def MsgPeerAddrAdvertise_def)
    with p2p have "s' = fst (allowControlMessage (cl_conn client) (e_now e) s) \<and> client' = client"
      using h by (auto simp: handleBusiness_def Let_def)
    then show ?thesis using core_run core_allowControl by simp
  next
    case tool
    then obtain ok where "allowToolMessage (cl_conn client) (length (msg_Payload msg)) (e_now e) (e_clock e) s = Some (s', ok)" "client' = client"
      using h by (auto simp: handleBusiness_def Let_def split: option.splits if_splits)
    then show ?thesis using core_run core_toolWait by (auto simp: allowToolMessage_def)
  next
    case adv
    have "MsgPeerAddrAdvertise \<notin> {MsgTunnelData, MsgHeartbeat}"
      by (simp add: MsgHeartbeat_def MsgTunnelData_def MsgPeerAddrAdvertise_def)
    with adv h have a: "(case allowControlMessage (cl_conn client) (e_now e) s of (s1, ok) \<Rightarrow>
        if \<not> ok then Some (s1, client, [], False)
        else map_option (\<lambda>(s2, effs). (s2, client, effs, False)) (handlePeerAddrAdvertise dec (cl_conn client) msg s1)) = Some (s', client', effs, close)"
      by (auto simp: handleBusiness_def Let_def)
    obtain s1 ok where s1: "allowControlMessage (cl_conn client) (e_now e) s = (s1, ok)" by fastforce
    have c1: "core s1 = core s" using core_allowControl [of "cl_conn client" "e_now e" s] s1 by simp
    show ?thesis
    proof (cases ok)
      case False
      with a s1 c1 core_run show ?thesis by auto
    next
      case True
      with a s1 obtain effs' where p: "handlePeerAddrAdvertise dec (cl_conn client) msg s1 = Some (s', effs')" "client' = client"
        by (auto simp: map_option_case split: option.splits)
      show ?thesis
      proof (cases "dec_Advertise dec (msg_Payload msg)")
        case None
        with p c1 core_run show ?thesis by (simp add: handlePeerAddrAdvertise_def)
      next
        case (Some ad)
        obtain s2 pub where s2: "publicAddrFallback (cl_conn client) ad s1 = (s2, pub)" by fastforce
        have c2: "core s2 = core s"
          using s2 c1 by (auto simp: publicAddrFallback_def Let_def split: option.splits prod.splits if_splits)
        obtain sm u where u: "UpdatePeerAddr (cc_ID (cl_conn client)) pub (pa_PrivateAddr ad) (pa_NATType ad) (sv_sessions s2) = Some (sm, u)"
          and s': "s' = s2\<lparr>sv_sessions := sm\<rparr> \<or> s' = logP2PSampled (s2\<lparr>sv_sessions := sm\<rparr>)"
          using p Some s2 by (auto simp: handlePeerAddrAdvertise_def Let_def split: option.splits)
        have f: "sv_sessions s2 = sv_sessions s" "sv_sessions s' = sm" "sv_clients s' = sv_clients s" "connTotal s' = connTotal s" "connPerIP s' = connPerIP s"
          "sv_limits s' = sv_limits s" "sv_config s' = sv_config s"
          using s' core_projs [OF c2] by (auto simp: logP2PSampled_def)
        have "table_run k j s s'"
          by (rule table_run_event [where e = "EvUpdateAddr (cc_ID (cl_conn client)) pub (pa_PrivateAddr ad) (pa_NATType ad)"])
             (use inv u f in auto)
        with p show ?thesis by simp
      qed
    qed
  qed
qed

text \<open>The whole handler, for a connection that is not yet in a session while it is new.\<close>

lemma run_handleMessage:
  assumes inv: "sm_inv (sv_L s) (sv_sessions s)"
    and free: "cc_Type (cl_conn client) = connStateNew \<longrightarrow> conn_free (cc_ID (cl_conn client)) (sv_sessions s)"
    and h: "handleMessage dec e client msg s = Some (s', client', effs, close)"
  shows "table_run (cc_ID (cl_conn client)) (cc_Type (cl_conn client') \<noteq> connStateNew) s s' \<and>
    cc_ID (cl_conn client') = cc_ID (cl_conn client) \<and>
    (cc_Type (cl_conn client) \<noteq> connStateNew \<longrightarrow> cc_Type (cl_conn client') \<noteq> connStateNew)"
proof -
  have ne: "connStateShare \<noteq> connStateNew" "connStateHelp \<noteq> connStateNew"
    by (simp_all add: connStateShare_def connStateHelp_def connStateNew_def)
  have weaken: "table_run k True s s'" if "table_run k j s s'" for k j
    using that by (auto simp: table_run_def split: if_splits)
  consider (reg) "msg_Type msg = MsgRegisterRequest" | (join) "msg_Type msg = MsgJoinRequest"
    | (other) "msg_Type msg \<notin> {MsgRegisterRequest, MsgJoinRequest}" by blast
  then show ?thesis
  proof cases
    case reg
    show ?thesis
    proof (cases "cc_Type (cl_conn client) \<noteq> connStateNew \<or> dec_Register dec (msg_Payload msg) = None")
      case True
      then show ?thesis using h reg by (auto simp: handleMessage_def Let_def split: if_splits)
    next
      case False
      then obtain rq where rq: "dec_Register dec (msg_Payload msg) = Some rq" "cc_Type (cl_conn client) = connStateNew" by blast
      let ?cl = "client\<lparr>cl_conn := (cl_conn client)\<lparr>cc_ClientID := rq_ClientID rq, cc_Version := sanitizePeerString (rq_Version rq),
        cc_Host := sanitizePeerString (rq_Host rq), cc_supportsUpdateNotice := rq_SupportsUpdateNotice rq\<rparr>\<rparr>"
      have "handleRegister e ?cl s = Some (s', client', effs, close)" using h reg rq by (simp add: handleMessage_def Let_def)
      from run_handleRegister [OF inv _ this] free rq(2) ne weaken show ?thesis by (auto split: if_splits)
    qed
  next
    case join
    have nr: "MsgJoinRequest \<noteq> MsgRegisterRequest" by (simp add: MsgJoinRequest_def MsgRegisterRequest_def)
    show ?thesis
    proof (cases "cc_Type (cl_conn client) \<noteq> connStateNew \<or> dec_Join dec (msg_Payload msg) = None")
      case True
      then show ?thesis using h join nr by (auto simp: handleMessage_def Let_def split: if_splits)
    next
      case False
      then obtain jq where jq: "dec_Join dec (msg_Payload msg) = Some jq" "cc_Type (cl_conn client) = connStateNew" by blast
      let ?cl = "client\<lparr>cl_conn := (cl_conn client)\<lparr>cc_Version := sanitizePeerString (jq_Version jq),
        cc_Host := sanitizePeerString (jq_Host jq), cc_supportsUpdateNotice := jq_SupportsUpdateNotice jq\<rparr>\<rparr>"
      have "handleJoin e ?cl (jq_Code jq) s = (s', client', effs, close)" using h join nr jq by (simp add: handleMessage_def Let_def)
      from run_handleJoin [OF inv _ _ this] free jq(2) ne weaken show ?thesis by (auto split: if_splits)
    qed
  next
    case other
    show ?thesis
    proof (cases "msg_Type msg \<in> set business_msgs \<and> cc_Type (cl_conn client) \<noteq> connStateNew")
      case True
      then have "handleBusiness dec e client msg s = Some (s', client', effs, close)" using h other by (simp add: handleMessage_def Let_def)
      from run_handleBusiness [OF inv this] True show ?thesis by simp
    next
      case False
      then show ?thesis using h other by (auto simp: handleMessage_def Let_def split: if_splits)
    qed
  qed
qed

section \<open>A registered share\<close>

lemma demo_srv_start: "sv_sessions demo_srv = NewSessionManager (1800 * second)"
  by (simp add: demo_srv_def buildServer_def demo_config_def)

lemma demo_srv1_reach: "sm_reach (sv_L demo_srv) (1800 * second) (sv_sessions (fst (the demo_srv1)))"
proof -
  have "demo_srv1 \<noteq> None" by code_simp
  then obtain s c effs cl where d: "demo_srv1 = Some (s, c, effs, cl)" by (cases demo_srv1) auto
  have inv: "sm_inv (sv_L demo_srv) (sv_sessions demo_srv)" by (simp add: demo_srv_start inv_init)
  have free: "conn_free (cc_ID (cl_conn (demo_client ''10.0.0.1:4000'' ''cli_s''))) (sv_sessions demo_srv)" by code_simp
  have "table_run (cc_ID (cl_conn (demo_client ''10.0.0.1:4000'' ''cli_s''))) (cc_Type (cl_conn c) = connStateShare) demo_srv s"
    using run_handleRegister [OF inv free] d unfolding demo_srv1_def by blast
  then have "sm_steps (sv_L demo_srv) (NewSessionManager (1800 * second)) (sv_sessions s)"
    by (simp add: table_run_def demo_srv_start)
  from steps_reach [OF this sm_init] show ?thesis unfolding d by simp
qed

theorem join_pairs_both_sides_witness:
  "\<exists>s' c effs r share. handleJoin (demo_env 9) (demo_client ''10.0.0.2:5000'' ''cli_h'') ''ABCD-EF'' (fst (the demo_srv1)) = (s', c, effs, False) \<and>
     mget (byCode (sv_sessions (fst (the demo_srv1)))) (normalizeCode ''ABCD-EF'') = Some r \<and>
     IsActiveDataSession (ts_ID (sess (sv_sessions (fst (the demo_srv1))) r)) (sv_sessions s') \<and> FindPeer ''cli_h'' (sv_sessions s') = Some share"
proof -
  let ?cl = "demo_client ''10.0.0.2:5000'' ''cli_h''"
  let ?s = "fst (the demo_srv1)"
  let ?r = "handleJoin (demo_env 9) ?cl ''ABCD-EF'' ?s"
  have free: "conn_free (cc_ID (cl_conn ?cl)) (sv_sessions ?s)" by code_simp
  have t: "cc_Type (cl_conn (fst (snd ?r))) = connStateHelp" by code_simp
  obtain s' c effs close where r: "?r = (s', c, effs, close)" by (cases ?r)
  have n: "cc_Type (cl_conn ?cl) = connStateNew" by code_simp
  have i: "cc_ID (cl_conn ?cl) = ''cli_h''" by code_simp
  have "cc_Type (cl_conn c) = connStateHelp" using t r by simp
  then obtain q share where "mget (byCode (sv_sessions ?s)) (normalizeCode ''ABCD-EF'') = Some q"
      "IsActiveDataSession (ts_ID (sess (sv_sessions ?s) q)) (sv_sessions s')"
      "FindPeer (cc_ID (cl_conn ?cl)) (sv_sessions s') = Some share" "\<not> close"
    using join_pairs_both_sides [OF demo_srv1_reach free n r] by blast
  with r i show ?thesis by auto
qed

end
