(* ===== verification/Relay_Runs.thy ===== *)
theory Relay_Runs
  imports Relay_Server_Props
begin

text \<open>
  Whole-server runs: the relay server with the connections it is serving. Each step is one
  entry point of \<^verbatim>\<open>internal/relay/server.go\<close>: a connection accepted (TCP or QUIC), one line read
  from one connection, the end of a connection, the debounce timer of a session, a tick of the
  cleanup, a poll of the announcement file. The invariant of the runs says that connection
  slots are counted exactly and that the session table is in a state it can reach by itself
  with fresh connections, so that everything proved of the table holds inside the server.
\<close>

section \<open>Steps\<close>

type_synonym conns = "(string \<times> Client) list"

definition conn_id :: "string \<times> Client \<Rightarrow> string" where
  "conn_id p = cc_ID (cl_conn (snd p))"

text \<open>
  \<open>registerClient\<close> compares a drawn identifier with those of open connections. A helper that has
  just disconnected keeps its place for five seconds, and the runs assume that no identifier
  drawn in that time (128 random bits) repeats its.
\<close>

definition ids_ok :: "string list \<Rightarrow> Server \<Rightarrow> bool" where
  "ids_ok ids s = list_all (\<lambda>i. i \<noteq> [] \<and> (mget (sv_clients s) i = None \<longrightarrow> conn_free i (sv_sessions s))) ids"

datatype srv_event =
    Accept string "string list"
  | AcceptQUIC string bool "string list"
  | Line nat env bytes
  | Drop nat int
  | HelpTimer nat
  | Cleanup int "string list"
  | Poll file_obs

record json =
  js_dec :: decoders
  js_strict :: "bytes \<Rightarrow> UpdateInfo option"
  js_envelope :: "bytes \<Rightarrow> string option"

definition opened :: "string \<Rightarrow> conns \<Rightarrow> Server \<times> Client option \<Rightarrow> Server \<times> conns" where
  "opened addr cs r = (case r of (s, None) \<Rightarrow> (s, cs) | (s, Some c) \<Rightarrow> (s, (addr, c) # cs))"

fun srv_apply :: "json \<Rightarrow> srv_event \<Rightarrow> Server \<times> conns \<Rightarrow> (Server \<times> conns) option" where
  "srv_apply J (Accept addr ids) (s, cs) =
     (if ids_ok ids s then map_option (opened addr cs) (handleConn addr ids s) else None)"
| "srv_apply J (AcceptQUIC addr ok ids) (s, cs) =
     (if ids_ok ids s then map_option (opened addr cs) (acceptQUICConn addr ok ids s) else None)"
| "srv_apply J (Line i e raw) (s, cs) =
     (if i < length cs
      then map_option (\<lambda>(s', c', effs, close). (s', cs[i := (fst (cs ! i), c')])) (readLine (js_dec J) e (snd (cs ! i)) raw s)
      else None)"
| "srv_apply J (Drop i now) (s, cs) =
     (if i < length cs
      then Some (fst (closeConn (fst (cs ! i)) (snd (cs ! i)) now s), take i cs @ drop (Suc i) cs)
      else None)"
| "srv_apply J (HelpTimer r) (s, cs) = Some (fst (helpTimer r s), cs)"
| "srv_apply J (Cleanup now order) (s, cs) = Some (fst (cleanupTick now order s), cs)"
| "srv_apply J (Poll obs) (s, cs) = Some (updateInfoTick (js_strict J) (js_envelope J) obs s, cs)"

fun srv_run :: "json \<Rightarrow> srv_event list \<Rightarrow> Server \<times> conns \<Rightarrow> (Server \<times> conns) option" where
  "srv_run J [] st = Some st"
| "srv_run J (e # es) st = (case srv_apply J e st of None \<Rightarrow> None | Some st' \<Rightarrow> srv_run J es st')"

section \<open>The invariant\<close>

definition from_host :: "string \<Rightarrow> conns \<Rightarrow> nat" where
  "from_host h cs = length (filter (\<lambda>p. conn_host (fst p) = h) cs)"

definition slots_ok :: "Server \<Rightarrow> conns \<Rightarrow> bool" where
  "slots_ok s cs =
     (connTotal s = int (length cs) \<and>
      (\<forall>h. mget (connPerIP s) h = (if from_host h cs = 0 then None else Some (int (from_host h cs)))) \<and>
      connTotal s \<le> rl_MaxConnectionsTotal (sv_limits s) \<and>
      (\<not> sourceIPLimitsDisabled s \<longrightarrow> (\<forall>h. int (from_host h cs) \<le> rl_MaxConnectionsPerIP (sv_limits s))))"

definition ids_match :: "Server \<Rightarrow> conns \<Rightarrow> bool" where
  "ids_match s cs = (distinct (map conn_id cs) \<and> set (map conn_id cs) = mdom (sv_clients s))"

definition roles_ok :: "Server \<Rightarrow> conns \<Rightarrow> bool" where
  "roles_ok s cs = (\<forall>p \<in> set cs. conn_id p \<noteq> [] \<and>
     (cc_Type (cl_conn (snd p)) = connStateNew \<longrightarrow> conn_id p \<notin> members (sv_sessions s)))"

definition srv_inv :: "int \<Rightarrow> Server \<times> conns \<Rightarrow> bool" where
  "srv_inv g st = (case st of (s, cs) \<Rightarrow>
     sm_reach (sv_L s) g (sv_sessions s) \<and> slots_ok s cs \<and> ids_match s cs \<and> roles_ok s cs)"

lemma from_host_Cons [simp]: "from_host h (p # cs) = (if conn_host (fst p) = h then Suc (from_host h cs) else from_host h cs)"
  by (simp add: from_host_def)

lemma from_host_upd: "i < length cs \<Longrightarrow> from_host h (cs[i := (fst (cs ! i), c)]) = from_host h cs"
  by (induction cs arbitrary: i) (auto simp: from_host_def split: nat.split)

lemma from_host_remove:
  "i < length cs \<Longrightarrow> from_host h cs = from_host h (take i cs @ drop (Suc i) cs) + (if conn_host (fst (cs ! i)) = h then 1 else 0)"
proof -
  assume i: "i < length cs"
  have "cs = take i cs @ cs ! i # drop (Suc i) cs" using i by (rule id_take_nth_drop)
  then have "from_host h cs = from_host h (take i cs @ cs ! i # drop (Suc i) cs)" by simp
  then show ?thesis by (simp add: from_host_def)
qed

section \<open>Preservation\<close>

lemma slots_mget0: "slots_ok s cs \<Longrightarrow> mget0 (connPerIP s) h = int (from_host h cs)"
  by (auto simp: slots_ok_def mget0_def)

lemma slots_cong:
  "slots_ok s cs \<Longrightarrow> connTotal s' = connTotal s \<Longrightarrow> connPerIP s' = connPerIP s \<Longrightarrow> sv_limits s' = sv_limits s \<Longrightarrow>
   sv_config s' = sv_config s \<Longrightarrow> length cs' = length cs \<Longrightarrow> (\<And>h. from_host h cs' = from_host h cs) \<Longrightarrow> slots_ok s' cs'"
  by (simp add: slots_ok_def sourceIPLimitsDisabled_def)

lemma slots_acquire:
  assumes "slots_ok s cs" "acquireConnSlot (conn_host addr) s = (s1, True)"
  shows "slots_ok s1 ((addr, c) # cs)"
proof -
  let ?h = "conn_host addr"
  have lim: "connTotal s < rl_MaxConnectionsTotal (sv_limits s)"
    "\<not> sourceIPLimitsDisabled s \<longrightarrow> int (from_host ?h cs) < rl_MaxConnectionsPerIP (sv_limits s)"
    "s1 = s\<lparr>connTotal := connTotal s + 1, connPerIP := mput ?h (int (from_host ?h cs) + 1) (connPerIP s)\<rparr>"
    using assms slots_mget0 [OF assms(1)] by (auto simp: acquireConnSlot_def split: if_splits)
  then show ?thesis
    using assms(1) by (auto simp: slots_ok_def sourceIPLimitsDisabled_def)
qed

lemma slots_release:
  assumes "slots_ok s cs" "i < length cs"
  shows "slots_ok (releaseConnSlot (conn_host (fst (cs ! i))) s) (take i cs @ drop (Suc i) cs)"
proof -
  let ?h = "conn_host (fst (cs ! i))"
  let ?cs = "take i cs @ drop (Suc i) cs"
  have fh: "from_host h cs = from_host h ?cs + (if ?h = h then 1 else 0)" for h
    by (rule from_host_remove [OF assms(2)])
  have cur: "mget (connPerIP s) ?h = Some (int (from_host ?h ?cs) + 1)"
    using assms(1) fh [of ?h] by (simp add: slots_ok_def)
  have len: "int (length ?cs) = connTotal s - 1" "connTotal s > 0"
    using assms by (auto simp: slots_ok_def)
  have rel: "releaseConnSlot ?h s = s\<lparr>connPerIP := (if from_host ?h ?cs = 0 then mdel ?h (connPerIP s)
      else mput ?h (int (from_host ?h ?cs)) (connPerIP s)), connTotal := connTotal s - 1\<rparr>"
    using cur len by (simp add: releaseConnSlot_def)
  have le: "int (from_host h ?cs) \<le> int (from_host h cs)" for h using fh [of h] by simp
  have per: "mget (connPerIP (releaseConnSlot ?h s)) h = (if from_host h ?cs = 0 then None else Some (int (from_host h ?cs)))" for h
    using assms(1) fh [of h] unfolding rel by (auto simp: slots_ok_def)
  have lims: "\<not> sourceIPLimitsDisabled s \<longrightarrow> (\<forall>h. int (from_host h ?cs) \<le> rl_MaxConnectionsPerIP (sv_limits s))"
    using assms(1) le order_trans unfolding slots_ok_def by blast
  show ?thesis
    unfolding slots_ok_def
  proof (intro conjI)
    show "\<forall>h. mget (connPerIP (releaseConnSlot ?h s)) h = (if from_host h ?cs = 0 then None else Some (int (from_host h ?cs)))"
      using per by blast
  qed (use assms(1) len lims rel in \<open>simp_all add: slots_ok_def sourceIPLimitsDisabled_def\<close>)
qed

lemma conn_not_in_use: "ids_match s cs \<Longrightarrow> mget (sv_clients s) i = None \<Longrightarrow> i \<notin> set (map conn_id cs)"
  by (auto simp: ids_match_def dom_def)

text \<open>A connection that is let in, on a server whose slot has been taken.\<close>

lemma inv_startConn:
  assumes inv: "srv_inv g (s, cs)" and ids: "ids_ok ids s"
    and acq: "acquireConnSlot (conn_host addr) s = (s1, True)" and st: "startConn addr ids s1 = Some r"
  shows "srv_inv g (opened addr cs r)"
proof -
  have s1: "sv_clients s1 = sv_clients s" "sv_sessions s1 = sv_sessions s" "sv_limits s1 = sv_limits s" "sv_config s1 = sv_config s"
    using acq by (auto simp: acquireConnSlot_def split: if_splits)
  obtain i js where ids': "ids = i # js" using st by (cases ids) (auto simp: startConn_def)
  then obtain s2 c where reg: "registerClient (new_conn addr i) js s1 = Some (s2, c)"
    and r: "r = (s2, Some \<lparr>cl_conn = c, joinFailures = 0\<rparr>)"
    using st by (auto simp: startConn_def split: option.splits)
  obtain k where k: "find (\<lambda>i. mget (sv_clients s1) i = None) (i # js) = Some k"
    "s2 = s1\<lparr>sv_clients := mput k () (sv_clients s1)\<rparr>" "c = (new_conn addr i)\<lparr>cc_ID := k\<rparr>"
    using reg by (auto simp: registerClient_def new_conn_def split: option.splits)
  have find_mem: "x \<in> set xs \<and> P x" if "find P xs = Some x" for P x and xs :: "string list"
    using that by (auto simp: find_Some_iff)
  have kin: "k \<in> set ids" "mget (sv_clients s) k = None"
    using find_mem [OF k(1)] s1(1) ids' by auto
  then have kfree: "k \<noteq> []" "k \<notin> members (sv_sessions s)"
    using ids by (auto simp: ids_ok_def list_all_iff conn_free_iff)
  have slots: "slots_ok s2 ((addr, \<lparr>cl_conn = c, joinFailures = 0\<rparr>) # cs)"
    by (rule slots_cong [OF slots_acquire [OF _ acq, of cs "\<lparr>cl_conn = c, joinFailures = 0\<rparr>"]])
       (use inv k in \<open>auto simp: srv_inv_def\<close>)
  have match: "ids_match s2 ((addr, \<lparr>cl_conn = c, joinFailures = 0\<rparr>) # cs)"
    using inv conn_not_in_use [OF _ kin(2)] k s1 by (auto simp: srv_inv_def ids_match_def conn_id_def)
  have roles: "roles_ok s2 ((addr, \<lparr>cl_conn = c, joinFailures = 0\<rparr>) # cs)"
    using inv kfree k s1 by (simp add: srv_inv_def roles_ok_def conn_id_def)
  have "sv_L s2 = sv_L s" using k s1 by (simp add: sv_L_def sourceIPLimitsDisabled_def)
  then have "sm_reach (sv_L s2) g (sv_sessions s2)" using inv k s1 by (simp add: srv_inv_def)
  with slots match roles show ?thesis by (simp add: r opened_def srv_inv_def)
qed

lemma inv_refused:
  assumes inv: "srv_inv g (s, cs)" and acq: "acquireConnSlot h s = (s1, False)"
  shows "srv_inv g (s1, cs)"
  using inv acq by (auto simp: acquireConnSlot_def split: if_splits)

text \<open>A step of the table that leaves the connections alone.\<close>

lemma inv_table_run:
  assumes inv: "srv_inv g (s, cs)" and t: "table_run k False s s'"
  shows "srv_inv g (s', cs)"
proof -
  have L: "sv_L s' = sv_L s" using t by (auto simp: table_run_def intro: sv_L_cong)
  have "slots_ok s' cs"
    by (rule slots_cong [of s cs]) (use inv t in \<open>auto simp: srv_inv_def table_run_def\<close>)
  then show ?thesis
    using inv t L steps_reach by (auto simp: srv_inv_def table_run_def ids_match_def roles_ok_def)
qed

lemma inv_line:
  assumes inv: "srv_inv g (s, cs)" and i: "i < length cs"
    and h: "readLine dec e (snd (cs ! i)) raw s = Some (s', c', effs, close)"
  shows "srv_inv g (s', cs[i := (fst (cs ! i), c')])"
proof -
  let ?c = "snd (cs ! i)"
  have p: "cs ! i \<in> set cs" using i by simp
  have sm: "sm_inv (sv_L s) (sv_sessions s)" using inv reach_inv by (auto simp: srv_inv_def)
  have free: "cc_Type (cl_conn ?c) = connStateNew \<longrightarrow> conn_free (cc_ID (cl_conn ?c)) (sv_sessions s)"
    using inv p by (auto simp: srv_inv_def roles_ok_def conn_free_iff conn_id_def)
  have run: "table_run (cc_ID (cl_conn ?c)) (cc_Type (cl_conn c') \<noteq> connStateNew) s s' \<and>
    cc_ID (cl_conn c') = cc_ID (cl_conn ?c) \<and> (cc_Type (cl_conn ?c) \<noteq> connStateNew \<longrightarrow> cc_Type (cl_conn c') \<noteq> connStateNew)"
  proof (cases "s' = s \<and> c' = ?c")
    case False
    then obtain msg where "handleMessage dec e ?c msg s = Some (s', c', effs, close)"
      using h by (auto simp: readLine_def Let_def split: if_splits option.splits)
    then show ?thesis by (rule run_handleMessage [OF sm free])
  qed simp
  let ?cs = "cs[i := (fst (cs ! i), c')]"
  have ids: "map conn_id ?cs = map conn_id cs"
    using run i by (simp add: map_update conn_id_def list_update_same_conv)
  have slots: "slots_ok s' ?cs"
    by (rule slots_cong [of s cs]) (use inv run i in \<open>auto simp: srv_inv_def table_run_def from_host_upd\<close>)
  have match: "ids_match s' ?cs" using inv run ids by (simp add: srv_inv_def table_run_def ids_match_def)
  have "conn_id q \<noteq> [] \<and> (cc_Type (cl_conn (snd q)) = connStateNew \<longrightarrow> conn_id q \<notin> members (sv_sessions s'))" if q: "q \<in> set ?cs" for q
  proof -
    obtain j where j: "j < length cs" "q = ?cs ! j" using q by (auto simp: in_set_conv_nth)
    have ne: "conn_id q \<noteq> []"
      using inv j run i by (cases "j = i") (auto simp: srv_inv_def roles_ok_def conn_id_def)
    have sub: "members (sv_sessions s') \<subseteq> members (sv_sessions s) \<union> {cc_ID (cl_conn ?c)}"
      using run by (auto simp: table_run_def split: if_splits)
    have "conn_id q \<notin> members (sv_sessions s')" if t: "cc_Type (cl_conn (snd q)) = connStateNew"
    proof (cases "j = i")
      case True
      then have "cc_Type (cl_conn c') = connStateNew" "cc_Type (cl_conn ?c) = connStateNew"
        using t j i run by auto
      then have "members (sv_sessions s') \<subseteq> members (sv_sessions s)" "conn_id (cs ! i) \<notin> members (sv_sessions s)"
        using run inv p by (auto simp: table_run_def srv_inv_def roles_ok_def)
      then show ?thesis using True j i run by (auto simp: conn_id_def)
    next
      case False
      then have q': "q = cs ! j" "q \<in> set cs" using j by auto
      have "distinct (map conn_id cs)" using inv by (simp add: srv_inv_def ids_match_def)
      then have "conn_id q \<noteq> conn_id (cs ! i)" using False j i q' by (auto simp: distinct_conv_nth)
      moreover have "conn_id q \<notin> members (sv_sessions s)" using inv q'(2) t by (auto simp: srv_inv_def roles_ok_def)
      ultimately show ?thesis using sub by (auto simp: conn_id_def)
    qed
    with ne show ?thesis by blast
  qed
  then have roles: "roles_ok s' ?cs" by (simp add: roles_ok_def)
  have "sv_L s' = sv_L s" using run by (auto simp: table_run_def intro: sv_L_cong)
  then have "sm_reach (sv_L s') g (sv_sessions s')" using inv run steps_reach by (auto simp: srv_inv_def table_run_def)
  with slots match roles show ?thesis by (simp add: srv_inv_def)
qed

lemma run_endConn:
  assumes "sm_inv (sv_L s) (sv_sessions s)"
  shows "table_run k False (s\<lparr>sv_clients := m\<rparr>) ((fst (endConn client now s))\<lparr>sv_clients := m\<rparr>) \<and>
    sv_clients (fst (endConn client now s)) = mdel (cc_ID (cl_conn client)) (sv_clients s)"
proof -
  let ?s = "s\<lparr>sv_clients := m\<rparr>"
  obtain sm res where d: "DisconnectClient (cc_ID (cl_conn client)) now (sv_sessions s) = (sm, res)" by fastforce
  have L: "sv_L ?s = sv_L s" by (simp add: sv_L_def sourceIPLimitsDisabled_def)
  have f: "sv_sessions (fst (endConn client now s)) = sm" "connTotal (fst (endConn client now s)) = connTotal s"
    "connPerIP (fst (endConn client now s)) = connPerIP s" "sv_limits (fst (endConn client now s)) = sv_limits s"
    "sv_config (fst (endConn client now s)) = sv_config s"
    "sv_clients (fst (endConn client now s)) = mdel (cc_ID (cl_conn client)) (sv_clients s)"
    using d by (auto simp: endConn_def Let_def split: option.splits)
  have "table_run k False ?s ((fst (endConn client now s))\<lparr>sv_clients := m\<rparr>)"
    by (rule table_run_event [where e = "EvDisconnect (cc_ID (cl_conn client)) now"]) (use assms d f L in auto)
  with f show ?thesis by simp
qed

lemma inv_drop:
  assumes inv: "srv_inv g (s, cs)" and i: "i < length cs"
  shows "srv_inv g (fst (closeConn (fst (cs ! i)) (snd (cs ! i)) now s), take i cs @ drop (Suc i) cs)"
proof -
  let ?s1 = "fst (endConn (snd (cs ! i)) now s)"
  let ?cs = "take i cs @ drop (Suc i) cs"
  let ?k = "conn_id (cs ! i)"
  have sm: "sm_inv (sv_L s) (sv_sessions s)" using inv reach_inv by (auto simp: srv_inv_def)
  have e: "table_run ?k False s (?s1\<lparr>sv_clients := sv_clients s\<rparr>)" "sv_clients ?s1 = mdel ?k (sv_clients s)"
    using run_endConn [OF sm, of ?k "sv_clients s" "snd (cs ! i)" now] by (simp_all add: conn_id_def)
  have e': "sm_steps (sv_L s) (sv_sessions s) (sv_sessions ?s1)" "members (sv_sessions ?s1) \<subseteq> members (sv_sessions s)"
    "connTotal ?s1 = connTotal s" "connPerIP ?s1 = connPerIP s" "sv_limits ?s1 = sv_limits s" "sv_config ?s1 = sv_config s"
    using e(1) by (simp_all add: table_run_def)
  have split: "cs = take i cs @ cs ! i # drop (Suc i) cs" using i by (rule id_take_nth_drop)
  have dist: "distinct (map conn_id (take i cs @ cs ! i # drop (Suc i) cs))" "set (map conn_id cs) = mdom (sv_clients s)"
    using inv split by (auto simp: srv_inv_def ids_match_def)
  have m1: "distinct (map conn_id ?cs)" using dist(1) by auto
  have m2: "?k \<notin> set (map conn_id ?cs)" using dist(1) by auto
  have m3: "set (map conn_id cs) = insert ?k (set (map conn_id ?cs))"
    using arg_cong [OF split, of "\<lambda>x. set (map conn_id x)"] by auto
  have slots: "slots_ok ?s1 cs"
    by (rule slots_cong [of s cs]) (use inv e' in \<open>auto simp: srv_inv_def\<close>)
  let ?s2 = "releaseConnSlot (conn_host (fst (cs ! i))) ?s1"
  have fr: "sv_clients ?s2 = sv_clients ?s1" "sv_sessions ?s2 = sv_sessions ?s1" "sv_limits ?s2 = sv_limits ?s1" "sv_config ?s2 = sv_config ?s1"
    by (simp_all add: releaseConnSlot_def split: option.splits)
  have match: "ids_match ?s2 ?cs"
    using m1 m2 m3 dist(2) unfolding ids_match_def fr e(2) by auto
  have roles: "roles_ok ?s2 ?cs"
    using inv e'(2) unfolding srv_inv_def roles_ok_def fr by (auto dest: in_set_takeD in_set_dropD)
  have "sv_L ?s2 = sv_L s" using fr e' by (auto intro: sv_L_cong)
  then have "sm_reach (sv_L ?s2) g (sv_sessions ?s2)" using inv e'(1) fr steps_reach by (auto simp: srv_inv_def)
  moreover have "fst (closeConn (fst (cs ! i)) (snd (cs ! i)) now s) = ?s2"
    by (simp add: closeConn_def split_beta Let_def)
  ultimately show ?thesis using slots_release [OF slots i] match roles by (simp add: srv_inv_def)
qed

lemma fold_invalidate [simp]:
  "sv_sessions (fold invalidateRelay xs s) = sv_sessions s" "sv_clients (fold invalidateRelay xs s) = sv_clients s"
  "connTotal (fold invalidateRelay xs s) = connTotal s" "connPerIP (fold invalidateRelay xs s) = connPerIP s"
  "sv_limits (fold invalidateRelay xs s) = sv_limits s" "sv_config (fold invalidateRelay xs s) = sv_config s"
  by (induction xs arbitrary: s) simp_all

lemma inv_step:
  assumes inv: "srv_inv g st" and ap: "srv_apply J e st = Some st'"
  shows "srv_inv g st'"
proof -
  obtain s cs where st: "st = (s, cs)" by (cases st)
  note inv' = inv [unfolded st]
  have sm: "sm_inv (sv_L s) (sv_sessions s)" using inv' reach_inv by (auto simp: srv_inv_def)
  show ?thesis
  proof (cases e)
    case (Accept addr ids)
    obtain s1 ok where a: "acquireConnSlot (conn_host addr) s = (s1, ok)" by fastforce
    show ?thesis
      using ap Accept a inv_refused [OF inv', of "conn_host addr" s1] inv_startConn [OF inv', of ids addr s1]
      by (cases ok) (auto simp: st handleConn_def opened_def split: if_splits)
  next
    case (AcceptQUIC addr op ids)
    obtain s1 ok where a: "acquireConnSlot (conn_host addr) s = (s1, ok)" by fastforce
    have undo: "srv_inv g (releaseConnSlot (conn_host addr) s1, cs)" if ok
    proof -
      have "slots_ok s1 ((addr, undefined) # cs)" using slots_acquire a inv' that by (auto simp: srv_inv_def)
      from slots_release [OF this, of 0] have sl: "slots_ok (releaseConnSlot (conn_host addr) s1) cs" by simp
      have f: "sv_clients (releaseConnSlot (conn_host addr) s1) = sv_clients s" "sv_sessions (releaseConnSlot (conn_host addr) s1) = sv_sessions s"
        "sv_limits (releaseConnSlot (conn_host addr) s1) = sv_limits s" "sv_config (releaseConnSlot (conn_host addr) s1) = sv_config s"
        using a by (auto simp: releaseConnSlot_def acquireConnSlot_def split: option.splits if_splits)
      have "sv_L (releaseConnSlot (conn_host addr) s1) = sv_L s" using f(3,4) by (rule sv_L_cong)
      with sl inv' f show ?thesis by (simp add: srv_inv_def ids_match_def roles_ok_def)
    qed
    show ?thesis
      using ap AcceptQUIC a undo inv_refused [OF inv', of "conn_host addr" s1] inv_startConn [OF inv', of ids addr s1]
      by (cases ok; cases op) (auto simp: st acceptQUICConn_def opened_def split: if_splits)
  next
    case (Line i e' raw)
    then show ?thesis using ap inv_line [OF inv'] by (auto simp: st split: if_splits)
  next
    case (Drop i now)
    then show ?thesis using ap inv_drop [OF inv'] by (auto simp: st split: if_splits)
  next
    case (HelpTimer r)
    have "table_run [] False s (fst (helpTimer r s))"
      by (rule table_run_event [where e = "EvTimer r"]) (use sm in \<open>auto simp: helpTimer_def Let_def split: prod.splits\<close>)
    then show ?thesis using ap HelpTimer inv_table_run [OF inv'] by (auto simp: st)
  next
    case (Cleanup now order)
    have "table_run [] False s (fst (cleanupTick now order s))"
      by (rule table_run_event [where e = "EvCleanup now order"]) (use sm in \<open>auto simp: cleanupTick_def Let_def split: prod.splits\<close>)
    then show ?thesis using ap Cleanup inv_table_run [OF inv'] by (auto simp: st)
  next
    case (Poll obs)
    have "core (updateInfoTick (js_strict J) (js_envelope J) obs s) = core s"
      by (auto simp: updateInfoTick_def core_def Let_def split: prod.splits)
    then have "table_run [] False s (updateInfoTick (js_strict J) (js_envelope J) obs s)" by (rule table_run_core)
    then show ?thesis using ap Poll inv_table_run [OF inv'] by (auto simp: st)
  qed
qed

lemma inv_run: "srv_inv g st \<Longrightarrow> srv_run J es st = Some st' \<Longrightarrow> srv_inv g st'"
  by (induction es arbitrary: st) (auto split: option.splits intro: inv_step)

section \<open>Properties\<close>

lemma updateInfoTick_frame [simp]:
  "core (updateInfoTick st en obs s) = core s"
  "toolLimiterPerConn (updateInfoTick st en obs s) = toolLimiterPerConn s" "toolLimiterGlobal (updateInfoTick st en obs s) = toolLimiterGlobal s"
  by (auto simp: updateInfoTick_def core_def Let_def split: prod.splits)

lemma NewServer_Inr:
  assumes "NewServer strict envelope obs stun now cfg = Inr s"
  obtains cfg' l base where "s = updateInfoTick strict envelope obs (buildServer cfg' l base stun now)"
    "relay_ValidateLimits l = None" "cfg_Limits cfg' = l"
  using assms by (auto simp: NewServer_def Let_def split: option.splits if_splits)

lemma core_buildServer:
  assumes "s = updateInfoTick strict envelope obs (buildServer cfg' l base stun now)"
  shows "sv_sessions s = NewSessionManager (cfg_CodeTTL cfg')" "sv_clients s = mempty" "connTotal s = 0" "connPerIP s = mempty"
    "sv_limits s = l" "sv_config s = cfg'"
  using core_projs [OF updateInfoTick_frame(1) [of strict envelope obs "buildServer cfg' l base stun now"]]
  by (simp_all add: assms buildServer_def)

lemma inv_NewServer:
  assumes "NewServer strict envelope obs stun now cfg = Inr s"
  shows "srv_inv (cfg_CodeTTL (sv_config s)) (s, [])"
proof -
  obtain cfg' l base where s: "s = updateInfoTick strict envelope obs (buildServer cfg' l base stun now)"
    and l: "relay_ValidateLimits l = None" using assms by (rule NewServer_Inr)
  note f = core_buildServer [OF s]
  have "0 < rl_MaxConnectionsTotal l" "0 < rl_MaxConnectionsPerIP l"
    using relay_validated(1) [OF l] by (auto simp: relay_checks_def)
  then show ?thesis
    using f by (auto simp: srv_inv_def slots_ok_def ids_match_def roles_ok_def from_host_def intro: sm_init)
qed

text \<open>
  C7. Runs of the server are sound. Whatever connections come and go, whatever lines they
  send and whenever timers fire: the number of connections in use equals the counter and
  stays within the total limit; the counter of each source address equals the number of
  connections in use from it and stays within the per-address limit, unless such limits are
  switched off, and an address without connections has no entry; connections have distinct
  identifiers; a connection that has not registered takes part in no session; and the session
  table is in a state it reaches by its own operations with fresh connections, so that routing,
  quotas and the data plane are as proved for the table.
\<close>

theorem server_runs_sound:
  assumes "NewServer strict envelope obs stun now cfg = Inr s0" "srv_run J es (s0, []) = Some (s, cs)"
  shows "connTotal s = int (length cs) \<and> connTotal s \<le> rl_MaxConnectionsTotal (sv_limits s) \<and>
    (\<forall>h. mget (connPerIP s) h = (if from_host h cs = 0 then None else Some (int (from_host h cs)))) \<and>
    (sourceIPLimitsDisabled s \<or> (\<forall>h. int (from_host h cs) \<le> rl_MaxConnectionsPerIP (sv_limits s))) \<and>
    distinct (map conn_id cs) \<and>
    list_all (\<lambda>p. cc_Type (cl_conn (snd p)) \<noteq> connStateNew \<or> conn_free (conn_id p) (sv_sessions s)) cs \<and>
    sm_reach (sv_L s) (cfg_CodeTTL (sv_config s0)) (sv_sessions s)"
proof -
  from inv_run [OF inv_NewServer [OF assms(1)] assms(2)] show ?thesis
    by (auto simp: srv_inv_def slots_ok_def ids_match_def roles_ok_def conn_free_iff list_all_iff)
qed

definition demo_json :: json where
  "demo_json = \<lparr>js_dec = \<lparr>dec_Message = (\<lambda>_. None), dec_Register = (\<lambda>_. None), dec_Join = (\<lambda>_. None), dec_Advertise = (\<lambda>_. None)\<rparr>,
     js_strict = (\<lambda>_. None), js_envelope = (\<lambda>_. None)\<rparr>"

lemma default_limits_valid: "relay_ValidateLimits relay_DefaultLimits = None" "relay_normalizeLimits relay_DefaultLimits = relay_DefaultLimits"
  by code_simp+

lemma demo_NewServer: "NewServer (\<lambda>_. None) (\<lambda>_. None) NotExist None 0 demo_config = Inr demo_srv"
proof -
  have "normalizeUpdateInfo no_info = no_info"
    by (simp add: normalizeUpdateInfo_def no_info_def NormalizeDefaultURLVersion_def NormalizeRelease_Nil)
  then show ?thesis
    by (simp add: NewServer_def demo_config_def demo_srv_def default_limits_valid ValidateAdvertiseSTUN_def
        updateInfoTick_def buildServer_def minute_def second_def)
qed

theorem server_runs_sound_witness:
  "\<exists>s cs. srv_run demo_json [Accept ''10.0.0.1:4000'' [''cli_a''], Accept ''10.0.0.1:4001'' [''cli_a'', ''cli_b''], Drop 1 5] (demo_srv, []) = Some (s, cs) \<and>
     length cs = 1 \<and> connTotal s = 1 \<and> mget (connPerIP s) ''10.0.0.1'' = Some 1"
proof -
  let ?es = "[Accept ''10.0.0.1:4000'' [''cli_a''], Accept ''10.0.0.1:4001'' [''cli_a'', ''cli_b''], Drop 1 5]"
  have "(case srv_run demo_json ?es (demo_srv, []) of None \<Rightarrow> False | Some (s, cs) \<Rightarrow> length cs = 1 \<and> from_host ''10.0.0.1'' cs = 1)"
    by code_simp
  then obtain s cs where r: "srv_run demo_json ?es (demo_srv, []) = Some (s, cs)" "length cs = 1" "from_host ''10.0.0.1'' cs = 1"
    by (auto split: option.splits)
  from server_runs_sound [OF demo_NewServer r(1)] r show ?thesis by auto
qed

definition out_of_order :: "decoders \<Rightarrow> Client \<Rightarrow> Message \<Rightarrow> bool" where
  "out_of_order dec client msg =
     (let registered = (cc_Type (cl_conn client) \<noteq> connStateNew)
      in if msg_Type msg = MsgRegisterRequest then registered \<or> dec_Register dec (msg_Payload msg) = None
         else if msg_Type msg = MsgJoinRequest then registered \<or> dec_Join dec (msg_Payload msg) = None
         else msg_Type msg \<in> set business_msgs \<longrightarrow> \<not> registered)"

lemma registered_keeps_client:
  assumes "cc_Type (cl_conn client) \<noteq> connStateNew" "handleMessage dec e client msg s = Some (s', client', effs, close)"
  shows "client' = client"
  using assms by (auto simp: handleMessage_def handleBusiness_def Let_def split: if_splits option.splits prod.splits)

lemmas msg_type_defs =
  MsgRegisterRequest_def MsgJoinRequest_def MsgTunnelData_def MsgHeartbeat_def MsgPeerAddrAdvertise_def MsgP2PConnected_def

lemma business_closes:
  assumes "handleMessage dec e client msg s = Some (s', client', effs, True)" "msg_Type msg \<in> set business_msgs"
    and "cc_Type (cl_conn client) \<noteq> connStateNew"
  shows "msg_Type msg \<in> set tool_msgs \<and> effs = sendMsg (cl_conn client) (ErrorMessage ''RATE_LIMITED'')"
proof -
  have n: "msg_Type msg \<noteq> MsgRegisterRequest" "msg_Type msg \<noteq> MsgJoinRequest"
    using assms(2) by (auto simp: business_msgs_def tool_msgs_def msg_type_defs)
  then have "handleBusiness dec e client msg s = Some (s', client', effs, True)" using assms by (simp add: handleMessage_def)
  then show ?thesis using assms(2)
    by (auto simp: handleBusiness_def business_msgs_def Let_def split: if_splits prod.splits option.splits)
qed

text \<open>
  C18. The protocol of a connection. A message out of order (business before registering, a second registration
  or join), a registration or join that does not decode, and a message of an unknown type close the
  connection and do nothing else: no state of the server and of the connection changes and nothing is sent.
  On a registered connection a message of a known business type closes it only as a tool message over its limits,
  with an error sent; an address announcement that does not decode neither closes the
  connection nor sends anything, and changes no more than asking the limit for control messages does. On a registered
  connection no message changes the connection's identity, role or failure count.
\<close>

theorem connection_protocol:
  "(out_of_order dec client msg \<longrightarrow> handleMessage dec e client msg s = Some (s, client, [], True)) \<and>
   (cc_Type (cl_conn client) \<noteq> connStateNew \<longrightarrow>
     (handleMessage dec e client msg s = Some (s', client', effs, close) \<longrightarrow> client' = client \<and>
        (close \<and> msg_Type msg \<in> set business_msgs \<longrightarrow>
           msg_Type msg \<in> set tool_msgs \<and> effs = sendMsg (cl_conn client) (ErrorMessage ''RATE_LIMITED''))) \<and>
     (msg_Type msg = MsgPeerAddrAdvertise \<and> dec_Advertise dec (msg_Payload msg) = None \<longrightarrow>
        handleMessage dec e client msg s = Some (fst (allowControlMessage (cl_conn client) (e_now e) s), client, [], False)))"
proof (intro conjI impI)
  have ne: "MsgJoinRequest \<noteq> MsgRegisterRequest" by (simp add: MsgJoinRequest_def MsgRegisterRequest_def)
  show "handleMessage dec e client msg s = Some (s, client, [], True)" if "out_of_order dec client msg"
    using that ne by (auto simp: out_of_order_def handleMessage_def Let_def split: if_splits)
  assume reg: "cc_Type (cl_conn client) \<noteq> connStateNew"
  show "client' = client" if "handleMessage dec e client msg s = Some (s', client', effs, close)"
    using registered_keeps_client [OF reg that] .
  show "msg_Type msg \<in> set tool_msgs" "effs = sendMsg (cl_conn client) (ErrorMessage ''RATE_LIMITED'')"
    if "handleMessage dec e client msg s = Some (s', client', effs, close)" "close \<and> msg_Type msg \<in> set business_msgs"
    using business_closes [of dec e client msg s s' client' effs] that reg by auto
  show "handleMessage dec e client msg s = Some (fst (allowControlMessage (cl_conn client) (e_now e) s), client, [], False)"
    if "msg_Type msg = MsgPeerAddrAdvertise \<and> dec_Advertise dec (msg_Payload msg) = None"
    using that reg by (simp add: handleMessage_def handleBusiness_def handlePeerAddrAdvertise_def business_msgs_def msg_type_defs Let_def split: prod.split)
qed

theorem connection_protocol_witness:
  "handleMessage (js_dec demo_json) (demo_env 3) (demo_client ''10.0.0.2:5000'' ''cli_h'') \<lparr>msg_Type = ''tool_req'', msg_Payload = [1]\<rparr> demo_srv =
   Some (demo_srv, demo_client ''10.0.0.2:5000'' ''cli_h'', [], True)"
proof -
  have "out_of_order (js_dec demo_json) (demo_client ''10.0.0.2:5000'' ''cli_h'') \<lparr>msg_Type = ''tool_req'', msg_Payload = [1]\<rparr>" by code_simp
  then show ?thesis using connection_protocol by blast
qed

lemma toolWait_returns:
  "\<exists>t \<in> set ts. deadline \<le> t \<Longrightarrow> toolWait key cost deadline paid thr ts s \<noteq> None"
proof (induction ts arbitrary: paid thr s)
  case (Cons t ts)
  show ?case
  proof (cases "deadline \<le> t")
    case True
    then show ?thesis by (simp add: Let_def del: not_None_eq split: prod.split)
  next
    case False
    then have "\<exists>t \<in> set ts. deadline \<le> t" using Cons.prems by auto
    with Cons.IH show ?thesis by (simp add: Let_def del: not_None_eq split: prod.split)
  qed
qed simp

lemma tool_msg_dispatch:
  assumes "msg_Type msg \<in> set tool_msgs" "cc_Type (cl_conn client) \<noteq> connStateNew"
  shows "handleMessage dec e client msg s =
    (case allowToolMessage (cl_conn client) (length (msg_Payload msg)) (e_now e) (e_clock e) s of
       None \<Rightarrow> None
     | Some (s1, ok) \<Rightarrow>
         if \<not> ok then Some (s1, client, sendMsg (cl_conn client) (ErrorMessage ''RATE_LIMITED''), True)
         else Some (s1, client, forwardToPeer (cl_conn client) msg s1, False))"
proof -
  have ne: "msg_Type msg \<noteq> MsgRegisterRequest" "msg_Type msg \<noteq> MsgJoinRequest" "msg_Type msg \<noteq> MsgTunnelData" "msg_Type msg \<noteq> MsgHeartbeat"
    "msg_Type msg \<noteq> MsgPeerAddrAdvertise" "msg_Type msg \<noteq> MsgP2PConnected"
    using assms(1) by (auto simp: tool_msgs_def MsgRegisterRequest_def MsgJoinRequest_def MsgTunnelData_def MsgHeartbeat_def
        MsgPeerAddrAdvertise_def MsgP2PConnected_def)
  have "msg_Type msg \<in> set business_msgs" using assms(1) by (simp add: business_msgs_def)
  with ne assms(2) show ?thesis by (simp add: handleMessage_def handleBusiness_def Let_def)
qed

text \<open>
  Tool frames are never lost silently. The handler of a tool frame returns as soon as a
  reading of the clock reaches the end of the throttling window, and then does one of two
  things: it forwards the frame, unchanged, to the peer the session table names at that point
  and keeps the connection; or it tells the sender RATE\_LIMITED and closes. In both
  cases the session table is as before.
\<close>

theorem tool_frames_never_lost:
  assumes "msg_Type msg \<in> set tool_msgs" "cc_Type (cl_conn client) \<noteq> connStateNew"
    and "\<exists>t \<in> set (e_clock e). e_now e + toolThrottleMaxWait \<le> t"
  shows "\<exists>s' effs close. handleMessage dec e client msg s = Some (s', client, effs, close) \<and> sv_sessions s' = sv_sessions s \<and>
    (if close then effs = sendMsg (cl_conn client) (ErrorMessage ''RATE_LIMITED'')
     else effs = (case FindPeer (cc_ID (cl_conn client)) (sv_sessions s) of None \<Rightarrow> [] | Some peer \<Rightarrow> sendMsg peer (Forward msg)))"
proof -
  obtain s' ok where r: "allowToolMessage (cl_conn client) (length (msg_Payload msg)) (e_now e) (e_clock e) s = Some (s', ok)"
    using toolWait_returns [OF assms(3), of "cc_ID (cl_conn client)" "toolCost (length (msg_Payload msg))" False False s]
    by (auto simp: allowToolMessage_def)
  have "sv_sessions s' = sv_sessions s"
    using core_toolWait r by (auto simp: allowToolMessage_def intro: core_projs)
  with r show ?thesis
    unfolding tool_msg_dispatch [OF assms(1,2)] by (cases ok) (auto simp: forwardToPeer_def)
qed

definition demo_tool_env :: env where
  "demo_tool_env = \<lparr>e_now = 0, e_clock = [0, 3 * second], e_draws = [], e_ids = []\<rparr>"

theorem tool_frames_never_lost_witness:
  "\<exists>s' effs close. handleMessage (js_dec demo_json) demo_tool_env
      \<lparr>cl_conn = demo_share\<lparr>cc_Type := connStateShare\<rparr>, joinFailures = 0\<rparr> \<lparr>msg_Type = ''tool_req'', msg_Payload = [1]\<rparr>
      (demo_srv\<lparr>sv_sessions := demo_sm\<rparr>) = Some (s', \<lparr>cl_conn = demo_share\<lparr>cc_Type := connStateShare\<rparr>, joinFailures = 0\<rparr>, effs, close)"
proof -
  let ?msg = "\<lparr>msg_Type = ''tool_req'', msg_Payload = [1]\<rparr> :: Message"
  let ?cl = "\<lparr>cl_conn = demo_share\<lparr>cc_Type := connStateShare\<rparr>, joinFailures = 0\<rparr> :: Client"
  have "msg_Type ?msg \<in> set tool_msgs" by (simp add: tool_msgs_def)
  moreover have "cc_Type (cl_conn ?cl) \<noteq> connStateNew" by (simp add: connStateShare_def connStateNew_def)
  moreover have "\<exists>t \<in> set (e_clock demo_tool_env). e_now demo_tool_env + toolThrottleMaxWait \<le> t"
    by (simp add: demo_tool_env_def toolThrottleMaxWait_def second_def)
  ultimately show ?thesis using tool_frames_never_lost [of ?msg ?cl demo_tool_env "js_dec demo_json" "demo_srv\<lparr>sv_sessions := demo_sm\<rparr>"] by blast
qed

lemma toolCost_bound: "int n \<le> maxMessageSize \<Longrightarrow> toolCost n \<le> maxFrameKiB"
proof -
  assume n: "int n \<le> maxMessageSize"
  then have "(n + 1023) div 1024 \<le> 4096" by (simp add: maxMessageSize_def)
  then have "(of_nat ((n + 1023) div 1024) :: rat) \<le> of_nat 4096" by (rule of_nat_mono)
  then show ?thesis by (simp add: toolCost_def maxFrameKiB_def maxMessageSize_def toolMinFrameCostKiB_def Let_def)
qed

text \<open>
  A configuration the server accepts can serve the largest message: every count and rate
  of its limits is positive, the cost of a tool frame of any size the read loop lets through
  is within both bursts, and the first such frame on any connection passes both limiters at
  once.
\<close>

theorem accepted_config_serves_largest_frame:
  assumes "NewServer strict envelope obs stun now cfg = Inr s" "int n \<le> maxMessageSize"
  shows "list_all (\<lambda>c. 0 < snd c) (relay_checks (sv_limits s)) \<and>
    toolCost n \<le> rl_ToolBurstKiBPerConnection (sv_limits s) \<and> toolCost n \<le> rl_ToolBurstKiBGlobal (sv_limits s) \<and>
    map_option snd (allowToolMessage c n now [now] s) = Some True"
proof -
  obtain cfg' l base where s: "s = updateInfoTick strict envelope obs (buildServer cfg' l base stun now)"
    and l: "relay_ValidateLimits l = None" using assms(1) by (rule NewServer_Inr)
  note f = core_buildServer [OF s]
  have b: "toolCost n \<le> rl_ToolBurstKiBPerConnection l" "toolCost n \<le> rl_ToolBurstKiBGlobal l"
    using toolCost_bound [OF assms(2)] relay_validated(2,3) [OF l] by linarith+
  have k: "toolLimiterPerConn s = keyed rl_ToolRateKiBPerConnection rl_ToolBurstKiBPerConnection l"
    "toolLimiterGlobal s = NewBucket (rl_ToolRateKiBGlobal l) (rl_ToolBurstKiBGlobal l) now"
    by (simp_all add: s buildServer_def)
  have keys: "0 < rl_LimiterMaxKeys l" using relay_validated(1) [OF l] by (simp add: relay_checks_def)
  have per: "snd (KeyedLimiter_AllowN key (toolCost n) now (toolLimiterPerConn s))" for key
    using b keys by (simp add: k keyed_def NewKeyedLimiter_def KeyedLimiter_AllowN_def kl_bind_def kl_recycle_def kl_insert_def
        kl_charge_def Let_def)
  have glob: "snd (Bucket_AllowN (toolCost n) now (toolLimiterGlobal s))"
    using b by (simp add: k NewBucket_def Bucket_AllowN_def)
  have "map_option snd (allowToolMessage c n now [now] s) = Some True"
    using per [of "cc_ID c"] glob by (auto simp: allowToolMessage_def Let_def split: prod.splits)
  with b f relay_validated(1) [OF l] show ?thesis by (auto simp: list_all_iff)
qed

theorem accepted_config_serves_largest_frame_witness:
  "toolCost 4194304 \<le> rl_ToolBurstKiBPerConnection (sv_limits demo_srv) \<and>
   map_option snd (allowToolMessage demo_share 4194304 0 [0] demo_srv) = Some True"
  using accepted_config_serves_largest_frame [OF demo_NewServer, of 4194304 demo_share] by (simp add: maxMessageSize_def)

end
