(* ===== verification/Tunnel.thy ===== *)
theory Tunnel
  imports Stun_Server
begin

text \<open>
  The reliable UDP tunnel, \<^verbatim>\<open>internal/p2p/tunnel.go\<close>: framing and compression, the send window
  with retransmission, acknowledgements, reordering and in-order delivery.

  \<open>deflate\<close> and \<open>inflate\<close> stand for \<^verbatim>\<open>compress/flate\<close>. A method that sends returns the packets it
  hands to the socket. \<open>recvCh\<close> is the delivery channel as a queue: a full channel only delays
  the receive loop. \<open>partialData\<close> is the part of the buffer in
  use. The clock is an argument, and so is the choice of a \<open>select\<close> statement with several
  ready cases. \<open>closed\<close>, \<open>stopCh\<close> and \<open>sendClosed\<close> are set together by \<open>Close\<close>, so one field
  stands for them.
\<close>

section \<open>Constants and framing\<close>

definition pktTypeData :: byte where "pktTypeData = 1"
definition pktTypeAck :: byte where "pktTypeAck = 2"
definition pktTypeKeepalive :: byte where "pktTypeKeepalive = 3"
definition maxPacketSize :: nat where "maxPacketSize = 1400"
definition retransmitBase :: int where "retransmitBase = 200 * millisecond"
definition maxRTO :: int where "maxRTO = 2 * second"
definition maxRecvBuf :: int where "maxRecvBuf = 1024"
definition maxInflight :: int where "maxInflight = 256"
definition peerTimeout :: int where "peerTimeout = 60 * second"
definition compressThreshold :: nat where "compressThreshold = 128"
definition compressFlag :: byte where "compressFlag = 1"
definition rawFlag :: byte where "rawFlag = 0"

definition compressData :: "(bytes \<Rightarrow> bytes) \<Rightarrow> bytes \<Rightarrow> bytes" where
  "compressData deflate data =
     (if length data < compressThreshold then rawFlag # data
      else let buf = compressFlag # deflate data
           in if length buf \<ge> 1 + length data then rawFlag # data else buf)"

definition decompressData :: "(bytes \<Rightarrow> bytes option) \<Rightarrow> bytes \<Rightarrow> bytes option" where
  "decompressData inflate data =
     (case data of
        [] \<Rightarrow> None
      | c # rest \<Rightarrow> if c = rawFlag then Some rest else if c = compressFlag then inflate rest else Some data)"

definition dataPacket :: "32 word \<Rightarrow> bytes \<Rightarrow> bytes" where
  "dataPacket seq chunk = pktTypeData # be32 seq @ chunk"

definition ackPacket :: "32 word \<Rightarrow> bytes" where
  "ackPacket seq = pktTypeAck # be32 seq"

section \<open>State\<close>

record pendingPacket =
  pp_data :: bytes
  pp_sentAt :: int
  pp_retries :: nat

record UDPTunnel =
  tn_remoteAddr :: string
  relayHeader :: "bytes option"
  nextSendSeq :: "32 word"
  sendWin :: "(32 word, pendingPacket) gomap"
  nextRecvSeq :: "32 word"
  recvBuf :: "(32 word, bytes) gomap"
  recvCh :: "bytes list"
  lastRecvTime :: int
  partialData :: bytes
  tn_closed :: bool

definition NewUDPTunnel :: "string \<Rightarrow> int \<Rightarrow> UDPTunnel" where
  "NewUDPTunnel remoteAddr now =
     \<lparr>tn_remoteAddr = remoteAddr, relayHeader = None, nextSendSeq = 0, sendWin = mempty, nextRecvSeq = 0, recvBuf = mempty, recvCh = [],
      lastRecvTime = now, partialData = [], tn_closed = False\<rparr>"

definition NewUDPRelayTunnel :: "string \<Rightarrow> string \<Rightarrow> int \<Rightarrow> UDPTunnel" where
  "NewUDPRelayTunnel relayAddr sessionID now = (NewUDPTunnel relayAddr now)\<lparr>relayHeader := Some (makeRelayHeader sessionID)\<rparr>"

text \<open>What is handed to the socket.\<close>

definition sendPacket :: "UDPTunnel \<Rightarrow> bytes \<Rightarrow> bytes" where
  "sendPacket t pkt = (case relayHeader t of None \<Rightarrow> pkt | Some h \<Rightarrow> h @ pkt)"

section \<open>Sending\<close>

datatype tunnel_error = EOF | SendError

definition chunkSize :: "nat \<Rightarrow> nat" where
  "chunkSize n = (if n > maxPacketSize - 6 then maxPacketSize - 6 else n)"

text \<open>
  One round of the loop of \<open>Write\<close>, \<open>ok\<close> telling for every sequence number whether the socket
  takes the first copy of the packet. \<open>Full\<close> is a round that waits for the window: \<open>Write\<close> holds
  its lock meanwhile, so the sequence number it has taken is taken here when the round goes on.
  A packet the socket refuses stays in the window.
\<close>

datatype chunk_outcome = Full | Failed tunnel_error | Taken

definition writeChunk ::
  "(bytes \<Rightarrow> bytes) \<Rightarrow> (32 word \<Rightarrow> bool) \<Rightarrow> bytes \<Rightarrow> int \<Rightarrow> UDPTunnel \<Rightarrow> UDPTunnel \<times> bytes list \<times> chunk_outcome" where
  "writeChunk deflate ok part now t =
     (let seq = nextSendSeq t;
          pkt = dataPacket seq (compressData deflate part)
      in if tn_closed t then (t\<lparr>nextSendSeq := seq + 1\<rparr>, [], Failed EOF)
         else if mlen (sendWin t) \<ge> maxInflight then (t, [], Full)
         else let t1 = t\<lparr>nextSendSeq := seq + 1,
                         sendWin := mput seq \<lparr>pp_data = pkt, pp_sentAt = now, pp_retries = 0\<rparr> (sendWin t)\<rparr>
              in if ok seq then (t1, [sendPacket t pkt], Taken) else (t1, [], Failed SendError))"

text \<open>
  The loop of \<open>Write\<close> up to the first round that waits: the packets sent, the number of bytes
  taken and whether it ended, waits (\<open>Full\<close>) or failed. A waiting \<open>Write\<close> goes on as the loop on
  the bytes that are left.
\<close>

function write_loop ::
  "(bytes \<Rightarrow> bytes) \<Rightarrow> (32 word \<Rightarrow> bool) \<Rightarrow> bytes \<Rightarrow> int \<Rightarrow> UDPTunnel \<Rightarrow> UDPTunnel \<times> bytes list \<times> nat \<times> chunk_outcome" where
  "write_loop deflate ok b now t =
     (if b = [] then (t, [], 0, Taken)
      else let n = chunkSize (length b);
               (t1, out, r) = writeChunk deflate ok (take n b) now t
           in case r of
                Taken \<Rightarrow> (let (t2, pkts, w, r2) = write_loop deflate ok (drop n b) now t1
                          in (t2, out @ pkts, n + w, r2))
              | _ \<Rightarrow> (t1, out, 0, r))"
  by pat_completeness auto
termination
  by (relation "measure (\<lambda>(d, ok, b, now, t). length b)") (auto simp: chunkSize_def maxPacketSize_def)

declare write_loop.simps [simp del]

definition Write ::
  "(bytes \<Rightarrow> bytes) \<Rightarrow> (32 word \<Rightarrow> bool) \<Rightarrow> bytes \<Rightarrow> int \<Rightarrow> UDPTunnel \<Rightarrow> UDPTunnel \<times> bytes list \<times> nat \<times> chunk_outcome" where
  "Write deflate ok b now t = (if tn_closed t then (t, [], 0, Failed EOF) else write_loop deflate ok b now t)"

definition rto :: "nat \<Rightarrow> int" where
  "rto retries = (let r = retransmitBase * 2 ^ (if retries > 4 then 4 else retries) in if r > maxRTO then maxRTO else r)"

text \<open>One tick of \<open>retransmitLoop\<close>, the window traversed in the order \<open>order\<close>.\<close>

definition retransmit_one :: "int \<Rightarrow> 32 word \<Rightarrow> UDPTunnel \<times> bytes list \<Rightarrow> UDPTunnel \<times> bytes list" where
  "retransmit_one now seq st =
     (let (t, out) = st
      in case mget (sendWin t) seq of
           None \<Rightarrow> st
         | Some p \<Rightarrow>
             if now - pp_sentAt p < rto (pp_retries p) then st
             else (t\<lparr>sendWin := mput seq (p\<lparr>pp_retries := pp_retries p + 1, pp_sentAt := now\<rparr>) (sendWin t)\<rparr>,
                   out @ [sendPacket t (pp_data p)]))"

definition retransmitTick :: "int \<Rightarrow> 32 word list \<Rightarrow> UDPTunnel \<Rightarrow> UDPTunnel \<times> bytes list" where
  "retransmitTick now order t = fold (retransmit_one now) order (t, [])"

definition tunnel_Close :: "UDPTunnel \<Rightarrow> UDPTunnel" where
  "tunnel_Close t = t\<lparr>tn_closed := True\<rparr>"

section \<open>Receiving\<close>

text \<open>\<open>sel\<close> is the choice of the select statement when the tunnel is closed and the channel has room.\<close>

definition deliverToChannel :: "bool \<Rightarrow> bytes \<Rightarrow> UDPTunnel \<Rightarrow> UDPTunnel" where
  "deliverToChannel sel data t = (if tn_closed t \<and> sel then t else t\<lparr>recvCh := recvCh t @ [data]\<rparr>)"

text \<open>
  A delivery under way: its data, and whether they are in the reorder buffer, from which they are removed
  afterwards. \<open>deliverToChannel\<close> may block, so that the rest of the program, \<open>Close\<close> included, runs between two deliveries of one packet.
\<close>

type_synonym delivery = "bytes \<times> bool"

definition nextDelivery :: "UDPTunnel \<Rightarrow> delivery option" where
  "nextDelivery t = (case mget (recvBuf t) (nextRecvSeq t) of None \<Rightarrow> None | Some p \<Rightarrow> Some (p, True))"

definition deliverOne :: "bool \<Rightarrow> delivery \<Rightarrow> UDPTunnel \<Rightarrow> UDPTunnel \<times> delivery option" where
  "deliverOne sel d t =
     (let t1 = deliverToChannel sel (fst d) t;
          t2 = (if snd d then t1\<lparr>recvBuf := mdel (nextRecvSeq t1) (recvBuf t1)\<rparr> else t1);
          t3 = t2\<lparr>nextRecvSeq := nextRecvSeq t2 + 1\<rparr>
      in (t3, nextDelivery t3))"

definition recvData :: "32 word \<Rightarrow> bytes \<Rightarrow> UDPTunnel \<Rightarrow> UDPTunnel \<times> delivery option" where
  "recvData seq payload t =
     (if seq = nextRecvSeq t then (t, Some (payload, False))
      else if seq > nextRecvSeq t
      then (if mget (recvBuf t) seq = None \<and> mlen (recvBuf t) < maxRecvBuf
            then t\<lparr>recvBuf := mput seq payload (recvBuf t)\<rparr> else t, None)
      else (t, None))"

text \<open>The loop over the buffered packets ends: every delivery from the buffer takes one out.\<close>

lemma deliverOne_decreases:
  assumes "deliverOne sel d t = (t', Some d')"
  shows "snd d' \<and> mget (recvBuf t') (nextRecvSeq t') = Some (fst d') \<and>
    (snd d \<and> mget (recvBuf t) (nextRecvSeq t) = Some (fst d) \<longrightarrow> mlen (recvBuf t') = mlen (recvBuf t) - 1)"
  using assms by (auto simp: deliverOne_def nextDelivery_def deliverToChannel_def Let_def mlen_del_old split: option.splits if_splits)

text \<open>
  A datagram from \<open>addr\<close>, cut to the size of the read buffer: the new state, the acknowledgement it sends, and the
  delivery that comes next, if any.
\<close>

definition recvPacket ::
  "(bytes \<Rightarrow> bytes option) \<Rightarrow> bytes \<Rightarrow> string \<Rightarrow> int \<Rightarrow> UDPTunnel \<Rightarrow> UDPTunnel \<times> bytes list \<times> delivery option" where
  "recvPacket inflate dgram addr now t =
     (let buf = take maxPacketSize dgram
      in if addr \<noteq> tn_remoteAddr t then (t, [], None)
         else if length buf < 5 then (t, [], None)
         else let t1 = t\<lparr>lastRecvTime := now\<rparr>;
                  pktType = buf ! 0;
                  seq = u32 (drop 1 buf)
              in if pktType = pktTypeAck
                 then (if mget (sendWin t1) seq \<noteq> None then t1\<lparr>sendWin := mdel seq (sendWin t1)\<rparr> else t1, [], None)
                 else if pktType = pktTypeData
                 then (let ack = [sendPacket t1 (ackPacket seq)]
                       in if length buf - 5 \<le> 0 then (t1, ack, None)
                          else case decompressData inflate (drop 5 buf) of
                                 None \<Rightarrow> (t1, ack, None)
                               | Some payload \<Rightarrow> (let (t2, d) = recvData seq payload t1 in (t2, ack, d)))
                 else (t1, [], None))"

text \<open>
  The points of \<open>recvLoop\<close>: its top, where it ends when the tunnel is closed; the read of a datagram; a
  delivery; the end. A datagram that the socket gave out before \<open>Close\<close> closed it is processed although the
  tunnel is closed. A read deadline that passes closes a silent tunnel; any other error of the socket closes it.
\<close>

datatype udp_read = UDatagram bytes string | UTimeout | UError

datatype recv_pc = RTop | RRead | RDeliver bytes bool | REnd

fun delivery_pc :: "delivery option \<Rightarrow> recv_pc" where
  "delivery_pc None = RTop"
| "delivery_pc (Some (p, b)) = RDeliver p b"

definition recvTop :: "UDPTunnel \<Rightarrow> recv_pc" where
  "recvTop t = (if tn_closed t then REnd else RRead)"

definition recvTimeout :: "int \<Rightarrow> UDPTunnel \<Rightarrow> UDPTunnel \<times> recv_pc" where
  "recvTimeout now t = (if now - lastRecvTime t > peerTimeout then (tunnel_Close t, REnd) else (t, RTop))"

definition recvRound ::
  "(bytes \<Rightarrow> bytes option) \<Rightarrow> udp_read \<Rightarrow> int \<Rightarrow> UDPTunnel \<Rightarrow> UDPTunnel \<times> bytes list \<times> recv_pc" where
  "recvRound inflate r now t =
     (case r of
        UDatagram dgram addr \<Rightarrow> (let (t1, out, d) = recvPacket inflate dgram addr now t in (t1, out, delivery_pc d))
      | UTimeout \<Rightarrow> (let (t1, pc) = recvTimeout now t in (t1, [], pc))
      | UError \<Rightarrow> (tunnel_Close t, [], REnd))"

definition keepalivePacket :: "UDPTunnel \<Rightarrow> bytes" where
  "keepalivePacket t = sendPacket t (pktTypeKeepalive # be32 0)"

text \<open>
  \<open>Read\<close> into a buffer of \<open>n\<close> bytes: \<open>None\<close> while there is nothing to read; \<open>stop\<close> is the choice of
  the select statement when the tunnel is closed and data are there.
\<close>

definition Read :: "nat \<Rightarrow> bool \<Rightarrow> UDPTunnel \<Rightarrow> (tunnel_error + UDPTunnel \<times> bytes) option" where
  "Read n stop t =
     (if partialData t \<noteq> []
      then Some (Inr (t\<lparr>partialData := drop n (partialData t)\<rparr>, take n (partialData t)))
      else if tn_closed t \<and> (stop \<or> recvCh t = []) then Some (Inl EOF)
      else case recvCh t of
             [] \<Rightarrow> None
           | data # rest \<Rightarrow>
               Some (Inr (t\<lparr>recvCh := rest, partialData := take (64 * 1024) (drop n data)\<rparr>, take n data)))"

end
