(* ===== verification/Tunnel_Props.thy ===== *)
theory Tunnel_Props
  imports Tunnel "HOL-Library.Sublist"
begin

text \<open>
  Two tunnel ends over a network that delays, reorders, duplicates and loses datagrams.

  \<open>link\<close> is the joint state: both ends, the point each receive loop is at, the datagrams in flight to each end, and two ghost
  fields, the chunks each end has queued and the bytes each end has read. \<open>link_apply\<close> is one
  step of either program or of the network; the receive loop of an end takes a step per read and per delivery, so that
  \<open>Close\<close> and \<open>Read\<close> come in between. The invariant \<open>link_inv\<close> is parameterised by a set of
  packets that are lost for good, so that one induction gives both the stream property and the
  loss of an acknowledged packet.
\<close>

section \<open>Two ends and a network\<close>

function split_chunks :: "bytes \<Rightarrow> bytes list" where
  "split_chunks b = (if b = [] then [] else take (chunkSize (length b)) b # split_chunks (drop (chunkSize (length b)) b))"
  by pat_completeness auto
termination
  by (relation "measure length") (auto simp: chunkSize_def maxPacketSize_def)

declare split_chunks.simps [simp del]

text \<open>The chunks a \<open>Write\<close> puts into the window: what it counts, and a packet the socket refused.\<close>

definition queued :: "bytes \<Rightarrow> nat \<Rightarrow> chunk_outcome \<Rightarrow> bytes list" where
  "queued b w r =
     split_chunks (take w b) @ (if r = Failed SendError then [take (chunkSize (length b - w)) (drop w b)] else [])"

record link =
  tn :: "bool \<Rightarrow> UDPTunnel"
  rx :: "bool \<Rightarrow> recv_pc"
  net :: "bool \<Rightarrow> bytes list"
  chunks :: "bool \<Rightarrow> bytes list"
  got :: "bool \<Rightarrow> bytes"

definition link0 :: "(bool \<Rightarrow> string) \<Rightarrow> int \<Rightarrow> link" where
  "link0 peer now =
     \<lparr>tn = (\<lambda>x. NewUDPTunnel (peer x) now), rx = (\<lambda>_. RTop), net = (\<lambda>_. []), chunks = (\<lambda>_. []), got = (\<lambda>_. [])\<rparr>"

datatype link_event =
    LWrite bool "32 word \<Rightarrow> bool" bytes int
  | LTick bool int "32 word list"
  | LKeepalive bool
  | LLoop bool
  | LDeliver bool nat int
  | LHand bool bool
  | LLose bool nat
  | LDup bool nat
  | LOther bool udp_read int
  | LRead bool nat bool
  | LClose bool

definition remove_nth :: "nat \<Rightarrow> 'a list \<Rightarrow> 'a list" where
  "remove_nth i xs = take i xs @ drop (Suc i) xs"

definition from_peer :: "UDPTunnel \<Rightarrow> udp_read \<Rightarrow> bool" where
  "from_peer t r = (case r of UDatagram d a \<Rightarrow> a = tn_remoteAddr t | _ \<Rightarrow> False)"

definition put_end :: "bool \<Rightarrow> UDPTunnel \<Rightarrow> bytes list \<Rightarrow> link \<Rightarrow> link" where
  "put_end x t out s = s\<lparr>tn := (tn s)(x := t), net := (net s)(\<not> x := net s (\<not> x) @ out)\<rparr>"

fun link_apply :: "(bytes \<Rightarrow> bytes) \<Rightarrow> (bytes \<Rightarrow> bytes option) \<Rightarrow> link_event \<Rightarrow> link \<Rightarrow> link" where
  "link_apply deflate inflate (LWrite x ok b now) s =
     (let (t, out, w, r) = Write deflate ok b now (tn s x)
      in (put_end x t out s)\<lparr>chunks := (chunks s)(x := chunks s x @ queued b w r)\<rparr>)"
| "link_apply deflate inflate (LTick x now order) s =
     (let (t, out) = retransmitTick now order (tn s x) in put_end x t out s)"
| "link_apply deflate inflate (LKeepalive x) s = put_end x (tn s x) [keepalivePacket (tn s x)] s"
| "link_apply deflate inflate (LLoop x) s =
     (if rx s x = RTop then s\<lparr>rx := (rx s)(x := recvTop (tn s x))\<rparr> else s)"
| "link_apply deflate inflate (LDeliver x i now) s =
     (if i < length (net s x) \<and> rx s x = RRead
      then let (t, out, pc) = recvRound inflate (UDatagram (net s x ! i) (tn_remoteAddr (tn s x))) now (tn s x)
           in put_end x t out (s\<lparr>net := (net s)(x := remove_nth i (net s x)), rx := (rx s)(x := pc)\<rparr>)
      else s)"
| "link_apply deflate inflate (LHand x sel) s =
     (case rx s x of
        RDeliver p b \<Rightarrow> (let (t, d) = deliverOne sel (p, b) (tn s x) in put_end x t [] (s\<lparr>rx := (rx s)(x := delivery_pc d)\<rparr>))
      | _ \<Rightarrow> s)"
| "link_apply deflate inflate (LLose x i) s = s\<lparr>net := (net s)(x := remove_nth i (net s x))\<rparr>"
| "link_apply deflate inflate (LDup x i) s =
     (if i < length (net s x) then s\<lparr>net := (net s)(x := net s x @ [net s x ! i])\<rparr> else s)"
| "link_apply deflate inflate (LOther x r now) s =
     (if from_peer (tn s x) r \<or> rx s x \<noteq> RRead then s
      else let (t, out, pc) = recvRound inflate r now (tn s x) in put_end x t out (s\<lparr>rx := (rx s)(x := pc)\<rparr>))"
| "link_apply deflate inflate (LRead x n stop) s =
     (case Read n stop (tn s x) of
        Some (Inr (t, bs)) \<Rightarrow> s\<lparr>tn := (tn s)(x := t), got := (got s)(x := got s x @ bs)\<rparr>
      | _ \<Rightarrow> s)"
| "link_apply deflate inflate (LClose x) s = put_end x (tunnel_Close (tn s x)) [] s"

definition link_run :: "(bytes \<Rightarrow> bytes) \<Rightarrow> (bytes \<Rightarrow> bytes option) \<Rightarrow> link_event list \<Rightarrow> link \<Rightarrow> link" where
  "link_run deflate inflate evs s = fold (link_apply deflate inflate) evs s"

section \<open>Framing\<close>

lemma compress_round_trip:
  assumes "\<forall>d. inflate (deflate d) = Some d"
  shows "decompressData inflate (compressData deflate part) = Some part"
  using assms by (simp add: compressData_def decompressData_def Let_def rawFlag_def compressFlag_def)

lemma length_compressData: "length (compressData deflate part) \<le> Suc (length part)"
  by (simp add: compressData_def Let_def)

lemma compressData_nonempty [simp]: "compressData deflate part \<noteq> []"
  by (simp add: compressData_def Let_def)

definition pkt_of :: "(bytes \<Rightarrow> bytes) \<Rightarrow> bytes list \<Rightarrow> nat \<Rightarrow> bytes" where
  "pkt_of deflate cs i = dataPacket (of_nat i) (compressData deflate (cs ! i))"

lemma length_pkt_of: "length (cs ! i) \<le> 1394 \<Longrightarrow> length (pkt_of deflate cs i) \<le> maxPacketSize"
  using length_compressData [of deflate "cs ! i"] by (simp add: pkt_of_def dataPacket_def maxPacketSize_def)

lemma pkt_of_append [simp]: "i < length cs \<Longrightarrow> pkt_of deflate (cs @ ds) i = pkt_of deflate cs i"
  by (simp add: pkt_of_def nth_append)

lemma chunkSize_pos: "0 < n \<Longrightarrow> 0 < chunkSize n" and chunkSize_le: "chunkSize n \<le> n" "chunkSize n \<le> 1394"
  by (auto simp: chunkSize_def maxPacketSize_def)

section \<open>The invariant\<close>

definition ok_chunks :: "bytes list \<Rightarrow> bool" where
  "ok_chunks cs \<longleftrightarrow> (\<forall>c \<in> set cs. c \<noteq> [] \<and> length c \<le> 1394)"

definition snd_inv :: "(bytes \<Rightarrow> bytes) \<Rightarrow> nat set \<Rightarrow> bytes list \<Rightarrow> UDPTunnel \<Rightarrow> bool" where
  "snd_inv deflate L cs t \<longleftrightarrow>
     nextSendSeq t = of_nat (length cs) \<and> relayHeader t = None \<and> mlen (sendWin t) \<le> maxInflight \<and>
     (\<forall>seq p. mget (sendWin t) seq = Some p \<longrightarrow>
        (\<exists>i. i < length cs \<and> i \<notin> L \<and> seq = of_nat i \<and> pp_data p = pkt_of deflate cs i))"

definition net_inv :: "(bytes \<Rightarrow> bytes) \<Rightarrow> nat set \<Rightarrow> bytes list \<Rightarrow> bytes list \<Rightarrow> bool" where
  "net_inv deflate L cs ps \<longleftrightarrow>
     (\<forall>p \<in> set ps. (\<exists>i. i < length cs \<and> i \<notin> L \<and> p = pkt_of deflate cs i) \<or>
                  (\<exists>seq. p = ackPacket seq) \<or> p = pktTypeKeepalive # be32 0)"

definition buf_inv :: "nat set \<Rightarrow> bytes list \<Rightarrow> nat \<Rightarrow> (32 word, bytes) gomap \<Rightarrow> bool" where
  "buf_inv L cs r m \<longleftrightarrow>
     mlen m \<le> maxRecvBuf \<and>
     (\<forall>seq p. mget m seq = Some p \<longrightarrow> (\<exists>j. r \<le> j \<and> j < length cs \<and> j \<notin> L \<and> seq = of_nat j \<and> p = cs ! j))"

text \<open>
  The receiver has come to chunk \<open>r\<close>: what was read, what \<open>Read\<close> holds back and what is in the channel are the
  chunks before it, all of them as long as the end is open, in order and possibly with gaps once it is closed.
\<close>

definition read_stream :: "bytes list \<Rightarrow> nat \<Rightarrow> UDPTunnel \<Rightarrow> bytes \<Rightarrow> bool" where
  "read_stream cs r t g \<longleftrightarrow>
     (\<exists>ds. g @ partialData t @ concat (recvCh t) = concat ds \<and> subseq ds (take r cs) \<and> (\<not> tn_closed t \<longrightarrow> ds = take r cs))"

definition rcv_at :: "nat set \<Rightarrow> bytes list \<Rightarrow> nat \<Rightarrow> UDPTunnel \<Rightarrow> bytes \<Rightarrow> bool" where
  "rcv_at L cs r t g \<longleftrightarrow>
     r \<le> length cs \<and> (\<forall>k \<in> L. r \<le> k) \<and> nextRecvSeq t = of_nat r \<and> read_stream cs r t g \<and>
     (\<forall>d \<in> set (recvCh t). length d \<le> 1394) \<and> buf_inv L cs r (recvBuf t)"

definition due_ok :: "nat set \<Rightarrow> bytes list \<Rightarrow> nat \<Rightarrow> (32 word, bytes) gomap \<Rightarrow> recv_pc \<Rightarrow> bool" where
  "due_ok L cs r m pc =
     (case pc of
        RDeliver p b \<Rightarrow> r < length cs \<and> r \<notin> L \<and> p = cs ! r \<and> mget m (of_nat r) = (if b then Some p else None)
      | _ \<Rightarrow> mget m (of_nat r) = None)"

definition rcv_inv :: "nat set \<Rightarrow> bytes list \<Rightarrow> UDPTunnel \<Rightarrow> bytes \<Rightarrow> recv_pc \<Rightarrow> bool" where
  "rcv_inv L cs t g pc \<longleftrightarrow> (\<exists>r. rcv_at L cs r t g \<and> due_ok L cs r (recvBuf t) pc)"

definition link_inv :: "(bytes \<Rightarrow> bytes) \<Rightarrow> (bool \<Rightarrow> nat set) \<Rightarrow> link \<Rightarrow> bool" where
  "link_inv deflate L s \<longleftrightarrow>
     (\<forall>x. ok_chunks (chunks s x) \<and> (\<forall>k \<in> L x. k < length (chunks s x)) \<and>
          snd_inv deflate (L x) (chunks s x) (tn s x) \<and>
          net_inv deflate (L (\<not> x)) (chunks s (\<not> x)) (net s x) \<and>
          rcv_inv (L (\<not> x)) (chunks s (\<not> x)) (tn s x) (got s x) (rx s x))"

lemma link_inv_init: "link_inv deflate (\<lambda>_. {}) (link0 peer now)"
  by (auto simp: link_inv_def link0_def ok_chunks_def snd_inv_def net_inv_def rcv_inv_def rcv_at_def buf_inv_def
      NewUDPTunnel_def maxInflight_def maxRecvBuf_def read_stream_def due_ok_def)


section \<open>Sending keeps the invariant\<close>

definition rcv_view :: "UDPTunnel \<Rightarrow> 32 word \<times> (32 word, bytes) gomap \<times> bytes list \<times> bytes \<times> bool" where
  "rcv_view t = (nextRecvSeq t, recvBuf t, recvCh t, partialData t, tn_closed t)"

definition snd_view :: "UDPTunnel \<Rightarrow> 32 word \<times> (32 word, pendingPacket) gomap \<times> bytes option" where
  "snd_view t = (nextSendSeq t, sendWin t, relayHeader t)"

lemma rcv_inv_cong: "rcv_view t' = rcv_view t \<Longrightarrow> rcv_inv L cs t' g pc = rcv_inv L cs t g pc"
  by (simp add: rcv_view_def rcv_inv_def rcv_at_def read_stream_def)

lemma rcv_inv_close: "rcv_inv L cs t g pc \<Longrightarrow> rcv_inv L cs (tunnel_Close t) g pc"
  by (auto simp: tunnel_Close_def rcv_inv_def rcv_at_def read_stream_def)

lemma rcv_inv_idle: "rcv_inv L cs t g pc \<Longrightarrow> \<forall>p b. pc \<noteq> RDeliver p b \<and> pc' \<noteq> RDeliver p b \<Longrightarrow> rcv_inv L cs t g pc'"
  by (cases pc; cases pc') (auto simp: rcv_inv_def due_ok_def)

lemma snd_inv_cong: "snd_view t' = snd_view t \<Longrightarrow> snd_inv deflate L cs t' = snd_inv deflate L cs t"
  by (simp add: snd_view_def snd_inv_def)

lemma net_inv_grow: "net_inv deflate L cs ps \<Longrightarrow> net_inv deflate L (cs @ ds) ps"
  unfolding net_inv_def by (metis pkt_of_append length_append trans_less_add1)

lemma net_inv_append [simp]: "net_inv deflate L cs (ps @ qs) \<longleftrightarrow> net_inv deflate L cs ps \<and> net_inv deflate L cs qs"
  by (auto simp: net_inv_def)

lemma net_inv_subset: "net_inv deflate L cs ps \<Longrightarrow> set qs \<subseteq> set ps \<Longrightarrow> net_inv deflate L cs qs"
  by (auto simp: net_inv_def)

lemma set_remove_nth: "set (remove_nth i xs) \<subseteq> set xs"
  unfolding remove_nth_def using set_take_subset [of i xs] set_drop_subset [of "Suc i" xs] by auto

lemma rcv_inv_grow:
  assumes "rcv_inv L cs t g pc"
  shows "rcv_inv L (cs @ ds) t g pc"
proof -
  obtain r where r: "rcv_at L cs r t g" "due_ok L cs r (recvBuf t) pc"
    using assms by (auto simp: rcv_inv_def)
  have "buf_inv L (cs @ ds) r (recvBuf t)"
    using r(1) unfolding rcv_at_def buf_inv_def
    by (metis length_append nth_append trans_less_add1)
  moreover have "read_stream (cs @ ds) r t g" using r(1) by (simp add: rcv_at_def read_stream_def)
  ultimately have "rcv_at L (cs @ ds) r t g" using r(1) by (simp add: rcv_at_def)
  moreover have "due_ok L (cs @ ds) r (recvBuf t) pc" using r(2) by (auto simp: due_ok_def nth_append split: recv_pc.splits)
  ultimately show ?thesis by (auto simp: rcv_inv_def)
qed

lemma snd_inv_put:
  assumes inv: "snd_inv deflate L cs t" and L: "\<forall>k \<in> L. k < length cs" and room: "mlen (sendWin t) < maxInflight"
  shows "snd_inv deflate L (cs @ [part])
           (t\<lparr>nextSendSeq := nextSendSeq t + 1,
             sendWin := mput (nextSendSeq t)
               \<lparr>pp_data = dataPacket (nextSendSeq t) (compressData deflate part), pp_sentAt = now, pp_retries = 0\<rparr>
               (sendWin t)\<rparr>)"
proof -
  have new: "length cs \<notin> L" using L by auto
  have len: "mlen (mput k v (sendWin t)) \<le> maxInflight" for k v
    by (rule gm.put_bounded) (use room in simp)
  have old: "\<exists>i. i < Suc (length cs) \<and> i \<notin> L \<and> seq = of_nat i \<and> pp_data p = pkt_of deflate (cs @ [part]) i"
    if "mget (sendWin t) seq = Some p" for seq p
    using inv that unfolding snd_inv_def by (metis less_SucI pkt_of_append)
  have pk: "dataPacket (of_nat (length cs)) (compressData deflate part) = pkt_of deflate (cs @ [part]) (length cs)"
    by (simp add: pkt_of_def)
  show ?thesis
    using inv new len old pk unfolding snd_inv_def by (auto simp: add.commute)
qed

lemma split_chunks_Nil [simp]: "split_chunks [] = []"
  by (simp add: split_chunks.simps)

lemma split_chunks_step:
  assumes "b \<noteq> []" "w \<le> length b - chunkSize (length b)"
  shows "split_chunks (take (chunkSize (length b) + w) b) =
         take (chunkSize (length b)) b # split_chunks (take w (drop (chunkSize (length b)) b))"
proof -
  let ?n = "chunkSize (length b)"
  have n: "?n \<le> length b" "0 < ?n" using assms by (auto simp: chunkSize_le chunkSize_pos)
  have l: "length (take (?n + w) b) = ?n + w" using n assms by simp
  have c: "chunkSize (?n + w) = ?n" using assms(2) n by (auto simp: chunkSize_def maxPacketSize_def split: if_splits)
  have "take (?n + w) b \<noteq> []" using n assms(1) by auto
  then show ?thesis
    by (subst split_chunks.simps) (simp only: l c if_False, simp add: drop_take)
qed

lemma queued_step:
  assumes "b \<noteq> []" "w \<le> length b - chunkSize (length b)"
  shows "queued b (chunkSize (length b) + w) r =
         take (chunkSize (length b)) b # queued (drop (chunkSize (length b)) b) w r"
  using split_chunks_step [OF assms] assms by (auto simp: queued_def add.commute)

lemma queued_zero: "queued b 0 r = (if r = Failed SendError then [take (chunkSize (length b)) b] else [])"
  by (simp add: queued_def)

definition sent_ok :: "(bytes \<Rightarrow> bytes) \<Rightarrow> bytes list \<Rightarrow> nat \<Rightarrow> bytes list \<Rightarrow> bool" where
  "sent_ok deflate cs m out \<longleftrightarrow> (\<forall>p \<in> set out. \<exists>i. m \<le> i \<and> i < length cs \<and> p = pkt_of deflate cs i)"

lemma sent_ok_mono: "sent_ok deflate cs m out \<Longrightarrow> l \<le> m \<Longrightarrow> sent_ok deflate cs l out"
  unfolding sent_ok_def by (meson le_trans)

lemma sent_ok_net: "sent_ok deflate cs m out \<Longrightarrow> \<forall>k \<in> L. k < m \<Longrightarrow> net_inv deflate L cs out"
  unfolding sent_ok_def net_inv_def by (metis not_le)

lemma writeChunk_cases:
  assumes inv: "snd_inv deflate L cs t" and L: "\<forall>k \<in> L. k < length cs" and op: "\<not> tn_closed t"
    and w: "writeChunk deflate ok part now t = (t1, out, r)"
  shows "rcv_view t1 = rcv_view t \<and> tn_remoteAddr t1 = tn_remoteAddr t \<and> \<not> tn_closed t1 \<and>
         (r = Full \<and> t1 = t \<and> out = [] \<or>
          (r = Taken \<or> r = Failed SendError) \<and> snd_inv deflate L (cs @ [part]) t1 \<and>
            set out \<subseteq> {pkt_of deflate (cs @ [part]) (length cs)})"
proof (cases "mlen (sendWin t) \<ge> maxInflight")
  case True
  with w op show ?thesis by (simp add: writeChunk_def Let_def)
next
  case False
  have h: "relayHeader t = None" "nextSendSeq t = of_nat (length cs)" using inv by (simp_all add: snd_inv_def)
  have pk: "dataPacket (of_nat (length cs)) (compressData deflate part) = pkt_of deflate (cs @ [part]) (length cs)"
    by (simp add: pkt_of_def)
  have put: "snd_inv deflate L (cs @ [part]) t1"
    using snd_inv_put [OF inv L, of part now] False w op by (auto simp: writeChunk_def Let_def split: if_splits)
  have "set out \<subseteq> {pkt_of deflate (cs @ [part]) (length cs)}"
    using w op False by (auto simp: writeChunk_def Let_def sendPacket_def h pk split: if_splits)
  moreover have "(r = Taken \<or> r = Failed SendError) \<and> rcv_view t1 = rcv_view t \<and>
      tn_remoteAddr t1 = tn_remoteAddr t \<and> \<not> tn_closed t1"
    using w op False by (auto simp: writeChunk_def Let_def rcv_view_def split: if_splits)
  ultimately show ?thesis using put by blast
qed

lemma ok_chunks_simps [simp]:
  "ok_chunks []" "ok_chunks (c # cs) \<longleftrightarrow> c \<noteq> [] \<and> length c \<le> 1394 \<and> ok_chunks cs"
  "ok_chunks (cs @ ds) \<longleftrightarrow> ok_chunks cs \<and> ok_chunks ds"
  by (auto simp: ok_chunks_def)

lemma write_loop_go_on:
  assumes "b \<noteq> []" "writeChunk deflate ok (take (chunkSize (length b)) b) now t = (t1, out1, Taken)"
    "write_loop deflate ok (drop (chunkSize (length b)) b) now t1 = (t2, pkts, w2, r2)"
  shows "write_loop deflate ok b now t = (t2, out1 @ pkts, chunkSize (length b) + w2, r2)"
  using assms by (simp add: write_loop.simps [of deflate ok b now t])

lemma write_loop_stop:
  assumes "b \<noteq> []" "writeChunk deflate ok (take (chunkSize (length b)) b) now t = (t1, out1, r1)" "r1 \<noteq> Taken"
  shows "write_loop deflate ok b now t = (t1, out1, 0, r1)"
  using assms by (cases r1) (simp_all add: write_loop.simps [of deflate ok b now t])

lemma write_loop_inv:
  "snd_inv deflate L cs t \<Longrightarrow> \<forall>k \<in> L. k < length cs \<Longrightarrow> \<not> tn_closed t \<Longrightarrow>
   write_loop deflate ok b now t = (t', out, w, r) \<Longrightarrow>
   snd_inv deflate L (cs @ queued b w r) t' \<and> ok_chunks (queued b w r) \<and>
   sent_ok deflate (cs @ queued b w r) (length cs) out \<and>
   rcv_view t' = rcv_view t \<and> tn_remoteAddr t' = tn_remoteAddr t \<and> w \<le> length b"
proof (induction deflate ok b now t arbitrary: cs t' out w r rule: write_loop.induct)
  case (1 deflate ok b now t)
  show ?case
  proof (cases "b = []")
    case True
    then show ?thesis using "1.prems" by (simp add: write_loop.simps queued_def sent_ok_def)
  next
    case False
    let ?n = "chunkSize (length b)"
    let ?p = "take ?n b"
    obtain t1 out1 r1 where c: "writeChunk deflate ok ?p now t = (t1, out1, r1)" by (cases "writeChunk deflate ok ?p now t")
    note wc = writeChunk_cases [OF "1.prems"(1,2,3) c]
    have part: "?p \<noteq> []" "length ?p \<le> 1394" "?n \<le> length b"
      using False chunkSize_pos [of "length b"] chunkSize_le [of "length b"] by auto
    show ?thesis
    proof (cases "r1 = Taken")
      case True
      obtain t2 pkts w2 r2 where rec: "write_loop deflate ok (drop ?n b) now t1 = (t2, pkts, w2, r2)"
        by (cases "write_loop deflate ok (drop ?n b) now t1")
      have eq: "t' = t2" "out = out1 @ pkts" "w = ?n + w2" "r = r2"
        using "1.prems"(4) write_loop_go_on [OF False c [unfolded True] rec] by simp_all
      have inv1: "snd_inv deflate L (cs @ [?p]) t1" "set out1 \<subseteq> {pkt_of deflate (cs @ [?p]) (length cs)}"
        "\<not> tn_closed t1" "rcv_view t1 = rcv_view t" "tn_remoteAddr t1 = tn_remoteAddr t"
        using wc True by auto
      have L1: "\<forall>k \<in> L. k < length (cs @ [?p])" using "1.prems"(2) by auto
      note ih = "1.IH" [OF False refl c [symmetric] refl refl True inv1(1) L1 inv1(3) rec]
      have w2: "w2 \<le> length b - ?n" using ih by simp
      have q: "queued b w r = ?p # queued (drop ?n b) w2 r2" using queued_step [OF False w2] eq by simp
      have "sent_ok deflate (cs @ queued b w r) (length cs) out1"
        using inv1(2) unfolding sent_ok_def q pkt_of_def by (fastforce simp: nth_append)
      moreover have "sent_ok deflate (cs @ queued b w r) (length cs) pkts"
        using sent_ok_mono [of deflate "(cs @ [?p]) @ queued (drop ?n b) w2 r2" "length (cs @ [?p])" pkts "length cs"] ih
        by (simp add: q)
      ultimately have "sent_ok deflate (cs @ queued b w r) (length cs) out"
        by (auto simp: sent_ok_def eq(2))
      moreover have "snd_inv deflate L (cs @ queued b w r) t'" using ih unfolding q eq(1) by simp
      moreover have "ok_chunks (queued b w r)" using ih part unfolding q by simp
      moreover have "rcv_view t' = rcv_view t \<and> tn_remoteAddr t' = tn_remoteAddr t" using ih inv1(4,5) eq(1) by simp
      moreover have "w \<le> length b" using w2 part(3) eq(3) by simp
      ultimately show ?thesis by blast
    next
      case nt: False
      have eq: "t' = t1" "out = out1" "w = 0" "r = r1"
        using "1.prems"(4) write_loop_stop [OF False c nt] by simp_all
      consider "r1 = Full" "t1 = t" "out1 = []" | "r1 = Failed SendError" "snd_inv deflate L (cs @ [?p]) t1"
          "set out1 \<subseteq> {pkt_of deflate (cs @ [?p]) (length cs)}"
        using wc nt by auto
      then show ?thesis
      proof cases
        case 1
        then show ?thesis using "1.prems"(1) eq by (simp add: queued_zero sent_ok_def)
      next
        case 2
        then have "sent_ok deflate (cs @ [?p]) (length cs) out1" by (fastforce simp: sent_ok_def)
        then show ?thesis using 2 eq wc part by (simp add: queued_zero)
      qed
    qed
  qed
qed

lemma retransmitTick_inv:
  assumes inv: "snd_inv deflate L cs t" and w: "retransmitTick now order t = (t', out)"
  shows "snd_inv deflate L cs t' \<and> net_inv deflate L cs out \<and> rcv_view t' = rcv_view t \<and>
         tn_remoteAddr t' = tn_remoteAddr t"
proof -
  have step: "snd_inv deflate L cs t1 \<Longrightarrow> net_inv deflate L cs o1 \<Longrightarrow> retransmit_one now seq (t1, o1) = (t2, o2) \<Longrightarrow>
      snd_inv deflate L cs t2 \<and> net_inv deflate L cs o2 \<and> rcv_view t2 = rcv_view t1 \<and>
      tn_remoteAddr t2 = tn_remoteAddr t1" for t1 o1 t2 o2 seq
  proof (cases "mget (sendWin t1) seq")
    case None
    then show "snd_inv deflate L cs t1 \<Longrightarrow> net_inv deflate L cs o1 \<Longrightarrow> retransmit_one now seq (t1, o1) = (t2, o2) \<Longrightarrow>
      ?thesis" by (simp add: retransmit_one_def)
  next
    case (Some p)
    assume i: "snd_inv deflate L cs t1" "net_inv deflate L cs o1" "retransmit_one now seq (t1, o1) = (t2, o2)"
    obtain i where pk: "i < length cs" "i \<notin> L" "seq = of_nat i" "pp_data p = pkt_of deflate cs i"
      using i(1) Some unfolding snd_inv_def by blast
    have h: "relayHeader t1 = None" "mlen (sendWin t1) \<le> maxInflight" using i(1) by (simp_all add: snd_inv_def)
    have len: "mlen (mput seq v (sendWin t1)) \<le> maxInflight" for v using mlen_put_old [OF Some] h(2) by simp
    show ?thesis
    proof (cases "now - pp_sentAt p < rto (pp_retries p)")
      case True
      then show ?thesis using i Some by (simp add: retransmit_one_def)
    next
      case False
      have "snd_inv deflate L cs t2"
        using i(1,3) Some False len pk by (auto simp: retransmit_one_def snd_inv_def split: if_splits) blast
      moreover have "net_inv deflate L cs [pkt_of deflate cs i]" using pk by (auto simp: net_inv_def)
      ultimately show ?thesis using i Some False pk h by (auto simp: retransmit_one_def sendPacket_def rcv_view_def)
    qed
  qed
  have "snd_inv deflate L cs t1 \<Longrightarrow> net_inv deflate L cs o1 \<Longrightarrow> fold (retransmit_one now) order (t1, o1) = (t2, o2) \<Longrightarrow>
      snd_inv deflate L cs t2 \<and> net_inv deflate L cs o2 \<and> rcv_view t2 = rcv_view t1 \<and>
      tn_remoteAddr t2 = tn_remoteAddr t1" for t1 o1 t2 o2
  proof (induction order arbitrary: t1 o1)
    case (Cons a order)
    obtain t3 o3 where "retransmit_one now a (t1, o1) = (t3, o3)" by (cases "retransmit_one now a (t1, o1)")
    then show ?case using step [OF Cons.prems(1,2)] Cons.IH [of t3 o3] Cons.prems(3) by simp
  qed simp
  from this [OF inv _ w [unfolded retransmitTick_def]] show ?thesis by (simp add: net_inv_def)
qed


section \<open>Receiving keeps the invariant\<close>

lemma of_nat_seq_inj: "i < 2 ^ 32 \<Longrightarrow> j < 2 ^ 32 \<Longrightarrow> (of_nat i :: 32 word) = of_nat j \<longleftrightarrow> i = j"
  using of_nat_word_inj [where 'a = 32, of i j] by auto

lemma of_nat_seq_less: "i < 2 ^ 32 \<Longrightarrow> j < 2 ^ 32 \<Longrightarrow> (of_nat i :: 32 word) < of_nat j \<longleftrightarrow> i < j"
  by (simp add: word_less_nat_alt unsigned_of_nat take_bit_nat_eq_self)

lemma buf_inv_del: "buf_inv L cs r m \<Longrightarrow> buf_inv L cs r (mdel k m)"
  unfolding buf_inv_def using gm.len_del_le [of k m] by auto

lemma buf_inv_advance:
  assumes "buf_inv L cs r m" "mget m (of_nat r) = None"
  shows "buf_inv L cs (Suc r) m"
  unfolding buf_inv_def
proof (intro conjI allI impI)
  show "mlen m \<le> maxRecvBuf" using assms(1) by (simp add: buf_inv_def)
  fix seq p assume s: "mget m seq = Some p"
  then obtain j where j: "r \<le> j" "j < length cs" "j \<notin> L" "seq = of_nat j" "p = cs ! j"
    using assms(1) unfolding buf_inv_def by blast
  have "j \<noteq> r" using s j(4) assms(2) by auto
  with j show "\<exists>j. Suc r \<le> j \<and> j < length cs \<and> j \<notin> L \<and> seq = of_nat j \<and> p = cs ! j"
    by (metis Suc_leI le_neq_implies_less)
qed

text \<open>One delivery: of the packet that is due, or of none when the end is closed.\<close>

lemma stream_deliver:
  assumes "read_stream cs r t g" "r < length cs" "recvCh t' = recvCh (deliverToChannel sel (cs ! r) t)"
    and "partialData t' = partialData t" "tn_closed t' = tn_closed t"
  shows "read_stream cs (Suc r) t' g"
proof -
  obtain ds where ds: "g @ partialData t @ concat (recvCh t) = concat ds" "subseq ds (take r cs)" "\<not> tn_closed t \<longrightarrow> ds = take r cs"
    using assms(1) by (auto simp: read_stream_def)
  have c: "take (Suc r) cs = take r cs @ [cs ! r]" using assms(2) by (rule take_Suc_conv_app_nth)
  show ?thesis
  proof (cases "tn_closed t \<and> sel")
    case True
    have "subseq ds (take (Suc r) cs)" unfolding c using list_emb_append_mono [OF ds(2), of "[]" "[cs ! r]"] by simp
    then show ?thesis using True ds assms(3-5) by (auto simp: read_stream_def deliverToChannel_def)
  next
    case False
    have "subseq (ds @ [cs ! r]) (take (Suc r) cs)" unfolding c using list_emb_append_mono [OF ds(2), of "[cs ! r]" "[cs ! r]"] by simp
    moreover have "g @ partialData t' @ concat (recvCh t') = concat (ds @ [cs ! r])"
      using False ds(1) assms(3,4) by (auto simp: deliverToChannel_def simp flip: append_assoc)
    moreover have "\<not> tn_closed t' \<longrightarrow> ds @ [cs ! r] = take (Suc r) cs" using ds(3) c assms(5) by simp
    ultimately show ?thesis unfolding read_stream_def by (intro exI [of _ "ds @ [cs ! r]"]) simp
  qed
qed

lemma deliverOne_inv:
  assumes inv: "rcv_inv L cs t g (RDeliver p b)" and ok: "ok_chunks cs" and len: "length cs < 2 ^ 32"
    and e: "deliverOne sel (p, b) t = (t', d)"
  shows "rcv_inv L cs t' g (delivery_pc d) \<and> snd_view t' = snd_view t"
proof -
  obtain r where r: "rcv_at L cs r t g" "r < length cs" "r \<notin> L" "p = cs ! r" "mget (recvBuf t) (of_nat r) = (if b then Some p else None)"
    using inv by (auto simp: rcv_inv_def due_ok_def)
  let ?m = "if b then mdel (of_nat r) (recvBuf t) else recvBuf t"
  have nr: "nextRecvSeq t = of_nat r" "buf_inv L cs r (recvBuf t)" "read_stream cs r t g" using r(1) by (simp_all add: rcv_at_def)
  have t': "nextRecvSeq t' = of_nat (Suc r)" "recvBuf t' = ?m" "recvCh t' = recvCh (deliverToChannel sel (cs ! r) t)"
    "partialData t' = partialData t" "tn_closed t' = tn_closed t" "snd_view t' = snd_view t" "d = nextDelivery t'"
    using e nr(1) r(4) by (auto simp: deliverOne_def deliverToChannel_def snd_view_def Let_def add.commute split: if_splits)
  have m: "buf_inv L cs (Suc r) ?m" using r(5) nr(2) by (intro buf_inv_advance) (auto simp: buf_inv_del)
  have k: "\<forall>k \<in> L. Suc r \<le> k" using r(1,3) unfolding rcv_at_def by (metis Suc_leI le_neq_implies_less)
  have ch: "\<forall>x \<in> set (recvCh t'). length x \<le> 1394"
    using r(1,2) ok unfolding t'(3) by (auto simp: rcv_at_def deliverToChannel_def ok_chunks_def)
  have at: "rcv_at L cs (Suc r) t' g"
    using stream_deliver [OF nr(3) r(2) t'(3-5)] m k ch t'(1,2) r(2) by (simp add: rcv_at_def)
  have "due_ok L cs (Suc r) (recvBuf t') (delivery_pc d)"
  proof (cases "mget (recvBuf t') (of_nat (Suc r))")
    case None
    then show ?thesis using t'(1,7) by (simp add: nextDelivery_def due_ok_def)
  next
    case (Some q)
    then obtain j where j: "Suc r \<le> j" "j < length cs" "j \<notin> L" "(of_nat (Suc r) :: 32 word) = of_nat j" "q = cs ! j"
      using m unfolding t'(2) [symmetric] buf_inv_def by blast
    have "j = Suc r" using of_nat_seq_inj [of "Suc r" j] j(1,2,4) len by (simp del: of_nat_Suc)
    then have "Suc r < length cs" "Suc r \<notin> L" "q = cs ! Suc r" using j(2,3,5) by simp_all
    then show ?thesis using Some t'(1,7) by (simp add: nextDelivery_def due_ok_def del: of_nat_Suc)
  qed
  with at t'(6) show ?thesis by (auto simp: rcv_inv_def)
qed

lemma recvData_inv:
  assumes inv: "rcv_inv L cs t g RRead" and b: "length cs < 2 ^ 32"
    and i: "i < length cs" "i \<notin> L" and e: "recvData (of_nat i) (cs ! i) t = (t', d)"
  shows "rcv_inv L cs t' g (delivery_pc d) \<and> snd_view t' = snd_view t"
proof -
  obtain r where r: "rcv_at L cs r t g" "mget (recvBuf t) (of_nat r) = None" using inv by (auto simp: rcv_inv_def due_ok_def)
  have nr: "nextRecvSeq t = of_nat r" "r \<le> length cs" "buf_inv L cs r (recvBuf t)" using r(1) by (simp_all add: rcv_at_def)
  have bi: "i < 2 ^ 32" "r < 2 ^ 32" using b i nr by auto
  consider (now) "i = r" | (later) "r < i" | (old) "i < r" by arith
  then show ?thesis
  proof cases
    case now
    then have "t' = t" "d = Some (cs ! r, False)" using e nr(1) by (simp_all add: recvData_def)
    then show ?thesis using r now i by (auto simp: rcv_inv_def due_ok_def)
  next
    case later
    have ne: "(of_nat i :: 32 word) \<noteq> of_nat r" "(of_nat r :: 32 word) < of_nat i"
      using later of_nat_seq_inj [OF bi] of_nat_seq_less [OF bi(2,1)] by auto
    show ?thesis
    proof (cases "mget (recvBuf t) (of_nat i) = None \<and> mlen (recvBuf t) < maxRecvBuf")
      case True
      have "mlen (mput (of_nat i) (cs ! i) (recvBuf t)) \<le> maxRecvBuf" by (rule gm.put_bounded) (use True in simp)
      then have "buf_inv L cs r (mput (of_nat i) (cs ! i) (recvBuf t))"
        using nr(3) later i unfolding buf_inv_def by (auto split: if_splits) (metis less_imp_le)
      then have "rcv_at L cs r (t\<lparr>recvBuf := mput (of_nat i) (cs ! i) (recvBuf t)\<rparr>) g" using r(1) by (simp add: rcv_at_def read_stream_def)
      moreover have "t' = t\<lparr>recvBuf := mput (of_nat i) (cs ! i) (recvBuf t)\<rparr>" "d = None" using e True ne nr(1) by (auto simp: recvData_def)
      moreover have "mget (recvBuf t') (of_nat r) = None" using calculation(2) r(2) ne by simp
      ultimately have "rcv_at L cs r t' g \<and> due_ok L cs r (recvBuf t') (delivery_pc d)" "snd_view t' = snd_view t"
        by (simp_all add: due_ok_def snd_view_def)
      then show ?thesis unfolding rcv_inv_def by blast
    next
      case False
      then have "t' = t" "d = None" using e ne nr(1) by (auto simp: recvData_def)
      then show ?thesis using r by (auto simp: rcv_inv_def due_ok_def)
    qed
  next
    case old
    have "(of_nat i :: 32 word) \<noteq> of_nat r" "\<not> (of_nat r :: 32 word) < of_nat i"
      using old of_nat_seq_inj [OF bi] of_nat_seq_less [OF bi(2,1)] by auto
    then have "t' = t" "d = None" using e nr(1) by (simp_all add: recvData_def)
    then show ?thesis using r by (auto simp: rcv_inv_def due_ok_def)
  qed
qed

lemma recv_ack:
  "addr = tn_remoteAddr t \<Longrightarrow> recvPacket inflate (ackPacket seq) addr now t =
     ((if mget (sendWin t) seq \<noteq> None then t\<lparr>lastRecvTime := now, sendWin := mdel seq (sendWin t)\<rparr>
       else t\<lparr>lastRecvTime := now\<rparr>), [], None)"
  by (auto simp: recvPacket_def ackPacket_def maxPacketSize_def Let_def)

lemma recv_keepalive:
  "addr = tn_remoteAddr t \<Longrightarrow> recvPacket inflate (pktTypeKeepalive # be32 0) addr now t = (t\<lparr>lastRecvTime := now\<rparr>, [], None)"
  by (simp add: recvPacket_def maxPacketSize_def Let_def pktTypeKeepalive_def pktTypeAck_def pktTypeData_def)

lemma recv_data:
  assumes "addr = tn_remoteAddr t" "relayHeader t = None" "\<forall>d. inflate (deflate d) = Some d" "length (cs ! i) \<le> 1394"
  shows "recvPacket inflate (pkt_of deflate cs i) addr now t =
         (let (t1, d) = recvData (of_nat i) (cs ! i) (t\<lparr>lastRecvTime := now\<rparr>) in (t1, [ackPacket (of_nat i)], d))"
proof -
  let ?c = "compressData deflate (cs ! i)"
  have whole: "take maxPacketSize (pkt_of deflate cs i) = pkt_of deflate cs i" using length_pkt_of [OF assms(4)] by simp
  have len: "\<not> length (pkt_of deflate cs i) < 5" "\<not> length (pkt_of deflate cs i) - 5 \<le> 0"
    using compressData_nonempty [of deflate "cs ! i"] by (auto simp: pkt_of_def dataPacket_def)
  have kind: "pkt_of deflate cs i ! 0 \<noteq> pktTypeAck" "pkt_of deflate cs i ! 0 = pktTypeData"
    by (simp_all add: pkt_of_def dataPacket_def pktTypeData_def pktTypeAck_def)
  have seq: "u32 (drop 1 (pkt_of deflate cs i)) = of_nat i" "drop 5 (pkt_of deflate cs i) = ?c"
    by (simp_all add: pkt_of_def dataPacket_def)
  show ?thesis
    unfolding recvPacket_def Let_def whole using assms(1,2) len kind seq compress_round_trip [of inflate deflate, OF assms(3)]
    by (simp add: sendPacket_def)
qed

lemma snd_inv_del: "snd_inv deflate L cs t \<Longrightarrow> snd_inv deflate L cs (t\<lparr>lastRecvTime := now, sendWin := mdel seq (sendWin t)\<rparr>)"
  unfolding snd_inv_def using gm.len_del_le [of seq "sendWin t"] by auto

text \<open>One datagram of the peer, at either end.\<close>

lemma recvPacket_inv:
  assumes sn: "snd_inv deflate L cs t" and rc: "rcv_inv L' cs' t g RRead" and ok: "ok_chunks cs'"
    and b: "length cs' < 2 ^ 32" and nt: "net_inv deflate L' cs' [p]" and fl: "\<forall>d. inflate (deflate d) = Some d"
    and eq: "recvPacket inflate p (tn_remoteAddr t) now t = (t', out, d)"
  shows "snd_inv deflate L cs t' \<and> rcv_inv L' cs' t' g (delivery_pc d) \<and> net_inv deflate L cs out"
proof -
  have now: "rcv_inv L' cs' (t\<lparr>lastRecvTime := now\<rparr>) g RRead" "snd_inv deflate L cs (t\<lparr>lastRecvTime := now\<rparr>)"
    using rc sn rcv_inv_cong [of "t\<lparr>lastRecvTime := now\<rparr>" t] by (simp_all add: rcv_view_def snd_inv_def)
  have idle: "rcv_inv L' cs' u g RTop" if "rcv_inv L' cs' u g RRead" for u using rcv_inv_idle [OF that] by simp
  have h: "relayHeader t = None" using sn by (simp add: snd_inv_def)
  consider (data) i where "i < length cs'" "i \<notin> L'" "p = pkt_of deflate cs' i" | (ack) seq where "p = ackPacket seq"
    | (alive) "p = pktTypeKeepalive # be32 0"
    using nt by (auto simp: net_inv_def)
  then show ?thesis
  proof cases
    case data
    have len: "length (cs' ! i) \<le> 1394" using ok data(1) by (simp add: ok_chunks_def)
    note e = recv_data [where addr = "tn_remoteAddr t" and t = t and cs = cs' and i = i and inflate = inflate and deflate = deflate, OF refl h fl len]
    have t': "recvData (of_nat i) (cs' ! i) (t\<lparr>lastRecvTime := now\<rparr>) = (t', d)" "out = [ackPacket (of_nat i)]"
      using eq e by (simp_all add: data(3) split: prod.splits)
    have "rcv_inv L' cs' t' g (delivery_pc d) \<and> snd_view t' = snd_view (t\<lparr>lastRecvTime := now\<rparr>)"
      using recvData_inv [OF now(1) b data(1,2) t'(1)] .
    moreover have "net_inv deflate L cs out" by (auto simp: t'(2) net_inv_def)
    ultimately show ?thesis using now(2) snd_inv_cong by metis
  next
    case ack
    have "t' = t\<lparr>lastRecvTime := now, sendWin := mdel seq (sendWin t)\<rparr> \<or> t' = t\<lparr>lastRecvTime := now\<rparr>" "out = []" "d = None"
      using eq recv_ack [OF refl, of inflate seq t now] by (auto simp: ack split: if_splits)
    moreover have "rcv_inv L' cs' (t\<lparr>lastRecvTime := now, sendWin := mdel seq (sendWin t)\<rparr>) g RRead"
      using rc rcv_inv_cong [of "t\<lparr>lastRecvTime := now, sendWin := mdel seq (sendWin t)\<rparr>" t] by (simp add: rcv_view_def)
    ultimately show ?thesis using now snd_inv_del [OF sn] idle by (auto simp: net_inv_def)
  next
    case alive
    then have "t' = t\<lparr>lastRecvTime := now\<rparr>" "out = []" "d = None" using eq recv_keepalive [OF refl, of inflate t now] by auto
    then show ?thesis using now idle by (simp add: net_inv_def)
  qed
qed

lemma recvRound_other:
  assumes "\<not> from_peer t r" "recvRound inflate r now t = (t', out, pc)"
  shows "snd_view t' = snd_view t \<and> (t' = t \<or> t' = tunnel_Close t) \<and> out = [] \<and> (\<forall>p b. pc \<noteq> RDeliver p b)"
  using assms
  by (auto simp: recvRound_def from_peer_def recvPacket_def recvTimeout_def tunnel_Close_def Let_def snd_view_def
      split: udp_read.splits if_splits)

lemma Read_inv:
  assumes rc: "rcv_inv L cs t g pc" and rd: "Read n stop t = Some (Inr (t', bs))"
  shows "rcv_inv L cs t' (g @ bs) pc \<and> snd_view t' = snd_view t"
proof -
  obtain r where r: "rcv_at L cs r t g" "due_ok L cs r (recvBuf t) pc" using rc by (auto simp: rcv_inv_def)
  have same: "nextRecvSeq t' = nextRecvSeq t" "recvBuf t' = recvBuf t" "snd_view t' = snd_view t" "tn_closed t' = tn_closed t"
    using rd by (auto simp: Read_def snd_view_def split: if_splits list.splits)
  have str: "bs @ partialData t' @ concat (recvCh t') = partialData t @ concat (recvCh t)"
    "set (recvCh t') \<subseteq> set (recvCh t)"
  proof (atomize (full), cases "partialData t = []")
    case True
    then obtain d rest where d: "recvCh t = d # rest" "t' = t\<lparr>recvCh := rest, partialData := take (64 * 1024) (drop n d)\<rparr>"
      "bs = take n d" using rd by (auto simp: Read_def split: if_splits list.splits)
    have "length d \<le> 1394" using r(1) d(1) by (simp add: rcv_at_def)
    then have "take (64 * 1024) (drop n d) = drop n d" by simp
    then show "bs @ partialData t' @ concat (recvCh t') = partialData t @ concat (recvCh t) \<and> set (recvCh t') \<subseteq> set (recvCh t)"
      using d True by (auto simp flip: append_assoc)
  next
    case False
    then show "bs @ partialData t' @ concat (recvCh t') = partialData t @ concat (recvCh t) \<and> set (recvCh t') \<subseteq> set (recvCh t)"
      using rd by (auto simp: Read_def simp flip: append_assoc)
  qed
  have "rcv_at L cs r t' (g @ bs)"
    using r(1) same str unfolding rcv_at_def read_stream_def append_assoc by auto
  then show ?thesis using same r(2) by (auto simp: rcv_inv_def)
qed

section \<open>Runs\<close>

text \<open>An end is replaced and packets are put on the wire: what has to be shown.\<close>

definition end_inv :: "(bytes \<Rightarrow> bytes) \<Rightarrow> (bool \<Rightarrow> nat set) \<Rightarrow> link \<Rightarrow> bool \<Rightarrow> bool" where
  "end_inv deflate L s x \<longleftrightarrow>
     ok_chunks (chunks s x) \<and> (\<forall>k \<in> L x. k < length (chunks s x)) \<and>
     snd_inv deflate (L x) (chunks s x) (tn s x) \<and>
     net_inv deflate (L (\<not> x)) (chunks s (\<not> x)) (net s x) \<and>
     rcv_inv (L (\<not> x)) (chunks s (\<not> x)) (tn s x) (got s x) (rx s x)"

lemma link_inv_ends: "link_inv deflate L s \<longleftrightarrow> end_inv deflate L s x \<and> end_inv deflate L s (\<not> x)"
proof -
  have "(\<forall>y. P y) \<longleftrightarrow> P x \<and> P (\<not> x)" for P by (cases x) (auto simp: all_bool_eq)
  from this [of "end_inv deflate L s"] show ?thesis by (simp only: link_inv_def end_inv_def)
qed

lemma put_end_inv:
  assumes inv: "link_inv deflate L s"
    and "snd_inv deflate (L x) (chunks s x) t" "net_inv deflate (L x) (chunks s x) out"
    and "rcv_inv (L (\<not> x)) (chunks s (\<not> x)) t (got s x) pc"
  shows "link_inv deflate L (put_end x t out (s\<lparr>rx := (rx s)(x := pc)\<rparr>))"
  using assms unfolding link_inv_ends [of _ _ _ x] by (simp add: end_inv_def put_end_def)

lemma write_inv:
  assumes inv: "link_inv deflate L s"
  shows "link_inv deflate L (link_apply deflate inflate (LWrite x ok b now) s)"
proof -
  obtain t out w r where e: "Write deflate ok b now (tn s x) = (t, out, w, r)" by (cases "Write deflate ok b now (tn s x)")
  note iv = inv [unfolded link_inv_ends [of _ _ _ x] end_inv_def]
  show ?thesis
  proof (cases "tn_closed (tn s x)")
    case True
    then have "t = tn s x" "out = []" "queued b w r = []" using e by (auto simp: Write_def queued_zero)
    then show ?thesis using inv by (simp add: e put_end_def)
  next
    case False
    then have wl: "write_loop deflate ok b now (tn s x) = (t, out, w, r)" using e by (simp add: Write_def)
    let ?cs = "chunks s x @ queued b w r"
    have i: "snd_inv deflate (L x) (chunks s x) (tn s x)" "\<forall>k \<in> L x. k < length (chunks s x)" using iv by simp_all
    note wi = write_loop_inv [OF i False wl]
    have out: "net_inv deflate (L x) ?cs out" using wi sent_ok_net i(2) by blast
    have L: "\<forall>k \<in> L x. k < length ?cs" using i(2) by auto
    have rc: "rcv_inv (L (\<not> x)) (chunks s (\<not> x)) t (got s x) (rx s x)" using iv wi rcv_inv_cong by metis
    have oth: "net_inv deflate (L x) ?cs (net s (\<not> x))" "rcv_inv (L x) ?cs (tn s (\<not> x)) (got s (\<not> x)) (rx s (\<not> x))"
      using iv net_inv_grow rcv_inv_grow by simp_all
    show ?thesis
      unfolding link_inv_ends [of _ _ _ x] end_inv_def
      using iv wi out L rc oth by (simp add: e put_end_def)
  qed
qed


lemma recvRound_inv:
  assumes inv: "link_inv deflate L s" and b: "\<forall>x. length (chunks s x) < 2 ^ 32" and p: "p \<in> set (net s x)"
    and fl: "\<forall>d. inflate (deflate d) = Some d" and rx: "rx s x = RRead"
    and e: "recvRound inflate (UDatagram p (tn_remoteAddr (tn s x))) now (tn s x) = (t, out, pc)"
  shows "snd_inv deflate (L x) (chunks s x) t \<and> rcv_inv (L (\<not> x)) (chunks s (\<not> x)) t (got s x) pc \<and>
         net_inv deflate (L x) (chunks s x) out"
proof -
  note iv = inv [unfolded link_inv_ends [of _ _ _ x] end_inv_def]
  have np: "net_inv deflate (L (\<not> x)) (chunks s (\<not> x)) [p]"
    by (rule net_inv_subset [where ps = "net s x"]) (use iv p in simp_all)
  obtain d where rp: "recvPacket inflate p (tn_remoteAddr (tn s x)) now (tn s x) = (t, out, d)" "pc = delivery_pc d"
    using e by (auto simp: recvRound_def split: prod.splits)
  have i: "snd_inv deflate (L x) (chunks s x) (tn s x)" "rcv_inv (L (\<not> x)) (chunks s (\<not> x)) (tn s x) (got s x) RRead"
    "ok_chunks (chunks s (\<not> x))" "length (chunks s (\<not> x)) < 2 ^ 32"
    using iv b rx by simp_all
  show ?thesis unfolding rp(2) by (rule recvPacket_inv [OF i(1,2,3,4) np fl rp(1)])
qed

lemma net_shrink_inv:
  assumes "link_inv deflate L s" "set ps \<subseteq> set (net s x)"
  shows "link_inv deflate L (s\<lparr>net := (net s)(x := ps)\<rparr>)"
  using assms net_inv_subset unfolding link_inv_ends [of _ _ _ x] end_inv_def by auto

lemma link_apply_inv:
  assumes inv: "link_inv deflate L s" and b: "\<forall>x. length (chunks s x) < 2 ^ 32"
    and fl: "\<forall>d. inflate (deflate d) = Some d"
  shows "link_inv deflate L (link_apply deflate inflate ev s)"
proof (cases ev)
  case (LWrite x ok b now)
  then show ?thesis using write_inv [OF inv] by simp
next
  case (LTick x now order)
  obtain t out where e: "retransmitTick now order (tn s x) = (t, out)" by (cases "retransmitTick now order (tn s x)")
  note iv = inv [unfolded link_inv_ends [of _ _ _ x] end_inv_def]
  have i: "snd_inv deflate (L x) (chunks s x) (tn s x)" "rcv_inv (L (\<not> x)) (chunks s (\<not> x)) (tn s x) (got s x) (rx s x)" using iv by simp_all
  note rt = retransmitTick_inv [OF i(1) e]
  have "rcv_inv (L (\<not> x)) (chunks s (\<not> x)) t (got s x) (rx s x)" using rt rcv_inv_cong i(2) by blast
  from put_end_inv [OF inv _ _ this] show ?thesis using rt by (simp add: LTick e)
next
  case (LKeepalive x)
  note iv = inv [unfolded link_inv_ends [of _ _ _ x] end_inv_def]
  have "relayHeader (tn s x) = None" using iv by (simp add: snd_inv_def)
  then have "net_inv deflate (L x) (chunks s x) [keepalivePacket (tn s x)]"
    by (simp add: net_inv_def keepalivePacket_def sendPacket_def)
  from put_end_inv [OF inv _ this, where pc = "rx s x"] show ?thesis using iv by (simp add: LKeepalive)
next
  case (LLoop x)
  note iv = inv [unfolded link_inv_ends [of _ _ _ x] end_inv_def]
  have "rcv_inv (L (\<not> x)) (chunks s (\<not> x)) (tn s x) (got s x) (recvTop (tn s x))" if "rx s x = RTop"
    by (rule rcv_inv_idle [of _ _ _ _ RTop]) (use iv that in \<open>auto simp: recvTop_def\<close>)
  from put_end_inv [OF inv _ _ this, where out = "[]"] show ?thesis using inv iv
    by (simp add: LLoop put_end_def net_inv_def)
next
  case (LDeliver x i now)
  obtain t out pc where e: "recvRound inflate (UDatagram (net s x ! i) (tn_remoteAddr (tn s x))) now (tn s x) = (t, out, pc)"
    by (cases "recvRound inflate (UDatagram (net s x ! i) (tn_remoteAddr (tn s x))) now (tn s x)")
  show ?thesis
  proof (cases "i < length (net s x) \<and> rx s x = RRead")
    case True
    note rr = recvRound_inv [OF inv b nth_mem [of i "net s x"] fl _ e]
    let ?s = "s\<lparr>net := (net s)(x := remove_nth i (net s x))\<rparr>"
    have "link_inv deflate L ?s" by (rule net_shrink_inv [OF inv set_remove_nth])
    from put_end_inv [OF this, where x = x and t = t and out = out and pc = pc] show ?thesis using rr True by (simp add: LDeliver e)
  qed (use inv in \<open>auto simp: LDeliver\<close>)
next
  case (LHand x sel)
  note iv = inv [unfolded link_inv_ends [of _ _ _ x] end_inv_def]
  show ?thesis
  proof (cases "\<exists>p b. rx s x = RDeliver p b")
    case True
    then obtain p bf where rx: "rx s x = RDeliver p bf" by blast
    obtain t d where e: "deliverOne sel (p, bf) (tn s x) = (t, d)" by (cases "deliverOne sel (p, bf) (tn s x)")
    have i: "rcv_inv (L (\<not> x)) (chunks s (\<not> x)) (tn s x) (got s x) (RDeliver p bf)" "ok_chunks (chunks s (\<not> x))"
      "length (chunks s (\<not> x)) < 2 ^ 32" using iv b rx by auto
    note dl = deliverOne_inv [OF i e]
    have "snd_inv deflate (L x) (chunks s x) t" using dl iv snd_inv_cong by blast
    from put_end_inv [OF inv this _ conjunct1 [OF dl], where out = "[]"] show ?thesis by (simp add: LHand rx e net_inv_def)
  qed (use inv in \<open>auto simp: LHand split: recv_pc.split\<close>)
next
  case (LLose x i)
  then show ?thesis using net_shrink_inv [OF inv set_remove_nth] by simp
next
  case (LDup x i)
  then show ?thesis using net_shrink_inv [OF inv, of "net s x @ [net s x ! i]" x] inv by auto
next
  case (LOther x r now)
  obtain t out pc where e: "recvRound inflate r now (tn s x) = (t, out, pc)" by (cases "recvRound inflate r now (tn s x)")
  note iv = inv [unfolded link_inv_ends [of _ _ _ x] end_inv_def]
  show ?thesis
  proof (cases "from_peer (tn s x) r \<or> rx s x \<noteq> RRead")
    case False
    note ro = recvRound_other [OF _ e]
    have sn: "snd_inv deflate (L x) (chunks s x) t" using ro False iv snd_inv_cong by blast
    have "rcv_inv (L (\<not> x)) (chunks s (\<not> x)) t (got s x) RRead" using ro False iv rcv_inv_close by auto
    then have "rcv_inv (L (\<not> x)) (chunks s (\<not> x)) t (got s x) pc" using rcv_inv_idle ro False by blast
    from put_end_inv [OF inv sn _ this] show ?thesis using ro False by (simp add: LOther e net_inv_def)
  qed (use inv in \<open>auto simp: LOther\<close>)
next
  case (LRead x n stop)
  note iv = inv [unfolded link_inv_ends [of _ _ _ x] end_inv_def]
  have i: "snd_inv deflate (L x) (chunks s x) (tn s x)" "rcv_inv (L (\<not> x)) (chunks s (\<not> x)) (tn s x) (got s x) (rx s x)" using iv by simp_all
  show ?thesis
  proof (cases "\<exists>t bs. Read n stop (tn s x) = Some (Inr (t, bs))")
    case True
    then obtain t bs where e: "Read n stop (tn s x) = Some (Inr (t, bs))" by blast
    note rd = Read_inv [OF i(2) e]
    then have "snd_inv deflate (L x) (chunks s x) t" using i(1) snd_inv_cong by blast
    then show ?thesis using iv rd e unfolding LRead link_inv_ends [of _ _ _ x] end_inv_def by simp
  next
    case False
    then show ?thesis using inv by (auto simp: LRead split: option.split sum.split)
  qed
next
  case (LClose x)
  note iv = inv [unfolded link_inv_ends [of _ _ _ x] end_inv_def]
  have "snd_view (tunnel_Close (tn s x)) = snd_view (tn s x)" by (simp add: tunnel_Close_def snd_view_def)
  then have sn: "snd_inv deflate (L x) (chunks s x) (tunnel_Close (tn s x))" using iv snd_inv_cong by blast
  have "rcv_inv (L (\<not> x)) (chunks s (\<not> x)) (tunnel_Close (tn s x)) (got s x) (rx s x)" using iv rcv_inv_close by blast
  from put_end_inv [OF inv sn _ this, where out = "[]"] show ?thesis by (simp add: LClose net_inv_def)
qed

lemma chunks_grow: "length (chunks s x) \<le> length (chunks (link_apply deflate inflate ev s) x)"
  by (cases ev) (auto simp: put_end_def Let_def split: prod.split option.split sum.split recv_pc.split)

lemma chunks_grow_run: "length (chunks s x) \<le> length (chunks (link_run deflate inflate evs s) x)"
proof (induction evs arbitrary: s)
  case (Cons ev evs)
  show ?case using Cons.IH [of "link_apply deflate inflate ev s"] chunks_grow [of s x deflate inflate ev]
    by (simp add: link_run_def)
qed (simp add: link_run_def)

lemma link_run_inv:
  assumes "link_inv deflate L s" "\<forall>d. inflate (deflate d) = Some d"
    "\<forall>x. length (chunks (link_run deflate inflate evs s) x) < 2 ^ 32"
  shows "link_inv deflate L (link_run deflate inflate evs s)"
  using assms
proof (induction evs arbitrary: s)
  case (Cons ev evs)
  have "\<forall>x. length (chunks s x) < 2 ^ 32" using Cons.prems(3) chunks_grow_run le_less_trans by blast
  then have "link_inv deflate L (link_apply deflate inflate ev s)" using link_apply_inv Cons.prems by blast
  with Cons.IH Cons.prems show ?case by (simp add: link_run_def)
qed (simp add: link_run_def)


lemma chunks_extend: "\<exists>ds. chunks (link_apply deflate inflate ev s) x = chunks s x @ ds"
  by (cases ev) (auto simp: put_end_def Let_def split: prod.split option.split sum.split recv_pc.split)

lemma chunks_extend_run: "\<exists>ds. chunks (link_run deflate inflate evs s) x = chunks s x @ ds"
proof (induction evs arbitrary: s)
  case (Cons ev evs)
  show ?case
    using Cons.IH [of "link_apply deflate inflate ev s"] chunks_extend [of deflate inflate ev s x]
    by (auto simp: link_run_def)
qed (simp add: link_run_def)

lemma concat_split_chunks: "concat (split_chunks b) = b"
  by (induction b rule: split_chunks.induct) (simp add: split_chunks.simps)

lemma rcv_inv_prefix:
  assumes "rcv_inv L cs t g pc"
  obtains r ds rest where "\<forall>k \<in> L. r \<le> k" "subseq ds (take r cs)" "concat ds = g @ rest" "\<not> tn_closed t \<longrightarrow> ds = take r cs"
  using assms unfolding rcv_inv_def rcv_at_def read_stream_def by metis

lemma net_packet_size:
  assumes "net_inv deflate L cs ps" "ok_chunks cs" "p \<in> set ps"
  shows "length p \<le> maxPacketSize"
proof -
  consider i where "i < length cs" "p = pkt_of deflate cs i" | seq where "p = ackPacket seq" | "p = pktTypeKeepalive # be32 0"
    using assms(1,3) by (auto simp: net_inv_def)
  then show ?thesis
  proof cases
    case 1
    then show ?thesis using length_pkt_of [of cs i deflate] assms(2) by (simp add: ok_chunks_def)
  qed (simp_all add: ackPacket_def maxPacketSize_def)
qed

text \<open>
  C4. Over any run of two tunnel ends (writes, retransmissions, reads, time-outs, closes and the single steps of
  the two receive loops in any order) on a network that delays, reorders, duplicates and loses datagrams, and with
  datagrams of strangers in between: as long as an end is not closed, the bytes it has read are a prefix of the bytes the
  other end has taken, and in any case they are a prefix of the concatenation of some of the chunks the other end has
  taken, in the order they were taken. So no byte is ever duplicated, reordered or changed, and nothing is left out
  before the reading end is closed; after its \<open>Close\<close> a packet may be left out while later ones are
  still read (\<open>closed_end_may_skip\<close>). The send window never holds
  more than 256 packets, the reorder buffer never more than 1024, and no datagram is longer than
  the read buffer of the receiver. What a \<open>Write\<close> queues is what it reports as written, unless
  the socket refuses a packet. Hypotheses: inflating what was deflated gives it back, and each end has queued fewer
  than \<open>2 ^ 32\<close> chunks, beyond which sequence numbers repeat.
\<close>

theorem tunnel_stream_prefix:
  assumes fl: "\<forall>d. inflate (deflate d) = Some d"
    and b: "\<forall>x. length (chunks (link_run deflate inflate evs (link0 peer now)) x) < 2 ^ 32"
  defines "s \<equiv> link_run deflate inflate evs (link0 peer now)"
  shows "(\<not> tn_closed (tn s x) \<longrightarrow> (\<exists>rest. concat (chunks s (\<not> x)) = got s x @ rest)) \<and>
         (\<exists>ds rest. subseq ds (chunks s (\<not> x)) \<and> concat ds = got s x @ rest) \<and>
         mlen (sendWin (tn s x)) \<le> maxInflight \<and> mlen (recvBuf (tn s x)) \<le> maxRecvBuf \<and>
         (\<forall>p \<in> set (net s x). length p \<le> maxPacketSize) \<and>
         (\<forall>d w r. r \<noteq> Failed SendError \<longrightarrow> concat (queued d w r) = take w d)"
proof -
  have "link_inv deflate (\<lambda>_. {}) s" unfolding s_def by (rule link_run_inv [OF link_inv_init fl b])
  then have iv: "snd_inv deflate {} (chunks s x) (tn s x)" "net_inv deflate {} (chunks s (\<not> x)) (net s x)"
    "rcv_inv {} (chunks s (\<not> x)) (tn s x) (got s x) (rx s x)" "ok_chunks (chunks s (\<not> x))"
    by (simp_all add: link_inv_def)
  obtain r ds rest where ds: "subseq ds (take r (chunks s (\<not> x)))" "concat ds = got s x @ rest"
    "\<not> tn_closed (tn s x) \<longrightarrow> ds = take r (chunks s (\<not> x))"
    using rcv_inv_prefix [OF iv(3)] by metis
  have "concat (chunks s (\<not> x)) = got s x @ (rest @ concat (drop r (chunks s (\<not> x))))" if "\<not> tn_closed (tn s x)"
    using ds(2,3) that by (metis append_assoc append_take_drop_id concat_append)
  moreover have "subseq ds (chunks s (\<not> x))"
    using ds(1) list_emb_append2 [of "(=)" ds "take r (chunks s (\<not> x))" "[]"] take_is_prefix
    by (metis prefix_imp_subseq subseq_order.trans)
  moreover have "mlen (sendWin (tn s x)) \<le> maxInflight" using iv(1) by (simp add: snd_inv_def)
  moreover have "mlen (recvBuf (tn s x)) \<le> maxRecvBuf" using iv(3) by (auto simp: rcv_inv_def rcv_at_def buf_inv_def)
  moreover have "\<forall>p \<in> set (net s x). length p \<le> maxPacketSize" using net_packet_size iv(2,4) by blast
  moreover have "\<forall>d w r. r \<noteq> Failed SendError \<longrightarrow> concat (queued d w r) = take w d"
    by (simp add: queued_def concat_split_chunks)
  ultimately show ?thesis using ds(2) by blast
qed

definition demo_evs :: "link_event list" where
  "demo_evs = [LWrite True (\<lambda>_. True) [7] 0, LWrite True (\<lambda>_. True) [9] 0, LLoop False, LDeliver False 1 1,
               LDup False 0, LLoop False, LDeliver False 0 2, LHand False False, LRead False 5 False, LHand False False,
               LRead False 5 False]"

text \<open>
  A run in which the reading end is closed between two deliveries: the packet that is due is dropped, the buffered one
  behind it goes into the channel and is read, so the byte 9 comes without the 7 before it.
\<close>

definition skip_evs :: "link_event list" where
  "skip_evs = [LWrite True (\<lambda>_. True) [7] 0, LWrite True (\<lambda>_. True) [9] 0, LLoop False, LDeliver False 1 1,
               LLoop False, LDeliver False 0 2, LClose False, LHand False True, LHand False False, LRead False 5 False]"

lemmas link_eval = link_run_def link0_def NewUDPTunnel_def Write_def write_loop.simps writeChunk_def
  chunkSize_def maxPacketSize_def compressData_def compressThreshold_def queued_def split_chunks.simps put_end_def
  Let_def mlen_put_new maxInflight_def sendPacket_def remove_nth_def recvRound_def recvPacket_def dataPacket_def
  pktTypeData_def pktTypeAck_def decompressData_def rawFlag_def compressFlag_def recvData_def maxRecvBuf_def
  deliverToChannel_def deliverOne_def nextDelivery_def recvTop_def tunnel_Close_def Read_def ackPacket_def

lemma demo_link:
  "got (link_run (\<lambda>d. d) Some demo_evs (link0 (\<lambda>_. []) 0)) False = [7, 9] \<and>
   length (chunks (link_run (\<lambda>d. d) Some demo_evs (link0 (\<lambda>_. []) 0)) True) = 2 \<and>
   length (chunks (link_run (\<lambda>d. d) Some demo_evs (link0 (\<lambda>_. []) 0)) False) = 0 \<and>
   \<not> tn_closed (tn (link_run (\<lambda>d. d) Some demo_evs (link0 (\<lambda>_. []) 0)) False)"
  by (simp add: demo_evs_def link_eval)

lemma closed_end_may_skip:
  "got (link_run (\<lambda>d. d) Some skip_evs (link0 (\<lambda>_. []) 0)) False = [9] \<and>
   chunks (link_run (\<lambda>d. d) Some skip_evs (link0 (\<lambda>_. []) 0)) True = [[7], [9]]"
  by (simp add: skip_evs_def link_eval)

theorem tunnel_stream_prefix_witness:
  "(\<forall>d. Some ((\<lambda>d::bytes. d) d) = Some d) \<and>
   got (link_run (\<lambda>d. d) Some demo_evs (link0 (\<lambda>_. []) 0)) False = [7, 9] \<and>
   (\<exists>rest. concat (chunks (link_run (\<lambda>d. d) Some demo_evs (link0 (\<lambda>_. []) 0)) True) =
     got (link_run (\<lambda>d. d) Some demo_evs (link0 (\<lambda>_. []) 0)) False @ rest)"
  using tunnel_stream_prefix [of Some "\<lambda>d. d" demo_evs "\<lambda>_. []" 0 False] demo_link
  by (simp add: all_bool_eq)


section \<open>An acknowledged packet that is never delivered\<close>

text \<open>
  The run: the first packet is lost; every later one is delivered and acknowledged before the
  next is written, so that only the first one counts against the window.
\<close>

definition one_byte :: "link_event list" where
  "one_byte = [LWrite True (\<lambda>_. True) [0] 0, LLoop False, LDeliver False 0 0, LLoop True, LDeliver True 0 0]"

definition lossy_run :: "nat \<Rightarrow> link_event list" where
  "lossy_run k = [LWrite True (\<lambda>_. True) [0] 0, LLose False 0] @ concat (replicate k one_byte)"

definition lossy_state :: "nat \<Rightarrow> link \<Rightarrow> bool" where
  "lossy_state k s \<longleftrightarrow>
     nextSendSeq (tn s True) = of_nat (Suc k) \<and> mdom (sendWin (tn s True)) = {0} \<and> relayHeader (tn s True) = None \<and>
     \<not> tn_closed (tn s True) \<and> \<not> tn_closed (tn s False) \<and> relayHeader (tn s False) = None \<and>
     nextRecvSeq (tn s False) = 0 \<and> mdom (recvBuf (tn s False)) = of_nat ` {1..min k 1024} \<and>
     net s = (\<lambda>_. []) \<and> rx s = (\<lambda>_. RTop) \<and> chunks s = (\<lambda>x. if x then replicate (Suc k) [0] else [])"

lemma write_one:
  assumes "\<not> tn_closed t" "mlen (sendWin t) < maxInflight"
  shows "Write deflate ok [c] now t =
         (t\<lparr>nextSendSeq := nextSendSeq t + 1,
            sendWin := mput (nextSendSeq t)
              \<lparr>pp_data = dataPacket (nextSendSeq t) [rawFlag, c], pp_sentAt = now, pp_retries = 0\<rparr> (sendWin t)\<rparr>,
          (if ok (nextSendSeq t) then [sendPacket t (dataPacket (nextSendSeq t) [rawFlag, c])] else []),
          (if ok (nextSendSeq t) then 1 else 0), (if ok (nextSendSeq t) then Taken else Failed SendError))"
  using assms by (simp add: Write_def write_loop.simps writeChunk_def chunkSize_def maxPacketSize_def
      compressData_def compressThreshold_def Let_def)

lemma queued_one: "queued [c] 1 Taken = [[c]]"
  by (simp add: queued_def split_chunks.simps chunkSize_def maxPacketSize_def)

lemma recv_raw:
  assumes "relayHeader t = None"
  shows "recvPacket inflate (dataPacket seq [rawFlag, c]) (tn_remoteAddr t) now t =
         (let (t1, d) = recvData seq [c] (t\<lparr>lastRecvTime := now\<rparr>) in (t1, [ackPacket seq], d))"
  using assms by (simp add: recvPacket_def dataPacket_def maxPacketSize_def pktTypeData_def pktTypeAck_def Let_def
      decompressData_def sendPacket_def)

lemma lossy_state_0: "lossy_state 0 (link_run deflate inflate (lossy_run 0) (link0 peer now))"
  by (auto simp: lossy_state_def lossy_run_def link_run_def link0_def write_one NewUDPTunnel_def maxInflight_def
      put_end_def remove_nth_def queued_one [simplified])

lemma mlen_image_seq:
  assumes "mdom m = of_nat ` {1..n :: nat}" "n < 2 ^ 32"
  shows "mlen (m :: (32 word, 'v) gomap) = int n"
proof -
  have "inj_on (of_nat :: nat \<Rightarrow> 32 word) {1..n}"
    using assms(2) of_nat_seq_inj by (intro inj_onI) (metis atLeastAtMost_iff order_le_less_trans)
  then show ?thesis by (simp add: mlen_card assms(1) card_image)
qed

lemma deliver_only:
  assumes "net s x = [p]" "\<not> tn_closed (tn s x)" "rx s = (\<lambda>_. RTop)"
    "recvPacket inflate p (tn_remoteAddr (tn s x)) now (tn s x) = (t, out, None)"
  shows "link_apply deflate inflate (LDeliver x 0 now) (link_apply deflate inflate (LLoop x) s) =
         put_end x t out (s\<lparr>net := (net s)(x := [])\<rparr>)"
  using assms by (simp add: recvRound_def remove_nth_def recvTop_def put_end_def fun_upd_idem)

lemma lossy_step:
  assumes s: "lossy_state k s" and k: "k < 1025"
  shows "lossy_state (Suc k) (link_run deflate inflate one_byte s)"
proof -
  let ?q = "of_nat (Suc k) :: 32 word"
  let ?t = "tn s True" and ?u = "tn s False"
  note st = s [unfolded lossy_state_def]
  have win: "mlen (sendWin ?t) < maxInflight" using st by (simp add: mlen_card maxInflight_def)
  have q0: "?q \<noteq> 0" "?q > 0" using of_nat_seq_inj [of "Suc k" 0] k by (auto simp: word_neq_0_conv)
  have none: "mget (recvBuf ?u) ?q = None"
  proof -
    have "?q \<noteq> of_nat j" if "j \<le> k" for j using of_nat_seq_inj [of "Suc k" j] k that by (simp del: of_nat_Suc)
    then have "?q \<notin> of_nat ` {1..min k 1024}"
      by (metis (no_types, lifting) atLeastAtMost_iff imageE min.boundedE)
    then show ?thesis using st by blast
  qed
  have len: "mlen (recvBuf ?u) < maxRecvBuf \<longleftrightarrow> k < 1024"
    using mlen_image_seq [of "recvBuf ?u" "min k 1024"] st by (auto simp: maxRecvBuf_def)
  define s1 where "s1 = link_apply deflate inflate (LWrite True (\<lambda>_. True) [0] 0) s"
  have s1: "tn s1 True = ?t\<lparr>nextSendSeq := ?q + 1,
      sendWin := mput ?q \<lparr>pp_data = dataPacket ?q [rawFlag, 0], pp_sentAt = 0, pp_retries = 0\<rparr> (sendWin ?t)\<rparr>"
    "tn s1 False = ?u" "net s1 = (\<lambda>x. if x then [] else [dataPacket ?q [rawFlag, 0]])"
    "chunks s1 = (\<lambda>x. if x then replicate (Suc (Suc k)) [0] else [])" "rx s1 = (\<lambda>_. RTop)"
    unfolding s1_def using st win write_one [of ?t deflate "\<lambda>_. True" 0 0] queued_one
    by (auto simp: put_end_def sendPacket_def replicate_append_same simp del: of_nat_Suc)
  define u2 where u2: "u2 = (if k < 1024 then ?u\<lparr>lastRecvTime := 0, recvBuf := mput ?q [0] (recvBuf ?u)\<rparr> else ?u\<lparr>lastRecvTime := 0\<rparr>)"
  have rd: "recvData ?q [0] (?u\<lparr>lastRecvTime := 0\<rparr>) = (u2, None)"
    using st q0 none len by (simp add: u2 recvData_def del: of_nat_Suc)
  define s2 where "s2 = put_end False u2 [ackPacket ?q] (s1\<lparr>net := (net s1)(False := [])\<rparr>)"
  have a2: "link_apply deflate inflate (LDeliver False 0 0) (link_apply deflate inflate (LLoop False) s1) = s2"
    unfolding s2_def using st s1(2,3,5) recv_raw [of ?u inflate ?q 0 0] rd by (intro deliver_only) (simp_all del: of_nat_Suc)
  have s2: "tn s2 True = tn s1 True" "tn s2 False = u2" "net s2 = (\<lambda>x. if x then [ackPacket ?q] else [])" "chunks s2 = chunks s1" "rx s2 = (\<lambda>_. RTop)"
    by (auto simp: s2_def put_end_def s1(3,5))
  define t3 where "t3 = (tn s1 True)\<lparr>lastRecvTime := 0, sendWin := mdel ?q (sendWin (tn s1 True))\<rparr>"
  define s3 where "s3 = put_end True t3 [] (s2\<lparr>net := (net s2)(True := [])\<rparr>)"
  have a3: "link_apply deflate inflate (LDeliver True 0 0) (link_apply deflate inflate (LLoop True) s2) = s3"
    unfolding s3_def t3_def using st s1(1) s2 recv_ack [OF refl, of inflate ?q "tn s1 True" 0]
    by (intro deliver_only) simp_all
  have s3: "tn s3 False = u2" "net s3 = (\<lambda>_. [])" "chunks s3 = chunks s1" "rx s3 = (\<lambda>_. RTop)"
    "nextSendSeq (tn s3 True) = ?q + 1" "mget (sendWin (tn s3 True)) = (mget (sendWin ?t))(?q := None)"
    "relayHeader (tn s3 True) = None" "\<not> tn_closed (tn s3 True)"
    using st by (auto simp: s3_def t3_def put_end_def s2 s1(1) simp del: of_nat_Suc)
  have run: "link_run deflate inflate one_byte s = s3"
    using a2 a3 by (simp add: link_run_def one_byte_def s1_def del: link_apply.simps)
  have dom1: "mdom (sendWin (tn s3 True)) = {0}" using st q0 by (auto simp: s3(6) simp del: of_nat_Suc split: if_splits)
  have dom2: "mdom (recvBuf u2) = of_nat ` {1..min (Suc k) 1024}"
  proof (cases "k < 1024")
    case True
    then have "{1..min (Suc k) 1024} = insert (Suc k) {1..min k 1024}" by auto
    then show ?thesis using st True by (simp add: u2 del: of_nat_Suc)
  next
    case False
    then show ?thesis using st by (simp add: u2 min_def)
  qed
  have rest: "\<not> tn_closed u2" "relayHeader u2 = None" "nextRecvSeq u2 = 0" using st by (simp_all add: u2)
  show ?thesis
    unfolding run lossy_state_def using s3 dom1 dom2 rest s1(4) by (simp add: add.commute)
qed


lemma lossy_reaches: "k \<le> 1025 \<Longrightarrow> lossy_state k (link_run deflate inflate (lossy_run k) (link0 peer now))"
proof (induction k)
  case 0
  show ?case by (rule lossy_state_0)
next
  case (Suc k)
  have "replicate (Suc k) one_byte = replicate k one_byte @ [one_byte]" by (simp add: replicate_append_same)
  then have "lossy_run (Suc k) = lossy_run k @ one_byte" by (simp add: lossy_run_def del: replicate_Suc)
  then have "link_run deflate inflate (lossy_run (Suc k)) (link0 peer now) =
      link_run deflate inflate one_byte (link_run deflate inflate (lossy_run k) (link0 peer now))"
    by (simp add: link_run_def)
  then show ?case using lossy_step Suc by simp
qed

lemma subseq_concat_length: "subseq xs ys \<Longrightarrow> length (concat xs) \<le> length (concat ys)"
  by (induction rule: list_emb.induct) auto

definition lost_1025 :: "bool \<Rightarrow> nat set" where
  "lost_1025 x = (if x then {1025} else {})"

lemma lossy_lost:
  assumes fl: "\<forall>d. inflate (deflate d) = Some d"
  shows "link_inv deflate lost_1025 (link_run deflate inflate (lossy_run 1025) (link0 peer now))"
proof -
  let ?s = "link_run deflate inflate (lossy_run 1025) (link0 peer now)"
  have st: "lossy_state 1025 ?s" by (rule lossy_reaches) simp
  then have cs: "chunks ?s True = replicate 1026 [0]" "chunks ?s False = []" by (simp_all add: lossy_state_def)
  have inv: "link_inv deflate (\<lambda>_. {}) ?s"
    using link_run_inv [of deflate "\<lambda>_. {}" "link0 peer now" inflate "lossy_run 1025"] link_inv_init fl
    by (simp add: all_bool_eq cs)
  have end1: "end_inv deflate (\<lambda>_. {}) ?s True" "end_inv deflate (\<lambda>_. {}) ?s False"
    using inv link_inv_ends [of deflate "\<lambda>_. {}" ?s True] by simp_all
  have "snd_inv deflate {1025} (chunks ?s True) (tn ?s True)"
  proof -
    have "\<exists>i. i < length (chunks ?s True) \<and> i \<notin> {1025} \<and> seq = of_nat i \<and> pp_data p = pkt_of deflate (chunks ?s True) i"
      if w: "mget (sendWin (tn ?s True)) seq = Some p" for seq p
    proof -
      obtain i where i: "i < length (chunks ?s True)" "seq = of_nat i" "pp_data p = pkt_of deflate (chunks ?s True) i"
        using end1(1) w unfolding end_inv_def snd_inv_def by blast
      have "seq = 0" using st w by (auto simp: lossy_state_def)
      then have "i = 0" using of_nat_seq_inj [of i 0] i cs by simp
      then show ?thesis using i by auto
    qed
    then show ?thesis using end1(1) by (simp add: end_inv_def snd_inv_def)
  qed
  moreover have "rcv_inv {1025} (chunks ?s True) (tn ?s False) (got ?s False) (rx ?s False)"
  proof -
    have rx: "rx ?s False = RTop" using st by (simp add: lossy_state_def)
    obtain r where r: "rcv_at {} (chunks ?s True) r (tn ?s False) (got ?s False)"
      "mget (recvBuf (tn ?s False)) (of_nat r) = None"
      using end1(2) rx by (auto simp: end_inv_def rcv_inv_def due_ok_def)
    have "of_nat r = (0 :: 32 word)" "r \<le> 1026" using r(1) st cs by (auto simp: rcv_at_def lossy_state_def)
    then have r0: "r = 0" using of_nat_seq_inj [of r 0] by simp
    have "\<exists>j. r \<le> j \<and> j < length (chunks ?s True) \<and> j \<notin> {1025} \<and> seq = of_nat j \<and> p = chunks ?s True ! j"
      if w: "mget (recvBuf (tn ?s False)) seq = Some p" for seq p
    proof -
      obtain j where j: "r \<le> j" "j < length (chunks ?s True)" "seq = of_nat j" "p = chunks ?s True ! j"
        using r(1) w unfolding rcv_at_def buf_inv_def by blast
      have "seq \<in> of_nat ` {1..1024}" using st w by (auto simp: lossy_state_def)
      then obtain i where "i \<le> 1024" "seq = of_nat i" by auto
      then have "j \<noteq> 1025" using of_nat_seq_inj [of i 1025] j(3) by auto
      then show ?thesis using j by auto
    qed
    then have "rcv_at {1025} (chunks ?s True) r (tn ?s False) (got ?s False)"
      using r(1) r0 by (simp add: rcv_at_def buf_inv_def)
    then show ?thesis using r(2) rx by (auto simp: rcv_inv_def due_ok_def)
  qed
  moreover have "net ?s = (\<lambda>_. [])" using st by (simp add: lossy_state_def)
  ultimately show ?thesis
    using end1 cs unfolding link_inv_ends [of _ _ _ True] by (simp add: end_inv_def lost_1025_def net_inv_def)
qed

text \<open>
  C23. The tunnel can lose an acknowledged packet for good. There is a run in which both ends stay
  open and the sender has been told that its 1026 bytes are written, after which, whatever the
  two programs and the network do and however long they go on (below \<open>2 ^ 32\<close> chunks), the
  receiver never gets more than the first 1025 bytes: \<open>recvLoop\<close> acknowledges a packet before it
  looks whether the reorder buffer has room, the sender forgets an acknowledged packet, and the
  window, which counts only packets without acknowledgement, lets the sender run more than 1024
  packets ahead of a lost one.
\<close>

theorem acked_packet_can_be_lost:
  assumes fl: "\<forall>d. inflate (deflate d) = Some d"
  shows "\<exists>evs. let s = link_run deflate inflate evs (link0 peer now) in
           \<not> tn_closed (tn s True) \<and> \<not> tn_closed (tn s False) \<and> length (concat (chunks s True)) = 1026 \<and>
           (\<forall>more. let s' = link_run deflate inflate more s in
              (\<forall>x. length (chunks s' x) < 2 ^ 32) \<longrightarrow> length (got s' False) \<le> 1025)"
proof -
  let ?s = "link_run deflate inflate (lossy_run 1025) (link0 peer now)"
  have st: "lossy_state 1025 ?s" by (rule lossy_reaches) simp
  have cs: "chunks ?s True = replicate 1026 [0]" using st by (simp add: lossy_state_def)
  have one: "length (concat (replicate n [0 :: byte])) = n" for n by (induction n) auto
  have "length (got (link_run deflate inflate more ?s) False) \<le> 1025"
    if b: "\<forall>x. length (chunks (link_run deflate inflate more ?s) x) < 2 ^ 32" for more
  proof -
    let ?s' = "link_run deflate inflate more ?s"
    have "rcv_inv {1025} (chunks ?s' True) (tn ?s' False) (got ?s' False) (rx ?s' False)"
      using link_run_inv [of deflate lost_1025 ?s inflate more] lossy_lost [of inflate deflate peer now] fl b link_inv_ends [of deflate lost_1025 ?s' True]
      by (simp add: end_inv_def lost_1025_def)
    then obtain r xs rest where r: "r \<le> 1025" "subseq xs (take r (chunks ?s' True))" "concat xs = got ?s' False @ rest"
      by (rule rcv_inv_prefix) auto
    obtain ds where "chunks ?s' True = replicate 1026 [0] @ ds"
      using chunks_extend_run [of deflate inflate more ?s True] cs by auto
    then have "take r (chunks ?s' True) = replicate r [0]" using r(1) by (simp add: min_def)
    then have "length (got ?s' False @ rest) \<le> r" using subseq_concat_length [OF r(2)] r(3) one by metis
    then show ?thesis using r(1) by simp
  qed
  moreover have "length (concat (chunks ?s True)) = 1026" using one [of 1026] cs by simp
  ultimately have "\<exists>evs. evs = lossy_run 1025 \<and> (let s = link_run deflate inflate evs (link0 peer now) in
           \<not> tn_closed (tn s True) \<and> \<not> tn_closed (tn s False) \<and> length (concat (chunks s True)) = 1026 \<and>
           (\<forall>more. let s' = link_run deflate inflate more s in
              (\<forall>x. length (chunks s' x) < 2 ^ 32) \<longrightarrow> length (got s' False) \<le> 1025))"
    using st by (simp add: lossy_state_def Let_def)
  then show ?thesis by blast
qed

theorem acked_packet_can_be_lost_witness:
  "(\<forall>d :: bytes. Some ((\<lambda>d. d) d) = Some d) \<and>
   (\<exists>evs. let s = link_run (\<lambda>d. d) Some evs (link0 (\<lambda>_. ''peer'') 0) in
      length (concat (chunks s True)) = 1026 \<and>
      (\<forall>more. let s' = link_run (\<lambda>d. d) Some more s in
         (\<forall>x. length (chunks s' x) < 2 ^ 32) \<longrightarrow> length (got s' False) \<le> 1025))"
  using acked_packet_can_be_lost [of Some "\<lambda>d. d" "\<lambda>_. ''peer''" 0] by (auto simp: Let_def)

end
