(* ===== verification/Truncate.thy ===== *)
theory Truncate
  imports Prelude
begin

text \<open>
  The output path of the \<open>exec\<close> tool: truncation at character boundaries
  (\<^verbatim>\<open>internal/agent/tools/truncate.go\<close>), the writer that keeps only both ends of an output
  (\<^verbatim>\<open>exec_bounded.go\<close>) and the writer that turns console output into UTF-8 (\<^verbatim>\<open>oemtext.go\<close>,
  \<^verbatim>\<open>oemtext_windows.go\<close>).

  The active code page of a Windows console is the parameter \<open>cp\<close>: \<open>None\<close> where there is none
  (and on every other system), else its lead bytes and its converter
  (\<^verbatim>\<open>MultiByteToWideChar\<close> and \<^verbatim>\<open>utf16.Decode\<close>).
\<close>

section \<open>Truncation\<close>

definition RuneStart :: "byte \<Rightarrow> bool" where
  "RuneStart b = (b AND 0xC0 \<noteq> 0x80)"

fun down_loop :: "bytes \<Rightarrow> nat \<Rightarrow> nat" where
  "down_loop s 0 = 0"
| "down_loop s (Suc i) = (if RuneStart (s ! Suc i) then Suc i else down_loop s i)"

definition alignDown :: "bytes \<Rightarrow> int \<Rightarrow> nat" where
  "alignDown s i = (if i \<le> 0 then 0 else if i \<ge> int (length s) then length s else down_loop s (nat i))"

function up_loop :: "bytes \<Rightarrow> nat \<Rightarrow> nat" where
  "up_loop s i = (if i < length s \<and> \<not> RuneStart (s ! i) then up_loop s (i + 1) else i)"
  by pat_completeness auto
termination by (relation "measure (\<lambda>(s, i). length s - i)") auto

declare up_loop.simps [simp del]

definition alignUp :: "bytes \<Rightarrow> int \<Rightarrow> nat" where
  "alignUp s i = (if i \<le> 0 then 0 else if i \<ge> int (length s) then length s else up_loop s (nat i))"

definition TruncateHead :: "bytes \<Rightarrow> int \<Rightarrow> bytes" where
  "TruncateHead s m = (if int (length s) \<le> m then s else take (alignDown s m) s)"

definition TruncateTail :: "bytes \<Rightarrow> int \<Rightarrow> bytes" where
  "TruncateTail s m = (if int (length s) \<le> m then s else drop (alignUp s (int (length s) - m)) s)"

definition truncMarkerReserve :: int where
  "truncMarkerReserve = 96"

text \<open>The verb \<open>%d\<close> on a number, and the text of the marker around it.\<close>

function digits :: "nat \<Rightarrow> bytes" where
  "digits n = (if n < 10 then [of_nat (48 + n)] else digits (n div 10) @ [of_nat (48 + n mod 10)])"
  by pat_completeness auto
termination by (relation "measure id") auto

declare digits.simps [simp del]

definition marker :: "int \<Rightarrow> bytes" where
  "marker n =
     [10, 46, 46, 46, 91, 228, 184, 173, 233, 151, 180, 32] @
     (if n < 0 then 45 # digits (nat (- n)) else digits (nat n)) @
     [32, 229, 173, 151, 232, 138, 130, 229, 183, 178, 231, 156, 129, 231, 149, 165, 239, 188, 155, 233, 156, 128,
      232, 166, 129, 229, 174, 140, 230, 149, 180, 232, 190, 147, 229, 135, 186, 232, 175, 183, 232, 176, 131,
      233, 171, 152, 32, 109, 97, 120, 95, 111, 117, 116, 112, 117, 116, 95, 98, 121, 116, 101, 115, 93, 46, 46, 46, 10]"

definition TruncateMiddle :: "bytes \<Rightarrow> int \<Rightarrow> bytes \<times> bool" where
  "TruncateMiddle s m =
     (if int (length s) \<le> m then (s, False)
      else if m \<le> truncMarkerReserve then (TruncateHead s m, True)
      else let budget = m - truncMarkerReserve;
               head = alignDown s (budget div 2);
               tail = alignUp s (int (length s) - (budget - budget div 2))
           in (take head s @ marker (int tail - int head) @ drop tail s, True))"

section \<open>The bounded writer\<close>

definition execMaxOutputCeiling :: int where "execMaxOutputCeiling = 8 * 2 ^ 20"
definition execDefaultMaxOutput :: int where "execDefaultMaxOutput = 32 * 1024"

definition resolveMaxOutput :: "int \<Rightarrow> int" where
  "resolveMaxOutput requested =
     (if requested \<le> 0 then execDefaultMaxOutput
      else if requested > execMaxOutputCeiling then execMaxOutputCeiling else requested)"

definition UTFMax :: int where "UTFMax = 4"

record boundedStream =
  bs_max :: int
  bs_head :: bytes
  bs_tail :: bytes
  bs_total :: int

definition newBoundedStream :: "int \<Rightarrow> boundedStream" where
  "newBoundedStream m = \<lparr>bs_max = (if m < 1 then 1 else m), bs_head = [], bs_tail = [], bs_total = 0\<rparr>"

definition bounded_Write :: "bytes \<Rightarrow> boundedStream \<Rightarrow> boundedStream" where
  "bounded_Write p b =
     (let room = bs_max b + UTFMax - int (length (bs_head b));
          b1 = b\<lparr>bs_total := bs_total b + int (length p),
                 bs_head := (if room > 0
                             then bs_head b @ take (nat (if room > int (length p) then int (length p) else room)) p
                             else bs_head b)\<rparr>
      in if int (length p) \<ge> bs_max b
         then b1\<lparr>bs_tail := drop (nat (int (length p) - bs_max b)) p\<rparr>
         else let t = bs_tail b @ p
              in b1\<lparr>bs_tail := (if int (length t) \<ge> 2 * bs_max b then drop (nat (int (length t) - bs_max b)) t else t)\<rparr>)"

definition tailWindow :: "boundedStream \<Rightarrow> bytes" where
  "tailWindow b =
     (if int (length (bs_tail b)) > bs_max b then drop (nat (int (length (bs_tail b)) - bs_max b)) (bs_tail b)
      else bs_tail b)"

definition bounded_result :: "boundedStream \<Rightarrow> bytes \<times> bool" where
  "bounded_result b =
     (if bs_total b \<le> bs_max b then (bs_head b, False)
      else if bs_max b \<le> truncMarkerReserve then (TruncateHead (bs_head b) (bs_max b), True)
      else let budget = bs_max b - truncMarkerReserve;
               headN = budget div 2;
               tailN = budget - headN;
               headIdx = alignDown (bs_head b) headN;
               t = tailWindow b;
               off = up_loop t (nat (int (length t) - tailN));
               tailIdx = bs_total b - int (length t - off)
           in (take headIdx (bs_head b) @ marker (tailIdx - int headIdx) @ drop off t, True))"

section \<open>The decoding writer\<close>

definition utf8MaxPending :: nat where "utf8MaxPending = 4"

definition utf8_need :: "byte \<Rightarrow> nat option" where
  "utf8_need c =
     (if c < 0x80 then Some 1
      else if c \<ge> 0xC2 \<and> c \<le> 0xDF then Some 2
      else if c \<ge> 0xE0 \<and> c \<le> 0xEF then Some 3
      else if c \<ge> 0xF0 \<and> c \<le> 0xF4 then Some 4
      else None)"

function scan_loop :: "bytes \<Rightarrow> nat \<Rightarrow> nat \<times> bool" where
  "scan_loop b i =
     (if \<not> i < length b then (i, True)
      else case utf8_need (b ! i) of
             None \<Rightarrow> (i, False)
           | Some need \<Rightarrow>
               if i + need > length b then (i, True)
               else if list_ex (\<lambda>j. b ! (i + j) AND 0xC0 \<noteq> 0x80) [1..<need] then (i, False)
               else scan_loop b (i + need))"
  by pat_completeness auto
termination
  by (relation "measure (\<lambda>(b, i). length b - i)") (auto simp: utf8_need_def split: if_splits)

declare scan_loop.simps [simp del]

definition scanUTF8 :: "bytes \<Rightarrow> nat \<times> bool" where
  "scanUTF8 b = scan_loop b 0"

record codePage =
  cp_lead :: "byte \<Rightarrow> bool"
  cp_convert :: "bytes \<Rightarrow> bytes option"

definition consoleTranscode :: "codePage option \<Rightarrow> bytes \<Rightarrow> bytes option" where
  "consoleTranscode cp b =
     (if b = [] then Some []
      else case cp of None \<Rightarrow> None | Some c \<Rightarrow> cp_convert c b)"

function split_loop :: "(byte \<Rightarrow> bool) \<Rightarrow> bytes \<Rightarrow> nat \<Rightarrow> bytes \<times> bytes" where
  "split_loop lead b i =
     (if i < length b
      then (if lead (b ! i)
            then (if i + 1 \<ge> length b then (take i b, drop i b) else split_loop lead b (i + 2))
            else split_loop lead b (i + 1))
      else (b, []))"
  by pat_completeness auto
termination by (relation "measure (\<lambda>(lead, b, i). length b - i)") auto

declare split_loop.simps [simp del]

definition splitTrailingPartial :: "codePage option \<Rightarrow> bytes \<Rightarrow> bytes \<times> bytes" where
  "splitTrailingPartial cp b = (case cp of None \<Rightarrow> (b, []) | Some c \<Rightarrow> split_loop (cp_lead c) b 0)"

text \<open>What is written to \<open>dst\<close> is part of the result.\<close>

record decodingWriter =
  dw_pending :: bytes
  pendingUTF8 :: bool
  passthrough :: bool

definition newDecodingWriter :: decodingWriter where
  "newDecodingWriter = \<lparr>dw_pending = [], pendingUTF8 = False, passthrough = False\<rparr>"

definition keepPending :: "bytes \<Rightarrow> bool \<Rightarrow> decodingWriter \<Rightarrow> decodingWriter" where
  "keepPending b isUTF8 d = d\<lparr>dw_pending := b, pendingUTF8 := isUTF8\<rparr>"

definition decoding_Write :: "codePage option \<Rightarrow> bytes \<Rightarrow> decodingWriter \<Rightarrow> decodingWriter \<times> bytes" where
  "decoding_Write cp p d0 =
     (if p = [] then (d0, [])
      else let buf = dw_pending d0 @ p;
               d = d0\<lparr>dw_pending := []\<rparr>
           in if passthrough d then (d, buf)
              else let (complete, ok) = scanUTF8 buf
                   in if ok
                      then (let rest = length buf - complete
                            in if rest > 0 \<and> rest \<le> utf8MaxPending
                               then (keepPending (drop complete buf) True d, take complete buf)
                               else (d, buf))
                      else let pre = take complete buf;
                               buf2 = drop complete buf;
                               (head, tail) = splitTrailingPartial cp buf2
                           in if head = [] then (keepPending tail False d, pre)
                              else case consoleTranscode cp head of
                                     None \<Rightarrow> (d\<lparr>passthrough := True\<rparr>, pre @ buf2)
                                   | Some u \<Rightarrow> (keepPending tail False d, pre @ u))"

definition decoding_Flush :: "codePage option \<Rightarrow> decodingWriter \<Rightarrow> decodingWriter \<times> bytes" where
  "decoding_Flush cp d =
     (if dw_pending d = [] then (d, [])
      else let b = dw_pending d;
               d1 = d\<lparr>dw_pending := []\<rparr>
           in if \<not> pendingUTF8 d \<and> \<not> passthrough d
              then (case consoleTranscode cp b of Some u \<Rightarrow> (d1, u) | None \<Rightarrow> (d1, b))
              else (d1, b))"

text \<open>A sequence of writes: what each of them passes on.\<close>

fun decoding_run :: "codePage option \<Rightarrow> bytes list \<Rightarrow> decodingWriter \<Rightarrow> decodingWriter \<times> bytes list" where
  "decoding_run cp [] d = (d, [])"
| "decoding_run cp (p # ps) d =
     (let (d1, o1) = decoding_Write cp p d; (d2, os) = decoding_run cp ps d1 in (d2, o1 # os))"

text \<open>
  One output stream of the \<open>exec\<close> tool outside of streaming: the writes of the command pass the
  decoding writer into the bounded one; after the end of the command the former is flushed and
  the latter read.
\<close>

definition exec_capture :: "codePage option \<Rightarrow> int \<Rightarrow> bytes list \<Rightarrow> bytes \<times> bool" where
  "exec_capture cp requested ps =
     (let (d, os) = decoding_run cp ps newDecodingWriter;
          flushed = snd (decoding_Flush cp d)
      in bounded_result (fold bounded_Write (os @ [flushed]) (newBoundedStream (resolveMaxOutput requested))))"

end
