(* ===== verification/Truncate_Props.thy ===== *)
theory Truncate_Props
  imports Truncate
begin

text \<open>
  The writer that keeps both ends gives, for every way of cutting the output into writes, the
  bytes that truncating the whole output would give; the decoding writer does not change UTF-8
  text, wherever the writes are cut.
\<close>

section \<open>Alignment\<close>

lemma down_loop_le: "down_loop s i \<le> i"
  by (induction s i rule: down_loop.induct) auto

lemma down_loop_take: "i < k \<Longrightarrow> k \<le> length s \<Longrightarrow> down_loop (take k s) i = down_loop s i"
  by (induction s i rule: down_loop.induct) auto

lemma alignDown_take:
  assumes "i < int k" "k \<le> length s"
  shows "take (alignDown (take k s) i) (take k s) = take (alignDown s i) s" "alignDown (take k s) i = alignDown s i"
proof -
  show eq: "alignDown (take k s) i = alignDown s i"
    using assms down_loop_take [of "nat i" k s] by (auto simp: alignDown_def)
  have "alignDown s i \<le> k" using assms down_loop_le [of s "nat i"] by (auto simp: alignDown_def)
  then show "take (alignDown (take k s) i) (take k s) = take (alignDown s i) s" by (simp add: eq min_def)
qed

lemma up_loop_bounds: "i \<le> length s \<Longrightarrow> i \<le> up_loop s i \<and> up_loop s i \<le> length s"
proof (induction s i rule: up_loop.induct)
  case (1 s i)
  then show ?case by (cases "i < length s \<and> \<not> RuneStart (s ! i)") (auto simp: up_loop.simps [of s i])
qed

lemma up_loop_append: "up_loop (xs @ s) (length xs + i) = length xs + up_loop s i"
proof (induction s i rule: up_loop.induct)
  case (1 s i)
  show ?case
  proof (cases "i < length s \<and> \<not> RuneStart (s ! i)")
    case True
    then have "up_loop (xs @ s) (length xs + i) = up_loop (xs @ s) (length xs + (i + 1))"
      by (simp add: up_loop.simps [of "xs @ s" "length xs + i"] nth_append)
    then show ?thesis using 1 [OF True] True by (simp add: up_loop.simps [of s i])
  next
    case False
    have "up_loop s i = i" using False by (subst up_loop.simps) (simp only: if_False)
    moreover have "up_loop (xs @ s) (length xs + i) = length xs + i"
      using False by (subst up_loop.simps) (auto simp: nth_append)
    ultimately show ?thesis by simp
  qed
qed

lemma length_TruncateHead: "0 \<le> m \<Longrightarrow> int (length (TruncateHead s m)) \<le> m"
  using down_loop_le [of s "nat m"] by (auto simp: TruncateHead_def alignDown_def min_def)

lemma length_digits: "n < 10 ^ k \<Longrightarrow> 0 < k \<Longrightarrow> length (digits n) \<le> k"
proof (induction k arbitrary: n)
  case (Suc k)
  show ?case
  proof (cases "n < 10")
    case False
    have "n div 10 < 10 ^ k" using Suc.prems(1) by (simp add: less_mult_imp_div_less mult.commute)
    moreover have "0 < k" using False Suc.prems(1) by (cases k) auto
    ultimately show ?thesis using Suc.IH [of "n div 10"] False by (simp add: digits.simps [of n])
  qed (simp add: digits.simps)
qed simp

lemma length_marker: "0 \<le> n \<Longrightarrow> n < 10 ^ 16 \<Longrightarrow> int (length (marker n)) \<le> truncMarkerReserve"
  using length_digits [of "nat n" 16] by (simp add: marker_def truncMarkerReserve_def)

lemma TruncateMiddle_bound:
  assumes m: "0 \<le> m" and s: "length s < 10 ^ 16"
  shows "int (length (fst (TruncateMiddle s m))) \<le> m"
proof (cases "int (length s) \<le> m \<or> m \<le> truncMarkerReserve")
  case True
  then show ?thesis using m length_TruncateHead by (auto simp: TruncateMiddle_def)
next
  case False
  define budget where "budget = m - truncMarkerReserve"
  define hd where "hd = alignDown s (budget div 2)"
  define tl where "tl = alignUp s (int (length s) - (budget - budget div 2))"
  have b: "0 < budget" "budget < int (length s)" using False by (auto simp: budget_def truncMarkerReserve_def)
  have h: "int hd \<le> budget div 2" using b down_loop_le [of s "nat (budget div 2)"] by (auto simp: hd_def alignDown_def)
  define j where "j = nat (int (length s) - (budget - budget div 2))"
  have j: "int j = int (length s) - (budget - budget div 2)" "j \<le> length s" "int hd \<le> int j" "0 < j" "j < length s"
    using b h by (auto simp: j_def)
  have "tl = up_loop s j" using j by (simp add: tl_def alignUp_def j_def [symmetric])
  then have t: "int (length s) - int tl \<le> budget - budget div 2" "tl \<le> length s" "int hd \<le> int tl"
    using j up_loop_bounds [OF j(2)] by auto
  have "int (length (marker (int tl - int hd))) \<le> truncMarkerReserve"
    using t s by (intro length_marker) auto
  moreover have "fst (TruncateMiddle s m) = take hd s @ marker (int tl - int hd) @ drop tl s"
    using False by (simp add: TruncateMiddle_def budget_def hd_def tl_def Let_def)
  moreover have "int (length (take hd s)) \<le> budget div 2" using h by simp
  moreover have "int (length (drop tl s)) \<le> budget - budget div 2" using t by simp
  ultimately show ?thesis by (simp add: budget_def)
qed

section \<open>The bounded writer\<close>

definition bounded_inv :: "bytes \<Rightarrow> boundedStream \<Rightarrow> bool" where
  "bounded_inv T b \<longleftrightarrow>
     1 \<le> bs_max b \<and> bs_total b = int (length T) \<and> bs_head b = take (nat (bs_max b + UTFMax)) T \<and>
     (\<exists>pre. T = pre @ bs_tail b) \<and> min (bs_max b) (int (length T)) \<le> int (length (bs_tail b)) \<and>
     int (length (bs_tail b)) < 2 * bs_max b"

lemma bounded_inv_new: "bounded_inv [] (newBoundedStream m)"
  by (simp add: bounded_inv_def newBoundedStream_def)

lemma bounded_inv_Write:
  assumes "bounded_inv T b"
  shows "bounded_inv (T @ p) (bounded_Write p b)"
proof -
  have mx: "1 \<le> bs_max b" and tot: "bs_total b = int (length T)" and hd: "bs_head b = take (nat (bs_max b + UTFMax)) T"
    and len: "min (bs_max b) (int (length T)) \<le> int (length (bs_tail b))" "int (length (bs_tail b)) < 2 * bs_max b"
    using assms by (auto simp: bounded_inv_def)
  obtain pre where pre: "T = pre @ bs_tail b" using assms by (auto simp: bounded_inv_def)
  let ?b = "bounded_Write p b"
  have same: "bs_max ?b = bs_max b" "bs_total ?b = int (length (T @ p))" by (simp_all add: bounded_Write_def Let_def tot)
  have head: "bs_head ?b = take (nat (bs_max b + UTFMax)) (T @ p)"
    using mx by (auto simp: bounded_Write_def Let_def hd UTFMax_def min_def nat_diff_distrib)
  consider (long) "bs_max b \<le> int (length p)"
    | (fold) "int (length p) < bs_max b" "2 * bs_max b \<le> int (length (bs_tail b @ p))"
    | (short) "int (length p) < bs_max b" "int (length (bs_tail b @ p)) < 2 * bs_max b"
    by linarith
  then have "(\<exists>pre. T @ p = pre @ bs_tail ?b) \<and> min (bs_max b) (int (length (T @ p))) \<le> int (length (bs_tail ?b)) \<and>
      int (length (bs_tail ?b)) < 2 * bs_max b"
  proof cases
    case long
    then have "bs_tail ?b = drop (nat (int (length p) - bs_max b)) p" by (simp add: bounded_Write_def Let_def)
    moreover from this have "T @ p = (T @ take (nat (int (length p) - bs_max b)) p) @ bs_tail ?b" by simp
    moreover have "int (length (drop (nat (int (length p) - bs_max b)) p)) = bs_max b" using mx long by simp
    ultimately show ?thesis using mx by (metis min.cobounded1 mult_2 zero_less_one less_add_same_cancel1 order_less_le_trans)
  next
    case fold
    let ?t = "bs_tail b @ p"
    let ?k = "nat (int (length ?t) - bs_max b)"
    have e: "bs_tail ?b = drop ?k ?t" using fold by (simp add: bounded_Write_def Let_def)
    have l: "int (length (bs_tail ?b)) = bs_max b" using mx fold(2) unfolding e length_drop by linarith
    have "T @ p = (pre @ take ?k ?t) @ bs_tail ?b" unfolding e append_assoc append_take_drop_id using pre by simp
    then show ?thesis using l mx by auto
  next
    case short
    then have "bs_tail ?b = bs_tail b @ p" by (simp add: bounded_Write_def Let_def)
    then show ?thesis using short pre len by auto
  qed
  then show ?thesis using mx same head by (simp add: bounded_inv_def)
qed

lemma bounded_inv_fold: "bounded_inv T b \<Longrightarrow> bounded_inv (T @ concat ps) (fold bounded_Write ps b)"
proof (induction ps arbitrary: T b)
  case (Cons p ps)
  show ?case using Cons.IH [OF bounded_inv_Write [OF Cons.prems, of p]] by simp
qed simp

lemma bounded_max_fold: "bs_max (fold bounded_Write ps b) = bs_max b"
  by (induction ps arbitrary: b) (simp_all add: bounded_Write_def Let_def)

lemma bounded_inv_window:
  assumes "bounded_inv T b" "bs_max b < int (length T)"
  shows "\<exists>pre. T = pre @ tailWindow b" "int (length (tailWindow b)) = bs_max b"
proof -
  obtain pre where pre: "T = pre @ bs_tail b" using assms by (auto simp: bounded_inv_def)
  have len: "bs_max b \<le> int (length (bs_tail b))" "1 \<le> bs_max b" using assms by (auto simp: bounded_inv_def min_def)
  have "T = (pre @ take (nat (int (length (bs_tail b)) - bs_max b)) (bs_tail b)) @
      drop (nat (int (length (bs_tail b)) - bs_max b)) (bs_tail b)" using pre by simp
  then have "\<exists>q. T = q @ drop (nat (int (length (bs_tail b)) - bs_max b)) (bs_tail b)" by blast
  then show "\<exists>pre. T = pre @ tailWindow b" using pre by (simp add: tailWindow_def)
  show "int (length (tailWindow b)) = bs_max b" using len by (auto simp: tailWindow_def)
qed

lemma bounded_result_eq:
  assumes inv: "bounded_inv T b"
  shows "bounded_result b = TruncateMiddle T (bs_max b)"
proof (cases "int (length T) \<le> bs_max b")
  case True
  then show ?thesis using inv by (auto simp: bounded_inv_def bounded_result_def TruncateMiddle_def UTFMax_def)
next
  case long: False
  let ?m = "bs_max b"
  let ?k = "min (nat (?m + UTFMax)) (length T)"
  have mx: "1 \<le> ?m" and tot: "bs_total b = int (length T)" and hd: "bs_head b = take ?k T"
    using inv by (auto simp: bounded_inv_def min_def)
  have k: "?m < int ?k" "?k \<le> length T" using long mx by (auto simp: UTFMax_def min_def)
  show ?thesis
  proof (cases "?m \<le> truncMarkerReserve")
    case True
    have "TruncateHead (take ?k T) ?m = TruncateHead T ?m"
      using alignDown_take [OF k] k long by (simp add: TruncateHead_def)
    then show ?thesis using True long tot hd by (simp add: bounded_result_def TruncateMiddle_def)
  next
    case False
    define budget where "budget = ?m - truncMarkerReserve"
    define tailN where "tailN = budget - budget div 2"
    have bd: "0 < budget" "0 < tailN" "tailN \<le> ?m" "budget div 2 < int ?k"
      using False k by (auto simp: budget_def tailN_def truncMarkerReserve_def)
    define t where "t = tailWindow b"
    obtain pre where pre: "T = pre @ t" using bounded_inv_window(1) [OF inv] long unfolding t_def by auto
    have lt: "int (length t) = ?m" using bounded_inv_window(2) [OF inv] long unfolding t_def by simp
    define off where "off = up_loop t (nat (int (length t) - tailN))"
    have off: "off \<le> length t" using up_loop_bounds [of "nat (int (length t) - tailN)" t] bd lt by (simp add: off_def)
    have up: "alignUp T (int (length T) - tailN) = length pre + off"
    proof -
      have "0 < int (length T) - tailN" "int (length T) - tailN < int (length T)" using bd long by auto
      then have "alignUp T (int (length T) - tailN) = up_loop T (nat (int (length T) - tailN))" by (simp add: alignUp_def)
      moreover have "nat (int (length T) - tailN) = length pre + nat (int (length t) - tailN)"
        using pre bd lt by auto
      ultimately show ?thesis using up_loop_append [of pre t "nat (int (length t) - tailN)"] pre by (simp add: off_def)
    qed
    have idx: "bs_total b - int (length t - off) = int (length pre + off)" using tot pre off by auto
    have dr: "drop (length pre + off) T = drop off t" using pre by simp
    note al = alignDown_take [OF bd(4) k(2)]
    have "bounded_result b = (take (alignDown T (budget div 2)) T @
        marker (int (length pre + off) - int (alignDown T (budget div 2))) @ drop off t, True)"
      using long False tot al hd idx
      by (simp add: bounded_result_def Let_def flip: budget_def t_def tailN_def off_def)
    moreover have "TruncateMiddle T ?m = (take (alignDown T (budget div 2)) T @
        marker (int (length pre + off) - int (alignDown T (budget div 2))) @ drop (length pre + off) T, True)"
      using long False up by (simp add: TruncateMiddle_def Let_def flip: budget_def tailN_def)
    ultimately show ?thesis by (simp add: dr)
  qed
qed

text \<open>
  C19. Truncating while writing equals truncating afterwards: for every sequence of writes, the
  bounded writer returns exactly the bytes and the flag that \<open>TruncateMiddle\<close> gives on the whole
  output (a maximum below one counts as one), and it never holds more than \<open>max + 4\<close> bytes of
  the beginning and \<open>2 * max\<close> bytes of the end. The result is never longer than the maximum,
  for outputs below ten petabytes.
\<close>

theorem bounded_stream_equivalent:
  defines "run m ps \<equiv> fold bounded_Write ps (newBoundedStream m)"
  shows "bounded_result (run m ps) = TruncateMiddle (concat ps) (max 1 m) \<and>
         int (length (bs_head (run m ps))) \<le> max 1 m + 4 \<and> int (length (bs_tail (run m ps))) < 2 * max 1 m \<and>
         (length (concat ps) < 10 ^ 16 \<longrightarrow> int (length (fst (bounded_result (run m ps)))) \<le> max 1 m)"
proof -
  have inv: "bounded_inv (concat ps) (run m ps)" using bounded_inv_fold [OF bounded_inv_new] by (simp add: run_def)
  have mx: "bs_max (run m ps) = max 1 m" by (auto simp: run_def bounded_max_fold newBoundedStream_def max_def)
  have eq: "bounded_result (run m ps) = TruncateMiddle (concat ps) (max 1 m)" using bounded_result_eq [OF inv] mx by simp
  show ?thesis using inv mx eq TruncateMiddle_bound [of "max 1 m" "concat ps"]
    by (auto simp: bounded_inv_def UTFMax_def)
qed

theorem bounded_stream_equivalent_witness:
  "length (concat [[65 :: byte, 66], [67]]) < 10 ^ 16 \<and>
   bounded_result (fold bounded_Write [[65, 66], [67]] (newBoundedStream 2)) = ([65, 66], True)"
proof -
  have "bounded_result (fold bounded_Write [[65, 66], [67]] (newBoundedStream 2)) = TruncateMiddle [65, 66, 67] 2"
    using bounded_stream_equivalent [of "[[65, 66], [67]]" 2] by simp
  moreover have "RuneStart 67" by (simp add: RuneStart_def)
  then have "TruncateMiddle [65, 66, 67] 2 = ([65, 66], True)"
    by (simp add: TruncateMiddle_def truncMarkerReserve_def TruncateHead_def alignDown_def numeral_2_eq_2)
  ultimately show ?thesis by simp
qed

section \<open>The decoding writer\<close>

lemma scan_shift: "scan_loop (xs @ b) (length xs + i) = (length xs + fst (scan_loop b i), snd (scan_loop b i))"
proof (induction b i rule: scan_loop.induct)
  case (1 b i)
  show ?case
  proof (cases "i < length b")
    case in_range: True
    show ?thesis
    proof (cases "utf8_need (b ! i)")
      case None
      then show ?thesis using in_range by (simp add: scan_loop.simps [of b i] scan_loop.simps [of "xs @ b"])
    next
      case (Some n)
      have conts: "list_ex (\<lambda>j. (xs @ b) ! (length xs + i + j) AND 0xC0 \<noteq> 0x80) [1..<n] =
          list_ex (\<lambda>j. b ! (i + j) AND 0xC0 \<noteq> 0x80) [1..<n]"
        by (simp add: add.assoc)
      have here: "scan_loop (xs @ b) (length xs + i) =
          (if i + n > length b then (length xs + i, True)
           else if list_ex (\<lambda>j. b ! (i + j) AND 0xC0 \<noteq> 0x80) [1..<n] then (length xs + i, False)
           else scan_loop (xs @ b) (length xs + (i + n)))"
        using in_range Some conts by (subst scan_loop.simps) (simp add: add.assoc)
      have there: "scan_loop b i =
          (if i + n > length b then (i, True)
           else if list_ex (\<lambda>j. b ! (i + j) AND 0xC0 \<noteq> 0x80) [1..<n] then (i, False)
           else scan_loop b (i + n))"
        using in_range Some by (subst scan_loop.simps) simp
      show ?thesis
      proof (cases "i + n > length b \<or> list_ex (\<lambda>j. b ! (i + j) AND 0xC0 \<noteq> 0x80) [1..<n]")
        case True
        then show ?thesis unfolding here there by (cases "i + n > length b") simp_all
      next
        case False
        then show ?thesis using "1.IH" [of n] in_range Some unfolding here there by simp
      qed
    qed
  next
    case False
    then show ?thesis by (simp add: scan_loop.simps [of b i] scan_loop.simps [of "xs @ b"])
  qed
qed

definition utf8_text :: "bytes \<Rightarrow> bool" where
  "utf8_text b \<longleftrightarrow> scanUTF8 b = (length b, True)"

lemma utf8_text_drop: "i \<le> length b \<Longrightarrow> utf8_text (drop i b) \<longleftrightarrow> scan_loop b i = (length b, True)"
  using scan_shift [of "take i b" "drop i b" 0]
  by (cases "scan_loop (drop i b) 0") (auto simp: utf8_text_def scanUTF8_def)

lemma scan_prefix:
  "scan_loop T i = (length T, True) \<Longrightarrow> i \<le> k \<Longrightarrow> k \<le> length T \<Longrightarrow>
   \<exists>c. scan_loop (take k T) i = (c, True) \<and> i \<le> c \<and> c \<le> k \<and> k < c + 4 \<and> scan_loop T c = (length T, True)"
proof (induction T i rule: scan_loop.induct)
  case (1 T i)
  show ?case
  proof (cases "i = k")
    case True
    then have "scan_loop (take k T) i = (i, True)" using "1.prems"(3) by (subst scan_loop.simps) simp
    then show ?thesis using "1.prems" True by auto
  next
    case False
    then have i: "i < length T" "i < k" using "1.prems" by auto
    obtain n where n: "utf8_need (T ! i) = Some n"
      using "1.prems"(1) i(1) by (cases "utf8_need (T ! i)") (simp_all add: scan_loop.simps [of T i])
    have n4: "n \<le> 4" using n by (auto simp: utf8_need_def split: if_splits)
    have step: "\<not> i + n > length T" "\<not> list_ex (\<lambda>j. T ! (i + j) AND 0xC0 \<noteq> 0x80) [1..<n]"
      "scan_loop T (i + n) = (length T, True)"
      using "1.prems"(1) i(1) n by (simp_all add: scan_loop.simps [of T i] split: if_splits)
    have at: "take k T ! i = T ! i" using i by simp
    show ?thesis
    proof (cases "i + n > k")
      case True
      then have "scan_loop (take k T) i = (i, True)"
        using i n at "1.prems"(3) by (subst scan_loop.simps) simp
      then show ?thesis using "1.prems" True n4 by auto
    next
      case fits: False
      have "list_ex (\<lambda>j. take k T ! (i + j) AND 0xC0 \<noteq> 0x80) [1..<n] = list_ex (\<lambda>j. T ! (i + j) AND 0xC0 \<noteq> 0x80) [1..<n]"
        unfolding list_ex_iff using fits by auto
      then have go: "scan_loop (take k T) i = scan_loop (take k T) (i + n)"
        using i n at fits step(2) "1.prems"(3) by (subst scan_loop.simps) simp
      obtain c where "scan_loop (take k T) (i + n) = (c, True)" "i + n \<le> c" "c \<le> k" "k < c + 4"
          "scan_loop T c = (length T, True)"
        using "1.IH" [of n] i(1) n step fits "1.prems"(3) by auto
      then show ?thesis using go by auto
    qed
  qed
qed

text \<open>Between two writes: the pending bytes and what is still to come are UTF-8 text.\<close>

definition decoding_inv :: "bytes \<Rightarrow> decodingWriter \<Rightarrow> bool" where
  "decoding_inv rest d \<longleftrightarrow>
     utf8_text (dw_pending d @ rest) \<and> \<not> passthrough d \<and> (dw_pending d \<noteq> [] \<longrightarrow> pendingUTF8 d)"

lemma decoding_Write_inv:
  assumes inv: "decoding_inv (p @ rest) d" and w: "decoding_Write cp p d = (d', o')"
  shows "decoding_inv rest d' \<and> o' @ dw_pending d' = dw_pending d @ p"
proof (cases "p = []")
  case True
  then show ?thesis using assms by (simp add: decoding_Write_def decoding_inv_def)
next
  case False
  let ?buf = "dw_pending d @ p"
  let ?T = "?buf @ rest"
  have pass: "\<not> passthrough d" and T: "scan_loop ?T 0 = (length ?T, True)"
    using inv by (simp_all add: decoding_inv_def utf8_text_def scanUTF8_def)
  obtain c where c: "scan_loop ?buf 0 = (c, True)" "c \<le> length ?buf" "length ?buf < c + 4"
      "scan_loop ?T c = (length ?T, True)"
    using scan_prefix [OF T, of "length ?buf"] by auto
  have rest4: "length ?buf - c \<le> utf8MaxPending" using c(3) by (simp add: utf8MaxPending_def)
  have good: "utf8_text (drop c ?T)" using utf8_text_drop [of c ?T] c(2,4) by simp
  show ?thesis
  proof (cases "length ?buf - c > 0")
    case True
    then have e: "d' = keepPending (drop c ?buf) True (d\<lparr>dw_pending := []\<rparr>)" "o' = take c ?buf"
      using w False pass c(1) rest4 by (auto simp: decoding_Write_def Let_def scanUTF8_def)
    have "dw_pending d' = drop c ?buf" by (simp add: e keepPending_def)
    then have "o' @ dw_pending d' = ?buf" unfolding e(2) by (simp only: append_take_drop_id)
    moreover have "dw_pending d' @ rest = drop c ?T" unfolding e keepPending_def using c(2) by simp
    ultimately show ?thesis using good pass e(1) by (simp add: decoding_inv_def keepPending_def)
  next
    case none: False
    then have "d' = d\<lparr>dw_pending := []\<rparr>" "o' = ?buf"
      using w False pass c(1) by (auto simp: decoding_Write_def Let_def scanUTF8_def)
    moreover have "drop c ?T = rest" using none c(2) by simp
    ultimately show ?thesis using good pass by (simp add: decoding_inv_def)
  qed
qed

lemma decoding_run_inv:
  "decoding_inv (concat ps @ rest) d \<Longrightarrow> decoding_run cp ps d = (d', os) \<Longrightarrow>
   decoding_inv rest d' \<and> concat os @ dw_pending d' = dw_pending d @ concat ps"
proof (induction ps arbitrary: d d' os)
  case (Cons p ps)
  obtain d1 o1 where w: "decoding_Write cp p d = (d1, o1)" by (cases "decoding_Write cp p d")
  obtain d2 os2 where r: "decoding_run cp ps d1 = (d2, os2)" by (cases "decoding_run cp ps d1")
  have eq: "d' = d2" "os = o1 # os2" using Cons.prems(2) w r by simp_all
  note wi = decoding_Write_inv [OF Cons.prems(1) [simplified append_assoc concat.simps] w]
  from Cons.IH [OF conjunct1 [OF wi [simplified append_assoc]] r]
  have ih: "decoding_inv rest d2" "concat os2 @ dw_pending d2 = dw_pending d1 @ concat ps" by simp_all
  have "concat os @ dw_pending d' = o1 @ dw_pending d1 @ concat ps" using ih(2) eq by simp
  also have "\<dots> = dw_pending d @ p @ concat ps" using wi by (metis append_assoc)
  finally show ?case using ih(1) eq by simp
qed simp

text \<open>
  The captured output of a command. When the command writes UTF-8 text, the result of the
  \<open>exec\<close> tool is the text cut in the middle to the requested maximum (32 KiB by default, 8 MiB
  at most), whatever the code page of the machine and wherever the pipe cuts the writes,
  also inside a character; a text within the maximum comes back unchanged and unmarked.
\<close>

theorem exec_output_exact:
  assumes "utf8_text (concat ps)"
  shows "exec_capture cp requested ps = TruncateMiddle (concat ps) (resolveMaxOutput requested) \<and>
         (int (length (concat ps)) \<le> resolveMaxOutput requested \<longrightarrow> exec_capture cp requested ps = (concat ps, False))"
proof -
  obtain d os where r: "decoding_run cp ps newDecodingWriter = (d, os)" by (cases "decoding_run cp ps newDecodingWriter")
  have "decoding_inv (concat ps @ []) newDecodingWriter" using assms by (simp add: decoding_inv_def newDecodingWriter_def)
  from decoding_run_inv [OF this r] have inv: "decoding_inv [] d" "concat os @ dw_pending d = concat ps"
    by (simp_all add: newDecodingWriter_def)
  have fl: "snd (decoding_Flush cp d) = dw_pending d" using inv(1) by (auto simp: decoding_Flush_def decoding_inv_def Let_def)
  have mx: "max 1 (resolveMaxOutput requested) = resolveMaxOutput requested"
    by (simp add: resolveMaxOutput_def execDefaultMaxOutput_def execMaxOutputCeiling_def)
  let ?b = "fold bounded_Write (os @ [dw_pending d]) (newBoundedStream (resolveMaxOutput requested))"
  have "bounded_inv (concat ps) ?b"
    using bounded_inv_fold [OF bounded_inv_new, of "os @ [dw_pending d]"] inv(2) by simp
  moreover have "bs_max ?b = resolveMaxOutput requested"
    using mx by (subst bounded_max_fold) (auto simp: newBoundedStream_def)
  ultimately have "bounded_result ?b = TruncateMiddle (concat ps) (resolveMaxOutput requested)"
    using bounded_result_eq by metis
  then show ?thesis by (simp add: exec_capture_def r fl TruncateMiddle_def)
qed

theorem exec_output_exact_witness:
  "utf8_text (concat [[228, 184], [173]]) \<and> exec_capture None 0 [[228, 184], [173]] = ([228, 184, 173], False)"
proof -
  have "scan_loop [228, 184, 173] 0 = (3, True)"
    by (simp add: scan_loop.simps utf8_need_def upt_conv_Cons)
  then have "utf8_text (concat [[228, 184], [173]])" by (simp add: utf8_text_def scanUTF8_def)
  with exec_output_exact [of "[[228, 184], [173]]" None 0] show ?thesis
    by (auto simp: resolveMaxOutput_def execDefaultMaxOutput_def)
qed

end
