(* ===== verification/Winargs.thy ===== *)
theory Winargs
  imports Prelude
begin

text \<open>
  The command line of an elevated child process on Windows, \<^verbatim>\<open>internal/agent/winargs.go\<close>.

  The system function that splits a command line is a parameter of the property: \<open>argv_rules\<close>
  states the rules its documentation gives and the comment of the source repeats. \<open>split_args\<close>
  is a concrete splitter that follows them.
\<close>

section \<open>Quoting\<close>

definition backslash :: char where "backslash = CHR 0x5C"
definition quote :: char where "quote = CHR 0x22"

definition needs_quotes :: "char \<Rightarrow> bool" where
  "needs_quotes c = (c \<in> {CHR '' '', CHR 0x09, CHR 0x0A, CHR 0x0B, quote})"

text \<open>The loop over the bytes, with the number of backslashes not yet written.\<close>

fun quote_loop :: "nat \<Rightarrow> string \<Rightarrow> string" where
  "quote_loop slashes [] = replicate (slashes * 2) backslash @ [quote]"
| "quote_loop slashes (c # s) =
     (if c = backslash then quote_loop (slashes + 1) s
      else if c = quote then replicate (slashes * 2 + 1) backslash @ quote # quote_loop 0 s
      else replicate slashes backslash @ c # quote_loop 0 s)"

definition quoteWindowsArg :: "string \<Rightarrow> string" where
  "quoteWindowsArg s =
     (if s \<noteq> [] \<and> \<not> list_ex needs_quotes s then s else quote # quote_loop 0 s)"

fun join_space :: "string list \<Rightarrow> string" where
  "join_space [] = []"
| "join_space [a] = a"
| "join_space (a # b # r) = a @ CHR '' '' # join_space (b # r)"

definition buildWindowsCommandLine :: "string list \<Rightarrow> string" where
  "buildWindowsCommandLine args = join_space (map quoteWindowsArg args)"

section \<open>Splitting\<close>

text \<open>
  \<open>f inq cur rest\<close>: the arguments still to come, inside quotes or not, with the argument begun
  so far (\<open>None\<close> between arguments). White space outside quotes ends an argument; \<open>2n\<close>
  backslashes and a quote are \<open>n\<close> backslashes and the begin or end of a quoted part; \<open>2n + 1\<close>
  and a quote are \<open>n\<close> backslashes and a literal quote; other backslashes are literal. Two quotes
  in a row inside quotes, about which versions differ, are left open.
\<close>

definition begun :: "string option \<Rightarrow> string" where
  "begun cur = (case cur of None \<Rightarrow> [] | Some a \<Rightarrow> a)"

definition starts_in :: "char set \<Rightarrow> string \<Rightarrow> bool" where
  "starts_in C s = (case s of [] \<Rightarrow> False | c # _ \<Rightarrow> c \<in> C)"

definition argv_rules :: "(bool \<Rightarrow> string option \<Rightarrow> string \<Rightarrow> string list) \<Rightarrow> bool" where
  "argv_rules f \<longleftrightarrow>
     (\<forall>q. f q None [] = []) \<and> (\<forall>q a. f q (Some a) [] = [a]) \<and>
     (\<forall>c s. c \<in> {CHR '' '', CHR 0x09} \<longrightarrow> f False None (c # s) = f False None s) \<and>
     (\<forall>c a s. c \<in> {CHR '' '', CHR 0x09} \<longrightarrow> f False (Some a) (c # s) = a # f False None s) \<and>
     (\<forall>q cur n s. \<not> (q \<and> starts_in {quote} s) \<longrightarrow>
        f q cur (replicate (n * 2) backslash @ quote # s) = f (\<not> q) (Some (begun cur @ replicate n backslash)) s) \<and>
     (\<forall>q cur n s. f q cur (replicate (n * 2 + 1) backslash @ quote # s) =
        f q (Some (begun cur @ replicate n backslash @ [quote])) s) \<and>
     (\<forall>q cur n s. 0 < n \<longrightarrow> \<not> starts_in {backslash, quote} s \<longrightarrow>
        f q cur (replicate n backslash @ s) = f q (Some (begun cur @ replicate n backslash)) s) \<and>
     (\<forall>q cur c s. c \<notin> {backslash, quote, CHR 0x00} \<longrightarrow> (q \<or> c \<notin> {CHR '' '', CHR 0x09}) \<longrightarrow>
        f q cur (c # s) = f q (Some (begun cur @ [c])) s)"

fun split_from :: "bool \<Rightarrow> string option \<Rightarrow> nat \<Rightarrow> string \<Rightarrow> string list" where
  "split_from q cur n [] = (if n = 0 then (case cur of None \<Rightarrow> [] | Some a \<Rightarrow> [a]) else [begun cur @ replicate n backslash])"
| "split_from q cur n (c # s) =
     (if c = backslash then split_from q cur (n + 1) s
      else if c = quote
      then (if even n then split_from (\<not> q) (Some (begun cur @ replicate (n div 2) backslash)) 0 s
            else split_from q (Some (begun cur @ replicate (n div 2) backslash @ [quote])) 0 s)
      else if \<not> q \<and> c \<in> {CHR '' '', CHR 0x09}
      then (if n = 0 then (case cur of None \<Rightarrow> split_from False None 0 s | Some a \<Rightarrow> a # split_from False None 0 s)
            else (begun cur @ replicate n backslash) # split_from False None 0 s)
      else split_from q (Some (begun cur @ replicate n backslash @ [c])) 0 s)"

definition split_args :: "bool \<Rightarrow> string option \<Rightarrow> string \<Rightarrow> string list" where
  "split_args q cur s = split_from q cur 0 s"

section \<open>The round trip\<close>

lemma chars_differ [simp]: "quote \<noteq> backslash" "backslash \<noteq> quote" "CHR '' '' \<noteq> backslash" "CHR '' '' \<noteq> quote"
  "CHR 0x09 \<noteq> backslash" "CHR 0x09 \<noteq> quote"
  by (simp_all add: quote_def backslash_def)

lemma split_from_slashes: "split_from q cur n (replicate k backslash @ s) = split_from q cur (n + k) s"
  by (induction k arbitrary: n) simp_all

lemma split_from_literal:
  "0 < n \<Longrightarrow> \<not> starts_in {backslash, quote} s \<Longrightarrow>
   split_from q cur n s = split_from q (Some (begun cur @ replicate n backslash)) 0 s"
  by (cases s) (auto simp: starts_in_def begun_def)

lemma split_args_rules: "argv_rules split_args"
  unfolding argv_rules_def split_args_def
  by (auto simp: split_from_slashes split_from_literal begun_def)

text \<open>The rules one by one.\<close>

lemma argv_rulesD:
  assumes "argv_rules f"
  shows "f q None [] = []" "f q (Some a) [] = [a]"
    "f False (Some a) (CHR '' '' # s) = a # f False None s"
    "\<not> (q \<and> starts_in {quote} s) \<Longrightarrow>
       f q cur (replicate (n * 2) backslash @ quote # s) = f (\<not> q) (Some (begun cur @ replicate n backslash)) s"
    "f q cur (replicate (n * 2 + 1) backslash @ quote # s) = f q (Some (begun cur @ replicate n backslash @ [quote])) s"
    "0 < n \<Longrightarrow> \<not> starts_in {backslash, quote} s \<Longrightarrow>
       f q cur (replicate n backslash @ s) = f q (Some (begun cur @ replicate n backslash)) s"
    "c \<notin> {backslash, quote, CHR 0x00} \<Longrightarrow> q \<or> c \<notin> {CHR '' '', CHR 0x09} \<Longrightarrow>
       f q cur (c # s) = f q (Some (begun cur @ [c])) s"
proof -
  note r = assms [unfolded argv_rules_def]
  note r1 = conjunct2 [OF r] note r2 = conjunct2 [OF r1] note r3 = conjunct2 [OF r2] note r4 = conjunct2 [OF r3]
  note r5 = conjunct2 [OF r4] note r6 = conjunct2 [OF r5]
  show "f q None [] = []" using conjunct1 [OF r] by (rule spec)
  show "f q (Some a) [] = [a]" using conjunct1 [OF r1] by simp
  show "f False (Some a) (CHR '' '' # s) = a # f False None s" using conjunct1 [OF r3] by simp
  show "\<not> (q \<and> starts_in {quote} s) \<Longrightarrow>
       f q cur (replicate (n * 2) backslash @ quote # s) = f (\<not> q) (Some (begun cur @ replicate n backslash)) s"
    using conjunct1 [OF r4] by simp
  show "f q cur (replicate (n * 2 + 1) backslash @ quote # s) = f q (Some (begun cur @ replicate n backslash @ [quote])) s"
    using conjunct1 [OF r5] by simp
  show "0 < n \<Longrightarrow> \<not> starts_in {backslash, quote} s \<Longrightarrow>
       f q cur (replicate n backslash @ s) = f q (Some (begun cur @ replicate n backslash)) s"
    using conjunct1 [OF r6] by simp
  show "c \<notin> {backslash, quote, CHR 0x00} \<Longrightarrow> q \<or> c \<notin> {CHR '' '', CHR 0x09} \<Longrightarrow>
       f q cur (c # s) = f q (Some (begun cur @ [c])) s"
    using conjunct2 [OF r6] by metis
qed

lemma begun_Some [simp]: "begun (Some a) = a" "begun None = []"
  by (simp_all add: begun_def)

lemma split_char:
  assumes "argv_rules f" "c \<notin> {backslash, quote, CHR 0x00}" "q \<or> c \<notin> {CHR '' '', CHR 0x09}"
  shows "f q cur (replicate n backslash @ c # s) = f q (Some (begun cur @ replicate n backslash @ [c])) s"
proof (cases "n = 0")
  case True
  then show ?thesis using argv_rulesD(7) [OF assms] by simp
next
  case False
  have "f q cur (replicate n backslash @ c # s) = f q (Some (begun cur @ replicate n backslash)) (c # s)"
    using argv_rulesD(6) [OF assms(1), of n "c # s" q cur] False assms(2) by (simp add: starts_in_def)
  then show ?thesis using argv_rulesD(7) [OF assms, of "Some (begun cur @ replicate n backslash)" s] by simp
qed

lemma split_quoted:
  assumes "argv_rules f" "\<not> starts_in {quote} t"
  shows "CHR 0x00 \<notin> set s \<Longrightarrow> f True (Some a) (quote_loop n s @ t) = f False (Some (a @ replicate n backslash @ s)) t"
proof (induction s arbitrary: a n)
  case Nil
  show ?case using argv_rulesD(4) [OF assms(1), of True t "Some a" n] assms(2) by simp
next
  case (Cons c s)
  consider "c = backslash" | "c = quote" | "c \<noteq> backslash" "c \<noteq> quote" by blast
  then show ?case
  proof cases
    case 1
    have "replicate (Suc n) backslash @ s = replicate n backslash @ backslash # s"
      by (simp flip: replicate_append_same)
    then show ?thesis using Cons.IH [of a "n + 1"] Cons.prems 1 by simp
  next
    case 2
    show ?thesis
      using argv_rulesD(5) [OF assms(1), of True "Some a" n "quote_loop 0 s @ t"]
        Cons.IH [of "a @ replicate n backslash @ [quote]" 0] Cons.prems 2 by simp
  next
    case 3
    show ?thesis
      using split_char [OF assms(1), of c True "Some a" n "quote_loop 0 s @ t"]
        Cons.IH [of "a @ replicate n backslash @ [c]" 0] Cons.prems 3 by auto
  qed
qed

text \<open>An argument written as it is: maximal runs of backslashes, then a character.\<close>

lemma split_plain:
  assumes "argv_rules f" "\<not> starts_in {backslash, quote} t"
  shows "s \<noteq> [] \<Longrightarrow> \<not> list_ex needs_quotes s \<Longrightarrow> CHR 0x00 \<notin> set s \<Longrightarrow>
         f False cur (s @ t) = f False (Some (begun cur @ s)) t"
proof (induction s arbitrary: cur rule: length_induct)
  case (1 s)
  define k where "k = length (takeWhile (\<lambda>c. c = backslash) s)"
  define r where "r = dropWhile (\<lambda>c. c = backslash) s"
  have run: "takeWhile (\<lambda>c. c = backslash) s = replicate k backslash"
    unfolding k_def by (rule replicate_eqI [symmetric, THEN sym]) (auto dest: set_takeWhileD)
  have s: "s = replicate k backslash @ r" using takeWhile_dropWhile_id [of "\<lambda>c. c = backslash" s] run r_def by simp
  show ?case
  proof (cases r)
    case Nil
    then have "0 < k" "s = replicate k backslash" using "1.prems"(1) s by (cases k; simp)+
    then show ?thesis using argv_rulesD(6) [OF assms(1), of k t False cur] assms(2) by simp
  next
    case (Cons c r')
    have "c \<noteq> backslash" using Cons r_def by (metis (full_types) dropWhile_eq_Cons_conv)
    moreover have "\<not> needs_quotes c" "c \<noteq> CHR 0x00" using "1.prems"(2,3) s Cons by auto
    ultimately have c: "c \<notin> {backslash, quote, CHR 0x00}" "False \<or> c \<notin> {CHR '' '', CHR 0x09}"
      by (auto simp: needs_quotes_def)
    have step: "f False cur (s @ t) = f False (Some (begun cur @ replicate k backslash @ [c])) (r' @ t)"
      using split_char [OF assms(1) c, of cur k "r' @ t"] s Cons by simp
    show ?thesis
    proof (cases "r' = []")
      case True
      then show ?thesis using step s Cons by simp
    next
      case False
      have "length r' < length s" "\<not> list_ex needs_quotes r'" "CHR 0x00 \<notin> set r'" using "1.prems"(2,3) s Cons by auto
      then show ?thesis using "1.IH" False step s Cons by simp
    qed
  qed
qed

lemma split_arg:
  assumes "argv_rules f" "\<not> starts_in {backslash, quote} t" "CHR 0x00 \<notin> set s"
  shows "f False None (quoteWindowsArg s @ t) = f False (Some s) t"
proof (cases "s \<noteq> [] \<and> \<not> list_ex needs_quotes s")
  case True
  then show ?thesis using split_plain [OF assms(1,2), of s None] assms(3) by (simp add: quoteWindowsArg_def)
next
  case False
  have t: "\<not> starts_in {quote} t" using assms(2) by (auto simp: starts_in_def split: list.splits)
  have "f False None (quote # (quote_loop 0 s @ t)) = f True (Some []) (quote_loop 0 s @ t)"
    using argv_rulesD(4) [OF assms(1), of False "quote_loop 0 s @ t" None 0] by simp
  also have "\<dots> = f False (Some s) t" using split_quoted [OF assms(1) t assms(3), of "[]" 0] by simp
  finally show ?thesis using False by (auto simp: quoteWindowsArg_def)
qed

text \<open>
  C27. The child process gets the arguments it was meant to get: every splitter that follows the
  documented rules splits the command line built from a list of arguments (without NUL
  characters, which end a command line) into exactly this list, with spaces, quotes, runs of
  backslashes and empty arguments.
\<close>

theorem command_line_round_trip:
  assumes "argv_rules f" "\<forall>a \<in> set args. CHR 0x00 \<notin> set a"
  shows "f False None (buildWindowsCommandLine args) = args"
proof -
  have "f False None (join_space (map quoteWindowsArg args)) = args" if "\<forall>a \<in> set args. CHR 0x00 \<notin> set a" for args
    using that
  proof (induction args rule: join_space.induct)
    case 1
    show ?case using argv_rulesD(1) [OF assms(1)] by simp
  next
    case (2 a)
    show ?case using split_arg [OF assms(1), of "[]" a] argv_rulesD(2) [OF assms(1)] 2 by (simp add: starts_in_def)
  next
    case (3 a b r)
    let ?t = "CHR '' '' # join_space (quoteWindowsArg b # map quoteWindowsArg r)"
    have "f False None (quoteWindowsArg a @ ?t) = f False (Some a) ?t"
      using split_arg [OF assms(1), of ?t a] 3 by (simp add: starts_in_def)
    then show ?case using argv_rulesD(3) [OF assms(1)] 3 by simp
  qed
  then show ?thesis using assms(2) by (simp add: buildWindowsCommandLine_def)
qed

theorem command_line_round_trip_witness:
  "argv_rules split_args \<and>
   buildWindowsCommandLine [''--root'', [CHR ''C'', CHR 0x3A, CHR 0x5C, CHR ''W'', CHR '' '', CHR ''D'', CHR 0x5C], []] =
     ''--root '' @ [CHR 0x22, CHR ''C'', CHR 0x3A, CHR 0x5C, CHR ''W'', CHR '' '', CHR ''D'', CHR 0x5C, CHR 0x5C, CHR 0x22,
       CHR '' '', CHR 0x22, CHR 0x22] \<and>
   split_args False None (buildWindowsCommandLine [''--root'', [CHR ''C'', CHR 0x3A, CHR 0x5C, CHR ''W'', CHR '' '', CHR ''D'', CHR 0x5C], []]) =
     [''--root'', [CHR ''C'', CHR 0x3A, CHR 0x5C, CHR ''W'', CHR '' '', CHR ''D'', CHR 0x5C], []]"
  using command_line_round_trip [OF split_args_rules,
      of "[''--root'', [CHR ''C'', CHR 0x3A, CHR 0x5C, CHR ''W'', CHR '' '', CHR ''D'', CHR 0x5C], []]"] split_args_rules
  by (simp add: buildWindowsCommandLine_def quoteWindowsArg_def needs_quotes_def quote_def backslash_def numeral_2_eq_2)

end
