(* ===== verification/Sandbox.thy ===== *)
theory Sandbox
  imports Gostrings
begin

text \<open>
  The guard around file and process tools, \<^verbatim>\<open>internal/agent/sandbox.go\<close>, on a system whose path
  separator is the slash, with the functions of \<^verbatim>\<open>path/filepath\<close> it calls.

  The file system is the parameter \<open>ev\<close> (\<^verbatim>\<open>filepath.EvalSymlinks\<close>, \<open>None\<close> when it fails), the
  working directory the parameter \<open>cwd\<close>. The names of executables are compared per platform:
  \<open>windows\<close> tells which, \<open>lower\<close> is \<^verbatim>\<open>strings.ToLower\<close>, \<open>vol\<close> the length of a volume name.
\<close>

section \<open>Paths\<close>

fun join_slash :: "string list \<Rightarrow> string" where
  "join_slash [] = []"
| "join_slash [a] = a"
| "join_slash (a # b # r) = a @ CHR 0x2F # join_slash (b # r)"

text \<open>\<open>filepath.Clean\<close>: the elements are processed left to right onto a stack.\<close>

fun clean_elems :: "bool \<Rightarrow> string list \<Rightarrow> string list \<Rightarrow> string list" where
  "clean_elems rooted st [] = rev st"
| "clean_elems rooted st (e # es) =
     (if e = [] \<or> e = ''.'' then clean_elems rooted st es
      else if e = ''..''
      then (case st of
              [] \<Rightarrow> clean_elems rooted (if rooted then [] else [''..'']) es
            | t # ts \<Rightarrow> clean_elems rooted (if t = ''..'' then ''..'' # st else ts) es)
      else clean_elems rooted (e # st) es)"

definition IsAbs :: "string \<Rightarrow> bool" where
  "IsAbs p = HasPrefix p [CHR 0x2F]"

definition Clean :: "string \<Rightarrow> string" where
  "Clean p =
     (let es = clean_elems (IsAbs p) [] (split_on (CHR 0x2F) p)
      in if IsAbs p then CHR 0x2F # join_slash es else if es = [] then ''.'' else join_slash es)"

definition path_Join :: "string \<Rightarrow> string \<Rightarrow> string" where
  "path_Join a b =
     (if a = [] \<and> b = [] then [] else Clean (if a = [] then b else if b = [] then a else a @ CHR 0x2F # b))"

definition path_Abs :: "string option \<Rightarrow> string \<Rightarrow> string option" where
  "path_Abs cwd p = (if IsAbs p then Some (Clean p) else map_option (\<lambda>w. path_Join w p) cwd)"

text \<open>\<open>filepath.Base\<close>, for a set of separators and a volume name; \<open>filepath.Dir\<close>.\<close>

definition path_Base :: "(char \<Rightarrow> bool) \<Rightarrow> (string \<Rightarrow> nat) \<Rightarrow> string \<Rightarrow> string" where
  "path_Base sep vol p =
     (if p = [] then ''.''
      else let q = drop (vol p) (rev (dropWhile sep (rev p)));
               b = rev (takeWhile (\<lambda>c. \<not> sep c) (rev q))
           in if b = [] then [CHR 0x2F] else b)"

definition path_Dir :: "string \<Rightarrow> string" where
  "path_Dir p = Clean (rev (dropWhile (\<lambda>c. c \<noteq> CHR 0x2F) (rev p)))"

text \<open>The elements of a path, and \<open>filepath.Rel\<close> on them.\<close>

definition elems :: "string \<Rightarrow> string list" where
  "elems p = filter (\<lambda>e. e \<noteq> [] \<and> e \<noteq> ''.'') (split_on (CHR 0x2F) p)"

fun strip_common :: "string list \<Rightarrow> string list \<Rightarrow> string list \<times> string list" where
  "strip_common (a # as) (b # bs) = (if a = b then strip_common as bs else (a # as, b # bs))"
| "strip_common as bs = (as, bs)"

definition path_Rel :: "string \<Rightarrow> string \<Rightarrow> string option" where
  "path_Rel basepath targpath =
     (let base = Clean basepath; targ = Clean targpath
      in if targ = base then Some ''.''
         else if IsAbs base \<noteq> IsAbs targ then None
         else let (b, t) = strip_common (elems base) (elems targ)
              in if b \<noteq> [] \<and> hd b = ''..'' then None
                 else Some (join_slash (replicate (length b) ''..'' @ t)))"

section \<open>The sandbox\<close>

record SandboxConfig =
  sc_Root :: string
  AllowExec :: "string list"
  DenyExec :: "string list"
  UnsafeExec :: bool

record Sandbox =
  sb_cfg :: SandboxConfig
  sb_root :: string
  restricted :: bool

definition NewSandbox :: "(string \<Rightarrow> string option) \<Rightarrow> string option \<Rightarrow> SandboxConfig \<Rightarrow> Sandbox" where
  "NewSandbox ev cwd cfg =
     (if sc_Root cfg \<noteq> []
      then \<lparr>sb_cfg = cfg,
            sb_root = (case path_Abs cwd (sc_Root cfg) of
                         None \<Rightarrow> []
                       | Some ab \<Rightarrow> (case ev ab of Some e \<Rightarrow> e | None \<Rightarrow> ab)),
            restricted = True\<rparr>
      else \<lparr>sb_cfg = cfg, sb_root = [], restricted = False\<rparr>)"

datatype sandbox_error =
    RootUnresolved | OutsideRoot string | NoWorkingDir
  | ExecEmpty | InDenyList string | NotInAllowList string

definition unix_Base :: "string \<Rightarrow> string" where
  "unix_Base p = path_Base (\<lambda>c. c = CHR 0x2F) (\<lambda>_. 0) p"

text \<open>The location the check is about: the real path, or the real parent and the last element.\<close>

definition resolve_target :: "(string \<Rightarrow> string option) \<Rightarrow> string \<Rightarrow> string" where
  "resolve_target ev cleaned =
     (case ev cleaned of
        Some e \<Rightarrow> e
      | None \<Rightarrow>
          (case ev (path_Dir cleaned) of
             Some par \<Rightarrow> path_Join par (unix_Base cleaned)
           | None \<Rightarrow> cleaned))"

definition ResolvePath ::
  "(string \<Rightarrow> string option) \<Rightarrow> string option \<Rightarrow> Sandbox \<Rightarrow> string \<Rightarrow> sandbox_error + string" where
  "ResolvePath ev cwd s p =
     (if \<not> restricted s
      then (case path_Abs cwd p of None \<Rightarrow> Inl NoWorkingDir | Some ab \<Rightarrow> Inr ab)
      else if sb_root s = [] then Inl RootUnresolved
      else case path_Abs cwd p of
             None \<Rightarrow> Inl NoWorkingDir
           | Some ab \<Rightarrow>
               let resolved = resolve_target ev (Clean ab)
               in case path_Rel (sb_root s) resolved of
                    None \<Rightarrow> Inl (OutsideRoot p)
                  | Some rel \<Rightarrow> if rel = ''..'' \<or> HasPrefix rel (''..'' @ [CHR 0x2F]) then Inl (OutsideRoot p)
                                else Inr resolved)"

definition path_Ext :: "string \<Rightarrow> string" where
  "path_Ext p =
     (let q = takeWhile (\<lambda>c. c \<noteq> CHR ''.'' \<and> c \<noteq> CHR 0x2F) (rev p)
      in if drop (length q) (rev p) \<noteq> [] \<and> hd (drop (length q) (rev p)) = CHR ''.'' then CHR ''.'' # rev q else [])"

definition execName :: "bool \<Rightarrow> (string \<Rightarrow> string) \<Rightarrow> (string \<Rightarrow> nat) \<Rightarrow> string \<Rightarrow> string" where
  "execName windows lower vol s =
     (if \<not> windows then unix_Base s
      else let name = lower (path_Base (\<lambda>c. c = CHR 0x2F \<or> c = CHR 0x5C) vol s);
               ext = path_Ext name
           in if ext \<in> {''.exe'', ''.bat'', ''.cmd'', ''.com''} then TrimSuffix name ext else name)"

definition CheckExec ::
  "bool \<Rightarrow> (string \<Rightarrow> string) \<Rightarrow> (string \<Rightarrow> nat) \<Rightarrow> Sandbox \<Rightarrow> string list \<Rightarrow> sandbox_error option" where
  "CheckExec windows lower vol s argv =
     (if UnsafeExec (sb_cfg s) then None
      else case argv of
             [] \<Rightarrow> Some ExecEmpty
           | a # _ \<Rightarrow>
               let name = execName windows lower vol a
               in if list_ex (\<lambda>d. execName windows lower vol d = name) (DenyExec (sb_cfg s)) then Some (InDenyList name)
                  else if AllowExec (sb_cfg s) \<noteq> []
                  then (if list_ex (\<lambda>d. execName windows lower vol d = name) (AllowExec (sb_cfg s)) then None
                        else Some (NotInAllowList name))
                  else None)"

end
