(* ===== verification/Sandbox_Props.thy ===== *)
theory Sandbox_Props
  imports Sandbox
begin

text \<open>
  With a root configured, a path the guard lets through lies below the root, and every path below
  the root is let through.
\<close>

section \<open>Clean absolute paths\<close>

definition slash :: char where "slash = CHR 0x2F"

lemmas slash_fold = slash_def [symmetric]

definition plain_elem :: "string \<Rightarrow> bool" where
  "plain_elem e \<longleftrightarrow> e \<noteq> [] \<and> e \<noteq> ''.'' \<and> e \<noteq> ''..'' \<and> slash \<notin> set e"

lemma split_on_nonempty [simp]: "split_on d s \<noteq> []"
  by (cases s) simp_all

lemma split_on_no_sep: "e \<in> set (split_on d s) \<Longrightarrow> d \<notin> set e"
proof (induction s arbitrary: e)
  case (Cons c s)
  show ?case
  proof (cases "c = d")
    case False
    have hd: "hd (split_on d s) \<in> set (split_on d s)" by simp
    have "tl (split_on d s) = [] \<or> set (tl (split_on d s)) \<subseteq> set (split_on d s)"
      by (cases "split_on d s") auto
    then show ?thesis using Cons False hd by auto
  qed (use Cons in auto)
qed simp

lemma split_on_append: "d \<notin> set e \<Longrightarrow> split_on d (e @ d # s) = e # split_on d s"
  by (induction e) auto

lemma split_on_single: "d \<notin> set e \<Longrightarrow> split_on d e = [e]"
  by (induction e) auto

lemma split_on_join: "es \<noteq> [] \<Longrightarrow> \<forall>e \<in> set es. slash \<notin> set e \<Longrightarrow> split_on slash (join_slash es) = es"
proof (induction es rule: join_slash.induct)
  case (3 a b r)
  then show ?case by (simp add: slash_fold split_on_append)
qed (simp_all add: split_on_single)

lemma clean_elems_plain:
  "list_all plain_elem st \<Longrightarrow> \<forall>e \<in> set es. slash \<notin> set e \<Longrightarrow> list_all plain_elem (clean_elems True st es)"
proof (induction es arbitrary: st)
  case (Cons e es)
  have sl: "\<forall>e \<in> set es. slash \<notin> set e" "slash \<notin> set e" using Cons.prems(2) by simp_all
  consider "e = [] \<or> e = ''.''" | "e = ''..''" "st = []" | t ts where "e = ''..''" "st = t # ts" | "plain_elem e"
    using sl(2) by (cases st) (auto simp: plain_elem_def)
  then show ?case
  proof cases
    case 1
    then show ?thesis using Cons.IH [OF Cons.prems(1) sl(1)] by auto
  next
    case 2
    then show ?thesis using Cons.IH [of "[]"] sl(1) by simp
  next
    case 3
    then have "list_all plain_elem ts" "t \<noteq> ''..''" using Cons.prems(1) by (simp_all add: plain_elem_def [of t])
    then show ?thesis using Cons.IH [of ts] sl(1) 3 by simp
  next
    case 4
    then have "list_all plain_elem (e # st)" "e \<noteq> []" "e \<noteq> ''.''" "e \<noteq> ''..''" using Cons.prems(1) by (simp_all add: plain_elem_def [of e])
    then show ?thesis using Cons.IH [of "e # st"] sl(1) by simp
  qed
qed simp

lemma clean_elems_id: "list_all plain_elem es \<Longrightarrow> clean_elems True st es = rev st @ es"
  by (induction es arbitrary: st) (auto simp: plain_elem_def)

lemma IsAbs_Cons: "IsAbs p \<longleftrightarrow> (\<exists>s. p = slash # s)"
  by (cases p) (auto simp: IsAbs_def HasPrefix_def slash_def)

definition path_of :: "string list \<Rightarrow> string" where
  "path_of es = slash # join_slash es"

lemma Clean_eq: "IsAbs p \<Longrightarrow> Clean p = path_of (clean_elems True [] (split_on slash p))"
  by (simp add: Clean_def path_of_def slash_def)

lemma elems_path_of: "list_all plain_elem es \<Longrightarrow> elems (path_of es) = es"
proof (cases "es = []")
  case False
  assume a: "list_all plain_elem es"
  then have "split_on slash (join_slash es) = es" using False by (intro split_on_join) (auto simp: list_all_iff plain_elem_def)
  then show ?thesis using a by (auto simp: elems_def path_of_def slash_fold list_all_iff plain_elem_def intro!: filter_True)
qed (simp add: elems_def path_of_def slash_fold)

lemma Clean_path_of: "list_all plain_elem es \<Longrightarrow> Clean (path_of es) = path_of es"
proof -
  assume a: "list_all plain_elem es"
  have "clean_elems True [] (split_on slash (path_of es)) = es"
  proof (cases "es = []")
    case False
    then have "split_on slash (join_slash es) = es" using a by (intro split_on_join) (auto simp: list_all_iff plain_elem_def)
    then show ?thesis using clean_elems_id [OF a, of "[]"] by (simp add: path_of_def)
  qed (simp add: path_of_def)
  moreover have "IsAbs (path_of es)" by (simp add: path_of_def IsAbs_Cons)
  ultimately show ?thesis by (simp add: Clean_eq)
qed

lemma Clean_abs:
  assumes "IsAbs p"
  obtains es where "list_all plain_elem es" "Clean p = path_of es"
proof -
  let ?es = "clean_elems True [] (split_on slash p)"
  have "list_all plain_elem ?es" by (rule clean_elems_plain) (auto dest: split_on_no_sep)
  moreover have "Clean p = path_of ?es" using assms by (rule Clean_eq)
  ultimately show ?thesis using that by blast
qed

definition clean_abs :: "string \<Rightarrow> bool" where
  "clean_abs p \<longleftrightarrow> IsAbs p \<and> Clean p = p"

lemma clean_abs_path_of: "clean_abs p \<longleftrightarrow> (\<exists>es. list_all plain_elem es \<and> p = path_of es)"
  unfolding clean_abs_def by (metis Clean_abs Clean_path_of IsAbs_Cons path_of_def)

lemma clean_abs_elems: "clean_abs p \<Longrightarrow> list_all plain_elem (elems p) \<and> p = path_of (elems p)"
  using clean_abs_path_of elems_path_of by metis

lemma clean_abs_Clean: "IsAbs p \<Longrightarrow> clean_abs (Clean p)"
  using Clean_abs clean_abs_path_of by metis

lemma clean_abs_Join:
  assumes "IsAbs a"
  shows "clean_abs (path_Join a b)"
proof -
  obtain s where "a = slash # s" using assms by (auto simp: IsAbs_Cons)
  then have "a \<noteq> []" "IsAbs (a @ CHR 0x2F # b)" by (simp_all add: IsAbs_Cons)
  then show ?thesis using assms clean_abs_Clean by (simp add: path_Join_def)
qed

section \<open>Relative paths\<close>

lemma strip_common_spec:
  "strip_common as bs = (a, b) \<Longrightarrow>
   (\<exists>c. as = c @ a \<and> bs = c @ b) \<and> (a = [] \<or> b = [] \<or> hd a \<noteq> hd b)"
proof (induction as bs arbitrary: a b rule: strip_common.induct)
  case (1 x xs y ys)
  show ?case
  proof (cases "x = y")
    case True
    then obtain c where "xs = c @ a" "ys = c @ b" "a = [] \<or> b = [] \<or> hd a \<noteq> hd b" using 1 by auto
    then show ?thesis using True by (intro conjI exI [of _ "x # c"]) auto
  qed (use 1 in auto)
qed auto

lemma dotdot_first: "rel = ''..'' \<or> HasPrefix rel (''..'' @ [slash]) \<Longrightarrow> hd (split_on slash rel) = ''..''"
proof -
  assume "rel = ''..'' \<or> HasPrefix rel (''..'' @ [slash])"
  then consider "rel = ''..''" | s where "rel = ''..'' @ slash # s"
    unfolding HasPrefix_def by (metis append.assoc append_Cons append_Nil append_take_drop_id)
  then show ?thesis
  proof cases
    case 1
    then show ?thesis by (simp add: split_on_single slash_def)
  next
    case (2 s)
    have "slash \<notin> set ''..''" by (simp add: slash_def)
    from split_on_append [OF this] 2 show ?thesis by simp
  qed
qed

lemma below_iff:
  assumes r: "clean_abs rt" and t: "clean_abs targ"
  shows "(\<exists>rel. path_Rel rt targ = Some rel \<and> \<not> (rel = ''..'' \<or> HasPrefix rel (''..'' @ [slash]))) \<longleftrightarrow>
         (\<exists>ext. elems targ = elems rt @ ext)"
proof -
  note er = clean_abs_elems [OF r] and et = clean_abs_elems [OF t]
  have cl: "Clean rt = rt" "Clean targ = targ" "IsAbs rt" "IsAbs targ" using r t by (simp_all add: clean_abs_def)
  show ?thesis
  proof (cases "targ = rt")
    case True
    have "\<not> (''.'' = ''..'' \<or> HasPrefix ''.'' (''..'' @ [slash]))" by (simp add: HasPrefix_def)
    moreover have "path_Rel rt targ = Some ''.''" using True cl by (simp add: path_Rel_def)
    ultimately show ?thesis using True by auto
  next
    case False
    obtain b u where s: "strip_common (elems rt) (elems targ) = (b, u)" by (cases "strip_common (elems rt) (elems targ)")
    obtain c where c: "elems rt = c @ b" "elems targ = c @ u" "b = [] \<or> u = [] \<or> hd b \<noteq> hd u"
      using strip_common_spec [OF s] by blast
    have pl: "list_all plain_elem b" "list_all plain_elem u" using er et c by (simp_all add: list_all_append)
    then have "\<not> (b \<noteq> [] \<and> hd b = ''..'')" by (cases b) (auto simp: plain_elem_def)
    then have rel: "path_Rel rt targ = Some (join_slash (replicate (length b) ''..'' @ u))"
      using False cl s by (simp add: path_Rel_def)
    show ?thesis
    proof (cases "b = []")
      case True
      have "u \<noteq> []"
      proof
        assume "u = []"
        then have "elems targ = elems rt" using c True by simp
        then show False using False er et by metis
      qed
      then have "split_on slash (join_slash u) = u" using pl(2)
        by (intro split_on_join) (auto simp: list_all_iff plain_elem_def)
      then have "hd (split_on slash (join_slash u)) \<noteq> ''..''" using pl(2) \<open>u \<noteq> []\<close> by (cases u) (auto simp: plain_elem_def)
      then show ?thesis using rel True c dotdot_first [of "join_slash u"] by auto
    next
      case bs: False
      have "join_slash (replicate (length b) ''..'' @ u) = ''..'' \<or>
          HasPrefix (join_slash (replicate (length b) ''..'' @ u)) (''..'' @ [slash])"
      proof (cases "replicate (length b - 1) ''..'' @ u")
        case Nil
        then show ?thesis using bs by (cases b) auto
      next
        case (Cons x xs)
        then show ?thesis using bs by (cases b) (auto simp: HasPrefix_def slash_def)
      qed
      moreover have "\<nexists>ext. elems targ = elems rt @ ext" using c bs by (cases b) auto
      ultimately show ?thesis using rel by simp
    qed
  qed
qed

section \<open>Properties\<close>

text \<open>What \<^verbatim>\<open>filepath.EvalSymlinks\<close> promises: the result is clean, and absolute for an absolute path.\<close>

definition symlinks_clean :: "(string \<Rightarrow> string option) \<Rightarrow> bool" where
  "symlinks_clean ev \<longleftrightarrow> (\<forall>p q. IsAbs p \<longrightarrow> ev p = Some q \<longrightarrow> clean_abs q)"

lemma path_Abs_clean:
  assumes "\<forall>w. cwd = Some w \<longrightarrow> IsAbs w" "path_Abs cwd p = Some ab"
  shows "clean_abs ab"
proof (cases "IsAbs p")
  case False
  then obtain w where w: "cwd = Some w" "ab = path_Join w p" using assms(2) by (auto simp: path_Abs_def)
  have "IsAbs w" using assms(1) w by simp
  then show ?thesis using w clean_abs_Join by simp
qed (use assms clean_abs_Clean in \<open>auto simp: path_Abs_def\<close>)

lemma resolve_target_clean:
  assumes "symlinks_clean ev" "clean_abs p"
  shows "clean_abs (resolve_target ev p)"
proof -
  have dir: "IsAbs (path_Dir p)"
  proof -
    obtain s where p: "p = slash # s" using assms(2) by (auto simp: clean_abs_def IsAbs_Cons)
    have "dropWhile (\<lambda>c. c \<noteq> slash) (rev s @ [slash]) = dropWhile (\<lambda>c. c \<noteq> slash) (rev s) @ [slash]"
      by (rule dropWhile_append3) simp
    then have "IsAbs (rev (dropWhile (\<lambda>c. c \<noteq> slash) (rev p)))" by (simp add: p IsAbs_Cons)
    then have "clean_abs (path_Dir p)" unfolding path_Dir_def slash_fold by (rule clean_abs_Clean)
    then show ?thesis by (simp add: clean_abs_def)
  qed
  show ?thesis
  proof (cases "ev p")
    case (Some e)
    then show ?thesis using assms by (auto simp: resolve_target_def symlinks_clean_def clean_abs_def)
  next
    case None
    show ?thesis
    proof (cases "ev (path_Dir p)")
      case (Some par)
      then have "clean_abs par" using assms(1) dir by (simp add: symlinks_clean_def)
      then show ?thesis using None Some clean_abs_Join by (simp add: resolve_target_def clean_abs_def [of par])
    qed (use None assms(2) in \<open>simp add: resolve_target_def\<close>)
  qed
qed

lemma NewSandbox_root:
  assumes "symlinks_clean ev" "\<forall>w. cwd = Some w \<longrightarrow> IsAbs w" "sb_root (NewSandbox ev cwd cfg) \<noteq> []"
  shows "clean_abs (sb_root (NewSandbox ev cwd cfg))"
proof -
  obtain ab where ab: "path_Abs cwd (sc_Root cfg) = Some ab"
    "sb_root (NewSandbox ev cwd cfg) = (case ev ab of Some e \<Rightarrow> e | None \<Rightarrow> ab)"
    using assms(3) by (auto simp: NewSandbox_def split: if_splits option.splits)
  have "clean_abs ab" using path_Abs_clean [OF assms(2) ab(1)] .
  then show ?thesis using ab assms(1) by (auto simp: symlinks_clean_def clean_abs_def split: option.splits)
qed

text \<open>
  C20. The guard confines exactly. With a root configured, a path passes if and only if the
  location it leads to (its real path, or the real path of its parent and its last element)
  has the elements of the real root first; the result is that location, so it lies in the
  root, whatever \<open>..\<close>, repeated slashes or symbolic links the path has. Names that only start with
  two dots are not mistaken for a way out. A root that cannot be resolved lets nothing pass.
\<close>

theorem guard_confines_exactly:
  assumes "symlinks_clean ev" "cwd = Some w" "IsAbs w" "sc_Root cfg \<noteq> []"
  shows "((\<exists>q. ResolvePath ev cwd (NewSandbox ev cwd cfg) p = Inr q) \<longleftrightarrow>
         sb_root (NewSandbox ev cwd cfg) \<noteq> [] \<and>
         (\<exists>ab ext. path_Abs cwd p = Some ab \<and>
            elems (resolve_target ev (Clean ab)) = elems (sb_root (NewSandbox ev cwd cfg)) @ ext)) \<and>
         (ResolvePath ev cwd (NewSandbox ev cwd cfg) p = Inr q \<longrightarrow>
         clean_abs q \<and> (\<exists>ext. elems q = elems (sb_root (NewSandbox ev cwd cfg)) @ ext \<and> ''..'' \<notin> set ext))"
proof -
  let ?s = "NewSandbox ev cwd cfg"
  have cw: "\<forall>w. cwd = Some w \<longrightarrow> IsAbs w" using assms by simp
  have re: "restricted ?s" using assms by (simp add: NewSandbox_def)
  have ab: "path_Abs cwd p \<noteq> None" using assms by (simp add: path_Abs_def)
  then obtain ab where ab: "path_Abs cwd p = Some ab" by blast
  have cab: "clean_abs ab" by (rule path_Abs_clean [OF cw ab])
  then have ct: "clean_abs (resolve_target ev (Clean ab))"
    using resolve_target_clean [OF assms(1)] by (simp add: clean_abs_def)
  have main: "ResolvePath ev cwd ?s p = Inr q \<longleftrightarrow>
      sb_root ?s \<noteq> [] \<and> q = resolve_target ev (Clean ab) \<and>
      (\<exists>ext. elems (resolve_target ev (Clean ab)) = elems (sb_root ?s) @ ext)" for q
  proof (cases "sb_root ?s = []")
    case False
    have cr: "clean_abs (sb_root ?s)" by (rule NewSandbox_root [OF assms(1) cw False])
    show ?thesis
      unfolding below_iff [OF cr ct, symmetric]
      using re ab False by (auto simp: ResolvePath_def Let_def slash_def split: option.splits)
  qed (use re in \<open>simp add: ResolvePath_def\<close>)
  have iff: "(\<exists>q. ResolvePath ev cwd ?s p = Inr q) \<longleftrightarrow>
         sb_root ?s \<noteq> [] \<and>
         (\<exists>ab ext. path_Abs cwd p = Some ab \<and> elems (resolve_target ev (Clean ab)) = elems (sb_root ?s) @ ext)"
    unfolding main using ab by auto
  have "clean_abs q \<and> (\<exists>ext. elems q = elems (sb_root ?s) @ ext \<and> ''..'' \<notin> set ext)" if "ResolvePath ev cwd ?s p = Inr q"
  proof -
    from that obtain ext where q: "q = resolve_target ev (Clean ab)" "elems q = elems (sb_root ?s) @ ext" unfolding main by auto
    have "list_all plain_elem (elems q)" using clean_abs_elems [OF ct] q by simp
    then have "''..'' \<notin> set ext" using q(2) by (auto simp: list_all_iff plain_elem_def)
    then show ?thesis using ct q by auto
  qed
  with iff show ?thesis by blast
qed


text \<open>A root \<open>/r\<close> with a link \<open>/r/l\<close> to \<open>/e\<close>: the way through the link is refused, a new file is not.\<close>

definition demo_fs :: "string \<Rightarrow> string option" where
  "demo_fs p = (if p = ''/r/l'' then Some ''/e'' else if p = ''/r'' then Some ''/r'' else None)"

definition demo_cfg :: SandboxConfig where
  "demo_cfg = \<lparr>sc_Root = ''/r'', AllowExec = [], DenyExec = [], UnsafeExec = False\<rparr>"

lemma demo_fs_clean: "symlinks_clean demo_fs"
proof -
  have "clean_abs ''/e''" "clean_abs ''/r''" by (simp_all add: clean_abs_def IsAbs_def HasPrefix_def Clean_def)
  then show ?thesis by (simp add: symlinks_clean_def demo_fs_def)
qed

theorem guard_confines_exactly_witness:
  "symlinks_clean demo_fs \<and> IsAbs ''/w'' \<and> sc_Root demo_cfg \<noteq> [] \<and>
   ResolvePath demo_fs (Some ''/w'') (NewSandbox demo_fs (Some ''/w'') demo_cfg) ''/r/x/../..n'' = Inr ''/r/..n'' \<and>
   (\<exists>ext. elems ''/r/..n'' = elems (sb_root (NewSandbox demo_fs (Some ''/w'') demo_cfg)) @ ext \<and> ''..'' \<notin> set ext) \<and>
   ResolvePath demo_fs (Some ''/w'') (NewSandbox demo_fs (Some ''/w'') demo_cfg) ''/r/l'' = Inl (OutsideRoot ''/r/l'')"
proof -
  have w: "IsAbs ''/w''" "sc_Root demo_cfg \<noteq> []" by (simp_all add: IsAbs_def HasPrefix_def demo_cfg_def)
  have r: "ResolvePath demo_fs (Some ''/w'') (NewSandbox demo_fs (Some ''/w'') demo_cfg) ''/r/x/../..n'' = Inr ''/r/..n''"
    by code_simp
  have n: "ResolvePath demo_fs (Some ''/w'') (NewSandbox demo_fs (Some ''/w'') demo_cfg) ''/r/l'' = Inl (OutsideRoot ''/r/l'')"
    by code_simp
  from guard_confines_exactly [OF demo_fs_clean refl w(1) w(2), of "''/r/x/../..n''" "''/r/..n''"] r
  have "\<exists>ext. elems ''/r/..n'' = elems (sb_root (NewSandbox demo_fs (Some ''/w'') demo_cfg)) @ ext \<and> ''..'' \<notin> set ext"
    by blast
  then show ?thesis using demo_fs_clean w r n by blast
qed

end
