(* ===== verification/Agent.thy ===== *)
theory Agent
  imports Proto Replay Gostrings
begin

text \<open>
  The daemon of the share side, \<^verbatim>\<open>internal/agent/agent.go\<close>: the registry of tools, admission of
  tool requests (authentication, replay guard, deadlines), streaming, responses, cancellation
  and the change of session and connection.

  A goroutine of \<open>handleReq\<close> is cut where it gives up the daemon's state: \<open>openReq\<close> takes the
  snapshot of the session and opens the arguments, \<open>admitReq\<close> asks the replay guard, \<open>startReq\<close>
  registers the call, the sink sends stream frames while the tool runs, \<open>finishReq\<close> answers.
  Frames sent are results, with the connection they go to. What a tool returns, the JSON decoders,
  the cipher and its randomness are arguments; texts that need a formatter are in \<open>texts\<close>.
  Activity lines and logging are left out.
\<close>

section \<open>Dispatch\<close>

record texts =
  tx_quote :: "string \<Rightarrow> string"            \<comment> \<open>the verb %q\<close>
  tx_aead :: "aead_error \<Rightarrow> string"
  tx_duration :: "int \<Rightarrow> string"            \<comment> \<open>time.Duration.String\<close>

definition classifyError :: "string \<Rightarrow> string \<times> string" where
  "classifyError s =
     (if contains_sub s ''path_outside_root'' then (''path_outside_root'', s)
      else if contains_sub s ''exec_denied'' then (''exec_denied'', s)
      else if contains_sub s ''deadline_exceeded'' \<or> contains_sub s ''context deadline exceeded'' then (''deadline_exceeded'', s)
      else if contains_sub s ''permission denied'' then (''permission_denied'', s)
      else if contains_sub s ''no such file'' \<or> contains_sub s ''file does not exist'' then (''file_not_found'', s)
      else (''internal_error'', s))"

definition errResp :: "64 word \<Rightarrow> string \<Rightarrow> string \<Rightarrow> ToolResp" where
  "errResp i code msg = \<lparr>resp_ID = i, resp_OK = False, resp_ResultJSON = [], resp_ErrorCode = code, resp_ErrorMsg = msg\<rparr>"

definition okResp :: "64 word \<Rightarrow> bytes \<Rightarrow> ToolResp" where
  "okResp i out = \<lparr>resp_ID = i, resp_OK = True, resp_ResultJSON = out, resp_ErrorCode = [], resp_ErrorMsg = []\<rparr>"

text \<open>The registry as the set of its names; \<open>res\<close> is what the tool returns on this call.\<close>

type_synonym Registry = "(string, unit) gomap"

definition NewRegistry :: Registry where "NewRegistry = mempty"

definition Register :: "string \<Rightarrow> Registry \<Rightarrow> Registry" where
  "Register name r = mput name () r"

definition Dispatch :: "texts \<Rightarrow> Registry \<Rightarrow> ToolReq \<Rightarrow> string + bytes \<Rightarrow> ToolResp" where
  "Dispatch tx r req res =
     (if mget r (req_Tool req) = None
      then errResp (req_ID req) ''unknown_tool'' (''tool '' @ tx_quote tx (req_Tool req) @ '' not registered'')
      else case res of
             Inl err \<Rightarrow> (let (code, msg) = classifyError err in errResp (req_ID req) code msg)
           | Inr out \<Rightarrow> okResp (req_ID req) out)"

definition defaultToolTimeout :: "string \<Rightarrow> int" where
  "defaultToolTimeout tool =
     (if tool \<in> {''stat'', ''list_dir'', ''process_list'', ''tail_log'', ''glob''} then 30 * second else 5 * minute)"

section \<open>The daemon\<close>

datatype tool_frame = FReq ToolReq | FResp ToolResp | FStream StreamChunk | FCancel Cancel

text \<open>A context's cancel function is the number of its call; the channel of messages holds 64.\<close>

record Daemon =
  d_reg :: Registry
  d_conn :: string
  d_sess :: Session
  d_inbound :: "Message list"
  d_cancels :: "(64 word, nat) gomap"
  d_replay :: replayGuard

definition zero_guard :: replayGuard where
  "zero_guard = \<lparr>started = False, highest = 0, bits = replicate replayWindowWords 0\<rparr>"

definition NewDaemon :: "Registry \<Rightarrow> string \<Rightarrow> Session \<Rightarrow> Daemon" where
  "NewDaemon r conn sess =
     \<lparr>d_reg = r, d_conn = conn, d_sess = sess, d_inbound = [], d_cancels = mempty, d_replay = zero_guard\<rparr>"

text \<open>
  \<open>RotateSession\<close> in its two critical sections: the session is replaced under the lock; then, if
  it has changed, the guard is reset and the calls in flight (the second result) are cancelled.
\<close>

definition setSession :: "Session \<Rightarrow> Daemon \<Rightarrow> Daemon \<times> bool" where
  "setSession sess d = (d\<lparr>d_sess := sess\<rparr>, d_sess d = sess)"

definition resetReplay :: "Daemon \<Rightarrow> Daemon \<times> nat list" where
  "resetReplay d = (d\<lparr>d_replay := replayGuard_reset (d_replay d)\<rparr>, map snd (DAList.impl_of (d_cancels d)))"

definition RotateSession :: "Session \<Rightarrow> Daemon \<Rightarrow> Daemon \<times> nat list" where
  "RotateSession sess d =
     (let (d1, same) = setSession sess d in if same then (d1, []) else resetReplay d1)"

definition Daemon_SwapConn :: "string \<Rightarrow> Session \<Rightarrow> Daemon \<Rightarrow> Daemon \<times> nat list" where
  "Daemon_SwapConn conn sess d = RotateSession sess (d\<lparr>d_conn := conn\<rparr>)"

definition d_sendMsg :: "Daemon \<Rightarrow> tool_frame \<Rightarrow> string \<times> tool_frame" where
  "d_sendMsg d f = (d_conn d, f)"

definition empty_object :: bytes where "empty_object = bytes_of_string ''{}''"

text \<open>The response as \<open>sendResp\<close> puts it on the wire.\<close>

definition sealResp :: "cipher \<Rightarrow> armor \<Rightarrow> bytes option \<Rightarrow> Session \<Rightarrow> ToolResp \<Rightarrow> ToolResp" where
  "sealResp c m rnd sess resp =
     (if Active sess
      then if resp_ResultJSON resp = [] \<and> \<not> RequireSealedResp sess then resp
           else let plain = (if resp_ResultJSON resp = [] then empty_object else resp_ResultJSON resp)
                in case AEADSealJSON c m rnd (Key sess) plain
                          (RespAAD sess (resp_ID resp) (resp_OK resp) (resp_ErrorCode resp) (resp_ErrorMsg resp)) of
                     Inl _ \<Rightarrow> resp\<lparr>resp_ResultJSON := []\<rparr>
                   | Inr w \<Rightarrow> resp\<lparr>resp_ResultJSON := w\<rparr>
      else resp)"

definition sendResp :: "cipher \<Rightarrow> armor \<Rightarrow> bytes option \<Rightarrow> Session \<Rightarrow> ToolResp \<Rightarrow> Daemon \<Rightarrow> string \<times> tool_frame" where
  "sendResp c m rnd sess resp d = d_sendMsg d (FResp (sealResp c m rnd sess resp))"

definition Inject ::
  "cipher \<Rightarrow> armor \<Rightarrow> (bytes \<Rightarrow> ToolReq option) \<Rightarrow> bytes option \<Rightarrow> Message \<Rightarrow> Daemon \<Rightarrow> Daemon \<times> (string \<times> tool_frame) list" where
  "Inject c m dec rnd msg d =
     (if length (d_inbound d) < 64 then (d\<lparr>d_inbound := d_inbound d @ [msg]\<rparr>, [])
      else if msg_Type msg = MsgToolReq
      then (case dec (msg_Payload msg) of
              None \<Rightarrow> (d, [])
            | Some req \<Rightarrow> (d, [sendResp c m rnd (d_sess d) (errResp (req_ID req) ''server_busy'' ''daemon inbound full'') d]))
      else (d, []))"

text \<open>One round of \<open>RunLoop\<close>: a request to handle, or a call to cancel.\<close>

datatype loop_action = LNone | LHandle Message | LCancel nat

definition runLoopStep :: "(bytes \<Rightarrow> Cancel option) \<Rightarrow> Daemon \<Rightarrow> Daemon \<times> loop_action" where
  "runLoopStep dec d =
     (case d_inbound d of
        [] \<Rightarrow> (d, LNone)
      | msg # rest \<Rightarrow>
          let d1 = d\<lparr>d_inbound := rest\<rparr>
          in if msg_Type msg = MsgToolReq then (d1, LHandle msg)
             else if msg_Type msg = MsgToolCancel
             then (case dec (msg_Payload msg) of
                     None \<Rightarrow> (d1, LNone)
                   | Some cn \<Rightarrow> (case mget (d_cancels d1) (can_ID cn) of None \<Rightarrow> (d1, LNone) | Some n \<Rightarrow> (d1, LCancel n)))
             else (d1, LNone))"

section \<open>Requests\<close>

definition isBlankArgs :: "bytes \<Rightarrow> bool" where
  "isBlankArgs raw = (let s = strings_TrimSpace (string_of_bytes raw) in s = [] \<or> s = ''null'')"

datatype opened = NotDecoded | Refused Session ToolResp | Opened Session ToolReq

definition openReq ::
  "cipher \<Rightarrow> armor \<Rightarrow> texts \<Rightarrow> (bytes \<Rightarrow> ToolReq option) \<Rightarrow> Message \<Rightarrow> Daemon \<Rightarrow> opened" where
  "openReq c m tx dec msg d =
     (case dec (msg_Payload msg) of
        None \<Rightarrow> NotDecoded
      | Some req \<Rightarrow>
          let sess = d_sess d
          in if Active sess
             then if isBlankArgs (req_ArgsJSON req)
                  then Refused sess (errResp (req_ID req) ''unauthenticated'' ''args must be AEAD-sealed after handshake'')
                  else case AEADOpenJSON c m (Key sess) (req_ArgsJSON req)
                              (ReqAAD sess (req_ID req) (req_Tool req) (req_DeadlineMs req)) of
                         Inl e \<Rightarrow> Refused sess (errResp (req_ID req) ''decrypt_failed'' (tx_aead tx e))
                       | Inr plain \<Rightarrow> Opened sess (req\<lparr>req_ArgsJSON := plain\<rparr>)
             else Opened sess req)"

text \<open>The replay guard: \<open>None\<close> where it does not return.\<close>

definition admitReq :: "Session \<Rightarrow> ToolReq \<Rightarrow> Daemon \<Rightarrow> (Daemon \<times> bool) option" where
  "admitReq sess req d =
     (if Active sess \<and> AntiReplay sess
      then (case accept (req_ID req) (d_replay d) of
              None \<Rightarrow> None
            | Some (g, ok) \<Rightarrow> Some (d\<lparr>d_replay := g\<rparr>, ok))
      else Some (d, True))"

definition replayedResp :: "ToolReq \<Rightarrow> ToolResp" where
  "replayedResp req = errResp (req_ID req) ''replayed'' ''duplicate or out-of-window request id''"

definition reqTimeout :: "ToolReq \<Rightarrow> int" where
  "reqTimeout req =
     (let t = uint (req_DeadlineMs req) * millisecond in if t \<le> 0 then defaultToolTimeout (req_Tool req) else t)"

record chunkSink =
  sk_id :: "64 word"
  sk_seq :: "32 word"
  sk_active :: bool
  sk_finished :: bool

definition sink_Send ::
  "cipher \<Rightarrow> bytes option \<Rightarrow> string \<Rightarrow> bytes \<Rightarrow> Daemon \<Rightarrow> chunkSink \<Rightarrow> chunkSink \<times> (string \<times> tool_frame) option" where
  "sink_Send c rnd stream data d s =
     (if sk_finished s then (s, None)
      else let s1 = s\<lparr>sk_active := True\<rparr>;
               ch = \<lparr>ch_ID = sk_id s, ch_Seq = sk_seq s, ch_Fin = False, ch_Stream = stream, ch_Data = data\<rparr>;
               sess = d_sess d
           in case (if Active sess
                    then AEADSeal c rnd (Key sess) data (StreamAAD sess (ch_ID ch) (ch_Seq ch) (ch_Stream ch) (ch_Fin ch))
                    else Inr data) of
                Inl _ \<Rightarrow> (s1, None)
              | Inr ct \<Rightarrow> (s1\<lparr>sk_seq := sk_seq s + 1\<rparr>, Some (d_sendMsg d (FStream (ch\<lparr>ch_Data := ct\<rparr>)))))"

definition sink_Finish ::
  "cipher \<Rightarrow> bytes option \<Rightarrow> Daemon \<Rightarrow> chunkSink \<Rightarrow> chunkSink \<times> (string \<times> tool_frame) option" where
  "sink_Finish c rnd d s =
     (if \<not> sk_active s \<or> sk_finished s then (s, None)
      else let s1 = s\<lparr>sk_finished := True\<rparr>;
               ch = \<lparr>ch_ID = sk_id s, ch_Seq = sk_seq s, ch_Fin = True, ch_Stream = [], ch_Data = []\<rparr>;
               sess = d_sess d
           in case (if Active sess
                    then AEADSeal c rnd (Key sess) [] (StreamAAD sess (ch_ID ch) (ch_Seq ch) (ch_Stream ch) (ch_Fin ch))
                    else Inr []) of
                Inl _ \<Rightarrow> (s1, None)
              | Inr ct \<Rightarrow> (s1\<lparr>sk_seq := sk_seq s + 1\<rparr>, Some (d_sendMsg d (FStream (ch\<lparr>ch_Data := ct\<rparr>)))))"

text \<open>A call in flight: its session, request, time limit and sink. \<open>wants\<close> is \<open>requestWantsStream\<close>.\<close>

record call =
  cl_sess :: Session
  cl_req :: ToolReq
  cl_timeout :: int
  cl_sink :: chunkSink

definition startReq :: "(bytes \<Rightarrow> bool) \<Rightarrow> nat \<Rightarrow> Session \<Rightarrow> ToolReq \<Rightarrow> Daemon \<Rightarrow> Daemon \<times> call" where
  "startReq wants n sess req d =
     (d\<lparr>d_cancels := mput (req_ID req) n (d_cancels d)\<rparr>,
      \<lparr>cl_sess = sess, cl_req = req, cl_timeout = reqTimeout req,
       cl_sink = \<lparr>sk_id = req_ID req, sk_seq = 0, sk_active = wants (req_ArgsJSON req), sk_finished = False\<rparr>\<rparr>)"

text \<open>How the wait for the tool ends.\<close>

datatype call_outcome = Returned "string + bytes" | Panicked | TimedOut | Cancelled

definition outcomeResp :: "texts \<Rightarrow> Registry \<Rightarrow> call \<Rightarrow> call_outcome \<Rightarrow> ToolResp" where
  "outcomeResp tx r cl oc =
     (let req = cl_req cl;
          limit = (\<lambda>code. errResp (req_ID req) code
                    (''tool '' @ req_Tool req @ '': '' @ code @ '' (limit '' @ tx_duration tx (cl_timeout cl) @ '')''))
      in case oc of
           Returned res \<Rightarrow> Dispatch tx r req res
         | Panicked \<Rightarrow> errResp (req_ID req) ''remote_panic'' ''tool panic''
         | TimedOut \<Rightarrow> limit ''deadline_exceeded''
         | Cancelled \<Rightarrow> limit ''cancelled'')"

definition finishReq ::
  "cipher \<Rightarrow> armor \<Rightarrow> texts \<Rightarrow> bytes option \<times> bytes option \<Rightarrow> call \<Rightarrow> call_outcome \<Rightarrow> Daemon \<Rightarrow> Daemon \<times> (string \<times> tool_frame) list" where
  "finishReq c m tx rnds cl oc d =
     (let fin = (case snd (sink_Finish c (fst rnds) d (cl_sink cl)) of None \<Rightarrow> [] | Some f \<Rightarrow> [f])
      in (d\<lparr>d_cancels := mdel (req_ID (cl_req cl)) (d_cancels d)\<rparr>,
          fin @ [sendResp c m (snd rnds) (cl_sess cl) (outcomeResp tx (d_reg d) cl oc) d]))"

text \<open>The output of a tool: chunks in the order the sink gets them, each with the randomness of its seal.\<close>

fun sink_run ::
  "cipher \<Rightarrow> (string \<times> bytes \<times> bytes option) list \<Rightarrow> Daemon \<Rightarrow> chunkSink \<Rightarrow> chunkSink \<times> (string \<times> tool_frame) list" where
  "sink_run c [] d s = (s, [])"
| "sink_run c ((stream, data, rnd) # out) d s =
     (let (s1, f) = sink_Send c rnd stream data d s;
          (s2, fs) = sink_run c out d s1
      in (s2, (case f of None \<Rightarrow> [] | Some x \<Rightarrow> [x]) @ fs))"

text \<open>
  The whole handler, with no change of session meanwhile: \<open>out\<close> is what the tool sends to its
  sink, \<open>oc\<close> how the wait ends, \<open>r1\<close> and \<open>r2\<close> the randomness of the last two frames. The second
  result is the request that reached a tool.
\<close>

definition handleReq ::
  "cipher \<Rightarrow> armor \<Rightarrow> texts \<Rightarrow> (bytes \<Rightarrow> ToolReq option) \<Rightarrow> (bytes \<Rightarrow> bool) \<Rightarrow> Message \<Rightarrow> nat \<Rightarrow>
   (string \<times> bytes \<times> bytes option) list \<Rightarrow> call_outcome \<Rightarrow> bytes option \<times> bytes option \<Rightarrow> Daemon \<Rightarrow>
   (Daemon \<times> (Session \<times> ToolReq) option \<times> (string \<times> tool_frame) list) option" where
  "handleReq c m tx dec wants msg n out oc rnds d =
     (case openReq c m tx dec msg d of
        NotDecoded \<Rightarrow> Some (d, None, [])
      | Refused sess resp \<Rightarrow> Some (d, None, [sendResp c m (snd rnds) sess resp d])
      | Opened sess req \<Rightarrow>
          (case admitReq sess req d of
             None \<Rightarrow> None
           | Some (d1, False) \<Rightarrow> Some (d1, None, [sendResp c m (snd rnds) sess (replayedResp req) d1])
           | Some (d1, True) \<Rightarrow>
               let (d2, cl) = startReq wants n sess req d1;
                   (sk, fs) = sink_run c out d2 (cl_sink cl);
                   (d3, gs) = finishReq c m tx rnds (cl\<lparr>cl_sink := sk\<rparr>) oc d2
               in Some (d3, Some (sess, req), fs @ gs)))"

end
