(* ===== verification/Bridge.thy ===== *)
theory Bridge
  imports Agent
begin

text \<open>
  The bridge of the help side, \<^verbatim>\<open>internal/mcp/bridge.go\<close>: calls in flight, their replies, the
  reception of stream frames with its completeness check, disconnection and the change of
  connection.

  A call is cut where others may run: \<open>callAllowed\<close> is its first check, \<open>beginCall\<close> registers it, \<open>sendCall\<close> looks at the closed flag
  again, seals and sends, \<open>endCall\<close> is what the \<open>select\<close> brings. A reply channel holds at most one
  reply. What the callback of a stream gets is a result of \<open>HandleInbound\<close>.
\<close>

section \<open>Time limits\<close>

definition callToolFallbackTimeout :: int where "callToolFallbackTimeout = 10 * minute"
definition callToolQuickFallbackTimeout :: int where "callToolQuickFallbackTimeout = 2 * minute"

definition fallbackTimeoutFor :: "string \<Rightarrow> int" where
  "fallbackTimeoutFor name =
     (if name \<in> {''stat'', ''list_dir'', ''process_list'', ''tail_log''} then callToolQuickFallbackTimeout
      else callToolFallbackTimeout)"

section \<open>Stream reception\<close>

definition maxTrackedGaps :: int where "maxTrackedGaps = 4096"

record streamRecv =
  sr_next :: "32 word"
  sr_missing :: "(32 word, unit) gomap"
  sr_overflow :: int
  sr_damaged :: int
  sr_finished :: bool

definition newStreamRecv :: streamRecv where
  "newStreamRecv = \<lparr>sr_next = 0, sr_missing = mempty, sr_overflow = 0, sr_damaged = 0, sr_finished = False\<rparr>"

function gap_loop :: "32 word \<Rightarrow> 32 word \<Rightarrow> streamRecv \<Rightarrow> streamRecv" where
  "gap_loop h seq s =
     (if h < seq
      then (if mlen (sr_missing s) \<ge> maxTrackedGaps then s\<lparr>sr_overflow := sr_overflow s + uint (seq - h)\<rparr>
            else gap_loop (h + 1) seq (s\<lparr>sr_missing := mput h () (sr_missing s)\<rparr>))
      else s)"
  by pat_completeness auto
termination
proof (relation "measure (\<lambda>(h, seq, s). unat (seq - h))", goal_cases)
  case (2 h seq s)
  have e: "seq - (h + 1) = (seq - h) - 1" by simp
  have "seq - h \<noteq> 0" using 2 by auto
  then have "unat ((seq - h) - 1) = unat (seq - h) - 1" "0 < unat (seq - h)"
    by (simp_all add: unat_minus_one unat_gt_0)
  then have "unat ((seq - h) - 1) < unat (seq - h)" by simp
  then have "unat (seq - (h + 1)) < unat (seq - h)" by (simp only: e)
  then show ?case by simp
qed simp

declare gap_loop.simps [simp del]

definition observe :: "32 word \<Rightarrow> streamRecv \<Rightarrow> streamRecv" where
  "observe seq s =
     (if seq < sr_next s then s\<lparr>sr_missing := mdel seq (sr_missing s)\<rparr>
      else (gap_loop (sr_next s) seq s)\<lparr>sr_next := seq + 1\<rparr>)"

definition markDamaged :: "streamRecv \<Rightarrow> streamRecv" where
  "markDamaged s = s\<lparr>sr_damaged := sr_damaged s + 1\<rparr>"

definition markFinished :: "streamRecv \<Rightarrow> streamRecv" where
  "markFinished s = s\<lparr>sr_finished := True\<rparr>"

definition gapCount :: "streamRecv \<Rightarrow> int" where
  "gapCount s = mlen (sr_missing s) + sr_overflow s + sr_damaged s"

definition recv_status :: "streamRecv \<Rightarrow> int \<times> bool" where
  "recv_status s = (mlen (sr_missing s) + sr_overflow s + sr_damaged s, sr_finished s)"

text \<open>\<open>samples\<close> are the states seen at the start and after every pause of the settling time.\<close>

definition settled :: "bool \<Rightarrow> int \<times> bool \<Rightarrow> bool" where
  "settled requireTerminator st = (fst st = 0 \<and> (snd st \<or> \<not> requireTerminator))"

fun settledStatus :: "bool \<Rightarrow> streamRecv \<Rightarrow> streamRecv list \<Rightarrow> int \<times> bool" where
  "settledStatus requireTerminator s [] = recv_status s"
| "settledStatus requireTerminator s (t # ts) =
     (if settled requireTerminator (recv_status s) then recv_status s else settledStatus requireTerminator t ts)"

definition settledGapCount :: "streamRecv \<Rightarrow> streamRecv list \<Rightarrow> int" where
  "settledGapCount s ts = fst (settledStatus True s ts)"

section \<open>The bridge\<close>

record toolReply =
  tr_resp :: ToolResp
  tr_local :: bool

record Bridge =
  b_conn :: string
  b_sess :: Session
  b_nextID :: "64 word"
  b_pending :: "(64 word, toolReply option) gomap"
  b_streamCbs :: "(64 word, streamRecv) gomap"
  b_closed :: bool

definition newIDEpoch :: "32 word option \<Rightarrow> 64 word" where
  "newIDEpoch rnd = (case rnd of None \<Rightarrow> 0 | Some r \<Rightarrow> push_bit 32 (ucast r))"

definition NewBridge :: "string \<Rightarrow> Session \<Rightarrow> 32 word option \<Rightarrow> Bridge" where
  "NewBridge conn sess rnd =
     \<lparr>b_conn = conn, b_sess = sess, b_nextID = newIDEpoch rnd, b_pending = mempty, b_streamCbs = mempty, b_closed = False\<rparr>"

definition Bridge_SwapConn :: "string \<Rightarrow> Session \<Rightarrow> Bridge \<Rightarrow> Bridge" where
  "Bridge_SwapConn conn sess b = b\<lparr>b_conn := conn, b_sess := sess\<rparr>"

text \<open>A reply is put into its channel, unless that holds one.\<close>

definition putReply :: "64 word \<Rightarrow> toolReply \<Rightarrow> Bridge \<Rightarrow> Bridge" where
  "putReply i r b =
     (case mget (b_pending b) i of
        Some None \<Rightarrow> b\<lparr>b_pending := mput i (Some r) (b_pending b)\<rparr>
      | _ \<Rightarrow> b)"

definition lostReply :: "string \<Rightarrow> toolReply" where
  "lostReply err = \<lparr>tr_resp = errResp 0 ''tunnel_lost'' err, tr_local = True\<rparr>"

definition wakePending :: "string \<Rightarrow> Bridge \<Rightarrow> Bridge" where
  "wakePending err b = fold (\<lambda>i. putReply i (lostReply err)) (mkeys (b_pending b)) b"

definition Disconnect :: "string \<Rightarrow> Bridge \<Rightarrow> Bridge" where
  "Disconnect err b = (if b_closed b then b else wakePending err (b\<lparr>b_closed := True\<rparr>))"

datatype call_error =
    NotConnected | SealError aead_error | SendFailure | TunnelLost | CtxError
  | Remote string string | Unauthenticated | StreamIncomplete int bool

text \<open>The first look at the flag, and the registration, which may come after a disconnection.\<close>

definition callAllowed :: "Bridge \<Rightarrow> call_error option" where
  "callAllowed b = (if b_closed b then Some NotConnected else None)"

definition beginCall :: "bool \<Rightarrow> Bridge \<Rightarrow> Bridge \<times> 64 word" where
  "beginCall streaming b =
     (let i = b_nextID b + 1
      in (b\<lparr>b_nextID := i, b_pending := mput i None (b_pending b),
            b_streamCbs := (if streaming then mput i newStreamRecv (b_streamCbs b) else b_streamCbs b)\<rparr>, i))"

definition dropCall :: "64 word \<Rightarrow> Bridge \<Rightarrow> Bridge" where
  "dropCall i b = b\<lparr>b_pending := mdel i (b_pending b), b_streamCbs := mdel i (b_streamCbs b)\<rparr>"

text \<open>The request as it is sent, with the snapshot of the session; \<open>ok\<close> tells whether the connection takes it.\<close>

definition sealReq :: "cipher \<Rightarrow> armor \<Rightarrow> bytes option \<Rightarrow> Session \<Rightarrow> ToolReq \<Rightarrow> aead_error + ToolReq" where
  "sealReq c m rnd sess req =
     (if Active sess
      then (case AEADSealJSON c m rnd (Key sess) (if req_ArgsJSON req = [] then empty_object else req_ArgsJSON req)
                   (ReqAAD sess (req_ID req) (req_Tool req) (req_DeadlineMs req)) of
              Inl e \<Rightarrow> Inl e
            | Inr w \<Rightarrow> Inr (req\<lparr>req_ArgsJSON := w\<rparr>))
      else Inr req)"

definition sendCall ::
  "cipher \<Rightarrow> armor \<Rightarrow> bytes option \<Rightarrow> bool \<Rightarrow> 64 word \<Rightarrow> string \<Rightarrow> bytes \<Rightarrow> Bridge \<Rightarrow>
   Bridge \<times> (call_error + Session \<times> (string \<times> tool_frame))" where
  "sendCall c m rnd ok i name args b =
     (if b_closed b then (dropCall i b, Inl NotConnected)
      else let req = \<lparr>req_ID = i, req_Tool = name, req_ArgsJSON = args, req_DeadlineMs = 0\<rparr>
           in case sealReq c m rnd (b_sess b) req of
                Inl e \<Rightarrow> (dropCall i b, Inl (SealError e))
              | Inr w \<Rightarrow> if ok then (b, Inr (b_sess b, b_conn b, FReq w)) else (dropCall i b, Inl SendFailure))"

text \<open>What a reply from the wire is worth: first the seal, then the verdict.\<close>

definition openReply :: "cipher \<Rightarrow> armor \<Rightarrow> Session \<Rightarrow> ToolResp \<Rightarrow> call_error + bytes" where
  "openReply c m sess resp =
     (let result = resp_ResultJSON resp
      in if Active sess \<and> result = [] \<and> RequireSealedResp sess then Inl Unauthenticated
         else case (if Active sess \<and> result \<noteq> []
                    then AEADOpenJSON c m (Key sess) result
                           (RespAAD sess (resp_ID resp) (resp_OK resp) (resp_ErrorCode resp) (resp_ErrorMsg resp))
                    else Inr result) of
                Inl _ \<Rightarrow> Inl Unauthenticated
              | Inr plain \<Rightarrow> if \<not> resp_OK resp then Inl (Remote (resp_ErrorCode resp) (resp_ErrorMsg resp)) else Inr plain)"

definition takeReply :: "cipher \<Rightarrow> armor \<Rightarrow> Session \<Rightarrow> toolReply \<Rightarrow> call_error + bytes" where
  "takeReply c m sess reply =
     (if tr_local reply then Inl (Remote (resp_ErrorCode (tr_resp reply)) (resp_ErrorMsg (tr_resp reply)))
      else openReply c m sess (tr_resp reply))"

definition checkStream :: "Session \<Rightarrow> streamRecv \<Rightarrow> streamRecv list \<Rightarrow> bytes \<Rightarrow> call_error + bytes" where
  "checkStream sess recv later result =
     (let needFin = RequireStreamTerminator sess;
          (n, finished) = settledStatus needFin recv later
      in if \<not> finished \<and> needFin then Inl (StreamIncomplete n True)
         else if n > 0 then Inl (StreamIncomplete n False)
         else Inr result)"

text \<open>The end of the wait: the context (with a deadline or not), or the reply in the channel.\<close>

datatype wait_end = CtxDone bool | ReplyReady

definition endCall ::
  "cipher \<Rightarrow> armor \<Rightarrow> Session \<Rightarrow> 64 word \<Rightarrow> wait_end \<Rightarrow> streamRecv list \<Rightarrow> Bridge \<Rightarrow>
   (Bridge \<times> (call_error + bytes) \<times> (string \<times> tool_frame) list) option" where
  "endCall c m sess i w later b =
     (case w of
        CtxDone deadline \<Rightarrow>
          Some (dropCall i b, Inl (if deadline then TunnelLost else CtxError),
                [(b_conn b, FCancel \<lparr>can_ID = i, can_Reason = (if deadline then ''deadline_exceeded'' else ''ctx_cancelled'')\<rparr>)])
      | ReplyReady \<Rightarrow>
          (case mget (b_pending b) i of
             Some (Some reply) \<Rightarrow>
               Some (dropCall i b,
                 (case takeReply c m sess reply of
                    Inl e \<Rightarrow> Inl e
                  | Inr result \<Rightarrow>
                      (case mget (b_streamCbs b) i of
                         None \<Rightarrow> Inr result
                       | Some recv \<Rightarrow> checkStream sess recv later result)), [])
           | _ \<Rightarrow> None))"

text \<open>A stream frame: the new state of its reception and what the callback gets.\<close>

definition recvChunk :: "cipher \<Rightarrow> Session \<Rightarrow> StreamChunk \<Rightarrow> streamRecv \<Rightarrow> streamRecv \<times> (string \<times> bytes) list" where
  "recvChunk c sess ch recv =
     (case (if Active sess
            then AEADOpen c (Key sess) (ch_Data ch) (StreamAAD sess (ch_ID ch) (ch_Seq ch) (ch_Stream ch) (ch_Fin ch))
            else Inr (ch_Data ch)) of
        Inl _ \<Rightarrow> (markDamaged (observe (ch_Seq ch) recv), [])
      | Inr data \<Rightarrow>
          let r1 = observe (ch_Seq ch) recv;
              r2 = (if ch_Fin ch then markFinished r1 else r1)
          in (r2, if data \<noteq> [] then [(ch_Stream ch, data)] else []))"

record bridge_decoders =
  dec_Resp :: "bytes \<Rightarrow> ToolResp option"
  dec_Chunk :: "bytes \<Rightarrow> StreamChunk option"

definition HandleInbound ::
  "cipher \<Rightarrow> bridge_decoders \<Rightarrow> Message \<Rightarrow> Bridge \<Rightarrow> Bridge \<times> (64 word \<times> string \<times> bytes) list" where
  "HandleInbound c dec msg b =
     (if msg_Type msg = MsgToolResp
      then (case dec_Resp dec (msg_Payload msg) of
              None \<Rightarrow> (b, [])
            | Some r \<Rightarrow> (putReply (resp_ID r) \<lparr>tr_resp = r, tr_local = False\<rparr> b, []))
      else if msg_Type msg = MsgToolStream
      then (case dec_Chunk dec (msg_Payload msg) of
              None \<Rightarrow> (b, [])
            | Some ch \<Rightarrow>
                (case mget (b_streamCbs b) (ch_ID ch) of
                   None \<Rightarrow> (b, [])
                 | Some recv \<Rightarrow>
                     let (recv', out) = recvChunk c (b_sess b) ch recv
                     in (b\<lparr>b_streamCbs := mput (ch_ID ch) recv' (b_streamCbs b)\<rparr>,
                         map (\<lambda>(st, d). (ch_ID ch, st, d)) out)))
      else (b, []))"

text \<open>
  The same handler cut where others may run. A reply is one non-blocking send. A stream frame is decoded and its
  reception looked up (\<open>beginInbound\<close>); then come, each under its own lock or none, the snapshot of the
  session with the opening of the data, \<open>observe\<close>, the mark (damaged or finished), and the callback.
  The reception is a pointer: once the call has dropped it, the marks reach no one, the callback is still made.
\<close>

datatype stream_handler =
    HOpen StreamChunk
  | HObserve StreamChunk "bytes option"
  | HMark StreamChunk "bytes option"
  | HCall StreamChunk bytes

definition openChunk :: "cipher \<Rightarrow> Session \<Rightarrow> StreamChunk \<Rightarrow> bytes option" where
  "openChunk c sess ch =
     (if Active sess
      then (case AEADOpen c (Key sess) (ch_Data ch) (StreamAAD sess (ch_ID ch) (ch_Seq ch) (ch_Stream ch) (ch_Fin ch)) of
              Inl _ \<Rightarrow> None
            | Inr data \<Rightarrow> Some data)
      else Some (ch_Data ch))"

definition updRecv :: "64 word \<Rightarrow> (streamRecv \<Rightarrow> streamRecv) \<Rightarrow> Bridge \<Rightarrow> Bridge" where
  "updRecv i f b =
     (case mget (b_streamCbs b) i of
        None \<Rightarrow> b
      | Some recv \<Rightarrow> b\<lparr>b_streamCbs := mput i (f recv) (b_streamCbs b)\<rparr>)"

definition beginInbound :: "bridge_decoders \<Rightarrow> Message \<Rightarrow> Bridge \<Rightarrow> Bridge \<times> stream_handler list" where
  "beginInbound dec msg b =
     (if msg_Type msg = MsgToolResp
      then (case dec_Resp dec (msg_Payload msg) of
              None \<Rightarrow> (b, [])
            | Some r \<Rightarrow> (putReply (resp_ID r) \<lparr>tr_resp = r, tr_local = False\<rparr> b, []))
      else if msg_Type msg = MsgToolStream
      then (case dec_Chunk dec (msg_Payload msg) of
              None \<Rightarrow> (b, [])
            | Some ch \<Rightarrow> (b, if mget (b_streamCbs b) (ch_ID ch) = None then [] else [HOpen ch]))
      else (b, []))"

fun handlerStep ::
  "cipher \<Rightarrow> stream_handler \<Rightarrow> Bridge \<Rightarrow> Bridge \<times> stream_handler list \<times> (64 word \<times> string \<times> bytes) list" where
  "handlerStep c (HOpen ch) b = (b, [HObserve ch (openChunk c (b_sess b) ch)], [])"
| "handlerStep c (HObserve ch d) b = (updRecv (ch_ID ch) (observe (ch_Seq ch)) b, [HMark ch d], [])"
| "handlerStep c (HMark ch None) b = (updRecv (ch_ID ch) markDamaged b, [], [])"
| "handlerStep c (HMark ch (Some data)) b =
     (if ch_Fin ch then updRecv (ch_ID ch) markFinished b else b, if data \<noteq> [] then [HCall ch data] else [], [])"
| "handlerStep c (HCall ch data) b = (b, [], [(ch_ID ch, ch_Stream ch, data)])"

fun stage :: "stream_handler \<Rightarrow> nat" where
  "stage (HOpen ch) = 4"
| "stage (HObserve ch d) = 3"
| "stage (HMark ch d) = 2"
| "stage (HCall ch data) = 1"

text \<open>A handler that is not interrupted: it ends, and is \<open>HandleInbound\<close>.\<close>

function runHandlers ::
  "cipher \<Rightarrow> stream_handler list \<Rightarrow> Bridge \<Rightarrow> Bridge \<times> (64 word \<times> string \<times> bytes) list" where
  "runHandlers c [] b = (b, [])"
| "runHandlers c (h # hs) b =
     (let (b1, hs1, out) = handlerStep c h b; (b2, out2) = runHandlers c (hs1 @ hs) b1 in (b2, out @ out2))"
  by pat_completeness auto
termination
proof (relation "measure (\<lambda>(c, hs, b). sum_list (map stage hs))", goal_cases)
  case (2 c h hs b x b1 y hs1 out)
  have "sum_list (map stage hs1) < stage h" using 2 by (induction c h b rule: handlerStep.induct) auto
  then show ?case by simp
qed simp

lemma HandleInbound_uninterrupted:
  "HandleInbound c dec msg b = (let (b1, hs) = beginInbound dec msg b in runHandlers c hs b1)"
proof (cases "msg_Type msg = MsgToolResp")
  case True
  then show ?thesis by (simp add: HandleInbound_def beginInbound_def split: option.split)
next
  case False
  show ?thesis
  proof (cases "\<exists>ch recv. msg_Type msg = MsgToolStream \<and> dec_Chunk dec (msg_Payload msg) = Some ch \<and> mget (b_streamCbs b) (ch_ID ch) = Some recv")
    case True
    then obtain ch recv where t: "msg_Type msg = MsgToolStream" "dec_Chunk dec (msg_Payload msg) = Some ch"
      "mget (b_streamCbs b) (ch_ID ch) = Some recv" by blast
    show ?thesis
      using False t by (simp add: HandleInbound_def beginInbound_def recvChunk_def openChunk_def updRecv_def Let_def
          split: sum.split)
  next
    case no: False
    then show ?thesis using False by (auto simp: HandleInbound_def beginInbound_def split: option.split)
  qed
qed

end
