(* ===== verification/Tool_Channel.thy ===== *)
theory Tool_Channel
  imports Bridge "HOL-Library.Multiset"
begin

text \<open>
  The two ends of the tool channel over an untrusted relay, which drops, repeats, reorders and
  makes up frames.

  What may be opened under a session's key is what the two ends have sealed under it: \<open>seals\<close>
  collects it from the requests \<open>Q\<close> the bridge sent, the responses \<open>R\<close> the daemon gave and
  the stream frames \<open>F\<close> of its sinks, and \<open>unforged\<close> states the authenticity of the AEAD for it.
\<close>

section \<open>What the two ends seal\<close>

definition norm_json :: "bytes \<Rightarrow> bytes" where
  "norm_json p = (if p = [] then empty_object else p)"

definition req_aad :: "Session \<Rightarrow> ToolReq \<Rightarrow> bytes" where
  "req_aad s q = ReqAAD s (req_ID q) (req_Tool q) (req_DeadlineMs q)"

definition resp_aad :: "Session \<Rightarrow> ToolResp \<Rightarrow> bytes" where
  "resp_aad s r = RespAAD s (resp_ID r) (resp_OK r) (resp_ErrorCode r) (resp_ErrorMsg r)"

definition chunk_aad :: "Session \<Rightarrow> StreamChunk \<Rightarrow> bytes" where
  "chunk_aad s f = StreamAAD s (ch_ID f) (ch_Seq f) (ch_Stream f) (ch_Fin f)"

definition seals :: "Session \<Rightarrow> ToolReq set \<Rightarrow> ToolResp set \<Rightarrow> StreamChunk set \<Rightarrow> (bytes \<times> bytes) set" where
  "seals s Q R F =
     (\<lambda>q. (req_aad s q, norm_json (req_ArgsJSON q))) ` Q \<union>
     (\<lambda>r. (resp_aad s r, norm_json (resp_ResultJSON r))) ` R \<union>
     (\<lambda>f. (chunk_aad s f, ch_Data f)) ` F"

definition unforged :: "cipher \<Rightarrow> Session \<Rightarrow> ToolReq set \<Rightarrow> ToolResp set \<Rightarrow> StreamChunk set \<Rightarrow> bool" where
  "unforged c s Q R F \<longleftrightarrow> (\<forall>ct a p. AEADOpen c (Key s) ct a = Inr p \<longrightarrow> (a, p) \<in> seals s Q R F)"

definition small_req :: "ToolReq \<Rightarrow> bool" where "small_req q \<longleftrightarrow> length (req_Tool q) < 2 ^ 32"
definition small_resp :: "ToolResp \<Rightarrow> bool" where
  "small_resp r \<longleftrightarrow> length (resp_ErrorCode r) < 2 ^ 32 \<and> length (resp_ErrorMsg r) < 2 ^ 32"
definition small_chunk :: "StreamChunk \<Rightarrow> bool" where "small_chunk f \<longleftrightarrow> length (ch_Stream f) < 2 ^ 32"

text \<open>The names and texts of sealed frames are below 4 GiB.\<close>

definition small_seals :: "ToolReq set \<Rightarrow> ToolResp set \<Rightarrow> StreamChunk set \<Rightarrow> bool" where
  "small_seals Q R F \<longleftrightarrow> (\<forall>q \<in> Q. small_req q) \<and> (\<forall>r \<in> R. small_resp r) \<and> (\<forall>f \<in> F. small_chunk f)"

lemma aad_conv:
  assumes "\<not> Legacy s"
  shows "req_aad s q = ToolReqAAD (req_ID q) (req_Tool q) (req_DeadlineMs q)"
    "resp_aad s r = ToolRespAAD (resp_ID r) (resp_OK r) (resp_ErrorCode r) (resp_ErrorMsg r)"
    "chunk_aad s f = StreamChunkAAD (ch_ID f) (ch_Seq f) (ch_Stream f) (ch_Fin f)"
  using assms by (simp_all add: req_aad_def resp_aad_def chunk_aad_def ReqAAD_def RespAAD_def StreamAAD_def)

lemma sealed_req_origin:
  assumes "(req_aad s q, p) \<in> seals s Q R F" "\<not> Legacy s" "small_seals Q R F" "small_req q"
  shows "\<exists>q' \<in> Q. req_ID q' = req_ID q \<and> req_Tool q' = req_Tool q \<and> req_DeadlineMs q' = req_DeadlineMs q \<and>
    p = norm_json (req_ArgsJSON q')"
  using assms ToolReqAAD_inj unfolding seals_def small_seals_def small_req_def
  by (auto simp: aad_conv aad_tags_disjoint) metis

lemma sealed_resp_origin:
  assumes "(resp_aad s r, p) \<in> seals s Q R F" "\<not> Legacy s" "small_seals Q R F" "small_resp r"
  shows "\<exists>r' \<in> R. resp_ID r' = resp_ID r \<and> resp_OK r' = resp_OK r \<and> resp_ErrorCode r' = resp_ErrorCode r \<and>
    resp_ErrorMsg r' = resp_ErrorMsg r \<and> p = norm_json (resp_ResultJSON r')"
proof -
  consider q where "q \<in> Q" "resp_aad s r = req_aad s q" | r' where "r' \<in> R" "resp_aad s r = resp_aad s r'" "p = norm_json (resp_ResultJSON r')"
    | f where "f \<in> F" "resp_aad s r = chunk_aad s f"
    using assms(1) by (auto simp: seals_def)
  then show ?thesis
  proof cases
    case 1
    then show ?thesis using assms(2) aad_tags_disjoint(1) by (metis aad_conv(1,2))
  next
    case 2
    have "small_resp r'" using 2 assms(3) by (simp add: small_seals_def)
    then show ?thesis using 2 assms(2,4) ToolRespAAD_inj unfolding small_resp_def by (metis aad_conv(2))
  next
    case 3
    then show ?thesis using assms(2) aad_tags_disjoint(3) by (metis aad_conv(2,3))
  qed
qed

lemma sealed_chunk_origin:
  assumes "(chunk_aad s f, p) \<in> seals s Q R F" "\<not> Legacy s" "small_seals Q R F" "small_chunk f"
  shows "f\<lparr>ch_Data := p\<rparr> \<in> F"
proof -
  consider q where "q \<in> Q" "chunk_aad s f = req_aad s q" | r where "r \<in> R" "chunk_aad s f = resp_aad s r"
    | f' where "f' \<in> F" "chunk_aad s f = chunk_aad s f'" "p = ch_Data f'"
    using assms(1) by (auto simp: seals_def)
  then show ?thesis
  proof cases
    case 1
    then show ?thesis using assms(2) aad_tags_disjoint(2) by (metis aad_conv(1,3))
  next
    case 2
    then show ?thesis using assms(2) aad_tags_disjoint(3) by (metis aad_conv(2,3))
  next
    case 3
    have sm: "small_chunk f'" using 3 assms(3) by (simp add: small_seals_def)
    have "ch_ID f = ch_ID f' \<and> ch_Seq f = ch_Seq f' \<and> ch_Stream f = ch_Stream f' \<and> ch_Fin f = ch_Fin f'"
      using 3(2) sm assms(2,4) StreamChunkAAD_inj unfolding small_chunk_def by (metis aad_conv(3))
    then have "f\<lparr>ch_Data := p\<rparr> = f'" using 3(3) by (cases f; cases f') simp
    then show ?thesis using 3(1) by simp
  qed
qed

lemma unforged_JSON: "unforged c s Q R F \<Longrightarrow> AEADOpenJSON c m (Key s) raw a = Inr p \<Longrightarrow> (a, p) \<in> seals s Q R F"
  unfolding unforged_def AEADOpenJSON_def by (auto split: option.splits)

text \<open>A session of version 2 under whose key nothing opens but what the two ends have sealed.\<close>

definition trusted :: "cipher \<Rightarrow> ToolReq set \<Rightarrow> ToolResp set \<Rightarrow> StreamChunk set \<Rightarrow> Session \<Rightarrow> bool" where
  "trusted c Q R F s \<longleftrightarrow> Active s \<and> \<not> Legacy s \<and> unforged c s Q R F"

text \<open>A cipher that opens a given list of texts and nothing else, for the witnesses.\<close>

definition listed_cipher :: "(bytes \<times> bytes) list \<Rightarrow> cipher" where
  "listed_cipher L = \<lparr>
     c_Seal = (\<lambda>k n p a. esc a @ p),
     c_Open = (\<lambda>k n ct a. map_option snd (find (\<lambda>(a', p). a' = a \<and> ct = esc a' @ p) L))\<rparr>"

lemma listed_unforged:
  assumes "set L \<subseteq> seals s Q R F"
  shows "unforged (listed_cipher L) s Q R F"
proof -
  have "(a, p) \<in> set L" if "AEADOpen (listed_cipher L) k ct a = Inr p" for k ct a p
    using that by (auto simp: AEADOpen_def listed_cipher_def find_Some_iff in_set_conv_nth split: if_splits option.splits)
  with assms show ?thesis by (auto simp: unforged_def)
qed

definition sample_sess :: Session where
  "sample_sess = \<lparr>Key = [1], Version = ''2''\<rparr>"

lemma sample_active: "Active sample_sess"
proof -
  have "length (Key sample_sess) \<noteq> length zero_key" by (simp add: sample_sess_def zero_key_def)
  then show ?thesis by (auto simp: Active_def)
qed

lemma sample_v2: "\<not> Legacy sample_sess"
  by (simp add: sample_sess_def Legacy_def effectiveVersion_def ToolProtocolVersionV1_def)

lemma sample_trusted:
  "set L \<subseteq> seals sample_sess Q R F \<Longrightarrow> trusted (listed_cipher L) Q R F sample_sess"
  using listed_unforged [of L sample_sess Q R F] sample_active sample_v2 by (simp add: trusted_def)

lemma sample_open:
  "(a, p) \<in> set L \<Longrightarrow> distinct (map fst L) \<Longrightarrow> AEADOpen (listed_cipher L) k (replicate 24 0 @ esc a @ p) a = Inr p"
proof -
  assume L: "(a, p) \<in> set L" "distinct (map fst L)"
  have "find (\<lambda>(a', q). a' = a \<and> esc a @ p = esc a' @ q) L = Some (a, p)"
    using L by (induction L) (auto simp: image_iff)
  then show ?thesis by (simp add: AEADOpen_def listed_cipher_def NonceSizeX_def)
qed

text \<open>Wrapping in quotes, as the JSON string that carries a ciphertext has them.\<close>

definition quoted_armor :: armor where
  "quoted_armor = \<lparr>a_wrap = (\<lambda>b. 34 # b @ [34]), a_unwrap = (\<lambda>w. if w = [] then None else Some (butlast (tl w)))\<rparr>"

definition armor_visible :: "armor \<Rightarrow> bool" where
  "armor_visible m \<longleftrightarrow> (\<forall>ct. a_wrap m ct \<noteq> [] \<and> \<not> isBlankArgs (a_wrap m ct))"

lemma quoted_armor_roundtrip: "armor_roundtrip quoted_armor"
  by (simp add: armor_roundtrip_def quoted_armor_def)

lemma quoted_armor_visible: "armor_visible quoted_armor"
proof -
  have c: "char_of (34 :: nat) = CHR 0x22" by code_simp
  have "string_of_bytes (34 # b @ [34]) = CHR 0x22 # string_of_bytes b @ [CHR 0x22]" for b
    by (simp add: string_of_bytes_def c)
  moreover have "strings_TrimSpace (CHR 0x22 # x @ [CHR 0x22]) = CHR 0x22 # x @ [CHR 0x22]" for x
    by (rule TrimSpace_solid) (simp_all add: solid_def)
  ultimately show ?thesis by (simp add: armor_visible_def quoted_armor_def isBlankArgs_def)
qed

section \<open>Goroutines in flight\<close>

text \<open>
  The goroutines that stand at one point of their code are a list of what each holds; the step of
  the one at position \<open>i\<close> takes it out.
\<close>

definition but_nth :: "nat \<Rightarrow> 'a list \<Rightarrow> 'a list" where
  "but_nth i xs = take i xs @ drop (Suc i) xs"

lemma mset_but_nth: "i < length xs \<Longrightarrow> mset xs = add_mset (xs ! i) (mset (but_nth i xs))"
  by (metis id_take_nth_drop but_nth_def mset_append mset.simps(2) union_mset_add_mset_right)

lemma set_but_nth_sub: "x \<in> set (but_nth i xs) \<Longrightarrow> x \<in> set xs"
  by (auto simp: but_nth_def dest: in_set_takeD in_set_dropD)

lemma set_but_nth: "i < length xs \<Longrightarrow> insert (xs ! i) (set (but_nth i xs)) = set xs"
  using arg_cong [OF mset_but_nth, of i xs set_mset] by simp

end
