(* ===== verification/Bridge_Props.thy ===== *)
theory Bridge_Props
  imports Tool_Channel "HOL-Library.Multiset"
begin

text \<open>
  The bridge over whole runs: calls that begin, wait, settle and end in any interleaving with
  inbound frames of an untrusted relay, changes of connection and a disconnection.

  \<open>brun\<close> is the bridge with the phase of every call, the handlers of stream frames under way and everything the
  callbacks got. Inbound frames may be handled by several read loops at once, so the steps of the handlers
  interleave with each other and with the steps of the calls.
\<close>

section \<open>Runs\<close>

datatype phase = Idle | Begun | Waiting Session | Settling Session bytes | Done "call_error + bytes"

record brun =
  br :: Bridge
  phases :: "64 word \<Rightarrow> phase"
  hands :: "stream_handler list"
  at_end :: "64 word \<Rightarrow> stream_handler list"
  cb_log :: "(64 word \<times> string \<times> bytes) list"

text \<open>
  \<open>BIn\<close> is the arrival of a message, \<open>BNext\<close> the next step of a handler under way. \<open>at_end\<close> keeps, for a call that has come to its
  verdict, the handlers that were under way at that moment. Call numbers come round after \<open>2 ^ 64\<close> calls; a
  handler left over from an earlier call of the same number has that call's reception and callback and is not
  followed any further when the number is taken again.

  \<open>BBegin\<close> may come after a disconnection that the first check did not see. A disconnection is two
  events, the flag and the wake-up. \<open>BTake\<close> takes the reply and looks at the stream once; each
  \<open>BSample\<close> is a look after a pause, the last one marked.
\<close>

datatype bridge_event =
    BIn Message
  | BNext nat
  | BSwap string Session
  | BBegin bool
  | BSend "bytes option" bool "64 word" string bytes
  | BTimeout "64 word" bool
  | BTake "64 word"
  | BSample "64 word" bool
  | BClose
  | BWake string

definition finish_call :: "64 word \<Rightarrow> call_error + bytes \<Rightarrow> brun \<Rightarrow> brun" where
  "finish_call i res st = st\<lparr>br := dropCall i (br st), phases := (phases st)(i := Done res), at_end := (at_end st)(i := hands st)\<rparr>"

fun h_chunk :: "stream_handler \<Rightarrow> StreamChunk" where
  "h_chunk (HOpen ch) = ch"
| "h_chunk (HObserve ch d) = ch"
| "h_chunk (HMark ch d) = ch"
| "h_chunk (HCall ch data) = ch"

text \<open>A look at the stream of a call that has its reply.\<close>

definition look :: "64 word \<Rightarrow> Session \<Rightarrow> bytes \<Rightarrow> bool \<Rightarrow> brun \<Rightarrow> brun" where
  "look i s result final st =
     (case mget (b_streamCbs (br st)) i of
        None \<Rightarrow> finish_call i (Inr result) st
      | Some recv \<Rightarrow>
          if final \<or> settled (RequireStreamTerminator s) (recv_status recv)
          then finish_call i (checkStream s recv [] result) st
          else st\<lparr>phases := (phases st)(i := Settling s result)\<rparr>)"

fun bridge_step :: "cipher \<Rightarrow> armor \<Rightarrow> bridge_decoders \<Rightarrow> bridge_event \<Rightarrow> brun \<Rightarrow> brun" where
  "bridge_step c m dec (BIn msg) st =
     (let (b, hs) = beginInbound dec msg (br st) in st\<lparr>br := b, hands := hands st @ hs\<rparr>)"
| "bridge_step c m dec (BNext k) st =
     (if k < length (hands st)
      then let (b, hs, out) = handlerStep c (hands st ! k) (br st)
           in st\<lparr>br := b, hands := but_nth k (hands st) @ hs, cb_log := cb_log st @ out\<rparr>
      else st)"
| "bridge_step c m dec (BSwap conn s) st = st\<lparr>br := Bridge_SwapConn conn s (br st)\<rparr>"
| "bridge_step c m dec (BBegin streaming) st =
     (let (b, i) = beginCall streaming (br st)
      in st\<lparr>br := b, phases := (phases st)(i := Begun), hands := filter (\<lambda>h. ch_ID (h_chunk h) \<noteq> i) (hands st)\<rparr>)"
| "bridge_step c m dec (BSend rnd ok i name args) st =
     (if phases st i = Begun
      then (case sendCall c m rnd ok i name args (br st) of
              (b, Inl e) \<Rightarrow> st\<lparr>br := b, phases := (phases st)(i := Done (Inl e))\<rparr>
            | (b, Inr (s, _)) \<Rightarrow> st\<lparr>br := b, phases := (phases st)(i := Waiting s)\<rparr>)
      else st)"
| "bridge_step c m dec (BTimeout i deadline) st =
     (case phases st i of
        Waiting s \<Rightarrow>
          (case endCall c m s i (CtxDone deadline) [] (br st) of
             Some (b, res, _) \<Rightarrow> st\<lparr>br := b, phases := (phases st)(i := Done res)\<rparr>
           | None \<Rightarrow> st)
      | _ \<Rightarrow> st)"
| "bridge_step c m dec (BTake i) st =
     (case phases st i of
        Waiting s \<Rightarrow>
          (case mget (b_pending (br st)) i of
             Some (Some reply) \<Rightarrow>
               (case takeReply c m s reply of
                  Inl e \<Rightarrow> finish_call i (Inl e) st
                | Inr result \<Rightarrow> look i s result False st)
           | _ \<Rightarrow> st)
      | _ \<Rightarrow> st)"
| "bridge_step c m dec (BSample i final) st =
     (case phases st i of Settling s result \<Rightarrow> look i s result final st | _ \<Rightarrow> st)"
| "bridge_step c m dec BClose st = st\<lparr>br := (br st)\<lparr>b_closed := True\<rparr>\<rparr>"
| "bridge_step c m dec (BWake err) st = (if b_closed (br st) then st\<lparr>br := wakePending err (br st)\<rparr> else st)"

definition bridge_start :: "Bridge \<Rightarrow> brun" where
  "bridge_start b = \<lparr>br = b, phases = (\<lambda>_. Idle), hands = [], at_end = (\<lambda>_. []), cb_log = []\<rparr>"

definition bridge_run :: "cipher \<Rightarrow> armor \<Rightarrow> bridge_decoders \<Rightarrow> bridge_event list \<Rightarrow> brun \<Rightarrow> brun" where
  "bridge_run c m dec evs st = fold (bridge_step c m dec) evs st"

fun event_session :: "bridge_event \<Rightarrow> Session option" where
  "event_session (BSwap conn s) = Some s"
| "event_session _ = None"

definition calls_begun :: "bridge_event list \<Rightarrow> nat" where
  "calls_begun evs = length (filter (\<lambda>e. \<exists>st. e = BBegin st) evs)"

lemma run_invariant:
  assumes "P st" "\<And>e st. e \<in> set evs \<Longrightarrow> P st \<Longrightarrow> P (bridge_step c m dec e st)"
  shows "P (bridge_run c m dec evs st)"
  using assms unfolding bridge_run_def by (induction evs arbitrary: st) auto

lemma event_session_iff: "event_session e = Some s \<longleftrightarrow> (\<exists>conn. e = BSwap conn s)"
  by (cases e) auto

text \<open>The looks at a stream are the samples of \<open>settledStatus\<close>.\<close>

lemma checkStream_sample:
  "checkStream s r (t # ts) result =
     (if settled (RequireStreamTerminator s) (recv_status r) then checkStream s r [] result else checkStream s t ts result)"
  by (simp add: checkStream_def)

section \<open>Reply channels\<close>

lemma putReply_pending:
  "mget (b_pending (putReply i r b)) j =
     (if j = i \<and> mget (b_pending b) i = Some None then Some (Some r) else mget (b_pending b) j)"
  by (auto simp: putReply_def split: option.splits)

lemma putReply_fields [simp]:
  "b_conn (putReply i r b) = b_conn b" "b_sess (putReply i r b) = b_sess b" "b_nextID (putReply i r b) = b_nextID b"
  "b_streamCbs (putReply i r b) = b_streamCbs b" "b_closed (putReply i r b) = b_closed b"
  by (auto simp: putReply_def split: option.splits)

lemma fold_putReply:
  "mget (b_pending (fold (\<lambda>i. putReply i r) ks b)) j =
     (if j \<in> set ks \<and> mget (b_pending b) j = Some None then Some (Some r) else mget (b_pending b) j)"
  "b_conn (fold (\<lambda>i. putReply i r) ks b) = b_conn b" "b_sess (fold (\<lambda>i. putReply i r) ks b) = b_sess b"
  "b_nextID (fold (\<lambda>i. putReply i r) ks b) = b_nextID b" "b_streamCbs (fold (\<lambda>i. putReply i r) ks b) = b_streamCbs b"
  "b_closed (fold (\<lambda>i. putReply i r) ks b) = b_closed b"
  by (induction ks arbitrary: b) (auto simp: putReply_pending)

lemma wakePending_pending:
  "mget (b_pending (wakePending err b)) j =
     (if mget (b_pending b) j = Some None then Some (Some (lostReply err)) else mget (b_pending b) j)"
proof -
  have "j \<in> set (mkeys (b_pending b))" if "mget (b_pending b) j = Some None"
    using that mdom_conv [of "b_pending b"] by blast
  then show ?thesis unfolding wakePending_def fold_putReply(1) by auto
qed

lemma wakePending_fields [simp]:
  "b_conn (wakePending err b) = b_conn b" "b_sess (wakePending err b) = b_sess b" "b_nextID (wakePending err b) = b_nextID b"
  "b_streamCbs (wakePending err b) = b_streamCbs b" "b_closed (wakePending err b) = b_closed b"
  by (simp_all add: wakePending_def fold_putReply)

lemma dropCall_fields [simp]:
  "b_conn (dropCall i b) = b_conn b" "b_sess (dropCall i b) = b_sess b" "b_nextID (dropCall i b) = b_nextID b"
  "b_closed (dropCall i b) = b_closed b" "mget (b_pending (dropCall i b)) = (mget (b_pending b))(i := None)"
  "mget (b_streamCbs (dropCall i b)) = (mget (b_streamCbs b))(i := None)"
  by (auto simp: dropCall_def)

lemma beginInbound_fields:
  assumes "beginInbound dec msg b = (b', hs)"
  shows "b_sess b' = b_sess b" "b_conn b' = b_conn b" "b_nextID b' = b_nextID b" "b_closed b' = b_closed b"
    "b_streamCbs b' = b_streamCbs b" "mdom (b_pending b') = mdom (b_pending b)"
  using assms by (auto simp: beginInbound_def putReply_def Let_def split: if_splits option.splits prod.splits)

lemma beginInbound_pending:
  assumes "beginInbound dec msg b = (b', hs)"
  shows "mget (b_pending b') i = mget (b_pending b) i \<or>
    mget (b_pending b) i = Some None \<and>
    (\<exists>r. dec_Resp dec (msg_Payload msg) = Some r \<and> resp_ID r = i \<and>
         mget (b_pending b') i = Some (Some \<lparr>tr_resp = r, tr_local = False\<rparr>))"
  using assms by (auto simp: beginInbound_def putReply_pending Let_def split: if_splits option.splits prod.splits)

lemma updRecv_fields [simp]:
  "b_conn (updRecv i f b) = b_conn b" "b_sess (updRecv i f b) = b_sess b" "b_nextID (updRecv i f b) = b_nextID b"
  "b_closed (updRecv i f b) = b_closed b" "b_pending (updRecv i f b) = b_pending b"
  "mget (b_streamCbs (updRecv i f b)) j = (if j = i then map_option f (mget (b_streamCbs b) i) else mget (b_streamCbs b) j)"
  by (auto simp: updRecv_def split: option.splits)

lemma handlerStep_fields:
  assumes "handlerStep c h b = (b', hs, out)"
  shows "b_sess b' = b_sess b" "b_conn b' = b_conn b" "b_nextID b' = b_nextID b" "b_closed b' = b_closed b"
    "b_pending b' = b_pending b"
  using assms by (induction c h b rule: handlerStep.induct) (auto split: if_splits)

lemma sendCall_cases:
  assumes "sendCall c m rnd ok i name args b = (b', res)"
  shows "(b' = dropCall i b \<and> (\<exists>e. res = Inl e \<and> (b_closed b \<longrightarrow> e = NotConnected) \<and> (\<forall>code msg. e \<noteq> Remote code msg))) \<or>
    (b' = b \<and> \<not> b_closed b \<and> (\<exists>f. res = Inr (b_sess b, f)))"
  using assms by (auto simp: sendCall_def Let_def split: if_splits sum.splits)

section \<open>Disconnection\<close>

definition registered :: "brun \<Rightarrow> bool" where
  "registered st \<longleftrightarrow> (\<forall>i s. phases st i = Begun \<or> phases st i = Waiting s \<longrightarrow> mget (b_pending (br st)) i \<noteq> None)"

definition woken :: "brun \<Rightarrow> bool" where
  "woken st \<longleftrightarrow> b_closed (br st) \<and> (\<forall>i s. phases st i = Waiting s \<longrightarrow> (\<exists>r. mget (b_pending (br st)) i = Some (Some r)))"

lemma look_cases:
  "look i s result final st = finish_call i (Inr result) st \<or>
   (\<exists>recv. mget (b_streamCbs (br st)) i = Some recv \<and> look i s result final st = finish_call i (checkStream s recv [] result) st) \<or>
   \<not> final \<and> look i s result final st = st\<lparr>phases := (phases st)(i := Settling s result)\<rparr>"
  by (auto simp: look_def split: option.splits)

lemma finish_call_fields [simp]:
  "br (finish_call i res st) = dropCall i (br st)" "phases (finish_call i res st) = (phases st)(i := Done res)"
  "cb_log (finish_call i res st) = cb_log st"
  by (simp_all add: finish_call_def)

lemma registered_finish: "registered st \<Longrightarrow> registered (finish_call i res st)"
  by (auto simp: registered_def)

lemma registered_look: "registered st \<Longrightarrow> registered (look i s result final st)"
  using look_cases [of i s result final st] registered_finish [of st i]
  by (auto simp: registered_def split: if_splits)

lemma registered_step: "registered st \<Longrightarrow> registered (bridge_step c m dec e st)"
proof (cases e)
  case (BIn msg)
  assume "registered st"
  moreover obtain b' hs where h: "beginInbound dec msg (br st) = (b', hs)" by fastforce
  moreover have "mget (b_pending b') i \<noteq> None \<longleftrightarrow> mget (b_pending (br st)) i \<noteq> None" for i
    using beginInbound_fields(6) [OF h] by (metis domIff)
  ultimately show ?thesis using BIn by (simp add: registered_def)
next
  case (BNext k)
  assume "registered st"
  moreover obtain b' hs out where h: "handlerStep c (hands st ! k) (br st) = (b', hs, out)" by (rule prod_cases3)
  ultimately show ?thesis using BNext handlerStep_fields(5) [OF h] by (simp add: registered_def)
next
  case (BSend rnd ok i name args)
  assume r: "registered st"
  obtain b' res where se: "sendCall c m rnd ok i name args (br st) = (b', res)" by fastforce
  from sendCall_cases [OF se] r BSend se show ?thesis by (auto simp: registered_def split: if_splits)
next
  case (BWake err)
  assume "registered st"
  with BWake show ?thesis by (auto simp: registered_def wakePending_pending)
next
  case (BTake i)
  assume "registered st"
  with BTake show ?thesis
    by (auto split: phase.splits option.splits sum.splits intro: registered_look registered_finish)
next
  case (BSample i final)
  assume "registered st"
  with BSample show ?thesis by (auto split: phase.splits intro: registered_look)
next
  case (BBegin streaming)
  assume "registered st"
  with BBegin show ?thesis by (auto simp: registered_def beginCall_def Let_def)
next
  case (BTimeout i d)
  assume "registered st"
  with BTimeout show ?thesis by (auto simp: registered_def endCall_def split: phase.splits)
qed (auto simp: registered_def Bridge_SwapConn_def)

lemma woken_finish: "woken st \<Longrightarrow> woken (finish_call i res st)"
  by (auto simp: woken_def)

lemma woken_look: "woken st \<Longrightarrow> woken (look i s result final st)"
  using look_cases [of i s result final st] woken_finish [of st i]
  by (auto simp: woken_def split: if_splits)

lemma woken_step: "woken st \<Longrightarrow> woken (bridge_step c m dec e st)"
proof (cases e)
  case (BIn msg)
  assume w: "woken st"
  obtain b' hs where h: "beginInbound dec msg (br st) = (b', hs)" by fastforce
  have "\<exists>r. mget (b_pending b') i = Some (Some r)" if "mget (b_pending (br st)) i = Some (Some r)" for i r
    using beginInbound_pending [OF h, of i] that by auto
  with beginInbound_fields(4) [OF h] w BIn h show ?thesis by (fastforce simp: woken_def)
next
  case (BNext k)
  assume "woken st"
  moreover obtain b' hs out where h: "handlerStep c (hands st ! k) (br st) = (b', hs, out)" by (rule prod_cases3)
  ultimately show ?thesis using BNext handlerStep_fields(4,5) [OF h] by (simp add: woken_def)
next
  case (BSend rnd ok i name args)
  assume r: "woken st"
  obtain b' res where se: "sendCall c m rnd ok i name args (br st) = (b', res)" by fastforce
  from sendCall_cases [OF se] r BSend se show ?thesis by (auto simp: woken_def split: if_splits)
next
  case (BWake err)
  assume "woken st"
  with BWake show ?thesis by (fastforce simp: woken_def wakePending_pending)
next
  case (BTake i)
  assume "woken st"
  with BTake show ?thesis
    by (auto split: phase.splits option.splits sum.splits intro: woken_look woken_finish)
next
  case (BSample i final)
  assume "woken st"
  with BSample show ?thesis by (auto split: phase.splits intro: woken_look)
next
  case (BBegin streaming)
  assume "woken st"
  with BBegin show ?thesis by (auto simp: woken_def beginCall_def Let_def split: if_splits)
next
  case (BTimeout i d)
  assume "woken st"
  with BTimeout show ?thesis by (auto simp: woken_def endCall_def split: phase.splits if_splits)
qed (auto simp: woken_def Bridge_SwapConn_def)

lemma registered_run: "registered (bridge_run c m dec evs (bridge_start b))"
proof (rule run_invariant)
  show "registered (bridge_start b)" by (simp add: registered_def bridge_start_def)
qed (rule registered_step)

lemma registered_wakes:
  assumes "registered st" "b_closed (br st)"
  shows "woken (bridge_step c m dec (BWake err) st)"
proof -
  have "\<exists>r. mget (b_pending (wakePending err (br st))) i = Some (Some r)" if "phases st i = Waiting s" for i s
  proof -
    have "mget (b_pending (br st)) i \<noteq> None" using that assms(1) by (auto simp: registered_def)
    then obtain v where "mget (b_pending (br st)) i = Some v" by blast
    then show ?thesis by (cases v) (auto simp: wakePending_pending)
  qed
  with assms(2) show ?thesis by (auto simp: woken_def)
qed

lemma closed_step: "b_closed (br st) \<Longrightarrow> b_closed (br (bridge_step c m dec e st))"
proof (cases e)
  case (BIn msg)
  assume "b_closed (br st)"
  with BIn beginInbound_fields(4) show ?thesis by (fastforce split: prod.splits)
next
  case (BNext k)
  assume "b_closed (br st)"
  moreover obtain b' hs out where h: "handlerStep c (hands st ! k) (br st) = (b', hs, out)" by (rule prod_cases3)
  ultimately show ?thesis using BNext handlerStep_fields(4) [OF h] by simp
next
  case (BSend rnd ok i name args)
  assume r: "b_closed (br st)"
  obtain b' res where se: "sendCall c m rnd ok i name args (br st) = (b', res)" by fastforce
  from sendCall_cases [OF se] r BSend se show ?thesis by auto
qed (auto simp: Bridge_SwapConn_def beginCall_def Let_def endCall_def look_def split: phase.splits option.splits sum.splits)

lemma bridge_run_append: "bridge_run c m dec (e1 @ e2) st = bridge_run c m dec e2 (bridge_run c m dec e1 st)"
  by (simp add: bridge_run_def)

lemma woken_run:
  "woken (bridge_run c m dec (evs1 @ [BClose] @ evs2 @ [BWake err] @ evs3) (bridge_start b))"
proof -
  let ?st1 = "bridge_run c m dec (evs1 @ [BClose]) (bridge_start b)"
  let ?st2 = "bridge_run c m dec evs2 ?st1"
  have cl: "b_closed (br ?st2)"
    by (rule run_invariant [where P = "\<lambda>st. b_closed (br st)"]) (auto simp: bridge_run_def intro: closed_step)
  have "registered ?st2" unfolding bridge_run_append [symmetric] by (rule registered_run)
  from registered_wakes [OF this cl] have "woken (bridge_run c m dec [BWake err] ?st2)" by (simp add: bridge_run_def)
  then have "woken (bridge_run c m dec evs3 (bridge_run c m dec [BWake err] ?st2))"
    by (rule run_invariant) (rule woken_step)
  then show ?thesis by (simp only: bridge_run_append)
qed

lemma woken_ends:
  assumes "woken st"
  shows "phases st i = Begun \<Longrightarrow> phases (bridge_step c m dec (BSend rnd ok i name args) st) i = Done (Inl NotConnected)"
    and "phases st i = Waiting s \<Longrightarrow> \<exists>res. phases (bridge_run c m dec [BTake i, BSample i True] st) i = Done res"
proof -
  have cl: "b_closed (br st)" using assms by (simp add: woken_def)
  then show "phases st i = Begun \<Longrightarrow> phases (bridge_step c m dec (BSend rnd ok i name args) st) i = Done (Inl NotConnected)"
    by (simp add: sendCall_def)
  assume w: "phases st i = Waiting s"
  then obtain r where "mget (b_pending (br st)) i = Some (Some r)" using assms by (auto simp: woken_def)
  then show "\<exists>res. phases (bridge_run c m dec [BTake i, BSample i True] st) i = Done res"
    using w by (auto simp: bridge_run_def look_def split: sum.splits option.splits)
qed

lemma take_lost:
  "phases st i = Waiting s \<Longrightarrow> mget (b_pending (br st)) i = Some (Some (lostReply err)) \<Longrightarrow>
   phases (bridge_run c m dec [BTake i, BSample i True] st) i = Done (Inl (Remote ''tunnel_lost'' err))"
  by (simp add: bridge_run_def takeReply_def lostReply_def errResp_def)

text \<open>
  C25. Once a disconnection has set the flag and later woken the calls, whatever happened before,
  between and after (calls that begin during the disconnection included), no call is left
  waiting: a call that is waiting has its outcome within its next look at its reply channel and
  stream, and a call that has begun is refused when it comes to sending.
\<close>

theorem disconnect_ends_every_call:
  assumes "st = bridge_run c m dec (evs1 @ [BClose] @ evs2 @ [BWake err] @ evs3) (bridge_start (NewBridge conn s0 rnd))"
  shows "(\<forall>i s. phases st i = Waiting s \<longrightarrow> (\<exists>res. phases (bridge_run c m dec [BTake i, BSample i True] st) i = Done res)) \<and>
    (\<forall>i rnd ok name args. phases st i = Begun \<longrightarrow>
      phases (bridge_run c m dec [BSend rnd ok i name args] st) i = Done (Inl NotConnected))"
  using woken_ends [OF woken_run] unfolding assms
  by (auto simp: bridge_run_def [of c m dec "[BSend _ _ _ _ _]"])

theorem disconnect_ends_every_call_witness:
  "phases (bridge_run esc_cipher plain_armor \<lparr>dec_Resp = (\<lambda>_. None), dec_Chunk = (\<lambda>_. None)\<rparr>
     [BTake 1, BSample 1 True]
     (bridge_run esc_cipher plain_armor \<lparr>dec_Resp = (\<lambda>_. None), dec_Chunk = (\<lambda>_. None)\<rparr>
       ([BBegin False, BBegin False, BSend (Some []) True 1 ''stat'' []] @ [BClose] @ [] @ [BWake ''eof''] @ [])
       (bridge_start (NewBridge ''relay'' \<lparr>Key = zero_key, Version = []\<rparr> None)))) 1 = Done (Inl (Remote ''tunnel_lost'' ''eof''))"
proof -
  let ?dec = "\<lparr>dec_Resp = (\<lambda>_. None), dec_Chunk = (\<lambda>_. None)\<rparr> :: bridge_decoders"
  let ?b = "NewBridge ''relay'' \<lparr>Key = zero_key, Version = []\<rparr> None"
  let ?evs = "[BBegin False, BBegin False, BSend (Some []) True 1 ''stat'' []]"
  let ?st = "bridge_run esc_cipher plain_armor ?dec (?evs @ [BClose] @ [] @ [BWake ''eof''] @ []) (bridge_start ?b)"
  let ?s = "\<lparr>Key = zero_key, Version = []\<rparr> :: Session"
  have w: "phases ?st 1 = Waiting ?s"
    by (simp add: bridge_run_def bridge_start_def NewBridge_def newIDEpoch_def beginCall_def sendCall_def sealReq_def Active_def Let_def)
  obtain res where "phases (bridge_run esc_cipher plain_armor ?dec [BTake 1, BSample 1 True] ?st) 1 = Done res"
    using disconnect_ends_every_call [of ?st esc_cipher plain_armor ?dec ?evs "[]" "''eof''" "[]" "''relay''" ?s None] w by blast
  moreover have "mget (b_pending (br ?st)) 1 = Some (Some (lostReply ''eof''))"
    by (simp add: bridge_run_def bridge_start_def NewBridge_def newIDEpoch_def beginCall_def sendCall_def sealReq_def Active_def Let_def wakePending_pending)
  ultimately show ?thesis using take_lost [OF w] by metis
qed

section \<open>Authenticity of outcomes\<close>

definition small_frames :: "bridge_decoders \<Rightarrow> bool" where
  "small_frames dec \<longleftrightarrow> (\<forall>p r. dec_Resp dec p = Some r \<longrightarrow> small_resp r) \<and> (\<forall>p f. dec_Chunk dec p = Some f \<longrightarrow> small_chunk f)"

definition granted :: "ToolResp set \<Rightarrow> 64 word \<Rightarrow> bytes \<Rightarrow> bool" where
  "granted R i p \<longleftrightarrow> (\<exists>r \<in> R. resp_ID r = i \<and> resp_OK r \<and> p = norm_json (resp_ResultJSON r))"

definition denied :: "ToolResp set \<Rightarrow> 64 word \<Rightarrow> string \<Rightarrow> string \<Rightarrow> bool" where
  "denied R i code msg \<longleftrightarrow> (\<exists>r \<in> R. resp_ID r = i \<and> \<not> resp_OK r \<and> resp_ErrorCode r = code \<and> resp_ErrorMsg r = msg)"

lemma openReply_origin:
  assumes "trusted c Q R F s" "small_seals Q R F" "small_resp r"
  shows "openReply c m s r = Inr p \<Longrightarrow> granted R (resp_ID r) p"
    and "openReply c m s r = Inl (Remote code msg) \<Longrightarrow> denied R (resp_ID r) code msg"
proof -
  have s: "Active s" "\<not> Legacy s" "RequireSealedResp s" using assms(1) by (auto simp: trusted_def RequireSealedResp_def)
  have o: "\<exists>r' \<in> R. resp_ID r' = resp_ID r \<and> resp_OK r' = resp_OK r \<and> resp_ErrorCode r' = resp_ErrorCode r \<and>
      resp_ErrorMsg r' = resp_ErrorMsg r \<and> q = norm_json (resp_ResultJSON r')"
    if "AEADOpenJSON c m (Key s) w (RespAAD s (resp_ID r) (resp_OK r) (resp_ErrorCode r) (resp_ErrorMsg r)) = Inr q" for q w
  proof -
    have "(resp_aad s r, q) \<in> seals s Q R F"
      using assms(1) that by (auto simp: trusted_def resp_aad_def intro: unforged_JSON)
    from sealed_resp_origin [OF this s(2) assms(2,3)] show ?thesis .
  qed
  show "openReply c m s r = Inr p \<Longrightarrow> granted R (resp_ID r) p"
    using s o unfolding openReply_def granted_def by (auto simp: Let_def split: if_splits sum.splits)
  show "openReply c m s r = Inl (Remote code msg) \<Longrightarrow> denied R (resp_ID r) code msg"
    using s o unfolding openReply_def denied_def by (auto simp: Let_def split: if_splits sum.splits)
qed

definition reply_ok :: "64 word \<Rightarrow> toolReply \<Rightarrow> bool" where
  "reply_ok i r \<longleftrightarrow> (if tr_local r then resp_ErrorCode (tr_resp r) = ''tunnel_lost'' else resp_ID (tr_resp r) = i \<and> small_resp (tr_resp r))"

fun phase_ok :: "cipher \<Rightarrow> ToolReq set \<Rightarrow> ToolResp set \<Rightarrow> StreamChunk set \<Rightarrow> 64 word \<Rightarrow> phase \<Rightarrow> bool" where
  "phase_ok c Q R F i (Waiting s) = trusted c Q R F s"
| "phase_ok c Q R F i (Settling s p) = (trusted c Q R F s \<and> granted R i p)"
| "phase_ok c Q R F i (Done (Inr p)) = granted R i p"
| "phase_ok c Q R F i (Done (Inl (Remote code msg))) = (denied R i code msg \<or> code = ''tunnel_lost'')"
| "phase_ok c Q R F i _ = True"

definition auth_inv :: "cipher \<Rightarrow> ToolReq set \<Rightarrow> ToolResp set \<Rightarrow> StreamChunk set \<Rightarrow> brun \<Rightarrow> bool" where
  "auth_inv c Q R F st \<longleftrightarrow> trusted c Q R F (b_sess (br st)) \<and> (\<forall>i. phase_ok c Q R F i (phases st i)) \<and>
     (\<forall>i r. mget (b_pending (br st)) i = Some (Some r) \<longrightarrow> reply_ok i r)"

lemma takeReply_origin:
  assumes "trusted c Q R F s" "small_seals Q R F" "reply_ok i r"
  shows "takeReply c m s r = Inr p \<Longrightarrow> granted R i p"
    and "takeReply c m s r = Inl (Remote code msg) \<Longrightarrow> denied R i code msg \<or> code = ''tunnel_lost''"
  using assms openReply_origin [OF assms(1,2), of "tr_resp r" m] by (auto simp: takeReply_def reply_ok_def split: if_splits)

lemma auth_finish: "auth_inv c Q R F st \<Longrightarrow> phase_ok c Q R F i (Done res) \<Longrightarrow> auth_inv c Q R F (finish_call i res st)"
  by (auto simp: auth_inv_def)

lemma checkStream_cases:
  "checkStream s recv later result = Inr result \<or> (\<exists>n b. checkStream s recv later result = Inl (StreamIncomplete n b))"
  by (auto simp: checkStream_def Let_def split: prod.splits)

lemma auth_look:
  assumes "auth_inv c Q R F st" "trusted c Q R F s" "granted R i result"
  shows "auth_inv c Q R F (look i s result final st)"
proof -
  have "phase_ok c Q R F i (Done (checkStream s recv [] result))" for recv
    using checkStream_cases [of s recv "[]" result] assms(3) by auto
  with look_cases [of i s result final st] show ?thesis
    using assms auth_finish [OF assms(1), of i] by (auto simp: auth_inv_def split: if_splits)
qed

lemma auth_step:
  assumes inv: "auth_inv c Q R F st" and sm: "small_seals Q R F" "small_frames dec"
    and sw: "\<And>s. event_session e = Some s \<Longrightarrow> trusted c Q R F s"
  shows "auth_inv c Q R F (bridge_step c m dec e st)"
proof (cases e)
  case (BIn msg)
  obtain b' hs where h: "beginInbound dec msg (br st) = (b', hs)" by fastforce
  have "reply_ok i r" if "mget (b_pending b') i = Some (Some r)" for i r
    using beginInbound_pending [OF h, of i] that inv sm(2) by (auto simp: auth_inv_def reply_ok_def small_frames_def)
  with beginInbound_fields(1) [OF h] inv BIn h show ?thesis by (simp add: auth_inv_def)
next
  case (BNext k)
  obtain b' hs out where h: "handlerStep c (hands st ! k) (br st) = (b', hs, out)" by (rule prod_cases3)
  then show ?thesis using BNext inv handlerStep_fields(1,5) [OF h] by (simp add: auth_inv_def)
next
  case (BSend rnd ok i name args)
  obtain b' res where se: "sendCall c m rnd ok i name args (br st) = (b', res)" by fastforce
  have "phase_ok c Q R F i (Done (Inl e))" if "\<forall>code msg. e \<noteq> Remote code msg" for e
    using that by (cases e) auto
  with sendCall_cases [OF se] inv BSend se show ?thesis by (auto simp: auth_inv_def split: if_splits)
next
  case (BTake i)
  show ?thesis
  proof (cases "\<exists>s reply. phases st i = Waiting s \<and> mget (b_pending (br st)) i = Some (Some reply)")
    case True
    then obtain s reply where w: "phases st i = Waiting s" "mget (b_pending (br st)) i = Some (Some reply)" by blast
    have t: "trusted c Q R F s" "reply_ok i reply" using inv w unfolding auth_inv_def by (metis phase_ok.simps(1))+
    note org = takeReply_origin [OF t(1) sm(1) t(2)]
    show ?thesis
    proof (cases "takeReply c m s reply")
      case (Inl e')
      then have "phase_ok c Q R F i (Done (Inl e'))" using org(2) by (cases e') auto
      from auth_finish [OF inv this] Inl w BTake show ?thesis by simp
    next
      case (Inr p)
      from auth_look [OF inv t(1) org(1) [OF Inr]] Inr w BTake show ?thesis by simp
    qed
  next
    case False
    with inv BTake show ?thesis by (auto split: phase.splits option.splits)
  qed
next
  case (BSample i final)
  have "phase_ok c Q R F i (phases st i)" using inv by (simp add: auth_inv_def)
  with BSample inv show ?thesis by (cases "phases st i") (auto intro: auth_look)
next
  case (BWake err)
  with inv show ?thesis by (auto simp: auth_inv_def wakePending_pending reply_ok_def lostReply_def errResp_def)
next
  case (BTimeout i d)
  with inv show ?thesis by (auto simp: auth_inv_def endCall_def split: phase.splits)
qed (use inv sw in \<open>auto simp: auth_inv_def Bridge_SwapConn_def beginCall_def Let_def\<close>)

lemma auth_inv_run:
  assumes "small_seals Q R F" "small_frames dec" "trusted c Q R F s0"
    and "\<And>e s. e \<in> set evs \<Longrightarrow> event_session e = Some s \<Longrightarrow> trusted c Q R F s"
  shows "auth_inv c Q R F (bridge_run c m dec evs (bridge_start (NewBridge conn s0 rnd)))"
proof (rule run_invariant)
  show "auth_inv c Q R F (bridge_start (NewBridge conn s0 rnd))"
    using assms(3) by (simp add: auth_inv_def bridge_start_def NewBridge_def)
qed (rule auth_step, use assms in auto)

text \<open>
  C8. What a call of version 2 returns as the daemon's answer is the daemon's answer: over any run in which all sessions
  are of version 2, against a relay that drops,
  repeats, reorders, alters and makes up frames, and over changes of connection and session, a call that
  returns a result returns the result of a successful response of the daemon to that very call
  identifier, and a call that returns an error of the remote side (other than the bridge's own \<open>tunnel_lost\<close>) returns
  code and text of a failed one. The errors the bridge makes itself (not connected, time-out, unauthenticated reply,
  incomplete stream) are not answers and not constrained. In a session of version 1 an unsealed error is taken as it comes.
\<close>

theorem call_outcome_authentic:
  assumes "small_seals Q R F" "small_frames dec" "trusted c Q R F s0"
    and "\<forall>e \<in> set evs. \<forall>s. event_session e = Some s \<longrightarrow> trusted c Q R F s"
    and "st = bridge_run c m dec evs (bridge_start (NewBridge conn s0 rnd))"
  shows "(phases st i = Done (Inr p) \<longrightarrow> (\<exists>r \<in> R. resp_ID r = i \<and> resp_OK r \<and> p = norm_json (resp_ResultJSON r))) \<and>
    (phases st i = Done (Inl (Remote code msg)) \<longrightarrow> code \<noteq> ''tunnel_lost'' \<longrightarrow>
      (\<exists>r \<in> R. resp_ID r = i \<and> \<not> resp_OK r \<and> resp_ErrorCode r = code \<and> resp_ErrorMsg r = msg))"
proof -
  have "auth_inv c Q R F st" unfolding assms(5) by (rule auth_inv_run) (use assms in auto)
  then have "phase_ok c Q R F i (phases st i)" by (simp add: auth_inv_def)
  then show ?thesis by (auto simp: granted_def denied_def)
qed

definition sample_dec :: bridge_decoders where
  "sample_dec = \<lparr>dec_Resp = (\<lambda>p. Some (okResp 1 p)), dec_Chunk = (\<lambda>p. None)\<rparr>"

definition sample_cipher :: cipher where
  "sample_cipher = listed_cipher [(resp_aad sample_sess (okResp 1 [7]), [7])]"

definition sample_events :: "bridge_event list" where
  "sample_events =
     [BBegin False, BSend (Some (replicate 24 0)) True 1 ''stat'' [],
      BIn \<lparr>msg_Type = MsgToolResp, msg_Payload = replicate 24 0 @ esc (resp_aad sample_sess (okResp 1 [7])) @ [7]\<rparr>, BTake 1]"

lemma sample_run:
  "phases (bridge_run sample_cipher plain_armor sample_dec sample_events (bridge_start (NewBridge ''relay'' sample_sess None))) 1 = Done (Inr [7])"
proof -
  have "openReply sample_cipher plain_armor sample_sess (okResp 1 (replicate 24 0 @ esc (resp_aad sample_sess (okResp 1 [7])) @ [7])) = Inr [7]"
    using sample_open [of "resp_aad sample_sess (okResp 1 [7])" "[7]" "[(resp_aad sample_sess (okResp 1 [7]), [7])]" "Key sample_sess"]
    by (simp add: openReply_def sample_cipher_def AEADOpenJSON_def plain_armor_def Let_def resp_aad_def okResp_def sample_active)
  then show ?thesis
    using sample_active unfolding bridge_run_def sample_events_def
    by (simp add: bridge_start_def NewBridge_def newIDEpoch_def beginCall_def sendCall_def sealReq_def AEADSealJSON_def AEADSeal_def
        beginInbound_def sample_dec_def putReply_def takeReply_def look_def tool_msg_types Let_def)
       (simp add: okResp_def)
qed

theorem call_outcome_authentic_witness:
  "phases (bridge_run sample_cipher plain_armor sample_dec sample_events (bridge_start (NewBridge ''relay'' sample_sess None))) 1 = Done (Inr [7]) \<and>
   (\<exists>r \<in> {okResp 1 [7]}. resp_ID r = 1 \<and> resp_OK r \<and> [7] = norm_json (resp_ResultJSON r))"
proof -
  have s: "small_seals {} {okResp 1 [7]} {}" by (simp add: small_seals_def small_resp_def okResp_def)
  have d: "small_frames sample_dec" by (auto simp: small_frames_def sample_dec_def small_resp_def okResp_def)
  have t: "trusted sample_cipher {} {okResp 1 [7]} {} sample_sess"
    unfolding sample_cipher_def by (rule sample_trusted) (simp add: seals_def norm_json_def okResp_def)
  have e: "\<forall>e \<in> set sample_events. \<forall>s. event_session e = Some s \<longrightarrow> trusted sample_cipher {} {okResp 1 [7]} {} s"
    by (simp add: sample_events_def)
  show ?thesis
    using call_outcome_authentic [OF s d t e refl, of plain_armor "''relay''" None 1 "[7]"] sample_run by blast
qed

end
