(* ===== verification/Stream_Props.thy ===== *)
theory Stream_Props
  imports Bridge_Props
begin

text \<open>
  Completeness of streamed output: the frames a sink seals for one call, the reception state of
  the bridge, and what a call that ends well has passed to its callback.
\<close>

section \<open>The frames of one call\<close>

text \<open>The chunks \<open>outs\<close> in the order the sink sent them, then the terminator.\<close>

definition frame_at :: "64 word \<Rightarrow> (string \<times> bytes) list \<Rightarrow> nat \<Rightarrow> StreamChunk" where
  "frame_at i outs k =
     (if k < length outs
      then \<lparr>ch_ID = i, ch_Seq = of_nat k, ch_Fin = False, ch_Stream = fst (outs ! k), ch_Data = snd (outs ! k)\<rparr>
      else \<lparr>ch_ID = i, ch_Seq = of_nat k, ch_Fin = True, ch_Stream = [], ch_Data = []\<rparr>)"

definition stream_frames :: "64 word \<Rightarrow> (string \<times> bytes) list \<Rightarrow> StreamChunk list" where
  "stream_frames i outs = map (frame_at i outs) [0..<Suc (length outs)]"

lemma frame_at_sel:
  "ch_ID (frame_at i outs k) = i" "ch_Seq (frame_at i outs k) = of_nat k" "ch_Fin (frame_at i outs k) \<longleftrightarrow> \<not> k < length outs"
  "ch_Stream (frame_at i outs k) = (if k < length outs then fst (outs ! k) else [])"
  "ch_Data (frame_at i outs k) = (if k < length outs then snd (outs ! k) else [])"
  by (simp_all add: frame_at_def)

section \<open>Reception\<close>

lemma gap_loop_spec:
  "sr_next (gap_loop h seq r) = sr_next r \<and> sr_damaged (gap_loop h seq r) = sr_damaged r \<and>
   sr_finished (gap_loop h seq r) = sr_finished r \<and> sr_overflow r \<le> sr_overflow (gap_loop h seq r) \<and>
   (sr_overflow (gap_loop h seq r) = sr_overflow r \<longrightarrow>
     (\<forall>x. h \<le> x \<longrightarrow> x < seq \<longrightarrow> mget (sr_missing (gap_loop h seq r)) x \<noteq> None)) \<and>
   (\<forall>x. mget (sr_missing r) x \<noteq> None \<longrightarrow> mget (sr_missing (gap_loop h seq r)) x \<noteq> None)"
proof (induction h seq r rule: gap_loop.induct)
  case (1 h seq r)
  consider "\<not> h < seq" | "h < seq" "mlen (sr_missing r) \<ge> maxTrackedGaps" | "h < seq" "\<not> mlen (sr_missing r) \<ge> maxTrackedGaps"
    by blast
  then show ?case
  proof cases
    case 1
    then have "gap_loop h seq r = r" by (simp add: gap_loop.simps [of h])
    with 1 show ?thesis by auto
  next
    case 2
    then have "seq - h \<noteq> 0" by auto
    then have "uint (seq - h) > 0" by (metis uint_0_eq uint_ge_0 order_le_less word_uint_eq_iff)
    with 2 show ?thesis by (simp add: gap_loop.simps [of h])
  next
    case 3
    have low: "h \<le> x \<longleftrightarrow> x = h \<or> h + 1 \<le> x" if "x < seq" for x
    proof -
      have "h \<noteq> - 1" using 3(1) word_order.extremum_strict by blast
      then have "unat (h + 1) = Suc (unat h)" by (metis add.commute unatSuc add_eq_0_iff)
      then show ?thesis by (auto simp: word_le_nat_alt word_unat_eq_iff)
    qed
    have eq: "gap_loop h seq r = gap_loop (h + 1) seq (r\<lparr>sr_missing := mput h () (sr_missing r)\<rparr>)"
      using 3 by (simp add: gap_loop.simps [of h])
    show ?thesis using "1.IH" [OF 3] low unfolding eq by auto
  qed
qed

text \<open>
  \<open>A\<close> is the set of sequence numbers of authentic frames seen so far. As long as nothing was
  damaged or lost beyond the table of gaps, every number below \<open>next\<close> is seen or registered as missing.
\<close>

definition recv_inv :: "nat \<Rightarrow> nat set \<Rightarrow> streamRecv \<Rightarrow> bool" where
  "recv_inv n A r \<longleftrightarrow> A \<subseteq> {..n} \<and> 0 \<le> sr_overflow r \<and> 0 \<le> sr_damaged r \<and> (sr_finished r \<longrightarrow> n \<in> A) \<and>
     (sr_overflow r = 0 \<and> sr_damaged r = 0 \<longrightarrow>
       (\<forall>k \<in> A. k < unat (sr_next r)) \<and>
       (\<forall>k < unat (sr_next r). k \<in> A \<or> mget (sr_missing r) (of_nat k) \<noteq> None))"

lemma recv_inv_start: "recv_inv n {} newStreamRecv"
  by (simp add: recv_inv_def newStreamRecv_def)

lemma unat_seq: "k \<le> n \<Longrightarrow> n < 2 ^ 32 - 1 \<Longrightarrow> unat (of_nat k :: 32 word) = k \<and> unat (of_nat k + 1 :: 32 word) = Suc k"
proof -
  assume "k \<le> n" "n < 2 ^ 32 - 1"
  then have "unat (of_nat k :: 32 word) = k" "unat (of_nat (Suc k) :: 32 word) = Suc k"
    by (simp_all add: unat_of_nat del: of_nat_Suc)
  then show ?thesis by (simp add: add.commute)
qed

lemma observe_late:
  assumes "recv_inv n A r" "k \<le> n" "n < 2 ^ 32 - 1" "(of_nat k :: 32 word) < sr_next r"
  shows "recv_inv n (insert k A) (observe (of_nat k) r)"
proof -
  have "k < unat (sr_next r)" using assms(4) unat_seq [OF assms(2,3)] by (simp add: word_less_nat_alt)
  moreover have "(of_nat j :: 32 word) = of_nat k \<longleftrightarrow> j = k" if "j < unat (sr_next r)" for j
  proof -
    have "unat (sr_next r) < 2 ^ LENGTH(32)" by (rule unsigned_less)
    then have "j < 2 ^ 32" using that by simp
    then show ?thesis using assms(2,3) of_nat_word_inj [where 'a = 32, of j k] by auto
  qed
  ultimately show ?thesis using assms by (auto simp: recv_inv_def observe_def)
qed

lemma observe_ahead:
  assumes "recv_inv n A r" "k \<le> n" "n < 2 ^ 32 - 1" "\<not> (of_nat k :: 32 word) < sr_next r"
  shows "recv_inv n (insert k A) (observe (of_nat k) r)"
proof -
  let ?g = "gap_loop (sr_next r) (of_nat k) r"
  have u: "unat (of_nat k :: 32 word) = k" "unat (of_nat k + 1 :: 32 word) = Suc k" using unat_seq assms(2,3) by blast+
  have le: "unat (sr_next r) \<le> k" using assms(4) u by (simp add: word_less_nat_alt)
  have g: "sr_damaged ?g = sr_damaged r" "sr_finished ?g = sr_finished r" "sr_overflow r \<le> sr_overflow ?g"
    and gap: "sr_overflow ?g = sr_overflow r \<Longrightarrow> sr_next r \<le> x \<Longrightarrow> x < of_nat k \<Longrightarrow> mget (sr_missing ?g) x \<noteq> None"
    and keep: "mget (sr_missing r) x \<noteq> None \<Longrightarrow> mget (sr_missing ?g) x \<noteq> None" for x
    using gap_loop_spec [of "sr_next r" "of_nat k" r] by blast+
  have "j \<in> insert k A \<or> mget (sr_missing ?g) (of_nat j) \<noteq> None"
    if "sr_overflow ?g = 0" "sr_damaged r = 0" "j < Suc k" for j
  proof -
    have z: "sr_overflow r = 0" "sr_overflow ?g = sr_overflow r" using that(1) g(3) assms(1) by (auto simp: recv_inv_def)
    have uj: "unat (of_nat j :: 32 word) = j" using that(3) assms(2,3) unat_seq [of j n] by auto
    show ?thesis
    proof (cases "j < unat (sr_next r)")
      case True
      then show ?thesis using assms(1) z(1) that(2) keep [of "of_nat j"] by (auto simp: recv_inv_def)
    next
      case False
      then show ?thesis using gap [OF z(2), of "of_nat j"] that(3) uj u
        by (cases "j = k") (auto simp: word_le_nat_alt word_less_nat_alt)
    qed
  qed
  moreover have "j < Suc k" if "sr_overflow ?g = 0" "sr_damaged r = 0" "j \<in> insert k A" for j
  proof -
    have "sr_overflow r = 0" using that(1) g(3) assms(1) by (auto simp: recv_inv_def)
    then show ?thesis using that le assms(1) by (fastforce simp: recv_inv_def)
  qed
  ultimately show ?thesis using assms(1,2,4) g u by (auto simp: recv_inv_def observe_def)
qed

lemma observe_authentic:
  "recv_inv n A r \<Longrightarrow> k \<le> n \<Longrightarrow> n < 2 ^ 32 - 1 \<Longrightarrow> recv_inv n (insert k A) (observe (of_nat k) r)"
  using observe_late observe_ahead by blast

lemma observe_damaged:
  assumes "recv_inv n A r"
  shows "recv_inv n A (markDamaged (observe seq r))"
  using assms gap_loop_spec [of "sr_next r" seq r] by (auto simp: recv_inv_def markDamaged_def observe_def)

lemma recv_complete:
  assumes "recv_inv n A r" "settled True (recv_status r)"
  shows "A = {..n}"
proof -
  have z: "mlen (sr_missing r) + sr_overflow r + sr_damaged r = 0" "sr_finished r"
    using assms(2) by (auto simp: settled_def recv_status_def)
  have nn: "0 \<le> sr_overflow r" "0 \<le> sr_damaged r" "0 \<le> mlen (sr_missing r)" using assms(1) by (auto simp: recv_inv_def)
  then have z': "sr_overflow r = 0" "sr_damaged r = 0" "mlen (sr_missing r) = 0" using z(1) by linarith+
  then have "mdom (sr_missing r) = {}" by (simp add: mlen_card)
  then have none: "mget (sr_missing r) x = None" for x by blast
  have "n \<in> A" using assms(1) z(2) by (simp add: recv_inv_def)
  then have "n < unat (sr_next r)" using assms(1) z' by (simp add: recv_inv_def)
  then have "k \<in> A" if "k \<le> n" for k using that assms(1) z' none by (auto simp: recv_inv_def)
  then show ?thesis using assms(1) by (auto simp: recv_inv_def)
qed

lemma observe_again:
  assumes "seq \<noteq> - 1"
  shows "recv_status (observe seq (observe seq r)) =
    (fst (recv_status (observe seq (observe seq r))), snd (recv_status (observe seq r)))"
    "fst (recv_status (observe seq (observe seq r))) \<le> fst (recv_status (observe seq r))"
proof -
  have "unat (seq + 1) = Suc (unat seq)" using assms by (metis add.commute unatSuc add_eq_0_iff)
  then have "seq < seq + 1" by (simp add: word_less_nat_alt)
  then have lt: "seq < sr_next (observe seq r)" by (simp add: observe_def)
  have "mlen (mdel seq m) \<le> mlen m" for m :: "(32 word, unit) gomap"
    by (cases "mget m seq") (simp_all add: mlen_del_old mlen_del_new)
  then show "recv_status (observe seq (observe seq r)) =
      (fst (recv_status (observe seq (observe seq r))), snd (recv_status (observe seq r)))"
    "fst (recv_status (observe seq (observe seq r))) \<le> fst (recv_status (observe seq r))"
    using lt by (simp_all add: recv_status_def observe_def [of seq "observe seq r"])
qed

lemma observe_markFinished: "observe seq (markFinished r) = markFinished (observe seq r)"
proof -
  have "gap_loop h seq (markFinished r) = markFinished (gap_loop h seq r)" for h
  proof (induction h seq r rule: gap_loop.induct)
    case (1 h seq r)
    then show ?case by (cases r) (simp add: gap_loop.simps [of h] markFinished_def)
  qed
  then show ?thesis by (cases r) (simp add: observe_def, simp add: markFinished_def)
qed

lemma observe_set_damaged: "observe seq (r\<lparr>sr_damaged := x\<rparr>) = (observe seq r)\<lparr>sr_damaged := x\<rparr>"
proof -
  have "gap_loop h seq (r\<lparr>sr_damaged := x\<rparr>) = (gap_loop h seq r)\<lparr>sr_damaged := x\<rparr>" for h
  proof (induction h seq r rule: gap_loop.induct)
    case (1 h seq r)
    then show ?case by (cases r) (simp add: gap_loop.simps [of h])
  qed
  then show ?thesis by (cases r) (simp add: observe_def)
qed

lemma recvChunk_again:
  assumes "recvChunk c s ch r = (r', E)" "E \<noteq> []" "ch_Seq ch \<noteq> - 1"
  shows "\<exists>r2. recvChunk c s ch r' = (r2, E) \<and> fst (recv_status r2) \<le> fst (recv_status r') \<and> snd (recv_status r2) = snd (recv_status r')"
proof -
  let ?o = "observe (ch_Seq ch)" and ?fin = "\<lambda>r. if ch_Fin ch then markFinished r else r"
  let ?op = "if Active s then AEADOpen c (Key s) (ch_Data ch) (StreamAAD s (ch_ID ch) (ch_Seq ch) (ch_Stream ch) (ch_Fin ch)) else Inr (ch_Data ch)"
  obtain data where d: "?op = Inr data" using assms(1,2) unfolding recvChunk_def by (cases ?op) auto
  have step: "recvChunk c s ch r = (?fin (?o r), if data \<noteq> [] then [(ch_Stream ch, data)] else [])" for r
    unfolding recvChunk_def d by (simp add: Let_def)
  have r': "r' = ?fin (?o r)" and E: "E = (if data \<noteq> [] then [(ch_Stream ch, data)] else [])" using step [of r] assms(1) by auto
  have "?fin (?o r') = ?fin (?o (?o r))" unfolding r' by (simp add: observe_markFinished) (simp add: markFinished_def)
  then have "recvChunk c s ch r' = (?fin (?o (?o r)), E)" using step [of r'] E by simp
  then show ?thesis using r' observe_again [OF assms(3), of r] by (auto simp: recv_status_def markFinished_def)
qed

section \<open>Deliveries\<close>

definition delivered :: "64 word \<Rightarrow> (64 word \<times> string \<times> bytes) list \<Rightarrow> (string \<times> bytes) list" where
  "delivered i lg = map snd (filter (\<lambda>e. fst e = i) lg)"

definition due :: "(string \<times> bytes) list \<Rightarrow> nat set \<Rightarrow> nat set" where
  "due outs A = {k \<in> A. k < length outs \<and> snd (outs ! k) \<noteq> []}"

definition log_inv :: "(string \<times> bytes) list \<Rightarrow> nat set \<Rightarrow> (string \<times> bytes) multiset \<Rightarrow> bool" where
  "log_inv outs A D \<longleftrightarrow> image_mset (nth outs) (mset_set (due outs A)) \<subseteq># D"

definition all_delivered :: "(string \<times> bytes) list \<Rightarrow> (string \<times> bytes) multiset \<Rightarrow> bool" where
  "all_delivered outs D \<longleftrightarrow> mset (filter (\<lambda>x. snd x \<noteq> []) outs) \<subseteq># D"

lemma delivered_append [simp]: "delivered i (xs @ ys) = delivered i xs @ delivered i ys"
  by (simp add: delivered_def)

lemma finite_due [simp, intro]: "finite (due outs A)"
  by (rule finite_subset [of _ "{..<length outs}"]) (auto simp: due_def)

lemma filter_mset_nth: "mset (filter P outs) = image_mset (nth outs) (mset_set {k. k < length outs \<and> P (outs ! k)})"
proof -
  let ?ks = "filter (P \<circ> nth outs) [0..<length outs]"
  have "filter P outs = map (nth outs) ?ks" by (metis filter_map map_nth)
  moreover have "mset ?ks = mset_set {k. k < length outs \<and> P (outs ! k)}"
    using mset_set_set [of ?ks] by (simp add: Collect_conj_eq lessThan_def)
  ultimately show ?thesis by simp
qed

lemma log_inv_all: "log_inv outs {..length outs} D \<longleftrightarrow> all_delivered outs D"
proof -
  have "due outs {..length outs} = {k. k < length outs \<and> snd (outs ! k) \<noteq> []}" by (auto simp: due_def)
  then show ?thesis by (simp only: log_inv_def all_delivered_def filter_mset_nth)
qed

lemma log_inv_step:
  assumes "log_inv outs A D" "E = (if k < length outs \<and> snd (outs ! k) \<noteq> [] then [outs ! k] else [])"
  shows "log_inv outs (insert k A) (D + mset E)"
proof (cases "k < length outs \<and> snd (outs ! k) \<noteq> [] \<and> k \<notin> A")
  case True
  then have "due outs (insert k A) = insert k (due outs A)" "k \<notin> due outs A" by (auto simp: due_def)
  with True assms show ?thesis by (simp add: log_inv_def)
next
  case False
  then have "due outs (insert k A) = due outs A" by (auto simp: due_def)
  with assms(1) show ?thesis by (auto simp: log_inv_def intro: subset_mset.order_trans)
qed

section \<open>Runs\<close>

text \<open>What the handlers of call \<open>i\<close> under way still owe: callbacks to be made, damages to be marked.\<close>

definition mine :: "64 word \<Rightarrow> stream_handler list \<Rightarrow> stream_handler multiset" where
  "mine i hs = filter_mset (\<lambda>h. ch_ID (h_chunk h) = i) (mset hs)"

fun owed :: "stream_handler \<Rightarrow> (string \<times> bytes) list" where
  "owed (HMark ch (Some data)) = (if data \<noteq> [] then [(ch_Stream ch, data)] else [])"
| "owed (HCall ch data) = [(ch_Stream ch, data)]"
| "owed _ = []"

definition under_way :: "64 word \<Rightarrow> stream_handler list \<Rightarrow> (string \<times> bytes) list" where
  "under_way i hs = concat (map owed (filter (\<lambda>h. ch_ID (h_chunk h) = i) hs))"

fun damage_due :: "stream_handler \<Rightarrow> bool" where
  "damage_due (HMark ch None) = True"
| "damage_due _ = False"

definition owes :: "stream_handler multiset \<Rightarrow> (string \<times> bytes) multiset" where
  "owes M = (\<Sum>h \<in># M. mset (owed h))"

definition damages :: "stream_handler multiset \<Rightarrow> int" where
  "damages M = int (size (filter_mset damage_due M))"

lemma owes_simps [simp]: "owes {#} = {#}" "owes (add_mset h M) = mset (owed h) + owes M"
  by (simp_all add: owes_def)

lemma damages_simps [simp]: "damages {#} = 0" "damages (add_mset h M) = (if damage_due h then 1 else 0) + damages M"
  by (simp_all add: damages_def)

lemma mset_under_way: "mset (under_way i hs) = owes (mine i hs)"
  by (induction hs) (simp_all add: under_way_def mine_def)

lemma damages_zero: "(\<forall>h \<in># M. \<not> damage_due h) \<Longrightarrow> damages M = 0"
  by (induction M) auto

lemma mine_append [simp]: "mine i (xs @ ys) = mine i xs + mine i ys"
  by (simp add: mine_def)

lemma mine_Nil [simp]: "mine i [] = {#}" and mine_Cons: "mine i (h # hs) = (if ch_ID (h_chunk h) = i then {#h#} else {#}) + mine i hs"
  by (simp_all add: mine_def)

lemma mine_nth: "k < length hs \<Longrightarrow> mine i hs = (if ch_ID (h_chunk (hs ! k)) = i then {#hs ! k#} else {#}) + mine i (but_nth k hs)"
  using mset_but_nth [of k hs] by (simp add: mine_def)

lemma mine_other: "j \<noteq> i \<Longrightarrow> mine i (filter (\<lambda>h. ch_ID (h_chunk h) \<noteq> j) hs) = mine i hs"
  by (auto simp: mine_def filter_filter_mset intro!: filter_mset_cong)

lemma handlerStep_dropped:
  "handlerStep c h b = (b', hs, out) \<Longrightarrow> mget (b_streamCbs b) (ch_ID (h_chunk h)) = None \<Longrightarrow> mget (b_streamCbs b') (ch_ID (h_chunk h)) = None"
  by (induction c h b rule: handlerStep.induct) (auto split: if_splits)

lemma handlerStep_chunk:
  assumes "handlerStep c h b = (b', hs, out)"
  shows "\<forall>h' \<in> set hs. h_chunk h' = h_chunk h" "\<forall>e \<in> set out. fst e = ch_ID (h_chunk h)"
    "j \<noteq> ch_ID (h_chunk h) \<Longrightarrow> mget (b_streamCbs b') j = mget (b_streamCbs b) j"
  using assms by (induction c h b rule: handlerStep.induct) (auto split: if_splits)

text \<open>A handler of call \<open>i\<close>: what was opened is a frame of the call.\<close>

definition frame_no :: "64 word \<Rightarrow> (string \<times> bytes) list \<Rightarrow> nat \<Rightarrow> StreamChunk \<Rightarrow> bytes \<Rightarrow> bool" where
  "frame_no i outs k ch data \<longleftrightarrow> k \<le> length outs \<and> ch\<lparr>ch_Data := data\<rparr> = frame_at i outs k"

fun hand_ok :: "64 word \<Rightarrow> (string \<times> bytes) list \<Rightarrow> stream_handler \<Rightarrow> bool" where
  "hand_ok i outs (HOpen ch) = small_chunk ch"
| "hand_ok i outs (HObserve ch (Some data)) = (\<exists>k. frame_no i outs k ch data)"
| "hand_ok i outs (HMark ch (Some data)) = (\<exists>k. frame_no i outs k ch data)"
| "hand_ok i outs (HCall ch data) = ((ch_Stream ch, data) \<in> set outs)"
| "hand_ok i outs _ = True"

fun seen_in :: "64 word \<Rightarrow> (string \<times> bytes) list \<Rightarrow> nat set \<Rightarrow> stream_handler \<Rightarrow> bool" where
  "seen_in i outs A (HMark ch (Some data)) = (\<exists>k \<in> A. frame_no i outs k ch data)"
| "seen_in i outs A _ = True"

lemma seen_in_mono: "seen_in i outs A h \<Longrightarrow> A \<subseteq> B \<Longrightarrow> seen_in i outs B h"
  by (cases "(i, outs, A, h)" rule: seen_in.cases) auto

lemma frame_no_eqs:
  assumes "frame_no i outs k ch data"
  shows "ch_Seq ch = of_nat k" "ch_Fin ch \<longleftrightarrow> k = length outs" "ch_Stream ch = (if k < length outs then fst (outs ! k) else [])"
    "data = (if k < length outs then snd (outs ! k) else [])" "k \<le> length outs"
  using assms frame_at_sel [of i outs k] unfolding frame_no_def by (auto dest: sym)

lemma frame_no_owed:
  assumes "frame_no i outs k ch data"
  shows "owed (HMark ch (Some data)) = (if k < length outs \<and> snd (outs ! k) \<noteq> [] then [outs ! k] else [])"
  using frame_no_eqs [OF assms] by auto

lemma openChunk_frame:
  assumes tr: "trusted c Q R F s" and sm: "small_seals Q R F" "small_chunk ch"
    and F: "{f \<in> F. ch_ID f = i} \<subseteq> set (stream_frames i outs)" and ch: "ch_ID ch = i" and op: "openChunk c s ch = Some data"
  shows "\<exists>k. frame_no i outs k ch data"
proof -
  have "AEADOpen c (Key s) (ch_Data ch) (StreamAAD s (ch_ID ch) (ch_Seq ch) (ch_Stream ch) (ch_Fin ch)) = Inr data"
    using op tr by (auto simp: openChunk_def trusted_def split: sum.splits)
  then have "(chunk_aad s ch, data) \<in> seals s Q R F" using tr by (auto simp: trusted_def unforged_def chunk_aad_def)
  then have "ch\<lparr>ch_Data := data\<rparr> \<in> F" using tr sm by (auto simp: trusted_def intro: sealed_chunk_origin)
  then have "ch\<lparr>ch_Data := data\<rparr> \<in> set (stream_frames i outs)" using F ch by auto
  then show ?thesis by (auto simp: frame_no_def stream_frames_def less_Suc_eq_le simp del: upt_Suc)
qed

text \<open>The reception as it will be when the marks that are due are made.\<close>

definition virt :: "stream_handler multiset \<Rightarrow> streamRecv \<Rightarrow> streamRecv" where
  "virt M r = r\<lparr>sr_damaged := sr_damaged r + damages M\<rparr>"

definition live_at :: "64 word \<Rightarrow> (string \<times> bytes) list \<Rightarrow> nat set \<Rightarrow> streamRecv \<Rightarrow> stream_handler multiset \<Rightarrow> (string \<times> bytes) multiset \<Rightarrow> bool" where
  "live_at i outs A r M D \<longleftrightarrow> recv_inv (length outs) A (virt M r) \<and> log_inv outs A (D + owes M) \<and> (\<forall>h \<in># M. seen_in i outs A h)"

definition live_ok :: "64 word \<Rightarrow> (string \<times> bytes) list \<Rightarrow> brun \<Rightarrow> (string \<times> bytes) list \<Rightarrow> bool" where
  "live_ok i outs st D \<longleftrightarrow> (\<exists>r A. mget (b_streamCbs (br st)) i = Some r \<and> live_at i outs A r (mine i (hands st)) (mset D))"

definition stream_inv :: "64 word \<Rightarrow> (string \<times> bytes) list \<Rightarrow> nat \<Rightarrow> brun \<Rightarrow> bool" where
  "stream_inv i outs n0 st \<longleftrightarrow> n0 \<le> length (cb_log st) \<and> (\<forall>h \<in># mine i (hands st). hand_ok i outs h) \<and>
     (let D = delivered i (drop n0 (cb_log st))
      in set D \<subseteq> set outs \<and>
         (case phases st i of
            Idle \<Rightarrow> False
          | Done res \<Rightarrow> mget (b_streamCbs (br st)) i = None \<and>
              (\<forall>p. res = Inr p \<longrightarrow> (\<forall>h \<in># mine i (at_end st i). \<not> damage_due h) \<longrightarrow> all_delivered outs (mset D + owes (mine i (hands st))))
          | _ \<Rightarrow> live_ok i outs st D))"

lemma virt_observe: "virt M (observe seq r) = observe seq (virt M r)"
  using gap_loop_spec [of "sr_next r" seq r] by (simp add: virt_def observe_set_damaged) (simp add: observe_def)

lemma handlerStep_ok:
  assumes tr: "trusted c Q R F (b_sess b)" and sm: "small_seals Q R F"
    and F: "{f \<in> F. ch_ID f = i} \<subseteq> set (stream_frames i outs)" and id: "ch_ID (h_chunk h) = i"
    and ok: "hand_ok i outs h" and st: "handlerStep c h b = (b', hs, out)"
  shows "(\<forall>h' \<in> set hs. hand_ok i outs h') \<and> set (map snd out) \<subseteq> set outs \<and> mset (owed h) \<subseteq># mset (map snd out) + owes (mset hs)"
proof (cases h)
  case (HOpen ch)
  show ?thesis
  proof (cases "openChunk c (b_sess b) ch")
    case (Some data)
    then show ?thesis using HOpen st openChunk_frame [OF tr sm _ F _ Some] ok id by auto
  qed (use HOpen st in auto)
next
  case (HObserve ch d)
  then show ?thesis using st ok by (cases d) auto
next
  case (HMark ch d)
  show ?thesis
  proof (cases d)
    case (Some data)
    then obtain k where k: "frame_no i outs k ch data" using ok HMark by auto
    have "(ch_Stream ch, data) \<in> set outs" if "data \<noteq> []"
      using frame_no_eqs(3-5) [OF k] that by (auto split: if_splits)
    then show ?thesis using st HMark Some by (auto split: if_splits)
  qed (use st HMark in auto)
next
  case (HCall ch data)
  then show ?thesis using st ok by auto
qed

text \<open>One step of a handler of a call that is still open.\<close>

lemma live_step:
  assumes L: "live_at i outs A r (add_mset h M) D" and ok: "hand_ok i outs h" and id: "ch_ID (h_chunk h) = i"
    and st: "handlerStep c h b = (b', hs, out)" and r: "mget (b_streamCbs b) i = Some r" and n: "length outs < 2 ^ 32 - 1"
  shows "\<exists>r' A'. mget (b_streamCbs b') i = Some r' \<and> live_at i outs A' r' (mset hs + M) (D + mset (map snd out))"
proof -
  note l = L [unfolded live_at_def]
  show ?thesis
  proof (cases h)
    case (HOpen ch)
    then show ?thesis using l st r by (auto simp: live_at_def virt_def)
  next
    case (HObserve ch d)
    then have s: "b' = updRecv i (observe (ch_Seq ch)) b" "hs = [HMark ch d]" "out = []" using st id by auto
    have v: "recv_inv (length outs) A (virt M r)" using l HObserve by (simp add: virt_def)
    show ?thesis
    proof (cases d)
      case None
      have "recv_inv (length outs) A (virt (add_mset (HMark ch None) M) (observe (ch_Seq ch) r))"
        using observe_damaged [OF v, of "ch_Seq ch"] unfolding virt_observe [symmetric]
        by (simp add: virt_def markDamaged_def ac_simps)
      then show ?thesis using s r l HObserve None by (auto simp: live_at_def)
    next
      case (Some data)
      then obtain k where k: "frame_no i outs k ch data" using ok HObserve by auto
      have "recv_inv (length outs) (insert k A) (virt (add_mset (HMark ch d) M) (observe (ch_Seq ch) r))"
        using observe_authentic [OF v frame_no_eqs(5) [OF k] n] frame_no_eqs(1) [OF k] Some by (simp add: virt_def [of "add_mset _ _"] flip: virt_def virt_observe)
      moreover have "log_inv outs (insert k A) (D + owes (add_mset (HMark ch d) M))"
        using log_inv_step [OF _ frame_no_owed [OF k], of A "D + owes M"] l HObserve Some by (simp add: ac_simps)
      moreover have "\<forall>h \<in># add_mset (HMark ch d) M. seen_in i outs (insert k A) h"
        using l k Some seen_in_mono [of i outs A _ "insert k A"] by auto
      ultimately show ?thesis using s r by (auto simp: live_at_def)
    qed
  next
    case (HMark ch d)
    show ?thesis
    proof (cases d)
      case None
      then have s: "b' = updRecv i markDamaged b" "hs = []" "out = []" using st id HMark by auto
      have "virt M (markDamaged r) = virt (add_mset h M) r" using HMark None by (simp add: virt_def markDamaged_def)
      then show ?thesis using s r l HMark None by (auto simp: live_at_def)
    next
      case (Some data)
      then obtain k where k: "k \<in> A" "frame_no i outs k ch data" using l HMark by auto
      let ?r = "if ch_Fin ch then markFinished r else r"
      have s: "b' = (if ch_Fin ch then updRecv i markFinished b else b)" "hs = (if data \<noteq> [] then [HCall ch data] else [])" "out = []"
        using st id HMark Some by auto
      have "mget (b_streamCbs b') i = Some ?r" using s(1) r by simp
      moreover have "recv_inv (length outs) A (virt (mset hs + M) ?r)"
        using l k frame_no_eqs(2) [OF k(2)] HMark Some s(2) by (auto simp: virt_def recv_inv_def markFinished_def)
      moreover have "owes (mset hs + M) = owes (add_mset h M)" using s(2) HMark Some by auto
      moreover have "\<forall>h \<in># mset hs + M. seen_in i outs A h" using l s(2) by auto
      ultimately show ?thesis using l s(3) by (auto simp: live_at_def)
    qed
  next
    case (HCall ch data)
    then show ?thesis using l st r by (auto simp: live_at_def virt_def ac_simps)
  qed
qed

lemma delivered_tagged: "\<forall>e \<in> set out. fst e = j \<Longrightarrow> delivered i out = (if j = i then map snd out else [])"
  by (induction out) (auto simp: delivered_def)

lemma stream_inv_same:
  assumes "stream_inv i outs n0 st" "phases st' i = phases st i" "cb_log st' = cb_log st" "mine i (hands st') = mine i (hands st)"
    "at_end st' i = at_end st i" "mget (b_streamCbs (br st')) i = mget (b_streamCbs (br st)) i"
  shows "stream_inv i outs n0 st'"
  using assms unfolding stream_inv_def live_ok_def by (simp only:) blast

lemma stream_inv_error: "stream_inv i outs n0 st \<Longrightarrow> stream_inv i outs n0 (finish_call i (Inl e) st)"
  by (simp add: stream_inv_def Let_def finish_call_def)

lemma stream_inv_live:
  assumes "stream_inv i outs n0 st" "phases st i = Waiting s \<or> phases st i = Settling s p"
  shows "live_ok i outs st (delivered i (drop n0 (cb_log st)))"
  using assms by (auto simp: stream_inv_def Let_def)

lemma stream_inv_look:
  assumes inv: "stream_inv i outs n0 st" and "phases st i = Waiting s \<or> phases st i = Settling s p" and "\<not> Legacy s"
  shows "stream_inv i outs n0 (look i s result final st)"
proof -
  let ?D = "delivered i (drop n0 (cb_log st))" and ?M = "mine i (hands st)"
  obtain r A where l: "mget (b_streamCbs (br st)) i = Some r" "live_at i outs A r ?M (mset ?D)"
    using stream_inv_live [OF inv assms(2)] by (auto simp: live_ok_def)
  have v: "recv_inv (length outs) A (virt ?M r)" "log_inv outs A (mset ?D + owes ?M)" using l(2) by (simp_all add: live_at_def)
  have fin: "RequireStreamTerminator s" using assms(3) by (simp add: RequireStreamTerminator_def)
  have "all_delivered outs (mset ?D + owes ?M)" if "checkStream s r [] result = Inr q" "\<forall>h \<in># ?M. \<not> damage_due h" for q
  proof -
    have r: "recv_inv (length outs) A r" using v(1) damages_zero [OF that(2)] by (simp add: virt_def)
    then have "0 \<le> fst (recv_status r)" by (auto simp: recv_status_def recv_inv_def)
    then have "settled True (recv_status r)"
      using that(1) fin by (auto simp: checkStream_def settled_def Let_def split: prod.splits if_splits)
    with recv_complete [OF r] v(2) show ?thesis by (simp add: log_inv_all)
  qed
  with inv l show ?thesis
    by (auto simp: look_def stream_inv_def Let_def live_ok_def finish_call_def)
qed

lemma stream_inv_in:
  assumes inv: "stream_inv i outs n0 st" and sm: "small_frames dec"
  shows "stream_inv i outs n0 (bridge_step c m dec (BIn msg) st)"
proof -
  obtain b' hs where h: "beginInbound dec msg (br st) = (b', hs)" by fastforce
  have s: "b_streamCbs b' = b_streamCbs (br st)" by (rule beginInbound_fields(5) [OF h])
  have hs: "hs = [] \<or> (\<exists>ch. hs = [HOpen ch] \<and> small_chunk ch \<and> mget (b_streamCbs (br st)) (ch_ID ch) \<noteq> None)"
    using h sm by (auto simp: beginInbound_def small_frames_def split: if_splits option.splits)
  show ?thesis
  proof (cases "\<exists>ch. hs = [HOpen ch] \<and> ch_ID ch = i")
    case True
    then obtain ch where ch: "hs = [HOpen ch]" "ch_ID ch = i" "small_chunk ch" using hs by auto
    have m: "mine i (hands st @ hs) = add_mset (HOpen ch) (mine i (hands st))" using ch by (simp add: mine_Cons)
    have live: "live_at i outs A r (add_mset (HOpen ch) M) D \<longleftrightarrow> live_at i outs A r M D" for A r M D
      by (simp add: live_at_def virt_def)
    show ?thesis
      using inv h s m live ch(3) by (auto simp: stream_inv_def live_ok_def Let_def split: phase.splits)
  next
    case False
    then have "mine i (hands st @ hs) = mine i (hands st)" using hs by (auto simp: mine_Cons)
    then show ?thesis using h s by (intro stream_inv_same [OF inv]) auto
  qed
qed

lemma all_delivered_mono: "all_delivered outs D \<Longrightarrow> D \<subseteq># E \<Longrightarrow> all_delivered outs E"
  unfolding all_delivered_def by (rule subset_mset.order_trans)

lemma stream_inv_next:
  assumes inv: "stream_inv i outs n0 st" and auth: "auth_inv c Q R F st" and sm: "small_seals Q R F"
    and F: "{f \<in> F. ch_ID f = i} \<subseteq> set (stream_frames i outs)" and n: "length outs < 2 ^ 32 - 1"
  shows "stream_inv i outs n0 (bridge_step c m dec (BNext k) st)"
proof (cases "k < length (hands st)")
  case True
  let ?h = "hands st ! k" and ?M = "mine i (but_nth k (hands st))" and ?D = "delivered i (drop n0 (cb_log st))"
  obtain b' hs out where h: "handlerStep c ?h (br st) = (b', hs, out)" by (rule prod_cases3)
  note hc = handlerStep_chunk [OF h]
  let ?st = "st\<lparr>br := b', hands := but_nth k (hands st) @ hs, cb_log := cb_log st @ out\<rparr>"
  have step: "bridge_step c m dec (BNext k) st = ?st" using True h by simp
  have n0: "n0 \<le> length (cb_log st)" using inv by (simp add: stream_inv_def)
  show ?thesis
  proof (cases "ch_ID (h_chunk ?h) = i")
    case False
    have "mine i hs = {#}" using hc(1) False by (auto simp: mine_def)
    then have m: "mine i (but_nth k (hands st) @ hs) = mine i (hands st)" using mine_nth [OF True, of i] False by simp
    have "delivered i out = []" using delivered_tagged [OF hc(2)] False by simp
    then show ?thesis
      unfolding step using inv m n0 hc(3) [of i] False by (simp add: stream_inv_def live_ok_def Let_def split: phase.splits)
  next
    case id: True
    have "mine i hs = mset hs" using hc(1) id by (auto simp: mine_def filter_mset_eq_conv)
    then have m: "mine i (hands st) = add_mset ?h ?M" "mine i (hands ?st) = mset hs + ?M" using mine_nth [OF True, of i] id by simp_all
    have D: "delivered i (drop n0 (cb_log ?st)) = ?D @ map snd out" using n0 delivered_tagged [OF hc(2)] id by simp
    have tr: "trusted c Q R F (b_sess (br st))" using auth by (simp add: auth_inv_def)
    have ok: "hand_ok i outs ?h" "\<forall>h \<in># ?M. hand_ok i outs h" "set ?D \<subseteq> set outs" using inv m(1) by (auto simp: stream_inv_def Let_def)
    note ho = handlerStep_ok [OF tr sm F id ok(1) h]
    have mono: "mset ?D + owes (mine i (hands st)) \<subseteq># mset ?D + mset (map snd out) + owes (mine i (hands ?st))"
      using ho unfolding m by (simp add: owes_def subset_mset.add_mono ac_simps)
    have done_keeps: "mget (b_streamCbs b') i = None" if "mget (b_streamCbs (br st)) i = None"
      using handlerStep_dropped [OF h] that id by simp
    have live: "live_ok i outs ?st (?D @ map snd out)" if "live_ok i outs st ?D"
    proof -
      obtain r A where l: "mget (b_streamCbs (br st)) i = Some r" "live_at i outs A r (add_mset ?h ?M) (mset ?D)"
        using \<open>live_ok i outs st ?D\<close> m(1) by (auto simp: live_ok_def)
      show ?thesis using live_step [OF l(2) ok(1) id h l(1) n] m(2) by (simp add: live_ok_def add.commute [of "mset hs"])
    qed
    show ?thesis
      unfolding step stream_inv_def Let_def D m(2)
      using inv n0 ho ok(2,3) live done_keeps all_delivered_mono [OF _ mono [unfolded m(2)]]
      by (auto simp: stream_inv_def Let_def split: phase.splits)
  qed
qed (use inv in simp)

lemma stream_inv_step:
  assumes inv: "stream_inv i outs n0 st" and auth: "auth_inv c Q R F st" and sm: "small_seals Q R F" "small_frames dec"
    and F: "{f \<in> F. ch_ID f = i} \<subseteq> set (stream_frames i outs)" "length outs < 2 ^ 32 - 1"
    and new: "\<And>b. e = BBegin b \<Longrightarrow> b_nextID (br st) + 1 \<noteq> i"
  shows "stream_inv i outs n0 (bridge_step c m dec e st)"
proof -
  have leg: "\<not> Legacy s" if "phases st j = Waiting s \<or> phases st j = Settling s p" for j s p
  proof -
    have "phase_ok c Q R F j (phases st j)" using auth by (simp add: auth_inv_def)
    then show ?thesis using that by (auto simp: trusted_def)
  qed
  have lk: "stream_inv i outs n0 (look j s result final st)" if "phases st j = Waiting s \<or> phases st j = Settling s p" for j s p result final
  proof (cases "j = i")
    case True
    then show ?thesis using stream_inv_look [OF inv _ leg [OF that]] that by blast
  next
    case False
    then show ?thesis by (intro stream_inv_same [OF inv]) (auto simp: look_def finish_call_def split: option.splits)
  qed
  have fe: "stream_inv i outs n0 (finish_call j (Inl er) st)" for j er
    by (cases "j = i") (use inv stream_inv_error in \<open>auto simp: finish_call_def intro!: stream_inv_same [OF inv]\<close>)
  have fail: "stream_inv i outs n0 (st\<lparr>br := dropCall j (br st), phases := (phases st)(j := Done (Inl er))\<rparr>)" for j er
  proof (cases "j = i")
    case True
    then show ?thesis using inv by (simp add: stream_inv_def Let_def)
  next
    case False
    then show ?thesis by (intro stream_inv_same [OF inv]) auto
  qed
  show ?thesis
  proof (cases e)
    case (BIn msg)
    then show ?thesis using stream_inv_in [OF inv sm(2)] by simp
  next
    case (BNext k)
    then show ?thesis using stream_inv_next [OF inv auth sm(1) F] by simp
  next
    case (BBegin b)
    then show ?thesis using new mine_other [of _ i "hands st"] by (intro stream_inv_same [OF inv]) (auto simp: beginCall_def Let_def)
  next
    case (BSend rnd ok j name args)
    obtain b' res where se: "sendCall c m rnd ok j name args (br st) = (b', res)" by fastforce
    show ?thesis
    proof (cases "phases st j = Begun")
      case True
      from sendCall_cases [OF se] show ?thesis
      proof (elim disjE conjE exE)
        fix er assume "b' = dropCall j (br st)" "res = Inl er"
        then show ?thesis using True se BSend fail [of j er] by simp
      next
        fix f assume "b' = br st" "res = Inr (b_sess (br st), f)"
        then show ?thesis using True se BSend inv
          by (cases "j = i") (auto simp: stream_inv_def live_ok_def Let_def split: phase.splits)
      qed
    qed (use inv BSend in simp)
  next
    case (BTimeout j d)
    then show ?thesis using inv fail [of j] by (auto simp: endCall_def split: phase.splits)
  next
    case (BTake j)
    then show ?thesis using inv fe lk [of j] by (auto split: phase.splits option.splits sum.splits)
  next
    case (BSample j final)
    then show ?thesis using inv lk [of j] by (auto split: phase.splits)
  qed (auto intro: stream_inv_same [OF inv] simp: Bridge_SwapConn_def inv)
qed

lemma nextID_step:
  "b_nextID (br (bridge_step c m dec e st)) = (if \<exists>b. e = BBegin b then b_nextID (br st) + 1 else b_nextID (br st))"
proof (cases e)
  case (BIn msg)
  obtain b' hs where h: "beginInbound dec msg (br st) = (b', hs)" by fastforce
  with BIn beginInbound_fields(3) [OF h] show ?thesis by simp
next
  case (BNext k)
  obtain b' hs out where h: "handlerStep c (hands st ! k) (br st) = (b', hs, out)" by (rule prod_cases3)
  then show ?thesis using BNext handlerStep_fields(3) [OF h] by simp
next
  case (BSend rnd ok i name args)
  obtain b' res where se: "sendCall c m rnd ok i name args (br st) = (b', res)" by fastforce
  with BSend sendCall_cases [OF se] show ?thesis by auto
qed (auto simp: Bridge_SwapConn_def beginCall_def Let_def endCall_def look_def split: phase.splits option.splits sum.splits)

lemma of_nat_64_nonzero: "0 < k \<Longrightarrow> k < 2 ^ 64 \<Longrightarrow> (of_nat k :: 64 word) \<noteq> 0"
  using of_nat_word_inj [where 'a = 64, of k 0] by auto

lemma stream_inv_run:
  assumes "stream_inv i outs n0 st" "auth_inv c Q R F st" "b_nextID (br st) = i + of_nat k" "k + calls_begun evs < 2 ^ 64"
    and sm: "small_seals Q R F" "small_frames dec"
    and F: "{f \<in> F. ch_ID f = i} \<subseteq> set (stream_frames i outs)" "length outs < 2 ^ 32 - 1"
    and sw: "\<And>e s. e \<in> set evs \<Longrightarrow> event_session e = Some s \<Longrightarrow> trusted c Q R F s"
  shows "stream_inv i outs n0 (bridge_run c m dec evs st)"
  using assms(1-4) sw
proof (induction evs arbitrary: st k)
  case Nil
  then show ?case by (simp add: bridge_run_def)
next
  case (Cons e evs)
  let ?st = "bridge_step c m dec e st"
  let ?k = "if \<exists>b. e = BBegin b then Suc k else k"
  have bound: "?k + calls_begun evs < 2 ^ 64" using Cons.prems(4) by (auto simp: calls_begun_def)
  have new: "b_nextID (br st) + 1 \<noteq> i" if "e = BBegin b" for b
  proof -
    have "(of_nat (Suc k) :: 64 word) \<noteq> 0" using bound that by (intro of_nat_64_nonzero) auto
    moreover have "b_nextID (br st) + 1 = i + of_nat (Suc k)" using Cons.prems(3) by simp
    ultimately show ?thesis by (metis add_cancel_left_right)
  qed
  have "auth_inv c Q R F ?st" using auth_step [OF Cons.prems(2) sm] Cons.prems(5) by auto
  moreover have "stream_inv i outs n0 ?st" by (rule stream_inv_step [OF Cons.prems(1,2) sm F new])
  moreover have "b_nextID (br ?st) = i + of_nat ?k" using Cons.prems(3) by (auto simp: nextID_step)
  ultimately have "stream_inv i outs n0 (bridge_run c m dec evs ?st)"
    using Cons.IH [OF _ _ _ bound] Cons.prems(5) by auto
  then show ?case by (simp add: bridge_run_def)
qed

section \<open>Properties\<close>

lemma owed_ok: "hand_ok i outs h \<Longrightarrow> set (owed h) \<subseteq> set outs"
proof (cases "(h)" rule: owed.cases)
  case (1 ch data)
  assume "hand_ok i outs h"
  then obtain k where "frame_no i outs k ch data" using 1 by auto
  from frame_no_owed [OF this] 1 show ?thesis by auto
qed auto

text \<open>
  C3. A streaming call that returns a result has its whole output passed on to its callback: in runs whose sessions are all
  of version 2, if the daemon's sink sealed, for this call, the chunks \<open>outs\<close> (fewer than \<open>2 ^ 32 - 1\<close>) and
  the terminator, then over
  any run against a relay that drops, repeats, reorders, alters and makes up frames, with the handlers of frames
  interleaved step by step, every non-empty chunk is, at least as often as the sink sent it, among the callbacks made (\<open>D\<close>)
  and those a handler is just about to make (\<open>W\<close>), and the callbacks get nothing but chunks of \<open>outs\<close>. Copies
  of a chunk and another order are possible. The condition on \<open>at_end\<close>: when the call came to its verdict, no
  handler of the call was between \<open>observe\<close> and \<open>markDamaged\<close> of a frame that failed to
  open; without it the result may hide a hole (\<open>late_mark_hides_hole\<close>).
\<close>

theorem stream_ok_complete:
  assumes "small_seals Q R F" "small_frames dec" "trusted c Q R F s0"
    and "\<forall>e \<in> set (evs1 @ evs2). \<forall>s. event_session e = Some s \<longrightarrow> trusted c Q R F s"
    and "st1 = bridge_run c m dec evs1 (bridge_start (NewBridge conn s0 rnd))" "i = b_nextID (br st1) + 1"
    and "st = bridge_run c m dec (BBegin True # evs2) st1" "calls_begun evs2 < 2 ^ 64"
    and "{f \<in> F. ch_ID f = i} \<subseteq> set (stream_frames i outs)" "length outs < 2 ^ 32 - 1"
    and "phases st i = Done (Inr p)" "\<forall>ch. ch_ID ch = i \<longrightarrow> HMark ch None \<notin> set (at_end st i)"
    and "D = delivered i (drop (length (cb_log st1)) (cb_log st))" "W = under_way i (hands st)"
  shows "mset (filter (\<lambda>x. snd x \<noteq> []) outs) \<subseteq># mset (D @ W) \<and> set (D @ W) \<subseteq> set outs"
proof -
  let ?st = "bridge_step c m dec (BBegin True) st1"
  have a1: "auth_inv c Q R F st1" unfolding assms(5) by (rule auth_inv_run [OF assms(1-3)]) (use assms(4) in auto)
  then have a: "auth_inv c Q R F ?st" by (rule auth_step [OF _ assms(1,2)]) simp
  have "b_nextID (br ?st) = i + of_nat 0" by (simp add: assms(6) beginCall_def Let_def)
  moreover have "stream_inv i outs (length (cb_log st1)) ?st"
  proof -
    have "mine i (hands ?st) = {#}" by (simp add: assms(6) beginCall_def Let_def mine_def filter_filter_mset flip: filter_mset_False)
    moreover have "live_at i outs {} newStreamRecv {#} {#}"
      using recv_inv_start [of "length outs"] by (simp add: live_at_def virt_def log_inv_def due_def)
    ultimately show ?thesis
      by (auto simp: stream_inv_def beginCall_def Let_def assms(6) live_ok_def delivered_def)
  qed
  ultimately have "stream_inv i outs (length (cb_log st1)) (bridge_run c m dec evs2 ?st)"
    using assms(4,8) by (intro stream_inv_run [OF _ a _ _ assms(1,2,9,10), where k = 0]) auto
  then have inv: "stream_inv i outs (length (cb_log st1)) st" by (simp add: assms(7) bridge_run_def)
  have "\<not> damage_due h" if "h \<in># mine i (at_end st i)" for h
    using that assms(12) by (cases h rule: damage_due.cases) (auto simp: mine_def)
  then have "all_delivered outs (mset D + owes (mine i (hands st)))"
    using inv assms(11,13) by (simp add: stream_inv_def Let_def)
  moreover have "set W \<subseteq> set outs"
    using inv owed_ok unfolding assms(14) under_way_def by (fastforce simp: stream_inv_def mine_def)
  moreover have "set D \<subseteq> set outs" using inv assms(13) by (simp add: stream_inv_def Let_def)
  ultimately show ?thesis by (simp add: all_delivered_def assms(14) mset_under_way)
qed

definition sample_outs :: "(string \<times> bytes) list" where
  "sample_outs = [(''stdout'', [5])]"

definition on_wire :: "bytes \<Rightarrow> bytes \<Rightarrow> bytes" where
  "on_wire a p = replicate 24 0 @ esc a @ p"

definition wire_chunk :: "StreamChunk \<Rightarrow> StreamChunk" where
  "wire_chunk f = f\<lparr>ch_Data := on_wire (chunk_aad sample_sess f) (ch_Data f)\<rparr>"

definition stream_dec :: bridge_decoders where
  "stream_dec = \<lparr>
     dec_Resp = (\<lambda>p. Some (okResp 1 (on_wire (resp_aad sample_sess (okResp 1 [7])) [7]))),
     dec_Chunk = (\<lambda>p. Some (wire_chunk (frame_at 1 sample_outs (length p))))\<rparr>"

definition sample_seals :: "(bytes \<times> bytes) list" where
  "sample_seals = [(chunk_aad sample_sess (frame_at 1 sample_outs 0), [5]), (chunk_aad sample_sess (frame_at 1 sample_outs 1), []),
     (resp_aad sample_sess (okResp 1 [7]), [7])]"

definition stream_events :: "bridge_event list" where
  "stream_events =
     [BSend (Some (replicate 24 0)) True 1 ''exec'' [], BIn \<lparr>msg_Type = MsgToolStream, msg_Payload = [0]\<rparr>,
      BNext 0, BNext 0, BNext 0, BIn \<lparr>msg_Type = MsgToolResp, msg_Payload = []\<rparr>, BTake 1,
      BIn \<lparr>msg_Type = MsgToolStream, msg_Payload = []\<rparr>, BNext 0, BNext 0, BNext 0, BSample 1 False, BNext 0]"

lemma sample_seals_distinct: "distinct (map fst sample_seals)"
proof -
  have "chunk_aad sample_sess (frame_at 1 sample_outs 0) \<noteq> chunk_aad sample_sess (frame_at 1 sample_outs 1)"
    unfolding aad_conv(3) [OF sample_v2]
  proof
    assume "StreamChunkAAD (ch_ID (frame_at 1 sample_outs 0)) (ch_Seq (frame_at 1 sample_outs 0)) (ch_Stream (frame_at 1 sample_outs 0)) (ch_Fin (frame_at 1 sample_outs 0)) =
      StreamChunkAAD (ch_ID (frame_at 1 sample_outs 1)) (ch_Seq (frame_at 1 sample_outs 1)) (ch_Stream (frame_at 1 sample_outs 1)) (ch_Fin (frame_at 1 sample_outs 1))"
    from StreamChunkAAD_inj [OF this] show False by (simp add: frame_at_def sample_outs_def)
  qed
  then show ?thesis
    using aad_tags_disjoint(3) by (auto simp: sample_seals_def aad_conv(2,3) [OF sample_v2] dest: sym)
qed

lemma wire_open: "(a, p) \<in> set sample_seals \<Longrightarrow> AEADOpen (listed_cipher sample_seals) k (on_wire a p) a = Inr p"
  unfolding on_wire_def by (rule sample_open [OF _ sample_seals_distinct])

lemma sample_chunks:
  assumes "k \<le> 1"
  shows "openChunk (listed_cipher sample_seals) sample_sess (wire_chunk (frame_at 1 sample_outs k)) = Some (if k = 0 then [5] else [])"
proof -
  have "k = 0 \<or> k = 1" using assms by auto
  then show ?thesis
    using wire_open [of "chunk_aad sample_sess (frame_at 1 sample_outs k)" "ch_Data (frame_at 1 sample_outs k)" "Key sample_sess"] sample_active
    by (auto simp: sample_seals_def openChunk_def wire_chunk_def chunk_aad_def frame_at_def sample_outs_def Let_def)
qed

definition sample_state :: "toolReply option \<Rightarrow> streamRecv \<Rightarrow> phase \<Rightarrow> stream_handler list \<Rightarrow> brun" where
  "sample_state reply recv ph hs =
     \<lparr>br = \<lparr>b_conn = ''relay'', b_sess = sample_sess, b_nextID = 1, b_pending = mput 1 reply mempty, b_streamCbs = mput 1 recv mempty, b_closed = False\<rparr>,
       phases = (\<lambda>_. Idle)(1 := ph), hands = hs, at_end = (\<lambda>_. []), cb_log = []\<rparr>"

lemma sample_state_sel [simp]:
  "phases (sample_state reply recv ph hs) 1 = ph" "mget (b_pending (br (sample_state reply recv ph hs))) 1 = Some reply"
  by (simp_all add: sample_state_def)

lemma sample_open_resp:
  "openReply (listed_cipher sample_seals) plain_armor sample_sess (okResp 1 (on_wire (resp_aad sample_sess (okResp 1 [7])) [7])) = Inr [7]"
  using wire_open [of "resp_aad sample_sess (okResp 1 [7])" "[7]" "Key sample_sess"]
  by (simp add: openReply_def AEADOpenJSON_def plain_armor_def Let_def resp_aad_def okResp_def sample_active sample_seals_def on_wire_def)

lemma sample_sent:
  "bridge_run (listed_cipher l) plain_armor d [BBegin True, BSend (Some (replicate 24 0)) True 1 ''exec'' []] (bridge_start (NewBridge ''relay'' sample_sess None)) =
   sample_state None newStreamRecv (Waiting sample_sess) []"
  by (simp add: bridge_run_def bridge_start_def NewBridge_def newIDEpoch_def beginCall_def sendCall_def sealReq_def AEADSealJSON_def AEADSeal_def
        sample_active sample_state_def Let_def fun_upd_idem)

lemma sample_frame:
  assumes "dec_Chunk d p = Some ch" "ch_ID ch = 1" "openChunk c sample_sess ch = Some data"
  shows "bridge_run c m d [BIn \<lparr>msg_Type = MsgToolStream, msg_Payload = p\<rparr>, BNext 0, BNext 0, BNext 0] (sample_state reply recv ph []) =
    sample_state reply ((if ch_Fin ch then markFinished else id) (observe (ch_Seq ch) recv)) ph (if data \<noteq> [] then [HCall ch data] else [])"
  using assms by (simp add: bridge_run_def sample_state_def beginInbound_def tool_msg_types updRecv_def but_nth_def)

lemma sample_reply:
  assumes "dec_Resp d p = Some r" "resp_ID r = 1"
  shows "bridge_run c m d [BIn \<lparr>msg_Type = MsgToolResp, msg_Payload = p\<rparr>] (sample_state None recv ph hs) =
    sample_state (Some \<lparr>tr_resp = r, tr_local = False\<rparr>) recv ph hs"
  using assms by (simp add: bridge_run_def sample_state_def beginInbound_def tool_msg_types putReply_def)

lemma sample_look:
  "look 1 sample_sess result False (sample_state reply recv ph hs) =
   (if settled (RequireStreamTerminator sample_sess) (recv_status recv)
    then finish_call 1 (checkStream sample_sess recv [] result) (sample_state reply recv ph hs)
    else sample_state reply recv (Settling sample_sess result) hs)"
  by (simp add: look_def sample_state_def)

lemma sample_settled: "RequireStreamTerminator sample_sess" "settled True (recv_status r) \<Longrightarrow> checkStream sample_sess r [] result = Inr result"
proof -
  show t: "RequireStreamTerminator sample_sess" using sample_v2 by (simp add: RequireStreamTerminator_def)
  show "settled True (recv_status r) \<Longrightarrow> checkStream sample_sess r [] result = Inr result"
    using t by (auto simp: checkStream_def settled_def Let_def split: prod.splits)
qed

lemma sample_receptions:
  "settled True (recv_status (observe 0 (markFinished (observe 1 newStreamRecv))))"
  "\<not> settled True (recv_status (markFinished (observe 1 newStreamRecv)))"
  "settled True (recv_status (markFinished (observe 1 (observe 0 newStreamRecv))))"
proof -
  have g: "gap_loop 0 1 newStreamRecv = newStreamRecv\<lparr>sr_missing := mput 0 () mempty\<rparr>"
    by (simp add: gap_loop.simps newStreamRecv_def maxTrackedGaps_def)
  have q: "observe 1 newStreamRecv = newStreamRecv\<lparr>sr_missing := mput 0 () mempty, sr_next := 2\<rparr>"
    using g by (simp add: observe_def newStreamRecv_def)
  have z: "mlen (mdel 0 (mput (0 :: 32 word) () mempty)) = 0"
    by (simp add: mlen_del_old mlen_put_new)
  show "settled True (recv_status (observe 0 (markFinished (observe 1 newStreamRecv))))"
    "\<not> settled True (recv_status (markFinished (observe 1 newStreamRecv)))"
    unfolding q by (simp_all add: observe_def markFinished_def newStreamRecv_def settled_def recv_status_def z mlen_put_new)
  show "settled True (recv_status (markFinished (observe 1 (observe 0 newStreamRecv))))"
    by (simp add: observe_def gap_loop.simps markFinished_def newStreamRecv_def settled_def recv_status_def)
qed

lemma sample_wire:
  "ch_ID (wire_chunk (frame_at 1 sample_outs k)) = 1" "ch_Seq (wire_chunk (frame_at 1 sample_outs k)) = of_nat k"
  "ch_Fin (wire_chunk (frame_at 1 sample_outs k)) \<longleftrightarrow> 1 \<le> k" "ch_Stream (wire_chunk (frame_at 1 sample_outs 0)) = ''stdout''"
  by (auto simp: wire_chunk_def frame_at_def sample_outs_def)

lemma stream_sample_run:
  assumes "st = bridge_run (listed_cipher sample_seals) plain_armor stream_dec (BBegin True # stream_events)
     (bridge_run (listed_cipher sample_seals) plain_armor stream_dec [] (bridge_start (NewBridge ''relay'' sample_sess None)))"
  shows "phases st 1 = Done (Inr [7]) \<and> cb_log st = [(1, ''stdout'', [5])] \<and> hands st = [] \<and>
   at_end st 1 = [HCall (wire_chunk (frame_at 1 sample_outs 0)) [5]]"
proof -
  let ?run = "bridge_run (listed_cipher sample_seals) plain_armor stream_dec"
  let ?in = "\<lambda>t p. BIn \<lparr>msg_Type = t, msg_Payload = p\<rparr>"
  let ?ch = "wire_chunk (frame_at 1 sample_outs 0)"
  let ?reply = "\<lparr>tr_resp = okResp 1 (on_wire (resp_aad sample_sess (okResp 1 [7])) [7]), tr_local = False\<rparr>"
  let ?r1 = "markFinished (observe 1 newStreamRecv)"
  have ev: "BBegin True # stream_events = [BBegin True, BSend (Some (replicate 24 0)) True 1 ''exec'' []] @
      [?in MsgToolStream [0], BNext 0, BNext 0, BNext 0] @ [?in MsgToolResp []] @ [BTake 1] @
      [?in MsgToolStream [], BNext 0, BNext 0, BNext 0] @ [BSample 1 False, BNext 0]"
    by (simp add: stream_events_def)
  have 1: "?run [?in MsgToolStream [0], BNext 0, BNext 0, BNext 0] (sample_state None newStreamRecv (Waiting sample_sess) []) =
      sample_state None ?r1 (Waiting sample_sess) []"
    using sample_chunks [of 1] sample_wire(1-3) [of 1]
    by (subst sample_frame [where ch = "wire_chunk (frame_at 1 sample_outs 1)" and data = "[]"]) (simp_all add: stream_dec_def)
  have 2: "?run [?in MsgToolResp []] (sample_state None ?r1 (Waiting sample_sess) []) = sample_state (Some ?reply) ?r1 (Waiting sample_sess) []"
    by (rule sample_reply) (simp_all add: stream_dec_def okResp_def)
  have 3: "?run [BTake 1] (sample_state (Some ?reply) ?r1 (Waiting sample_sess) []) = sample_state (Some ?reply) ?r1 (Settling sample_sess [7]) []"
    using sample_look [of "[7]" "Some ?reply" ?r1 "Waiting sample_sess" "[]"] sample_open_resp sample_receptions(2) sample_settled(1)
    by (simp add: bridge_run_def takeReply_def)
  have 4: "?run [?in MsgToolStream [], BNext 0, BNext 0, BNext 0] (sample_state (Some ?reply) ?r1 (Settling sample_sess [7]) []) =
      sample_state (Some ?reply) (observe 0 ?r1) (Settling sample_sess [7]) [HCall ?ch [5]]"
    using sample_chunks [of 0] sample_wire(1-3) [of 0]
    by (subst sample_frame [where ch = ?ch and data = "[5]"]) (simp_all add: stream_dec_def)
  have 5: "?run [BSample 1 False, BNext 0] (sample_state (Some ?reply) (observe 0 ?r1) (Settling sample_sess [7]) [HCall ?ch [5]]) = st"
    using assms unfolding ev bridge_run_append by (simp add: sample_sent 1 2 3 4 bridge_run_def [of _ _ _ "[]"])
  show ?thesis
    using sample_look [of "[7]" "Some ?reply" "observe 0 ?r1" "Settling sample_sess [7]" "[HCall ?ch [5]]"]
      sample_receptions(1) sample_settled sample_wire unfolding 5 [symmetric]
    by (simp add: bridge_run_def) (simp add: sample_state_def finish_call_def but_nth_def)
qed

text \<open>
  The condition on \<open>at_end\<close> is needed: a made-up frame with the number of a dropped one fills the hole; as long as its handler
  has not come from \<open>observe\<close> to \<open>markDamaged\<close>, the call takes the stream for complete and returns its result
  although no output has come.
\<close>

definition forged_dec :: bridge_decoders where
  "forged_dec = \<lparr>
     dec_Resp = (\<lambda>p. Some (okResp 1 (on_wire (resp_aad sample_sess (okResp 1 [7])) [7]))),
     dec_Chunk = (\<lambda>p. Some (if p = [] then \<lparr>ch_ID = 1, ch_Seq = 0, ch_Fin = False, ch_Stream = [], ch_Data = []\<rparr>
                            else wire_chunk (frame_at 1 sample_outs 1)))\<rparr>"

definition forged_events :: "bridge_event list" where
  "forged_events =
     [BBegin True, BSend (Some (replicate 24 0)) True 1 ''exec'' []] @ [BIn \<lparr>msg_Type = MsgToolStream, msg_Payload = []\<rparr>, BNext 0, BNext 0,
      BIn \<lparr>msg_Type = MsgToolStream, msg_Payload = [0]\<rparr>, BNext 1, BNext 1, BNext 1,
      BIn \<lparr>msg_Type = MsgToolResp, msg_Payload = []\<rparr>] @ [BTake 1]"

lemma late_mark_hides_hole:
  "let st = bridge_run (listed_cipher sample_seals) plain_armor forged_dec forged_events (bridge_start (NewBridge ''relay'' sample_sess None))
   in phases st 1 = Done (Inr [7]) \<and> cb_log st = [] \<and> under_way 1 (hands st) = []"
proof -
  let ?run = "bridge_run (listed_cipher sample_seals) plain_armor forged_dec"
  let ?bad = "\<lparr>ch_ID = 1, ch_Seq = 0, ch_Fin = False, ch_Stream = [], ch_Data = []\<rparr> :: StreamChunk"
  let ?reply = "\<lparr>tr_resp = okResp 1 (on_wire (resp_aad sample_sess (okResp 1 [7])) [7]), tr_local = False\<rparr>"
  let ?r = "markFinished (observe 1 (observe 0 newStreamRecv))"
  have bad: "openChunk (listed_cipher sample_seals) sample_sess ?bad = None"
    by (simp add: openChunk_def sample_active AEADOpen_def NonceSizeX_def)
  have id: "resp_ID (okResp 1 w) = 1" for w by (simp add: okResp_def)
  have 1: "?run [BIn \<lparr>msg_Type = MsgToolStream, msg_Payload = []\<rparr>, BNext 0, BNext 0,
      BIn \<lparr>msg_Type = MsgToolStream, msg_Payload = [0]\<rparr>, BNext 1, BNext 1, BNext 1,
      BIn \<lparr>msg_Type = MsgToolResp, msg_Payload = []\<rparr>] (sample_state None newStreamRecv (Waiting sample_sess) []) =
      sample_state (Some ?reply) ?r (Waiting sample_sess) [HMark ?bad None]"
    using sample_chunks [of 1] sample_wire(1-3) [of 1] bad id
    by (simp add: bridge_run_def sample_state_def beginInbound_def tool_msg_types updRecv_def but_nth_def forged_dec_def putReply_def)
  have "?run [BTake 1] (sample_state (Some ?reply) ?r (Waiting sample_sess) [HMark ?bad None]) =
      finish_call 1 (Inr [7]) (sample_state (Some ?reply) ?r (Waiting sample_sess) [HMark ?bad None])"
    using sample_look [of "[7]" "Some ?reply" ?r "Waiting sample_sess" "[HMark ?bad None]"] sample_open_resp sample_receptions(3) sample_settled
    by (simp add: bridge_run_def takeReply_def)
  then show ?thesis
    unfolding forged_events_def bridge_run_append sample_sent 1
    by (simp add: Let_def) (simp add: sample_state_def finish_call_def under_way_def)
qed

theorem stream_ok_complete_witness:
  "mset (filter (\<lambda>x. snd x \<noteq> []) sample_outs) \<subseteq># mset [(''stdout'', [5])] \<and> set [(''stdout'', [5])] \<subseteq> set sample_outs"
proof -
  let ?c = "listed_cipher sample_seals" and ?R = "{okResp 1 [7]}" and ?F = "set (stream_frames 1 sample_outs)"
  have fr: "?F = {frame_at 1 sample_outs 0, frame_at 1 sample_outs 1}" by (simp add: stream_frames_def sample_outs_def)
  have s: "small_seals {} ?R ?F" unfolding fr by (simp add: small_seals_def small_resp_def okResp_def small_chunk_def frame_at_def sample_outs_def)
  have d: "small_frames stream_dec"
    by (auto simp: small_frames_def stream_dec_def small_resp_def okResp_def small_chunk_def wire_chunk_def frame_at_def sample_outs_def)
  have t: "trusted ?c {} ?R ?F sample_sess"
    unfolding fr by (rule sample_trusted) (auto simp: sample_seals_def seals_def norm_json_def okResp_def frame_at_def sample_outs_def)
  have e: "\<forall>e \<in> set ([] @ stream_events). \<forall>s. event_session e = Some s \<longrightarrow> trusted ?c {} ?R ?F s"
    by (simp add: stream_events_def)
  let ?st1 = "bridge_run ?c plain_armor stream_dec [] (bridge_start (NewBridge ''relay'' sample_sess None))"
  let ?st = "bridge_run ?c plain_armor stream_dec (BBegin True # stream_events) ?st1"
  have i: "(1 :: 64 word) = b_nextID (br ?st1) + 1" by (simp add: bridge_run_def bridge_start_def NewBridge_def newIDEpoch_def)
  have b: "calls_begun stream_events < 2 ^ 64" by (simp add: calls_begun_def stream_events_def)
  have D: "[(''stdout'', [5])] = delivered 1 (drop (length (cb_log ?st1)) (cb_log ?st))"
    using stream_sample_run [OF refl] by (simp add: bridge_run_def [of _ _ _ "[]"] bridge_start_def delivered_def)
  have w: "\<forall>ch. ch_ID ch = 1 \<longrightarrow> HMark ch None \<notin> set (at_end ?st 1)" "[] = under_way 1 (hands ?st)"
    using stream_sample_run [OF refl] by (simp_all add: under_way_def)
  have "mset (filter (\<lambda>x. snd x \<noteq> []) sample_outs) \<subseteq># mset ([(''stdout'', [5])] @ []) \<and> set ([(''stdout'', [5])] @ []) \<subseteq> set sample_outs"
    by (rule stream_ok_complete [OF s d t e refl i refl b _ _ conjunct1 [OF stream_sample_run [OF refl]] w(1) D w(2)])
       (auto simp: sample_outs_def)
  then show ?thesis by simp
qed

text \<open>
  C26. A repeated stream frame reaches the callback again: once a frame has been taken and its data passed on, an
  identical copy passes the same data on a second time, without adding to the gap count of any
  call and without a change of its terminator flag, so nothing shows that the output was delivered twice.
\<close>

theorem repeated_frame_delivered_again:
  assumes "HandleInbound c dec msg b = (b1, out)" "out \<noteq> []"
    and "\<forall>ch. dec_Chunk dec (msg_Payload msg) = Some ch \<longrightarrow> ch_Seq ch \<noteq> - 1"
  shows "\<exists>b2. HandleInbound c dec msg b1 = (b2, out) \<and>
    (\<forall>i r. mget (b_streamCbs b1) i = Some r \<longrightarrow>
      (\<exists>r2. mget (b_streamCbs b2) i = Some r2 \<and> fst (recv_status r2) \<le> fst (recv_status r) \<and> snd (recv_status r2) = snd (recv_status r)))"
proof -
  obtain ch recv where t: "msg_Type msg \<noteq> MsgToolResp" "msg_Type msg = MsgToolStream"
    "dec_Chunk dec (msg_Payload msg) = Some ch" "mget (b_streamCbs b) (ch_ID ch) = Some recv"
    using assms(1,2) by (auto simp: HandleInbound_def split: if_splits option.splits)
  obtain r' E where rc: "recvChunk c (b_sess b) ch recv = (r', E)" by fastforce
  then have b1: "b1 = b\<lparr>b_streamCbs := mput (ch_ID ch) r' (b_streamCbs b)\<rparr>" and out: "out = map (Pair (ch_ID ch)) E"
    using assms(1) t by (auto simp: HandleInbound_def)
  obtain r2 where "recvChunk c (b_sess b) ch r' = (r2, E)" "fst (recv_status r2) \<le> fst (recv_status r')"
    "snd (recv_status r2) = snd (recv_status r')"
    using recvChunk_again [OF rc] assms(2,3) t(3) out by auto
  with t b1 out show ?thesis by (auto simp: HandleInbound_def)
qed

theorem repeated_frame_delivered_again_witness:
  "\<exists>b1 b2. HandleInbound esc_cipher stream_dec \<lparr>msg_Type = MsgToolStream, msg_Payload = []\<rparr>
      \<lparr>b_conn = [], b_sess = \<lparr>Key = zero_key, Version = []\<rparr>, b_nextID = 1, b_pending = mempty,
        b_streamCbs = mput 1 newStreamRecv mempty, b_closed = False\<rparr> = (b1, [(1, ''stdout'', on_wire (chunk_aad sample_sess (frame_at 1 sample_outs 0)) [5])]) \<and>
    HandleInbound esc_cipher stream_dec \<lparr>msg_Type = MsgToolStream, msg_Payload = []\<rparr> b1 =
      (b2, [(1, ''stdout'', on_wire (chunk_aad sample_sess (frame_at 1 sample_outs 0)) [5])])"
proof -
  let ?b = "\<lparr>b_conn = [], b_sess = \<lparr>Key = zero_key, Version = []\<rparr>, b_nextID = 1, b_pending = mempty,
    b_streamCbs = mput 1 newStreamRecv mempty, b_closed = False\<rparr> :: Bridge"
  let ?msg = "\<lparr>msg_Type = MsgToolStream, msg_Payload = []\<rparr> :: Message"
  obtain b1 where h: "HandleInbound esc_cipher stream_dec ?msg ?b = (b1, [(1, ''stdout'', on_wire (chunk_aad sample_sess (frame_at 1 sample_outs 0)) [5])])"
    by (simp add: HandleInbound_def stream_dec_def tool_msg_types recvChunk_def Active_def wire_chunk_def frame_at_def sample_outs_def on_wire_def Let_def)
  have "\<forall>ch. dec_Chunk stream_dec (msg_Payload ?msg) = Some ch \<longrightarrow> ch_Seq ch \<noteq> - 1"
    by (simp add: stream_dec_def wire_chunk_def frame_at_def)
  from repeated_frame_delivered_again [OF h _ this] h show ?thesis by blast
qed

end
