(* ===== verification/Agent_Props.thy ===== *)
theory Agent_Props
  imports Tool_Channel
begin

text \<open>
  The daemon over whole runs, and one call through both ends: which requests reach a tool, how
  often, what is answered, and what the bridge reads of the answer.
\<close>

section \<open>Runs of the daemon\<close>

text \<open>
  The daemon with its goroutines. \<open>RunLoop\<close> starts a handler for every request (\<open>sy_handlers\<close>), which
  then opens it (\<open>sy_opened\<close>), asks the replay guard (\<open>sy_admitted\<close>), registers its call and runs the
  tool (\<open>sy_calls\<close>), and answers: one event each, of any handler, so that everything else may happen in
  between. A change of session is two events as well, the new session under the lock (\<open>DSet\<close>) and later
  the reset of the guard (\<open>DReset\<close>), \<open>sy_pending\<close> of which are outstanding; the connection of \<open>SwapConn\<close>
  is replaced before (\<open>DConn\<close>). A handler on which the guard does not return keeps its mutex
  (\<open>sy_hung\<close>): whoever needs the guard afterwards waits for ever.

  Two numbers are recorded. The generation of an opened request is the number of changes of session
  before it; the era of an admitted one the number of resets of the guard before it. \<open>sy_runs\<close> lists
  what reached a tool: generation, era, session and request.
\<close>

datatype daemon_event =
    DInject "bytes option" Message
  | DLoop
  | DOpen nat
  | DAdmit nat
  | DStart nat nat
  | DSend nat "bytes option" string bytes
  | DFinish nat "bytes option \<times> bytes option" call_outcome
  | DConn string
  | DSet Session
  | DReset

record daemon_env =
  e_cipher :: cipher
  e_armor :: armor
  e_texts :: texts
  e_req :: "bytes \<Rightarrow> ToolReq option"
  e_can :: "bytes \<Rightarrow> Cancel option"
  e_wants :: "bytes \<Rightarrow> bool"

record daemon_sys =
  sy_d :: Daemon
  sy_handlers :: "Message list"
  sy_opened :: "(nat \<times> Session \<times> ToolReq) list"
  sy_admitted :: "(nat \<times> nat \<times> Session \<times> ToolReq) list"
  sy_calls :: "call list"
  sy_pending :: nat
  sy_era :: nat
  sy_hung :: bool
  sy_runs :: "(nat \<times> nat \<times> Session \<times> ToolReq) list"

definition new_sys :: "Daemon \<Rightarrow> daemon_sys" where
  "new_sys d = \<lparr>sy_d = d, sy_handlers = [], sy_opened = [], sy_admitted = [], sy_calls = [],
     sy_pending = 0, sy_era = 0, sy_hung = False, sy_runs = []\<rparr>"

definition open_step :: "daemon_env \<Rightarrow> Message \<Rightarrow> daemon_sys \<Rightarrow> daemon_sys" where
  "open_step e msg sy =
     (case openReq (e_cipher e) (e_armor e) (e_texts e) (e_req e) msg (sy_d sy) of
        Opened sess req \<Rightarrow> sy\<lparr>sy_opened := sy_opened sy @ [(sy_era sy + sy_pending sy, sess, req)]\<rparr>
      | _ \<Rightarrow> sy)"

definition admit_step :: "nat \<Rightarrow> daemon_sys \<Rightarrow> daemon_sys" where
  "admit_step i sy =
     (let (g, sess, req) = sy_opened sy ! i
      in if sy_hung sy \<and> Active sess \<and> AntiReplay sess then sy
         else case admitReq sess req (sy_d sy) of
                None \<Rightarrow> sy\<lparr>sy_hung := True\<rparr>
              | Some (d, ok) \<Rightarrow>
                  sy\<lparr>sy_d := d, sy_opened := but_nth i (sy_opened sy),
                     sy_admitted := sy_admitted sy @ (if ok then [(g, sy_era sy, sess, req)] else [])\<rparr>)"

fun daemon_step :: "daemon_env \<Rightarrow> daemon_event \<Rightarrow> daemon_sys \<Rightarrow> daemon_sys" where
  "daemon_step e (DInject rnd msg) sy = sy\<lparr>sy_d := fst (Inject (e_cipher e) (e_armor e) (e_req e) rnd msg (sy_d sy))\<rparr>"
| "daemon_step e DLoop sy =
     (let (d, a) = runLoopStep (e_can e) (sy_d sy)
      in sy\<lparr>sy_d := d, sy_handlers := sy_handlers sy @ (case a of LHandle msg \<Rightarrow> [msg] | _ \<Rightarrow> [])\<rparr>)"
| "daemon_step e (DOpen i) sy =
     (if i < length (sy_handlers sy)
      then open_step e (sy_handlers sy ! i) (sy\<lparr>sy_handlers := but_nth i (sy_handlers sy)\<rparr>) else sy)"
| "daemon_step e (DAdmit i) sy = (if i < length (sy_opened sy) then admit_step i sy else sy)"
| "daemon_step e (DStart i n) sy =
     (if i < length (sy_admitted sy)
      then let (g, k, sess, req) = sy_admitted sy ! i;
               (d, cl) = startReq (e_wants e) n sess req (sy_d sy)
           in sy\<lparr>sy_d := d, sy_admitted := but_nth i (sy_admitted sy), sy_calls := sy_calls sy @ [cl],
                 sy_runs := sy_runs sy @ [(g, k, sess, req)]\<rparr>
      else sy)"
| "daemon_step e (DSend i rnd stream data) sy =
     (if i < length (sy_calls sy)
      then let cl = sy_calls sy ! i
           in sy\<lparr>sy_calls := (sy_calls sy)[i := cl\<lparr>cl_sink := fst (sink_Send (e_cipher e) rnd stream data (sy_d sy) (cl_sink cl))\<rparr>]\<rparr>
      else sy)"
| "daemon_step e (DFinish i rnds oc) sy =
     (if i < length (sy_calls sy)
      then sy\<lparr>sy_d := fst (finishReq (e_cipher e) (e_armor e) (e_texts e) rnds (sy_calls sy ! i) oc (sy_d sy)),
              sy_calls := but_nth i (sy_calls sy)\<rparr>
      else sy)"
| "daemon_step e (DConn conn) sy = sy\<lparr>sy_d := (sy_d sy)\<lparr>d_conn := conn\<rparr>\<rparr>"
| "daemon_step e (DSet sess) sy =
     (let (d, same) = setSession sess (sy_d sy)
      in sy\<lparr>sy_d := d, sy_pending := sy_pending sy + (if same then 0 else 1)\<rparr>)"
| "daemon_step e DReset sy =
     (if 0 < sy_pending sy \<and> \<not> sy_hung sy
      then sy\<lparr>sy_d := fst (resetReplay (sy_d sy)), sy_pending := sy_pending sy - 1, sy_era := sy_era sy + 1\<rparr>
      else sy)"

definition daemon_run :: "daemon_env \<Rightarrow> daemon_event list \<Rightarrow> daemon_sys \<Rightarrow> daemon_sys" where
  "daemon_run e evs sy = foldl (\<lambda>sy ev. daemon_step e ev sy) sy evs"

lemma daemon_run_Nil [simp]: "daemon_run e [] sy = sy"
  by (simp add: daemon_run_def)

lemma daemon_run_snoc: "daemon_run e (evs @ [ev]) sy = daemon_step e ev (daemon_run e evs sy)"
  by (simp add: daemon_run_def)

text \<open>The sessions of a run in their order, without repetition: the generations.\<close>

fun rotations :: "daemon_event list \<Rightarrow> Session list" where
  "rotations [] = []"
| "rotations (DSet s # evs) = s # rotations evs"
| "rotations (_ # evs) = rotations evs"

definition generations :: "Session \<Rightarrow> daemon_event list \<Rightarrow> Session list" where
  "generations s0 evs = remdups_adj (s0 # rotations evs)"

lemma rotations_append: "rotations (evs @ evs') = rotations evs @ rotations evs'"
  by (induction evs rule: rotations.induct) auto

lemma remdups_adj_snoc: "xs \<noteq> [] \<Longrightarrow> remdups_adj (xs @ [x]) = remdups_adj xs @ (if last xs = x then [] else [x])"
  by (induction xs rule: remdups_adj.induct) auto

lemma generations_snoc:
  "generations s0 (evs @ [ev]) = generations s0 evs @
     (case ev of DSet s \<Rightarrow> if last (generations s0 evs) = s then [] else [s] | _ \<Rightarrow> [])"
proof (cases ev)
  case (DSet s)
  then show ?thesis
    using remdups_adj_snoc [of "s0 # rotations evs" s] unfolding generations_def by (simp add: rotations_append)
qed (simp_all add: generations_def rotations_append)

section \<open>Once per guard and session\<close>

definition guarded :: "nat \<times> nat \<times> Session \<times> ToolReq \<Rightarrow> bool" where
  "guarded x = (case x of (g, k, s, q) \<Rightarrow> Active s \<and> AntiReplay s)"

definition era_id :: "nat \<times> nat \<times> Session \<times> ToolReq \<Rightarrow> nat \<times> 64 word" where
  "era_id x = (case x of (g, k, s, q) \<Rightarrow> (k, req_ID q))"

definition passed :: "daemon_sys \<Rightarrow> (nat \<times> nat \<times> Session \<times> ToolReq) list" where
  "passed sy = filter guarded (sy_admitted sy @ sy_runs sy)"

definition ids_of :: "nat \<Rightarrow> (nat \<times> nat \<times> Session \<times> ToolReq) list \<Rightarrow> nat set" where
  "ids_of k xs = {unat (req_ID q) | g s q. (g, k, s, q) \<in> set xs}"

definition opened_ok :: "Session list \<Rightarrow> nat \<times> Session \<times> ToolReq \<Rightarrow> bool" where
  "opened_ok gs x = (case x of (g, s, q) \<Rightarrow> g < length gs \<and> s = gs ! g)"

definition entry_ok :: "Session list \<Rightarrow> nat \<Rightarrow> nat \<times> nat \<times> Session \<times> ToolReq \<Rightarrow> bool" where
  "entry_ok gs n x = (case x of (g, k, s, q) \<Rightarrow> g < length gs \<and> s = gs ! g \<and> k \<le> n)"

text \<open>The guard stands for what passed since its last reset; the sessions held are those of their generation.\<close>

definition sys_inv :: "Session list \<Rightarrow> daemon_sys \<Rightarrow> bool" where
  "sys_inv gs sy \<longleftrightarrow> gs \<noteq> [] \<and> last gs = d_sess (sy_d sy) \<and> length gs = Suc (sy_era sy + sy_pending sy) \<and>
     list_all (opened_ok gs) (sy_opened sy) \<and> list_all (entry_ok gs (sy_era sy)) (sy_admitted sy @ sy_runs sy) \<and>
     replay_refines (d_replay (sy_d sy)) (ids_of (sy_era sy) (passed sy)) \<and> distinct (map era_id (passed sy))"

lemma zero_guard_refines: "replay_refines zero_guard {}"
  using reset_refines [of zero_guard] by (simp add: replayGuard_reset_def zero_guard_def)

lemma openReq_sess: "openReq c m tx dec msg d = Opened sess req \<Longrightarrow> sess = d_sess d"
  by (auto simp: openReq_def Let_def split: option.splits if_splits sum.splits)

lemma sys_inv_d:
  "sys_inv gs sy \<Longrightarrow> d_sess d = d_sess (sy_d sy) \<Longrightarrow> d_replay d = d_replay (sy_d sy) \<Longrightarrow> sys_inv gs (sy\<lparr>sy_d := d\<rparr>)"
  by (simp add: sys_inv_def passed_def)

lemma sys_inv_cong:
  "sys_inv gs sy \<Longrightarrow> sy_d sy' = sy_d sy \<Longrightarrow> sy_opened sy' = sy_opened sy \<Longrightarrow> sy_admitted sy' = sy_admitted sy \<Longrightarrow>
   sy_runs sy' = sy_runs sy \<Longrightarrow> sy_era sy' = sy_era sy \<Longrightarrow> sy_pending sy' = sy_pending sy \<Longrightarrow> sys_inv gs sy'"
  by (simp add: sys_inv_def passed_def)

lemma Inject_keeps [simp]:
  "d_sess (fst (Inject c m dec rnd msg d)) = d_sess d" "d_replay (fst (Inject c m dec rnd msg d)) = d_replay d"
  by (simp_all add: Inject_def split: option.split)

lemma runLoopStep_keeps [simp]:
  "d_sess (fst (runLoopStep dec d)) = d_sess d" "d_replay (fst (runLoopStep dec d)) = d_replay d"
  by (simp_all add: runLoopStep_def Let_def split: option.split list.split)

lemma finishReq_keeps [simp]:
  "d_sess (fst (finishReq c m tx rnds cl oc d)) = d_sess d" "d_replay (fst (finishReq c m tx rnds cl oc d)) = d_replay d"
  by (simp_all add: finishReq_def Let_def)

lemma open_step_inv: "sys_inv gs sy \<Longrightarrow> sys_inv gs (open_step e msg sy)"
proof (cases "openReq (e_cipher e) (e_armor e) (e_texts e) (e_req e) msg (sy_d sy)")
  case (Opened s q)
  assume inv: "sys_inv gs sy"
  then have "s = gs ! (sy_era sy + sy_pending sy)" "sy_era sy + sy_pending sy < length gs"
    using openReq_sess [OF Opened] by (auto simp: sys_inv_def last_conv_nth)
  then have "opened_ok gs (sy_era sy + sy_pending sy, s, q)" by (simp add: opened_ok_def)
  with inv show ?thesis by (simp add: open_step_def Opened sys_inv_def passed_def)
qed (simp_all add: open_step_def)

lemma admit_step_inv:
  assumes inv: "sys_inv gs sy" and i: "i < length (sy_opened sy)"
  shows "sys_inv gs (admit_step i sy)"
proof -
  obtain g s q where x: "sy_opened sy ! i = (g, s, q)" by (cases "sy_opened sy ! i")
  then have "opened_ok gs (g, s, q)" using inv i by (auto simp: sys_inv_def list_all_length)
  then have gs: "entry_ok gs (sy_era sy) (g, sy_era sy, s, q)" by (simp add: opened_ok_def entry_ok_def)
  have sub: "list_all (opened_ok gs) (but_nth i (sy_opened sy))"
    using inv by (auto simp: sys_inv_def list_all_iff dest: set_but_nth_sub)
  consider "sy_hung sy \<and> Active s \<and> AntiReplay s" | "admitReq s q (sy_d sy) = None"
    | d ok where "\<not> (sy_hung sy \<and> Active s \<and> AntiReplay s)" "admitReq s q (sy_d sy) = Some (d, ok)"
    by (cases "admitReq s q (sy_d sy)") auto
  then show ?thesis
  proof cases
    case 1
    then show ?thesis using inv x by (simp add: admit_step_def)
  next
    case 2
    then show ?thesis using inv x by (auto simp: admit_step_def intro: sys_inv_cong)
  next
    case 3
    let ?r = "(g, sy_era sy, s, q)" and ?S = "ids_of (sy_era sy) (passed sy)"
    let ?sy = "sy\<lparr>sy_d := d, sy_opened := but_nth i (sy_opened sy), sy_admitted := sy_admitted sy @ (if ok then [?r] else [])\<rparr>"
    have st: "admit_step i sy = ?sy" unfolding admit_step_def Let_def x using 3 by auto
    have old: "replay_refines (d_replay (sy_d sy)) ?S" "distinct (map era_id (passed sy))" using inv by (auto simp: sys_inv_def)
    have p: "mset (passed ?sy) = mset (passed sy) + (if ok \<and> guarded ?r then {#?r#} else {#})"
      by (auto simp: passed_def)
    have "d_sess d = d_sess (sy_d sy) \<and> replay_refines (d_replay d) (ids_of (sy_era sy) (passed ?sy)) \<and> distinct (map era_id (passed ?sy))"
    proof (cases "guarded ?r")
      case True
      then obtain gd where acc: "accept (req_ID q) (d_replay (sy_d sy)) = Some (gd, ok)" and d: "d = (sy_d sy)\<lparr>d_replay := gd\<rparr>"
        using 3 by (auto simp: guarded_def admitReq_def split: option.splits)
      note acc' = accept_Some_refines [OF old(1) acc]
      have new: "era_id ?r \<notin> era_id ` set (passed sy)" if ok
        using acc'(2) [OF that] by (auto simp: ids_of_def era_id_def)
      have "distinct (map era_id (passed ?sy)) = distinct (map era_id ((if ok then [?r] else []) @ passed sy))"
        using p True by (intro mset_eq_imp_distinct_iff) (auto simp: mset_map)
      moreover have "ids_of (sy_era sy) (passed ?sy) = (if ok then insert (unat (req_ID q)) ?S else ?S)"
        using arg_cong [OF p, of set_mset] True by (auto simp: ids_of_def)
      ultimately show ?thesis using acc'(1) d new old(2) by auto
    next
      case False
      then have d: "d = sy_d sy" using 3 by (auto simp: guarded_def admitReq_def split: if_splits)
      have "distinct (map era_id (passed ?sy)) = distinct (map era_id (passed sy))"
        using p False by (intro mset_eq_imp_distinct_iff) (auto simp: mset_map)
      moreover have "set (passed ?sy) = set (passed sy)" using arg_cong [OF p, of set_mset] False by simp
      ultimately show ?thesis using d old by (simp add: ids_of_def)
    qed
    then show ?thesis unfolding st using inv gs sub by (simp add: sys_inv_def)
  qed
qed

lemma start_step_inv:
  assumes inv: "sys_inv gs sy" and i: "i < length (sy_admitted sy)"
  shows "sys_inv gs (daemon_step e (DStart i n) sy)"
proof -
  define sy' where sy': "sy' = daemon_step e (DStart i n) sy"
  let ?sy = sy'
  have st: "sy_admitted ?sy = but_nth i (sy_admitted sy)" "sy_runs ?sy = sy_runs sy @ [sy_admitted sy ! i]" "sy_era ?sy = sy_era sy"
    "sy_pending ?sy = sy_pending sy" "sy_opened ?sy = sy_opened sy" "d_sess (sy_d ?sy) = d_sess (sy_d sy)" "d_replay (sy_d ?sy) = d_replay (sy_d sy)"
    using i by (simp_all add: sy' Let_def startReq_def split: prod.split)
  have m: "mset (sy_admitted ?sy @ sy_runs ?sy) = mset (sy_admitted sy @ sy_runs sy)" using mset_but_nth [OF i] st by simp
  then have p: "mset (passed ?sy) = mset (passed sy)" unfolding passed_def mset_filter by (rule arg_cong)
  from m p have "set (sy_admitted ?sy @ sy_runs ?sy) = set (sy_admitted sy @ sy_runs sy)" "set (passed ?sy) = set (passed sy)"
    using mset_eq_setD by blast+
  moreover have "distinct (map era_id (passed ?sy)) = distinct (map era_id (passed sy))"
    using p by (intro mset_eq_imp_distinct_iff) (simp add: mset_map)
  ultimately show ?thesis using inv st unfolding sys_inv_def ids_of_def sy' [symmetric] list_all_iff by metis
qed

lemma reset_step_inv:
  assumes inv: "sys_inv gs sy" shows "sys_inv gs (daemon_step e DReset sy)"
proof (cases "0 < sy_pending sy \<and> \<not> sy_hung sy")
  case True
  define sy' where sy': "sy' = daemon_step e DReset sy"
  let ?sy = sy'
  have st: "sy_admitted ?sy = sy_admitted sy" "sy_runs ?sy = sy_runs sy" "sy_era ?sy = Suc (sy_era sy)" "sy_opened ?sy = sy_opened sy"
    "Suc (sy_pending ?sy) = sy_pending sy" "d_sess (sy_d ?sy) = d_sess (sy_d sy)"
    "d_replay (sy_d ?sy) = replayGuard_reset (d_replay (sy_d sy))"
    using True by (simp_all add: sy' resetReplay_def)
  have "\<forall>x \<in> set (passed ?sy). entry_ok gs (sy_era sy) x" using inv st by (auto simp: sys_inv_def passed_def list_all_iff)
  then have "ids_of (sy_era ?sy) (passed ?sy) = {}" using st(3) by (fastforce simp: ids_of_def entry_ok_def)
  moreover have "list_all (entry_ok gs (sy_era ?sy)) (sy_admitted ?sy @ sy_runs ?sy)"
  proof -
    have "entry_ok gs (sy_era sy) x \<Longrightarrow> entry_ok gs (Suc (sy_era sy)) x" for x by (auto simp: entry_ok_def)
    then show ?thesis using inv st by (auto simp: sys_inv_def list_all_iff)
  qed
  moreover have "passed ?sy = passed sy" using st by (simp add: passed_def)
  ultimately show ?thesis using inv st unfolding sy' [symmetric] sys_inv_def by (simp add: reset_refines)
qed (use inv in auto)

lemma daemon_step_inv:
  assumes inv: "sys_inv gs sy"
  shows "sys_inv (gs @ (case ev of DSet s \<Rightarrow> if last gs = s then [] else [s] | _ \<Rightarrow> [])) (daemon_step e ev sy)"
proof (cases ev)
  case (DInject rnd msg)
  then show ?thesis using inv by (auto intro: sys_inv_d)
next
  case DLoop
  have "sys_inv gs (sy\<lparr>sy_d := fst (runLoopStep (e_can e) (sy_d sy))\<rparr>)" using inv by (auto intro: sys_inv_d)
  then show ?thesis using DLoop by (auto simp: Let_def split: prod.split intro: sys_inv_cong)
next
  case (DOpen i)
  have "sys_inv gs (sy\<lparr>sy_handlers := but_nth i (sy_handlers sy)\<rparr>)" using inv by (auto intro: sys_inv_cong)
  then show ?thesis using DOpen inv by (simp add: open_step_inv)
next
  case (DAdmit i)
  then show ?thesis using inv by (simp add: admit_step_inv)
next
  case (DStart i n)
  then show ?thesis using start_step_inv [OF inv, of i e n] inv by (cases "i < length (sy_admitted sy)") simp_all
next
  case (DSend i rnd stream data)
  then show ?thesis using inv by (auto simp: Let_def intro: sys_inv_cong)
next
  case (DFinish i rnds oc)
  have "sys_inv gs (sy\<lparr>sy_d := fst (finishReq (e_cipher e) (e_armor e) (e_texts e) rnds (sy_calls sy ! i) oc (sy_d sy))\<rparr>)"
    using inv by (auto intro: sys_inv_d)
  then show ?thesis using DFinish inv by (auto intro: sys_inv_cong)
next
  case (DConn conn)
  then show ?thesis using inv by (auto intro: sys_inv_d)
next
  case (DSet s)
  have "opened_ok gs x \<Longrightarrow> opened_ok (gs @ hs) x" "entry_ok gs n y \<Longrightarrow> entry_ok (gs @ hs) n y" for hs n x y
    by (auto simp: opened_ok_def entry_ok_def nth_append)
  then show ?thesis using inv DSet
    by (auto simp: sys_inv_def setSession_def passed_def list_all_iff)
next
  case DReset
  then show ?thesis using reset_step_inv [OF inv, of e] by simp
qed

lemma daemon_run_inv: "sys_inv (generations s0 evs) (daemon_run e evs (new_sys (NewDaemon reg conn s0)))"
proof (induction evs rule: rev_induct)
  case Nil
  then show ?case
    by (simp add: sys_inv_def generations_def new_sys_def NewDaemon_def passed_def ids_of_def zero_guard_refines)
next
  case (snoc ev evs)
  then show ?case unfolding generations_snoc daemon_run_snoc by (rule daemon_step_inv)
qed

section \<open>Origin\<close>

definition from_helper :: "ToolReq set \<Rightarrow> ToolReq \<Rightarrow> bool" where
  "from_helper Q q \<longleftrightarrow> (\<exists>q' \<in> Q. q = q'\<lparr>req_ArgsJSON := norm_json (req_ArgsJSON q')\<rparr>)"

lemma openReq_origin:
  assumes "openReq (e_cipher e) (e_armor e) (e_texts e) (e_req e) msg d = Opened s q"
    and "trusted (e_cipher e) Q R F s" "small_seals Q R F" "\<forall>p q. e_req e p = Some q \<longrightarrow> small_req q"
  shows "from_helper Q q"
proof -
  obtain q0 plain where q0: "e_req e (msg_Payload msg) = Some q0" "q = q0\<lparr>req_ArgsJSON := plain\<rparr>" "s = d_sess d"
    and o: "AEADOpenJSON (e_cipher e) (e_armor e) (Key s) (req_ArgsJSON q0) (req_aad s q0) = Inr plain"
    using assms(1,2) by (auto simp: openReq_def trusted_def req_aad_def Let_def split: option.splits if_splits sum.splits)
  have "(req_aad s q0, plain) \<in> seals s Q R F" using assms(2) o by (auto simp: trusted_def intro: unforged_JSON)
  from sealed_req_origin [OF this] obtain q' where "q' \<in> Q" "req_ID q' = req_ID q0" "req_Tool q' = req_Tool q0"
    "req_DeadlineMs q' = req_DeadlineMs q0" "plain = norm_json (req_ArgsJSON q')"
    using assms(2-4) q0(1) by (auto simp: trusted_def)
  with q0(2) show ?thesis unfolding from_helper_def by (intro bexI [of _ q']) (cases q0, cases q', auto)
qed

definition origin_inv :: "Session \<Rightarrow> ToolReq set \<Rightarrow> daemon_sys \<Rightarrow> bool" where
  "origin_inv s Q sy \<longleftrightarrow> (\<forall>g q. (g, s, q) \<in> set (sy_opened sy) \<longrightarrow> from_helper Q q) \<and>
     (\<forall>g k q. (g, k, s, q) \<in> set (sy_admitted sy) \<union> set (sy_runs sy) \<longrightarrow> from_helper Q q)"

lemma daemon_step_origin:
  assumes inv: "origin_inv s Q sy"
    and t: "trusted (e_cipher e) Q R F s" "small_seals Q R F" "\<forall>p q. e_req e p = Some q \<longrightarrow> small_req q"
  shows "origin_inv s Q (daemon_step e ev sy)"
proof (cases ev)
  case (DOpen i)
  then show ?thesis using inv openReq_origin [OF _ t] by (auto simp: origin_inv_def open_step_def split: opened.split)
next
  case (DAdmit i)
  have "(g, s, q) \<in> set (sy_opened sy)" if "i < length (sy_opened sy)" "sy_opened sy ! i = (g, s, q)" for g q
    using that nth_mem [of i "sy_opened sy"] by simp
  then show ?thesis using DAdmit inv
    by (auto simp: origin_inv_def admit_step_def Let_def split: prod.splits option.splits dest: set_but_nth_sub)
next
  case (DStart i n)
  have "(g, k, s, q) \<in> set (sy_admitted sy)" if "i < length (sy_admitted sy)" "sy_admitted sy ! i = (g, k, s, q)" for g k q
    using that nth_mem [of i "sy_admitted sy"] by simp
  then show ?thesis using DStart inv
    by (auto simp: origin_inv_def Let_def split: prod.splits dest: set_but_nth_sub)
qed (use inv in \<open>auto simp: origin_inv_def Let_def split: prod.splits\<close>)

lemma daemon_run_origin:
  assumes "trusted (e_cipher e) Q R F s" "small_seals Q R F" "\<forall>p q. e_req e p = Some q \<longrightarrow> small_req q"
  shows "origin_inv s Q (daemon_run e evs (new_sys d))"
proof (induction evs rule: rev_induct)
  case (snoc ev evs)
  then show ?case unfolding daemon_run_snoc by (rule daemon_step_origin [OF _ assms])
qed (simp add: origin_inv_def new_sys_def)

lemma once_per_session:
  assumes "distinct gs" "distinct (map era_id (filter guarded xs))"
    and "\<And>g k s q. (g, k, s, q) \<in> set xs \<Longrightarrow> s = gs ! g \<and> g < length gs \<and> k < length gs"
  shows "distinct [(s, req_ID q). (g, k, s, q) \<leftarrow> xs, Active s \<and> \<not> Legacy s \<and> k = g]"
  using assms(2,3)
proof (induction xs)
  case (Cons x xs)
  obtain g k s q where x: "x = (g, k, s, q)" by (cases x)
  have "g' = g" if "(g', k', s, q') \<in> set xs" for g' k' q'
    using Cons.prems(2) [of g k s q] Cons.prems(2) [of g' k' s q'] that x assms(1) nth_eq_iff_index_eq by fastforce
  moreover have "(k', req_ID q') \<noteq> (k, req_ID q)" if "(g', k', s', q') \<in> set xs" "Active s" "Active s'" "\<not> Legacy s" "\<not> Legacy s'" for g' k' s' q'
    using Cons.prems(1) that x by (force simp: guarded_def era_id_def AntiReplay_def)
  ultimately show ?case using Cons.IH Cons.prems x by (fastforce split: if_splits)
qed simp

section \<open>Properties\<close>

text \<open>
  C1. Over any run of the daemon, with its handlers and its changes of session interleaved at their
  critical sections, fed by a relay that drops, repeats, alters and makes up requests. Take the requests
  that reach a tool under sessions of version 2 (sessions of version 1 have no replay guard and do not
  bind a request's fields): each was sealed by the helper under that session with the same identifier, tool, time
  limit and arguments; between two resets of the replay guard no identifier reaches a tool twice,
  whatever sessions its requests were opened under; the guard is reset at most once per change of
  session, so that with no change no identifier reaches a tool twice at all. With changes to sessions that do not come back,
  no identifier reaches a tool twice under one session among the requests that the guard of their own
  session has checked, which leaves out those opened before a change and checked after its reset, and
  those checked between the two halves of a change.
\<close>

theorem tool_runs_once_and_authentic:
  assumes sy: "sy = daemon_run e evs (new_sys (NewDaemon reg conn s0))"
    and small: "\<forall>p q. e_req e p = Some q \<longrightarrow> small_req q"
  shows "distinct [(k, req_ID q). (g, k, s, q) \<leftarrow> sy_runs sy, Active s \<and> \<not> Legacy s] \<and>
    (\<forall>(g, k, s, q) \<in> set (sy_runs sy).
       g < length (generations s0 evs) \<and> k < length (generations s0 evs) \<and> s = generations s0 evs ! g \<and>
       (trusted (e_cipher e) (Q s) (R s) (F s) s \<and> small_seals (Q s) (R s) (F s) \<longrightarrow>
          (\<exists>q' \<in> Q s. q = q'\<lparr>req_ArgsJSON := norm_json (req_ArgsJSON q')\<rparr>))) \<and>
    (distinct (generations s0 evs) \<longrightarrow>
       distinct [(s, req_ID q). (g, k, s, q) \<leftarrow> sy_runs sy, Active s \<and> \<not> Legacy s \<and> k = g])"
proof -
  have inv: "sys_inv (generations s0 evs) sy" unfolding sy by (rule daemon_run_inv)
  have org: "from_helper (Q s) q"
    if "(g, k, s, q) \<in> set (sy_runs sy)" "trusted (e_cipher e) (Q s) (R s) (F s) s" "small_seals (Q s) (R s) (F s)" for g k s q
    using daemon_run_origin [OF that(2,3) small] that(1) unfolding sy origin_inv_def by blast
  have A: "distinct (map era_id (filter guarded (sy_runs sy)))" using inv by (auto simp: sys_inv_def passed_def)
  have e: "[(k, req_ID q). (g, k, s, q) \<leftarrow> xs, Active s \<and> \<not> Legacy s] = map era_id (filter guarded xs)" for xs
    by (induction xs) (auto simp: guarded_def era_id_def AntiReplay_def split: if_splits)
  have sg: "s = generations s0 evs ! g \<and> g < length (generations s0 evs) \<and> k < length (generations s0 evs)"
    if "(g, k, s, q) \<in> set (sy_runs sy)" for g k s q
  proof -
    have "entry_ok (generations s0 evs) (sy_era sy) (g, k, s, q)" "length (generations s0 evs) = Suc (sy_era sy + sy_pending sy)"
      using inv that by (auto simp: sys_inv_def list_all_iff)
    then show ?thesis by (simp add: entry_ok_def)
  qed
  have C: "distinct [(s, req_ID q). (g, k, s, q) \<leftarrow> sy_runs sy, Active s \<and> \<not> Legacy s \<and> k = g]"
    if "distinct (generations s0 evs)"
    using A sg by (rule once_per_session [OF that])
  show ?thesis using A C sg org unfolding e from_helper_def by auto
qed

text \<open>
  C24. A request that was opened before a change of session and comes to the replay guard after it passes,
  although it hit before: the change has reset the guard in between. The new session then starts from a guard
  that holds an identifier of the old one, and refuses its own identifiers that lie 1024 or more below.
\<close>

theorem replay_slips_through_rotation:
  assumes "openReq c m tx dec msg d = Opened s req" "Active s" "\<not> Legacy s" "s' \<noteq> s"
  shows "\<exists>d2. admitReq s req (fst (RotateSession s' d)) = Some (d2, True) \<and> d_sess d2 = s' \<and>
    (\<forall>q. Active s' \<and> \<not> Legacy s' \<and> req_ID q < req_ID req \<and> 1024 \<le> req_ID req - req_ID q \<longrightarrow> admitReq s' q d2 = Some (d2, False))"
proof -
  have "s = d_sess d" using openReq_sess [OF assms(1)] .
  then show ?thesis using assms(2-4)
    by (auto simp: RotateSession_def setSession_def resetReplay_def admitReq_def AntiReplay_def accept_def replayGuard_reset_def window_consts)
qed

section \<open>One call through both ends\<close>

lemma outcomeResp_ID [simp]: "resp_ID (outcomeResp tx r cl oc) = req_ID (cl_req cl)"
  by (auto simp: outcomeResp_def errResp_def okResp_def Dispatch_def Let_def split: call_outcome.splits sum.splits prod.splits)

text \<open>What a response is worth to a helper that shares the session with the daemon.\<close>

definition verdict :: "Session \<Rightarrow> ToolResp \<Rightarrow> call_error + bytes" where
  "verdict s r =
     (if \<not> resp_OK r then Inl (Remote (resp_ErrorCode r) (resp_ErrorMsg r))
      else Inr (if Active s \<and> \<not> Legacy s then norm_json (resp_ResultJSON r) else resp_ResultJSON r))"

lemma openReply_sealResp:
  assumes "cipher_correct c" "armor_roundtrip m" "armor_visible m" "length n = NonceSizeX"
  shows "openReply c m s (sealResp c m (Some n) s r) = verdict s r"
proof (cases "Active s \<and> \<not> (resp_ResultJSON r = [] \<and> \<not> RequireSealedResp s)")
  case True
  let ?plain = "if resp_ResultJSON r = [] then empty_object else resp_ResultJSON r"
  let ?aad = "RespAAD s (resp_ID r) (resp_OK r) (resp_ErrorCode r) (resp_ErrorMsg r)"
  obtain w where w: "AEADSealJSON c m (Some n) (Key s) ?plain ?aad = Inr w"
    by (simp add: AEADSealJSON_def AEADSeal_def)
  then have ne: "w \<noteq> []" using assms(3) by (auto simp: AEADSealJSON_def armor_visible_def split: sum.splits)
  have o: "AEADOpenJSON c m (Key s) w ?aad = Inr ?plain" by (rule AEADOpenJSON_SealJSON [OF assms(1,2,4) w])
  have "sealResp c m (Some n) s r = r\<lparr>resp_ResultJSON := w\<rparr>" unfolding sealResp_def Let_def w using True by auto
  then show ?thesis using True ne o
    by (auto simp: openReply_def verdict_def norm_json_def RequireSealedResp_def Let_def)
next
  case False
  then have "sealResp c m (Some n) s r = r" by (auto simp: sealResp_def)
  then show ?thesis using False by (auto simp: openReply_def verdict_def norm_json_def RequireSealedResp_def Let_def)
qed

lemma openReq_sealReq:
  assumes "cipher_correct c" "armor_roundtrip m" "armor_visible m" "length n = NonceSizeX"
    and "sealReq c m (Some n) (d_sess d) req = Inr w" "dec (msg_Payload msg) = Some w"
  shows "openReq c m tx dec msg d = Opened (d_sess d) (if Active (d_sess d) then req\<lparr>req_ArgsJSON := norm_json (req_ArgsJSON req)\<rparr> else req)"
proof (cases "Active (d_sess d)")
  case True
  let ?s = "d_sess d"
  let ?aad = "ReqAAD ?s (req_ID req) (req_Tool req) (req_DeadlineMs req)"
  obtain x where x: "AEADSealJSON c m (Some n) (Key ?s) (norm_json (req_ArgsJSON req)) ?aad = Inr x"
    by (simp add: AEADSealJSON_def AEADSeal_def)
  then have w: "w = req\<lparr>req_ArgsJSON := x\<rparr>" using assms(5) True by (simp add: sealReq_def norm_json_def)
  have "\<not> isBlankArgs x" using x assms(3) by (auto simp: AEADSealJSON_def armor_visible_def split: sum.splits)
  moreover have "AEADOpenJSON c m (Key ?s) x ?aad = Inr (norm_json (req_ArgsJSON req))"
    by (rule AEADOpenJSON_SealJSON [OF assms(1,2,4) x])
  ultimately show ?thesis using True assms(6) w by (simp add: openReq_def Let_def)
next
  case False
  then show ?thesis using assms(5,6) by (simp add: openReq_def sealReq_def Let_def)
qed

lemma sink_run_frames:
  "(\<forall>x \<in> set (snd (sink_run c out d s)). fst x = d_conn d \<and> (\<exists>ch. snd x = FStream ch \<and> ch_ID ch = sk_id s)) \<and>
   sk_id (fst (sink_run c out d s)) = sk_id s"
proof (induction out arbitrary: s)
  case (Cons o1 out)
  obtain stream data rnd where o1: "o1 = (stream, data, rnd)" by (cases o1) auto
  obtain s1 f where sf: "sink_Send c rnd stream data d s = (s1, f)" by fastforce
  then have "sk_id s1 = sk_id s" "\<forall>x. f = Some x \<longrightarrow> fst x = d_conn d \<and> (\<exists>ch. snd x = FStream ch \<and> ch_ID ch = sk_id s)"
    by (auto simp: sink_Send_def d_sendMsg_def Let_def split: if_splits sum.splits)
  with Cons [of s1] sf o1 show ?case by (auto split: prod.splits option.splits)
qed simp

lemma finishReq_frames:
  "\<exists>fs. snd (finishReq c m tx rnds cl oc d) = fs @ [(d_conn d, FResp (sealResp c m (snd rnds) (cl_sess cl) (outcomeResp tx (d_reg d) cl oc)))] \<and>
    (\<forall>x \<in> set fs. fst x = d_conn d \<and> (\<exists>ch. snd x = FStream ch \<and> ch_ID ch = sk_id (cl_sink cl)))"
proof -
  have "\<forall>x. snd (sink_Finish c (fst rnds) d (cl_sink cl)) = Some x \<longrightarrow>
      fst x = d_conn d \<and> (\<exists>ch. snd x = FStream ch \<and> ch_ID ch = sk_id (cl_sink cl))"
    by (auto simp: sink_Finish_def d_sendMsg_def Let_def split: if_splits sum.splits)
  then show ?thesis
    by (cases "snd (sink_Finish c (fst rnds) d (cl_sink cl))") (auto simp: finishReq_def sendResp_def d_sendMsg_def Let_def)
qed

lemma handleReq_admitted:
  assumes "openReq c m tx dec msg d = Opened s req" "admitReq s req d = Some (d1, True)"
    and "handleReq c m tx dec wants msg n out oc rnds d = Some (d', hit, fs)"
  shows "\<exists>cl gs. cl_req cl = req \<and> cl_sess cl = s \<and> hit = Some (s, req) \<and>
    fs = gs @ [(d_conn d, FResp (sealResp c m (snd rnds) s (outcomeResp tx (d_reg d) cl oc)))] \<and>
    (\<forall>x \<in> set gs. fst x = d_conn d \<and> (\<exists>ch. snd x = FStream ch \<and> ch_ID ch = req_ID req))"
proof -
  obtain d2 cl where sr: "startReq wants n s req d1 = (d2, cl)" by fastforce
  obtain sk hs where sk: "sink_run c out d2 (cl_sink cl) = (sk, hs)" by fastforce
  have d1: "d_conn d1 = d_conn d" "d_reg d1 = d_reg d" using assms(2) by (auto simp: admitReq_def split: if_splits option.splits)
  have cl: "cl_req cl = req" "cl_sess cl = s" "sk_id (cl_sink cl) = req_ID req" and d2: "d_conn d2 = d_conn d" "d_reg d2 = d_reg d"
    using sr d1 by (auto simp: startReq_def)
  have hs: "\<forall>x \<in> set hs. fst x = d_conn d \<and> (\<exists>ch. snd x = FStream ch \<and> ch_ID ch = req_ID req)" and ski: "sk_id sk = req_ID req"
    using sink_run_frames [of c out d2 "cl_sink cl"] sk cl d2 by auto
  let ?cl = "cl\<lparr>cl_sink := sk\<rparr>"
  obtain ks where ks: "snd (finishReq c m tx rnds ?cl oc d2) = ks @ [(d_conn d, FResp (sealResp c m (snd rnds) s (outcomeResp tx (d_reg d) ?cl oc)))]"
    "\<forall>x \<in> set ks. fst x = d_conn d \<and> (\<exists>ch. snd x = FStream ch \<and> ch_ID ch = req_ID req)"
    using finishReq_frames [of c m tx rnds ?cl oc d2] cl d2 ski by auto
  have "fs = hs @ snd (finishReq c m tx rnds ?cl oc d2)" "hit = Some (s, req)"
    using assms sr sk by (auto simp: handleReq_def Let_def split: prod.splits)
  then show ?thesis using ks hs cl by (intro exI [of _ ?cl] exI [of _ "hs @ ks"]) auto
qed

text \<open>
  C14. A call through both ends that share a session: the request as the bridge seals it is opened by the daemon to
  the tool's arguments; once the replay guard lets it pass, exactly that request runs, and whatever the tool does (it returns,
  fails, panics, runs out of time or is cancelled) the daemon sends stream frames of this call and then, as the
  last frame, one response, which the bridge reads as exactly the outcome of the tool.
\<close>

theorem tool_call_end_to_end:
  assumes "cipher_correct c" "armor_roundtrip m" "armor_visible m" "length n1 = NonceSizeX" "length n2 = NonceSizeX"
    and "Active (d_sess d)"
    and "sealReq c m (Some n1) (d_sess d) req = Inr w" "dec (msg_Payload msg) = Some w"
    and "admitReq (d_sess d) (req\<lparr>req_ArgsJSON := norm_json (req_ArgsJSON req)\<rparr>) d = Some (d1, True)"
  shows "\<exists>d2 cl fs r. handleReq c m tx dec wants msg n out oc (rnd, Some n2) d =
      Some (d2, Some (d_sess d, req\<lparr>req_ArgsJSON := norm_json (req_ArgsJSON req)\<rparr>), fs @ [(d_conn d, FResp r)]) \<and>
    (\<forall>x \<in> set fs. \<exists>ch. snd x = FStream ch \<and> ch_ID ch = req_ID req) \<and>
    cl_req cl = req\<lparr>req_ArgsJSON := norm_json (req_ArgsJSON req)\<rparr> \<and>
    resp_ID r = req_ID req \<and> openReply c m (d_sess d) r = verdict (d_sess d) (outcomeResp tx (d_reg d) cl oc)"
proof -
  let ?req = "req\<lparr>req_ArgsJSON := norm_json (req_ArgsJSON req)\<rparr>"
  have op: "openReq c m tx dec msg d = Opened (d_sess d) ?req"
    using openReq_sealReq [of c m n1 d req w dec msg tx] assms by simp
  have "handleReq c m tx dec wants msg n out oc (rnd, Some n2) d \<noteq> None"
    using op assms(9) by (auto simp: handleReq_def Let_def split: prod.splits)
  then obtain d2 hit fs where h: "handleReq c m tx dec wants msg n out oc (rnd, Some n2) d = Some (d2, hit, fs)" by auto
  obtain cl gs where cl: "cl_req cl = ?req" "hit = Some (d_sess d, ?req)"
    "fs = gs @ [(d_conn d, FResp (sealResp c m (Some n2) (d_sess d) (outcomeResp tx (d_reg d) cl oc)))]"
    "\<forall>x \<in> set gs. fst x = d_conn d \<and> (\<exists>ch. snd x = FStream ch \<and> ch_ID ch = req_ID ?req)"
    using handleReq_admitted [OF op assms(9) h] by auto
  have "resp_ID (sealResp c m (Some n2) (d_sess d) r) = resp_ID r" for r
    by (auto simp: sealResp_def Let_def split: sum.splits)
  with h cl openReply_sealResp [OF assms(1-3,5)] show ?thesis by fastforce
qed

definition sample_req :: ToolReq where
  "sample_req = \<lparr>req_ID = 1, req_Tool = ''stat'', req_ArgsJSON = [7], req_DeadlineMs = 0\<rparr>"

definition sample_texts :: texts where
  "sample_texts = \<lparr>tx_quote = id, tx_aead = (\<lambda>_. []), tx_duration = (\<lambda>_. [])\<rparr>"

lemma sample_admit:
  "admitReq sample_sess q (NewDaemon reg conn sample_sess) =
    Some (NewDaemon reg conn sample_sess\<lparr>d_replay := zero_guard\<lparr>started := True, highest := req_ID q, bits := replay_set (req_ID q) (bits zero_guard)\<rparr>\<rparr>, True)"
  using sample_active sample_v2 by (simp add: admitReq_def AntiReplay_def NewDaemon_def accept_def zero_guard_def)

theorem tool_call_end_to_end_witness:
  "\<exists>d2 cl fs r. handleReq esc_cipher quoted_armor sample_texts
      (\<lambda>p. Some (sample_req\<lparr>req_ArgsJSON := p\<rparr>)) (\<lambda>_. False)
      \<lparr>msg_Type = MsgToolReq, msg_Payload = a_wrap quoted_armor (replicate 24 0 @ esc (req_aad sample_sess sample_req) @ [7])\<rparr> 0 []
      (Returned (Inr [8])) (None, Some (replicate 24 0)) (NewDaemon (Register ''stat'' NewRegistry) ''relay'' sample_sess) =
      Some (d2, Some (sample_sess, sample_req), fs @ [(''relay'', FResp r)]) \<and>
    openReply esc_cipher quoted_armor sample_sess r = Inr [8]"
proof -
  let ?d = "NewDaemon (Register ''stat'' NewRegistry) ''relay'' sample_sess"
  let ?dec = "\<lambda>p. Some (sample_req\<lparr>req_ArgsJSON := p\<rparr>)"
  let ?w = "sample_req\<lparr>req_ArgsJSON := a_wrap quoted_armor (replicate 24 0 @ esc (req_aad sample_sess sample_req) @ [7])\<rparr>"
  let ?msg = "\<lparr>msg_Type = MsgToolReq, msg_Payload = req_ArgsJSON ?w\<rparr> :: Message"
  have s: "d_sess ?d = sample_sess" "d_conn ?d = ''relay''" "d_reg ?d = Register ''stat'' NewRegistry" by (simp_all add: NewDaemon_def)
  have r: "sample_req\<lparr>req_ArgsJSON := norm_json (req_ArgsJSON sample_req)\<rparr> = sample_req" by (simp add: sample_req_def norm_json_def)
  have seal: "sealReq esc_cipher quoted_armor (Some (replicate 24 0)) (d_sess ?d) sample_req = Inr ?w"
    using sample_active by (simp add: s sealReq_def AEADSealJSON_def AEADSeal_def esc_cipher_def req_aad_def sample_req_def)
  have dec: "?dec (msg_Payload ?msg) = Some ?w" by simp
  have n: "length (replicate 24 (0 :: byte)) = NonceSizeX" by (simp add: NonceSizeX_def)
  have act: "Active (d_sess ?d)" using sample_active by (simp add: s)
  obtain d1 where adm: "admitReq (d_sess ?d) (sample_req\<lparr>req_ArgsJSON := norm_json (req_ArgsJSON sample_req)\<rparr>) ?d = Some (d1, True)"
    by (simp add: s sample_admit)
  obtain d2 cl fs rr where h: "handleReq esc_cipher quoted_armor sample_texts ?dec (\<lambda>_. False) ?msg 0 [] (Returned (Inr [8])) (None, Some (replicate 24 0)) ?d =
      Some (d2, Some (sample_sess, sample_req), fs @ [(''relay'', FResp rr)])" "cl_req cl = sample_req"
    "openReply esc_cipher quoted_armor sample_sess rr = verdict sample_sess (outcomeResp sample_texts (Register ''stat'' NewRegistry) cl (Returned (Inr [8])))"
    using tool_call_end_to_end [of esc_cipher quoted_armor "replicate 24 0" "replicate 24 0" ?d sample_req ?w ?dec ?msg d1
        sample_texts "\<lambda>_. False" 0 "[]" "Returned (Inr [8])" None] esc_cipher_laws(1) quoted_armor_roundtrip quoted_armor_visible n act seal dec adm
    unfolding s r by blast
  have "verdict sample_sess (outcomeResp sample_texts (Register ''stat'' NewRegistry) cl (Returned (Inr [8]))) = Inr [8]"
    using h(2) by (simp add: outcomeResp_def Dispatch_def Register_def sample_req_def okResp_def verdict_def norm_json_def Let_def)
  with h show ?thesis by (intro exI conjI) auto
qed

theorem replay_slips_through_rotation_witness:
  "\<exists>d2. admitReq sample_sess sample_req (fst (RotateSession \<lparr>Key = [2], Version = ''2''\<rparr>
     (NewDaemon NewRegistry ''relay'' sample_sess\<lparr>d_replay := zero_guard\<lparr>started := True, highest := 1, bits := replay_set 1 (bits zero_guard)\<rparr>\<rparr>))) = Some (d2, True)"
proof -
  let ?d = "NewDaemon NewRegistry ''relay'' sample_sess\<lparr>d_replay := zero_guard\<lparr>started := True, highest := 1, bits := replay_set 1 (bits zero_guard)\<rparr>\<rparr>"
  let ?w = "a_wrap quoted_armor (replicate 24 0 @ esc (req_aad sample_sess sample_req) @ [7])"
  let ?msg = "\<lparr>msg_Type = MsgToolReq, msg_Payload = ?w\<rparr> :: Message"
  let ?dec = "\<lambda>p. Some (sample_req\<lparr>req_ArgsJSON := p\<rparr>)"
  have s: "d_sess ?d = sample_sess" by (simp add: NewDaemon_def)
  have seal: "sealReq esc_cipher quoted_armor (Some (replicate 24 0)) (d_sess ?d) sample_req = Inr (sample_req\<lparr>req_ArgsJSON := ?w\<rparr>)"
    using sample_active by (simp add: s sealReq_def AEADSealJSON_def AEADSeal_def esc_cipher_def req_aad_def sample_req_def)
  have "openReq esc_cipher quoted_armor sample_texts ?dec ?msg ?d = Opened sample_sess sample_req"
    using openReq_sealReq [of esc_cipher quoted_armor "replicate 24 0" ?d sample_req "sample_req\<lparr>req_ArgsJSON := ?w\<rparr>" ?dec ?msg sample_texts]
      esc_cipher_laws(1) quoted_armor_roundtrip quoted_armor_visible seal sample_active s
    by (simp add: NonceSizeX_def sample_req_def norm_json_def)
  from replay_slips_through_rotation [OF this sample_active sample_v2, of "\<lparr>Key = [2], Version = ''2''\<rparr>"]
  show ?thesis by (auto simp: sample_sess_def)
qed

definition sample_env :: daemon_env where
  "sample_env = \<lparr>e_cipher = listed_cipher [(req_aad sample_sess sample_req, [7])], e_armor = quoted_armor, e_texts = sample_texts,
     e_req = (\<lambda>p. Some (sample_req\<lparr>req_ArgsJSON := a_wrap quoted_armor (replicate 24 0 @ esc (req_aad sample_sess sample_req) @ [7])\<rparr>)),
     e_can = (\<lambda>_. None), e_wants = (\<lambda>_. False)\<rparr>"

lemma sample_open_req:
  assumes "d_sess d = sample_sess"
  shows "openReq (e_cipher sample_env) (e_armor sample_env) (e_texts sample_env) (e_req sample_env) msg d = Opened sample_sess sample_req"
proof -
  let ?ct = "replicate 24 0 @ esc (req_aad sample_sess sample_req) @ [7]"
  let ?q = "sample_req\<lparr>req_ArgsJSON := a_wrap quoted_armor ?ct\<rparr>"
  have "AEADOpen (listed_cipher [(req_aad sample_sess sample_req, [7])]) (Key sample_sess) ?ct (req_aad sample_sess sample_req) = Inr [7]"
    by (rule sample_open) simp_all
  then have "AEADOpenJSON (listed_cipher [(req_aad sample_sess sample_req, [7])]) quoted_armor (Key sample_sess) (a_wrap quoted_armor ?ct)
      (ReqAAD sample_sess (req_ID ?q) (req_Tool ?q) (req_DeadlineMs ?q)) = Inr [7]"
    using quoted_armor_roundtrip by (simp add: AEADOpenJSON_def armor_roundtrip_def req_aad_def sample_req_def)
  moreover have "\<not> isBlankArgs (a_wrap quoted_armor ?ct)" using quoted_armor_visible by (simp only: armor_visible_def) simp
  moreover have "sample_req\<lparr>req_ArgsJSON := [7]\<rparr> = sample_req" by (simp add: sample_req_def)
  ultimately show ?thesis using sample_active assms by (simp add: openReq_def sample_env_def)
qed

definition sample_msg :: Message where
  "sample_msg = \<lparr>msg_Type = MsgToolReq, msg_Payload = []\<rparr>"

text \<open>The same message twice: both handlers open it before either asks the guard.\<close>

definition sample_evs :: "daemon_event list" where
  "sample_evs = [DInject None sample_msg, DInject None sample_msg, DLoop, DLoop, DOpen 0, DOpen 0, DAdmit 0, DAdmit 0, DStart 0 0, DStart 0 1]"

theorem tool_runs_once_and_authentic_witness:
  "sy_runs (daemon_run sample_env sample_evs (new_sys (NewDaemon NewRegistry ''relay'' sample_sess))) = [(0, 0, sample_sess, sample_req)] \<and>
   (\<exists>q' \<in> {sample_req}. sample_req = q'\<lparr>req_ArgsJSON := norm_json (req_ArgsJSON q')\<rparr>)"
proof -
  let ?sy = "daemon_run sample_env sample_evs (new_sys (NewDaemon NewRegistry ''relay'' sample_sess))"
  have seen: "isSet 1 (replay_set 1 (replicate replayWindowWords 0))"
    by (simp add: isSet_conv wbit_set window_consts)
  have run: "sy_runs ?sy = [(0, 0, sample_sess, sample_req)]"
    using sample_active sample_v2 seen
    by (simp add: daemon_run_def sample_evs_def new_sys_def open_step_def sample_open_req startReq_def NewDaemon_def
          Inject_def runLoopStep_def sample_msg_def but_nth_def admit_step_def admitReq_def AntiReplay_def accept_def
          zero_guard_def sample_req_def window_consts)
  have t: "trusted (e_cipher sample_env) {sample_req} {} {} sample_sess \<and> small_seals {sample_req} {} {}"
    using sample_trusted [of "[(req_aad sample_sess sample_req, [7])]" "{sample_req}" "{}" "{}"]
    by (simp add: sample_env_def seals_def norm_json_def small_seals_def small_req_def sample_req_def)
  have d: "\<forall>p q. e_req sample_env p = Some q \<longrightarrow> small_req q" by (simp add: sample_env_def small_req_def sample_req_def)
  from tool_runs_once_and_authentic [OF refl d, of sample_evs NewRegistry "''relay''" sample_sess "\<lambda>_. {sample_req}" "\<lambda>_. {}" "\<lambda>_. {}"] run t
  show ?thesis by auto
qed

end
