(* ===== verification/File_Tools.thy ===== *)
theory File_Tools
  imports Sandbox Prelude
begin

text \<open>
  The file tools of the share side: \<open>read_file\<close> and \<open>write_file\<close> (\<^verbatim>\<open>internal/agent/tools/file.go\<close>) and
  \<open>stat\<close> (\<^verbatim>\<open>fs.go\<close>), on a file system of regular files.

  A file system maps resolved paths to contents; \<open>refused\<close> is the error the system gives when it
  does not open a path. Directories, links, modes and times are left out. Arguments and
  results are the values the JSON codec reads and writes; errors are their texts.
\<close>

section \<open>Files\<close>

record fsys =
  fs_files :: "string \<Rightarrow> bytes option"
  refused :: "string \<Rightarrow> string option"

definition set_file :: "string \<Rightarrow> bytes \<Rightarrow> fsys \<Rightarrow> fsys" where
  "set_file p c f = f\<lparr>fs_files := (fs_files f)(p \<mapsto> c)\<rparr>"

text \<open>\<open>WriteAt\<close>: a gap before the offset is filled with zeros; nothing happens without data.\<close>

definition pwrite :: "nat \<Rightarrow> bytes \<Rightarrow> bytes \<Rightarrow> bytes" where
  "pwrite off data c =
     (if data = [] then c
      else take off c @ replicate (off - length c) 0 @ data @ drop (off + length data) c)"

text \<open>\<open>io.ReadFull\<close> into a buffer of \<open>n\<close> bytes: what was read, and whether the end was met.\<close>

definition ReadFull :: "bytes \<Rightarrow> nat \<Rightarrow> bytes \<times> bool" where
  "ReadFull rest n = (take n rest, length rest < n)"

text \<open>What resolves the path of a tool: symbolic links, working directory, sandbox, texts of its errors.\<close>

record tool_env =
  te_links :: "string \<Rightarrow> string option"
  te_cwd :: "string option"
  te_sandbox :: Sandbox
  te_text :: "sandbox_error \<Rightarrow> string"

definition tool_path :: "tool_env \<Rightarrow> string \<Rightarrow> string + string" where
  "tool_path e p =
     (case ResolvePath (te_links e) (te_cwd e) (te_sandbox e) p of Inl er \<Rightarrow> Inl (te_text e er) | Inr r \<Rightarrow> Inr r)"

section \<open>Reading\<close>

record ReadFileArgs =
  rf_Path :: string
  rf_Offset :: int
  rf_Length :: int
  rf_AsText :: bool

record ReadFileResult =
  rr_Bytes :: bytes
  rr_EOF :: bool
  rr_AsText :: bool

definition readFileMaxChunk :: int where "readFileMaxChunk = 2 ^ 20"
definition readFileDefaultChunk :: int where "readFileDefaultChunk = 64 * 2 ^ 10"

definition read_limit :: "int \<Rightarrow> int" where
  "read_limit len =
     (if len > 0 then (if len > readFileMaxChunk then readFileMaxChunk else len) else readFileDefaultChunk)"

definition ReadFile_Run :: "tool_env \<Rightarrow> ReadFileArgs \<Rightarrow> fsys \<Rightarrow> string + ReadFileResult" where
  "ReadFile_Run e a f =
     (case tool_path e (rf_Path a) of
        Inl er \<Rightarrow> Inl er
      | Inr resolved \<Rightarrow>
          (case (fs_files f resolved, refused f resolved) of
             (None, _) \<Rightarrow> Inl (''file_not_found: '' @ rf_Path a)
           | (Some _, Some er) \<Rightarrow> Inl er
           | (Some c, None) \<Rightarrow>
               let (bs, eof) = ReadFull (if rf_Offset a > 0 then drop (nat (rf_Offset a)) c else c) (nat (read_limit (rf_Length a)))
               in Inr \<lparr>rr_Bytes = bs, rr_EOF = eof, rr_AsText = rf_AsText a\<rparr>))"

section \<open>Writing\<close>

record WriteFileArgs =
  wf_Path :: string
  wf_Content :: bytes
  wf_Create :: bool
  wf_Append :: bool
  wf_At :: "int option"

definition WriteFile_Run :: "tool_env \<Rightarrow> WriteFileArgs \<Rightarrow> fsys \<Rightarrow> (string + nat) \<times> fsys" where
  "WriteFile_Run e a f =
     (case tool_path e (wf_Path a) of
        Inl er \<Rightarrow> (Inl er, f)
      | Inr resolved \<Rightarrow>
          (case wf_At a of
             Some pos \<Rightarrow>
               (case refused f resolved of
                  Some er \<Rightarrow> (Inl er, f)
                | None \<Rightarrow>
                    let c = (case fs_files f resolved of None \<Rightarrow> [] | Some c \<Rightarrow> c)
                    in if pos < 0 then (Inl (''writeat '' @ resolved @ '': negative offset''), set_file resolved c f)
                       else (Inr (length (wf_Content a)), set_file resolved (pwrite (nat pos) (wf_Content a) c) f))
           | None \<Rightarrow>
               if \<not> wf_Create a \<and> fs_files f resolved = None then (Inl (''file_not_found: '' @ wf_Path a), f)
               else (case refused f resolved of
                       Some er \<Rightarrow> (Inl er, f)
                     | None \<Rightarrow>
                         let c = (case fs_files f resolved of None \<Rightarrow> [] | Some c \<Rightarrow> c)
                         in (Inr (length (wf_Content a)),
                             set_file resolved (if wf_Append a then c @ wf_Content a else wf_Content a) f))))"

section \<open>Status\<close>

text \<open>The size of a regular file; kind, time and mode are left out.\<close>

definition Stat_Run :: "tool_env \<Rightarrow> string \<Rightarrow> fsys \<Rightarrow> string + int" where
  "Stat_Run e p f =
     (case tool_path e p of
        Inl er \<Rightarrow> Inl er
      | Inr resolved \<Rightarrow>
          (case fs_files f resolved of None \<Rightarrow> Inl (''file_not_found: '' @ p) | Some c \<Rightarrow> Inr (int (length c))))"

end
