(* ===== verification/File_Transfer.thy ===== *)
theory File_Transfer
  imports File_Tools Agent
begin

text \<open>
  File transfer of the help side, \<^verbatim>\<open>internal/client/help_bootstrap.go\<close>: upload and download in chunks
  over the tools of \<open>File_Tools\<close>, with retries per chunk, and reconnection with resumption around them.

  The state holds both file systems and the fates of the calls to come: whether a call is executed on the
  other side, the error the bridge reports for it, and whether the context is done afterwards. A fate
  list that has run out means calls that work. A round of the outer loop brings the state of the
  context and of the reconnection. Progress output is left out.
\<close>

section \<open>Calls\<close>

record fate =
  executed :: bool
  failure :: "string option"
  ctx_done :: "string option"

record xstate =
  x_remote :: fsys
  x_local :: fsys
  x_fates :: "fate list"
  x_bridge :: bool

definition good_fate :: fate where
  "good_fate = \<lparr>executed = True, failure = None, ctx_done = None\<rparr>"

definition next_fate :: "xstate \<Rightarrow> fate \<times> xstate" where
  "next_fate st = (case x_fates st of [] \<Rightarrow> (good_fate, st) | f # fs \<Rightarrow> (f, st\<lparr>x_fates := fs\<rparr>))"

definition isTunnelDown :: "string \<Rightarrow> bool" where
  "isTunnelDown s = (contains_sub s ''tunnel_lost'' \<or> contains_sub s ''not_connected'')"

text \<open>An error of the tool as the bridge reports it.\<close>

definition remote_error :: "string \<Rightarrow> string" where
  "remote_error er = (let (code, msg) = classifyError er in code @ '': '' @ msg)"

text \<open>One call of a tool: result, state of the context, new state.\<close>

definition CallTool :: "(fsys \<Rightarrow> (string + 'r) \<times> fsys) \<Rightarrow> xstate \<Rightarrow> (string + 'r) \<times> string option \<times> xstate" where
  "CallTool tool st =
     (let (ft, st1) = next_fate st;
          (res, rem) = tool (x_remote st1);
          st2 = (if executed ft \<or> failure ft = None then st1\<lparr>x_remote := rem\<rparr> else st1)
      in ((case failure ft of
             Some er \<Rightarrow> Inl er
           | None \<Rightarrow> (case res of Inl er \<Rightarrow> Inl (remote_error er) | Inr r \<Rightarrow> Inr r)), ctx_done ft, st2))"

definition chunkRetries :: nat where "chunkRetries = 3"

fun retry_loop :: "nat \<Rightarrow> (fsys \<Rightarrow> (string + 'r) \<times> fsys) \<Rightarrow> xstate \<Rightarrow> (string + 'r) \<times> string option \<times> xstate" where
  "retry_loop left tool st =
     (let (res, cd, st1) = CallTool tool st
      in case res of
           Inr r \<Rightarrow> (Inr r, cd, st1)
         | Inl er \<Rightarrow>
             if isTunnelDown er then (Inl er, cd, st1)
             else (case left of
                     0 \<Rightarrow> (Inl er, cd, st1)
                   | Suc k \<Rightarrow> (case cd of Some cerr \<Rightarrow> (Inl cerr, cd, st1) | None \<Rightarrow> retry_loop k tool st1)))"

declare retry_loop.simps [simp del]

definition callToolRetry :: "(fsys \<Rightarrow> (string + 'r) \<times> fsys) \<Rightarrow> xstate \<Rightarrow> (string + 'r) \<times> string option \<times> xstate" where
  "callToolRetry tool st = retry_loop chunkRetries tool st"

section \<open>Upload\<close>

record fileTransferArgs =
  ft_LocalPath :: string
  ft_RemotePath :: string
  ft_Offset :: int

record fileTransferResult =
  ft_Bytes :: int
  ft_Chunks :: nat

definition fileTransferChunk :: nat where "fileTransferChunk = 512 * 1024"

text \<open>The environment: the remote tools' and the formatter of texts with the wrapped error last.\<close>

record xenv =
  xe_tools :: tool_env
  xe_text :: "string \<Rightarrow> string \<Rightarrow> int \<Rightarrow> string"

definition wrap :: "xenv \<Rightarrow> string \<Rightarrow> string \<Rightarrow> int \<Rightarrow> string \<Rightarrow> string" where
  "wrap e what path pos er = xe_text e what path pos @ '': '' @ er"

definition write_at :: "xenv \<Rightarrow> string \<Rightarrow> bytes \<Rightarrow> int \<Rightarrow> fsys \<Rightarrow> (string + nat) \<times> fsys" where
  "write_at e path data pos f =
     WriteFile_Run (xe_tools e) \<lparr>wf_Path = path, wf_Content = data, wf_Create = False, wf_Append = False, wf_At = Some pos\<rparr> f"

definition truncate_remote :: "xenv \<Rightarrow> string \<Rightarrow> fsys \<Rightarrow> (string + nat) \<times> fsys" where
  "truncate_remote e path f =
     WriteFile_Run (xe_tools e) \<lparr>wf_Path = path, wf_Content = [], wf_Create = True, wf_Append = False, wf_At = None\<rparr> f"

text \<open>
  The loop over the chunks of the local file from \<open>pos\<close> on. One write is in flight at a time
  (\<open>uploadConcurrency\<close> is 1): the next one starts when the last one is done, unless the context is.
\<close>

function upload_loop :: "xenv \<Rightarrow> string \<Rightarrow> bytes \<Rightarrow> int \<Rightarrow> nat \<Rightarrow> string option \<Rightarrow> xstate \<Rightarrow> (string + fileTransferResult) \<times> xstate" where
  "upload_loop e path rest pos chunks cd st =
     (let (data, eof) = ReadFull rest fileTransferChunk
      in if data = [] then (Inr \<lparr>ft_Bytes = pos, ft_Chunks = chunks\<rparr>, st)
         else case cd of
                Some cerr \<Rightarrow> (Inl (wrap e ''upload cancelled'' path pos cerr), st)
              | None \<Rightarrow>
                  let (res, cd1, st1) = callToolRetry (write_at e path data pos) st
                  in case res of
                       Inl er \<Rightarrow> (Inl (wrap e ''upload failed'' path pos er), st1)
                     | Inr _ \<Rightarrow>
                         if eof then (Inr \<lparr>ft_Bytes = pos + int (length data), ft_Chunks = chunks + 1\<rparr>, st1)
                         else upload_loop e path (drop fileTransferChunk rest) (pos + int (length data)) (chunks + 1) cd1 st1)"
  by pat_completeness auto
termination
  by (relation "measure (\<lambda>(e, path, rest, _). length rest)") (auto simp: ReadFull_def fileTransferChunk_def)

declare upload_loop.simps [simp del]

text \<open>Where an upload starts: from the caller's offset, or for a resumption from the size of the remote file.\<close>

definition upload_offset :: "xenv \<Rightarrow> fileTransferArgs \<Rightarrow> xstate \<Rightarrow> int \<times> string option \<times> xstate" where
  "upload_offset e a st =
     (if ft_Offset a > 0
      then (case CallTool (\<lambda>f. (Stat_Run (xe_tools e) (ft_RemotePath a) f, f)) st of
              (Inr sz, cd, st1) \<Rightarrow> (if sz \<ge> 0 then sz else ft_Offset a, cd, st1)
            | (Inl _, cd, st1) \<Rightarrow> (0, cd, st1))
      else (ft_Offset a, None, st))"

definition doUploadFile :: "xenv \<Rightarrow> fileTransferArgs \<Rightarrow> xstate \<Rightarrow> (string + fileTransferResult) \<times> xstate" where
  "doUploadFile e a st =
     (if ft_LocalPath a = [] \<or> ft_RemotePath a = [] then (Inl ''local_path and remote_path required'', st)
      else case (fs_files (x_local st) (ft_LocalPath a), refused (x_local st) (ft_LocalPath a)) of
             (None, _) \<Rightarrow> (Inl (wrap e ''open local'' (ft_LocalPath a) 0 ''no such file''), st)
           | (Some _, Some er) \<Rightarrow> (Inl (wrap e ''open local'' (ft_LocalPath a) 0 er), st)
           | (Some content, None) \<Rightarrow>
               let (offset, cd, st1) = upload_offset e a st
               in case (if offset = 0 then callToolRetry (truncate_remote e (ft_RemotePath a)) st1 else (Inr 0, cd, st1)) of
                    (Inl er, _, st2) \<Rightarrow> (Inl (wrap e ''truncate remote'' (ft_RemotePath a) 0 er), st2)
                  | (Inr _, cd2, st2) \<Rightarrow> upload_loop e (ft_RemotePath a) (drop (nat offset) content) offset 0 cd2 st2)"

section \<open>Download\<close>

definition read_chunk :: "xenv \<Rightarrow> string \<Rightarrow> int \<Rightarrow> fsys \<Rightarrow> (string + ReadFileResult) \<times> fsys" where
  "read_chunk e path pos f =
     (ReadFile_Run (xe_tools e) \<lparr>rf_Path = path, rf_Offset = pos, rf_Length = int fileTransferChunk, rf_AsText = False\<rparr> f, f)"

text \<open>The local file is written at the position \<open>pos\<close> its handle has reached.\<close>

definition write_local :: "string \<Rightarrow> nat \<Rightarrow> bytes \<Rightarrow> fsys \<Rightarrow> fsys" where
  "write_local path pos data f =
     set_file path (pwrite pos data (case fs_files f path of None \<Rightarrow> [] | Some c \<Rightarrow> c)) f"

partial_function (option) download_loop ::
  "xenv \<Rightarrow> string \<Rightarrow> string \<Rightarrow> nat \<Rightarrow> int \<Rightarrow> nat \<Rightarrow> xstate \<Rightarrow> ((string + fileTransferResult) \<times> xstate) option" where
  "download_loop e rpath lpath pos got chunks st =
     (case callToolRetry (read_chunk e rpath got) st of
        (Inl er, _, st1) \<Rightarrow> Some (Inl (wrap e ''download failed'' rpath got er), st1)
      | (Inr res, _, st1) \<Rightarrow>
          let n = length (rr_Bytes res);
              st2 = (if n > 0 then st1\<lparr>x_local := write_local lpath pos (rr_Bytes res) (x_local st1)\<rparr> else st1);
              sum2 = got + int n
          in if rr_EOF res then Some (Inr \<lparr>ft_Bytes = sum2, ft_Chunks = chunks + 1\<rparr>, st2)
             else if n = 0 then Some (Inl (wrap e ''empty chunk without EOF'' rpath sum2 []), st2)
             else download_loop e rpath lpath (pos + n) sum2 (chunks + 1) st2)"

definition doDownloadFile :: "xenv \<Rightarrow> fileTransferArgs \<Rightarrow> xstate \<Rightarrow> ((string + fileTransferResult) \<times> xstate) option" where
  "doDownloadFile e a st =
     (if ft_LocalPath a = [] \<or> ft_RemotePath a = [] then Some (Inl ''local_path and remote_path required'', st)
      else case refused (x_local st) (ft_LocalPath a) of
             Some er \<Rightarrow> Some (Inl (wrap e ''open local'' (ft_LocalPath a) 0 er), st)
           | None \<Rightarrow>
               if ft_Offset a > 0 \<and> fs_files (x_local st) (ft_LocalPath a) = None
               then Some (Inl (wrap e ''open local'' (ft_LocalPath a) 0 ''no such file''), st)
               else let st1 = (if ft_Offset a > 0 then st else st\<lparr>x_local := set_file (ft_LocalPath a) [] (x_local st)\<rparr>);
                        (_, _, st2) = CallTool (\<lambda>f. (Stat_Run (xe_tools e) (ft_RemotePath a) f, f)) st1
                    in download_loop e (ft_RemotePath a) (ft_LocalPath a) (nat (ft_Offset a)) (ft_Offset a) 0 st2)"

section \<open>Reconnection\<close>

definition maxTransferReconnects :: nat where "maxTransferReconnects = 5"

datatype transfer = Upload | Download

definition resumeTransferArgs :: "transfer \<Rightarrow> fileTransferArgs \<Rightarrow> xstate \<Rightarrow> fileTransferArgs" where
  "resumeTransferArgs kind a st =
     (case kind of
        Download \<Rightarrow> a\<lparr>ft_Offset := (case fs_files (x_local st) (ft_LocalPath a) of None \<Rightarrow> 0 | Some c \<Rightarrow> int (length c))\<rparr>
      | Upload \<Rightarrow> a\<lparr>ft_Offset := 1\<rparr>)"

definition run_transfer :: "xenv \<Rightarrow> transfer \<Rightarrow> fileTransferArgs \<Rightarrow> xstate \<Rightarrow> ((string + fileTransferResult) \<times> xstate) option" where
  "run_transfer e kind a st =
     (if \<not> x_bridge st then Some (Inl ''not_connected: call 'connect' with the assist code first'', st)
      else case kind of Upload \<Rightarrow> Some (doUploadFile e a st) | Download \<Rightarrow> doDownloadFile e a st)"

record xround =
  rd_ctx :: bool                  \<comment> \<open>the context is done when the error arrives\<close>
  rd_wait :: "string option"      \<comment> \<open>it ends during the pause\<close>
  rd_reconnect :: "string option" \<comment> \<open>the reconnection fails\<close>

definition good_round :: xround where
  "good_round = \<lparr>rd_ctx = False, rd_wait = None, rd_reconnect = None\<rparr>"

fun transferLoop ::
  "nat \<Rightarrow> xenv \<Rightarrow> transfer \<Rightarrow> fileTransferArgs \<Rightarrow> xround list \<Rightarrow> xstate \<Rightarrow> ((string + fileTransferResult) \<times> xstate) option" where
  "transferLoop left e kind a rounds st =
     (case run_transfer e kind a st of
        None \<Rightarrow> None
      | Some (Inr res, st1) \<Rightarrow> Some (Inr res, st1)
      | Some (Inl er, st1) \<Rightarrow>
          let (rd, rest) = (case rounds of [] \<Rightarrow> (good_round, []) | r # rs \<Rightarrow> (r, rs))
          in case left of
               0 \<Rightarrow> Some (Inl er, st1)
             | Suc k \<Rightarrow>
                 if \<not> isTunnelDown er \<or> rd_ctx rd then Some (Inl er, st1)
                 else case rd_wait rd of
                        Some cerr \<Rightarrow> Some (Inl cerr, st1)
                      | None \<Rightarrow>
                          (case rd_reconnect rd of
                             Some rerr \<Rightarrow> Some (Inl (wrap e ''reconnect failed'' er 0 rerr), st1)
                           | None \<Rightarrow> transferLoop k e kind (resumeTransferArgs kind a st1) rest (st1\<lparr>x_bridge := True\<rparr>)))"

declare transferLoop.simps [simp del]

definition transferWithReconnect ::
  "xenv \<Rightarrow> transfer \<Rightarrow> fileTransferArgs \<Rightarrow> xround list \<Rightarrow> xstate \<Rightarrow> ((string + fileTransferResult) \<times> xstate) option" where
  "transferWithReconnect e kind a rounds st = transferLoop maxTransferReconnects e kind a rounds st"

end
