(* ===== verification/File_Transfer_Props.thy ===== *)
theory File_Transfer_Props
  imports File_Transfer "HOL-Library.Sublist"
begin

text \<open>
  What a file transfer leaves behind, whatever happens to its calls: each may be lost before or
  after it took effect, retried, or cut off by a tunnel that breaks and is rebuilt.
\<close>

section \<open>Calls and retries\<close>

lemma CallTool_spec:
  assumes "CallTool tool st = (res, cd, st')"
  shows "x_local st' = x_local st" "x_bridge st' = x_bridge st"
    "x_remote st' = x_remote st \<or> x_remote st' = snd (tool (x_remote st))"
    "res = Inr r \<Longrightarrow> fst (tool (x_remote st)) = Inr r \<and> x_remote st' = snd (tool (x_remote st))"
  using assms
  by (auto simp: CallTool_def next_fate_def Let_def split: prod.splits list.splits option.splits sum.splits if_splits)

lemma CallTool_fates: "CallTool tool st = (res, cd, st') \<Longrightarrow> x_fates st = [] \<Longrightarrow> x_fates st' = []"
  by (cases "tool (x_remote st)") (simp add: CallTool_def next_fate_def good_fate_def, metis xstate.select_convs(3) xstate.surjective xstate.update_convs(1))

text \<open>An invariant \<open>I\<close> of the other side that the tool keeps survives the retries.\<close>

lemma retry_loop_spec:
  assumes "\<And>f. I f \<Longrightarrow> I (snd (tool f))"
  shows "I (x_remote st) \<Longrightarrow> retry_loop left tool st = (res, cd, st') \<Longrightarrow>
    I (x_remote st') \<and> x_local st' = x_local st \<and> x_bridge st' = x_bridge st \<and>
    (\<forall>r. res = Inr r \<longrightarrow> (\<exists>f. I f \<and> fst (tool f) = Inr r \<and> x_remote st' = snd (tool f)))"
proof (induction left arbitrary: st)
  case 0
  obtain r1 cd1 st1 where c: "CallTool tool st = (r1, cd1, st1)" by (metis prod_cases3)
  have "I (x_remote st1)" using CallTool_spec(3) [OF c] "0.prems"(1) assms by auto
  then show ?case using 0 c CallTool_spec(1,2,4) [OF c]
    by (auto simp: retry_loop.simps [of 0] split: sum.splits if_splits)
next
  case (Suc k)
  obtain r1 cd1 st1 where c: "CallTool tool st = (r1, cd1, st1)" by (metis prod_cases3)
  have I1: "I (x_remote st1)" using CallTool_spec(3) [OF c] Suc.prems(1) assms by auto
  note sp = CallTool_spec(1,2,4) [OF c]
  show ?case
  proof (cases "\<exists>er. r1 = Inl er \<and> \<not> isTunnelDown er \<and> cd1 = None")
    case True
    then have "retry_loop k tool st1 = (res, cd, st')" using Suc.prems(2) c by (auto simp: retry_loop.simps [of "Suc k"])
    from Suc.IH [OF I1 this] sp show ?thesis by auto
  next
    case False
    then show ?thesis using Suc.prems c sp I1
      by (auto simp: retry_loop.simps [of "Suc k"] split: sum.splits if_splits option.splits)
  qed
qed

lemmas retry_spec = retry_loop_spec [where left = chunkRetries, folded callToolRetry_def]

text \<open>Calls that work: no fates left.\<close>

lemma CallTool_works:
  "x_fates st = [] \<Longrightarrow> fst (tool (x_remote st)) = Inr r \<Longrightarrow> CallTool tool st = (Inr r, None, st\<lparr>x_remote := snd (tool (x_remote st))\<rparr>)"
  by (cases "tool (x_remote st)") (simp add: CallTool_def next_fate_def good_fate_def)

lemma retry_works:
  "x_fates st = [] \<Longrightarrow> fst (tool (x_remote st)) = Inr r \<Longrightarrow> callToolRetry tool st = (Inr r, None, st\<lparr>x_remote := snd (tool (x_remote st))\<rparr>)"
  by (simp add: callToolRetry_def retry_loop.simps CallTool_works)

section \<open>Upload\<close>

lemma pwrite_prefix:
  assumes "k \<le> length L" "data = take n (drop k L)"
  shows "pwrite k data (take k L) = take (k + n) L" "pwrite k data (take (k + n) L) = take (k + n) L"
proof -
  have len: "length data = min n (length L - k)" using assms by (simp add: min.commute)
  show "pwrite k data (take k L) = take (k + n) L" using assms by (auto simp: pwrite_def take_add)
  have "drop (k + length data) (take (k + n) L) = []" using len assms(1) by simp
  moreover have "take k (take (k + n) L) = take k L" by (simp add: min_def)
  ultimately show "pwrite k data (take (k + n) L) = take (k + n) L"
    using assms len by (auto simp: pwrite_def take_add min_def)
qed

lemma set_file_sel [simp]: "fs_files (set_file p c f) = (fs_files f)(p \<mapsto> c)" "refused (set_file p c f) = refused f"
  by (simp_all add: set_file_def)

lemma write_at_spec:
  assumes "tool_path (xe_tools e) path = Inr p"
  shows "snd (write_at e path data (int k) f) = (if refused f p = None then set_file p (pwrite k data (case fs_files f p of None \<Rightarrow> [] | Some c \<Rightarrow> c)) f else f)"
    "fst (write_at e path data (int k) f) = Inr r \<Longrightarrow> refused f p = None"
    "refused f p = None \<Longrightarrow> fst (write_at e path data (int k) f) = Inr (length data)"
  using assms by (auto simp: write_at_def WriteFile_Run_def Let_def split: option.splits)

lemma truncate_spec:
  assumes "tool_path (xe_tools e) path = Inr p"
  shows "snd (truncate_remote e path f) = (if refused f p = None then set_file p [] f else f)"
    "fst (truncate_remote e path f) = Inr r \<Longrightarrow> refused f p = None"
    "refused f p = None \<Longrightarrow> fst (truncate_remote e path f) = Inr 0"
  using assms by (auto simp: truncate_remote_def WriteFile_Run_def Let_def split: option.splits)

definition uploaded :: "string \<Rightarrow> bytes \<Rightarrow> xstate \<Rightarrow> bool" where
  "uploaded p L st \<longleftrightarrow> (\<forall>c. fs_files (x_remote st) p = Some c \<longrightarrow> prefix c L)"

lemma chunk_write:
  assumes tp: "tool_path (xe_tools e) path = Inr p" and k: "k \<le> length L"
    and f: "fs_files (x_remote st) p = Some (take k L)"
    and c: "callToolRetry (write_at e path (take n (drop k L)) (int k)) st = (res, cd, st')"
  shows "x_local st' = x_local st" "x_bridge st' = x_bridge st" "uploaded p L st'"
    "res = Inr r \<Longrightarrow> fs_files (x_remote st') p = Some (take (k + n) L)"
proof -
  let ?data = "take n (drop k L)"
  let ?I = "\<lambda>f. fs_files f p = Some (take k L) \<or> fs_files f p = Some (take (k + n) L)"
  have step: "?I (snd (write_at e path ?data (int k) f))" "fst (write_at e path ?data (int k) f) = Inr r \<Longrightarrow>
      fs_files (snd (write_at e path ?data (int k) f)) p = Some (take (k + n) L)" if "?I f" for f r
    using that write_at_spec(1) [OF tp, of ?data k f] write_at_spec(2) [OF tp, of ?data k f] pwrite_prefix [OF k refl, of n] by auto
  note sp = retry_spec [of ?I, OF step(1) disjI1 [OF f] c]
  show "x_local st' = x_local st" "x_bridge st' = x_bridge st" using sp by auto
  show "uploaded p L st'" using sp by (auto simp: uploaded_def take_is_prefix)
  show "res = Inr r \<Longrightarrow> fs_files (x_remote st') p = Some (take (k + n) L)" using sp step(2) by auto
qed

lemma upload_loop_spec:
  assumes tp: "tool_path (xe_tools e) path = Inr p"
  shows "upload_loop e path rest pos chunks cd st = (res, st') \<Longrightarrow> rest = drop k L \<Longrightarrow> pos = int k \<Longrightarrow> k \<le> length L \<Longrightarrow>
    fs_files (x_remote st) p = Some (take k L) \<Longrightarrow>
    x_local st' = x_local st \<and> x_bridge st' = x_bridge st \<and> uploaded p L st' \<and>
    (\<forall>r. res = Inr r \<longrightarrow> fs_files (x_remote st') p = Some L \<and> ft_Bytes r = int (length L))"
proof (induction "length rest" arbitrary: rest pos chunks cd st k rule: less_induct)
  case less
  let ?n = fileTransferChunk
  let ?data = "take ?n (drop k L)"
  have n0: "?n > 0" by (simp add: fileTransferChunk_def)
  note eq = less.prems(1) [unfolded upload_loop.simps [of e path rest], unfolded ReadFull_def less.prems(2), simplified]
  show ?case
  proof (cases "drop k L = []")
    case True
    then have "take k L = L" "k = length L" using less.prems(4) by auto
    with True eq less.prems show ?thesis by (auto simp: uploaded_def)
  next
    case False
    then have d: "?data \<noteq> []" using n0 by simp
    show ?thesis
    proof (cases cd)
      case (Some cerr)
      with eq d False n0 less.prems(5) show ?thesis by (auto simp: uploaded_def take_is_prefix)
    next
      case None
      obtain r1 cd1 st1 where c: "callToolRetry (write_at e path ?data (int k)) st = (r1, cd1, st1)" by (metis prod_cases3)
      note cw = chunk_write [OF tp less.prems(4,5) c]
      show ?thesis
      proof (cases r1)
        case (Inl er)
        with eq None c d n0 False less.prems(3) cw show ?thesis by auto
      next
        case (Inr x)
        have f1: "fs_files (x_remote st1) p = Some (take (k + ?n) L)" using cw(4) Inr by blast
        show ?thesis
        proof (cases "length L - k < ?n")
          case True
          then have all: "take (k + ?n) L = L" "k + length ?data = length L" using less.prems(4) by auto
          have "res = Inr \<lparr>ft_Bytes = pos + int (length ?data), ft_Chunks = chunks + 1\<rparr>" "st' = st1"
            using eq None c d n0 False less.prems(3) Inr True by auto
          with f1 all cw(1,2,3) less.prems(3) show ?thesis by auto
        next
          case False
          then have len: "length ?data = ?n" "k + ?n \<le> length L" using n0 less.prems(4) by auto
          have run: "upload_loop e path (drop ?n rest) (int (k + ?n)) (chunks + 1) cd1 st1 = (res, st')"
            using eq None c d n0 \<open>drop k L \<noteq> []\<close> less.prems(2,3) Inr False len by (auto simp: add.commute)
          have lt: "length (drop ?n rest) < length rest" using n0 \<open>drop k L \<noteq> []\<close> less.prems(2) by auto
          have dr: "drop ?n rest = drop (k + ?n) L" using less.prems(2) by (simp add: add.commute)
          from less.hyps [OF lt run dr refl len(2) f1] cw(1,2) show ?thesis by simp
        qed
      qed
    qed
  qed
qed

lemma upload_offset_spec:
  assumes tp: "tool_path (xe_tools e) (ft_RemotePath a) = Inr p" and up: "uploaded p L st"
    and o: "upload_offset e a st = (offset, cd, st')" and pos: "0 \<le> ft_Offset a"
  shows "x_local st' = x_local st" "x_bridge st' = x_bridge st" "x_remote st' = x_remote st"
    "offset = 0 \<or> (\<exists>k. offset = int k \<and> k \<le> length L \<and> fs_files (x_remote st') p = Some (take k L))"
proof -
  have st: "x_local st' = x_local st \<and> x_bridge st' = x_bridge st \<and> x_remote st' = x_remote st \<and>
    (offset = 0 \<or> (\<exists>k. offset = int k \<and> k \<le> length L \<and> fs_files (x_remote st') p = Some (take k L)))"
  proof (cases "ft_Offset a > 0")
    case True
    let ?tool = "\<lambda>f. (Stat_Run (xe_tools e) (ft_RemotePath a) f, f)"
    obtain r1 cd1 st1 where c: "CallTool ?tool st = (r1, cd1, st1)" by (metis prod_cases3)
    have same: "x_local st1 = x_local st" "x_bridge st1 = x_bridge st" "x_remote st1 = x_remote st"
      using CallTool_spec(1-3) [OF c] by auto
    show ?thesis
    proof (cases r1)
      case (Inr sz)
      from CallTool_spec(4) [OF c Inr] tp obtain cc where cc: "fs_files (x_remote st) p = Some cc" "sz = int (length cc)"
        by (auto simp: Stat_Run_def split: option.splits)
      then have "prefix cc L" using up by (simp add: uploaded_def)
      then have "cc = take (length cc) L" "length cc \<le> length L" by (auto simp: prefix_def)
      then show ?thesis using True o c Inr same cc by (auto simp: upload_offset_def)
    qed (use True o c same in \<open>auto simp: upload_offset_def\<close>)
  qed (use o pos in \<open>auto simp: upload_offset_def\<close>)
  then show "x_local st' = x_local st" "x_bridge st' = x_bridge st" "x_remote st' = x_remote st"
    "offset = 0 \<or> (\<exists>k. offset = int k \<and> k \<le> length L \<and> fs_files (x_remote st') p = Some (take k L))" by auto
qed

lemma truncate_retry:
  assumes tp: "tool_path (xe_tools e) path = Inr p" and up: "uploaded p L st"
    and c: "callToolRetry (truncate_remote e path) st = (res, cd, st')"
  shows "x_local st' = x_local st" "x_bridge st' = x_bridge st" "uploaded p L st'"
    "res = Inr r \<Longrightarrow> fs_files (x_remote st') p = Some []"
proof -
  let ?I = "\<lambda>f. fs_files f p = fs_files (x_remote st) p \<or> fs_files f p = Some []"
  have step: "?I (snd (truncate_remote e path f))"
    "fst (truncate_remote e path f) = Inr r \<Longrightarrow> fs_files (snd (truncate_remote e path f)) p = Some []" if "?I f" for f r
    using that truncate_spec(1) [OF tp, of f] truncate_spec(2) [OF tp, of f] by auto
  have "?I (x_remote st)" by simp
  note sp = retry_spec [of ?I, OF step(1) this c]
  show "x_local st' = x_local st" "x_bridge st' = x_bridge st" using sp by auto
  show "uploaded p L st'" using sp up by (auto simp: uploaded_def)
  show "res = Inr r \<Longrightarrow> fs_files (x_remote st') p = Some []" using sp step(2) by auto
qed

lemma doUpload_spec:
  assumes tp: "tool_path (xe_tools e) (ft_RemotePath a) = Inr p" and up: "uploaded p L st"
    and L: "fs_files (x_local st) (ft_LocalPath a) = Some L" and pos: "0 \<le> ft_Offset a"
    and d: "doUploadFile e a st = (res, st')"
  shows "x_local st' = x_local st \<and> uploaded p L st' \<and>
    (\<forall>r. res = Inr r \<longrightarrow> fs_files (x_remote st') p = Some L \<and> ft_Bytes r = int (length L))"
proof (cases "ft_LocalPath a = [] \<or> ft_RemotePath a = [] \<or> refused (x_local st) (ft_LocalPath a) \<noteq> None")
  case True
  then show ?thesis using d L up by (auto simp: doUploadFile_def split: option.splits if_splits)
next
  case False
  obtain offset cd st1 where o: "upload_offset e a st = (offset, cd, st1)" by (metis prod_cases3)
  note os = upload_offset_spec [OF tp up o pos]
  have up1: "uploaded p L st1" using up os(3) by (simp add: uploaded_def)
  have run: "upload_loop e (ft_RemotePath a) (drop (nat offset) L) offset 0 cd2 st2 = (res, st') \<Longrightarrow> x_local st2 = x_local st \<Longrightarrow>
      offset = int k \<Longrightarrow> k \<le> length L \<Longrightarrow> fs_files (x_remote st2) p = Some (take k L) \<Longrightarrow> ?thesis" for cd2 st2 k
    using upload_loop_spec [OF tp, of "drop (nat offset) L" offset 0 cd2 st2 res st' k L] by auto
  show ?thesis
  proof (cases "offset = 0")
    case True
    obtain r2 cd2 st2 where t: "callToolRetry (truncate_remote e (ft_RemotePath a)) st1 = (r2, cd2, st2)" by (metis prod_cases3)
    note ts = truncate_retry [OF tp up1 t]
    show ?thesis
    proof (cases r2)
      case (Inl er)
      then show ?thesis using d False L o t True ts os(1) by (auto simp: doUploadFile_def)
    next
      case (Inr x)
      with ts(4) have "fs_files (x_remote st2) p = Some (take 0 L)" by simp
      with run [of cd2 st2 0] show ?thesis using d False L o t True Inr ts(1) os(1) by (auto simp: doUploadFile_def)
    qed
  next
    case off: False
    then obtain k where "offset = int k" "k \<le> length L" "fs_files (x_remote st1) p = Some (take k L)" using os(4) by auto
    with run [of cd st1 k] show ?thesis using d False L o off os(1) by (auto simp: doUploadFile_def)
  qed
qed

lemma run_upload: "\<exists>r1 st1. run_transfer e Upload a st = Some (r1, st1)"
  by (cases "x_bridge st"; cases "doUploadFile e a st") (auto simp: run_transfer_def)

lemma upload_transfer_spec:
  "transferLoop left e Upload a rounds st = Some (res, st') \<Longrightarrow>
   tool_path (xe_tools e) (ft_RemotePath a) = Inr p \<Longrightarrow> uploaded p L st \<Longrightarrow>
   fs_files (x_local st) (ft_LocalPath a) = Some L \<Longrightarrow> 0 \<le> ft_Offset a \<Longrightarrow>
   (\<forall>r. res = Inr r \<longrightarrow> fs_files (x_remote st') p = Some L \<and> ft_Bytes r = int (length L))"
proof (induction left arbitrary: a rounds st)
  case (0 a rounds st)
  obtain r1 st1 where r: "run_transfer e Upload a st = Some (r1, st1)" using run_upload by blast
  then show ?case using 0 doUpload_spec [OF 0(2-5), of r1 st1]
    by (auto simp: transferLoop.simps [of 0] run_transfer_def split: if_splits sum.splits prod.splits)
next
  case (Suc k a rounds st)
  obtain r1 st1 where r: "run_transfer e Upload a st = Some (r1, st1)" using run_upload by blast
  have s1: "x_local st1 = x_local st" "uploaded p L st1"
    "\<And>x. r1 = Inr x \<Longrightarrow> fs_files (x_remote st1) p = Some L \<and> ft_Bytes x = int (length L)"
    using r doUpload_spec [OF Suc.prems(2-5), of r1 st1] Suc.prems(3) by (auto simp: run_transfer_def split: if_splits)
  show ?case
  proof (cases r1)
    case (Inr x)
    then show ?thesis using Suc.prems(1) r s1(3) by (auto simp: transferLoop.simps [of "Suc k"])
  next
    case (Inl er)
    let ?a = "resumeTransferArgs Upload a st1" and ?st = "st1\<lparr>x_bridge := True\<rparr>"
    have "transferLoop k e Upload ?a rs ?st = Some (res, st') \<Longrightarrow> ?thesis" for rs
      by (rule Suc.IH [of ?a rs ?st]) (use Suc.prems s1 in \<open>auto simp: resumeTransferArgs_def uploaded_def\<close>)
    then show ?thesis using Suc.prems(1) r Inl
      by (auto simp: transferLoop.simps [of "Suc k"] Let_def split: if_splits option.splits list.splits)
  qed
qed

lemma upload_loop_works:
  assumes tp: "tool_path (xe_tools e) path = Inr p"
  shows "x_fates st = [] \<Longrightarrow> refused (x_remote st) p = None \<Longrightarrow> \<exists>r st'. upload_loop e path rest (int k) chunks None st = (Inr r, st')"
proof (induction "length rest" arbitrary: rest k chunks st rule: less_induct)
  case less
  let ?n = fileTransferChunk
  let ?data = "take ?n rest"
  let ?st = "st\<lparr>x_remote := snd (write_at e path ?data (int k) (x_remote st))\<rparr>"
  have n0: "?n > 0" by (simp add: fileTransferChunk_def)
  have c: "callToolRetry (write_at e path ?data (int k)) st = (Inr (length ?data), None, ?st)"
    using retry_works [of st "write_at e path ?data (int k)"] less.prems(1) write_at_spec(3) [OF tp less.prems(2)] by blast
  have st: "x_fates ?st = []" "refused (x_remote ?st) p = None" using less.prems write_at_spec(1) [OF tp] by auto
  show ?case
  proof (cases "rest = []")
    case True
    then show ?thesis by (subst upload_loop.simps) (simp add: ReadFull_def)
  next
    case False
    then have lt: "length (drop ?n rest) < length rest" using n0 by simp
    obtain r st' where "length rest < ?n \<or> upload_loop e path (drop ?n rest) (int (k + length ?data)) (chunks + 1) None ?st = (Inr r, st')"
      using less.hyps [OF lt st] by blast
    then show ?thesis using False n0 c by (auto simp: upload_loop.simps [of e path rest] ReadFull_def Let_def)
  qed
qed

lemma doUpload_works:
  assumes "tool_path (xe_tools e) (ft_RemotePath a) = Inr p" "fs_files (x_local st) (ft_LocalPath a) = Some L" "ft_Offset a = 0"
    and "ft_LocalPath a \<noteq> []" "ft_RemotePath a \<noteq> []" "refused (x_local st) (ft_LocalPath a) = None"
    and "x_fates st = []" "refused (x_remote st) p = None"
  shows "\<exists>r st'. doUploadFile e a st = (Inr r, st')"
proof -
  let ?st = "st\<lparr>x_remote := snd (truncate_remote e (ft_RemotePath a) (x_remote st))\<rparr>"
  have t: "callToolRetry (truncate_remote e (ft_RemotePath a)) st = (Inr 0, None, ?st)"
    using retry_works [of st "truncate_remote e (ft_RemotePath a)"] assms(7) truncate_spec(3) [OF assms(1,8)] by blast
  have "x_fates ?st = []" "refused (x_remote ?st) p = None" using assms(7,8) truncate_spec(1) [OF assms(1)] by auto
  from upload_loop_works [OF assms(1) this, of L 0 0] t assms(2-6) show ?thesis
    by (auto simp: doUploadFile_def upload_offset_def)
qed

lemma upload_returns: "\<exists>res st'. transferLoop left e Upload a rounds st = Some (res, st')"
proof (induction left arbitrary: a rounds st)
  case 0
  obtain r1 st1 where "run_transfer e Upload a st = Some (r1, st1)" using run_upload by blast
  then show ?case by (auto simp: transferLoop.simps [of 0] split: sum.splits)
next
  case (Suc k)
  obtain r1 st1 where r: "run_transfer e Upload a st = Some (r1, st1)" using run_upload by blast
  show ?case
  proof (cases r1)
    case (Inl er)
    obtain res st' where "transferLoop k e Upload (resumeTransferArgs Upload a st1) (case rounds of [] \<Rightarrow> [] | _ # rs \<Rightarrow> rs) (st1\<lparr>x_bridge := True\<rparr>) = Some (res, st')"
      using Suc.IH by blast
    then show ?thesis using r Inl
      by (auto simp: transferLoop.simps [of "Suc k"] Let_def split: list.splits option.splits)
  qed (use r in \<open>auto simp: transferLoop.simps [of "Suc k"]\<close>)
qed

section \<open>Download\<close>

lemma pwrite_end: "length c = k \<Longrightarrow> pwrite k data c = c @ data"
  by (auto simp: pwrite_def)

lemma read_chunk_spec:
  assumes "tool_path (xe_tools e) path = Inr p" "fs_files f p = Some C"
  shows "snd (read_chunk e path pos f) = f"
    "fst (read_chunk e path (int k) f) = Inr r \<Longrightarrow>
     rr_Bytes r = take fileTransferChunk (drop k C) \<and> (rr_EOF r \<longleftrightarrow> length C - k < fileTransferChunk)"
    "refused f p = None \<Longrightarrow> \<exists>r. fst (read_chunk e path pos f) = Inr r"
proof -
  have lim: "nat (read_limit (int fileTransferChunk)) = fileTransferChunk"
    by (simp add: read_limit_def readFileMaxChunk_def fileTransferChunk_def)
  show "snd (read_chunk e path pos f) = f" by (simp add: read_chunk_def)
  show "fst (read_chunk e path (int k) f) = Inr r \<Longrightarrow>
     rr_Bytes r = take fileTransferChunk (drop k C) \<and> (rr_EOF r \<longleftrightarrow> length C - k < fileTransferChunk)"
    using assms lim by (cases k) (auto simp: read_chunk_def ReadFile_Run_def ReadFull_def Let_def nat_add_distrib split: option.splits)
  show "refused f p = None \<Longrightarrow> \<exists>r. fst (read_chunk e path pos f) = Inr r"
    using assms by (auto simp: read_chunk_def ReadFile_Run_def ReadFull_def Let_def)
qed

definition downloaded :: "string \<Rightarrow> bytes \<Rightarrow> xstate \<Rightarrow> bool" where
  "downloaded lp C st \<longleftrightarrow> (\<exists>k \<le> length C. fs_files (x_local st) lp = Some (take k C))"

lemma write_local_prefix:
  assumes "k \<le> length C" "fs_files f lp = Some (take k C)"
  shows "fs_files (write_local lp k (take n (drop k C)) f) lp = Some (take (k + n) C)"
  using assms pwrite_end [of "take k C" k] by (simp add: write_local_def take_add)

lemma download_loop_spec:
  assumes tp: "tool_path (xe_tools e) rp = Inr p"
  shows "fs_files (x_remote st) p = Some C \<Longrightarrow> k \<le> length C \<Longrightarrow> fs_files (x_local st) lp = Some (take k C) \<Longrightarrow>
    \<exists>res st'. download_loop e rp lp k (int k) chunks st = Some (res, st') \<and> fs_files (x_remote st') p = Some C \<and>
      refused (x_remote st') = refused (x_remote st) \<and> refused (x_local st') = refused (x_local st) \<and> downloaded lp C st' \<and>
      (\<forall>r. res = Inr r \<longrightarrow> fs_files (x_local st') lp = Some C \<and> ft_Bytes r = int (length C)) \<and>
      (x_fates st = [] \<and> refused (x_remote st) p = None \<longrightarrow> (\<exists>r. res = Inr r))"
proof (induction "length C - k" arbitrary: k chunks st rule: less_induct)
  case less
  let ?n = fileTransferChunk
  have n0: "?n > 0" by (simp add: fileTransferChunk_def)
  obtain r1 cd1 st1 where c: "callToolRetry (read_chunk e rp (int k)) st = (r1, cd1, st1)" by (metis prod_cases3)
  let ?I = "\<lambda>f. f = x_remote st"
  have keep: "?I f \<Longrightarrow> ?I (snd (read_chunk e rp (int k) f))" for f using read_chunk_spec(1) [OF tp less.prems(1)] by simp
  note sp = retry_spec [of ?I, OF keep refl c]
  have works: "x_fates st1 = [] \<and> (\<exists>r. r1 = Inr r)" if ft: "x_fates st = []" and rf: "refused (x_remote st) p = None"
  proof -
    obtain r where "fst (read_chunk e rp (int k) (x_remote st)) = Inr r" using read_chunk_spec(3) [OF tp less.prems(1) rf] by blast
    then show ?thesis using retry_works [of st "read_chunk e rp (int k)" r] c ft by simp
  qed
  show ?case
  proof (cases r1)
    case (Inl er)
    then show ?thesis using c sp works less.prems by (subst download_loop.simps) (auto simp: downloaded_def)
  next
    case (Inr r)
    have r: "rr_Bytes r = take ?n (drop k C)" "rr_EOF r \<longleftrightarrow> length C - k < ?n"
      using sp Inr read_chunk_spec(2) [OF tp less.prems(1)] by auto
    let ?st = "if rr_Bytes r = [] then st1 else st1\<lparr>x_local := write_local lp k (rr_Bytes r) (x_local st1)\<rparr>"
    have l1: "x_local st1 = x_local st" "x_remote st1 = x_remote st" using sp by auto
    have lr: "refused (x_local ?st) = refused (x_local st)" using l1 by (simp add: write_local_def)
    have loc: "fs_files (x_local ?st) lp = Some (take (k + ?n) C)"
    proof (cases "rr_Bytes r = []")
      case True
      then have "k = length C" using r(1) n0 less.prems(2) by auto
      then show ?thesis using True l1 less.prems(3) by simp
    next
      case False
      then show ?thesis using write_local_prefix [OF less.prems(2), of "x_local st" lp ?n] l1 less.prems(3) r(1) by simp
    qed
    show ?thesis
    proof (cases "rr_EOF r")
      case True
      then have all: "take (k + ?n) C = C" "int k + int (length (rr_Bytes r)) = int (length C)" using r less.prems(2) by auto
      have "download_loop e rp lp k (int k) chunks st = Some (Inr \<lparr>ft_Bytes = int (length C), ft_Chunks = chunks + 1\<rparr>, ?st)"
        using c Inr True all by (subst download_loop.simps) (auto simp: Let_def)
      moreover have "downloaded lp C ?st" using loc all by (auto simp: downloaded_def intro!: exI [of _ "length C"])
      ultimately show ?thesis using loc all l1 lr less.prems(1) by auto
    next
      case False
      then have len: "length (rr_Bytes r) = ?n" "k + ?n \<le> length C" "rr_Bytes r \<noteq> []" using r n0 by auto
      have eq: "download_loop e rp lp k (int k) chunks st = download_loop e rp lp (k + ?n) (int (k + ?n)) (chunks + 1) ?st"
        using c Inr False len by (subst download_loop.simps) (auto simp: Let_def)
      have lt: "length C - (k + ?n) < length C - k" using n0 len(2) by simp
      from less.hyps [OF lt, of ?st "chunks + 1"] loc l1 lr less.prems(1) len works
      show ?thesis unfolding eq by auto
    qed
  qed
qed

lemma doDownload_spec:
  assumes tp: "tool_path (xe_tools e) (ft_RemotePath a) = Inr p" and C: "fs_files (x_remote st) p = Some C"
    and ne: "ft_LocalPath a \<noteq> []" "ft_RemotePath a \<noteq> []" "refused (x_local st) (ft_LocalPath a) = None"
    and off: "ft_Offset a = 0 \<or> (\<exists>k \<le> length C. ft_Offset a = int k \<and> fs_files (x_local st) (ft_LocalPath a) = Some (take k C))"
  shows "\<exists>res st'. doDownloadFile e a st = Some (res, st') \<and> fs_files (x_remote st') p = Some C \<and>
    refused (x_local st') = refused (x_local st) \<and> downloaded (ft_LocalPath a) C st' \<and>
    (\<forall>r. res = Inr r \<longrightarrow> fs_files (x_local st') (ft_LocalPath a) = Some C \<and> ft_Bytes r = int (length C)) \<and>
    (x_fates st = [] \<and> refused (x_remote st) p = None \<longrightarrow> (\<exists>r. res = Inr r))"
proof -
  let ?lp = "ft_LocalPath a"
  let ?st1 = "if ft_Offset a > 0 then st else st\<lparr>x_local := set_file ?lp [] (x_local st)\<rparr>"
  let ?stat = "\<lambda>f. (Stat_Run (xe_tools e) (ft_RemotePath a) f, f)"
  obtain r cd st2 where c: "CallTool ?stat ?st1 = (r, cd, st2)" by (rule prod_cases3)
  obtain k where k: "ft_Offset a = int k" "k \<le> length C" "fs_files (x_local ?st1) ?lp = Some (take k C)"
  proof (cases "ft_Offset a = 0")
    case False
    with off obtain k where "k \<le> length C" "ft_Offset a = int k" "fs_files (x_local st) ?lp = Some (take k C)" by blast
    with False show ?thesis by (intro that [of k]) auto
  qed (use that [of 0] in simp)
  have s2: "x_local st2 = x_local ?st1" "x_remote st2 = x_remote st" using CallTool_spec(1,3) [OF c] by (auto split: if_splits)
  have fates: "x_fates st = [] \<Longrightarrow> x_fates st2 = []"
    using CallTool_fates [OF c] by simp
  have eq: "doDownloadFile e a st = download_loop e (ft_RemotePath a) ?lp k (int k) 0 st2"
    using ne k c off by (auto simp: doDownloadFile_def Let_def)
  have C2: "fs_files (x_remote st2) p = Some C" and L2: "fs_files (x_local st2) ?lp = Some (take k C)" using C s2 k(3) by simp_all
  have "refused (x_local ?st1) = refused (x_local st)" by simp
  with download_loop_spec [OF tp C2 k(2) L2, of 0] s2 fates show ?thesis unfolding eq by auto
qed

lemma download_transfer_spec:
  "tool_path (xe_tools e) (ft_RemotePath a) = Inr p \<Longrightarrow> fs_files (x_remote st) p = Some C \<Longrightarrow>
   ft_LocalPath a \<noteq> [] \<Longrightarrow> ft_RemotePath a \<noteq> [] \<Longrightarrow> refused (x_local st) (ft_LocalPath a) = None \<Longrightarrow> x_bridge st \<Longrightarrow>
   ft_Offset a = 0 \<or> (\<exists>k \<le> length C. ft_Offset a = int k \<and> fs_files (x_local st) (ft_LocalPath a) = Some (take k C)) \<Longrightarrow>
   \<exists>res st'. transferLoop left e Download a rounds st = Some (res, st') \<and>
     (\<forall>r. res = Inr r \<longrightarrow> fs_files (x_local st') (ft_LocalPath a) = Some C \<and> ft_Bytes r = int (length C)) \<and>
     (x_fates st = [] \<and> refused (x_remote st) p = None \<longrightarrow> (\<exists>r. res = Inr r))"
proof (induction left arbitrary: a rounds st)
  case 0
  from doDownload_spec [OF 0(1-5,7)] obtain r1 st1 where "doDownloadFile e a st = Some (r1, st1)"
    "\<forall>r. r1 = Inr r \<longrightarrow> fs_files (x_local st1) (ft_LocalPath a) = Some C \<and> ft_Bytes r = int (length C)"
    "x_fates st = [] \<and> refused (x_remote st) p = None \<longrightarrow> (\<exists>r. r1 = Inr r)" by blast
  then show ?case using 0(6) by (cases r1) (auto simp: transferLoop.simps [of 0] run_transfer_def)
next
  case (Suc k)
  from doDownload_spec [OF Suc.prems(1-5,7)] obtain r1 st1 where d: "doDownloadFile e a st = Some (r1, st1)" "fs_files (x_remote st1) p = Some C"
    "refused (x_local st1) = refused (x_local st)" "downloaded (ft_LocalPath a) C st1"
    "\<forall>r. r1 = Inr r \<longrightarrow> fs_files (x_local st1) (ft_LocalPath a) = Some C \<and> ft_Bytes r = int (length C)"
    "x_fates st = [] \<and> refused (x_remote st) p = None \<longrightarrow> (\<exists>r. r1 = Inr r)" by blast
  have run: "run_transfer e Download a st = Some (r1, st1)" using d(1) Suc.prems(6) by (simp add: run_transfer_def)
  show ?case
  proof (cases r1)
    case (Inr r)
    then show ?thesis using run d(5) by (auto simp: transferLoop.simps [of "Suc k"])
  next
    case (Inl er)
    let ?a = "resumeTransferArgs Download a st1" and ?st = "st1\<lparr>x_bridge := True\<rparr>"
    let ?rs = "case rounds of [] \<Rightarrow> [] | _ # rs \<Rightarrow> rs"
    have args: "ft_LocalPath ?a = ft_LocalPath a" "ft_RemotePath ?a = ft_RemotePath a" by (simp_all add: resumeTransferArgs_def)
    have off: "\<exists>k \<le> length C. ft_Offset ?a = int k \<and> fs_files (x_local ?st) (ft_LocalPath ?a) = Some (take k C)"
      using d(4) by (auto simp: downloaded_def resumeTransferArgs_def)
    obtain res st' where t: "transferLoop k e Download ?a ?rs ?st = Some (res, st')"
      "\<forall>r. res = Inr r \<longrightarrow> fs_files (x_local st') (ft_LocalPath a) = Some C \<and> ft_Bytes r = int (length C)"
      using Suc.IH [of ?a ?st ?rs] Suc.prems(1-5) d(2,3) args off by auto
    have "\<not> (x_fates st = [] \<and> refused (x_remote st) p = None)" using d(6) Inl by auto
    with t run Inl show ?thesis
      by (auto simp: transferLoop.simps [of "Suc k"] Let_def split: list.splits option.splits)
  qed
qed

lemma contains_sub_iff: "contains_sub s q \<longleftrightarrow> (\<exists>i \<le> length s. HasPrefix (drop i s) q)"
  unfolding contains_sub_def list_ex_iff by (auto simp: less_Suc_eq_le simp del: upt_Suc)

lemma contains_sub_append: "contains_sub s q \<Longrightarrow> contains_sub (x @ s) q"
proof -
  assume "contains_sub s q"
  then obtain i where "i \<le> length s" "HasPrefix (drop i s) q" by (auto simp: contains_sub_iff)
  then show ?thesis unfolding contains_sub_iff by (intro exI [of _ "length x + i"]) auto
qed

lemma isTunnelDown_wrap: "isTunnelDown er \<Longrightarrow> isTunnelDown (wrap e what path pos er)"
  unfolding isTunnelDown_def wrap_def by (metis append_assoc contains_sub_append)

section \<open>Properties\<close>

text \<open>
  C9. An upload from the start that reports success has made the remote file equal to the local one, of the
  size it reports, whatever calls were lost before or after they took effect, retried or cut off by a tunnel that broke and
  was rebuilt, provided the remote path held no file or one that the local file starts with; it always
  returns, and it succeeds when no call fails and both files can be opened.
\<close>

theorem upload_resume_exact:
  assumes "tool_path (xe_tools e) (ft_RemotePath a) = Inr p" "fs_files (x_local st) (ft_LocalPath a) = Some L" "ft_Offset a = 0"
    and "\<forall>c. fs_files (x_remote st) p = Some c \<longrightarrow> prefix c L"
  shows "\<exists>res st'. transferWithReconnect e Upload a rounds st = Some (res, st') \<and>
    (\<forall>r. res = Inr r \<longrightarrow> fs_files (x_remote st') p = Some L \<and> ft_Bytes r = int (length L)) \<and>
    (x_fates st = [] \<and> x_bridge st \<and> ft_LocalPath a \<noteq> [] \<and> ft_RemotePath a \<noteq> [] \<and>
       refused (x_local st) (ft_LocalPath a) = None \<and> refused (x_remote st) p = None \<longrightarrow> (\<exists>r. res = Inr r))"
proof -
  obtain res st' where t: "transferLoop maxTransferReconnects e Upload a rounds st = Some (res, st')" using upload_returns by blast
  have "\<exists>r. res = Inr r" if "x_fates st = []" "x_bridge st" "ft_LocalPath a \<noteq> []" "ft_RemotePath a \<noteq> []"
    "refused (x_local st) (ft_LocalPath a) = None" "refused (x_remote st) p = None"
    using doUpload_works [OF assms(1-3) that(3-5) that(1,6)] that(2) t
    by (auto simp: transferLoop.simps [of maxTransferReconnects] run_transfer_def)
  moreover have "uploaded p L st" using assms(4) by (simp add: uploaded_def)
  ultimately show ?thesis
    using t upload_transfer_spec [OF t assms(1) _ assms(2)] assms(3) by (auto simp: transferWithReconnect_def)
qed

text \<open>
  C10. A download from the start that reports success has made the local file equal to the remote one, of the size it reports,
  whatever calls were lost, retried or cut off by a tunnel that broke and was rebuilt; it always
  returns, and it succeeds when no call fails and the remote file can be read.
\<close>

theorem download_resume_exact:
  assumes "tool_path (xe_tools e) (ft_RemotePath a) = Inr p" "fs_files (x_remote st) p = Some C"
    and "ft_LocalPath a \<noteq> []" "ft_RemotePath a \<noteq> []" "refused (x_local st) (ft_LocalPath a) = None" "x_bridge st" "ft_Offset a = 0"
  shows "\<exists>res st'. transferWithReconnect e Download a rounds st = Some (res, st') \<and>
    (\<forall>r. res = Inr r \<longrightarrow> fs_files (x_local st') (ft_LocalPath a) = Some C \<and> ft_Bytes r = int (length C)) \<and>
    (x_fates st = [] \<and> refused (x_remote st) p = None \<longrightarrow> (\<exists>r. res = Inr r))"
  unfolding transferWithReconnect_def by (rule download_transfer_spec [OF assms(1-6)]) (simp add: assms(7))

text \<open>
  C28. An upload from the beginning over an older remote file that is not empty and at least as long as the local one can report success and leave that
  file as it was: when the tunnel is down at the first
  call, so that nothing is executed, and no other call fails, the upload resumes at the size of the old file, finds that the local
  file has nothing behind it, writes nothing and reports the old size as transferred.
\<close>

theorem upload_reports_success_over_old_file:
  assumes "tool_path (xe_tools e) (ft_RemotePath a) = Inr p" "fs_files (x_local st) (ft_LocalPath a) = Some L" "ft_Offset a = 0"
    and "ft_LocalPath a \<noteq> []" "ft_RemotePath a \<noteq> []" "refused (x_local st) (ft_LocalPath a) = None" "x_bridge st"
    and "fs_files (x_remote st) p = Some c" "c \<noteq> []" "length L \<le> length c"
    and "x_fates st = [\<lparr>executed = False, failure = Some er, ctx_done = None\<rparr>]" "isTunnelDown er"
  shows "\<exists>st'. transferWithReconnect e Upload a [] st = Some (Inr \<lparr>ft_Bytes = int (length c), ft_Chunks = 0\<rparr>, st') \<and>
    fs_files (x_remote st') p = Some c"
proof -
  let ?st = "st\<lparr>x_fates := []\<rparr>"
  let ?err = "wrap e ''truncate remote'' (ft_RemotePath a) 0 er"
  have "CallTool (truncate_remote e (ft_RemotePath a)) st = (Inl er, None, ?st)"
    using assms(11) by (simp add: CallTool_def next_fate_def split: prod.splits)
  then have "callToolRetry (truncate_remote e (ft_RemotePath a)) st = (Inl er, None, ?st)"
    using assms(12) by (simp add: callToolRetry_def retry_loop.simps)
  then have first: "run_transfer e Upload a st = Some (Inl ?err, ?st)"
    using assms(2-7) by (simp add: run_transfer_def doUploadFile_def upload_offset_def)
  let ?a = "a\<lparr>ft_Offset := 1\<rparr>" and ?st2 = "?st\<lparr>x_bridge := True\<rparr>"
  have stat: "CallTool (\<lambda>f. (Stat_Run (xe_tools e) (ft_RemotePath a) f, f)) ?st2 = (Inr (int (length c)), None, ?st2)"
    using CallTool_works [of ?st2 "\<lambda>f. (Stat_Run (xe_tools e) (ft_RemotePath a) f, f)" "int (length c)"] assms(1,8) by (simp add: Stat_Run_def)
  have "upload_loop e (ft_RemotePath a) (drop (length c) L) (int (length c)) 0 None ?st2 = (Inr \<lparr>ft_Bytes = int (length c), ft_Chunks = 0\<rparr>, ?st2)"
    using assms(10) by (subst upload_loop.simps) (simp add: ReadFull_def)
  then have second: "run_transfer e Upload ?a ?st2 = Some (Inr \<lparr>ft_Bytes = int (length c), ft_Chunks = 0\<rparr>, ?st2)"
    using assms(2,4-6,9) stat by (simp add: run_transfer_def doUploadFile_def upload_offset_def)
  have "transferWithReconnect e Upload a [] st = Some (Inr \<lparr>ft_Bytes = int (length c), ft_Chunks = 0\<rparr>, ?st2)"
    using first second isTunnelDown_wrap [OF assms(12)]
    by (simp add: transferWithReconnect_def maxTransferReconnects_def transferLoop.simps good_round_def resumeTransferArgs_def eval_nat_numeral)
  then show ?thesis using assms(8) by auto
qed

section \<open>Witnesses\<close>

definition demo_env :: xenv where
  "demo_env = \<lparr>xe_tools = \<lparr>te_links = Some, te_cwd = None,
       te_sandbox = \<lparr>sb_cfg = \<lparr>sc_Root = [], AllowExec = [], DenyExec = [], UnsafeExec = False\<rparr>, sb_root = [], restricted = False\<rparr>,
       te_text = (\<lambda>_. [])\<rparr>, xe_text = (\<lambda>_ _ _. [])\<rparr>"

definition demo_state :: "bytes option \<Rightarrow> fate list \<Rightarrow> xstate" where
  "demo_state old fates = \<lparr>
     x_remote = \<lparr>fs_files = (\<lambda>p. if p = ''/r'' then old else None), refused = (\<lambda>_. None)\<rparr>,
     x_local = \<lparr>fs_files = (\<lambda>p. if p = ''/l'' then Some [1, 2] else None), refused = (\<lambda>_. None)\<rparr>,
     x_fates = fates, x_bridge = True\<rparr>"

definition demo_args :: fileTransferArgs where
  "demo_args = \<lparr>ft_LocalPath = ''/l'', ft_RemotePath = ''/r'', ft_Offset = 0\<rparr>"

lemma demo_path: "tool_path (xe_tools demo_env) (ft_RemotePath demo_args) = Inr ''/r''"
  by (simp add: tool_path_def demo_env_def demo_args_def ResolvePath_def path_Abs_def IsAbs_def HasPrefix_def Clean_def Let_def)

theorem upload_resume_exact_witness:
  "\<exists>res st'. transferWithReconnect demo_env Upload demo_args []
      (demo_state None [\<lparr>executed = True, failure = Some ''tunnel_lost: eof'', ctx_done = None\<rparr>]) = Some (res, st') \<and>
    (\<forall>r. res = Inr r \<longrightarrow> fs_files (x_remote st') ''/r'' = Some [1, 2] \<and> ft_Bytes r = 2)"
  using upload_resume_exact [OF demo_path, of "demo_state None [\<lparr>executed = True, failure = Some ''tunnel_lost: eof'', ctx_done = None\<rparr>]" "[1, 2]" "[]"]
  by (auto simp: demo_state_def demo_args_def)

theorem download_resume_exact_witness:
  "\<exists>res st'. transferWithReconnect demo_env Download demo_args []
      (demo_state (Some [3, 4, 5]) [\<lparr>executed = True, failure = Some ''tunnel_lost: eof'', ctx_done = None\<rparr>]) = Some (res, st') \<and>
    (\<forall>r. res = Inr r \<longrightarrow> fs_files (x_local st') ''/l'' = Some [3, 4, 5] \<and> ft_Bytes r = 3)"
  using download_resume_exact [OF demo_path, of "demo_state (Some [3, 4, 5]) [\<lparr>executed = True, failure = Some ''tunnel_lost: eof'', ctx_done = None\<rparr>]" "[3, 4, 5]" "[]"]
  by (auto simp: demo_state_def demo_args_def)

theorem upload_reports_success_over_old_file_witness:
  "\<exists>st'. transferWithReconnect demo_env Upload demo_args []
      (demo_state (Some [7, 8, 9]) [\<lparr>executed = False, failure = Some ''not_connected'', ctx_done = None\<rparr>]) =
        Some (Inr \<lparr>ft_Bytes = 3, ft_Chunks = 0\<rparr>, st') \<and>
    fs_files (x_remote st') ''/r'' = Some [7, 8, 9]"
proof -
  have "isTunnelDown ''not_connected''" by (simp add: isTunnelDown_def contains_sub_def HasPrefix_def)
  with upload_reports_success_over_old_file [OF demo_path, of "demo_state (Some [7, 8, 9]) [\<lparr>executed = False, failure = Some ''not_connected'', ctx_done = None\<rparr>]" "[1, 2]" "[7, 8, 9]" "''not_connected''"]
  show ?thesis by (auto simp: demo_state_def demo_args_def)
qed

end
