(* ===== verification/Punch.thy ===== *)
theory Punch
  imports Proto
begin

text \<open>
  Authentication of hole-punching packets, \<^verbatim>\<open>internal/proto/punch.go\<close>.

  HKDF and HMAC (SHA-256) and unpadded base64 are the parameter \<open>pc\<close>. What the code relies on is
  \<open>mac_unforged\<close>: a packet
  that arrives with the right code for its own fields has fields somebody with the key has signed. The two operations
  on packets take a pointer in the code and refuse a nil one; every caller passes the address of a local packet.
\<close>

record punch_crypto =
  pc_hkdf :: "bytes \<Rightarrow> string \<Rightarrow> bytes"
  pc_hmac :: "bytes \<Rightarrow> bytes \<Rightarrow> bytes"
  pc_b64 :: "bytes \<Rightarrow> string"

record P2PTestPacket =
  pkt_SessionID :: string
  pkt_Random :: string
  pkt_MAC :: string

definition punchMACLen :: nat where "punchMACLen = 16"
definition punchDirShare :: string where "punchDirShare = ''share''"
definition punchDirHelp :: string where "punchDirHelp = ''help''"
definition punchKeyInfo :: string where "punchKeyInfo = ''rat-p2p-punch-v2''"

definition derivePunchKey :: "punch_crypto \<Rightarrow> string \<Rightarrow> bytes" where
  "derivePunchKey pc code = take 32 (pc_hkdf pc (bytes_of_string code) punchKeyInfo)"

definition punchDir :: "bool \<Rightarrow> string" where
  "punchDir isShare = (if isShare then punchDirShare else punchDirHelp)"

text \<open>A field with its length as four bytes; the text under the MAC.\<close>

definition punch_field :: "string \<Rightarrow> bytes" where
  "punch_field s = be32 (of_nat (length s)) @ bytes_of_string s"

definition punch_text :: "string \<Rightarrow> string \<Rightarrow> bool \<Rightarrow> bytes" where
  "punch_text sessionID random isShare = concat (map punch_field [sessionID, random, punchDir isShare])"

definition computePunchMAC :: "punch_crypto \<Rightarrow> string \<Rightarrow> string \<Rightarrow> string \<Rightarrow> bool \<Rightarrow> string" where
  "computePunchMAC pc code sessionID random isShare =
     pc_b64 pc (take punchMACLen (pc_hmac pc (derivePunchKey pc code) (punch_text sessionID random isShare)))"

definition SignPunchPacket :: "punch_crypto \<Rightarrow> string \<Rightarrow> bool \<Rightarrow> P2PTestPacket \<Rightarrow> P2PTestPacket" where
  "SignPunchPacket pc code isShare pkt =
     (if code = [] then pkt
      else pkt\<lparr>pkt_MAC := computePunchMAC pc code (pkt_SessionID pkt) (pkt_Random pkt) isShare\<rparr>)"

definition VerifyPunchPacket :: "punch_crypto \<Rightarrow> string \<Rightarrow> bool \<Rightarrow> P2PTestPacket \<Rightarrow> bool" where
  "VerifyPunchPacket pc code peerIsShare pkt =
     (if code = [] \<or> pkt_MAC pkt = [] then False
      else pkt_MAC pkt = computePunchMAC pc code (pkt_SessionID pkt) (pkt_Random pkt) peerIsShare)"

text \<open>
  \<open>shared\<close> and \<open>helped\<close> are the pairs of session and random text the two sides have signed with the code;
  \<open>arrives\<close> are the packets that arrive at either of them.
\<close>

definition mac_unforged ::
  "punch_crypto \<Rightarrow> string \<Rightarrow> (string \<times> string) set \<Rightarrow> (string \<times> string) set \<Rightarrow> P2PTestPacket set \<Rightarrow> bool" where
  "mac_unforged pc code shared helped arrives \<longleftrightarrow>
     (\<forall>pkt \<in> arrives. \<forall>b. pkt_MAC pkt = computePunchMAC pc code (pkt_SessionID pkt) (pkt_Random pkt) b \<longrightarrow>
        punch_text (pkt_SessionID pkt) (pkt_Random pkt) b \<in>
          (\<lambda>(s, r). punch_text s r True) ` shared \<union> (\<lambda>(s, r). punch_text s r False) ` helped)"

lemma punch_text_inj:
  assumes "punch_text s r b = punch_text s' r' b'" "length s < 2 ^ 32" "length s' < 2 ^ 32" "length r < 2 ^ 32" "length r' < 2 ^ 32"
  shows "s = s' \<and> r = r' \<and> b = b'"
proof -
  have "s = s' \<and> punch_field r @ punch_field (punchDir b) = punch_field r' @ punch_field (punchDir b')"
    using assms(1-3) unfolding punch_text_def by (intro str_field_inj) (simp_all add: punch_field_def)
  then have s: "s = s'" and rest: "punch_field r @ punch_field (punchDir b) = punch_field r' @ punch_field (punchDir b')" by blast+
  have "r = r' \<and> punch_field (punchDir b) = punch_field (punchDir b')"
    using rest assms(4,5) by (intro str_field_inj) (simp_all add: punch_field_def)
  then have r: "r = r'" and d: "punch_field (punchDir b) = punch_field (punchDir b')" by blast+
  have small: "length (punchDir x) < 2 ^ 32" for x by (simp add: punchDir_def punchDirShare_def punchDirHelp_def)
  have "punchDir b = punchDir b'" by (rule str_field_inj_end [OF d [unfolded punch_field_def] small small])
  then have "b = b'" by (simp add: punchDir_def punchDirShare_def punchDirHelp_def split: if_splits)
  with s r show ?thesis by blast
qed

lemma verified_origin:
  assumes "mac_unforged pc code shared helped arrives" "pkt \<in> arrives" "VerifyPunchPacket pc code peerIsShare pkt"
    and "length (pkt_SessionID pkt) < 2 ^ 32" "length (pkt_Random pkt) < 2 ^ 32"
    and "\<forall>(s, r) \<in> shared \<union> helped. length s < 2 ^ 32 \<and> length r < 2 ^ 32"
  shows "(pkt_SessionID pkt, pkt_Random pkt) \<in> (if peerIsShare then shared else helped)"
proof -
  have "pkt_MAC pkt = computePunchMAC pc code (pkt_SessionID pkt) (pkt_Random pkt) peerIsShare"
    using assms(3) by (simp add: VerifyPunchPacket_def split: if_splits)
  then have "punch_text (pkt_SessionID pkt) (pkt_Random pkt) peerIsShare \<in>
      (\<lambda>(s, r). punch_text s r True) ` shared \<union> (\<lambda>(s, r). punch_text s r False) ` helped"
    using assms(1,2) by (simp add: mac_unforged_def)
  then obtain s r b where "(s, r) \<in> (if b then shared else helped)" "punch_text (pkt_SessionID pkt) (pkt_Random pkt) peerIsShare = punch_text s r b"
  proof (elim UnE imageE)
    fix x assume "x \<in> shared" "punch_text (pkt_SessionID pkt) (pkt_Random pkt) peerIsShare = (case x of (s, r) \<Rightarrow> punch_text s r True)"
    then show thesis using that [of "fst x" "snd x" True] by (simp add: case_prod_beta)
  next
    fix x assume "x \<in> helped" "punch_text (pkt_SessionID pkt) (pkt_Random pkt) peerIsShare = (case x of (s, r) \<Rightarrow> punch_text s r False)"
    then show thesis using that [of "fst x" "snd x" False] by (simp add: case_prod_beta)
  qed
  moreover from this have "length s < 2 ^ 32" "length r < 2 ^ 32" using assms(6) by (auto split: if_splits)
  ultimately show ?thesis using punch_text_inj assms(4,5) by blast
qed

lemma verify_signed:
  "code \<noteq> [] \<Longrightarrow> pc_b64 pc (take punchMACLen (pc_hmac pc (derivePunchKey pc code) (punch_text (pkt_SessionID pkt) (pkt_Random pkt) b))) \<noteq> [] \<Longrightarrow>
   VerifyPunchPacket pc code b (SignPunchPacket pc code b pkt)"
  by (simp add: VerifyPunchPacket_def SignPunchPacket_def computePunchMAC_def)

end
