(* ===== verification/P2P_Manager.thy ===== *)
theory P2P_Manager
  imports Punch Stun_Race Tunnel
begin

text \<open>
  The manager of a direct connection, \<^verbatim>\<open>internal/p2p/manager.go\<close>, with the choice of the local address
  (\<^verbatim>\<open>bypass.go\<close>), the NAT types (\<^verbatim>\<open>nat.go\<close>) and their detection (\<^verbatim>\<open>stun_race.go\<close>). The operations that run in
  goroutines of their own are cut where another goroutine can come in between: at a lock, a channel or an
  atomic field. The interleavings are in the theory \<open>P2P_Handover\<close>.

  Random numbers, network interfaces, resolvers, sockets and the JSON form of a packet are arguments.
\<close>

section \<open>Modes and addresses\<close>

datatype P2PMode = P2PModeDisabled | P2PModeAuto | P2PModeRequired

definition ParseP2PMode :: "string \<Rightarrow> P2PMode" where
  "ParseP2PMode s = (if s = ''auto'' then P2PModeAuto else if s = ''required'' then P2PModeRequired else P2PModeDisabled)"

definition NATUnknown :: string where "NATUnknown = []"
definition NATOpen :: string where "NATOpen = ''open''"
definition NATCone :: string where "NATCone = ''cone''"
definition NATSymmetric :: string where "NATSymmetric = ''symmetric''"

text \<open>\<open>UDPAddr.String\<close>: \<open>net.JoinHostPort\<close> of the address and the port; addresses without a zone.\<close>

definition UDPAddr_String :: "UDPAddr \<Rightarrow> string" where
  "UDPAddr_String a =
     (let ip = (if udp_IP a = [] then [] else IP_String (udp_IP a));
          p = show_int (udp_Port a)
      in (if CHR '':'' \<in> set ip then ''['' @ ip @ '']'' else ip) @ '':'' @ p)"

definition addrToString :: "UDPAddr option \<Rightarrow> string" where
  "addrToString addr = (case addr of None \<Rightarrow> [] | Some a \<Rightarrow> UDPAddr_String a)"

definition parseAddr :: "(string \<Rightarrow> UDPAddr option) \<Rightarrow> string \<Rightarrow> UDPAddr option" where
  "parseAddr resolveUDP addrStr = (if addrStr = [] then None else resolveUDP addrStr)"

subsection \<open>The local address\<close>

record iface =
  if_Name :: string
  if_Up :: bool
  if_Loopback :: bool
  if_Broadcast :: bool
  if_Addrs :: "bytes list option"   \<comment> \<open>the \<open>IPNet\<close> addresses, or an error\<close>

definition virtualPrefixes :: "string list" where
  "virtualPrefixes = [''utun'', ''tun'', ''tap'', ''docker'', ''br-'', ''veth'', ''wg'', ''tailscale'', ''clash'', ''wintun'',
     ''vethernet'', ''vmnet'', ''virbr'', ''isatap'', ''teredo'', ''vboxnet'', ''virtualbox'', ''vmware'']"

text \<open>\<open>198.18.0.0/15\<close>.\<close>

definition cgnatNet_Contains :: "bytes \<Rightarrow> bool" where
  "cgnatNet_Contains ip = (ip ! 0 = 198 \<and> ip ! 1 AND 254 = 18)"

definition iface_addrs :: "bytes list \<Rightarrow> bytes list" where
  "iface_addrs as = [ip. a \<leftarrow> as, ip \<leftarrow> (case ip_To4 a of None \<Rightarrow> [] | Some ip \<Rightarrow> if ip ! 0 = 127 \<or> cgnatNet_Contains ip then [] else [ip])]"

definition physical_candidates :: "iface list \<Rightarrow> (bytes \<times> bool) list" where
  "physical_candidates ifs =
     [(ip, if_Broadcast i). i \<leftarrow> ifs,
        if_Up i \<and> \<not> if_Loopback i \<and> \<not> list_ex (HasPrefix (ToLower (if_Name i))) virtualPrefixes,
        ip \<leftarrow> (case if_Addrs i of None \<Rightarrow> [] | Some as \<Rightarrow> iface_addrs as)]"

text \<open>\<open>ifaces\<close> is \<open>None\<close> when the interfaces cannot be listed; \<open>outbound\<close> is what \<open>getOutboundIP\<close> gives.\<close>

definition DetectPhysicalIP :: "iface list option \<Rightarrow> bytes option \<Rightarrow> bytes option" where
  "DetectPhysicalIP ifaces outbound =
     (case ifaces of
        None \<Rightarrow> None
      | Some ifs \<Rightarrow>
          (let cs = physical_candidates ifs
           in if cs = [] then None
              else case (case outbound of None \<Rightarrow> None | Some o4 \<Rightarrow> List.find (\<lambda>c. IP_Equal (fst c) o4) cs) of
                     Some c \<Rightarrow> Some (fst c)
                   | None \<Rightarrow>
                       (case List.find snd cs of Some c \<Rightarrow> Some (fst c) | None \<Rightarrow> Some (fst (hd cs)))))"

definition IPv4zero :: bytes where "IPv4zero = v4InV6Prefix @ [0, 0, 0, 0]"

definition listenIP :: "string \<Rightarrow> bytes option \<Rightarrow> bytes" where
  "listenIP bindIP phys =
     (let ip0 = (if bindIP \<noteq> [] then (case ParseIP bindIP of Some ip \<Rightarrow> ip | None \<Rightarrow> IPv4zero) else IPv4zero)
      in if IP_Equal ip0 IPv4zero then (case phys of Some p \<Rightarrow> p | None \<Rightarrow> ip0) else ip0)"

section \<open>NAT detection\<close>

record STUNProbe =
  pr_Server :: string
  pr_ServerIP :: string
  pr_Mapped :: UDPAddr
  pr_Elapsed :: int

fun nat_verdict :: "STUNProbe \<Rightarrow> STUNProbe list \<Rightarrow> string" where
  "nat_verdict first [] = NATUnknown"
| "nat_verdict first (p # ps) =
     (if pr_ServerIP p = pr_ServerIP first \<or> \<not> IP_Equal (udp_IP (pr_Mapped p)) (udp_IP (pr_Mapped first)) then nat_verdict first ps
      else if udp_Port (pr_Mapped p) = udp_Port (pr_Mapped first) then NATCone else NATSymmetric)"

definition NATFromProbes :: "bytes option \<Rightarrow> STUNProbe list \<Rightarrow> string" where
  "NATFromProbes localIP probes =
     (case probes of
        [] \<Rightarrow> NATUnknown
      | first # ps \<Rightarrow>
          if (case localIP of None \<Rightarrow> False | Some l \<Rightarrow> IP_Equal (udp_IP (pr_Mapped first)) l) then NATOpen
          else nat_verdict first ps)"

section \<open>The manager\<close>

record P2PResult =
  res_Tunnel :: "UDPTunnel option"
  res_Err :: "string option"

record PeerInfo =
  peer_PublicAddr :: "UDPAddr option"
  peer_PrivateAddr :: "UDPAddr option"

record punchPlan =
  lanOnly :: bool
  privateInterval :: int

datatype socket = NoSocket | SockOpen | SockClosed

text \<open>
  \<open>pm_resultCh\<close> is \<open>None\<close> before \<open>Start\<close> makes the channel; \<open>pm_stopped\<close> and \<open>pm_recvStopped\<close> tell whether the
  two signal channels are closed.
\<close>

record P2PManager =
  pm_mode :: P2PMode
  pm_stunServer :: string
  pm_stunAddr :: "UDPAddr option"
  pm_stunCandidates :: "string list"
  pm_fallbackSTUN :: "string list"
  pm_stunUsed :: string
  pm_stunElapsed :: int
  pm_localConn :: socket
  pm_localAddr :: "UDPAddr option"
  pm_publicAddr :: "UDPAddr option"
  pm_peerInfo :: "PeerInfo option"
  pm_sessionID :: string
  pm_isShare :: bool
  pm_authCode :: string
  pm_connected :: bool
  pm_relayConn :: bool
  pm_resultCh :: "P2PResult list option"
  pm_stopped :: bool
  pm_punchPlan :: punchPlan
  pm_bindIP :: string
  pm_natType :: string
  pm_peerNATType :: string
  pm_backgroundMode :: bool
  pm_recvStopped :: bool
  pm_tunnelCreated :: bool

definition NewP2PManager :: "P2PMode \<Rightarrow> string \<Rightarrow> string \<Rightarrow> P2PManager" where
  "NewP2PManager mode stunServer bindIP =
     \<lparr>pm_mode = mode, pm_stunServer = stunServer, pm_stunAddr = None, pm_stunCandidates = [], pm_fallbackSTUN = FallbackSTUNServers,
      pm_stunUsed = [], pm_stunElapsed = 0, pm_localConn = NoSocket, pm_localAddr = None, pm_publicAddr = None, pm_peerInfo = None,
      pm_sessionID = [], pm_isShare = False, pm_authCode = [], pm_connected = False, pm_relayConn = False, pm_resultCh = None,
      pm_stopped = False, pm_punchPlan = \<lparr>lanOnly = False, privateInterval = 0\<rparr>, pm_bindIP = bindIP, pm_natType = [],
      pm_peerNATType = [], pm_backgroundMode = False, pm_recvStopped = False, pm_tunnelCreated = False\<rparr>"

definition SetSTUNCandidates :: "string list \<Rightarrow> P2PManager \<Rightarrow> P2PManager" where
  "SetSTUNCandidates servers p = p\<lparr>pm_stunCandidates := servers\<rparr>"

definition SetRelayConn :: "bool \<Rightarrow> P2PManager \<Rightarrow> P2PManager" where
  "SetRelayConn conn p = p\<lparr>pm_relayConn := conn\<rparr>"

definition SetAuthCode :: "string \<Rightarrow> P2PManager \<Rightarrow> P2PManager" where
  "SetAuthCode code p = p\<lparr>pm_authCode := code\<rparr>"

definition IsConnected :: "P2PManager \<Rightarrow> bool" where
  "IsConnected p = pm_connected p"

definition stopReceiveLoop :: "P2PManager \<Rightarrow> P2PManager" where
  "stopReceiveLoop p = p\<lparr>pm_recvStopped := True\<rparr>"

definition randomCharset :: string where
  "randomCharset = ''abcdefghijklmnopqrstuvwxyz0123456789''"

text \<open>The numbers drawn are below 36.\<close>

definition randomString :: "nat list \<Rightarrow> string" where
  "randomString ns = map (nth randomCharset) ns"

definition newTestPacket :: "punch_crypto \<Rightarrow> nat list \<Rightarrow> P2PManager \<Rightarrow> P2PTestPacket" where
  "newTestPacket pc rnd p =
     SignPunchPacket pc (pm_authCode p) (pm_isShare p)
       \<lparr>pkt_SessionID = pm_sessionID p, pkt_Random = randomString (take 16 rnd), pkt_MAC = []\<rparr>"

definition acceptPunch :: "punch_crypto \<Rightarrow> P2PManager \<Rightarrow> P2PTestPacket \<Rightarrow> bool" where
  "acceptPunch pc p pkt =
     (if pkt_SessionID pkt \<noteq> pm_sessionID p then False
      else VerifyPunchPacket pc (pm_authCode p) (\<not> pm_isShare p) pkt)"

section \<open>Start\<close>

text \<open>
  \<open>Start\<close> up to the socket; from the socket to the discovered addresses; and the two goroutines it leaves behind
  (in \<open>P2P_Handover\<close>). The first value of \<open>Start_begin\<close> is whether \<open>Start\<close> returns at once.
\<close>

definition emptyResult :: P2PResult where
  "emptyResult = \<lparr>res_Tunnel = None, res_Err = None\<rparr>"

definition Start_begin :: "string \<Rightarrow> bool \<Rightarrow> P2PManager \<Rightarrow> bool \<times> P2PManager" where
  "Start_begin sessionID isShare p =
     (let p1 = p\<lparr>pm_sessionID := sessionID, pm_isShare := isShare, pm_resultCh := Some []\<rparr>
      in if pm_mode p1 = P2PModeDisabled then (True, p1\<lparr>pm_resultCh := Some [emptyResult]\<rparr>) else (False, p1))"

text \<open>\<open>bound\<close> is the address of the new socket, \<open>None\<close> when \<open>ListenUDP\<close> fails.\<close>

definition Start_listen :: "bytes option \<Rightarrow> bytes option \<Rightarrow> UDPAddr option \<Rightarrow> P2PManager \<Rightarrow> P2PManager option" where
  "Start_listen phys outbound bound p =
     (case bound of
        None \<Rightarrow> None
      | Some a \<Rightarrow>
          let p1 = p\<lparr>pm_localConn := SockOpen, pm_localAddr := Some a\<rparr>
          in if IP_Equal (listenIP (pm_bindIP p) phys) IPv4zero
             then (case outbound of
                     Some ip \<Rightarrow> Some (p1\<lparr>pm_localAddr := Some \<lparr>udp_IP = ip, udp_Port = udp_Port a\<rparr>\<rparr>)
                   | None \<Rightarrow> Some p1)
             else Some p1)"

text \<open>\<open>race\<close> is \<open>RaceDiscover\<close> on the new socket: its answers in order, \<open>[]\<close> when it fails.\<close>

definition Start_discover :: "(string \<Rightarrow> UDPAddr option) \<Rightarrow> (string list \<Rightarrow> STUNProbe list) \<Rightarrow> P2PManager \<Rightarrow> P2PManager" where
  "Start_discover resolveUDP race p =
     (let p1 = (if pm_stunServer p \<noteq> [] then p\<lparr>pm_stunAddr := resolveUDP (pm_stunServer p)\<rparr> else p)
      in if pm_stunServer p1 \<noteq> [] \<or> pm_stunCandidates p1 \<noteq> []
         then (case race (MergeSTUNCandidates (pm_stunServer p1) (pm_stunCandidates p1) (pm_fallbackSTUN p1)) of
                 [] \<Rightarrow> p1
               | first # probes \<Rightarrow>
                   let t = NATFromProbes (map_option udp_IP (pm_localAddr p1)) (first # probes)
                   in p1\<lparr>pm_publicAddr := Some (pr_Mapped first), pm_stunUsed := pr_Server first, pm_stunElapsed := pr_Elapsed first,
                         pm_natType := (if t = NATUnknown then NATCone else t)\<rparr>)
         else p1)"

record advertisement =
  adv_PublicAddr :: string
  adv_PrivateAddr :: string
  adv_NATType :: string
  adv_STUNServer :: string
  adv_STUNMs :: int

text \<open>What is sent to the relay; \<open>None\<close> is the error for a missing relay connection.\<close>

definition advertiseAddr :: "P2PManager \<Rightarrow> advertisement option" where
  "advertiseAddr p =
     (if \<not> pm_relayConn p then None
      else let advert = \<lparr>adv_PublicAddr = addrToString (pm_publicAddr p), adv_PrivateAddr = addrToString (pm_localAddr p),
                         adv_NATType = pm_natType p, adv_STUNServer = [], adv_STUNMs = 0\<rparr>
           in if pm_publicAddr p \<noteq> None
              then Some (advert\<lparr>adv_STUNServer := pm_stunUsed p, adv_STUNMs := pm_stunElapsed p div millisecond\<rparr>)
              else Some advert)"

section \<open>Hole punching\<close>

definition lanPunchInterval :: int where "lanPunchInterval = 50 * millisecond"
definition privatePunchInterval :: int where "privatePunchInterval = 200 * millisecond"
definition portPredictionRange :: nat where "portPredictionRange = 10"

definition planHolePunch :: "bool \<Rightarrow> UDPAddr option \<Rightarrow> UDPAddr option \<Rightarrow> punchPlan" where
  "planHolePunch sameEgress local peerPrivate =
     (if sameEgress then \<lparr>lanOnly = True, privateInterval = lanPunchInterval\<rparr>
      else case (local, peerPrivate) of
             (Some a, Some b) \<Rightarrow>
               (case (ip_To4 (udp_IP a), ip_To4 (udp_IP b)) of
                  (Some l, Some r) \<Rightarrow>
                    if l ! 0 = r ! 0 \<and> l ! 1 = r ! 1 then \<lparr>lanOnly = False, privateInterval = lanPunchInterval\<rparr>
                    else \<lparr>lanOnly = False, privateInterval = privatePunchInterval\<rparr>
                | _ \<Rightarrow> \<lparr>lanOnly = False, privateInterval = privatePunchInterval\<rparr>)
           | _ \<Rightarrow> \<lparr>lanOnly = False, privateInterval = privatePunchInterval\<rparr>)"

text \<open>The fields of the relay's message; punching starts next.\<close>

definition HandlePeerAddrReady ::
  "(string \<Rightarrow> UDPAddr option) \<Rightarrow> string \<Rightarrow> string \<Rightarrow> bool \<Rightarrow> string \<Rightarrow> P2PManager \<Rightarrow> P2PManager" where
  "HandlePeerAddrReady resolveUDP peerPublic peerPrivate sameNetwork peerNAT p =
     (let info = \<lparr>peer_PublicAddr = parseAddr resolveUDP peerPublic, peer_PrivateAddr = parseAddr resolveUDP peerPrivate\<rparr>
      in p\<lparr>pm_peerInfo := Some info, pm_peerNATType := peerNAT,
           pm_punchPlan := planHolePunch sameNetwork (pm_localAddr p) (peer_PrivateAddr info)\<rparr>)"

text \<open>The goroutines that punch, each with its delay before it begins and the interval of its ticker.\<close>

datatype punch_job =
    PunchDirect UDPAddr int             \<comment> \<open>\<open>sendTestPackets\<close>\<close>
  | PunchPredict UDPAddr nat int        \<comment> \<open>\<open>sendPortPredictionPackets\<close>\<close>
  | PunchBirthday UDPAddr int           \<comment> \<open>\<open>startBirthdayAttack\<close> after a delay\<close>
  | PunchRelay UDPAddr int int          \<comment> \<open>\<open>sendRelayTestPackets\<close> after a delay\<close>

definition opt_list :: "'a option \<Rightarrow> ('a \<Rightarrow> 'b list) \<Rightarrow> 'b list" where
  "opt_list x f = (case x of None \<Rightarrow> [] | Some a \<Rightarrow> f a)"

definition startHolePunching :: "P2PManager \<Rightarrow> punch_job list" where
  "startHolePunching p =
     (case pm_peerInfo p of
        None \<Rightarrow> []
      | Some info \<Rightarrow>
          let plan = (if privateInterval (pm_punchPlan p) \<le> 0
                      then (pm_punchPlan p)\<lparr>privateInterval := privatePunchInterval\<rparr> else pm_punchPlan p)
          in if lanOnly plan then opt_list (peer_PrivateAddr info) (\<lambda>a. [PunchDirect a (privateInterval plan)])
             else let hasSymmetric = (pm_natType p = NATSymmetric \<or> pm_peerNATType p = NATSymmetric);
                      predRange = (if hasSymmetric then 100 else portPredictionRange)
                  in opt_list (peer_PublicAddr info)
                       (\<lambda>a. [PunchDirect a (100 * millisecond), PunchPredict a predRange (300 * millisecond)]) @
                     (if pm_natType p = NATSymmetric then opt_list (peer_PublicAddr info) (\<lambda>a. [PunchBirthday a second]) else []) @
                     opt_list (peer_PrivateAddr info) (\<lambda>a. [PunchDirect a (privateInterval plan)]) @
                     opt_list (pm_stunAddr p) (\<lambda>a. [PunchRelay a (2 * second) (200 * millisecond)]))"

definition predictAddrs :: "UDPAddr \<Rightarrow> nat \<Rightarrow> UDPAddr list" where
  "predictAddrs baseAddr portRange =
     [baseAddr\<lparr>udp_Port := udp_Port baseAddr + offset\<rparr>. offset \<leftarrow> [- int portRange..int portRange],
        offset \<noteq> 0 \<and> udp_Port baseAddr + offset > 0 \<and> udp_Port baseAddr + offset \<le> 65535]"

text \<open>What one tick of a job sends; \<open>enc\<close> is the JSON form of the packet the job made when it began.\<close>

definition relayWrap :: "string \<Rightarrow> bytes \<Rightarrow> bytes" where
  "relayWrap sessionID data = makeRelayHeader sessionID @ data"

fun job_tick :: "P2PManager \<Rightarrow> bytes \<Rightarrow> punch_job \<Rightarrow> (bytes \<times> UDPAddr) list" where
  "job_tick p data (PunchDirect a i) = [(data, a)]"
| "job_tick p data (PunchPredict a n i) = map (\<lambda>b. (data, b)) (predictAddrs a n)"
| "job_tick p data (PunchBirthday a d) = replicate 64 (data, a)"
| "job_tick p data (PunchRelay a d i) = [(relayWrap (pm_sessionID p) data, a)]"

section \<open>Receiving\<close>

text \<open>
  One round of \<open>receiveLoop\<close> behind its check of the stop signals, and of a birthday socket: \<open>dec\<close> reads a
  packet from JSON. A birthday socket has no second chance after an error.
\<close>

datatype receive_outcome = RecvExit | RecvAgain | RecvConnect UDPAddr

definition receiveRound ::
  "punch_crypto \<Rightarrow> (bytes \<Rightarrow> P2PTestPacket option) \<Rightarrow> P2PManager \<Rightarrow> (bytes \<times> UDPAddr) option \<Rightarrow> bool \<Rightarrow> receive_outcome" where
  "receiveRound pc dec p got timedOut =
     (case got of
        None \<Rightarrow> if timedOut then RecvAgain else RecvExit
      | Some (data, from) \<Rightarrow>
          (case dec data of
             None \<Rightarrow> RecvAgain
           | Some pkt \<Rightarrow> if acceptPunch pc p pkt then RecvConnect from else RecvAgain))"

definition birthdayRound ::
  "punch_crypto \<Rightarrow> (bytes \<Rightarrow> P2PTestPacket option) \<Rightarrow> P2PManager \<Rightarrow> (bytes \<times> UDPAddr) option \<Rightarrow> receive_outcome" where
  "birthdayRound pc dec p got =
     (case got of
        None \<Rightarrow> RecvExit
      | Some (data, from) \<Rightarrow>
          (case dec data of
             None \<Rightarrow> RecvAgain
           | Some pkt \<Rightarrow> if acceptPunch pc p pkt then RecvConnect from else RecvAgain))"

section \<open>Connecting\<close>

text \<open>\<open>onP2PConnected\<close>: the test and set of \<open>connected\<close>; \<open>None\<close> is the early return.\<close>

definition onP2PConnected_enter :: "P2PManager \<Rightarrow> P2PManager option" where
  "onP2PConnected_enter p = (if pm_connected p then None else Some (p\<lparr>pm_connected := True\<rparr>))"

definition isRelayAddr :: "P2PManager \<Rightarrow> UDPAddr \<Rightarrow> bool" where
  "isRelayAddr p addr =
     (case pm_stunAddr p of None \<Rightarrow> False | Some s \<Rightarrow> IP_Equal (udp_IP addr) (udp_IP s) \<and> udp_Port addr = udp_Port s)"

text \<open>The five confirmations.\<close>

definition confirmPackets :: "P2PManager \<Rightarrow> bytes \<Rightarrow> UDPAddr \<Rightarrow> (bytes \<times> UDPAddr) list" where
  "confirmPackets p data addr =
     replicate 5 (if isRelayAddr p addr then relayWrap (pm_sessionID p) data else data, addr)"

text \<open>Behind the check of the background mode: the receive loop is told to stop and the tunnel is built. The notice to the
  relay in front of it is an effect that nothing here depends on.\<close>

definition onP2PConnected_build :: "UDPAddr \<Rightarrow> int \<Rightarrow> P2PManager \<Rightarrow> P2PManager \<times> UDPTunnel" where
  "onP2PConnected_build addr now p =
     (stopReceiveLoop p,
      if isRelayAddr p addr then NewUDPRelayTunnel (UDPAddr_String addr) (pm_sessionID p) now
      else NewUDPTunnel (UDPAddr_String addr) now)"

definition resultCap :: nat where "resultCap = 2"

text \<open>A send that does not block; a nil channel never takes a value.\<close>

definition trySend :: "P2PResult \<Rightarrow> P2PManager \<Rightarrow> P2PManager option" where
  "trySend r p =
     (case pm_resultCh p of
        None \<Rightarrow> None
      | Some ch \<Rightarrow> if length ch < resultCap then Some (p\<lparr>pm_resultCh := Some (ch @ [r])\<rparr>) else None)"

text \<open>The delivery under \<open>tunnelMu\<close>; the first value is \<open>delivered\<close>.\<close>

definition onP2PConnected_deliver :: "UDPTunnel \<Rightarrow> P2PManager \<Rightarrow> bool \<times> P2PManager" where
  "onP2PConnected_deliver t p =
     (if pm_stopped p then (False, p)
      else case trySend \<lparr>res_Tunnel = Some t, res_Err = None\<rparr> p of
             Some p1 \<Rightarrow> (True, p1\<lparr>pm_tunnelCreated := True\<rparr>)
           | None \<Rightarrow> (False, p))"

text \<open>\<open>UDPTunnel.Close\<close> closes the socket of the manager.\<close>

definition closeLocalConn :: "P2PManager \<Rightarrow> P2PManager" where
  "closeLocalConn p = (if pm_localConn p = NoSocket then p else p\<lparr>pm_localConn := SockClosed\<rparr>)"

section \<open>Time-out and background retries\<close>

definition p2pTimeout_after :: "P2PManager \<Rightarrow> int" where
  "p2pTimeout_after p = (if pm_mode p = P2PModeRequired then 30 * second else 8 * second)"

datatype timer_pc = TimerNone | TimerWait | TimerStore | TimerSend P2PResult | TimerSent | TimerQuiet | TimerStopped

text \<open>What the timer does next, once it has fired and read \<open>connected\<close>.\<close>

definition p2pTimeout_read :: "P2PManager \<Rightarrow> timer_pc" where
  "p2pTimeout_read p =
     (if pm_connected p then TimerQuiet
      else case pm_mode p of
             P2PModeAuto \<Rightarrow> TimerStore
           | P2PModeRequired \<Rightarrow> TimerSend \<lparr>res_Tunnel = None, res_Err = Some ''P2P timeout''\<rparr>
           | P2PModeDisabled \<Rightarrow> TimerQuiet)"

definition p2pTimeout_store :: "P2PManager \<Rightarrow> P2PManager" where
  "p2pTimeout_store p = p\<lparr>pm_backgroundMode := True\<rparr>"

definition retryIntervals :: "int list" where
  "retryIntervals = [30 * second, 60 * second, 120 * second]"

datatype retry_outcome = RetryStop | RetrySkip | RetryPunch "punch_job list"

text \<open>One turn of \<open>backgroundRetry\<close>; \<open>elapsed\<close> tells whether the interval passed before the stop signal.\<close>

definition backgroundRetry_round :: "bool \<Rightarrow> P2PManager \<Rightarrow> P2PManager \<times> retry_outcome" where
  "backgroundRetry_round elapsed p =
     (p\<lparr>pm_backgroundMode := True\<rparr>,
      if \<not> elapsed \<or> pm_connected p then RetryStop
      else if pm_peerInfo p = None then RetrySkip
      else RetryPunch (startHolePunching p))"

section \<open>Close\<close>

definition Close_signal :: "P2PManager \<Rightarrow> P2PManager" where
  "Close_signal p = stopReceiveLoop (p\<lparr>pm_stopped := True\<rparr>)"

text \<open>One turn of the draining loop, \<open>None\<close> when the channel is empty; then the end of \<open>Close\<close>.\<close>

definition Close_drain :: "P2PManager \<Rightarrow> P2PManager option" where
  "Close_drain p =
     (case pm_resultCh p of
        Some (r # rs) \<Rightarrow>
          let p1 = p\<lparr>pm_resultCh := Some rs\<rparr>
          in Some (if res_Tunnel r \<noteq> None then closeLocalConn p1 else p1)
      | _ \<Rightarrow> None)"

definition Close_finish :: "P2PManager \<Rightarrow> P2PManager" where
  "Close_finish p = (if \<not> pm_tunnelCreated p \<and> pm_localConn p \<noteq> NoSocket then closeLocalConn p else p)"

section \<open>Facts on the pieces\<close>

lemma planHolePunch_positive: "0 < privateInterval (planHolePunch same l r)"
  by (simp add: planHolePunch_def lanPunchInterval_def privatePunchInterval_def millisecond_def split: option.split)

text \<open>A ticker with an interval that is not positive panics: no job has one, whatever the manager has seen.\<close>

fun job_interval :: "punch_job \<Rightarrow> int" where
  "job_interval (PunchDirect a i) = i"
| "job_interval (PunchPredict a n i) = i"
| "job_interval (PunchBirthday a d) = d"
| "job_interval (PunchRelay a d i) = i"

lemma startHolePunching_positive: "j \<in> set (startHolePunching p) \<Longrightarrow> 0 < job_interval j"
  by (auto simp: startHolePunching_def opt_list_def Let_def privatePunchInterval_def millisecond_def second_def
      split: option.splits if_splits)

lemma predictAddrs_sound:
  "a \<in> set (predictAddrs b n) \<longleftrightarrow>
     (\<exists>q. a = b\<lparr>udp_Port := q\<rparr> \<and> 0 < q \<and> q \<le> 65535 \<and> q \<noteq> udp_Port b \<and> \<bar>q - udp_Port b\<bar> \<le> int n)"
proof
  assume "a \<in> set (predictAddrs b n)"
  then obtain d where "a = b\<lparr>udp_Port := udp_Port b + d\<rparr>" "- int n \<le> d" "d \<le> int n" "d \<noteq> 0"
    "0 < udp_Port b + d" "udp_Port b + d \<le> 65535"
    by (auto simp: predictAddrs_def)
  then show "\<exists>q. a = b\<lparr>udp_Port := q\<rparr> \<and> 0 < q \<and> q \<le> 65535 \<and> q \<noteq> udp_Port b \<and> \<bar>q - udp_Port b\<bar> \<le> int n"
    by (intro exI [of _ "udp_Port b + d"]) auto
next
  assume "\<exists>q. a = b\<lparr>udp_Port := q\<rparr> \<and> 0 < q \<and> q \<le> 65535 \<and> q \<noteq> udp_Port b \<and> \<bar>q - udp_Port b\<bar> \<le> int n"
  then obtain q where "a = b\<lparr>udp_Port := q\<rparr>" "0 < q" "q \<le> 65535" "q \<noteq> udp_Port b" "\<bar>q - udp_Port b\<bar> \<le> int n" by blast
  then show "a \<in> set (predictAddrs b n)"
    unfolding predictAddrs_def by (auto simp: algebra_simps intro!: bexI [of _ "q - udp_Port b"])
qed

end
