(* ===== verification/P2P_Handover.thy ===== *)
theory P2P_Handover
  imports P2P_Manager
begin

text \<open>
  The goroutines around one manager (\<^verbatim>\<open>internal/p2p/manager.go\<close>) in every interleaving: \<open>Start\<close>, the receive loop, the
  birthday sockets, \<open>onP2PConnected\<close>, the time-out, \<open>Close\<close>, and the consumer of the result channel, who owns the
  tunnels it takes. One step is one piece of the previous theory. The mutex \<open>tunnelMu\<close> is held from \<open>CloseLocked\<close> to
  \<open>CloseDone\<close>, so no delivery happens there.
\<close>

datatype start_pc = StartIdle | StartBegun | StartBound | StartDone | StartFailed
datatype recv_pc = RecvNone | RecvTop | RecvReading | RecvGone
datatype conn_pc = ConnIdle | ConnEntered UDPAddr | ConnLoaded UDPAddr | ConnDeliver UDPTunnel | ConnDelivered
  | ConnDiscard UDPTunnel | ConnDiscarded | ConnBackground
datatype close_pc = CloseNot | CloseSignalled | CloseLocked | CloseDone

record negotiation =
  ng_mgr :: P2PManager
  ng_start :: start_pc
  ng_recv :: recv_pc
  ng_extra :: bool                     \<comment> \<open>birthday sockets are listening\<close>
  ng_conn :: conn_pc
  ng_timer :: timer_pc
  ng_close :: close_pc
  ng_closedAt :: "start_pc option"     \<comment> \<open>where \<open>Start\<close> was when \<open>Close\<close> was called\<close>
  ng_held :: "UDPTunnel option"        \<comment> \<open>the tunnel the consumer has taken and not closed\<close>
  ng_taken :: "P2PResult list"

definition new_negotiation :: "P2PManager \<Rightarrow> negotiation" where
  "new_negotiation p = \<lparr>ng_mgr = p, ng_start = StartIdle, ng_recv = RecvNone, ng_extra = False, ng_conn = ConnIdle,
     ng_timer = TimerNone, ng_close = CloseNot, ng_closedAt = None, ng_held = None, ng_taken = []\<rparr>"

text \<open>A manager as its users configure it.\<close>

definition configured :: "P2PMode \<Rightarrow> string \<Rightarrow> string \<Rightarrow> string \<Rightarrow> string list \<Rightarrow> bool \<Rightarrow> P2PManager" where
  "configured mode stunServer bindIP code servers relay =
     SetRelayConn relay (SetSTUNCandidates servers (SetAuthCode code (NewP2PManager mode stunServer bindIP)))"

inductive nstep :: "punch_crypto \<Rightarrow> (bytes \<Rightarrow> P2PTestPacket option) \<Rightarrow> negotiation \<Rightarrow> negotiation \<Rightarrow> bool"
  for pc :: punch_crypto and dec :: "bytes \<Rightarrow> P2PTestPacket option" where
  start_begin: "ng_start n = StartIdle \<Longrightarrow> Start_begin sid share (ng_mgr n) = (over, p) \<Longrightarrow>
    nstep pc dec n (n\<lparr>ng_mgr := p, ng_start := (if over then StartDone else StartBegun)\<rparr>)"
| start_bind: "ng_start n = StartBegun \<Longrightarrow> Start_listen phys outbound bound (ng_mgr n) = Some p \<Longrightarrow>
    nstep pc dec n (n\<lparr>ng_mgr := p, ng_start := StartBound\<rparr>)"
| start_fail: "ng_start n = StartBegun \<Longrightarrow> Start_listen phys outbound bound (ng_mgr n) = None \<Longrightarrow>
    nstep pc dec n (n\<lparr>ng_start := StartFailed\<rparr>)"
| start_end: "ng_start n = StartBound \<Longrightarrow>
    nstep pc dec n (n\<lparr>ng_mgr := Start_discover resolveUDP race (ng_mgr n), ng_start := StartDone, ng_recv := RecvTop, ng_timer := TimerWait\<rparr>)"
| peer_ready: "ng_start n = StartDone \<Longrightarrow>
    nstep pc dec n (n\<lparr>ng_mgr := HandlePeerAddrReady resolveUDP peerPublic peerPrivate same peerNAT (ng_mgr n)\<rparr>)"
| recv_top: "ng_recv n = RecvTop \<Longrightarrow>
    nstep pc dec n (n\<lparr>ng_recv := (if pm_stopped (ng_mgr n) \<or> pm_recvStopped (ng_mgr n) then RecvGone else RecvReading)\<rparr>)"
| recv_again: "ng_recv n = RecvReading \<Longrightarrow> receiveRound pc dec (ng_mgr n) got timedOut = RecvAgain \<Longrightarrow>
    nstep pc dec n (n\<lparr>ng_recv := RecvTop\<rparr>)"
| recv_exit: "ng_recv n = RecvReading \<Longrightarrow> receiveRound pc dec (ng_mgr n) got timedOut = RecvExit \<Longrightarrow>
    nstep pc dec n (n\<lparr>ng_recv := RecvGone\<rparr>)"
| recv_first: "ng_recv n = RecvReading \<Longrightarrow> receiveRound pc dec (ng_mgr n) got timedOut = RecvConnect addr \<Longrightarrow>
    onP2PConnected_enter (ng_mgr n) = Some p \<Longrightarrow>
    nstep pc dec n (n\<lparr>ng_mgr := p, ng_recv := RecvGone, ng_conn := ConnEntered addr\<rparr>)"
| recv_late: "ng_recv n = RecvReading \<Longrightarrow> receiveRound pc dec (ng_mgr n) got timedOut = RecvConnect addr \<Longrightarrow>
    onP2PConnected_enter (ng_mgr n) = None \<Longrightarrow>
    nstep pc dec n (n\<lparr>ng_recv := RecvGone\<rparr>)"
| extra_open: "ng_start n = StartDone \<Longrightarrow> pm_mode (ng_mgr n) \<noteq> P2PModeDisabled \<Longrightarrow> \<not> pm_stopped (ng_mgr n) \<Longrightarrow>
    nstep pc dec n (n\<lparr>ng_extra := True\<rparr>)"
| extra_first: "ng_extra n \<Longrightarrow> birthdayRound pc dec (ng_mgr n) got = RecvConnect addr \<Longrightarrow>
    onP2PConnected_enter (ng_mgr n) = Some p \<Longrightarrow>
    nstep pc dec n (n\<lparr>ng_mgr := p, ng_conn := ConnEntered addr\<rparr>)"
| extra_close: "nstep pc dec n (n\<lparr>ng_extra := False\<rparr>)"
| conn_load: "ng_conn n = ConnEntered addr \<Longrightarrow>
    nstep pc dec n (n\<lparr>ng_conn := (if pm_backgroundMode (ng_mgr n) then ConnBackground else ConnLoaded addr)\<rparr>)"
| conn_build: "ng_conn n = ConnLoaded addr \<Longrightarrow> onP2PConnected_build addr now (ng_mgr n) = (p, t) \<Longrightarrow>
    nstep pc dec n (n\<lparr>ng_mgr := p, ng_conn := ConnDeliver t\<rparr>)"
| conn_deliver: "ng_conn n = ConnDeliver t \<Longrightarrow> ng_close n \<noteq> CloseLocked \<Longrightarrow> onP2PConnected_deliver t (ng_mgr n) = (delivered, p) \<Longrightarrow>
    nstep pc dec n (n\<lparr>ng_mgr := p, ng_conn := (if delivered then ConnDelivered else ConnDiscard t)\<rparr>)"
| conn_discard: "ng_conn n = ConnDiscard t \<Longrightarrow>
    nstep pc dec n (n\<lparr>ng_mgr := closeLocalConn (ng_mgr n), ng_conn := ConnDiscarded\<rparr>)"
| timer_stop: "ng_timer n = TimerWait \<Longrightarrow> pm_stopped (ng_mgr n) \<Longrightarrow>
    nstep pc dec n (n\<lparr>ng_timer := TimerStopped\<rparr>)"
| timer_fire: "ng_timer n = TimerWait \<Longrightarrow>
    nstep pc dec n (n\<lparr>ng_timer := p2pTimeout_read (ng_mgr n)\<rparr>)"
| timer_store: "ng_timer n = TimerStore \<Longrightarrow>
    nstep pc dec n (n\<lparr>ng_mgr := p2pTimeout_store (ng_mgr n), ng_timer := TimerSend emptyResult\<rparr>)"
| timer_send: "ng_timer n = TimerSend r \<Longrightarrow> trySend r (ng_mgr n) = Some p \<Longrightarrow>
    nstep pc dec n (n\<lparr>ng_mgr := p, ng_timer := TimerSent\<rparr>)"
| retry: "ng_timer n = TimerSent \<Longrightarrow> pm_mode (ng_mgr n) = P2PModeAuto \<Longrightarrow> backgroundRetry_round elapsed (ng_mgr n) = (p, out) \<Longrightarrow>
    nstep pc dec n (n\<lparr>ng_mgr := p\<rparr>)"
| close_signal: "ng_close n = CloseNot \<Longrightarrow>
    nstep pc dec n (n\<lparr>ng_mgr := Close_signal (ng_mgr n), ng_close := CloseSignalled, ng_closedAt := Some (ng_start n)\<rparr>)"
| close_lock: "ng_close n = CloseSignalled \<Longrightarrow>
    nstep pc dec n (n\<lparr>ng_close := CloseLocked\<rparr>)"
| close_drain: "ng_close n = CloseLocked \<Longrightarrow> Close_drain (ng_mgr n) = Some p \<Longrightarrow>
    nstep pc dec n (n\<lparr>ng_mgr := p\<rparr>)"
| close_finish: "ng_close n = CloseLocked \<Longrightarrow> Close_drain (ng_mgr n) = None \<Longrightarrow>
    nstep pc dec n (n\<lparr>ng_mgr := Close_finish (ng_mgr n), ng_close := CloseDone\<rparr>)"
| consumer_take: "pm_resultCh (ng_mgr n) = Some (r # rs) \<Longrightarrow>
    nstep pc dec n (n\<lparr>ng_mgr := (ng_mgr n)\<lparr>pm_resultCh := Some rs\<rparr>, ng_taken := ng_taken n @ [r],
      ng_held := (if res_Tunnel r \<noteq> None then res_Tunnel r else ng_held n)\<rparr>)"
| consumer_close: "ng_held n = Some t \<Longrightarrow>
    nstep pc dec n (n\<lparr>ng_mgr := closeLocalConn (ng_mgr n), ng_held := None\<rparr>)"

definition nreach :: "punch_crypto \<Rightarrow> (bytes \<Rightarrow> P2PTestPacket option) \<Rightarrow> P2PManager \<Rightarrow> negotiation \<Rightarrow> bool" where
  "nreach pc dec p n = (nstep pc dec)\<^sup>*\<^sup>* (new_negotiation p) n"

section \<open>Invariant\<close>

definition chan :: "negotiation \<Rightarrow> P2PResult list" where
  "chan n = (case pm_resultCh (ng_mgr n) of None \<Rightarrow> [] | Some ch \<Rightarrow> ch)"

definition tunnels :: "P2PResult list \<Rightarrow> nat" where
  "tunnels rs = length (filter (\<lambda>r. res_Tunnel r \<noteq> None) rs)"

definition plain :: "P2PResult list \<Rightarrow> nat" where
  "plain rs = length (filter (\<lambda>r. res_Tunnel r = None) rs)"

lemma tunnels_simps [simp]:
  "tunnels [] = 0" "tunnels (r # rs) = (if res_Tunnel r \<noteq> None then Suc (tunnels rs) else tunnels rs)"
  "tunnels (rs @ rs') = tunnels rs + tunnels rs'"
  by (simp_all add: tunnels_def)

lemma plain_simps [simp]:
  "plain [] = 0" "plain (r # rs) = (if res_Tunnel r = None then Suc (plain rs) else plain rs)"
  "plain (rs @ rs') = plain rs + plain rs'"
  by (simp_all add: plain_def)

lemma length_results: "length rs = tunnels rs + plain rs"
  by (induction rs) auto

text \<open>Where the goroutines can be.\<close>

definition inv_pc :: "negotiation \<Rightarrow> bool" where
  "inv_pc n = (let m = ng_mgr n in
     (ng_timer n \<noteq> TimerNone \<or> ng_conn n \<noteq> ConnIdle \<or> ng_recv n \<noteq> RecvNone \<or> ng_extra n \<longrightarrow>
        pm_mode m \<noteq> P2PModeDisabled \<and> ng_start n = StartDone) \<and>
     (ng_start n = StartIdle \<longleftrightarrow> pm_resultCh m = None) \<and>
     (pm_connected m \<longleftrightarrow> ng_conn n \<noteq> ConnIdle) \<and>
     (pm_stopped m \<longleftrightarrow> ng_close n \<noteq> CloseNot) \<and>
     (pm_localConn m = NoSocket \<longleftrightarrow> ng_start n \<in> {StartIdle, StartBegun, StartFailed} \<or> pm_mode m = P2PModeDisabled) \<and>
     (pm_mode m = P2PModeDisabled \<longrightarrow> ng_start n \<in> {StartIdle, StartDone}) \<and>
     (ng_closedAt n = Some StartDone \<longrightarrow> ng_start n = StartDone) \<and>
     (\<forall>r. ng_timer n = TimerSend r \<longrightarrow> res_Tunnel r = None))"

text \<open>How many results there are.\<close>

definition inv_count :: "negotiation \<Rightarrow> bool" where
  "inv_count n = (let m = ng_mgr n in
     (pm_tunnelCreated m \<longleftrightarrow> ng_conn n = ConnDelivered) \<and>
     tunnels (chan n) + tunnels (ng_taken n) \<le> (if ng_conn n = ConnDelivered then 1 else 0) \<and>
     plain (chan n) + plain (ng_taken n) \<le> (if ng_timer n = TimerSent \<or> pm_mode m = P2PModeDisabled \<and> ng_start n = StartDone then 1 else 0) \<and>
     (ng_held n \<noteq> None \<longrightarrow> tunnels (ng_taken n) = 1))"

text \<open>Who owns the socket.\<close>

definition inv_sock :: "negotiation \<Rightarrow> bool" where
  "inv_sock n = (let m = ng_mgr n in
     (pm_localConn m = SockClosed \<longrightarrow>
        ng_conn n = ConnDiscarded \<or> ng_close n = CloseDone \<and> ng_conn n \<noteq> ConnDelivered \<or>
        ng_conn n = ConnDelivered \<and> ng_held n = None \<and> tunnels (chan n) = 0) \<and>
     (ng_conn n = ConnDelivered \<longrightarrow> tunnels (chan n) = 1 \<or> ng_held n \<noteq> None \<or> pm_localConn m = SockClosed) \<and>
     (ng_close n = CloseDone \<longrightarrow> tunnels (chan n) = 0) \<and>
     (ng_close n = CloseDone \<and> ng_closedAt n = Some StartDone \<and> ng_conn n \<noteq> ConnDelivered \<longrightarrow> pm_localConn m \<noteq> SockOpen))"

text \<open>What the consumer can rely on while the manager is not closed.\<close>

definition inv_answer :: "negotiation \<Rightarrow> bool" where
  "inv_answer n = (let m = ng_mgr n in
     (ng_timer n = TimerQuiet \<longrightarrow> pm_connected m) \<and>
     (ng_timer n = TimerStopped \<longrightarrow> pm_stopped m) \<and>
     (pm_backgroundMode m \<longrightarrow> ng_timer n = TimerSent \<or> (\<exists>r. ng_timer n = TimerSend r)) \<and>
     (ng_conn n = ConnBackground \<longrightarrow> pm_backgroundMode m) \<and>
     (ng_close n = CloseNot \<longrightarrow>
        (\<forall>t. ng_conn n \<noteq> ConnDiscard t) \<and> ng_conn n \<noteq> ConnDiscarded \<and>
        (ng_conn n = ConnDelivered \<longrightarrow> tunnels (chan n) + tunnels (ng_taken n) = 1) \<and>
        (ng_timer n = TimerSent \<longrightarrow> plain (chan n) + plain (ng_taken n) = 1)))"

lemma Start_discover_keeps [simp]:
  "pm_mode (Start_discover rsv race p) = pm_mode p" "pm_resultCh (Start_discover rsv race p) = pm_resultCh p"
  "pm_connected (Start_discover rsv race p) = pm_connected p" "pm_stopped (Start_discover rsv race p) = pm_stopped p"
  "pm_localConn (Start_discover rsv race p) = pm_localConn p" "pm_tunnelCreated (Start_discover rsv race p) = pm_tunnelCreated p"
  "pm_backgroundMode (Start_discover rsv race p) = pm_backgroundMode p"
  by (simp_all add: Start_discover_def Let_def split: list.split)

lemma p2pTimeout_read_not_sent [simp]:
  "p2pTimeout_read p \<noteq> TimerSent" "p2pTimeout_read p \<noteq> TimerNone" "p2pTimeout_read p \<noteq> TimerStopped"
  by (simp_all add: p2pTimeout_read_def split: P2PMode.split)

lemma trySend_Some:
  "trySend r p = Some q \<longleftrightarrow> (\<exists>ch. pm_resultCh p = Some ch \<and> length ch < 2 \<and> q = p\<lparr>pm_resultCh := Some (ch @ [r])\<rparr>)"
  by (auto simp: trySend_def resultCap_def split: option.splits)

lemma deliver_cases:
  assumes "onP2PConnected_deliver t p = (d, q)"
  obtains (sent) ch where "d" "\<not> pm_stopped p" "pm_resultCh p = Some ch" "length ch < 2"
      "q = p\<lparr>pm_resultCh := Some (ch @ [\<lparr>res_Tunnel = Some t, res_Err = None\<rparr>]), pm_tunnelCreated := True\<rparr>"
    | (kept) "\<not> d" "q = p" "pm_stopped p \<or> (\<forall>ch. pm_resultCh p = Some ch \<longrightarrow> 2 \<le> length ch)"
proof (cases "pm_stopped p")
  case True then show ?thesis using assms kept by (simp add: onP2PConnected_deliver_def)
next
  case False
  show ?thesis
  proof (cases "trySend \<lparr>res_Tunnel = Some t, res_Err = None\<rparr> p")
    case None
    then have "\<forall>ch. pm_resultCh p = Some ch \<longrightarrow> 2 \<le> length ch" by (auto simp: trySend_def resultCap_def split: if_splits)
    then show ?thesis using assms False None kept by (simp add: onP2PConnected_deliver_def)
  next
    case (Some q1)
    then obtain ch where "pm_resultCh p = Some ch" "length ch < 2" "q1 = p\<lparr>pm_resultCh := Some (ch @ [\<lparr>res_Tunnel = Some t, res_Err = None\<rparr>])\<rparr>"
      by (auto simp: trySend_Some)
    then show ?thesis using assms False Some sent [of ch] by (auto simp: onP2PConnected_deliver_def)
  qed
qed

lemma drain_cases:
  assumes "Close_drain p = Some q"
  obtains (tunnel) r rs where "pm_resultCh p = Some (r # rs)" "res_Tunnel r \<noteq> None" "q = closeLocalConn (p\<lparr>pm_resultCh := Some rs\<rparr>)"
    | (no_tunnel) r rs where "pm_resultCh p = Some (r # rs)" "res_Tunnel r = None" "q = p\<lparr>pm_resultCh := Some rs\<rparr>"
  using assms by (auto simp: Close_drain_def Let_def split: option.splits list.splits if_splits)

lemma drain_None: "Close_drain p = None \<longleftrightarrow> pm_resultCh p = None \<or> pm_resultCh p = Some []"
  by (auto simp: Close_drain_def Let_def split: option.splits list.splits)

lemma closeLocalConn_keeps [simp]:
  "pm_mode (closeLocalConn p) = pm_mode p" "pm_resultCh (closeLocalConn p) = pm_resultCh p" "pm_connected (closeLocalConn p) = pm_connected p"
  "pm_stopped (closeLocalConn p) = pm_stopped p" "pm_tunnelCreated (closeLocalConn p) = pm_tunnelCreated p"
  "pm_backgroundMode (closeLocalConn p) = pm_backgroundMode p" "pm_localConn (closeLocalConn p) = NoSocket \<longleftrightarrow> pm_localConn p = NoSocket"
  "pm_localConn (closeLocalConn p) \<noteq> SockOpen" "pm_localConn (closeLocalConn p) = SockClosed \<longleftrightarrow> pm_localConn p \<noteq> NoSocket"
  by (simp_all add: closeLocalConn_def)

lemma inv_pc_step: "nstep pc dec n n' \<Longrightarrow> inv_pc n \<Longrightarrow> inv_pc n'"
proof (induction rule: nstep.induct)
  case (timer_fire n) then show ?case by (auto simp: inv_pc_def Let_def p2pTimeout_read_def split: P2PMode.splits)
next
  case (conn_deliver n t d p)
  from conn_deliver.hyps(3) show ?case
    by (cases rule: deliver_cases) (use conn_deliver.hyps(1) conn_deliver.prems in \<open>auto simp: inv_pc_def Let_def\<close>)
next
  case (close_drain n p)
  from close_drain.hyps(2) show ?case
    by (cases rule: drain_cases) (use close_drain.prems in \<open>auto simp: inv_pc_def Let_def\<close>)
next
  case (close_finish n) then show ?case by (auto simp: inv_pc_def Let_def Close_finish_def)
next
  case (timer_send n r p)
  from timer_send.hyps(2) obtain ch where "pm_resultCh (ng_mgr n) = Some ch" "p = (ng_mgr n)\<lparr>pm_resultCh := Some (ch @ [r])\<rparr>"
    unfolding trySend_Some by blast
  then show ?case using timer_send.hyps(1) timer_send.prems by (simp add: inv_pc_def Let_def)
next
  case (consumer_close n t) then show ?case by (simp add: inv_pc_def Let_def) blast
next
  case (conn_discard n t) then show ?case by (auto simp: inv_pc_def Let_def)
next
  case (start_begin n sid share over p)
  then show ?case by (cases "pm_mode (ng_mgr n) = P2PModeDisabled") (auto simp: inv_pc_def Let_def Start_begin_def)
next
  case (start_bind n phys outbound bound p)
  then have "\<exists>a. p = (ng_mgr n)\<lparr>pm_localConn := SockOpen, pm_localAddr := a\<rparr>"
    by (auto simp: Start_listen_def Let_def split: option.splits if_splits)
  then show ?case using start_bind by (auto simp: inv_pc_def Let_def)
next
  case (recv_first n got timedOut addr p)
  then show ?case by (auto simp: inv_pc_def Let_def onP2PConnected_enter_def split: if_splits)
next
  case (extra_first n got addr p)
  then show ?case by (auto simp: inv_pc_def Let_def onP2PConnected_enter_def split: if_splits)
next
  case (conn_build n addr now p t)
  then show ?case by (auto simp: inv_pc_def Let_def onP2PConnected_build_def stopReceiveLoop_def)
next
  case (close_signal n) then show ?case by (simp add: inv_pc_def Let_def Close_signal_def stopReceiveLoop_def) blast
qed ((clarsimp simp: inv_pc_def Let_def HandlePeerAddrReady_def p2pTimeout_store_def backgroundRetry_round_def emptyResult_def; auto?)+)

lemma pc_facts:
  assumes "inv_pc n"
  shows "ng_timer n \<noteq> TimerNone \<or> ng_conn n \<noteq> ConnIdle \<or> ng_recv n \<noteq> RecvNone \<or> ng_extra n \<Longrightarrow>
      pm_mode (ng_mgr n) \<noteq> P2PModeDisabled \<and> ng_start n = StartDone"
    and "ng_start n = StartIdle \<longleftrightarrow> pm_resultCh (ng_mgr n) = None"
    and "pm_connected (ng_mgr n) \<longleftrightarrow> ng_conn n \<noteq> ConnIdle"
    and "pm_stopped (ng_mgr n) \<longleftrightarrow> ng_close n \<noteq> CloseNot"
    and "pm_localConn (ng_mgr n) = NoSocket \<longleftrightarrow> ng_start n \<in> {StartIdle, StartBegun, StartFailed} \<or> pm_mode (ng_mgr n) = P2PModeDisabled"
    and "ng_timer n = TimerSend r \<Longrightarrow> res_Tunnel r = None"
  using assms unfolding inv_pc_def Let_def by blast+

lemma chan_simps [simp]:
  "chan (n\<lparr>ng_mgr := m\<rparr>) = (case pm_resultCh m of None \<Rightarrow> [] | Some ch \<Rightarrow> ch)"
  "chan (n\<lparr>ng_start := a\<rparr>) = chan n" "chan (n\<lparr>ng_recv := b\<rparr>) = chan n" "chan (n\<lparr>ng_extra := c\<rparr>) = chan n"
  "chan (n\<lparr>ng_conn := d\<rparr>) = chan n" "chan (n\<lparr>ng_timer := e\<rparr>) = chan n" "chan (n\<lparr>ng_close := f\<rparr>) = chan n"
  "chan (n\<lparr>ng_closedAt := g\<rparr>) = chan n" "chan (n\<lparr>ng_held := h\<rparr>) = chan n" "chan (n\<lparr>ng_taken := i\<rparr>) = chan n"
  by (simp_all add: chan_def)

lemma inv_count_step: "nstep pc dec n n' \<Longrightarrow> inv_pc n \<Longrightarrow> inv_count n \<Longrightarrow> inv_count n'"
proof (induction rule: nstep.induct)
  case (start_begin n sid share over p)
  then have "chan n = []" "ng_conn n = ConnIdle" "ng_timer n = TimerNone" "ng_held n = None \<or> True" using pc_facts [OF start_begin.prems(1)] by (auto simp: chan_def)
  then show ?case using start_begin by (auto simp: inv_count_def Let_def Start_begin_def emptyResult_def split: if_splits)
next
  case (conn_deliver n t d p)
  from conn_deliver.hyps(3) show ?case
    by (cases rule: deliver_cases) (use conn_deliver.hyps(1) conn_deliver.prems(2) in \<open>auto simp: inv_count_def Let_def chan_def\<close>)
next
  case (close_drain n p)
  from close_drain.hyps(2) show ?case
    by (cases rule: drain_cases) (use close_drain.prems(2) in \<open>auto simp: inv_count_def Let_def chan_def split: if_splits\<close>)
next
  case (timer_send n r p)
  from timer_send.hyps(2) obtain ch where "pm_resultCh (ng_mgr n) = Some ch" "p = (ng_mgr n)\<lparr>pm_resultCh := Some (ch @ [r])\<rparr>"
    unfolding trySend_Some by blast
  moreover have "res_Tunnel r = None" "pm_mode (ng_mgr n) \<noteq> P2PModeDisabled"
    using pc_facts(1,6) [OF timer_send.prems(1)] timer_send.hyps(1) by auto
  ultimately show ?case using timer_send.hyps(1) timer_send.prems(2) by (simp add: inv_count_def Let_def chan_def)
next
  case (consumer_take n r rs)
  then show ?case by (auto simp: inv_count_def Let_def chan_def split: if_splits)
next
  case (close_finish n) then show ?case by (auto simp: inv_count_def Let_def chan_def Close_finish_def split: if_splits)
next
  case (conn_load n addr) then show ?case by (clarsimp simp: inv_count_def Let_def chan_def)
next
  case (timer_fire n) then show ?case by (simp add: inv_count_def Let_def chan_def)
next
  case (start_bind n phys outbound bound p)
  then show ?case by (auto simp: inv_count_def Let_def chan_def Start_listen_def split: option.splits if_splits)
next
  case (start_end n) then show ?case using pc_facts(1) [OF start_end.prems(1)] by (auto simp: inv_count_def Let_def chan_def split: if_splits)
next
  case (recv_first n got timedOut addr p)
  then show ?case using pc_facts(3) [OF recv_first.prems(1)] by (auto simp: inv_count_def Let_def chan_def onP2PConnected_enter_def split: if_splits)
next
  case (extra_first n got addr p)
  then show ?case using pc_facts(3) [OF extra_first.prems(1)] by (auto simp: inv_count_def Let_def chan_def onP2PConnected_enter_def split: if_splits)
next
  case (start_fail n) then show ?case by (simp add: inv_count_def Let_def chan_def split: if_splits)
next
  case (conn_build n addr now p t)
  then show ?case by (auto simp: inv_count_def Let_def chan_def onP2PConnected_build_def stopReceiveLoop_def)
next
  case (retry n elapsed p out) then show ?case by (auto simp: inv_count_def Let_def chan_def backgroundRetry_round_def)
next
  case (conn_discard n t) then show ?case by (clarsimp simp: inv_count_def Let_def chan_def)
next
  case (consumer_close n t) then show ?case by (auto simp: inv_count_def Let_def chan_def split: if_splits)
next
  case (close_signal n)
  then show ?case by (simp add: inv_count_def Let_def chan_def Close_signal_def stopReceiveLoop_def)
qed ((clarsimp simp: inv_count_def Let_def chan_def HandlePeerAddrReady_def p2pTimeout_store_def; auto?)+)

lemma count_facts:
  assumes "inv_count n"
  shows "pm_tunnelCreated (ng_mgr n) \<longleftrightarrow> ng_conn n = ConnDelivered"
    and "tunnels (chan n) + tunnels (ng_taken n) \<le> 1"
    and "ng_conn n \<noteq> ConnDelivered \<Longrightarrow> tunnels (chan n) = 0 \<and> tunnels (ng_taken n) = 0 \<and> ng_held n = None"
    and "ng_held n \<noteq> None \<Longrightarrow> tunnels (ng_taken n) = 1 \<and> tunnels (chan n) = 0 \<and> ng_conn n = ConnDelivered"
    and "plain (chan n) + plain (ng_taken n) \<le> 1"
  using assms by (auto simp: inv_count_def Let_def split: if_splits)

lemma inv_sock_step:
  "nstep pc dec n n' \<Longrightarrow> inv_pc n \<Longrightarrow> inv_count n \<Longrightarrow> inv_sock n \<Longrightarrow> inv_sock n'"
proof (induction rule: nstep.induct)
  case (start_begin n sid share over p)
  then have "chan n = []" "ng_conn n = ConnIdle" using pc_facts [OF start_begin.prems(1)] by (auto simp: chan_def)
  then show ?case using start_begin by (auto simp: inv_sock_def Let_def Start_begin_def emptyResult_def split: if_splits)
next
  case (start_bind n phys outbound bound p)
  then obtain a where p: "p = (ng_mgr n)\<lparr>pm_localConn := SockOpen, pm_localAddr := a\<rparr>"
    by (auto simp: Start_listen_def Let_def split: option.splits if_splits)
  have "ng_conn n = ConnIdle" "ng_closedAt n \<noteq> Some StartDone"
    using pc_facts(1) [OF start_bind.prems(1)] start_bind by (auto simp: inv_pc_def Let_def)
  then show ?case using start_bind.prems(3) by (simp add: inv_sock_def Let_def p chan_def)
next
  case (conn_deliver n t d p)
  note f = pc_facts [OF conn_deliver.prems(1)] count_facts [OF conn_deliver.prems(2)]
  from conn_deliver.hyps(3) show ?case
    by (cases rule: deliver_cases) (use conn_deliver.hyps(1) conn_deliver.prems(3) f in \<open>auto simp: inv_sock_def Let_def chan_def\<close>)
next
  case (close_drain n p)
  note f = pc_facts [OF close_drain.prems(1)] count_facts [OF close_drain.prems(2)]
  from close_drain.hyps(2) show ?case
  proof (cases rule: drain_cases)
    case (tunnel r rs)
    then have "ng_conn n = ConnDelivered" "tunnels rs = 0" "ng_held n = None" "pm_localConn (ng_mgr n) \<noteq> NoSocket"
      using f(5,7,8,9,10) f(1) by (auto simp: chan_def)
    then show ?thesis using tunnel close_drain.hyps(1) by (simp add: inv_sock_def Let_def chan_def)
  next
    case (no_tunnel r rs)
    then show ?thesis using close_drain.hyps(1) close_drain.prems(3) by (simp add: inv_sock_def Let_def chan_def)
  qed
next
  case (close_finish n)
  then have "tunnels (chan n) = 0" by (auto simp: drain_None chan_def)
  moreover note f = pc_facts [OF close_finish.prems(1)] count_facts [OF close_finish.prems(2)]
  ultimately show ?case using close_finish.prems(3) close_finish.hyps(1)
    by (auto simp: inv_sock_def Let_def Close_finish_def chan_def split: if_splits)
next
  case (conn_discard n t)
  then show ?case using count_facts [OF conn_discard.prems(2)] pc_facts [OF conn_discard.prems(1)]
    by (auto simp: inv_sock_def Let_def chan_def)
next
  case (consumer_close n t)
  then have "tunnels (chan n) = 0" "ng_conn n = ConnDelivered" using count_facts(4) [OF consumer_close.prems(2)] by auto
  moreover have "pm_localConn (ng_mgr n) \<noteq> NoSocket"
    using pc_facts(1,5) [OF consumer_close.prems(1)] \<open>ng_conn n = ConnDelivered\<close> by auto
  ultimately show ?case by (simp add: inv_sock_def Let_def chan_def)
next
  case (consumer_take n r rs)
  then show ?case using count_facts [OF consumer_take.prems(2)] by (auto simp: inv_sock_def Let_def chan_def split: if_splits)
next
  case (timer_send n r p)
  from timer_send.hyps(2) obtain ch where "pm_resultCh (ng_mgr n) = Some ch" "p = (ng_mgr n)\<lparr>pm_resultCh := Some (ch @ [r])\<rparr>"
    unfolding trySend_Some by blast
  moreover have "res_Tunnel r = None" using pc_facts(6) [OF timer_send.prems(1)] timer_send.hyps(1) by auto
  ultimately show ?case using timer_send.hyps(1) timer_send.prems(3) by (simp add: inv_sock_def Let_def chan_def)
next
  case (recv_first n got timedOut addr p)
  then show ?case using pc_facts(3) [OF recv_first.prems(1)]
    by (auto simp: inv_sock_def Let_def chan_def onP2PConnected_enter_def split: if_splits)
next
  case (extra_first n got addr p)
  then show ?case using pc_facts(3) [OF extra_first.prems(1)]
    by (auto simp: inv_sock_def Let_def chan_def onP2PConnected_enter_def split: if_splits)
next
  case (close_signal n)
  then show ?case by (simp add: inv_sock_def Let_def chan_def Close_signal_def stopReceiveLoop_def)
next
  case (conn_build n addr now p t)
  then show ?case by (auto simp: inv_sock_def Let_def chan_def onP2PConnected_build_def stopReceiveLoop_def)
qed ((clarsimp simp: inv_sock_def Let_def chan_def HandlePeerAddrReady_def p2pTimeout_store_def backgroundRetry_round_def; auto?)+)

lemma inv_answer_step:
  "nstep pc dec n n' \<Longrightarrow> inv_pc n \<Longrightarrow> inv_count n \<Longrightarrow> inv_answer n \<Longrightarrow> inv_answer n'"
proof (induction rule: nstep.induct)
  case (start_begin n sid share over p)
  then have "chan n = []" "ng_conn n = ConnIdle" "ng_timer n = TimerNone" using pc_facts [OF start_begin.prems(1)] by (auto simp: chan_def)
  then show ?case using start_begin by (auto simp: inv_answer_def Let_def Start_begin_def emptyResult_def split: if_splits)
next
  case (start_bind n phys outbound bound p)
  then obtain a where p: "p = (ng_mgr n)\<lparr>pm_localConn := SockOpen, pm_localAddr := a\<rparr>"
    by (auto simp: Start_listen_def Let_def split: option.splits if_splits)
  then show ?case using start_bind.prems(3) by (simp add: inv_answer_def Let_def chan_def)
next
  case (start_end n)
  have "ng_timer n = TimerNone" using pc_facts(1) [OF start_end.prems(1)] start_end.hyps by auto
  then show ?case using start_end.prems(3) by (clarsimp simp: inv_answer_def Let_def chan_def)
next
  case (conn_deliver n t d p)
  note f = pc_facts [OF conn_deliver.prems(1)] count_facts [OF conn_deliver.prems(2)]
  have none: "tunnels (chan n) = 0" "tunnels (ng_taken n) = 0" using f(9) conn_deliver.hyps(1) by auto
  have few: "length (chan n) < 2" using length_results [of "chan n"] none f(11) by simp
  from conn_deliver.hyps(3) show ?case
  proof (cases rule: deliver_cases)
    case (sent ch)
    then show ?thesis using conn_deliver.hyps(1) conn_deliver.prems(3) none by (auto simp: inv_answer_def Let_def chan_def)
  next
    case kept
    then have "ng_close n \<noteq> CloseNot" using few f(2,4) f(1) conn_deliver.hyps(1) by (auto simp: chan_def)
    then show ?thesis using kept conn_deliver.hyps(1) conn_deliver.prems(3) by (simp add: inv_answer_def Let_def)
  qed
next
  case (conn_load n addr)
  then show ?case using count_facts [OF conn_load.prems(2)] by (auto simp: inv_answer_def Let_def chan_def)
next
  case (conn_discard n t)
  then show ?case by (auto simp: inv_answer_def Let_def chan_def)
next
  case (close_drain n p)
  from close_drain.hyps(2) show ?case
    by (cases rule: drain_cases) (use close_drain.hyps(1) close_drain.prems(3) in \<open>simp_all add: inv_answer_def Let_def chan_def\<close>)
next
  case (close_finish n) then show ?case by (simp add: inv_answer_def Let_def Close_finish_def chan_def)
next
  case (close_signal n)
  then show ?case by (simp add: inv_answer_def Let_def chan_def Close_signal_def stopReceiveLoop_def)
next
  case (consumer_take n r rs) then show ?case by (auto simp: inv_answer_def Let_def chan_def)
next
  case (consumer_close n t) then show ?case by (simp add: inv_answer_def Let_def chan_def)
next
  case (timer_fire n)
  have "pm_mode (ng_mgr n) \<noteq> P2PModeDisabled" using pc_facts(1) [OF timer_fire.prems(1)] timer_fire.hyps by simp
  then show ?case using timer_fire by (auto simp: inv_answer_def Let_def chan_def p2pTimeout_read_def split: P2PMode.splits)
next
  case (timer_store n) then show ?case by (auto simp: inv_answer_def Let_def chan_def p2pTimeout_store_def)
next
  case (timer_send n r p)
  from timer_send.hyps(2) obtain ch where "pm_resultCh (ng_mgr n) = Some ch" "p = (ng_mgr n)\<lparr>pm_resultCh := Some (ch @ [r])\<rparr>"
    unfolding trySend_Some by blast
  moreover have "res_Tunnel r = None" using pc_facts(6) [OF timer_send.prems(1)] timer_send.hyps(1) by auto
  moreover have "plain (chan n) + plain (ng_taken n) = 0"
    using timer_send.prems(2) pc_facts(1) [OF timer_send.prems(1)] timer_send.hyps(1) by (auto simp: inv_count_def Let_def split: if_splits)
  ultimately show ?case using timer_send.hyps(1) timer_send.prems(3) by (auto simp: inv_answer_def Let_def chan_def)
next
  case (timer_stop n) then show ?case by (auto simp: inv_answer_def Let_def chan_def)
next
  case (retry n elapsed p out) then show ?case by (auto simp: inv_answer_def Let_def chan_def backgroundRetry_round_def)
next
  case (recv_first n got timedOut addr p)
  then show ?case using pc_facts(3) [OF recv_first.prems(1)]
    by (auto simp: inv_answer_def Let_def chan_def onP2PConnected_enter_def split: if_splits)
next
  case (extra_first n got addr p)
  then show ?case using pc_facts(3) [OF extra_first.prems(1)]
    by (auto simp: inv_answer_def Let_def chan_def onP2PConnected_enter_def split: if_splits)
next
  case (conn_build n addr now p t)
  then show ?case by (auto simp: inv_answer_def Let_def chan_def onP2PConnected_build_def stopReceiveLoop_def)
qed ((clarsimp simp: inv_answer_def Let_def chan_def HandlePeerAddrReady_def; auto?)+)

end
