(* ===== verification/P2P_Props.thy ===== *)
theory P2P_Props
  imports P2P_Handover
begin

text \<open>
  Properties of direct connections (\<^verbatim>\<open>internal/p2p/manager.go\<close>): who can make the manager connect, who owns its
  socket in every interleaving of its goroutines, that a negotiation always answers, and a run in which the socket
  is never closed.
\<close>

section \<open>All four invariants\<close>

definition hand_inv :: "negotiation \<Rightarrow> bool" where
  "hand_inv n \<longleftrightarrow> inv_pc n \<and> inv_count n \<and> inv_sock n \<and> inv_answer n"

lemma hand_inv_init: "hand_inv (new_negotiation (configured mode stunServer bindIP code servers relay))"
  by (simp add: hand_inv_def inv_pc_def inv_count_def inv_sock_def inv_answer_def new_negotiation_def configured_def
      SetRelayConn_def SetSTUNCandidates_def SetAuthCode_def NewP2PManager_def chan_def Let_def)

lemma hand_inv_step: "nstep pc dec n n' \<Longrightarrow> hand_inv n \<Longrightarrow> hand_inv n'"
  using inv_pc_step inv_count_step inv_sock_step inv_answer_step unfolding hand_inv_def by blast

lemma hand_inv_reach:
  assumes "nreach pc dec (configured mode stunServer bindIP code servers relay) n"
  shows "hand_inv n"
  using assms unfolding nreach_def
  by (induction rule: rtranclp_induct) (auto intro: hand_inv_init hand_inv_step)

lemma few_results: "hand_inv n \<Longrightarrow> length (chan n) \<le> 2"
  using length_results [of "chan n"] count_facts(2,5) [of n] by (simp add: hand_inv_def)

section \<open>A run\<close>

text \<open>
  The time-out reads that there is no connection, then a packet is accepted, the fallback is sent and taken, and the
  tunnel is delivered behind it.
\<close>

definition sample_pc :: punch_crypto where
  "sample_pc = \<lparr>pc_hkdf = \<lambda>code info. code @ bytes_of_string info, pc_hmac = \<lambda>key t. key @ t, pc_b64 = \<lambda>_. ''m''\<rparr>"

definition punch_dec :: "bytes \<Rightarrow> P2PTestPacket option" where
  "punch_dec data = Some \<lparr>pkt_SessionID = ''s'', pkt_Random = ''r'', pkt_MAC = ''m''\<rparr>"

definition sample_addr :: UDPAddr where "sample_addr = \<lparr>udp_IP = [10, 0, 0, 7], udp_Port = 4000\<rparr>"

definition sample_mgr :: P2PManager where
  "sample_mgr = configured P2PModeAuto [] [] ''CODE'' [] False"

definition running :: negotiation where
  "running = (new_negotiation sample_mgr)\<lparr>ng_mgr := sample_mgr\<lparr>pm_sessionID := ''s'', pm_resultCh := Some [],
      pm_localConn := SockOpen, pm_localAddr := Some \<lparr>udp_IP = [10, 0, 0, 1], udp_Port = 5000\<rparr>\<rparr>,
      ng_start := StartDone, ng_recv := RecvTop, ng_timer := TimerWait\<rparr>"

lemmas sample_defs = running_def new_negotiation_def sample_mgr_def configured_def SetRelayConn_def SetSTUNCandidates_def
  SetAuthCode_def NewP2PManager_def

lemma reach_running: "nreach pc dec sample_mgr running"
proof -
  let ?a = "(new_negotiation sample_mgr)\<lparr>ng_mgr := sample_mgr\<lparr>pm_sessionID := ''s'', pm_resultCh := Some []\<rparr>, ng_start := StartBegun\<rparr>"
  let ?b = "?a\<lparr>ng_mgr := (ng_mgr ?a)\<lparr>pm_localConn := SockOpen, pm_localAddr := Some \<lparr>udp_IP = [10, 0, 0, 1], udp_Port = 5000\<rparr>\<rparr>, ng_start := StartBound\<rparr>"
  have "nstep pc dec (new_negotiation sample_mgr) ?a"
    using nstep.start_begin [of "new_negotiation sample_mgr" "''s''" False False "ng_mgr ?a" pc dec] by (simp add: sample_defs Start_begin_def)
  moreover have "nstep pc dec ?a ?b"
    by (rule nstep.start_bind [of _ "Some [10, 0, 0, 1]" None "Some \<lparr>udp_IP = [10, 0, 0, 1], udp_Port = 5000\<rparr>"])
      (simp_all add: sample_defs Start_listen_def Let_def)
  moreover have "nstep pc dec ?b running"
    using nstep.start_end [of ?b pc dec "\<lambda>_. None" "\<lambda>_. []"] by (simp add: sample_defs Start_discover_def)
  ultimately show ?thesis unfolding nreach_def by (meson converse_rtranclp_into_rtranclp rtranclp.rtrancl_refl)
qed

definition late_tunnel :: negotiation where
  "late_tunnel = running\<lparr>ng_mgr := (ng_mgr running)\<lparr>pm_connected := True, pm_backgroundMode := True, pm_recvStopped := True,
      pm_resultCh := Some [\<lparr>res_Tunnel = Some (NewUDPTunnel (UDPAddr_String sample_addr) 0), res_Err = None\<rparr>], pm_tunnelCreated := True\<rparr>,
     ng_recv := RecvGone, ng_conn := ConnDelivered, ng_timer := TimerSent, ng_taken := [emptyResult], ng_held := None\<rparr>"

lemma sample_accepts: "receiveRound sample_pc punch_dec (ng_mgr running) (Some ([], sample_addr)) False = RecvConnect sample_addr"
  by (simp add: receiveRound_def punch_dec_def acceptPunch_def VerifyPunchPacket_def computePunchMAC_def sample_pc_def sample_defs)

lemma reach_late_tunnel: "nreach sample_pc punch_dec sample_mgr late_tunnel"
proof -
  let ?m = "ng_mgr running" and ?S = "nstep sample_pc punch_dec"
  let ?t = "NewUDPTunnel (UDPAddr_String sample_addr) 0"
  define a where "a = running\<lparr>ng_recv := RecvReading\<rparr>"
  define b where "b = a\<lparr>ng_timer := TimerStore\<rparr>"
  define c where "c = b\<lparr>ng_mgr := ?m\<lparr>pm_connected := True\<rparr>, ng_recv := RecvGone, ng_conn := ConnEntered sample_addr\<rparr>"
  define d where "d = c\<lparr>ng_conn := ConnLoaded sample_addr\<rparr>"
  define e where "e = d\<lparr>ng_mgr := (ng_mgr d)\<lparr>pm_backgroundMode := True\<rparr>, ng_timer := TimerSend emptyResult\<rparr>"
  define f where "f = e\<lparr>ng_mgr := (ng_mgr e)\<lparr>pm_resultCh := Some [emptyResult]\<rparr>, ng_timer := TimerSent\<rparr>"
  define g where "g = f\<lparr>ng_mgr := (ng_mgr f)\<lparr>pm_resultCh := Some []\<rparr>, ng_taken := [emptyResult], ng_held := None\<rparr>"
  define h where "h = g\<lparr>ng_mgr := (ng_mgr g)\<lparr>pm_recvStopped := True\<rparr>, ng_conn := ConnDeliver ?t\<rparr>"
  note st = a_def b_def c_def d_def e_def f_def g_def h_def
  have m: "pm_stopped ?m = False" "pm_recvStopped ?m = False" "pm_connected ?m = False" "pm_backgroundMode ?m = False"
    "pm_mode ?m = P2PModeAuto" "pm_resultCh ?m = Some []" "pm_stunAddr ?m = None" "ng_timer running = TimerWait" "ng_recv running = RecvTop"
    "ng_taken running = []" "ng_close running = CloseNot" "ng_held running = None"
    by (simp_all add: sample_defs)
  have "?S running a" using nstep.recv_top [of running sample_pc punch_dec] m by (simp add: a_def)
  moreover have "?S a b" using nstep.timer_fire [of a sample_pc punch_dec] m by (simp add: a_def b_def p2pTimeout_read_def)
  moreover have "?S b c" unfolding c_def
    by (rule nstep.recv_first [of _ _ _ "Some ([], sample_addr)" False])
      (use sample_accepts m in \<open>simp_all add: a_def b_def onP2PConnected_enter_def\<close>)
  moreover have "?S c d" using nstep.conn_load [of c sample_addr sample_pc punch_dec] m by (simp add: c_def d_def)
  moreover have "?S d e" using nstep.timer_store [of d sample_pc punch_dec] by (simp add: st p2pTimeout_store_def)
  moreover have "?S e f" unfolding f_def by (rule nstep.timer_send [of _ emptyResult]) (simp_all add: st m trySend_Some)
  moreover have "?S f g" using nstep.consumer_take [of f emptyResult "[]" sample_pc punch_dec] m by (simp add: st emptyResult_def)
  moreover have "?S g h" unfolding h_def
    by (rule nstep.conn_build [of _ sample_addr 0]) (simp_all add: st m onP2PConnected_build_def stopReceiveLoop_def isRelayAddr_def)
  moreover have "?S h late_tunnel"
  proof -
    have eq: "h\<lparr>ng_mgr := ng_mgr late_tunnel, ng_conn := ConnDelivered\<rparr> = late_tunnel"
      by (rule negotiation.equality) (simp_all add: st late_tunnel_def)
    have "onP2PConnected_deliver ?t (ng_mgr h) = (True, ng_mgr late_tunnel)"
      by (simp add: st m late_tunnel_def onP2PConnected_deliver_def trySend_def resultCap_def)
    with nstep.conn_deliver [of h ?t True "ng_mgr late_tunnel" sample_pc punch_dec] show ?thesis
      using m eq by (simp add: st)
  qed
  ultimately have "?S\<^sup>*\<^sup>* running late_tunnel" by (meson converse_rtranclp_into_rtranclp rtranclp.rtrancl_refl)
  then show ?thesis using reach_running [of sample_pc punch_dec] unfolding nreach_def by (rule rtranclp_trans [rotated])
qed

text \<open>\<open>Close\<close> runs from beginning to end on an empty channel.\<close>

lemma run_close:
  assumes "ng_close n = CloseNot" "pm_resultCh (ng_mgr n) = None \<or> pm_resultCh (ng_mgr n) = Some []"
  shows "(nstep pc dec)\<^sup>*\<^sup>* n (n\<lparr>ng_mgr := Close_finish (Close_signal (ng_mgr n)), ng_close := CloseDone, ng_closedAt := Some (ng_start n)\<rparr>)"
proof -
  let ?a = "n\<lparr>ng_mgr := Close_signal (ng_mgr n), ng_close := CloseSignalled, ng_closedAt := Some (ng_start n)\<rparr>"
  let ?b = "?a\<lparr>ng_close := CloseLocked\<rparr>"
  have "nstep pc dec n ?a" by (rule nstep.close_signal [OF assms(1)])
  moreover have "nstep pc dec ?a ?b" by (rule nstep.close_lock) simp
  moreover have "Close_drain (ng_mgr ?b) = None"
    using assms(2) by (auto simp: drain_None Close_signal_def stopReceiveLoop_def)
  then have "nstep pc dec ?b (?b\<lparr>ng_mgr := Close_finish (ng_mgr ?b), ng_close := CloseDone\<rparr>)" by (intro nstep.close_finish) simp_all
  moreover have "?b\<lparr>ng_mgr := Close_finish (ng_mgr ?b), ng_close := CloseDone\<rparr> =
      n\<lparr>ng_mgr := Close_finish (Close_signal (ng_mgr n)), ng_close := CloseDone, ng_closedAt := Some (ng_start n)\<rparr>" by simp
  ultimately show ?thesis by (metis (no_types, lifting) converse_rtranclp_into_rtranclp rtranclp.rtrancl_refl)
qed

text \<open>The tunnel is taken as well, and the manager is closed under it.\<close>

definition taken_tunnel :: negotiation where
  "taken_tunnel = late_tunnel\<lparr>ng_mgr := (ng_mgr late_tunnel)\<lparr>pm_resultCh := Some []\<rparr>,
     ng_taken := ng_taken late_tunnel @ [\<lparr>res_Tunnel = Some (NewUDPTunnel (UDPAddr_String sample_addr) 0), res_Err = None\<rparr>],
     ng_held := Some (NewUDPTunnel (UDPAddr_String sample_addr) 0)\<rparr>"

lemma reach_closed_under_tunnel:
  "nreach sample_pc punch_dec sample_mgr (taken_tunnel\<lparr>ng_mgr := Close_finish (Close_signal (ng_mgr taken_tunnel)),
     ng_close := CloseDone, ng_closedAt := Some StartDone\<rparr>)"
proof -
  let ?S = "nstep sample_pc punch_dec"
  have "?S late_tunnel taken_tunnel"
    using nstep.consumer_take [of late_tunnel "\<lparr>res_Tunnel = Some (NewUDPTunnel (UDPAddr_String sample_addr) 0), res_Err = None\<rparr>" "[]" sample_pc punch_dec]
    unfolding taken_tunnel_def by (simp add: late_tunnel_def)
  then have "nreach sample_pc punch_dec sample_mgr taken_tunnel"
    using reach_late_tunnel unfolding nreach_def by (rule rtranclp.rtrancl_into_rtrancl [rotated])
  moreover have "ng_close taken_tunnel = CloseNot" "pm_resultCh (ng_mgr taken_tunnel) = Some []" "ng_start taken_tunnel = StartDone"
    by (simp_all add: taken_tunnel_def late_tunnel_def running_def new_negotiation_def)
  ultimately show ?thesis
    unfolding nreach_def using run_close [of taken_tunnel sample_pc punch_dec] by (simp only:) (rule rtranclp_trans, blast+)
qed

section \<open>Ownership of the socket\<close>

text \<open>
  C30. In every interleaving of \<open>Start\<close>, the receive loop, the birthday sockets, \<open>onP2PConnected\<close>, the time-out,
  \<open>Close\<close> and the consumer: while the consumer has an open tunnel its socket is open, whatever \<open>Close\<close> does; and once
  \<open>Close\<close> has returned (called after \<open>Start\<close>), the socket is open exactly when the consumer has an open tunnel.
\<close>

theorem socket_ownership:
  assumes "nreach pc dec (configured mode stunServer bindIP code servers relay) n"
  shows "(ng_held n \<noteq> None \<longrightarrow> pm_localConn (ng_mgr n) = SockOpen) \<and>
    (ng_close n = CloseDone \<and> ng_closedAt n = Some StartDone \<longrightarrow>
       (pm_localConn (ng_mgr n) = SockOpen \<longleftrightarrow> ng_held n \<noteq> None))"
proof -
  note inv = hand_inv_reach [OF assms, unfolded hand_inv_def]
  have held: "pm_localConn (ng_mgr n) = SockOpen" if "ng_held n \<noteq> None"
  proof -
    have c: "ng_conn n = ConnDelivered" using count_facts(4) [of n] inv that by blast
    then have "pm_localConn (ng_mgr n) \<noteq> NoSocket" using pc_facts(1,5) [of n] inv by auto
    moreover have "pm_localConn (ng_mgr n) \<noteq> SockClosed" using inv c that by (auto simp: inv_sock_def Let_def)
    ultimately show ?thesis by (cases "pm_localConn (ng_mgr n)") auto
  qed
  then show ?thesis using inv by (auto simp: inv_sock_def Let_def)
qed

theorem socket_ownership_witness:
  "\<exists>n. nreach sample_pc punch_dec (configured P2PModeAuto [] [] ''CODE'' [] False) n \<and> ng_held n \<noteq> None \<and>
     ng_close n = CloseDone \<and> ng_closedAt n = Some StartDone \<and> pm_localConn (ng_mgr n) = SockOpen"
proof -
  let ?n = "taken_tunnel\<lparr>ng_mgr := Close_finish (Close_signal (ng_mgr taken_tunnel)), ng_close := CloseDone, ng_closedAt := Some StartDone\<rparr>"
  have r: "nreach sample_pc punch_dec (configured P2PModeAuto [] [] ''CODE'' [] False) ?n"
    using reach_closed_under_tunnel by (simp add: sample_mgr_def)
  have "ng_held ?n \<noteq> None" by (simp add: taken_tunnel_def)
  then show ?thesis using r socket_ownership [OF r] by (intro exI [of _ ?n]) simp
qed

section \<open>A negotiation answers\<close>

definition quiescent :: "negotiation \<Rightarrow> bool" where
  "quiescent n = ((case ng_timer n of TimerSent \<Rightarrow> True | TimerQuiet \<Rightarrow> True | TimerStopped \<Rightarrow> True | _ \<Rightarrow> False) \<and>
     (case ng_conn n of ConnEntered _ \<Rightarrow> False | ConnLoaded _ \<Rightarrow> False | ConnDeliver _ \<Rightarrow> False | _ \<Rightarrow> True))"

text \<open>
  C31. The blocking send of the time-out never blocks, and the consumer of a manager that is not closed never waits
  for nothing: once the time-out and \<open>onP2PConnected\<close> have nothing left to do, a result has been put into the channel.
\<close>

theorem negotiation_answers:
  assumes "nreach pc dec (configured mode stunServer bindIP code servers relay) n"
  shows "(\<forall>r. ng_timer n = TimerSend r \<longrightarrow> trySend r (ng_mgr n) \<noteq> None) \<and>
    (quiescent n \<and> ng_close n = CloseNot \<longrightarrow> chan n @ ng_taken n \<noteq> [])"
proof (intro conjI allI impI)
  note inv = hand_inv_reach [OF assms, unfolded hand_inv_def]
  fix r assume t: "ng_timer n = TimerSend r"
  then have run: "pm_mode (ng_mgr n) \<noteq> P2PModeDisabled" "ng_start n = StartDone" using pc_facts(1) [of n] inv by auto
  then obtain ch where ch: "pm_resultCh (ng_mgr n) = Some ch" using pc_facts(2) [of n] inv by auto
  have "plain (chan n) = 0" using inv t run by (auto simp: inv_count_def Let_def)
  then have "length ch < 2" using length_results [of "chan n"] count_facts(2) [of n] inv ch by (simp add: chan_def)
  with ch show "trySend r (ng_mgr n) \<noteq> None" by (simp add: trySend_def resultCap_def)
next
  note inv = hand_inv_reach [OF assms, unfolded hand_inv_def]
  assume "quiescent n \<and> ng_close n = CloseNot"
  then have q: "quiescent n" "ng_close n = CloseNot" by auto
  have a: "inv_answer n" using inv by blast
  consider "ng_timer n = TimerSent" | "ng_conn n = ConnDelivered"
  proof (cases "ng_timer n = TimerSent")
    case False
    then have "ng_timer n = TimerQuiet"
      using q a pc_facts(4) [of n] inv by (auto simp: quiescent_def inv_answer_def Let_def split: timer_pc.splits)
    then have "ng_conn n \<noteq> ConnIdle" "ng_conn n \<noteq> ConnBackground" using a pc_facts(3) [of n] inv by (auto simp: inv_answer_def Let_def)
    then have "ng_conn n = ConnDelivered" using q a by (auto simp: quiescent_def inv_answer_def Let_def split: conn_pc.splits)
    then show thesis using that by blast
  qed
  then show "chan n @ ng_taken n \<noteq> []"
    using a q by cases (auto simp: inv_answer_def Let_def)
qed

theorem negotiation_answers_witness:
  "nreach sample_pc punch_dec (configured P2PModeAuto [] [] ''CODE'' [] False) late_tunnel \<and> quiescent late_tunnel \<and>
   ng_close late_tunnel = CloseNot \<and> chan late_tunnel @ ng_taken late_tunnel \<noteq> []"
proof -
  have r: "nreach sample_pc punch_dec (configured P2PModeAuto [] [] ''CODE'' [] False) late_tunnel"
    using reach_late_tunnel by (simp add: sample_mgr_def)
  moreover have "quiescent late_tunnel" "ng_close late_tunnel = CloseNot"
    by (simp_all add: quiescent_def late_tunnel_def running_def new_negotiation_def)
  ultimately show ?thesis using negotiation_answers [OF r] by blast
qed

section \<open>A socket that is never closed\<close>

text \<open>The state after a \<open>Close\<close> that came before the socket was there.\<close>

definition leaked :: "negotiation \<Rightarrow> bool" where
  "leaked n = (ng_start n = StartDone \<and> ng_close n = CloseDone \<and> pm_stopped (ng_mgr n) \<and> ng_recv n \<in> {RecvTop, RecvGone} \<and>
     \<not> ng_extra n \<and> ng_conn n = ConnIdle \<and> ng_held n = None \<and> tunnels (chan n) = 0 \<and>
     (\<forall>r. ng_timer n = TimerSend r \<longrightarrow> res_Tunnel r = None) \<and> pm_localConn (ng_mgr n) = SockOpen)"

lemma leaked_step: "nstep pc dec n n' \<Longrightarrow> leaked n \<Longrightarrow> leaked n'"
proof (induction rule: nstep.induct)
  case (timer_send n r p)
  then show ?case unfolding trySend_Some by (auto simp: leaked_def chan_def)
next
  case (timer_fire n) then show ?case by (auto simp: leaked_def p2pTimeout_read_def split: P2PMode.splits)
next
  case (consumer_take n r rs) then show ?case by (auto simp: leaked_def chan_def split: if_splits)
next
  case (retry n elapsed p out) then show ?case by (auto simp: leaked_def chan_def backgroundRetry_round_def)
qed ((clarsimp simp: leaked_def chan_def HandlePeerAddrReady_def p2pTimeout_store_def emptyResult_def; auto?)+)

lemma leaked_steps: "(nstep pc dec)\<^sup>*\<^sup>* n n' \<Longrightarrow> leaked n \<Longrightarrow> leaked n'"
  by (induction rule: rtranclp_induct) (auto intro: leaked_step)

text \<open>
  C32. When \<open>Close\<close> is called while \<open>Start\<close> has not made its socket yet, \<open>Start\<close> goes on, and the socket it makes
  then is open in every later state: nobody owns it and a second \<open>Close\<close> does nothing.
\<close>

theorem close_during_start_leaks_socket:
  assumes "mode \<noteq> P2PModeDisabled"
  shows "\<exists>n. nreach pc dec (configured mode stunServer bindIP code servers relay) n \<and>
    ng_close n = CloseDone \<and> ng_start n = StartDone \<and>
    Collect ((nstep pc dec)\<^sup>*\<^sup>* n) \<subseteq> {n'. pm_localConn (ng_mgr n') = SockOpen \<and> ng_held n' = None}"
proof -
  let ?p0 = "configured mode stunServer bindIP code servers relay"
  define p1 where "p1 = ?p0\<lparr>pm_sessionID := ''s'', pm_isShare := False, pm_resultCh := Some []\<rparr>"
  define a where "a = (new_negotiation ?p0)\<lparr>ng_mgr := p1, ng_start := StartBegun\<rparr>"
  define p2 where "p2 = Close_finish (Close_signal p1)"
  define b where "b = a\<lparr>ng_mgr := p2, ng_close := CloseDone, ng_closedAt := Some StartBegun\<rparr>"
  define ad :: UDPAddr where "ad = \<lparr>udp_IP = [10, 0, 0, 1], udp_Port = 5000\<rparr>"
  define p3 where "p3 = the (Start_listen (Some [10, 0, 0, 1]) None (Some ad) p2)"
  define c where "c = b\<lparr>ng_mgr := p3, ng_start := StartBound\<rparr>"
  define d where "d = c\<lparr>ng_mgr := Start_discover (\<lambda>_. None) (\<lambda>_. []) p3, ng_start := StartDone, ng_recv := RecvTop, ng_timer := TimerWait\<rparr>"
  have cfg [simp]: "pm_localConn ?p0 = NoSocket" "pm_resultCh ?p0 = None" "pm_mode ?p0 = mode"
    by (simp_all add: configured_def SetRelayConn_def SetSTUNCandidates_def SetAuthCode_def NewP2PManager_def)
  have 1: "nstep pc dec (new_negotiation ?p0) a"
    using nstep.start_begin [of "new_negotiation ?p0" "''s''" False False p1 pc dec] assms
    by (simp add: a_def new_negotiation_def Start_begin_def p1_def)
  have 2: "(nstep pc dec)\<^sup>*\<^sup>* a b"
    using run_close [of a pc dec] by (simp add: a_def b_def p2_def p1_def new_negotiation_def)
  have p2: "pm_localConn p2 = NoSocket" "pm_resultCh p2 = Some []" "pm_stopped p2"
    by (simp_all add: p2_def p1_def Close_finish_def Close_signal_def stopReceiveLoop_def)
  have "\<exists>q. Start_listen (Some [10, 0, 0, 1]) None (Some ad) p2 = Some q \<and> (\<exists>l. q = p2\<lparr>pm_localConn := SockOpen, pm_localAddr := l\<rparr>)"
    by (auto simp: Start_listen_def Let_def)
  then have p3: "Start_listen (Some [10, 0, 0, 1]) None (Some ad) p2 = Some p3" "pm_localConn p3 = SockOpen" "pm_resultCh p3 = Some []" "pm_stopped p3"
    using p2 by (auto simp: p3_def)
  have 3: "nstep pc dec b c" unfolding c_def
    by (rule nstep.start_bind [where phys = "Some [10, 0, 0, 1]" and outbound = None and bound = "Some ad"]) (simp_all add: b_def a_def p3(1))
  have 4: "nstep pc dec c d"
    using nstep.start_end [of c pc dec "\<lambda>_. None" "\<lambda>_. []"] by (simp add: c_def d_def)
  have reach: "nreach pc dec ?p0 d"
    unfolding nreach_def by (meson 1 2 3 4 converse_rtranclp_into_rtranclp rtranclp.rtrancl_into_rtrancl)
  have l: "leaked d" using p3 by (simp add: leaked_def d_def c_def b_def a_def new_negotiation_def chan_def)
  then have "Collect ((nstep pc dec)\<^sup>*\<^sup>* d) \<subseteq> {n'. pm_localConn (ng_mgr n') = SockOpen \<and> ng_held n' = None}"
    using leaked_steps by (auto simp: leaked_def)
  moreover have "ng_close d = CloseDone" "ng_start d = StartDone" using l by (simp_all add: leaked_def)
  ultimately show ?thesis using reach by blast
qed

theorem close_during_start_leaks_socket_witness:
  "P2PModeAuto \<noteq> P2PModeDisabled \<and> (\<exists>n. nreach sample_pc punch_dec (configured P2PModeAuto [] [] ''CODE'' [] False) n \<and>
    ng_close n = CloseDone \<and> ng_start n = StartDone \<and>
    Collect ((nstep sample_pc punch_dec)\<^sup>*\<^sup>* n) \<subseteq> {n'. pm_localConn (ng_mgr n') = SockOpen \<and> ng_held n' = None})"
  using close_during_start_leaks_socket [of P2PModeAuto] by simp

section \<open>Who can make the manager connect\<close>

text \<open>
  C29. Of the datagrams that arrive at the socket of a manager, one makes it connect only when it carries the session
  of this manager and a random text that the peer, in the other role and holding the same code, has signed for that
  session; the source becomes the address of the tunnel. What
  the manager itself has signed does not count.
\<close>

theorem punch_accepts_only_peer:
  assumes "mac_unforged pc (pm_authCode p) shared helped arrives" "dec data = Some pkt" "pkt \<in> arrives"
    and "length (pkt_SessionID pkt) < 2 ^ 32" "length (pkt_Random pkt) < 2 ^ 32"
    and "\<forall>(s, r) \<in> shared \<union> helped. length s < 2 ^ 32 \<and> length r < 2 ^ 32"
    and "receiveRound pc dec p (Some (data, from)) timedOut = RecvConnect addr"
  shows "addr = from \<and> (pm_sessionID p, pkt_Random pkt) \<in> (if pm_isShare p then helped else shared)"
proof -
  have acc: "acceptPunch pc p pkt" "addr = from" using assms(2,7) by (auto simp: receiveRound_def split: if_splits)
  then have "VerifyPunchPacket pc (pm_authCode p) (\<not> pm_isShare p) pkt" "pkt_SessionID pkt = pm_sessionID p"
    by (auto simp: acceptPunch_def split: if_splits)
  with verified_origin [OF assms(1,3) this(1) assms(4,5,6)] acc(2) show ?thesis by (auto split: if_splits)
qed

theorem punch_accepts_only_peer_witness:
  "let pc = \<lparr>pc_hkdf = \<lambda>_ _. [], pc_hmac = \<lambda>_ t. if t = punch_text ''s'' ''r'' True then [1] else [0],
              pc_b64 = \<lambda>b. if b = [1] then ''m'' else ''n''\<rparr>
   in receiveRound pc punch_dec (ng_mgr running) (Some ([], sample_addr)) False = RecvConnect sample_addr \<and>
      (pm_sessionID (ng_mgr running), ''r'') \<in> (if pm_isShare (ng_mgr running) then {} else {(''s'', ''r'')})"
proof -
  let ?pc = "\<lparr>pc_hkdf = \<lambda>_ _. [], pc_hmac = \<lambda>_ t. if t = punch_text ''s'' ''r'' True then [1] else [0],
              pc_b64 = \<lambda>b. if b = [1] then ''m'' else ''n''\<rparr> :: punch_crypto"
  let ?pkt = "\<lparr>pkt_SessionID = ''s'', pkt_Random = ''r'', pkt_MAC = ''m''\<rparr>"
  have un: "mac_unforged ?pc (pm_authCode (ng_mgr running)) {(''s'', ''r'')} {} {?pkt}"
    by (simp add: mac_unforged_def computePunchMAC_def punchMACLen_def)
  have acc: "receiveRound ?pc punch_dec (ng_mgr running) (Some ([], sample_addr)) False = RecvConnect sample_addr"
    by (simp add: receiveRound_def punch_dec_def acceptPunch_def VerifyPunchPacket_def computePunchMAC_def punchMACLen_def sample_defs)
  show ?thesis
    using punch_accepts_only_peer [OF un, of punch_dec "[]" ?pkt sample_addr False sample_addr] acc
    by (simp add: punch_dec_def Let_def)
qed

end
