(* ===== verification/Stun_Discover.thy ===== *)
theory Stun_Discover
  imports P2P_Manager "HOL-Library.Multiset"
begin

text \<open>
  The discovery of the public address, \<open>RaceDiscover\<close> of \<^verbatim>\<open>internal/p2p/stun_race.go\<close>: all candidates are resolved in
  parallel, asked at once and asked again after fixed delays, on one socket. Resolvers, transaction identifiers, the
  clock and the socket are arguments of each turn of the loop.
\<close>

section \<open>The code\<close>

record RaceOptions =
  ro_Deadline :: int
  ro_Retransmit :: "int list"
  ro_Grace :: int

definition DefaultRaceOptions :: RaceOptions where
  "DefaultRaceOptions = \<lparr>ro_Deadline = 4 * second, ro_Retransmit = [second, 2500 * millisecond], ro_Grace = 300 * millisecond\<rparr>"

record raceTarget =
  rt_server :: string
  rt_index :: nat
  rt_aliases :: "string list"
  rt_addr :: UDPAddr
  rt_tid :: bytes
  rt_sentAt :: int
  rt_resends :: nat
  rt_answered :: bool
  rt_dead :: bool

text \<open>\<open>rc_sent\<close> counts the datagrams handed to the socket.\<close>

record race_state =
  rc_targets :: "raceTarget list"
  rc_pending :: nat
  rc_unresolved :: "string list"
  rc_probes :: "STUNProbe list"
  rc_firstAt :: "int option"
  rc_sent :: nat

definition resolvable :: "string \<Rightarrow> bool" where
  "resolvable s = (case SplitHostPort s of None \<Rightarrow> False | Some (host, port) \<Rightarrow> host \<noteq> [])"

definition startRace :: "string list \<Rightarrow> race_state" where
  "startRace servers =
     \<lparr>rc_targets = [], rc_pending = length (filter resolvable servers), rc_unresolved = filter (\<lambda>s. \<not> resolvable s) servers,
      rc_probes = [], rc_firstAt = None, rc_sent = 0\<rparr>"

text \<open>A resolved candidate: its name, its place in the list, its address; then the identifier drawn for its request, whether the request could be sent, and the time.\<close>

record resolved =
  rs_server :: string
  rs_index :: nat
  rs_addr :: "UDPAddr option"
  rs_tid :: bytes
  rs_sendOK :: bool
  rs_now :: int

definition merge_alias :: "resolved \<Rightarrow> raceTarget \<Rightarrow> raceTarget" where
  "merge_alias r t =
     (if rs_index r < rt_index t
      then t\<lparr>rt_aliases := rt_aliases t @ [rt_server t], rt_server := rs_server r, rt_index := rs_index r\<rparr>
      else t\<lparr>rt_aliases := rt_aliases t @ [rs_server r]\<rparr>)"

text \<open>One turn of the draining loop; nothing is in the channel when no resolver is pending.\<close>

definition takeResolved :: "resolved \<Rightarrow> race_state \<Rightarrow> race_state" where
  "takeResolved r st =
     (if rc_pending st = 0 then st
      else let st1 = st\<lparr>rc_pending := rc_pending st - 1\<rparr>
           in case rs_addr r of
                None \<Rightarrow> st1\<lparr>rc_unresolved := rc_unresolved st1 @ [rs_server r]\<rparr>
              | Some a \<Rightarrow>
                  if list_ex (\<lambda>t. UDPAddr_String (rt_addr t) = UDPAddr_String a) (rc_targets st1)
                  then st1\<lparr>rc_targets := map (\<lambda>t. if UDPAddr_String (rt_addr t) = UDPAddr_String a then merge_alias r t else t) (rc_targets st1)\<rparr>
                  else st1\<lparr>rc_targets := rc_targets st1 @
                         [\<lparr>rt_server = rs_server r, rt_index = rs_index r, rt_aliases = [], rt_addr = a, rt_tid = rs_tid r,
                           rt_sentAt = rs_now r, rt_resends = 0, rt_answered = False, rt_dead = \<not> rs_sendOK r\<rparr>],
                       rc_sent := rc_sent st1 + 1\<rparr>)"

definition raceOver :: "RaceOptions \<Rightarrow> int \<Rightarrow> int \<Rightarrow> race_state \<Rightarrow> bool" where
  "raceOver opts deadline now st =
     (let live = length (filter (\<lambda>t. \<not> rt_answered t \<and> \<not> rt_dead t) (rc_targets st))
      in rc_pending st = 0 \<and> live = 0 \<or> (case rc_firstAt st of None \<Rightarrow> False | Some f \<Rightarrow> now - f \<ge> ro_Grace opts) \<or> now > deadline)"

text \<open>The retransmissions that are due; the read deadline of the socket, after them.\<close>

definition due :: "RaceOptions \<Rightarrow> int \<Rightarrow> raceTarget \<Rightarrow> bool" where
  "due opts now t =
     (\<not> rt_answered t \<and> \<not> rt_dead t \<and> rt_resends t < length (ro_Retransmit opts) \<and> rt_sentAt t + ro_Retransmit opts ! rt_resends t \<le> now)"

definition resend :: "RaceOptions \<Rightarrow> int \<Rightarrow> race_state \<Rightarrow> race_state" where
  "resend opts now st =
     st\<lparr>rc_targets := map (\<lambda>t. if due opts now t then t\<lparr>rt_resends := rt_resends t + 1\<rparr> else t) (rc_targets st),
        rc_sent := rc_sent st + length (filter (due opts now) (rc_targets st))\<rparr>"

definition minTime :: "int \<Rightarrow> int \<Rightarrow> int" where
  "minTime a b = (if b < a then b else a)"

definition wakeAt :: "RaceOptions \<Rightarrow> int \<Rightarrow> int \<Rightarrow> race_state \<Rightarrow> int" where
  "wakeAt opts deadline now st =
     (let w0 = (case rc_firstAt st of None \<Rightarrow> deadline | Some f \<Rightarrow> minTime deadline (f + ro_Grace opts));
          w1 = foldl (\<lambda>w t. if \<not> rt_answered t \<and> \<not> rt_dead t \<and> rt_resends t < length (ro_Retransmit opts)
                            then minTime w (rt_sentAt t + ro_Retransmit opts ! rt_resends t) else w) w0 (rc_targets st)
      in if rc_pending st > 0 then minTime w1 (now + 20 * millisecond) else w1)"

text \<open>The place of the target an answer is for, and the mapped address; \<open>Inl\<close> is a run-time panic.\<close>

definition claimResponse :: "raceTarget list \<Rightarrow> bytes \<Rightarrow> stun_error + (nat \<times> UDPAddr) option" where
  "claimResponse targets data =
     (case UnpackSTUN data of
        Inl e \<Rightarrow> Inr None
      | Inr resp \<Rightarrow>
          if st_Type resp \<noteq> STUNBindingResponse then Inr None
          else case List.find (\<lambda>i. \<not> rt_answered (targets ! i) \<and> st_TID resp = rt_tid (targets ! i)) [0..<length targets] of
                 None \<Rightarrow> Inr None
               | Some i \<Rightarrow>
                   (case GetMappedAddress resp of
                      Inl SlicePanic \<Rightarrow> Inl SlicePanic
                    | Inl e \<Rightarrow> Inr None
                    | Inr m \<Rightarrow> Inr (Some (i, \<lparr>udp_IP = ma_IP m, udp_Port = uint (ma_Port m)\<rparr>))))"

definition takeAnswer :: "int \<Rightarrow> int \<Rightarrow> nat \<Rightarrow> UDPAddr \<Rightarrow> race_state \<Rightarrow> race_state" where
  "takeAnswer start now i mapped st =
     (let t = rc_targets st ! i
      in st\<lparr>rc_targets := (rc_targets st)[i := t\<lparr>rt_answered := True\<rparr>],
            rc_firstAt := (case rc_firstAt st of None \<Rightarrow> Some now | Some f \<Rightarrow> Some f),
            rc_probes := rc_probes st @ [\<lparr>pr_Server = rt_server t, pr_ServerIP = IP_String (udp_IP (rt_addr t)), pr_Mapped = mapped, pr_Elapsed = now - start\<rparr>]\<rparr>)"

datatype race_read = RaceData bytes int | RaceTimeout | RaceClosed | RaceOther

datatype race_turn = RaceGo race_state | RaceEnd race_state | RaceErrClosed | RacePanic

record turn_input =
  ti_resolved :: "resolved list"
  ti_now :: int
  ti_read :: race_read

definition raceLoop :: "RaceOptions \<Rightarrow> int \<Rightarrow> turn_input \<Rightarrow> race_state \<Rightarrow> race_turn" where
  "raceLoop opts start inp st =
     (let deadline = start + ro_Deadline opts; st1 = fold takeResolved (ti_resolved inp) st
      in if raceOver opts deadline (ti_now inp) st1 then RaceEnd st1
         else let st2 = resend opts (ti_now inp) st1
              in case ti_read inp of
                   RaceTimeout \<Rightarrow> RaceGo st2
                 | RaceOther \<Rightarrow> RaceGo st2
                 | RaceClosed \<Rightarrow> RaceErrClosed
                 | RaceData data now \<Rightarrow>
                     (case claimResponse (rc_targets st2) data of
                        Inl e \<Rightarrow> RacePanic
                      | Inr None \<Rightarrow> RaceGo st2
                      | Inr (Some (i, mapped)) \<Rightarrow> RaceGo (takeAnswer start now i mapped st2)))"

text \<open>The whole call on the turns it meets; \<open>None\<close> while it goes on. The first value of a result is \<open>ErrSTUNTimeout\<close> or the closed socket.\<close>

datatype race_result = RaceFailed | RaceSocketClosed | RaceCrashed | RaceProbes "STUNProbe list"

definition race_finish :: "race_state \<Rightarrow> race_result" where
  "race_finish st = (if rc_probes st = [] then RaceFailed else RaceProbes (rc_probes st))"

fun RaceDiscover :: "RaceOptions \<Rightarrow> int \<Rightarrow> race_state \<Rightarrow> turn_input list \<Rightarrow> race_state \<times> race_result option" where
  "RaceDiscover opts start st [] = (st, None)"
| "RaceDiscover opts start st (inp # inps) =
     (case raceLoop opts start inp st of
        RaceGo st1 \<Rightarrow> RaceDiscover opts start st1 inps
      | RaceEnd st1 \<Rightarrow> (st1, Some (race_finish st1))
      | RaceErrClosed \<Rightarrow> (st, Some RaceSocketClosed)
      | RacePanic \<Rightarrow> (st, Some RaceCrashed))"

section \<open>Invariant\<close>

definition answered_ips :: "raceTarget list \<Rightarrow> string multiset" where
  "answered_ips ts = mset (map (\<lambda>t. IP_String (udp_IP (rt_addr t))) (filter rt_answered ts))"

definition race_ok :: "RaceOptions \<Rightarrow> nat \<Rightarrow> race_state \<Rightarrow> bool" where
  "race_ok opts n st =
     (distinct (map (UDPAddr_String \<circ> rt_addr) (rc_targets st)) \<and>
      (\<forall>t \<in> set (rc_targets st). rt_resends t \<le> length (ro_Retransmit opts)) \<and>
      rc_sent st = sum_list (map (\<lambda>t. 1 + rt_resends t) (rc_targets st)) \<and>
      length (rc_targets st) + rc_pending st \<le> n \<and>
      mset (map pr_ServerIP (rc_probes st)) = answered_ips (rc_targets st) \<and>
      (rc_firstAt st = None \<longleftrightarrow> rc_probes st = []))"

lemma race_ok_start: "race_ok opts (length servers) (startRace servers)"
  by (simp add: race_ok_def startRace_def answered_ips_def)

lemma merge_alias_keeps [simp]:
  "rt_addr (merge_alias r t) = rt_addr t" "rt_resends (merge_alias r t) = rt_resends t" "rt_answered (merge_alias r t) = rt_answered t"
  by (simp_all add: merge_alias_def)

lemma race_ok_resolved: "race_ok opts n st \<Longrightarrow> race_ok opts n (takeResolved r st)"
proof -
  assume ok: "race_ok opts n st"
  have filt: "map (\<lambda>t. IP_String (udp_IP (rt_addr t))) (filter rt_answered (map (\<lambda>t. if P t then merge_alias r t else t) ts)) =
      map (\<lambda>t. IP_String (udp_IP (rt_addr t))) (filter rt_answered ts)" for P ts
    by (induction ts) auto
  have cong: "map (\<lambda>t. UDPAddr_String (rt_addr (if P t then merge_alias r t else t))) ts = map (\<lambda>t. UDPAddr_String (rt_addr t)) ts"
    "map (\<lambda>t. Suc (rt_resends (if P t then merge_alias r t else t))) ts = map (\<lambda>t. Suc (rt_resends t)) ts" for P ts
    by (simp_all add: if_distrib cong: if_cong)
  show ?thesis
  proof (cases "rc_pending st = 0 \<or> rs_addr r = None")
    case True
    then show ?thesis using ok by (auto simp: takeResolved_def race_ok_def Let_def)
  next
    case False
    then obtain a where a: "rs_addr r = Some a" "rc_pending st \<noteq> 0" by auto
    show ?thesis
    proof (cases "list_ex (\<lambda>t. UDPAddr_String (rt_addr t) = UDPAddr_String a) (rc_targets st)")
      case True
      then show ?thesis
        using ok a filt [of _ "rc_targets st"] by (auto simp: takeResolved_def race_ok_def Let_def answered_ips_def comp_def cong)
    next
      case False
      then show ?thesis
        using ok a by (auto simp: takeResolved_def race_ok_def Let_def answered_ips_def comp_def list_ex_iff)
    qed
  qed
qed

lemma race_ok_fold: "race_ok opts n st \<Longrightarrow> race_ok opts n (fold takeResolved rs st)"
  by (induction rs arbitrary: st) (auto intro: race_ok_resolved)

lemma race_ok_resend: "race_ok opts n st \<Longrightarrow> race_ok opts n (resend opts now st)"
proof -
  assume ok: "race_ok opts n st"
  let ?f = "\<lambda>t. if due opts now t then t\<lparr>rt_resends := rt_resends t + 1\<rparr> else t"
  have sum: "sum_list (map (\<lambda>t. 1 + rt_resends (?f t)) ts) = sum_list (map (\<lambda>t. 1 + rt_resends t) ts) + length (filter (due opts now) ts)" for ts
    by (induction ts) auto
  have filt: "map (\<lambda>t. IP_String (udp_IP (rt_addr t))) (filter rt_answered (map ?f ts)) = map (\<lambda>t. IP_String (udp_IP (rt_addr t))) (filter rt_answered ts)" for ts
    by (induction ts) auto
  have addr: "map (UDPAddr_String \<circ> rt_addr) (map ?f ts) = map (UDPAddr_String \<circ> rt_addr) ts" for ts by (induction ts) auto
  let ?ts = "rc_targets st"
  have t: "rc_targets (resend opts now st) = map ?f ?ts" by (simp add: resend_def)
  have "\<forall>t \<in> set (map ?f ?ts). rt_resends t \<le> length (ro_Retransmit opts)"
    using ok by (auto simp: race_ok_def due_def)
  moreover have "distinct (map (UDPAddr_String \<circ> rt_addr) (map ?f ?ts))" using ok unfolding addr race_ok_def by blast
  moreover have "rc_sent (resend opts now st) = sum_list (map (\<lambda>t. 1 + rt_resends t) (map ?f ?ts))"
    using ok sum [of ?ts] unfolding map_map comp_def by (simp add: race_ok_def resend_def)
  moreover have "answered_ips (map ?f ?ts) = answered_ips ?ts" unfolding answered_ips_def filt ..
  ultimately show ?thesis using ok unfolding race_ok_def t by (simp add: resend_def)
qed

lemma claim_some:
  assumes "claimResponse ts data = Inr (Some (i, m))"
  shows "i < length ts \<and> \<not> rt_answered (ts ! i) \<and> (\<exists>resp. UnpackSTUN data = Inr resp \<and> st_TID resp = rt_tid (ts ! i))"
  using assms by (auto simp: claimResponse_def find_Some_iff split: sum.splits if_splits option.splits stun_error.splits)

lemma race_ok_answer:
  assumes "race_ok opts n st" "i < length (rc_targets st)" "\<not> rt_answered (rc_targets st ! i)"
  shows "race_ok opts n (takeAnswer start now i m st)"
proof -
  let ?ts = "rc_targets st" and ?t = "rc_targets st ! i"
  let ?u = "?ts[i := ?t\<lparr>rt_answered := True\<rparr>]"
  have split: "?ts = take i ?ts @ ?t # drop (Suc i) ?ts" using assms(2) by (simp add: id_take_nth_drop)
  have upd: "?u = take i ?ts @ ?t\<lparr>rt_answered := True\<rparr> # drop (Suc i) ?ts" using assms(2) by (simp add: upd_conv_take_nth_drop)
  have "answered_ips ?u = answered_ips ?ts + {#IP_String (udp_IP (rt_addr ?t))#}"
  proof -
    have "answered_ips ?ts = answered_ips (take i ?ts @ ?t # drop (Suc i) ?ts)" using split by simp
    then show ?thesis using assms(3) unfolding upd by (simp add: answered_ips_def)
  qed
  moreover have "map (UDPAddr_String \<circ> rt_addr) ?u = map (UDPAddr_String \<circ> rt_addr) ?ts" using list_update_id [of "map (UDPAddr_String \<circ> rt_addr) ?ts" i] assms(2) by (simp add: map_update)
  moreover have "map (\<lambda>t. 1 + rt_resends t) ?u = map (\<lambda>t. 1 + rt_resends t) ?ts" using list_update_id [of "map (\<lambda>t. 1 + rt_resends t) ?ts" i] assms(2) by (simp add: map_update)
  moreover have "\<forall>t \<in> set ?u. rt_resends t \<le> length (ro_Retransmit opts)"
    using assms(1,2) set_update_subset_insert [of ?ts i "?t\<lparr>rt_answered := True\<rparr>"] by (auto simp: race_ok_def)
  ultimately show ?thesis using assms(1) by (simp add: race_ok_def takeAnswer_def Let_def split: option.split)
qed

lemma race_ok_loop:
  assumes "race_ok opts n st"
  shows "raceLoop opts start inp st = RaceGo st' \<Longrightarrow> race_ok opts n st'" "raceLoop opts start inp st = RaceEnd st' \<Longrightarrow> race_ok opts n st'"
proof -
  have f: "race_ok opts n (fold takeResolved (ti_resolved inp) st)" using assms by (rule race_ok_fold)
  have r: "race_ok opts n (resend opts (ti_now inp) (fold takeResolved (ti_resolved inp) st))" using f by (rule race_ok_resend)
  show "raceLoop opts start inp st = RaceGo st' \<Longrightarrow> race_ok opts n st'"
    using r claim_some race_ok_answer [OF r]
    by (auto simp: raceLoop_def Let_def split: if_splits race_read.splits sum.splits option.splits)
  show "raceLoop opts start inp st = RaceEnd st' \<Longrightarrow> race_ok opts n st'"
    using f by (auto simp: raceLoop_def Let_def split: if_splits race_read.splits sum.splits option.splits)
qed

lemma race_ok_run: "race_ok opts n st \<Longrightarrow> RaceDiscover opts start st inps = (st', out) \<Longrightarrow> race_ok opts n st'"
proof (induction inps arbitrary: st)
  case (Cons inp inps)
  show ?case
  proof (cases "raceLoop opts start inp st")
    case (RaceGo st1)
    then show ?thesis using Cons.IH [OF race_ok_loop(1) [OF Cons.prems(1) RaceGo]] Cons.prems(2) by simp
  next
    case (RaceEnd st1)
    then show ?thesis using race_ok_loop(2) [OF Cons.prems(1) RaceEnd] Cons.prems(2) by simp
  qed (use Cons.prems in auto)
qed simp

section \<open>Bounds\<close>

lemma minTime_le: "minTime a b \<le> a" "minTime a b \<le> b"
  by (simp_all add: minTime_def)

text \<open>The socket is never read beyond the deadline.\<close>

lemma wakeAt_deadline: "wakeAt opts deadline now st \<le> deadline"
proof -
  have fold: "foldl (\<lambda>w t. if P t then minTime w (g t) else w) w ts \<le> w" for P g w and ts :: "raceTarget list"
  proof (induction ts arbitrary: w)
    case (Cons t ts) then show ?case using order_trans [OF Cons.IH minTime_le(1)] by simp
  qed simp
  have "(case rc_firstAt st of None \<Rightarrow> deadline | Some f \<Rightarrow> minTime deadline (f + ro_Grace opts)) \<le> deadline"
    by (simp add: minTime_le split: option.split)
  then show ?thesis
    unfolding wakeAt_def Let_def using order_trans [OF fold] order_trans [OF minTime_le(1) order_trans [OF fold]] by simp
qed

lemma late_turn_ends: "ti_now inp > start + ro_Deadline opts \<Longrightarrow> \<exists>st'. raceLoop opts start inp st = RaceEnd st'"
  by (simp add: raceLoop_def raceOver_def Let_def)

lemma sent_bound: "\<forall>t \<in> set ts. rt_resends t \<le> k \<Longrightarrow> sum_list (map (\<lambda>t. 1 + rt_resends t) ts) \<le> (1 + k) * length ts"
  by (induction ts) auto

text \<open>
  C37. Whatever the resolvers, the clock and the network do, a discovery with \<open>n\<close> candidates sends at most \<open>n\<close> requests
  and \<open>n\<close> times the retransmissions, asks no address under two names, has at most one answer of each address it asked
  and at most \<open>n\<close> answers, and returns at its first turn after the deadline, beyond which it never waits.
\<close>

theorem race_discover_bounded:
  assumes "RaceDiscover opts start (startRace servers) inps = (st, out)"
  shows "rc_sent st \<le> (1 + length (ro_Retransmit opts)) * length servers \<and>
    distinct (map (UDPAddr_String \<circ> rt_addr) (rc_targets st)) \<and>
    mset (map pr_ServerIP (rc_probes st)) = answered_ips (rc_targets st) \<and> length (rc_probes st) \<le> length servers \<and>
    ((\<exists>inp \<in> set inps. ti_now inp > start + ro_Deadline opts) \<longrightarrow> out \<noteq> None) \<and>
    (\<forall>now st1. wakeAt opts (start + ro_Deadline opts) now st1 \<le> start + ro_Deadline opts)"
proof -
  have ok: "race_ok opts (length servers) st" using race_ok_run [OF race_ok_start assms] .
  have few: "length (rc_targets st) \<le> length servers" using ok by (simp add: race_ok_def)
  have "rc_sent st \<le> (1 + length (ro_Retransmit opts)) * length (rc_targets st)"
    using ok sent_bound [of "rc_targets st" "length (ro_Retransmit opts)"] by (simp add: race_ok_def)
  also have "\<dots> \<le> (1 + length (ro_Retransmit opts)) * length servers" using few by (rule mult_le_mono2)
  finally have sent: "rc_sent st \<le> (1 + length (ro_Retransmit opts)) * length servers" .
  have m: "mset (map pr_ServerIP (rc_probes st)) = answered_ips (rc_targets st)" using ok by (simp add: race_ok_def)
  have "length (rc_probes st) = size (mset (map pr_ServerIP (rc_probes st)))" by simp
  also have "\<dots> \<le> length (rc_targets st)" unfolding m answered_ips_def size_mset length_map by (rule length_filter_le)
  finally have probes: "length (rc_probes st) \<le> length servers" using few by linarith
  have ends: "out \<noteq> None" if "\<exists>inp \<in> set inps. ti_now inp > start + ro_Deadline opts" "RaceDiscover opts start st0 inps = (st, out)" for st0
    using that
  proof (induction inps arbitrary: st0)
    case (Cons inp inps)
    show ?case
    proof (cases "ti_now inp > start + ro_Deadline opts")
      case True then show ?thesis using late_turn_ends [OF True, of st0] Cons.prems(2) by auto
    next
      case False
      then show ?thesis using Cons by (auto split: race_turn.splits)
    qed
  qed simp
  show ?thesis using sent ok m probes ends [OF _ assms] wakeAt_deadline by (auto simp: race_ok_def)
qed

theorem race_discover_bounded_witness:
  "let servers = [''a:1'', ''b:2''];
       inp = \<lparr>ti_resolved = [\<lparr>rs_server = ''a:1'', rs_index = 0, rs_addr = Some \<lparr>udp_IP = [1, 2, 3, 4], udp_Port = 1\<rparr>, rs_tid = replicate 12 9, rs_sendOK = True, rs_now = 0\<rparr>],
              ti_now = 5 * second, ti_read = RaceTimeout\<rparr>;
       st = fst (RaceDiscover DefaultRaceOptions 0 (startRace servers) [inp])
   in rc_sent st \<le> 6 \<and> length (rc_probes st) \<le> 2 \<and> snd (RaceDiscover DefaultRaceOptions 0 (startRace servers) [inp]) \<noteq> None"
proof -
  let ?inp = "\<lparr>ti_resolved = [\<lparr>rs_server = ''a:1'', rs_index = 0, rs_addr = Some \<lparr>udp_IP = [1, 2, 3, 4], udp_Port = 1\<rparr>, rs_tid = replicate 12 9, rs_sendOK = True, rs_now = 0\<rparr>],
              ti_now = 5 * second, ti_read = RaceTimeout\<rparr>"
  let ?run = "RaceDiscover DefaultRaceOptions 0 (startRace [''a:1'', ''b:2'']) [?inp]"
  have "?run = (fst ?run, snd ?run)" by simp
  from race_discover_bounded [OF this] show ?thesis
    unfolding Let_def by (simp add: DefaultRaceOptions_def second_def)
qed

end
