(* ===== verification/Share_P2P.thy ===== *)
theory Share_P2P
  imports Agent Handshake P2P_Manager
begin

text \<open>
  The share side around one relay connection, \<^verbatim>\<open>internal/client/share.go\<close>: the main loop, which reads the relay, and the
  goroutines that try to move a session to a P2P tunnel. They share the fields below under \<open>p2pMu\<close>; a session has a
  number, its epoch, and goroutines carry the epoch they were launched for.

  A manager, its tunnel and the end signal of a session are named by their epoch: a launch makes one manager, and a
  manager delivers at most one tunnel. Terminal output and SSH forwarding are left out, as is the queue of the daemon
  (\<open>Inject\<close>, in the theory \<open>Agent\<close>). The epoch is a natural number; the code has 64 bits.
\<close>

section \<open>The shared state and its operations\<close>

record ShareMode =
  sh_daemon :: "Daemon option"
  p2pMgr :: "nat option"
  p2pTunnel :: "nat option"
  p2pPending :: "string option"
  p2pEpoch :: nat
  p2pDone :: "nat option"
  daemonSess :: Session

definition zero_session :: Session where
  "zero_session = \<lparr>Key = zero_key, Version = []\<rparr>"

text \<open>What is handed to \<open>stopP2PSession\<close>: manager, tunnel, end signal.\<close>

type_synonym stop = "nat option \<times> nat option \<times> nat option"

definition beginP2PSession :: "ShareMode \<Rightarrow> ShareMode \<times> stop" where
  "beginP2PSession s =
     (s\<lparr>p2pEpoch := p2pEpoch s + 1, p2pMgr := None, p2pTunnel := None, p2pPending := None, daemonSess := zero_session,
        p2pDone := Some (p2pEpoch s + 1)\<rparr>, (p2pMgr s, p2pTunnel s, p2pDone s))"

definition endP2PSession :: "ShareMode \<Rightarrow> ShareMode \<times> stop" where
  "endP2PSession s =
     (s\<lparr>p2pEpoch := p2pEpoch s + 1, p2pMgr := None, p2pTunnel := None, p2pDone := None, p2pPending := None\<rparr>,
      (p2pMgr s, p2pTunnel s, p2pDone s))"

definition p2pEpochValid :: "nat \<Rightarrow> ShareMode \<Rightarrow> bool" where
  "p2pEpochValid epoch s = (p2pEpoch s = epoch)"

definition setP2PTunnel :: "nat \<Rightarrow> nat \<Rightarrow> ShareMode \<Rightarrow> ShareMode \<times> bool" where
  "setP2PTunnel epoch tunnel s =
     (if p2pEpoch s \<noteq> epoch then (s, False) else (s\<lparr>p2pTunnel := Some tunnel\<rparr>, True))"

text \<open>The last value is the peer address the manager is given.\<close>

definition attachP2PMgr :: "nat \<Rightarrow> nat \<Rightarrow> ShareMode \<Rightarrow> ShareMode \<times> bool \<times> string option" where
  "attachP2PMgr epoch mgr s =
     (if p2pEpoch s \<noteq> epoch then (s, False, None)
      else (s\<lparr>p2pMgr := Some mgr, p2pPending := None\<rparr>, True, p2pPending s))"

definition deliverPeerAddrReady :: "string \<Rightarrow> ShareMode \<Rightarrow> ShareMode \<times> (nat \<times> string) option" where
  "deliverPeerAddrReady ready s =
     (case p2pMgr s of None \<Rightarrow> (s\<lparr>p2pPending := Some ready\<rparr>, None) | Some m \<Rightarrow> (s, Some (m, ready)))"

text \<open>The result tells whether the epoch was current; the relay connection is closed only then.\<close>

definition clearP2PAttempt :: "nat \<Rightarrow> ShareMode \<Rightarrow> ShareMode \<times> bool" where
  "clearP2PAttempt epoch s =
     (if p2pEpoch s \<noteq> epoch then (s, False)
      else (s\<lparr>p2pMgr := None, p2pTunnel := None, p2pPending := None\<rparr>, True))"

definition toolModeReady :: "ShareMode \<Rightarrow> bool" where
  "toolModeReady s = Active (daemonSess s)"

definition relay_conn :: string where "relay_conn = ''relay''"
definition tunnel_conn :: "nat \<Rightarrow> string" where "tunnel_conn u = ''p2p '' @ show_nat u"

definition swapDaemonTo :: "string \<Rightarrow> nat \<Rightarrow> ShareMode \<Rightarrow> ShareMode \<times> bool" where
  "swapDaemonTo conn epoch s =
     (case sh_daemon s of
        None \<Rightarrow> (s, False)
      | Some d \<Rightarrow>
          if \<not> Active (daemonSess s) \<or> p2pEpoch s \<noteq> epoch then (s, False)
          else (s\<lparr>sh_daemon := Some (fst (Daemon_SwapConn conn (daemonSess s) d))\<rparr>, True))"

definition swapDaemonToRelay :: "nat \<Rightarrow> ShareMode \<Rightarrow> ShareMode" where
  "swapDaemonToRelay epoch s = fst (swapDaemonTo relay_conn epoch s)"

text \<open>\<open>ensureDaemon\<close> up to \<open>RotateSession\<close>, and its last critical section.\<close>

definition ensureDaemon_rotate :: "Registry \<Rightarrow> Session \<Rightarrow> ShareMode \<Rightarrow> ShareMode" where
  "ensureDaemon_rotate reg sess s =
     (let d = (case sh_daemon s of None \<Rightarrow> NewDaemon reg relay_conn sess | Some d \<Rightarrow> d)
      in s\<lparr>sh_daemon := Some (fst (RotateSession sess d))\<rparr>)"

definition ensureDaemon_set :: "Session \<Rightarrow> ShareMode \<Rightarrow> ShareMode" where
  "ensureDaemon_set sess s = s\<lparr>daemonSess := sess\<rparr>"

section \<open>The handshake on the relay\<close>

text \<open>
  The answer to a Hello and the session it sets up. A version 1 peer is refused when P2P is required; \<open>reason\<close> is the
  text it gets.
\<close>

definition relayHelloAck ::
  "(bytes \<Rightarrow> bytes \<Rightarrow> bytes \<Rightarrow> bytes) \<Rightarrow> (proto_error \<Rightarrow> string) \<Rightarrow> string \<Rightarrow> string \<Rightarrow> P2PMode \<Rightarrow> string \<Rightarrow> string \<Rightarrow> Hello \<Rightarrow>
   HelloAck \<times> Session option" where
  "relayHelloAck kdf render nonce reason mode code minProto hello =
     (case buildHelloAck kdf render nonce hello code minProto of
        (ack, Inl e) \<Rightarrow> (ack, None)
      | (ack, Inr sess) \<Rightarrow>
          if ack_Accept ack \<and> Legacy sess \<and> mode = P2PModeRequired
          then (\<lparr>ack_Version = ack_Version ack, ack_Versions = supportedDownTo minProto, ack_Capabilities = [],
                 ack_NonceB64 = [], ack_Accept = False, ack_ErrorMsg = reason\<rparr>, None)
          else (ack, if ack_Accept ack then Some sess else None))"

text \<open>\<open>refuseP2PForLegacyPeer\<close>: whether the session is ended, and how.\<close>

definition refuseP2PForLegacyPeer :: "P2PMode \<Rightarrow> ShareMode \<Rightarrow> ShareMode \<times> stop" where
  "refuseP2PForLegacyPeer mode s = (if mode = P2PModeDisabled then (s, (None, None, None)) else endP2PSession s)"

datatype launch = LaunchNothing | LaunchRefused | LaunchGoroutine

definition launchP2PUpgrade :: "P2PMode \<Rightarrow> ShareMode \<Rightarrow> launch" where
  "launchP2PUpgrade mode s =
     (if mode = P2PModeDisabled then LaunchNothing
      else if Legacy (daemonSess s) then LaunchRefused else LaunchGoroutine)"

section \<open>The tool channel on a tunnel\<close>

text \<open>
  What \<open>handleToolOverP2P\<close> does with a message: \<open>valid\<close> is the check of the epoch, \<open>active\<close> whether there is a tool
  session. A Hello is taken only when there is none; a request switches the outlet when that has not been done.
\<close>

datatype tunnel_action = TunnelLeave | TunnelPong | TunnelHello | TunnelRequest bool | TunnelSkip

definition tunnelAction :: "string \<Rightarrow> bool \<Rightarrow> bool \<Rightarrow> bool \<Rightarrow> tunnel_action" where
  "tunnelAction msgType valid active swapped =
     (if \<not> valid then TunnelLeave
      else if msgType = ''heartbeat'' then TunnelPong
      else if msgType = ''tool_hello'' then (if active then TunnelSkip else TunnelHello)
      else if msgType = MsgToolReq \<or> msgType = MsgToolCancel then TunnelRequest (\<not> swapped)
      else TunnelSkip)"

section \<open>Interleavings\<close>

datatype main_pc = MIdle | MStop stop "Session option" | MRotate Session | MSet Session | MSwap Session

datatype up_pc = UNone | UStarting | UWaiting | UGot | URunning bool | UHelloRotate Session | UHelloSet Session | UHelloSwap
  | UClosed | UAbandon | UCloseMgr | UCloseBoth | UDone

record world =
  w_share :: ShareMode
  w_main :: main_pc
  w_launch :: "nat option"            \<comment> \<open>the epoch the main loop has still to launch\<close>
  w_up :: "nat \<Rightarrow> up_pc"              \<comment> \<open>the goroutine of an epoch\<close>
  w_closedMgr :: "nat set"
  w_closedTun :: "nat set"
  w_closedDone :: "nat set"
  w_got :: "nat set"                  \<comment> \<open>managers that have delivered their tunnel\<close>
  w_relayClosed :: bool
  w_p2pHello :: bool                  \<comment> \<open>a handshake was made on a tunnel\<close>

definition new_share :: ShareMode where
  "new_share = \<lparr>sh_daemon = None, p2pMgr = None, p2pTunnel = None, p2pPending = None, p2pEpoch = 0, p2pDone = None, daemonSess = zero_session\<rparr>"

definition new_world :: world where
  "new_world = \<lparr>w_share = new_share, w_main = MIdle, w_launch = None, w_up = (\<lambda>_. UNone), w_closedMgr = {}, w_closedTun = {},
     w_closedDone = {}, w_got = {}, w_relayClosed = False, w_p2pHello = False\<rparr>"

definition set_opt :: "'a option \<Rightarrow> 'a set" where
  "set_opt x = (case x of None \<Rightarrow> {} | Some a \<Rightarrow> {a})"

definition stopP2PSession :: "stop \<Rightarrow> world \<Rightarrow> world" where
  "stopP2PSession st w = (case st of (mgr, tunnel, sig) \<Rightarrow>
     w\<lparr>w_closedDone := w_closedDone w \<union> set_opt sig, w_closedTun := w_closedTun w \<union> set_opt tunnel,
       w_closedMgr := w_closedMgr w \<union> set_opt mgr\<rparr>)"

text \<open>
  Steps of the main loop. \<open>mode\<close> and \<open>reg\<close> are the configuration; a Hello that is accepted is given by the session it
  sets up.
\<close>

inductive mstep :: "P2PMode \<Rightarrow> Registry \<Rightarrow> world \<Rightarrow> world \<Rightarrow> bool" for mode :: P2PMode and reg :: Registry where
  m_begin: "w_main w = MIdle \<Longrightarrow> beginP2PSession (w_share w) = (s, st) \<Longrightarrow>
    mstep mode reg w (w\<lparr>w_share := s, w_main := MStop st None, w_launch := Some (p2pEpoch s)\<rparr>)"
| m_end: "w_main w = MIdle \<Longrightarrow> endP2PSession (w_share w) = (s, st) \<Longrightarrow>
    mstep mode reg w (w\<lparr>w_share := s, w_main := MStop st None, w_launch := None\<rparr>)"
| m_stop: "w_main w = MStop st k \<Longrightarrow>
    mstep mode reg w ((stopP2PSession st w)\<lparr>w_main := (case k of None \<Rightarrow> MIdle | Some sess \<Rightarrow> MRotate sess)\<rparr>)"
| m_nolaunch: "w_main w = MIdle \<Longrightarrow> w_launch w = Some u \<Longrightarrow> launchP2PUpgrade mode (w_share w) = LaunchNothing \<Longrightarrow>
    mstep mode reg w (w\<lparr>w_launch := None\<rparr>)"
| m_refuse: "w_main w = MIdle \<Longrightarrow> w_launch w = Some u \<Longrightarrow> launchP2PUpgrade mode (w_share w) = LaunchRefused \<Longrightarrow>
    refuseP2PForLegacyPeer mode (w_share w) = (s, st) \<Longrightarrow>
    mstep mode reg w (w\<lparr>w_share := s, w_main := MStop st None, w_launch := None\<rparr>)"
| m_launch: "w_main w = MIdle \<Longrightarrow> w_launch w = Some u \<Longrightarrow> launchP2PUpgrade mode (w_share w) = LaunchGoroutine \<Longrightarrow>
    mstep mode reg w (w\<lparr>w_launch := None, w_up := (w_up w)(u := UStarting)\<rparr>)"
| m_addr: "w_main w = MIdle \<Longrightarrow> deliverPeerAddrReady ready (w_share w) = (s, out) \<Longrightarrow>
    mstep mode reg w (w\<lparr>w_share := s\<rparr>)"
| m_hello: "w_main w = MIdle \<Longrightarrow> \<not> Legacy sess \<Longrightarrow>
    mstep mode reg w (w\<lparr>w_main := MRotate sess\<rparr>)"
| m_hello_legacy: "w_main w = MIdle \<Longrightarrow> Legacy sess \<Longrightarrow> refuseP2PForLegacyPeer mode (w_share w) = (s, st) \<Longrightarrow>
    mstep mode reg w (w\<lparr>w_share := s, w_main := MStop st (Some sess)\<rparr>)"
| m_rotate: "w_main w = MRotate sess \<Longrightarrow>
    mstep mode reg w (w\<lparr>w_share := ensureDaemon_rotate reg sess (w_share w), w_main := MSet sess\<rparr>)"
| m_set: "w_main w = MSet sess \<Longrightarrow>
    mstep mode reg w (w\<lparr>w_share := ensureDaemon_set sess (w_share w), w_main := MSwap sess\<rparr>)"
| m_swap: "w_main w = MSwap sess \<Longrightarrow>
    mstep mode reg w (w\<lparr>w_share := (w_share w)\<lparr>sh_daemon := map_option (\<lambda>d. fst (Daemon_SwapConn relay_conn sess d)) (sh_daemon (w_share w))\<rparr>,
      w_main := MIdle\<rparr>)"

text \<open>
  Steps of the goroutine of epoch \<open>u\<close>: \<open>launchP2PUpgrade\<close>, \<open>upgradeToP2P\<close> and \<open>handleToolOverP2P\<close>. The check of the epoch after
  each message read from the tunnel (\<open>valid\<close>) can be outdated at the next lock, so it is not tied to the state here.
\<close>

inductive ustep :: "P2PMode \<Rightarrow> Registry \<Rightarrow> nat \<Rightarrow> world \<Rightarrow> world \<Rightarrow> bool" for mode :: P2PMode and reg :: Registry and u :: nat where
  u_fail: "w_up w u = UStarting \<Longrightarrow> clearP2PAttempt u (w_share w) = (s, active) \<Longrightarrow>
    ustep mode reg u w (w\<lparr>w_share := s, w_relayClosed := (w_relayClosed w \<or> active \<and> mode = P2PModeRequired), w_up := (w_up w)(u := UCloseMgr)\<rparr>)"
| u_attach: "w_up w u = UStarting \<Longrightarrow> attachP2PMgr u u (w_share w) = (s, ok, ready) \<Longrightarrow>
    ustep mode reg u w (w\<lparr>w_share := s, w_up := (w_up w)(u := (if ok then UWaiting else UCloseMgr))\<rparr>)"
| u_over: "w_up w u = UWaiting \<Longrightarrow> u \<in> w_closedDone w \<Longrightarrow>
    ustep mode reg u w (w\<lparr>w_up := (w_up w)(u := UCloseMgr)\<rparr>)"
| u_nothing: "w_up w u = UWaiting \<Longrightarrow>
    ustep mode reg u w (w\<lparr>w_up := (w_up w)(u := UAbandon)\<rparr>)"
| u_tunnel: "w_up w u = UWaiting \<Longrightarrow>
    ustep mode reg u w (w\<lparr>w_up := (w_up w)(u := UGot), w_got := insert u (w_got w)\<rparr>)"
| u_set: "w_up w u = UGot \<Longrightarrow> setP2PTunnel u u (w_share w) = (s, True) \<Longrightarrow>
    ustep mode reg u w (w\<lparr>w_share := s, w_up := (w_up w)(u := URunning False)\<rparr>)"
| u_stale: "w_up w u = UGot \<Longrightarrow> setP2PTunnel u u (w_share w) = (s, False) \<Longrightarrow>
    ustep mode reg u w (w\<lparr>w_share := s, w_closedTun := insert u (w_closedTun w), w_up := (w_up w)(u := UDone)\<rparr>)"
| u_badmode: "w_up w u = URunning False \<Longrightarrow> clearP2PAttempt u (w_share w) = (s, active) \<Longrightarrow>
    ustep mode reg u w (w\<lparr>w_share := s, w_relayClosed := (w_relayClosed w \<or> active \<and> mode = P2PModeRequired), w_up := (w_up w)(u := UCloseBoth)\<rparr>)"
| u_request: "w_up w u = URunning False \<Longrightarrow> swapDaemonTo (tunnel_conn u) u (w_share w) = (s, ok) \<Longrightarrow>
    tunnelAction msgType valid active False = TunnelRequest True \<Longrightarrow>
    ustep mode reg u w (w\<lparr>w_share := s, w_up := (w_up w)(u := URunning ok)\<rparr>)"
| u_hello: "w_up w u = URunning b \<Longrightarrow> tunnelAction msgType valid (toolModeReady (w_share w)) b = TunnelHello \<Longrightarrow>
    ustep mode reg u w (w\<lparr>w_up := (w_up w)(u := UHelloRotate sess), w_p2pHello := True\<rparr>)"
| u_hello_rotate: "w_up w u = UHelloRotate sess \<Longrightarrow>
    ustep mode reg u w (w\<lparr>w_share := ensureDaemon_rotate reg sess (w_share w), w_up := (w_up w)(u := UHelloSet sess)\<rparr>)"
| u_hello_set: "w_up w u = UHelloSet sess \<Longrightarrow>
    ustep mode reg u w (w\<lparr>w_share := ensureDaemon_set sess (w_share w), w_up := (w_up w)(u := UHelloSwap)\<rparr>)"
| u_hello_swap: "w_up w u = UHelloSwap \<Longrightarrow> swapDaemonTo (tunnel_conn u) u (w_share w) = (s, ok) \<Longrightarrow>
    ustep mode reg u w (w\<lparr>w_share := s, w_up := (w_up w)(u := URunning ok)\<rparr>)"
| u_closed: "w_up w u = URunning b \<Longrightarrow>
    ustep mode reg u w (w\<lparr>w_closedTun := insert u (w_closedTun w), w_up := (w_up w)(u := UClosed)\<rparr>)"
| u_to_relay: "w_up w u = UClosed \<Longrightarrow>
    ustep mode reg u w (w\<lparr>w_share := swapDaemonToRelay u (w_share w), w_up := (w_up w)(u := UAbandon)\<rparr>)"
| u_ssh_end: "w_up w u = URunning False \<Longrightarrow>
    ustep mode reg u w (w\<lparr>w_closedTun := insert u (w_closedTun w), w_up := (w_up w)(u := UAbandon)\<rparr>)"
| u_abandon: "w_up w u = UAbandon \<Longrightarrow> clearP2PAttempt u (w_share w) = (s, active) \<Longrightarrow>
    ustep mode reg u w (w\<lparr>w_share := s, w_relayClosed := (w_relayClosed w \<or> active \<and> mode = P2PModeRequired), w_up := (w_up w)(u := UCloseMgr)\<rparr>)"
| u_close_mgr: "w_up w u = UCloseMgr \<Longrightarrow>
    ustep mode reg u w (w\<lparr>w_closedMgr := insert u (w_closedMgr w), w_up := (w_up w)(u := UDone)\<rparr>)"
| u_close_both: "w_up w u = UCloseBoth \<Longrightarrow>
    ustep mode reg u w (w\<lparr>w_closedTun := insert u (w_closedTun w), w_closedMgr := insert u (w_closedMgr w), w_up := (w_up w)(u := UDone)\<rparr>)"

definition wstep :: "P2PMode \<Rightarrow> Registry \<Rightarrow> world \<Rightarrow> world \<Rightarrow> bool" where
  "wstep mode reg w w' = (mstep mode reg w w' \<or> (\<exists>u. ustep mode reg u w w'))"

definition wreach :: "P2PMode \<Rightarrow> Registry \<Rightarrow> world \<Rightarrow> bool" where
  "wreach mode reg w = (wstep mode reg)\<^sup>*\<^sup>* new_world w"

end
