(* ===== verification/Share_P2P_Props.thy ===== *)
theory Share_P2P_Props
  imports Share_P2P
begin

text \<open>
  Properties of the share side with its P2P goroutines in every interleaving: what a session leaves behind, which
  session and outlet the daemon has, and a run in which an old goroutine replaces the session of a new one.
\<close>

section \<open>Everything is reclaimed\<close>






lemmas share_defs = beginP2PSession_def endP2PSession_def setP2PTunnel_def attachP2PMgr_def deliverPeerAddrReady_def
  clearP2PAttempt_def refuseP2PForLegacyPeer_def ensureDaemon_rotate_def ensureDaemon_set_def swapDaemonToRelay_def
  stopP2PSession_def set_opt_def

lemma swap_keeps:
  "swapDaemonTo conn u s = (s', ok) \<Longrightarrow> p2pMgr s' = p2pMgr s \<and> p2pTunnel s' = p2pTunnel s \<and> p2pDone s' = p2pDone s \<and>
     p2pEpoch s' = p2pEpoch s \<and> daemonSess s' = daemonSess s"
  by (auto simp: swapDaemonTo_def split: option.splits if_splits)

lemma to_relay_keeps [simp]:
  "p2pMgr (swapDaemonToRelay u s) = p2pMgr s" "p2pTunnel (swapDaemonToRelay u s) = p2pTunnel s"
  "p2pDone (swapDaemonToRelay u s) = p2pDone s" "p2pEpoch (swapDaemonToRelay u s) = p2pEpoch s"
  "daemonSess (swapDaemonToRelay u s) = daemonSess s"
  using swap_keeps [of relay_conn u s] by (metis surj_pair fst_conv swapDaemonToRelay_def)+



text \<open>What a step of the goroutine \<open>u\<close> leaves alone.\<close>

lemma ustep_quiet:
  "ustep mode reg u w w' \<Longrightarrow>
     p2pDone (w_share w') = p2pDone (w_share w) \<and> p2pEpoch (w_share w') = p2pEpoch (w_share w) \<and> w_main w' = w_main w \<and>
     w_launch w' = w_launch w \<and> w_closedDone w' = w_closedDone w \<and> (\<forall>v. v \<noteq> u \<longrightarrow> w_up w' v = w_up w v) \<and>
     w_up w u \<noteq> UNone \<and> w_up w' u \<noteq> UNone \<and>
     w_closedMgr w \<subseteq> w_closedMgr w' \<and> w_closedTun w \<subseteq> w_closedTun w' \<and> w_got w' - {u} = w_got w - {u}"
proof (induction rule: ustep.induct)
  case (u_request w s ok msgType valid active) then show ?case using swap_keeps [OF u_request.hyps(2)] by auto
next
  case (u_hello_swap w s ok) then show ?case using swap_keeps [OF u_hello_swap.hyps(2)] by auto
qed (auto simp: setP2PTunnel_def attachP2PMgr_def clearP2PAttempt_def ensureDaemon_rotate_def ensureDaemon_set_def split: if_splits)










section \<open>The session and the outlet of the daemon\<close>

lemma SwapConn_fields [simp]: "d_conn (fst (Daemon_SwapConn c s d)) = c" "d_sess (fst (Daemon_SwapConn c s d)) = s"
  by (simp_all add: Daemon_SwapConn_def RotateSession_def setSession_def resetReplay_def Let_def)

definition in_step :: "ShareMode \<Rightarrow> bool" where
  "in_step s = (Active (daemonSess s) \<longrightarrow>
     (\<exists>d. sh_daemon s = Some d \<and> d_sess d = daemonSess s \<and>
        (p2pDone s \<noteq> None \<longrightarrow> d_conn d \<in> {relay_conn, tunnel_conn (p2pEpoch s)})))"

definition inv_daemon :: "world \<Rightarrow> bool" where
  "inv_daemon w = (\<not> w_p2pHello w \<longrightarrow>
     (\<forall>u. w_up w u \<noteq> UHelloSwap \<and> (\<forall>sess. w_up w u \<noteq> UHelloRotate sess \<and> w_up w u \<noteq> UHelloSet sess)) \<and>
     (case w_main w of MSet sess \<Rightarrow> sh_daemon (w_share w) \<noteq> None
      | MSwap sess \<Rightarrow> sh_daemon (w_share w) \<noteq> None \<and> daemonSess (w_share w) = sess
      | _ \<Rightarrow> in_step (w_share w)))"

lemma not_Active_zero [simp]: "\<not> Active zero_session"
  by (simp add: Active_def zero_session_def)

lemma in_step_begin: "in_step (fst (beginP2PSession s))"
  by (simp add: in_step_def beginP2PSession_def)

lemma in_step_end: "in_step s \<Longrightarrow> in_step (fst (endP2PSession s))"
  by (auto simp: in_step_def endP2PSession_def)

lemma inv_daemon_m:
  assumes "mstep mode reg w w'" "inv_daemon w"
  shows "inv_daemon w'"
  using assms
proof (induction rule: mstep.induct)
  case (m_begin w s st) then show ?case using in_step_begin [of "w_share w"] by (simp add: inv_daemon_def)
next
  case (m_end w s st) then show ?case using in_step_end [of "w_share w"] by (simp add: inv_daemon_def)
next
  case (m_refuse w u s st)
  then show ?case using in_step_end [of "w_share w"] by (auto simp: inv_daemon_def refuseP2PForLegacyPeer_def split: if_splits)
next
  case (m_hello_legacy w sess s st)
  then show ?case using in_step_end [of "w_share w"] by (auto simp: inv_daemon_def refuseP2PForLegacyPeer_def split: if_splits)
next
  case (m_addr w ready s out)
  then show ?case by (auto simp: inv_daemon_def in_step_def deliverPeerAddrReady_def split: option.splits)
next
  case (m_stop w st k)
  obtain a b c where "st = (a, b, c)" by (rule prod_cases3)
  then show ?case using m_stop by (auto simp: inv_daemon_def stopP2PSession_def split: option.splits)
next
  case (m_swap w sess) then show ?case by (auto simp: inv_daemon_def in_step_def)
qed (simp_all add: inv_daemon_def ensureDaemon_rotate_def ensureDaemon_set_def Let_def)

text \<open>How a step of a goroutine other than a handshake changes the shared state.\<close>

definition share_change :: "nat \<Rightarrow> ShareMode \<Rightarrow> ShareMode \<Rightarrow> bool" where
  "share_change u s s' =
     ((s' = s) \<or> p2pEpoch s = u \<and> p2pEpoch s' = u \<and> p2pDone s' = p2pDone s \<and> daemonSess s' = daemonSess s \<and>
        (sh_daemon s' = sh_daemon s \<or>
         (\<exists>d c. sh_daemon s = Some d \<and> c \<in> {relay_conn, tunnel_conn u} \<and> sh_daemon s' = Some (fst (Daemon_SwapConn c (daemonSess s) d)))))"

lemma swap_change: "swapDaemonTo c u s = (s', ok) \<Longrightarrow> c \<in> {relay_conn, tunnel_conn u} \<Longrightarrow> share_change u s s'"
  by (auto simp: swapDaemonTo_def share_change_def split: option.splits if_splits)

lemma ustep_change:
  assumes "ustep mode reg u w w'" "w_up w u \<noteq> UHelloSwap" "\<forall>sess. w_up w u \<noteq> UHelloRotate sess \<and> w_up w u \<noteq> UHelloSet sess"
  shows "share_change u (w_share w) (w_share w')"
  using assms
proof (induction rule: ustep.induct)
  case (u_request w s ok msgType valid active) then show ?case using swap_change [OF u_request.hyps(2)] by simp
next
  case (u_to_relay w)
  obtain s' ok where "swapDaemonTo relay_conn u (w_share w) = (s', ok)" by fastforce
  then show ?case using swap_change [of relay_conn u "w_share w"] by (simp add: swapDaemonToRelay_def)
qed (auto simp: share_change_def setP2PTunnel_def attachP2PMgr_def clearP2PAttempt_def split: if_splits)

lemma change_in_step: "share_change u s s' \<Longrightarrow> in_step s \<Longrightarrow> in_step s'"
  by (auto simp: share_change_def in_step_def)

lemma inv_daemon_u:
  assumes "ustep mode reg u w w'" "inv_daemon w"
  shows "inv_daemon w'"
proof (cases "w_p2pHello w'")
  case True then show ?thesis by (simp add: inv_daemon_def)
next
  case False
  have h: "\<not> w_p2pHello w" "\<forall>v. v \<noteq> u \<longrightarrow> w_up w' v = w_up w v" "w_main w' = w_main w"
    using assms(1) ustep_quiet [OF assms(1)] False by (auto elim: ustep.cases)
  have n: "w_up w v \<noteq> UHelloSwap \<and> (\<forall>sess. w_up w v \<noteq> UHelloRotate sess \<and> w_up w v \<noteq> UHelloSet sess)" for v
    using assms(2) h(1) by (simp add: inv_daemon_def)
  have c: "share_change u (w_share w) (w_share w')" using ustep_change [OF assms(1)] n by blast
  have "w_up w' u \<noteq> UHelloSwap \<and> (\<forall>sess. w_up w' u \<noteq> UHelloRotate sess \<and> w_up w' u \<noteq> UHelloSet sess)"
    using assms(1) n [of u] False by cases auto
  then have "w_up w' v \<noteq> UHelloSwap \<and> (\<forall>sess. w_up w' v \<noteq> UHelloRotate sess \<and> w_up w' v \<noteq> UHelloSet sess)" for v
    using h(2) n [of v] by (cases "v = u") auto
  moreover have "sh_daemon (w_share w) \<noteq> None \<longrightarrow> sh_daemon (w_share w') \<noteq> None" "daemonSess (w_share w') = daemonSess (w_share w)"
    using c by (auto simp: share_change_def)
  ultimately show ?thesis
    using assms(2) h(1,3) change_in_step [OF c] by (auto simp: inv_daemon_def split: main_pc.splits)
qed

text \<open>
  C34. In every interleaving in which no handshake is made on a tunnel, whenever the main loop is between two messages
  and a tool session is active (from the Hello of a helper until the next helper or the end of the pairing): the daemon has
  the session of the last handshake, and, while the session that \<open>beginP2PSession\<close> began has not been stopped (\<open>p2pDone\<close> is set),
  its answers go to the relay or to the tunnel of this very session. Nothing is said of the time between a new helper and its
  Hello, when the daemon may still hold the closed tunnel of the session before.
\<close>

theorem daemon_follows_handshake:
  assumes "wreach mode reg w" "w_main w = MIdle" "\<not> w_p2pHello w" "Active (daemonSess (w_share w))"
  shows "\<exists>d. sh_daemon (w_share w) = Some d \<and> d_sess d = daemonSess (w_share w) \<and>
    (p2pDone (w_share w) \<noteq> None \<longrightarrow> d_conn d \<in> {relay_conn, tunnel_conn (p2pEpoch (w_share w))})"
proof -
  have "inv_daemon w"
    using assms(1) unfolding wreach_def
  proof (induction rule: rtranclp_induct)
    case base show ?case by (simp add: inv_daemon_def new_world_def new_share_def in_step_def)
  next
    case (step w w') then show ?case unfolding wstep_def using inv_daemon_m inv_daemon_u by blast
  qed
  then show ?thesis using assms(2-4) by (simp add: inv_daemon_def in_step_def)
qed

text \<open>
  A goroutine of an earlier session, the handshake on its tunnel apart, changes nothing that is shared: neither the
  daemon nor the registered manager and tunnel, and it does not close the relay connection of the new session.
\<close>

theorem stale_upgrade_harmless:
  assumes "ustep mode reg u w w'" "u \<noteq> p2pEpoch (w_share w)"
    and "w_up w u \<noteq> UHelloSwap" "\<forall>sess. w_up w u \<noteq> UHelloRotate sess \<and> w_up w u \<noteq> UHelloSet sess"
  shows "w_share w' = w_share w \<and> w_relayClosed w' = w_relayClosed w"
proof
  show "w_share w' = w_share w" using ustep_change [OF assms(1,3,4)] assms(2) by (auto simp: share_change_def)
  show "w_relayClosed w' = w_relayClosed w" using assms(1,2) by cases (auto simp: clearP2PAttempt_def split: if_splits)
qed

section \<open>A handshake on an old tunnel\<close>

lemma reach_m: "wreach mode reg w \<Longrightarrow> mstep mode reg w w' \<Longrightarrow> wreach mode reg w'"
  unfolding wreach_def by (rule rtranclp.rtrancl_into_rtrancl) (auto simp: wstep_def)

lemma reach_u: "wreach mode reg w \<Longrightarrow> ustep mode reg u w w' \<Longrightarrow> wreach mode reg w'"
  unfolding wreach_def by (rule rtranclp.rtrancl_into_rtrancl) (auto simp: wstep_def)

text \<open>The first session with its tunnel, on which a Hello has passed the check.\<close>

definition first_share :: ShareMode where
  "first_share = new_share\<lparr>p2pMgr := Some 1, p2pTunnel := Some 1, p2pEpoch := 1, p2pDone := Some 1\<rparr>"

definition first_world :: world where
  "first_world = new_world\<lparr>w_share := first_share, w_up := (\<lambda>_. UNone)(1 := URunning False), w_got := {1}\<rparr>"

lemma not_Legacy_zero [simp]: "\<not> Legacy zero_session"
  by (simp add: Legacy_def effectiveVersion_def zero_session_def ToolProtocolVersion_def ToolProtocolVersionV1_def ToolProtocolVersionV2_def)

lemma reach_first:
  assumes "mode \<noteq> P2PModeDisabled"
  shows "wreach mode reg first_world"
proof -
  let ?s1 = "new_share\<lparr>p2pEpoch := 1, p2pDone := Some 1\<rparr>"
  let ?a = "new_world\<lparr>w_share := ?s1, w_main := MStop (None, None, None) None, w_launch := Some 1\<rparr>"
  let ?b = "?a\<lparr>w_main := MIdle\<rparr>"
  let ?c = "?b\<lparr>w_launch := None, w_up := (\<lambda>_. UNone)(1 := UStarting)\<rparr>"
  let ?d = "?c\<lparr>w_share := ?s1\<lparr>p2pMgr := Some 1\<rparr>, w_up := (\<lambda>_. UNone)(1 := UWaiting)\<rparr>"
  let ?e = "?d\<lparr>w_up := (\<lambda>_. UNone)(1 := UGot), w_got := {1}\<rparr>"
  have "wreach mode reg new_world" by (simp add: wreach_def)
  then have "wreach mode reg ?a" by (rule reach_m)
      (use mstep.m_begin [of new_world "?s1" "(None, None, None)" mode reg] in \<open>simp add: new_world_def new_share_def beginP2PSession_def\<close>)
  then have "wreach mode reg ?b" by (rule reach_m)
      (use mstep.m_stop [of ?a "(None, None, None)" None mode reg] in \<open>simp add: stopP2PSession_def set_opt_def new_world_def\<close>)
  then have "wreach mode reg ?c" by (rule reach_m)
      (use mstep.m_launch [of ?b 1 mode reg] assms in \<open>simp add: launchP2PUpgrade_def new_world_def new_share_def\<close>)
  then have "wreach mode reg ?d" by (rule reach_u)
      (use ustep.u_attach [of ?c 1 "?s1\<lparr>p2pMgr := Some 1\<rparr>" True None mode reg] in \<open>simp add: attachP2PMgr_def new_world_def new_share_def\<close>)
  then have "wreach mode reg ?e" by (rule reach_u)
      (use ustep.u_tunnel [of ?d 1 mode reg] in \<open>simp add: new_world_def\<close>)
  then show ?thesis by (rule reach_u)
      (use ustep.u_set [of ?e 1 first_share mode reg] in \<open>simp add: setP2PTunnel_def first_world_def first_share_def new_world_def new_share_def\<close>)
qed

text \<open>The second session begins and its handshake on the relay is complete.\<close>

definition second_world :: "Registry \<Rightarrow> Session \<Rightarrow> up_pc \<Rightarrow> bool \<Rightarrow> world" where
  "second_world reg R up hello = new_world\<lparr>
     w_share := new_share\<lparr>p2pEpoch := 2, p2pDone := Some 2, daemonSess := R, sh_daemon := Some (NewDaemon reg relay_conn R)\<rparr>,
     w_launch := Some 2, w_up := (\<lambda>_. UNone)(1 := up), w_closedMgr := {1}, w_closedTun := {1}, w_closedDone := {1}, w_got := {1}, w_p2pHello := hello\<rparr>"

lemma reach_second:
  assumes "wreach mode reg (first_world\<lparr>w_up := (\<lambda>_. UNone)(1 := up), w_p2pHello := hello\<rparr>)" "\<not> Legacy R"
  shows "wreach mode reg (second_world reg R up hello)"
proof -
  let ?w = "first_world\<lparr>w_up := (\<lambda>_. UNone)(1 := up), w_p2pHello := hello\<rparr>"
  let ?s = "new_share\<lparr>p2pEpoch := 2, p2pDone := Some 2\<rparr>"
  let ?a = "?w\<lparr>w_share := ?s, w_main := MStop (Some 1, Some 1, Some 1) None, w_launch := Some 2\<rparr>"
  let ?b = "?a\<lparr>w_main := MIdle, w_closedMgr := {1}, w_closedTun := {1}, w_closedDone := {1}\<rparr>"
  let ?c = "?b\<lparr>w_main := MRotate R\<rparr>"
  let ?d = "?b\<lparr>w_share := ?s\<lparr>sh_daemon := Some (NewDaemon reg relay_conn R)\<rparr>, w_main := MSet R\<rparr>"
  let ?e = "?d\<lparr>w_share := ?s\<lparr>sh_daemon := Some (NewDaemon reg relay_conn R), daemonSess := R\<rparr>, w_main := MSwap R\<rparr>"
  note d = first_world_def first_share_def new_world_def new_share_def
  have rot: "RotateSession R (NewDaemon reg relay_conn R) = (NewDaemon reg relay_conn R, [])"
    "Daemon_SwapConn relay_conn R (NewDaemon reg relay_conn R) = (NewDaemon reg relay_conn R, [])"
    by (simp_all add: Daemon_SwapConn_def RotateSession_def setSession_def NewDaemon_def)
  from assms(1) have "wreach mode reg ?a" by (rule reach_m)
      (use mstep.m_begin [of ?w ?s "(Some 1, Some 1, Some 1)" mode reg] in \<open>simp add: beginP2PSession_def d\<close>)
  then have "wreach mode reg ?b" by (rule reach_m)
      (use mstep.m_stop [of ?a "(Some 1, Some 1, Some 1)" None mode reg] in \<open>simp add: stopP2PSession_def set_opt_def d\<close>)
  then have "wreach mode reg ?c" by (rule reach_m) (use mstep.m_hello [of ?b R mode reg] assms(2) in simp)
  then have "wreach mode reg ?d" by (rule reach_m)
      (use mstep.m_rotate [of ?c R mode reg] rot in \<open>simp add: ensureDaemon_rotate_def d\<close>)
  then have "wreach mode reg ?e" by (rule reach_m)
      (use mstep.m_set [of ?d R mode reg] in \<open>simp add: ensureDaemon_set_def d\<close>)
  then show ?thesis by (rule reach_m)
      (use mstep.m_swap [of ?e R mode reg] rot in \<open>simp add: second_world_def d\<close>)
qed

text \<open>
  C35. A Hello on the tunnel of one session that passed the check before the next session began replaces the session of
  that next session: after the handshake of the new helper is complete and the daemon has its session, the goroutine of
  the old session installs another one, in the daemon and as the session later goroutines use.
\<close>

theorem old_tunnel_hello_replaces_session:
  assumes "mode \<noteq> P2PModeDisabled" "\<not> Legacy R"
  shows "\<exists>w w' d d'. wreach mode reg w \<and> w_main w = MIdle \<and> p2pEpoch (w_share w) = 2 \<and> daemonSess (w_share w) = R \<and>
    sh_daemon (w_share w) = Some d \<and> d_sess d = R \<and> (ustep mode reg 1)\<^sup>*\<^sup>* w w' \<and>
    p2pEpoch (w_share w') = 2 \<and> daemonSess (w_share w') = G \<and> sh_daemon (w_share w') = Some d' \<and> d_sess d' = G"
proof -
  let ?h = "first_world\<lparr>w_up := (\<lambda>_. UNone)(1 := UHelloRotate G), w_p2pHello := True\<rparr>"
  have "ustep mode reg 1 first_world ?h"
    using ustep.u_hello [of first_world 1 False "''tool_hello''" True mode reg G]
    by (simp add: first_world_def first_share_def new_share_def tunnelAction_def toolModeReady_def)
  then have "wreach mode reg ?h" using reach_first [OF assms(1)] reach_u by blast
  then have r: "wreach mode reg (second_world reg R (UHelloRotate G) True)" using assms(2) by (rule reach_second)
  let ?w = "second_world reg R (UHelloRotate G) True"
  let ?w1 = "?w\<lparr>w_share := ensureDaemon_rotate reg G (w_share ?w), w_up := (w_up ?w)(1 := UHelloSet G)\<rparr>"
  let ?w2 = "?w1\<lparr>w_share := ensureDaemon_set G (w_share ?w1), w_up := (w_up ?w1)(1 := UHelloSwap)\<rparr>"
  have "ustep mode reg 1 ?w ?w1" by (rule ustep.u_hello_rotate) (simp add: second_world_def)
  moreover have "ustep mode reg 1 ?w1 ?w2" by (rule ustep.u_hello_set) simp
  ultimately have "(ustep mode reg 1)\<^sup>*\<^sup>* ?w ?w2" by (meson r_into_rtranclp rtranclp.rtrancl_into_rtrancl)
  moreover have "w_main ?w = MIdle" "p2pEpoch (w_share ?w) = 2" "daemonSess (w_share ?w) = R" "sh_daemon (w_share ?w) = Some (NewDaemon reg relay_conn R)"
    "d_sess (NewDaemon reg relay_conn R) = R"
    by (simp_all add: second_world_def new_world_def new_share_def NewDaemon_def)
  moreover have "p2pEpoch (w_share ?w2) = 2" "daemonSess (w_share ?w2) = G"
    "sh_daemon (w_share ?w2) = Some (fst (RotateSession G (NewDaemon reg relay_conn R)))" "d_sess (fst (RotateSession G (NewDaemon reg relay_conn R))) = G"
    by (simp_all add: ensureDaemon_rotate_def ensureDaemon_set_def second_world_def RotateSession_def setSession_def resetReplay_def Let_def)
  ultimately show ?thesis using r by blast
qed

section \<open>Witnesses\<close>

definition demo_session :: "byte \<Rightarrow> Session" where
  "demo_session b = \<lparr>Key = replicate 32 b, Version = ''2''\<rparr>"

lemma demo_session_facts: "b \<noteq> 0 \<Longrightarrow> Active (demo_session b)" "\<not> Legacy (demo_session b)"
  by (simp_all add: demo_session_def Active_def zero_key_def Legacy_def effectiveVersion_def ToolProtocolVersionV1_def)

lemma reach_demo: "wreach P2PModeAuto reg (second_world reg (demo_session 7) (URunning False) False)"
proof (rule reach_second)
  have "first_world\<lparr>w_up := (\<lambda>_. UNone)(1 := URunning False), w_p2pHello := False\<rparr> = first_world"
    by (simp add: first_world_def new_world_def)
  then show "wreach P2PModeAuto reg (first_world\<lparr>w_up := (\<lambda>_. UNone)(1 := URunning False), w_p2pHello := False\<rparr>)"
    using reach_first [of P2PModeAuto reg] by simp
qed (rule demo_session_facts)


theorem daemon_follows_handshake_witness:
  "let w = second_world mempty (demo_session 7) (URunning False) False
   in wreach P2PModeAuto mempty w \<and> (\<exists>d. sh_daemon (w_share w) = Some d \<and> d_sess d = demo_session 7 \<and> d_conn d \<in> {relay_conn, tunnel_conn 2})"
proof -
  let ?w = "second_world mempty (demo_session 7) (URunning False) False"
  have w: "w_main ?w = MIdle" "\<not> w_p2pHello ?w" "daemonSess (w_share ?w) = demo_session 7" "p2pDone (w_share ?w) = Some 2" "p2pEpoch (w_share ?w) = 2"
    by (simp_all add: second_world_def new_world_def)
  then show ?thesis
    using daemon_follows_handshake [OF reach_demo w(1,2)] reach_demo [of mempty] demo_session_facts(1) [of 7] by (simp add: Let_def)
qed

theorem stale_upgrade_harmless_witness:
  "let w = second_world mempty (demo_session 7) UAbandon False; w' = w\<lparr>w_up := (w_up w)(1 := UCloseMgr)\<rparr>
   in ustep P2PModeRequired mempty 1 w w' \<and> w_share w' = w_share w \<and> w_relayClosed w' = w_relayClosed w"
proof -
  let ?w = "second_world mempty (demo_session 7) UAbandon False"
  have u: "ustep P2PModeRequired mempty 1 ?w (?w\<lparr>w_up := (w_up ?w)(1 := UCloseMgr)\<rparr>)"
    using ustep.u_abandon [of ?w 1 "w_share ?w" False P2PModeRequired mempty]
    by (simp add: second_world_def clearP2PAttempt_def new_world_def)
  have "1 \<noteq> p2pEpoch (w_share ?w)" "w_up ?w 1 = UAbandon" by (simp_all add: second_world_def)
  then show ?thesis using stale_upgrade_harmless [OF u] u by (simp add: Let_def)
qed

theorem old_tunnel_hello_replaces_session_witness:
  "\<exists>w w' d d'. wreach P2PModeAuto mempty w \<and> w_main w = MIdle \<and> p2pEpoch (w_share w) = 2 \<and> daemonSess (w_share w) = demo_session 7 \<and>
    sh_daemon (w_share w) = Some d \<and> d_sess d = demo_session 7 \<and> (ustep P2PModeAuto mempty 1)\<^sup>*\<^sup>* w w' \<and>
    p2pEpoch (w_share w') = 2 \<and> daemonSess (w_share w') = demo_session 9 \<and> sh_daemon (w_share w') = Some d' \<and> d_sess d' = demo_session 9"
  using old_tunnel_hello_replaces_session [of P2PModeAuto "demo_session 7" mempty "demo_session 9"] demo_session_facts(2) by simp

end
