(* ===== verification/Tofu.thy ===== *)
theory Tofu
  imports Gostrings Netaddr "HOL-Library.List_Lexorder" "HOL-Library.Char_ord"
begin

text \<open>
  Pinning of the relay's certificate on first use, \<^verbatim>\<open>internal/crypto/tofu.go\<close>, and the relay addresses it is keyed by,
  \<^verbatim>\<open>internal/client/server_addr.go\<close>.

  The table is a text file that is read before and rewritten by every change. A read gives its content, \<open>None\<close> when the
  file does not exist or cannot be read, which the code does not tell apart. SHA-256 is a parameter. Texts are UTF-8 byte strings.
\<close>

section \<open>The table\<close>

text \<open>A nil store has the same effect as one with an empty path.\<close>

record TrustStore =
  ts_Path :: string

definition KnownHostsFileName :: string where
  "KnownHostsFileName = ''.remote_assist_known_hosts''"

text \<open>\<open>join\<close> is \<open>filepath.Join\<close>; \<open>home\<close> is \<open>None\<close> when there is no home directory.\<close>

definition DefaultTrustStore :: "(string \<Rightarrow> string \<Rightarrow> string) \<Rightarrow> string option \<Rightarrow> TrustStore" where
  "DefaultTrustStore join home =
     (case home of None \<Rightarrow> \<lparr>ts_Path = []\<rparr> | Some h \<Rightarrow> \<lparr>ts_Path = join h KnownHostsFileName\<rparr>)"

definition hexEncode :: "bytes \<Rightarrow> string" where
  "hexEncode bs = concat (map (\<lambda>b. [hex_digit (unat b div 16), hex_digit (unat b mod 16)]) bs)"

definition CertFingerprint :: "(bytes \<Rightarrow> bytes) \<Rightarrow> bytes \<Rightarrow> string" where
  "CertFingerprint sha256 der = hexEncode (sha256 der)"

definition read_line :: "string \<Rightarrow> (string, string) gomap \<Rightarrow> (string, string) gomap" where
  "read_line l0 entries =
     (let line = strings_TrimSpace l0
      in if line = [] \<or> HasPrefix line ''#'' then entries
         else case Fields line of [a, v] \<Rightarrow> mput a (ToLower v) entries | _ \<Rightarrow> entries)"

definition readLocked :: "string option \<Rightarrow> (string, string) gomap" where
  "readLocked file = (case file of None \<Rightarrow> mempty | Some data \<Rightarrow> fold read_line (split_on (char_of (10 :: nat)) data) mempty)"

definition Lookup :: "TrustStore \<Rightarrow> string option \<Rightarrow> string \<Rightarrow> string option" where
  "Lookup s file addr = (if ts_Path s = [] then None else mget (readLocked file) addr)"

text \<open>The two lines of comment on top of the file.\<close>

definition known_hosts_header :: "string list" where
  "known_hosts_header =
     [map char_of [35, 32, 114, 101, 109, 111, 116, 101, 45, 97, 115, 115, 105, 115, 116, 32, 229, 183, 178, 228, 191, 161, 228, 187, 187, 231, 154, 132, 32, 114, 101, 108, 97, 121, 32, 232, 175, 129, 228, 185, 166, 230, 140, 135, 231, 186, 185, 239, 188, 136, 84, 79, 70, 85, 239, 188, 137, 227, 128, 130 :: nat],
      map char_of [35, 32, 229, 136, 160, 230, 142, 137, 230, 159, 144, 228, 184, 128, 232, 161, 140, 229, 141, 179, 229, 143, 175, 232, 174, 169, 228, 184, 139, 230, 172, 161, 232, 191, 158, 230, 142, 165, 233, 135, 141, 230, 150, 176, 229, 173, 166, 228, 185, 160, 232, 175, 165, 229, 156, 176, 229, 157, 128, 231, 154, 132, 232, 175, 129, 228, 185, 166, 227, 128, 130 :: nat]]"

definition unlines :: "string list \<Rightarrow> string" where
  "unlines ls = concat (map (\<lambda>l. l @ [char_of (10 :: nat)]) ls)"

definition store_text :: "(string, string) gomap \<Rightarrow> string" where
  "store_text entries =
     unlines (known_hosts_header @
       map (\<lambda>a. a @ '' '' @ (case mget entries a of Some v \<Rightarrow> v | None \<Rightarrow> [])) (sort (mkeys entries)))"

text \<open>\<open>os.WriteFile\<close> truncates the file first: besides success and a refusal that leaves it alone it can stop half-way.\<close>

datatype write_outcome = Written | Refused | Torn nat

fun write_file :: "write_outcome \<Rightarrow> string \<Rightarrow> string option \<Rightarrow> string option \<times> bool" where
  "write_file Written content file = (Some content, True)"
| "write_file Refused content file = (file, False)"
| "write_file (Torn n) content file = (Some (take n content), False)"

text \<open>
  \<open>seen\<close> is what the read at the start of \<open>Put\<close> gave, \<open>file\<close> the file when the new table is written: the mutex
  belongs to the \<open>TrustStore\<close>, and every TLS configuration makes its own (\<^verbatim>\<open>tls.go\<close>), so that other connections may write in
  between. The new content of the file, and whether there was no error.
\<close>

definition Put :: "TrustStore \<Rightarrow> write_outcome \<Rightarrow> string \<Rightarrow> string \<Rightarrow> string option \<Rightarrow> string option \<Rightarrow> string option \<times> bool" where
  "Put s w addr fp seen file =
     (if ts_Path s = [] then (file, True)
      else write_file w (store_text (mput addr fp (readLocked seen))) file)"

datatype PinResult = PinMatched | PinLearned | PinReplaced

datatype pin_error = NoCertificate | NotRecorded | ErrCertChanged

text \<open>The verifier up to its call of \<open>Put\<close>: its result, or the fingerprint to record and what to report then.\<close>

datatype pin_decision = Decided "pin_error + PinResult" | Record string PinResult

definition pinCheck ::
  "(bytes \<Rightarrow> bytes) \<Rightarrow> string \<Rightarrow> TrustStore \<Rightarrow> bool \<Rightarrow> bytes list \<Rightarrow> string option \<Rightarrow> pin_decision" where
  "pinCheck sha256 addr store trustNew rawCerts seen =
     (case rawCerts of
        [] \<Rightarrow> Decided (Inl NoCertificate)
      | cert # _ \<Rightarrow>
          let fp = CertFingerprint sha256 cert
          in case Lookup store seen addr of
               None \<Rightarrow> Record fp PinLearned
             | Some known \<Rightarrow>
                 if known = fp then Decided (Inr PinMatched)
                 else if trustNew then Record fp PinReplaced
                 else Decided (Inl ErrCertChanged))"

definition pinRecord ::
  "string \<Rightarrow> TrustStore \<Rightarrow> write_outcome \<Rightarrow> string \<Rightarrow> PinResult \<Rightarrow> string option \<Rightarrow> string option \<Rightarrow>
   string option \<times> (pin_error + PinResult)" where
  "pinRecord addr store w fp res seen file =
     (case Put store w addr fp seen file of (file', ok) \<Rightarrow> (file', if ok then Inr res else Inl NotRecorded))"

text \<open>The whole verifier, with no other connection meanwhile: its first read gives \<open>seen1\<close>, the one in \<open>Put\<close> \<open>seen2\<close>.\<close>

definition pinVerifier ::
  "(bytes \<Rightarrow> bytes) \<Rightarrow> string \<Rightarrow> TrustStore \<Rightarrow> bool \<Rightarrow> string option \<Rightarrow> string option \<Rightarrow> write_outcome \<Rightarrow> bytes list \<Rightarrow> string option \<Rightarrow>
   string option \<times> (pin_error + PinResult)" where
  "pinVerifier sha256 addr store trustNew seen1 seen2 w rawCerts file =
     (case pinCheck sha256 addr store trustNew rawCerts seen1 of
        Decided r \<Rightarrow> (file, r)
      | Record fp res \<Rightarrow> pinRecord addr store w fp res seen2 file)"

section \<open>Relay addresses\<close>

definition defaultRelayPort :: string where "defaultRelayPort = ''8443''"

definition NormalizeServerAddr :: "string \<Rightarrow> string" where
  "NormalizeServerAddr addr =
     (if addr = [] then addr
      else if SplitHostPort addr \<noteq> None then addr
      else JoinHostPort addr defaultRelayPort)"

datatype addr_error = HasScheme string | HasPath

definition index_sub :: "string \<Rightarrow> string \<Rightarrow> nat option" where
  "index_sub s p = List.find (\<lambda>i. HasPrefix (drop i s) p) [0..<Suc (length s)]"

definition ValidateServerAddr :: "string \<Rightarrow> addr_error option" where
  "ValidateServerAddr addr =
     (case index_sub addr ''://'' of
        Some i \<Rightarrow> Some (HasScheme (take (i + 3) addr))
      | None \<Rightarrow> if list_ex (\<lambda>c. c \<in> set ''/?#'') addr then Some HasPath else None)"

definition ip_lan :: "bytes \<Rightarrow> bool" where
  "ip_lan ip =
     (case (if length ip = 4 then Some ip else if length ip = 16 \<and> take 12 ip = v4InV6Prefix then Some (drop 12 ip) else None) of
        Some b \<Rightarrow> b ! 0 = 10 \<or> b ! 0 = 172 \<and> b ! 1 AND 240 = 16 \<or> b ! 0 = 192 \<and> b ! 1 = 168 \<or> b ! 0 = 127
                  \<or> b ! 0 = 169 \<and> b ! 1 = 254
      | None \<Rightarrow> length ip = 16 \<and> (ip ! 0 AND 254 = 252 \<or> ip = replicate 15 0 @ [1] \<or> ip ! 0 = 254 \<and> ip ! 1 AND 192 = 128))"

definition IsLANServer :: "string \<Rightarrow> bool" where
  "IsLANServer addr =
     (let host = (case SplitHostPort addr of Some (h, p) \<Rightarrow> h | None \<Rightarrow> addr)
      in if host = ''localhost'' then True
         else case ParseIP host of None \<Rightarrow> False | Some ip \<Rightarrow> ip_lan ip)"

end
