(* ===== verification/Tofu_Props.thy ===== *)
theory Tofu_Props
  imports Tofu
begin

text \<open>
  Properties of the pinning of certificates: what is written to the table is read back, and once an address has
  been accepted it is accepted with that certificate only, whatever connections run at the same time. And of relay addresses.
\<close>

section \<open>Reading back what was written\<close>

text \<open>A word of the table: printable ASCII, not a comment.\<close>

definition word_ok :: "string \<Rightarrow> bool" where
  "word_ok w = (w \<noteq> [] \<and> list_all solid w \<and> hd w \<noteq> CHR ''#'')"

definition lower_ok :: "string \<Rightarrow> bool" where
  "lower_ok w = (w \<noteq> [] \<and> list_all is_hex_lower w)"

definition plain_entries :: "(string, string) gomap \<Rightarrow> bool" where
  "plain_entries m = (\<forall>a v. mget m a = Some v \<longrightarrow> word_ok a \<and> lower_ok v)"

lemma plain_empty [simp]: "plain_entries mempty"
  by (simp add: plain_entries_def)

lemma plain_put: "plain_entries m \<Longrightarrow> word_ok a \<Longrightarrow> lower_ok v \<Longrightarrow> plain_entries (mput a v m)"
  by (auto simp: plain_entries_def split: if_splits)

lemma hex_lower_solid: "is_hex_lower c \<Longrightarrow> solid c"
  by (auto simp: is_hex_lower_def is_digit_def solid_def)

lemma solid_not_space: "solid c \<Longrightarrow> \<not> IsSpace (of_char c)"
  by (auto simp: solid_def IsSpace_def)

lemma ToLower_hex: "list_all is_hex_lower v \<Longrightarrow> ToLower v = v"
proof -
  assume v: "list_all is_hex_lower v"
  then have "ascii v" by (auto simp: ascii_def list_all_iff is_hex_lower_def is_digit_def)
  then have "ToLower v = concat (map (\<lambda>c. encode_rune (lower_rune (of_char c))) v)"
    by (simp add: ToLower_def runes_ascii comp_def)
  moreover have "encode_rune (lower_rune (of_char c)) = [c]" if "is_hex_lower c" for c
    using that by (auto simp: is_hex_lower_def is_digit_def lower_rune_def encode_rune_def)
  then have "map (\<lambda>c. encode_rune (lower_rune (of_char c))) v = map (\<lambda>c. [c]) v"
    using v by (auto simp: list_all_iff)
  ultimately show ?thesis by simp
qed

lemma fields_word:
  "list_all solid w \<Longrightarrow> fields_from cur (w @ rest) = fields_from (cur @ w) rest"
proof (induction w arbitrary: cur)
  case (Cons c w)
  then have "decode_rune (map of_char (c # w @ rest)) = (of_char c, 1)" by (simp add: decode_rune_def solid_def)
  then have "fields_from cur (c # w @ rest) = fields_from (cur @ [c]) (w @ rest)"
    using Cons.prems by (subst fields_from.simps) (simp add: solid_not_space)
  then show ?case using Cons by simp
qed simp

lemma Fields_pair:
  assumes "word_ok a" "list_all solid v" "v \<noteq> []"
  shows "Fields (a @ '' '' @ v) = [a, v]"
proof -
  have "Fields (a @ '' '' @ v) = fields_from a ('' '' @ v)"
    using assms(1) fields_word [of a "[]" "'' '' @ v"] by (simp add: Fields_def word_ok_def)
  also have "\<dots> = a # fields_from [] v"
    using assms(1) by (subst fields_from.simps) (simp add: decode_rune_def IsSpace_def word_ok_def)
  also have "fields_from [] v = [v]"
    using fields_word [of v "[]" "[]"] assms by (simp add: fields_from.simps [of v "[]"])
  finally show ?thesis .
qed

lemma read_line_entry:
  assumes "word_ok a" "lower_ok v"
  shows "read_line (a @ '' '' @ v) m = mput a v m"
proof -
  have v: "list_all solid v" "v \<noteq> []" using assms(2) hex_lower_solid by (auto simp: lower_ok_def list_all_iff)
  then have "solid (last (a @ '' '' @ v))" by (simp add: list_all_iff)
  moreover have "solid (hd (a @ '' '' @ v))" "a @ '' '' @ v \<noteq> []" using assms(1) by (auto simp: word_ok_def list_all_iff)
  ultimately have "strings_TrimSpace (a @ '' '' @ v) = a @ '' '' @ v" by (intro TrimSpace_solid)
  moreover have "\<not> HasPrefix (a @ '' '' @ v) ''#''" using assms(1) by (cases a) (auto simp: word_ok_def HasPrefix_def)
  ultimately show ?thesis
    using Fields_pair [OF assms(1) v] assms by (simp add: read_line_def Let_def ToLower_hex lower_ok_def word_ok_def)
qed

text \<open>A line that begins with a number sign is a comment.\<close>

lemma trim_right_keeps_head: "solid x \<Longrightarrow> \<exists>t. trim_right (x # s) = x # t"
proof (induction "length s" arbitrary: s rule: less_induct)
  case less
  show ?case
  proof (cases "find (HasSuffix (x # s)) space_bytes")
    case None
    then show ?thesis by (simp add: trim_right.simps [of "x # s"])
  next
    case (Some e)
    then have e: "e \<in> set space_bytes" "HasSuffix (x # s) e" "e \<noteq> []"
      using space_bytes_nonempty by (auto simp: find_Some_iff)
    have "length e \<le> length s"
    proof (rule ccontr)
      assume "\<not> length e \<le> length s"
      with e have "e = x # s" by (auto simp: HasSuffix_def)
      with e(1) less.prems space_bytes_not_solid show False by fastforce
    qed
    moreover from e(3) have "length e > 0" by simp
    ultimately have "take (length (x # s) - length e) (x # s) = x # take (length s - length e) s"
      by (simp add: Suc_diff_le)
    moreover have "\<exists>t. trim_right (x # take (length s - length e) s) = x # t"
    proof (rule less.hyps)
      show "length (take (length s - length e) s) < length s" 
        unfolding length_take using \<open>length e > 0\<close> \<open>length e \<le> length s\<close> by linarith
    qed (rule less.prems)
    ultimately show ?thesis using Some by (simp add: trim_right.simps [of "x # s"])
  qed
qed

lemma read_line_comment: "read_line (CHR ''#'' # s) m = m"
proof -
  have "solid (CHR ''#'')" by (simp add: solid_def)
  moreover from this obtain t where "trim_right (CHR ''#'' # s) = CHR ''#'' # t" using trim_right_keeps_head by blast
  ultimately have "strings_TrimSpace (CHR ''#'' # s) = CHR ''#'' # t"
    by (simp add: strings_TrimSpace_def trim_left_solid)
  then show ?thesis by (simp add: read_line_def HasPrefix_def)
qed

lemma read_line_empty: "read_line [] m = m"
proof -
  have "find (HasPrefix []) space_bytes = None" "find (HasSuffix []) space_bytes = None"
    using space_bytes_nonempty by (auto simp: find_None_iff HasPrefix_def HasSuffix_def)
  then have "trim_left [] = []" "trim_right [] = []"
    by (simp_all add: trim_left.simps [of "[]"] trim_right.simps [of "[]"])
  then show ?thesis by (simp add: read_line_def strings_TrimSpace_def)
qed

lemma split_line: "d \<notin> set l \<Longrightarrow> split_on d (l @ d # rest) = l # split_on d rest"
  by (induction l) auto

lemma split_unlines: "\<forall>l \<in> set ls. char_of (10 :: nat) \<notin> set l \<Longrightarrow> split_on (char_of (10 :: nat)) (unlines ls) = ls @ [[]]"
  by (induction ls) (auto simp: unlines_def split_line)

lemma header_comments: "l \<in> set known_hosts_header \<Longrightarrow> hd l = CHR ''#'' \<and> l \<noteq> [] \<and> char_of (10 :: nat) \<notin> set l"
proof -
  have "CHR ''#'' = char_of (35 :: nat)" using char_of_char [where ?'a = nat, of "CHR ''#''"] by simp
  moreover assume "l \<in> set known_hosts_header"
  ultimately show ?thesis by (auto simp: known_hosts_header_def)
qed

lemma fold_comments: "\<forall>l \<in> set ls. hd l = CHR ''#'' \<and> l \<noteq> [] \<Longrightarrow> fold read_line ls m = m"
proof (induction ls arbitrary: m)
  case (Cons l ls)
  then obtain s where "l = CHR ''#'' # s" by (cases l) auto
  then show ?case using Cons by (simp add: read_line_comment)
qed simp

lemma fold_entries:
  assumes "distinct ks" "\<forall>a \<in> set ks. word_ok a \<and> (\<exists>v. f a = Some v \<and> lower_ok v)"
  shows "mget (fold read_line (map (\<lambda>a. a @ '' '' @ (case f a of Some v \<Rightarrow> v | None \<Rightarrow> [])) ks) m) =
    (\<lambda>a. if a \<in> set ks then f a else mget m a)"
  using assms
proof (induction ks arbitrary: m)
  case (Cons k ks)
  then obtain v where v: "f k = Some v" "lower_ok v" "word_ok k" by auto
  then have "read_line (k @ '' '' @ (case f k of Some v \<Rightarrow> v | None \<Rightarrow> [])) m = mput k v m" by (simp add: read_line_entry [simplified])
  then show ?case using Cons v by (auto simp: fun_eq_iff)
qed (simp add: fun_eq_iff)

lemma read_store_text: "plain_entries m \<Longrightarrow> mget (readLocked (Some (store_text m))) = mget m"
proof -
  assume m: "plain_entries m"
  let ?f = "\<lambda>a. a @ '' '' @ (case mget m a of Some v \<Rightarrow> v | None \<Rightarrow> [])"
  have ks: "\<forall>a \<in> set (sort (mkeys m)). word_ok a \<and> (\<exists>v. mget m a = Some v \<and> lower_ok v)"
    using m unfolding plain_entries_def by (metis domD mdom_conv set_sort)
  have "\<forall>l \<in> set (known_hosts_header @ map ?f (sort (mkeys m))). char_of (10 :: nat) \<notin> set l"
  proof
    fix l assume "l \<in> set (known_hosts_header @ map ?f (sort (mkeys m)))"
    then consider "l \<in> set known_hosts_header" | a v where "a \<in> set (sort (mkeys m))" "mget m a = Some v" "l = a @ '' '' @ v"
      "word_ok a" "lower_ok v" using ks by auto
    then show "char_of (10 :: nat) \<notin> set l"
    proof cases
      case 1 then show ?thesis using header_comments by blast
    next
      case 2
      have "\<not> solid (char_of (10 :: nat))" by (simp add: solid_def)
      moreover have "char_of (10 :: nat) \<noteq> CHR '' ''"
      proof
        assume "char_of (10 :: nat) = CHR '' ''"
        then have "(of_char (char_of (10 :: nat)) :: nat) = of_char (CHR '' '')" by (rule arg_cong)
        then show False by simp
      qed
      ultimately show ?thesis using 2 hex_lower_solid by (auto simp: word_ok_def lower_ok_def list_all_iff)
    qed
  qed
  then have "readLocked (Some (store_text m)) = fold read_line (map ?f (sort (mkeys m))) mempty"
    using header_comments
    by (simp add: readLocked_def store_text_def split_unlines fold_comments read_line_empty)
  moreover have "mget (fold read_line (map ?f (sort (mkeys m))) mempty) = (\<lambda>a. if a \<in> set (sort (mkeys m)) then mget m a else None)"
    using fold_entries [of "sort (mkeys m)" "mget m" mempty, OF _ ks] by (simp add: fun_eq_iff)
  moreover have "mget m a = None" if "a \<notin> set (mkeys m)" for a using that mdom_conv [of m] by auto
  ultimately show ?thesis by (auto simp: fun_eq_iff)
qed

section \<open>Trust on first use\<close>

text \<open>
  Connections of any number of clients on one table. A connection looks its address up, and if it has to record the
  fingerprint, reads the table again and writes it: three steps, in any interleaving with those of other connections. A
  read may fail, which gives an empty table; a write may be refused or torn. \<open>p_recs\<close> are the connections
  before the second read, \<open>p_puts\<close> those before their write, with what they read; \<open>p_acc\<close> lists the addresses and
  fingerprints accepted.
\<close>

record connect =
  c_addr :: string
  c_trustNew :: bool
  c_certs :: "bytes list"

record pin_state =
  p_file :: "string option"
  p_recs :: "(string \<times> string \<times> PinResult) list"
  p_puts :: "(string \<times> string \<times> PinResult \<times> string option) list"
  p_acc :: "(string \<times> string) list"

datatype pin_event = PLookup connect bool | PRead nat bool | PWrite nat write_outcome

definition file_read :: "bool \<Rightarrow> pin_state \<Rightarrow> string option" where
  "file_read ok p = (if ok then p_file p else None)"

fun pin_step :: "(bytes \<Rightarrow> bytes) \<Rightarrow> TrustStore \<Rightarrow> pin_event \<Rightarrow> pin_state \<Rightarrow> pin_state" where
  "pin_step sha store (PLookup c ok) p =
     (case pinCheck sha (c_addr c) store (c_trustNew c) (c_certs c) (file_read ok p) of
        Decided (Inl e) \<Rightarrow> p
      | Decided (Inr res) \<Rightarrow> p\<lparr>p_acc := p_acc p @ [(c_addr c, CertFingerprint sha (hd (c_certs c)))]\<rparr>
      | Record fp res \<Rightarrow> p\<lparr>p_recs := p_recs p @ [(c_addr c, fp, res)]\<rparr>)"
| "pin_step sha store (PRead i ok) p =
     (if i < length (p_recs p)
      then let (addr, fp, res) = p_recs p ! i
           in p\<lparr>p_recs := take i (p_recs p) @ drop (Suc i) (p_recs p), p_puts := p_puts p @ [(addr, fp, res, file_read ok p)]\<rparr>
      else p)"
| "pin_step sha store (PWrite i w) p =
     (if i < length (p_puts p)
      then let (addr, fp, res, seen) = p_puts p ! i;
               (file, r) = pinRecord addr store w fp res seen (p_file p)
           in p\<lparr>p_file := file, p_puts := take i (p_puts p) @ drop (Suc i) (p_puts p),
                p_acc := p_acc p @ (case r of Inl e \<Rightarrow> [] | Inr ok \<Rightarrow> [(addr, fp)])\<rparr>
      else p)"

definition pin_run :: "(bytes \<Rightarrow> bytes) \<Rightarrow> TrustStore \<Rightarrow> pin_event list \<Rightarrow> string option \<Rightarrow> pin_state" where
  "pin_run sha store evs tbl =
     foldl (\<lambda>p ev. pin_step sha store ev p) \<lparr>p_file = tbl, p_recs = [], p_puts = [], p_acc = []\<rparr> evs"

text \<open>What the pin of \<open>a\<close> rests on: reads succeed, writes are not torn, nobody asks for a new certificate of \<open>a\<close>.\<close>

fun pin_event_ok :: "string \<Rightarrow> pin_event \<Rightarrow> bool" where
  "pin_event_ok a (PLookup c ok) = (ok \<and> word_ok (c_addr c) \<and> (c_addr c = a \<longrightarrow> \<not> c_trustNew c))"
| "pin_event_ok a (PRead i ok) = ok"
| "pin_event_ok a (PWrite i w) = (\<forall>n. w \<noteq> Torn n)"

lemma hexEncode_lower: "list_all is_hex_lower (hexEncode bs)"
proof -
  have "is_hex_lower (hex_digit k)" if "k < 16" for k
    using that by (auto simp: hex_digit_def is_hex_lower_def is_digit_def)
  moreover have "unat (b :: byte) div 16 < 16" "unat (b :: byte) mod 16 < 16" for b
    using unsigned_less [of b, where ?'a = nat] by (auto simp: less_mult_imp_div_less)
  ultimately show ?thesis by (auto simp: hexEncode_def list_all_iff)
qed

lemma fingerprint_lower: "sha der \<noteq> [] \<Longrightarrow> lower_ok (CertFingerprint sha der)"
  using hexEncode_lower by (auto simp: lower_ok_def CertFingerprint_def hexEncode_def)

lemma Put_entries:
  assumes "plain_entries (readLocked seen)" "word_ok addr" "lower_ok fp" "\<forall>n. w \<noteq> Torn n" "ts_Path s \<noteq> []"
    and "Put s w addr fp seen file = (file', ok)"
  shows "mget (readLocked file') = (if ok then (mget (readLocked seen))(addr \<mapsto> fp) else mget (readLocked file))"
proof -
  have "mget (readLocked (Some (store_text (mput addr fp (readLocked seen))))) = mget (mput addr fp (readLocked seen))"
    using assms(1-3) by (intro read_store_text plain_put)
  then show ?thesis using assms(4-6) by (cases w) (auto simp: Put_def)
qed

text \<open>A content of the table in which \<open>a\<close> is pinned to \<open>v\<close>; such contents are kept by recording another address.\<close>

definition pins :: "string \<Rightarrow> string \<Rightarrow> string option \<Rightarrow> bool" where
  "pins a v file \<longleftrightarrow> plain_entries (readLocked file) \<and> mget (readLocked file) a = Some v"

lemma Put_pins:
  assumes "pins a v seen" "pins a v file" "word_ok addr" "lower_ok fp" "\<forall>n. w \<noteq> Torn n" "ts_Path s \<noteq> []" "addr \<noteq> a"
    and "Put s w addr fp seen file = (file', ok)"
  shows "pins a v file'"
  using Put_entries [OF _ assms(3-6,8)] assms(1-4,7) by (auto simp: pins_def plain_entries_def split: if_splits)

definition rec_ok :: "string \<Rightarrow> string \<times> string \<times> PinResult \<Rightarrow> bool" where
  "rec_ok a x = (case x of (addr, fp, res) \<Rightarrow> addr \<noteq> a \<and> word_ok addr \<and> lower_ok fp)"

definition put_ok :: "string \<Rightarrow> string \<Rightarrow> string \<times> string \<times> PinResult \<times> string option \<Rightarrow> bool" where
  "put_ok a v x = (case x of (addr, fp, res, seen) \<Rightarrow> rec_ok a (addr, fp, res) \<and> pins a v seen)"

definition pin_inv :: "string \<Rightarrow> string \<Rightarrow> pin_state \<Rightarrow> bool" where
  "pin_inv a v p \<longleftrightarrow> pins a v (p_file p) \<and>
     list_all (rec_ok a) (p_recs p) \<and> list_all (put_ok a v) (p_puts p) \<and>
     (\<forall>fp. (a, fp) \<in> set (p_acc p) \<longrightarrow> fp = v)"

lemma list_all_without: "list_all P xs \<Longrightarrow> list_all P (take i xs) \<and> list_all P (drop (Suc i) xs)"
  by (auto simp: list_all_iff dest: in_set_takeD in_set_dropD)

lemma pin_step_inv:
  assumes inv: "pin_inv a v p" and ev: "pin_event_ok a ev" and sha: "\<forall>der. sha der \<noteq> []" and path: "ts_Path store \<noteq> []"
  shows "pin_inv a v (pin_step sha store ev p)"
proof (cases ev)
  case (PLookup c ok)
  have "lower_ok (CertFingerprint sha der)" for der using sha by (simp add: fingerprint_lower)
  then show ?thesis using inv ev path PLookup
    by (auto simp: pin_inv_def rec_ok_def pins_def pinCheck_def Lookup_def file_read_def Let_def
          split: list.splits option.splits if_splits)
next
  case (PRead i ok)
  show ?thesis
  proof (cases "i < length (p_recs p)")
    case True
    obtain addr fp res where x: "p_recs p ! i = (addr, fp, res)" by (cases "p_recs p ! i")
    then have "rec_ok a (addr, fp, res)" using inv True by (auto simp: pin_inv_def list_all_length)
    then show ?thesis using inv ev PRead True x by (simp add: pin_inv_def file_read_def put_ok_def list_all_without)
  qed (use inv PRead in auto)
next
  case (PWrite i w)
  show ?thesis
  proof (cases "i < length (p_puts p)")
    case True
    obtain addr fp res seen where x: "p_puts p ! i = (addr, fp, res, seen)" by (cases "p_puts p ! i")
    then have "put_ok a v (addr, fp, res, seen)" using inv True by (auto simp: pin_inv_def list_all_length)
    then have h: "addr \<noteq> a" "word_ok addr" "lower_ok fp" "pins a v seen" "pins a v (p_file p)" using inv by (auto simp: pin_inv_def put_ok_def rec_ok_def)
    obtain tbl ok where put: "Put store w addr fp seen (p_file p) = (tbl, ok)" by fastforce
    have "pins a v tbl" using Put_pins [OF h(4,5,2,3) _ path h(1) put] ev PWrite by simp
    then show ?thesis using inv PWrite True x put h(1) by (auto simp: pin_inv_def pinRecord_def list_all_without)
  qed (use inv PWrite in auto)
qed

lemma pin_run_inv:
  assumes "pins a v tbl" "list_all (pin_event_ok a) evs" "\<forall>der. sha der \<noteq> []" "ts_Path store \<noteq> []"
  shows "pin_inv a v (pin_run sha store evs tbl)"
  using assms(2)
proof (induction evs rule: rev_induct)
  case Nil then show ?case using assms(1) by (simp add: pin_run_def pin_inv_def)
next
  case (snoc ev evs)
  then show ?case using pin_step_inv [OF _ _ assms(3,4)] by (simp add: pin_run_def)
qed

text \<open>A connection that runs alone leaves its certificate pinned when it is accepted.\<close>

lemma accepted_pins:
  assumes "plain_entries (readLocked tbl)" "word_ok a" "\<forall>der. sha der \<noteq> []" "ts_Path store \<noteq> []" "\<forall>n. w \<noteq> Torn n"
    and "pinVerifier sha a store trustNew tbl tbl w certs tbl = (tbl', Inr res)"
  shows "pins a (CertFingerprint sha (hd certs)) tbl'"
proof (cases certs)
  case Nil
  then show ?thesis using assms(6) by (simp add: pinVerifier_def pinCheck_def)
next
  case (Cons cert rest)
  let ?fp = "CertFingerprint sha cert"
  have low: "lower_ok ?fp" using fingerprint_lower assms(3) by blast
  have put: "pins a ?fp f" if "Put store w a ?fp tbl tbl = (f, True)" for f
    using Put_entries [OF assms(1,2) low assms(5,4) that] assms(1,2) low by (auto simp: pins_def plain_entries_def)
  show ?thesis using assms(1,4,6) Cons put
    by (auto simp: pinVerifier_def pinCheck_def pinRecord_def Lookup_def pins_def Let_def split: option.splits if_splits prod.splits)
qed

text \<open>
  C2. A connection to the relay address \<open>a\<close> that runs while no other does and is accepted leaves the fingerprint of its
  certificate in the table, the recorded one if there was one and the user did not ask for a new one. From then on,
  in any interleaving of any number of connections to any addresses, every connection to \<open>a\<close> that is accepted has
  shown a certificate with that fingerprint, and it stays in the table; refused writes, other addresses and
  rewrites of the table with what was read before do not change it. Conditions: the store has a path (without one
  everything is accepted), the table holds lines as the program writes them, addresses are words of printable ASCII
  that do not begin with a number sign, no read of the table fails, no write is torn, and nobody asks for a new certificate of \<open>a\<close>.
\<close>

theorem trust_on_first_use:
  assumes "plain_entries (readLocked tbl)" "word_ok a" "\<forall>der. sha der \<noteq> []" "ts_Path store \<noteq> []" "\<forall>n. w \<noteq> Torn n"
    and "pinVerifier sha a store trustNew tbl tbl w certs tbl = (tbl1, Inr res)"
    and "list_all (pin_event_ok a) evs"
  shows "(\<forall>fp. (a, fp) \<in> set (p_acc (pin_run sha store evs tbl1)) \<longrightarrow> fp = CertFingerprint sha (hd certs)) \<and>
    Lookup store (p_file (pin_run sha store evs tbl1)) a = Some (CertFingerprint sha (hd certs)) \<and>
    (trustNew \<or> Lookup store tbl a \<in> {None, Some (CertFingerprint sha (hd certs))})"
proof -
  have "pin_inv a (CertFingerprint sha (hd certs)) (pin_run sha store evs tbl1)"
    by (rule pin_run_inv [OF accepted_pins [OF assms(1-6)] assms(7,3,4)])
  moreover have "trustNew \<or> Lookup store tbl a \<in> {None, Some (CertFingerprint sha (hd certs))}"
    using assms(6) by (auto simp: pinVerifier_def pinCheck_def Let_def split: list.splits option.splits if_splits)
  ultimately show ?thesis using assms(4) by (simp add: pin_inv_def pins_def Lookup_def)
qed

text \<open>A second relay is learned while a connection that shows another certificate for the first one is refused.\<close>

theorem trust_on_first_use_witness:
  "let sha = (\<lambda>der. 7 # der); store = \<lparr>ts_Path = ''kh''\<rparr>; a = ''relay:8443'';
       tbl = fst (pinVerifier sha a store False None None Written [[1]] None);
       other = \<lparr>c_addr = ''other:8443'', c_trustNew = True, c_certs = [[2]]\<rparr>;
       mitm = \<lparr>c_addr = a, c_trustNew = False, c_certs = [[3]]\<rparr>;
       good = \<lparr>c_addr = a, c_trustNew = False, c_certs = [[1]]\<rparr>;
       p = pin_run sha store [PLookup other True, PLookup mitm True, PRead 0 True, PLookup good True, PWrite 0 Written, PLookup mitm True] tbl
   in set (p_acc p) \<inter> {(a, CertFingerprint sha [3])} = {} \<and> Lookup store (p_file p) a = Some (CertFingerprint sha [1])"
proof -
  let ?sha = "\<lambda>der :: bytes. 7 # der" and ?store = "\<lparr>ts_Path = ''kh''\<rparr>" and ?a = "''relay:8443''"
  let ?tbl = "fst (pinVerifier ?sha ?a ?store False None None Written [[1]] None)"
  have first: "pinVerifier ?sha ?a ?store False None None Written [[1]] None = (?tbl, Inr PinLearned)"
    by (simp add: pinVerifier_def pinCheck_def pinRecord_def Put_def Lookup_def readLocked_def)
  have ne: "CertFingerprint ?sha [3] \<noteq> CertFingerprint ?sha [1]" by code_simp
  show ?thesis unfolding Let_def
    using trust_on_first_use [OF _ _ _ _ _ first, of
        "[PLookup \<lparr>c_addr = ''other:8443'', c_trustNew = True, c_certs = [[2]]\<rparr> True,
          PLookup \<lparr>c_addr = ?a, c_trustNew = False, c_certs = [[3]]\<rparr> True, PRead 0 True,
          PLookup \<lparr>c_addr = ?a, c_trustNew = False, c_certs = [[1]]\<rparr> True, PWrite 0 Written,
          PLookup \<lparr>c_addr = ?a, c_trustNew = False, c_certs = [[3]]\<rparr> True]"] ne
    by (auto simp: readLocked_def word_ok_def solid_def)
qed

section \<open>Relay addresses\<close>

text \<open>An address with a port is left alone, a host alone gets the default port; a bracketed IPv6 host gets a second pair of brackets.\<close>

lemma NormalizeServerAddr_host:
  assumes "h \<noteq> []" "CHR '':'' \<notin> set h" "set h \<inter> {CHR ''['', CHR '']''} = {}"
  shows "NormalizeServerAddr h = h @ '':8443''" "NormalizeServerAddr (h @ '':8443'') = h @ '':8443''"
proof -
  have "SplitHostPort h = None" using assms(2) by (simp add: SplitHostPort_def last_index_byte_def)
  then show "NormalizeServerAddr h = h @ '':8443''" using assms by (simp add: NormalizeServerAddr_def JoinHostPort_def defaultRelayPort_def)
  have "SplitHostPort (h @ '':8443'') = Some (h, ''8443'')" using SplitHostPort_plain [of h "''8443''"] assms by simp
  then show "NormalizeServerAddr (h @ '':8443'') = h @ '':8443''" by (simp add: NormalizeServerAddr_def)
qed

lemma NormalizeServerAddr_bracketed: "NormalizeServerAddr ''[::1]'' = ''[[::1]]:8443''"
  by code_simp

lemma ValidateServerAddr_ok:
  "ValidateServerAddr addr = None \<Longrightarrow> CHR ''/'' \<notin> set addr \<and> CHR ''?'' \<notin> set addr \<and> CHR ''#'' \<notin> set addr"
  by (auto simp: ValidateServerAddr_def list_ex_iff split: option.splits if_splits)

end
