(* ===== verification/Dial.thy ===== *)
theory Dial
  imports Prelude "HOL-Library.Multiset"
begin

text \<open>
  Dialling the relay, \<^verbatim>\<open>internal/client/dial.go\<close>: the choice of the transport and the race between TCP and QUIC. Dialling
  itself is I/O; its results arrive in any order. A connection is a number.
\<close>

section \<open>The code\<close>

definition TransportAuto :: string where "TransportAuto = ''auto''"
definition TransportTCP :: string where "TransportTCP = ''tcp''"
definition TransportQUIC :: string where "TransportQUIC = ''quic''"

definition quicRaceDelay :: int where "quicRaceDelay = 3 * second"

definition ValidTransport :: "string \<Rightarrow> bool" where
  "ValidTransport s = (s \<in> {[], TransportAuto, TransportTCP, TransportQUIC})"

datatype dial_plan = UnknownTransport | QuicNeedsTLS | DialOnly string | DialRace string string

definition planDial :: "string \<Rightarrow> bool \<Rightarrow> string \<Rightarrow> dial_plan" where
  "planDial transport tls preferred =
     (let mode = (if transport = [] then TransportAuto else transport)
      in if \<not> ValidTransport mode then UnknownTransport
         else if \<not> tls \<and> mode = TransportQUIC then QuicNeedsTLS
         else let mode1 = (if \<not> tls then TransportTCP else mode)
              in if mode1 = TransportTCP \<or> mode1 = TransportQUIC then DialOnly mode1
                 else if preferred = TransportQUIC then DialRace TransportQUIC TransportTCP
                 else DialRace TransportTCP TransportQUIC)"

text \<open>
  The race with its goroutines: the dials under way, the channel of results, how many dials the loop has started and
  how many results it has received, what the call has returned (the errors, or a connection with its transport), how many
  results the goroutine that cleans up still waits for, and the connections aborted. \<open>dr_est\<close> records every connection
  that a dial has established.
\<close>

record dial_race =
  dr_first :: string
  dr_second :: string
  dr_dialing :: "string list"
  dr_results :: "(string \<times> (string + nat)) list"
  dr_started :: nat
  dr_received :: nat
  dr_errs :: "(string \<times> string) list"
  dr_out :: "((string \<times> string) list + nat \<times> string) option"
  dr_pending :: nat
  dr_aborted :: "nat list"
  dr_est :: "nat list"

definition start_dial :: "string \<Rightarrow> dial_race \<Rightarrow> dial_race" where
  "start_dial kind d = d\<lparr>dr_dialing := dr_dialing d @ [kind]\<rparr>"

definition begin_race :: "string \<Rightarrow> string \<Rightarrow> dial_race" where
  "begin_race first other =
     start_dial first \<lparr>dr_first = first, dr_second = other, dr_dialing = [], dr_results = [], dr_started = 1, dr_received = 0,
       dr_errs = [], dr_out = None, dr_pending = 0, dr_aborted = [], dr_est = []\<rparr>"

text \<open>A dial ends and sends its result; the channel has room for both.\<close>

definition dial_done :: "string \<Rightarrow> string + nat \<Rightarrow> dial_race \<Rightarrow> dial_race" where
  "dial_done kind r d =
     (if kind \<in> set (dr_dialing d)
      then d\<lparr>dr_dialing := remove1 kind (dr_dialing d), dr_results := dr_results d @ [(kind, r)],
             dr_est := dr_est d @ (case r of Inl e \<Rightarrow> [] | Inr conn \<Rightarrow> [conn])\<rparr>
      else d)"

text \<open>The loop: its timer, and a result.\<close>

definition race_timer :: "dial_race \<Rightarrow> dial_race" where
  "race_timer d =
     (if dr_out d \<noteq> None then d
      else if dr_started d = 1 then (start_dial (dr_second d) d)\<lparr>dr_started := 2\<rparr> else d)"

definition race_turn :: "dial_race \<Rightarrow> dial_race" where
  "race_turn d =
     (if dr_out d \<noteq> None then d
      else case dr_results d of
             [] \<Rightarrow> d
           | (kind, r) # rest \<Rightarrow>
               let d1 = d\<lparr>dr_results := rest, dr_received := dr_received d + 1\<rparr>
               in case r of
                    Inr conn \<Rightarrow> d1\<lparr>dr_pending := dr_started d1 - dr_received d1, dr_out := Some (Inr (conn, kind))\<rparr>
                  | Inl e \<Rightarrow>
                      let d2 = d1\<lparr>dr_errs := dr_errs d1 @ [(kind, e)]\<rparr>
                      in if dr_started d2 = 1 then (start_dial (dr_second d2) d2)\<lparr>dr_started := 2\<rparr>
                         else if dr_received d2 = dr_started d2 then d2\<lparr>dr_out := Some (Inl (dr_errs d2))\<rparr>
                         else d2)"

text \<open>The goroutine that cleans up after a return: as many results as were outstanding then.\<close>

definition reap_turn :: "dial_race \<Rightarrow> dial_race" where
  "reap_turn d =
     (if dr_pending d = 0 then d
      else case dr_results d of
             [] \<Rightarrow> d
           | (kind, r) # rest \<Rightarrow>
               d\<lparr>dr_results := rest, dr_pending := dr_pending d - 1,
                 dr_aborted := dr_aborted d @ (case r of Inl e \<Rightarrow> [] | Inr conn \<Rightarrow> [conn])\<rparr>)"

section \<open>Runs\<close>

datatype dial_event = RaceTimer | DialDone string "string + nat" | RaceTake | Reap

fun race_step :: "dial_event \<Rightarrow> dial_race \<Rightarrow> dial_race" where
  "race_step RaceTimer d = race_timer d"
| "race_step (DialDone kind r) d = dial_done kind r d"
| "race_step RaceTake d = race_turn d"
| "race_step Reap d = reap_turn d"

definition race_run :: "dial_event list \<Rightarrow> dial_race \<Rightarrow> dial_race" where
  "race_run es d = foldl (\<lambda>d e. race_step e d) d es"

definition conns :: "(string \<times> (string + nat)) list \<Rightarrow> nat list" where
  "conns rs = concat (map (\<lambda>(k, r). case r of Inl e \<Rightarrow> [] | Inr c \<Rightarrow> [c]) rs)"

definition out_conns :: "dial_race \<Rightarrow> nat list" where
  "out_conns d = (case dr_out d of Some (Inr (c, k)) \<Rightarrow> [c] | _ \<Rightarrow> [])"

lemma conns_simps [simp]:
  "conns [] = []" "conns ((k, Inl e) # rs) = conns rs" "conns ((k, Inr c) # rs) = c # conns rs" "conns (rs @ rs') = conns rs @ conns rs'"
  by (simp_all add: conns_def)

text \<open>The transports of the dials that the loop has started and whose results it has not received.\<close>

definition outstanding :: "dial_race \<Rightarrow> string multiset" where
  "outstanding d = mset (map fst (dr_results d)) + mset (dr_dialing d)"

definition race_inv :: "dial_race \<Rightarrow> bool" where
  "race_inv d \<longleftrightarrow> mset (dr_est d) = mset (out_conns d) + mset (dr_aborted d) + mset (conns (dr_results d)) \<and>
     (case dr_out d of
        None \<Rightarrow> dr_aborted d = [] \<and> dr_pending d = 0 \<and> length (dr_errs d) = dr_received d \<and>
          (dr_started d = 1 \<and> dr_received d = 0 \<or> dr_started d = 2 \<and> dr_received d < 2) \<and>
          mset (map fst (dr_errs d)) + outstanding d = (if dr_started d = 1 then {#dr_first d#} else {#dr_first d, dr_second d#})
      | Some (Inl errs) \<Rightarrow> dr_aborted d = [] \<and> mset (map fst errs) = {#dr_first d, dr_second d#} \<and> outstanding d = {#}
      | Some (Inr x) \<Rightarrow> size (outstanding d) = dr_pending d)"

lemma outstanding_empty: "outstanding d = {#} \<longleftrightarrow> dr_results d = [] \<and> dr_dialing d = []"
  by (auto simp: outstanding_def)

lemma dial_done_inv:
  assumes "race_inv d" shows "race_inv (dial_done kind r d)"
proof (cases "kind \<in> set (dr_dialing d)")
  case True
  then have "outstanding (dial_done kind r d) = outstanding d" by (simp add: outstanding_def dial_done_def)
  then show ?thesis using assms True
    by (cases r) (auto simp: race_inv_def dial_done_def out_conns_def outstanding_empty split: option.splits sum.splits)
qed (use assms in \<open>simp add: dial_done_def\<close>)

lemma race_timer_inv: "race_inv d \<Longrightarrow> race_inv (race_timer d)"
  by (auto simp: race_inv_def race_timer_def start_dial_def out_conns_def outstanding_def)

lemma outstanding_take: "dr_results d = (k, r) # rest \<Longrightarrow> outstanding d = add_mset k (outstanding (d\<lparr>dr_results := rest\<rparr>))"
  by (simp add: outstanding_def)

lemma size_started:
  assumes "race_inv d" "dr_out d = None"
  shows "dr_received d + size (outstanding d) = dr_started d"
proof -
  have "size (mset (map fst (dr_errs d)) + outstanding d) = dr_started d" "length (dr_errs d) = dr_received d"
    using assms by (auto simp: race_inv_def split: if_splits)
  then show ?thesis by simp
qed

lemma race_turn_inv:
  assumes inv: "race_inv d" shows "race_inv (race_turn d)"
proof (cases "dr_out d = None \<and> dr_results d \<noteq> []")
  case True
  then obtain k r rest where o: "dr_out d = None" and rs: "dr_results d = (k, r) # rest" by (metis list.exhaust prod.exhaust)
  note sz = size_started [OF inv o]
  have out: "outstanding d = add_mset k (outstanding (d\<lparr>dr_results := rest\<rparr>))" by (rule outstanding_take [OF rs])
  show ?thesis
  proof (cases r)
    case (Inr c)
    have "dr_started d - Suc (dr_received d) = size (outstanding (d\<lparr>dr_results := rest\<rparr>))" using sz out by simp
    then show ?thesis using inv o rs Inr by (simp add: race_inv_def race_turn_def out_conns_def outstanding_def)
  next
    case (Inl e)
    have "dr_received d = 1 \<Longrightarrow> dr_started d = 2 \<Longrightarrow> outstanding (d\<lparr>dr_results := rest\<rparr>) = {#}" using sz out by simp
    then show ?thesis using inv o rs Inl
      by (auto simp: race_inv_def race_turn_def out_conns_def outstanding_def start_dial_def less_Suc_eq numeral_2_eq_2)
  qed
qed (use inv in \<open>auto simp: race_turn_def split: list.split\<close>)

lemma reap_turn_inv: "race_inv d \<Longrightarrow> race_inv (reap_turn d)"
  by (auto simp: race_inv_def reap_turn_def out_conns_def outstanding_def split: list.split option.splits sum.splits)

lemma race_step_names [simp]: "dr_first (race_step e d) = dr_first d" "dr_second (race_step e d) = dr_second d"
  by (cases e; simp add: race_timer_def dial_done_def race_turn_def reap_turn_def start_dial_def Let_def split: list.split sum.split)+

lemma race_run_inv:
  assumes "first \<noteq> other" "d = race_run es (begin_race first other)"
  shows "race_inv d \<and> dr_first d = first \<and> dr_second d = other"
  unfolding assms(2)
proof (induction es rule: rev_induct)
  case Nil
  then show ?case by (simp add: race_run_def begin_race_def race_inv_def start_dial_def out_conns_def outstanding_def)
next
  case (snoc e es)
  then show ?case
    by (cases e) (simp_all add: race_run_def race_timer_inv dial_done_inv race_turn_inv reap_turn_inv flip: race_step.simps,
      simp_all add: race_timer_inv dial_done_inv race_turn_inv reap_turn_inv)
qed

text \<open>
  C36. However the timer, the two dials, the loop and the goroutine that cleans up interleave: every connection that a dial has
  established is, once, the one the call has returned, or aborted, or a result in the channel, so that the returned connection is not aborted (connections of two dials being
  different ones); when a connection has been returned and the clean-up has received all it waits for, no result is left and no
  dial is under way, so that nothing leaks; the call fails only with an error of each of the two transports and no connection established; and
  while it has not returned, there is a result to take, or a dial is under way and none has succeeded.
\<close>

theorem dial_race_sound:
  assumes "first \<noteq> other" "d = race_run es (begin_race first other)"
  shows "mset (dr_est d) = mset (out_conns d) + mset (dr_aborted d) + mset (conns (dr_results d)) \<and>
    (distinct (dr_est d) \<longrightarrow> set (out_conns d) \<inter> set (dr_aborted d) = {}) \<and>
    (dr_out d \<noteq> None \<and> dr_pending d = 0 \<longrightarrow> dr_results d = [] \<and> dr_dialing d = []) \<and>
    (\<forall>errs. dr_out d = Some (Inl errs) \<longrightarrow> fst ` set errs = {first, other} \<and> dr_est d = []) \<and>
    (dr_out d = None \<longrightarrow> dr_results d \<noteq> [] \<or> dr_dialing d \<noteq> [] \<and> dr_est d = [])"
proof -
  have inv: "race_inv d" and n: "dr_first d = first" "dr_second d = other" using race_run_inv [OF assms] by auto
  have m: "mset (dr_est d) = mset (out_conns d) + mset (dr_aborted d) + mset (conns (dr_results d))" using inv by (simp add: race_inv_def)
  have dis: "set (out_conns d) \<inter> set (dr_aborted d) = {}" if "distinct (dr_est d)"
  proof -
    have "mset (dr_est d) = mset (out_conns d @ dr_aborted d @ conns (dr_results d))" using m by simp
    with that have "distinct (out_conns d @ dr_aborted d @ conns (dr_results d))" using mset_eq_imp_distinct_iff by blast
    then show ?thesis by auto
  qed
  have errs: "fst ` set es' = {first, other} \<and> dr_est d = []" if "dr_out d = Some (Inl es')" for es'
  proof -
    have e: "mset (map fst es') = {#first, other#}" "dr_aborted d = []" "outstanding d = {#}" using inv that n by (auto simp: race_inv_def)
    from arg_cong [OF e(1), of set_mset] have "fst ` set es' = {first, other}" by simp
    moreover have "mset (dr_est d) = {#}" using m that e(2,3) by (simp add: out_conns_def outstanding_empty)
    ultimately show ?thesis by simp
  qed
  have left: "dr_results d = [] \<and> dr_dialing d = []" if nr: "dr_out d \<noteq> None" "dr_pending d = 0"
  proof -
    obtain x where "dr_out d = Some x" using nr(1) by blast
    then have "outstanding d = {#}" using inv nr(2) by (cases x) (auto simp: race_inv_def)
    then show ?thesis by (simp add: outstanding_empty)
  qed
  have busy: "dr_results d \<noteq> [] \<or> dr_dialing d \<noteq> [] \<and> dr_est d = []" if "dr_out d = None"
  proof -
    have "dr_received d < dr_started d" "dr_aborted d = []" using inv that by (auto simp: race_inv_def)
    then have "outstanding d \<noteq> {#}" using size_started [OF inv that] by auto
    moreover have "dr_est d = []" if "dr_results d = []" using m \<open>dr_out d = None\<close> \<open>dr_aborted d = []\<close> that by (simp add: out_conns_def)
    ultimately show ?thesis by (auto simp: outstanding_empty)
  qed
  show ?thesis using m dis errs left busy by blast
qed

theorem dial_race_sound_witness:
  "let d = race_run [RaceTimer, DialDone ''quic'' (Inr 5), DialDone ''tcp'' (Inr 6), RaceTake, Reap] (begin_race ''tcp'' ''quic'')
   in dr_out d = Some (Inr (5, ''quic'')) \<and> dr_aborted d = [6] \<and> set (out_conns d) \<inter> set (dr_aborted d) = {} \<and> dr_dialing d = []"
proof -
  let ?d = "race_run [RaceTimer, DialDone ''quic'' (Inr 5), DialDone ''tcp'' (Inr 6), RaceTake, Reap] (begin_race ''tcp'' ''quic'')"
  have d: "dr_out ?d = Some (Inr (5, ''quic''))" "dr_aborted ?d = [6]" "dr_est ?d = [5, 6]" "dr_pending ?d = 0"
    by (simp_all add: race_run_def begin_race_def start_dial_def race_timer_def dial_done_def race_turn_def reap_turn_def)
  have "dr_dialing ?d = [] \<and> set (out_conns ?d) \<inter> set (dr_aborted ?d) = {}"
    using dial_race_sound [OF _ refl, of "''tcp''" "''quic''" "[RaceTimer, DialDone ''quic'' (Inr 5), DialDone ''tcp'' (Inr 6), RaceTake, Reap]"] d
    by simp
  with d show ?thesis unfolding Let_def by blast
qed

end
