(* ===== verification/Float64.thy ===== *)
theory Float64
  imports Prelude "HOL-Library.Signed_Division"
begin

text \<open>
  The arithmetic of \<open>float64\<close> that the progress display uses. A \<open>float64\<close> is the rational number it
  stands for; an operation is the exact one followed by \<open>fl\<close>, rounding to 53 significant bits with
  ties to even. Every number the display computes is zero or far inside the normal range (quotients
  of 64-bit integers), so subnormal numbers, infinities and NaN do not occur.

  The verbs \<open>%.1f\<close> and \<open>%5.1f\<close> print the exact value rounded to one decimal, ties to even, as
  \<^verbatim>\<open>strconv\<close> does. \<open>time.Duration\<close> has its truncated division.
\<close>

section \<open>Definitions\<close>

definition round_even :: "rat \<Rightarrow> int" where
  "round_even y =
     (let f = \<lfloor>y\<rfloor>; r = y - of_int f
      in if r < 1 / 2 then f else if r > 1 / 2 then f + 1 else if even f then f else f + 1)"

definition pow2 :: "int \<Rightarrow> rat" where
  "pow2 e = 2 powi e"

fun bits :: "nat \<Rightarrow> nat" where
  "bits n = (if n = 0 then 0 else Suc (bits (n div 2)))"

declare bits.simps [simp del]

text \<open>The exponent of the leading binary digit of a positive number.\<close>

definition expo :: "rat \<Rightarrow> int" where
  "expo x =
     (let (p, q) = quotient_of x; k = int (bits (nat p)) - int (bits (nat q))
      in if pow2 k \<le> x then k else k - 1)"

definition fl :: "rat \<Rightarrow> rat" where
  "fl x = (if x = 0 then 0 else let e = expo \<bar>x\<bar> - 52 in of_int (round_even (x / pow2 e)) * pow2 e)"

definition float64 :: "int \<Rightarrow> rat" where "float64 n = fl (of_int n)"
definition fadd :: "rat \<Rightarrow> rat \<Rightarrow> rat" where "fadd x y = fl (x + y)"
definition fmul :: "rat \<Rightarrow> rat \<Rightarrow> rat" where "fmul x y = fl (x * y)"
definition fdiv :: "rat \<Rightarrow> rat \<Rightarrow> rat" where "fdiv x y = fl (x / y)"

text \<open>
  The conversion to an integer cuts off the fraction. What it gives outside the range of \<open>int64\<close> the
  language leaves to the platform: the parameter \<open>oor\<close>.
\<close>

definition int64_of :: "(rat \<Rightarrow> int) \<Rightarrow> rat \<Rightarrow> int" where
  "int64_of oor x =
     (let n = (if 0 \<le> x then \<lfloor>x\<rfloor> else - \<lfloor>- x\<rfloor>) in if - (2 ^ 63) \<le> n \<and> n < 2 ^ 63 then n else oor x)"

definition fmt_1f :: "rat \<Rightarrow> string" where
  "fmt_1f x =
     (let n = nat (round_even (\<bar>x\<bar> * 10))
      in (if x < 0 then ''-'' else []) @ show_nat (n div 10) @ ''.'' @ show_nat (n mod 10))"

definition pad_left :: "nat \<Rightarrow> char \<Rightarrow> string \<Rightarrow> string" where
  "pad_left n c s = replicate (n - length s) c @ s"

text \<open>The verb \<open>%02d\<close>: the sign is in front of the zeros.\<close>

definition fmt_02d :: "int \<Rightarrow> string" where
  "fmt_02d n =
     (if n < 0 then ''-'' @ pad_left 1 CHR ''0'' (show_nat (nat (- n))) else pad_left 2 CHR ''0'' (show_nat (nat n)))"

subsection \<open>Durations\<close>

definition Second :: int where "Second = 1000000000"
definition Millisecond :: int where "Millisecond = 1000000"

text \<open>\<open>Duration.Seconds\<close>.\<close>

definition Duration_Seconds :: "int \<Rightarrow> rat" where
  "Duration_Seconds d = fadd (float64 (d sdiv Second)) (fdiv (float64 (d smod Second)) (float64 Second))"

text \<open>\<open>Duration.Round\<close> to a positive unit: half away from zero, saturating at the ends of \<open>int64\<close>.\<close>

definition Duration_Round :: "int \<Rightarrow> int \<Rightarrow> int" where
  "Duration_Round d m =
     (let r = d smod m
      in if d < 0
         then (if (- r) + (- r) < m then d - r else if d - m - r \<ge> - (2 ^ 63) then d - m - r else - (2 ^ 63))
         else (if r + r < m then d - r else if d + m - r < 2 ^ 63 then d + m - r else 2 ^ 63 - 1))"

section \<open>Rounding\<close>

lemma round_even_int [simp]: "round_even (of_int n) = n"
  by (simp add: round_even_def Let_def)

lemma round_even_ge: "of_int n \<le> y \<Longrightarrow> n \<le> round_even y"
proof -
  assume "of_int n \<le> y"
  then have "n \<le> \<lfloor>y\<rfloor>" by (simp add: le_floor_iff)
  then show ?thesis by (simp add: round_even_def Let_def)
qed

lemma round_even_le: "y \<le> of_int n \<Longrightarrow> round_even y \<le> n"
proof -
  assume "y \<le> of_int n"
  then consider "y = of_int n" | "y < of_int n" by linarith
  then show ?thesis
  proof cases
    case 2
    then have "\<lfloor>y\<rfloor> < n" by (simp add: floor_less_iff)
    then show ?thesis by (simp add: round_even_def Let_def)
  qed simp
qed

lemma pow2_pos [simp]: "0 < pow2 e"
  by (simp add: pow2_def)

lemma pow2_mono: "a \<le> b \<Longrightarrow> pow2 a \<le> pow2 b"
  by (simp add: pow2_def power_int_increasing)

lemma pow2_diff: "pow2 (int a - int b) = 2 ^ a / 2 ^ b"
  by (simp add: pow2_def power_int_diff)

lemma bits_bounds: "n < 2 ^ bits n \<and> (0 < n \<longrightarrow> 2 ^ (bits n - 1) \<le> n)"
proof (induction n rule: bits.induct)
  case (1 n)
  show ?case
  proof (cases "n = 0")
    case False
    with 1 have ih: "n div 2 < 2 ^ bits (n div 2)" "0 < n div 2 \<longrightarrow> 2 ^ (bits (n div 2) - 1) \<le> n div 2" by auto
    have b: "bits n = Suc (bits (n div 2))" using False by (simp add: bits.simps [of n])
    show ?thesis
    proof (cases "n div 2 = 0")
      case True
      with False have "n = 1" by linarith
      then show ?thesis by (simp add: bits.simps)
    next
      case nz: False
      then obtain k where k: "bits (n div 2) = Suc k" by (simp add: bits.simps [of "n div 2"])
      with ih b nz show ?thesis by (auto simp: k)
    qed
  qed (simp add: bits.simps)
qed

lemma expo_lower:
  assumes "0 < x"
  shows "pow2 (expo x) \<le> x"
proof -
  obtain p q where pq: "quotient_of x = (p, q)" by fastforce
  have x: "x = of_int p / of_int q" and q: "0 < q"
    using quotient_of_div [OF pq] quotient_of_denom_pos [OF pq] by auto
  with assms have p: "0 < p" by (simp add: zero_less_divide_iff)
  define a b where "a = bits (nat p)" and "b = bits (nat q)"
  have "2 ^ (a - 1) \<le> nat p" "0 < a"
    using bits_bounds [of "nat p"] p by (auto simp: a_def bits.simps [of "nat p"])
  then have "rat_of_nat (2 ^ (a - 1)) \<le> rat_of_nat (nat p)" by (simp only: of_nat_le_iff)
  then have lp: "2 ^ (a - 1) \<le> rat_of_int p" using p by simp
  have "rat_of_nat (nat q) \<le> rat_of_nat (2 ^ b)" using bits_bounds [of "nat q"] by (simp only: b_def of_nat_le_iff less_imp_le)
  then have lq: "rat_of_int q \<le> 2 ^ b" using q by simp
  have "2 ^ (a - 1) / 2 ^ b \<le> x" unfolding x using lp lq p q by (intro frac_le) auto
  moreover have "int a - int b - 1 = int (a - 1) - int b" using \<open>0 < a\<close> by simp
  ultimately have "pow2 (int a - int b - 1) \<le> x" by (simp only: pow2_diff)
  then show ?thesis by (simp add: expo_def pq a_def b_def Let_def)
qed

lemma fl_0 [simp]: "fl 0 = 0"
  by (simp add: fl_def)

lemma fl_nonneg [simp]: "0 \<le> x \<Longrightarrow> 0 \<le> fl x"
  using round_even_ge [of 0 "x / pow2 (expo x - 52)"] by (simp add: fl_def Let_def less_imp_le)

lemma round_even_minus [simp]: "round_even (- y) = - round_even y"
proof (cases "y = of_int \<lfloor>y\<rfloor>")
  case True
  then show ?thesis by (metis of_int_minus round_even_int)
next
  case False
  then have "\<lfloor>- y\<rfloor> = - \<lfloor>y\<rfloor> - 1"
    by (metis ceiling_def ceiling_altdef minus_diff_eq minus_minus diff_minus_eq_add add.commute uminus_add_conv_diff)
  then show ?thesis by (auto simp: round_even_def Let_def)
qed

lemma fl_minus [simp]: "fl (- x) = - fl x"
  by (simp add: fl_def Let_def)

text \<open>Rounding does not cross an exact number: here 1.\<close>

lemma fl_ge_1:
  assumes "1 \<le> x"
  shows "1 \<le> fl x"
proof -
  define e where "e = expo x - 52"
  have x: "0 < x" "pow2 (e + 52) \<le> x" using assms expo_lower [of x] by (auto simp: e_def)
  have fl: "fl x = of_int (round_even (x / pow2 e)) * pow2 e" using x by (simp add: fl_def e_def Let_def)
  show ?thesis
  proof (cases "0 \<le> e")
    case True
    have "of_int (2 ^ 52) \<le> x / pow2 e"
      using x(2) by (simp add: pow2_def power_int_add field_simps)
    then have "2 ^ 52 \<le> round_even (x / pow2 e)" by (rule round_even_ge)
    then have "1 \<le> rat_of_int (round_even (x / pow2 e))" by simp
    moreover have "1 \<le> pow2 e" using pow2_mono [OF True] by (simp add: pow2_def)
    ultimately show ?thesis unfolding fl using mult_mono [of 1 _ 1 "pow2 e"] by simp
  next
    case False
    then have p: "pow2 e = 1 / 2 ^ nat (- e)" by (simp add: pow2_def power_int_def inverse_eq_divide power_one_over)
    have "of_int (2 ^ nat (- e)) \<le> x / pow2 e" using assms by (simp add: p)
    then have "2 ^ nat (- e) \<le> round_even (x / pow2 e)" by (rule round_even_ge)
    then have "2 ^ nat (- e) \<le> rat_of_int (round_even (x / pow2 e))" by (metis of_int_le_iff of_int_numeral of_int_power)
    then show ?thesis unfolding fl by (simp add: p field_simps)
  qed
qed

text \<open>Monotonicity: within one binade by the rounding of integers, across binades by the power between.\<close>

lemma expo_upper:
  assumes "0 < x"
  shows "x < pow2 (expo x + 1)"
proof -
  obtain p q where pq: "quotient_of x = (p, q)" by fastforce
  have x: "x = of_int p / of_int q" and q: "0 < q"
    using quotient_of_div [OF pq] quotient_of_denom_pos [OF pq] by auto
  with assms have p: "0 < p" by (simp add: zero_less_divide_iff)
  define a b where "a = bits (nat p)" and "b = bits (nat q)"
  have "2 ^ (b - 1) \<le> nat q" "0 < b"
    using bits_bounds [of "nat q"] q by (auto simp: b_def bits.simps [of "nat q"])
  then have "rat_of_nat (2 ^ (b - 1)) \<le> rat_of_nat (nat q)" by (simp only: of_nat_le_iff)
  then have lq: "2 ^ (b - 1) \<le> rat_of_int q" using q by simp
  have "rat_of_nat (nat p) < rat_of_nat (2 ^ a)" using bits_bounds [of "nat p"] by (simp only: a_def of_nat_less_iff)
  then have lp: "rat_of_int p < 2 ^ a" using p by simp
  have "x < 2 ^ a / 2 ^ (b - 1)" unfolding x using lp lq p q by (intro frac_less) auto
  moreover have "int a - int b + 1 = int a - int (b - 1)" using \<open>0 < b\<close> by simp
  ultimately have "x < pow2 (int a - int b + 1)" by (simp only: pow2_diff)
  then show ?thesis by (simp add: expo_def pq a_def b_def Let_def)
qed

lemma pow2_Suc: "pow2 (e + 1) = 2 * pow2 e"
  by (simp add: pow2_def power_int_add)

lemma expo_mono:
  assumes "0 < x" "x \<le> y"
  shows "expo x \<le> expo y"
proof (rule ccontr)
  assume "\<not> expo x \<le> expo y"
  then have "pow2 (expo y + 1) \<le> pow2 (expo x)" by (intro pow2_mono) simp
  also have "\<dots> \<le> x" using assms by (intro expo_lower)
  also note \<open>x \<le> y\<close>
  also have "y < pow2 (expo y + 1)" using assms by (intro expo_upper) simp
  finally show False by simp
qed

lemma round_even_mono: "x \<le> y \<Longrightarrow> round_even x \<le> round_even y"
proof (cases "\<lfloor>x\<rfloor> = \<lfloor>y\<rfloor>")
  case True
  assume "x \<le> y"
  with True show ?thesis by (auto simp: round_even_def Let_def)
next
  case False
  assume "x \<le> y"
  then have "\<lfloor>x\<rfloor> < \<lfloor>y\<rfloor>" using False floor_mono [of x y] by simp
  then show ?thesis by (auto simp: round_even_def Let_def)
qed

lemma fl_binade:
  assumes "0 < x"
  shows "pow2 (expo x) \<le> fl x" "fl x \<le> pow2 (expo x + 1)"
proof -
  define e where "e = expo x - 52"
  have e: "pow2 (expo x) = 2 ^ 52 * pow2 e" "pow2 (expo x + 1) = 2 ^ 53 * pow2 e"
    by (simp_all add: e_def pow2_def power_int_diff power_int_add)
  have "of_int (2 ^ 52) \<le> x / pow2 e" "x / pow2 e \<le> of_int (2 ^ 53)"
    using expo_lower [OF assms] expo_upper [OF assms] unfolding e by (simp_all add: field_simps)
  then have "2 ^ 52 \<le> round_even (x / pow2 e)" "round_even (x / pow2 e) \<le> 2 ^ 53"
    by (blast intro: round_even_ge round_even_le)+
  then have "2 ^ 52 \<le> rat_of_int (round_even (x / pow2 e))" "rat_of_int (round_even (x / pow2 e)) \<le> 2 ^ 53"
    by (metis of_int_le_iff of_int_numeral of_int_power)+
  moreover have "fl x = of_int (round_even (x / pow2 e)) * pow2 e" using assms by (simp add: fl_def e_def Let_def)
  ultimately show "pow2 (expo x) \<le> fl x" "fl x \<le> pow2 (expo x + 1)" by (auto simp: e intro: mult_right_mono less_imp_le)
qed

lemma fl_mono_pos:
  assumes "0 < x" "x \<le> y"
  shows "fl x \<le> fl y"
proof (cases "expo x = expo y")
  case True
  have "x / pow2 (expo x - 52) \<le> y / pow2 (expo x - 52)" using assms by (simp add: divide_right_mono less_imp_le)
  then have "round_even (x / pow2 (expo x - 52)) \<le> round_even (y / pow2 (expo x - 52))" by (rule round_even_mono)
  then show ?thesis using assms True by (simp add: fl_def Let_def)
next
  case False
  then have "expo x + 1 \<le> expo y" using expo_mono [OF assms] by simp
  have "fl x \<le> pow2 (expo x + 1)" using assms by (intro fl_binade)
  also have "\<dots> \<le> pow2 (expo y)" by (rule pow2_mono) fact
  also have "\<dots> \<le> fl y" using assms by (intro fl_binade) simp
  finally show ?thesis .
qed

lemma fl_mono: "0 \<le> x \<Longrightarrow> x \<le> y \<Longrightarrow> fl x \<le> fl y"
  using fl_mono_pos [of x y] fl_nonneg [of y] by (cases "x = 0") auto

lemma expo_pow2 [simp]: "expo (pow2 k) = k"
proof -
  have "\<not> expo (pow2 k) < k" using expo_upper [of "pow2 k"] pow2_mono [of "expo (pow2 k) + 1" k] by auto
  moreover have "\<not> k < expo (pow2 k)"
    using expo_lower [of "pow2 k"] pow2_mono [of "k + 1" "expo (pow2 k)"] pow2_pos [of k] pow2_Suc [of k] by auto
  ultimately show ?thesis by simp
qed

lemma fl_pow2 [simp]: "fl (pow2 k) = pow2 k"
proof -
  have "pow2 k / pow2 (k - 52) = of_int (2 ^ 52)" by (simp add: pow2_def power_int_diff)
  then have "round_even (pow2 k / pow2 (k - 52)) = 2 ^ 52" using round_even_int by metis
  moreover have "pow2 k \<noteq> 0" "\<bar>pow2 k\<bar> = pow2 k" "2 ^ 52 * pow2 (k - 52) = pow2 k"
    by (simp_all add: pow2_def power_int_diff)
  ultimately show ?thesis by (simp add: fl_def Let_def)
qed

lemma fl_two_power [simp]: "fl (2 ^ n) = 2 ^ n"
  using fl_pow2 [of "int n"] by (simp add: pow2_def)

lemma fl_one [simp]: "fl 1 = 1"
  using fl_two_power [of 0] by simp

lemma fl_twenty [simp]: "fl 20 = 20"
  by code_simp

lemma expo_unique:
  assumes "0 < x" "pow2 k \<le> x" "x < pow2 (k + 1)"
  shows "expo x = k"
proof -
  have "\<not> expo x < k" using expo_upper [OF assms(1)] pow2_mono [of "expo x + 1" k] assms(2) by auto
  moreover have "\<not> k < expo x" using expo_lower [OF assms(1)] pow2_mono [of "k + 1" "expo x"] assms(3) by auto
  ultimately show ?thesis by simp
qed

text \<open>Scaling by a power of two commutes with rounding.\<close>

lemma fl_scale:
  assumes "0 < x"
  shows "fl (2 ^ n * x) = 2 ^ n * fl x"
proof -
  have add: "pow2 (j + int n) = 2 ^ n * pow2 j" for j by (simp add: pow2_def power_int_add)
  have e: "expo (2 ^ n * x) = expo x + int n"
  proof (rule expo_unique)
    show "pow2 (expo x + int n) \<le> 2 ^ n * x" using expo_lower [OF assms] by (simp add: add)
    show "2 ^ n * x < pow2 (expo x + int n + 1)" using expo_upper [OF assms] add [of "expo x + 1"] by (simp add: add.commute add.left_commute)
  qed (use assms in simp)
  have "pow2 (expo x + int n - 52) = 2 ^ n * pow2 (expo x - 52)" using add [of "expo x - 52"] by (simp add: algebra_simps)
  then show ?thesis using assms e by (simp add: fl_def Let_def)
qed

end
