(* ===== verification/Transfer_Progress.thy ===== *)
theory Transfer_Progress
  imports Float64
begin

text \<open>
  The transfer events of the agent (\<^verbatim>\<open>internal/agent/transfer.go\<close>) and the progress display of the
  share side that collects them (\<^verbatim>\<open>internal/client/transfer_progress.go\<close>).

  \<^item> Text that is shown is a list of runes (code points). A path comes out of a JSON string, which
    is valid UTF-8, so its runes determine it.
  \<^item> A method of \<open>transferProgress\<close> holds the mutex from its first to its last access, so it is one
    step: a function on the record of the fields. Its value is \<open>None\<close> when it panics (a negative
    count of \<open>strings.Repeat\<close>, a nil \<open>transferState\<close>).
  \<^item> The fields \<open>now\<close> and \<open>width\<close> are functions that answer differently from call to call: the model
    gives them the number of the call. \<open>p_oor\<close> is the platform's conversion of a \<open>float64\<close> outside
    \<open>int64\<close>, \<open>p_clock\<close> the text of the local time of an instant.
  \<^item> What is written to \<open>out\<close> and to the writer behind \<open>Writer\<close> is kept in order in \<open>p_out\<close>; the
    audit lines in \<open>p_logged\<close>.
  \<^item> Byte counts and offsets are \<open>int64\<close>: integers on which every sum and difference is followed by
    \<open>wrap64\<close>. Instants are integers, in nanoseconds.
\<close>

definition wrap64 :: "int \<Rightarrow> int" where
  "wrap64 x = (x + 2 ^ 63) mod 2 ^ 64 - 2 ^ 63"

section \<open>Transfer events\<close>

type_synonym rune = int
type_synonym runes = "rune list"

definition tx :: "string \<Rightarrow> runes" where
  "tx s = map of_char s"

record TransferEvent =
  te_Dir :: runes
  te_Path :: runes
  te_Offset :: int
  te_Bytes :: int
  te_Total :: int
  te_Start :: bool
  te_EOF :: bool

definition zero_event :: TransferEvent where
  "zero_event = \<lparr>te_Dir = [], te_Path = [], te_Offset = 0, te_Bytes = 0, te_Total = 0, te_Start = False, te_EOF = False\<rparr>"

definition positive :: "int \<Rightarrow> int" where
  "positive v = (if v < 0 then 0 else v)"

text \<open>The loop over the last two bytes: from index \<open>i\<close> down, at most to \<open>len(s)-2\<close>.\<close>

definition count_pad :: "bytes \<Rightarrow> int" where
  "count_pad s = int (length (takeWhile (\<lambda>c. c = 61) (take 2 (rev s))))"

definition base64JSONLen :: "bytes \<Rightarrow> int" where
  "base64JSONLen raw =
     (if length raw < 2 \<or> raw ! 0 \<noteq> 34 \<or> raw ! (length raw - 1) \<noteq> 34 then 0
      else let s = take (length raw - 2) (drop 1 raw) in int (length s) div 4 * 3 - count_pad s)"

text \<open>The anonymous structures the arguments and the result are decoded into.\<close>

record write_args =
  wa_Path :: runes
  wa_Content :: bytes
  wa_At :: "int option"
  wa_Total :: int

record read_args =
  ra_Path :: runes
  ra_Offset :: int
  ra_Total :: int

record read_result =
  tr_Bytes :: bytes
  tr_EOF :: bool

record transfer_json =
  tj_write :: "bytes \<Rightarrow> write_args option"
  tj_read :: "bytes \<Rightarrow> read_args option"
  tj_result :: "bytes \<Rightarrow> read_result option"

definition parseTransfer :: "transfer_json \<Rightarrow> string \<Rightarrow> bytes \<Rightarrow> bytes \<Rightarrow> TransferEvent option" where
  "parseTransfer js tool args result =
     (if tool = ''write_file'' then
        case tj_write js args of
          None \<Rightarrow> None
        | Some a \<Rightarrow>
            let n = base64JSONLen (wa_Content a)
            in case wa_At a of
                 Some a0 \<Rightarrow> Some (zero_event\<lparr>te_Dir := tx ''upload'', te_Path := wa_Path a, te_Offset := a0,
                                            te_Bytes := n, te_Total := positive (wa_Total a)\<rparr>)
               | None \<Rightarrow>
                   if wa_Total a > 0 \<and> n = 0
                   then Some (zero_event\<lparr>te_Dir := tx ''upload'', te_Path := wa_Path a, te_Total := wa_Total a,
                                        te_Start := True\<rparr>)
                   else None
      else if tool = ''read_file'' then
        case tj_read js args of
          None \<Rightarrow> None
        | Some a \<Rightarrow>
            if ra_Total a \<le> 0 then None
            else case tj_result js result of
                   None \<Rightarrow> None
                 | Some r \<Rightarrow> Some (zero_event\<lparr>te_Dir := tx ''download'', te_Path := ra_Path a, te_Offset := ra_Offset a,
                                             te_Bytes := base64JSONLen (tr_Bytes r), te_Total := ra_Total a,
                                             te_EOF := tr_EOF r\<rparr>)
      else None)"

section \<open>Widths\<close>

definition runeWidth :: "rune \<Rightarrow> int" where
  "runeWidth r =
     (if r < 0x1100 then 1
      else if r \<le> 0x115F \<or> (r \<ge> 0x2E80 \<and> r \<le> 0xA4CF) \<or> (r \<ge> 0xAC00 \<and> r \<le> 0xD7A3) \<or>
              (r \<ge> 0xF900 \<and> r \<le> 0xFAFF) \<or> (r \<ge> 0xFE30 \<and> r \<le> 0xFE4F) \<or> (r \<ge> 0xFF00 \<and> r \<le> 0xFF60) \<or>
              (r \<ge> 0xFFE0 \<and> r \<le> 0xFFE6) \<or> (r \<ge> 0x20000 \<and> r \<le> 0x3FFFD) then 2
      else 1)"

definition displayWidth :: "runes \<Rightarrow> int" where
  "displayWidth s = sum_list (map runeWidth s)"

text \<open>The longest front part of at most the given width: the loops of \<open>truncateMiddle\<close>.\<close>

fun take_width :: "int \<Rightarrow> runes \<Rightarrow> runes" where
  "take_width m [] = []"
| "take_width m (r # rs) = (if runeWidth r > m then [] else r # take_width (m - runeWidth r) rs)"

text \<open>No caller passes a negative width, for which \<open>strings.Repeat\<close> would panic.\<close>

definition truncateMiddle :: "runes \<Rightarrow> int \<Rightarrow> runes" where
  "truncateMiddle s cols =
     (if displayWidth s \<le> cols then s
      else if cols \<le> 3 then replicate (nat cols) 46
      else let keep = cols - 3; headW = (keep + 1) div 2; tailW = keep div 2;
               head = take_width headW s; tail = rev (take_width tailW (rev (drop (length head) s)))
           in head @ tx ''...'' @ tail)"

section \<open>Texts\<close>

definition repeat_rune :: "rune \<Rightarrow> int \<Rightarrow> runes option" where
  "repeat_rune c n = (if n < 0 then None else Some (replicate (nat n) c))"

definition barWidth :: int where "barWidth = 20"
definition rateWindow :: int where "rateWindow = 3 * Second"
definition progressRedraw :: int where "progressRedraw = 200 * Millisecond"

definition progressBar :: "(rat \<Rightarrow> int) \<Rightarrow> int \<Rightarrow> int \<Rightarrow> int \<Rightarrow> runes option" where
  "progressBar oor done tot width =
     (let filled0 = int64_of oor (fmul (fdiv (float64 done) (float64 tot)) (float64 width));
          filled = (if filled0 > width then width else filled0)
      in if filled = width
         then Option.bind (repeat_rune 61 width) (\<lambda>eq. Some (tx ''['' @ eq @ tx '']''))
         else Option.bind (repeat_rune 61 filled) (\<lambda>eq.
              Option.bind (repeat_rune 32 (width - filled - 1)) (\<lambda>sp.
              Some (tx ''['' @ eq @ tx ''>'' @ sp @ tx '']''))))"

fun scale_units :: "rat \<Rightarrow> string list \<Rightarrow> string" where
  "scale_units v [] = fmt_1f (fdiv v 1024) @ '' TB''"
| "scale_units v (u # us) =
     (let w = fdiv v 1024 in if w < 1024 then fmt_1f w @ '' '' @ u else scale_units w us)"

definition formatBytes :: "int \<Rightarrow> runes" where
  "formatBytes n =
     tx (if n < 1024 then show_int n @ '' B'' else scale_units (float64 n) [''KB'', ''MB'', ''GB''])"

definition formatETA :: "int \<Rightarrow> runes" where
  "formatETA d =
     (let s = Duration_Round d Second sdiv Second
      in tx (if s \<ge> 3600
             then show_int (s sdiv 3600) @ '':'' @ fmt_02d (s sdiv 60 smod 60) @ '':'' @ fmt_02d (s smod 60)
             else fmt_02d (s sdiv 60) @ '':'' @ fmt_02d (s smod 60)))"

text \<open>\<open>path.Base\<close> after \<open>strings.ReplaceAll(path, "\\", "/")\<close>.\<close>

definition base_name :: "runes \<Rightarrow> runes" where
  "base_name p =
     (if p = [] then tx ''.''
      else let q = rev (dropWhile (\<lambda>c. c = 47) (rev p)); b = rev (takeWhile (\<lambda>c. c \<noteq> 47) (rev q))
           in if b = [] then tx ''/'' else b)"

section \<open>One transfer\<close>

record rateSample =
  rs_at :: int
  rs_done :: int

record transferState =
  ts_dir :: runes
  ts_path :: runes
  ts_total :: int
  ts_base :: int
  ts_baseSet :: bool
  ts_received :: int
  ts_chunks :: "(int, int) gomap"
  ts_last :: int
  ts_grown :: bool
  ts_fromStart :: bool
  ts_firstBytes :: int
  ts_started :: int
  ts_lastSeen :: int
  ts_samples :: "rateSample list"

definition ts_done :: "transferState \<Rightarrow> int" where
  "ts_done st = wrap64 (ts_base st + ts_received st)"

fun trim_samples :: "int \<Rightarrow> rateSample list \<Rightarrow> rateSample list" where
  "trim_samples now (a # b # r) = (if now - rs_at a > rateWindow then trim_samples now (b # r) else a # b # r)"
| "trim_samples now xs = xs"

definition trimSamples :: "int \<Rightarrow> transferState \<Rightarrow> transferState" where
  "trimSamples now st = st\<lparr>ts_samples := trim_samples now (ts_samples st)\<rparr>"

definition timedBytes :: "transferState \<Rightarrow> int" where
  "timedBytes st =
     (let n = wrap64 (ts_done st - ts_base st); n = (if \<not> ts_fromStart st then wrap64 (n - ts_firstBytes st) else n)
      in if n < 0 then 0 else n)"

definition rate_overall :: "int \<Rightarrow> transferState \<Rightarrow> rat" where
  "rate_overall now st =
     (let dt = Duration_Seconds (now - ts_started st) in if dt > 0 then fdiv (float64 (timedBytes st)) dt else 0)"

definition rate :: "int \<Rightarrow> transferState \<Rightarrow> rat" where
  "rate now st =
     (let xs = ts_samples st
      in if length xs \<ge> 2
         then let s0 = hd xs; s1 = last xs; dt = Duration_Seconds (rs_at s1 - rs_at s0)
              in if dt \<ge> 1 / 2
                 then let d = wrap64 (rs_done s1 - rs_done s0) in if d > 0 then fdiv (float64 d) dt else 0
                 else rate_overall now st
         else rate_overall now st)"

definition verb :: "transferState \<Rightarrow> runes" where
  "verb st = (if ts_dir st = tx ''download'' then [19979, 36733] else [19978, 20256])"

definition stats_text :: "(rat \<Rightarrow> int) \<Rightarrow> int \<Rightarrow> transferState \<Rightarrow> int \<Rightarrow> runes" where
  "stats_text oor now st stalled =
     (let done = ts_done st;
          r = (if stalled > 0 then 0 else rate now st);
          stats =
            (if ts_total st > 0
             then tx (pad_left 5 CHR '' '' (fmt_1f (fdiv (fmul (float64 done) 100) (float64 (ts_total st)))) @ ''%  '') @
                  formatBytes done @ tx ''/'' @ formatBytes (ts_total st) @ tx ''  '' @ formatBytes (int64_of oor r) @ tx ''/s'' @
                  (if r > 0 \<and> done < ts_total st
                   then tx ''  '' @ [21097, 20313] @ tx '' '' @
                        formatETA (int64_of oor (fmul (fdiv (float64 (wrap64 (ts_total st - done))) r) (float64 Second)))
                   else [])
             else formatBytes done @ tx ''  '' @ formatBytes (int64_of oor r) @ tx ''/s'')
      in stats @ (if stalled > 0 then tx ''  '' @ [20572, 28382] @ tx '' '' @ formatETA stalled else []))"

definition build_line :: "transferState \<Rightarrow> runes \<Rightarrow> runes \<Rightarrow> runes \<Rightarrow> runes" where
  "build_line st stats name bar = verb st @ tx '' '' @ name @ bar @ tx ''  '' @ stats"

definition fit_line :: "transferState \<Rightarrow> runes \<Rightarrow> runes \<Rightarrow> runes \<Rightarrow> int \<Rightarrow> runes" where
  "fit_line st stats name bar cols =
     (let build = build_line st stats; l = build name bar
      in if cols \<le> 0 \<or> displayWidth l \<le> cols then l
         else if cols - displayWidth (build [] bar) \<ge> 8
         then build (truncateMiddle name (cols - displayWidth (build [] bar))) bar
         else if cols - displayWidth (build [] []) \<ge> 8
         then build (truncateMiddle name (cols - displayWidth (build [] []))) []
         else truncateMiddle (build name []) cols)"

definition line :: "(rat \<Rightarrow> int) \<Rightarrow> int \<Rightarrow> int \<Rightarrow> int \<Rightarrow> transferState \<Rightarrow> runes option" where
  "line oor now cols stalled st =
     Option.bind
       (if ts_total st > 0
        then Option.bind (progressBar oor (ts_done st) (ts_total st) barWidth) (\<lambda>b. Some (tx '' '' @ b))
        else Some [])
       (\<lambda>bar. let name = base_name (map (\<lambda>c. if c = 92 then 47 else c) (ts_path st))
              in Some (fit_line st (stats_text oor now st stalled) name bar cols))"

definition summary :: "(rat \<Rightarrow> int) \<Rightarrow> (int \<Rightarrow> runes) \<Rightarrow> transferState \<Rightarrow> runes" where
  "summary oor clock st =
     (let dur = ts_lastSeen st - ts_started st;
          moved = wrap64 (ts_done st - ts_base st);
          s = Duration_Seconds dur; n = timedBytes st;
          avg = (if s \<ge> 1 / 2 \<and> n > 0
                 then [65292, 24179, 22343] @ tx '' '' @ formatBytes (int64_of oor (fdiv (float64 n) s)) @ tx ''/s'' else []);
          status = (if ts_total st > 0 \<and> ts_done st < ts_total st
                    then [20013, 26029, 65288] @
                         tx (fmt_1f (fdiv (fmul (float64 (ts_done st)) 100) (float64 (ts_total st))) @ ''%'') @ [65292] @
                         formatBytes (ts_done st) @ tx ''/'' @ formatBytes (ts_total st) @ [65289]
                    else [23436, 25104])
      in tx ''['' @ clock (ts_lastSeen st) @ tx ''] '' @ verb st @ status @ tx '' '' @ ts_path st @ [65306] @
         formatBytes moved @ [65292, 29992, 26102] @ tx '' '' @ formatETA dur @ avg)"

section \<open>The display\<close>

datatype written = Out runes | Behind runes

record transferProgress =
  p_tty :: bool
  p_width :: "nat \<Rightarrow> int"
  p_now :: "nat \<Rightarrow> int"
  p_oor :: "rat \<Rightarrow> int"
  p_clock :: "int \<Rightarrow> runes"
  p_quietSummaryLogs :: bool
  p_stallAfter :: int
  p_abandonAfter :: int
  p_unknownIdle :: int
  p_recentWindow :: int
  p_plainEvery :: int
  p_active :: "(runes, transferState) gomap"
  p_order :: "runes list"
  p_recent :: "(runes, transferState) gomap"
  p_pendingLogs :: "runes list"
  p_drawn :: int
  p_stopped :: bool
  p_lastPlain :: int
  p_nows :: nat
  p_widths :: nat
  p_out :: "written list"
  p_logged :: "runes list"

text \<open>\<open>newTransferProgress\<close>; a nil \<open>width\<close> is the function that answers 0.\<close>

definition newTransferProgress ::
    "bool \<Rightarrow> (nat \<Rightarrow> int) option \<Rightarrow> (nat \<Rightarrow> int) \<Rightarrow> (rat \<Rightarrow> int) \<Rightarrow> (int \<Rightarrow> runes) \<Rightarrow> transferProgress" where
  "newTransferProgress tty width now oor clock =
     \<lparr>p_tty = tty, p_width = (case width of None \<Rightarrow> \<lambda>_. 0 | Some w \<Rightarrow> w), p_now = now, p_oor = oor, p_clock = clock,
      p_quietSummaryLogs = False, p_stallAfter = 3 * Second, p_abandonAfter = 120 * Second,
      p_unknownIdle = 10 * Second, p_recentWindow = 10 * Second, p_plainEvery = 5 * Second,
      p_active = mempty, p_order = [], p_recent = mempty, p_pendingLogs = [], p_drawn = 0, p_stopped = False,
      p_lastPlain = 0, p_nows = 0, p_widths = 0, p_out = [], p_logged = []\<rparr>"

definition call_now :: "transferProgress \<Rightarrow> int \<times> transferProgress" where
  "call_now p = (p_now p (p_nows p), p\<lparr>p_nows := Suc (p_nows p)\<rparr>)"

definition maxCols :: "transferProgress \<Rightarrow> int \<times> transferProgress" where
  "maxCols p =
     (let w = p_width p (p_widths p); p = p\<lparr>p_widths := Suc (p_widths p)\<rparr> in (if w > 1 then w - 1 else 79, p))"

definition fprint :: "runes \<Rightarrow> transferProgress \<Rightarrow> transferProgress" where
  "fprint s p = p\<lparr>p_out := p_out p @ [Out s]\<rparr>"

definition fprintln :: "runes \<Rightarrow> transferProgress \<Rightarrow> transferProgress" where
  "fprintln s p = fprint (s @ [10]) p"

definition unlock :: "transferProgress \<Rightarrow> transferProgress" where
  "unlock p = p\<lparr>p_logged := p_logged p @ p_pendingLogs p, p_pendingLogs := []\<rparr>"

definition add_log :: "runes \<Rightarrow> transferProgress \<Rightarrow> transferProgress" where
  "add_log l p = p\<lparr>p_pendingLogs := p_pendingLogs p @ [l]\<rparr>"

definition Stop :: "transferProgress \<Rightarrow> transferProgress" where
  "Stop p =
     (if p_stopped p then p
      else let p = p\<lparr>p_stopped := True\<rparr>
           in if p_drawn p > 0 then (fprintln [] p)\<lparr>p_drawn := 0\<rparr> else p)"

definition clearLocked :: "transferProgress \<Rightarrow> transferProgress" where
  "clearLocked p =
     (if p_drawn p > 0
      then let (m, p) = maxCols p
           in (fprint ([13] @ replicate (nat (min (p_drawn p) m)) 32 @ [13]) p)\<lparr>p_drawn := 0\<rparr>
      else p)"

definition lineLocked :: "transferState option \<Rightarrow> int \<Rightarrow> int \<Rightarrow> transferProgress \<Rightarrow> runes option" where
  "lineLocked s now cols p =
     (case s of
        None \<Rightarrow> None
      | Some st \<Rightarrow>
          let d = now - ts_lastSeen st in line (p_oor p) now cols (if d \<ge> p_stallAfter p then d else 0) st)"

text \<open>The line with the number of further transfers, if it fits, and the blanks that cover a longer line before.\<close>

definition frame :: "int \<Rightarrow> int \<Rightarrow> int \<Rightarrow> runes \<Rightarrow> runes \<times> runes" where
  "frame cols extra drawn l =
     (let more = tx (''  (+'' @ show_int extra @ '')'');
          l = (if extra > 0 \<and> displayWidth l + displayWidth more \<le> cols then l @ more else l);
          prev = min drawn cols
      in (l, if displayWidth l < prev then replicate (nat (prev - displayWidth l)) 32 else []))"

definition drawLocked :: "transferProgress \<Rightarrow> transferProgress option" where
  "drawLocked p =
     (if \<not> p_tty p \<or> p_stopped p \<or> p_order p = [] then Some p
      else let (cols, p) = maxCols p; (now, p) = call_now p
           in Option.bind (lineLocked (mget (p_active p) (hd (p_order p))) now cols p) (\<lambda>l.
              let (l, pad) = frame cols (int (length (p_order p)) - 1) (p_drawn p) l
              in Some ((fprint ([13] @ l @ pad) p)\<lparr>p_drawn := displayWidth l + int (length pad)\<rparr>)))"

definition finishLocked :: "runes \<Rightarrow> transferProgress \<Rightarrow> transferProgress option" where
  "finishLocked key p =
     (case mget (p_active p) key of
        None \<Rightarrow> Some p
      | Some st \<Rightarrow>
          let p = p\<lparr>p_active := mdel key (p_active p), p_recent := mput key st (p_recent p),
                    p_order := remove1 key (p_order p)\<rparr>;
              p = clearLocked p;
              sum = summary (p_oor p) (p_clock p) st;
              p = fprintln sum p;
              p = (if \<not> p_quietSummaryLogs p then add_log (tx ''tool | transfer | '' @ sum) p else p)
          in drawLocked p)"

definition Print :: "runes \<Rightarrow> transferProgress \<Rightarrow> transferProgress option" where
  "Print text p = drawLocked (fprint text (clearLocked p))"

definition passthrough_Write :: "runes \<Rightarrow> transferProgress \<Rightarrow> transferProgress option" where
  "passthrough_Write b p =
     (let p = clearLocked p in drawLocked (p\<lparr>p_out := p_out p @ [Behind b]\<rparr>))"

definition idleFinish :: "transferState \<Rightarrow> transferProgress \<Rightarrow> int" where
  "idleFinish st p =
     (if ts_total st > 0 \<and> \<not> ts_grown st then p_abandonAfter p
      else let idle = p_unknownIdle p; n = mlen (ts_chunks st)
           in if n > 1
              then let gap = 4 * (ts_lastSeen st - ts_started st) sdiv n in if gap > idle then gap else idle
              else idle)"

section \<open>Events\<close>

definition lateDuplicate :: "transferState \<Rightarrow> TransferEvent \<Rightarrow> bool" where
  "lateDuplicate old ev =
     (if te_Offset ev = ts_last old then True
      else mget (ts_chunks old) (te_Offset ev) \<noteq> None \<and> te_Offset ev \<noteq> ts_base old)"

definition logDuplicate :: "TransferEvent \<Rightarrow> transferProgress \<Rightarrow> transferProgress" where
  "logDuplicate ev =
     add_log (tx ''tool | transfer | '' @ te_Dir ev @ tx '' '' @ te_Path ev @
              tx ('' | repeated chunk offset='' @ show_int (te_Offset ev) @ '' bytes='' @ show_int (te_Bytes ev)))"

definition event_key :: "TransferEvent \<Rightarrow> runes" where
  "event_key ev = te_Dir ev @ [0] @ te_Path ev"

text \<open>The counting of one chunk: base, bytes by offset, total.\<close>

definition record_chunk :: "TransferEvent \<Rightarrow> transferState \<Rightarrow> transferState" where
  "record_chunk ev st =
     (let st = (if \<not> ts_baseSet st \<or> te_Offset ev < ts_base st
                then st\<lparr>ts_base := te_Offset ev, ts_baseSet := True\<rparr> else st);
          prev = mget0 (ts_chunks st) (te_Offset ev);
          dup = (mget (ts_chunks st) (te_Offset ev) \<noteq> None);
          st = (if \<not> dup \<or> te_Bytes ev > prev
                then st\<lparr>ts_received := wrap64 (ts_received st + wrap64 (te_Bytes ev - prev)),
                        ts_chunks := mput (te_Offset ev) (te_Bytes ev) (ts_chunks st)\<rparr> else st);
          st = st\<lparr>ts_last := te_Offset ev\<rparr>
      in if ts_total st > 0 \<and> ts_done st > ts_total st then st\<lparr>ts_total := ts_done st\<rparr> else st)"

definition take_event :: "TransferEvent \<Rightarrow> int \<Rightarrow> transferState \<Rightarrow> transferState" where
  "take_event ev now st =
     (let st = (if te_Total ev > 0 then st\<lparr>ts_total := te_Total ev\<rparr> else st);
          st = (if te_Start ev then st\<lparr>ts_base := 0, ts_baseSet := True\<rparr> else record_chunk ev st);
          st = st\<lparr>ts_lastSeen := now\<rparr>;
          st = st\<lparr>ts_samples := ts_samples st @ [\<lparr>rs_at = now, rs_done = ts_done st\<rparr>]\<rparr>;
          st = trimSamples now st
      in if te_EOF ev then st\<lparr>ts_total := ts_done st\<rparr> else st)"

definition finished :: "TransferEvent \<Rightarrow> transferState \<Rightarrow> bool" where
  "finished ev st =
     (te_EOF ev \<or> te_Dir ev = tx ''upload'' \<and> \<not> ts_grown st \<and> ts_total st > 0 \<and> ts_done st \<ge> ts_total st)"

text \<open>The rest of \<open>Event\<close> once the transfer \<open>st\<close> is in \<open>active\<close>.\<close>

definition event_on :: "TransferEvent \<Rightarrow> int \<Rightarrow> transferState \<Rightarrow> transferProgress \<Rightarrow> transferProgress option" where
  "event_on ev now st p =
     (let key = event_key ev;
          p = (if \<not> te_Start ev \<and> mget (ts_chunks st) (te_Offset ev) \<noteq> None then logDuplicate ev p else p);
          st = take_event ev now st;
          p = p\<lparr>p_active := mput key st (p_active p)\<rparr>
      in if finished ev st then finishLocked key p else Some p)"

definition new_transfer :: "TransferEvent \<Rightarrow> int \<Rightarrow> transferState" where
  "new_transfer ev now =
     \<lparr>ts_dir = te_Dir ev, ts_path = te_Path ev, ts_total = 0, ts_base = 0, ts_baseSet = False, ts_received = 0,
      ts_chunks = mempty, ts_last = 0, ts_grown = False, ts_fromStart = te_Start ev, ts_firstBytes = te_Bytes ev,
      ts_started = now, ts_lastSeen = 0, ts_samples = []\<rparr>"

definition open_transfer :: "TransferEvent \<Rightarrow> int \<Rightarrow> transferProgress \<Rightarrow> transferProgress" where
  "open_transfer ev now p =
     (let key = event_key ev;
          p = (if p_order p = [] then p\<lparr>p_lastPlain := now\<rparr> else p);
          p = p\<lparr>p_active := mput key (new_transfer ev now) (p_active p), p_order := p_order p @ [key],
                p_recent := mdel key (p_recent p)\<rparr>
      in if \<not> p_quietSummaryLogs p
         then add_log (tx ''tool | transfer | '' @ te_Dir ev @ tx '' '' @ te_Path ev @
                       tx ('' | start offset='' @ show_int (te_Offset ev) @ '' total='' @ show_int (te_Total ev))) p
         else p)"

definition reopen_transfer :: "TransferEvent \<Rightarrow> transferState \<Rightarrow> transferProgress \<Rightarrow> transferProgress" where
  "reopen_transfer ev old p =
     (let key = event_key ev
      in p\<lparr>p_recent := mdel key (p_recent p), p_active := mput key old (p_active p), p_order := p_order p @ [key]\<rparr>)"

definition recent_transfer :: "TransferEvent \<Rightarrow> int \<Rightarrow> transferProgress \<Rightarrow> transferState option" where
  "recent_transfer ev now p =
     (if te_Start ev then None
      else case mget (p_recent p) (event_key ev) of
             None \<Rightarrow> None
           | Some old \<Rightarrow> if now - ts_lastSeen old < p_recentWindow p then Some old else None)"

definition Event_locked :: "TransferEvent \<Rightarrow> transferProgress \<Rightarrow> transferProgress option" where
  "Event_locked ev p =
     (let (now, p) = call_now p; key = event_key ev
      in case mget (p_active p) key of
           Some st \<Rightarrow>
             if te_Start ev
             then Option.bind (finishLocked key p) (\<lambda>p. event_on ev now (new_transfer ev now) (open_transfer ev now p))
             else event_on ev now st p
         | None \<Rightarrow>
             (case recent_transfer ev now p of
                Some old \<Rightarrow>
                  if lateDuplicate old ev then Some (logDuplicate ev p)
                  else if te_Dir ev = tx ''upload'' \<and> te_Offset ev = ts_done old
                  then let old = old\<lparr>ts_grown := True\<rparr> in event_on ev now old (reopen_transfer ev old p)
                  else event_on ev now (new_transfer ev now) (open_transfer ev now p)
              | None \<Rightarrow> event_on ev now (new_transfer ev now) (open_transfer ev now p)))"

definition Event :: "TransferEvent \<Rightarrow> transferProgress \<Rightarrow> transferProgress option" where
  "Event ev p = map_option unlock (Event_locked ev p)"

section \<open>The ticker\<close>

definition forget_recent :: "int \<Rightarrow> transferProgress \<Rightarrow> transferProgress" where
  "forget_recent now p =
     p\<lparr>p_recent := fold (\<lambda>k m. case mget m k of
                                Some st \<Rightarrow> if now - ts_lastSeen st \<ge> p_recentWindow p then mdel k m else m
                              | None \<Rightarrow> m) (mkeys (p_recent p)) (p_recent p)\<rparr>"

fun finish_idle :: "int \<Rightarrow> runes list \<Rightarrow> transferProgress \<Rightarrow> transferProgress option" where
  "finish_idle now [] p = Some p"
| "finish_idle now (key # ks) p =
     (case mget (p_active p) key of
        Some st \<Rightarrow>
          if now - ts_lastSeen st \<ge> idleFinish st p
          then Option.bind (finishLocked key p) (finish_idle now ks) else finish_idle now ks p
      | None \<Rightarrow> finish_idle now ks p)"

fun print_lines :: "int \<Rightarrow> runes list \<Rightarrow> transferProgress \<Rightarrow> transferProgress option" where
  "print_lines now [] p = Some p"
| "print_lines now (key # ks) p =
     Option.bind (lineLocked (mget (p_active p) key) now 0 p) (\<lambda>l. print_lines now ks (fprintln l p))"

definition tick_locked :: "transferProgress \<Rightarrow> transferProgress option" where
  "tick_locked p =
     (let (now, p) = call_now p; p = forget_recent now p
      in Option.bind (finish_idle now (p_order p) p) (\<lambda>p.
           if p_tty p then drawLocked p
           else if p_order p \<noteq> [] \<and> now - p_lastPlain p \<ge> p_plainEvery p
           then print_lines now (p_order p) (p\<lparr>p_lastPlain := now\<rparr>)
           else Some p))"

definition tick :: "transferProgress \<Rightarrow> transferProgress option" where
  "tick p = map_option unlock (tick_locked p)"

end
