(* ===== verification/Transfer_Progress_Props.thy ===== *)
theory Transfer_Progress_Props
  imports Transfer_Progress File_Tools
begin

text \<open>
  Properties of the progress display: a frame fits the terminal, the display never panics on offsets and
  counts that are not negative and do not overflow and keeps its tables consistent, it panics on an event
  whose end is far enough below zero, by a negative offset or by overflow, and the count of a transfer depends only on
  which chunks arrived.
\<close>

section \<open>Widths\<close>

lemma runeWidth_range: "1 \<le> runeWidth r" "runeWidth r \<le> 2"
  by (auto simp: runeWidth_def)

lemma displayWidth_simps [simp]:
  "displayWidth [] = 0"
  "displayWidth (r # s) = runeWidth r + displayWidth s"
  "displayWidth (s @ t) = displayWidth s + displayWidth t"
  "displayWidth (rev s) = displayWidth s"
  by (auto simp: displayWidth_def rev_map [symmetric])

lemma displayWidth_nonneg [simp]: "0 \<le> displayWidth s"
  using runeWidth_range(1) by (induction s) (auto intro: order_trans [OF zero_le_one] add_nonneg_nonneg)

lemma displayWidth_replicate [simp]: "r < 0x1100 \<Longrightarrow> displayWidth (replicate n r) = int n"
  by (induction n) (simp_all add: runeWidth_def)

lemma displayWidth_tx [simp]: "displayWidth (tx s) = int (length s)"
proof (induction s)
  case (Cons c s)
  have "(of_char c :: int) < 256" by (metis of_char_def of_nat_of_char of_nat_less_iff nat_of_char_less_256 of_nat_numeral)
  with Cons show ?case by (simp add: tx_def runeWidth_def)
qed (simp add: tx_def)

lemma take_width_le: "0 \<le> m \<Longrightarrow> displayWidth (take_width m s) \<le> m"
proof (induction m s rule: take_width.induct)
  case (2 m r rs)
  then show ?case by auto
qed simp

lemma truncateMiddle_le: "0 \<le> cols \<Longrightarrow> displayWidth (truncateMiddle s cols) \<le> cols"
  using take_width_le [of "(cols - 3 + 1) div 2" s]
    take_width_le [of "(cols - 3) div 2" "rev (drop (length (take_width ((cols - 3 + 1) div 2) s)) s)"]
  by (auto simp: truncateMiddle_def Let_def)

lemma build_width: "displayWidth (build_line st stats name bar) = displayWidth (build_line st stats [] bar) + displayWidth name"
  by (simp add: build_line_def)

lemma fit_line_le: "0 < cols \<Longrightarrow> displayWidth (fit_line st stats name bar cols) \<le> cols"
  using truncateMiddle_le [of "cols - displayWidth (build_line st stats [] bar)" name]
    truncateMiddle_le [of "cols - displayWidth (build_line st stats [] [])" name]
    truncateMiddle_le [of cols "build_line st stats name []"]
    build_width [of st stats "truncateMiddle name (cols - displayWidth (build_line st stats [] bar))" bar]
    build_width [of st stats "truncateMiddle name (cols - displayWidth (build_line st stats [] []))" "[]"]
  by (auto simp: fit_line_def Let_def)

lemma lineLocked_le: "lineLocked s now cols p = Some l \<Longrightarrow> 0 < cols \<Longrightarrow> displayWidth l \<le> cols"
  by (auto simp: lineLocked_def line_def Let_def fit_line_le split: option.splits if_splits bind_splits)

lemma maxCols_pos: "maxCols p = (m, p') \<Longrightarrow> 0 < m"
  by (auto simp: maxCols_def Let_def split: if_splits)

section \<open>The bar\<close>

lemma fraction_bounds:
  assumes "0 \<le> d" "d \<le> t" "0 < t"
  shows "0 \<le> fmul (fdiv (float64 d) (float64 t)) (float64 barWidth)"
    "fmul (fdiv (float64 d) (float64 t)) (float64 barWidth) \<le> 20"
proof -
  have f: "0 \<le> float64 d" "float64 d \<le> float64 t" "0 \<le> float64 t"
    using assms by (auto simp: float64_def intro: fl_mono)
  then have "float64 d / float64 t \<le> 1" "0 \<le> float64 d / float64 t" by (auto simp: divide_le_eq)
  then have q: "fdiv (float64 d) (float64 t) \<le> 1" "0 \<le> fdiv (float64 d) (float64 t)"
    using fl_mono [of "float64 d / float64 t" 1] by (auto simp: fdiv_def)
  then show "0 \<le> fmul (fdiv (float64 d) (float64 t)) (float64 barWidth)"
    "fmul (fdiv (float64 d) (float64 t)) (float64 barWidth) \<le> 20"
    using fl_mono [of "fdiv (float64 d) (float64 t) * 20" 20] by (auto simp: fmul_def float64_def barWidth_def)
qed

lemma int64_of_range: "0 \<le> x \<Longrightarrow> x \<le> 20 \<Longrightarrow> int64_of oor x = \<lfloor>x\<rfloor> \<and> 0 \<le> \<lfloor>x\<rfloor> \<and> \<lfloor>x\<rfloor> \<le> 20"
  by (auto simp: int64_of_def Let_def floor_le_iff le_floor_iff)

lemma progressBar_total:
  assumes "0 \<le> d" "d \<le> t" "0 < t"
  shows "\<exists>b. progressBar oor d t barWidth = Some b \<and> displayWidth b = barWidth + 2"
proof -
  define x where "x = fmul (fdiv (float64 d) (float64 t)) (float64 barWidth)"
  have "0 \<le> x" "x \<le> 20" unfolding x_def using fraction_bounds [OF assms] by auto
  then obtain f where "int64_of oor x = f" "0 \<le> f" "f \<le> 20" using int64_of_range by blast
  then show ?thesis
    unfolding progressBar_def x_def [symmetric] Let_def by (auto simp: repeat_rune_def barWidth_def)
qed

section \<open>Counting\<close>

lemma wrap64_id: "- (2 ^ 63) \<le> x \<Longrightarrow> x < 2 ^ 63 \<Longrightarrow> wrap64 x = x"
  by (simp add: wrap64_def)

lemma wrap64_add [simp]: "wrap64 (wrap64 a + b) = wrap64 (a + b)" "wrap64 (a + wrap64 b) = wrap64 (a + b)" "wrap64 (wrap64 a) = wrap64 a"
proof -
  have e: "wrap64 (c + wrap64 x) = wrap64 (c + x)" for c x
  proof -
    have "c + wrap64 x + 2 ^ 63 = c + (x + 2 ^ 63) mod 2 ^ 64" by (simp add: wrap64_def)
    then have "wrap64 (c + wrap64 x) = (c + (x + 2 ^ 63) mod 2 ^ 64) mod 2 ^ 64 - 2 ^ 63" by (simp only: wrap64_def [of "c + wrap64 x"])
    also have "\<dots> = wrap64 (c + x)" unfolding mod_add_right_eq by (simp only: wrap64_def add.assoc)
    finally show ?thesis .
  qed
  show "wrap64 (wrap64 a + b) = wrap64 (a + b)" using e [of b a] by (simp add: add.commute)
  show "wrap64 (a + wrap64 b) = wrap64 (a + b)" by (rule e)
  show "wrap64 (wrap64 a) = wrap64 a" using e [of 0 a] by simp
qed

definition chunk_sum :: "(int, int) gomap \<Rightarrow> int" where
  "chunk_sum m = (\<Sum>k\<in>mdom m. mget0 m k)"

lemma chunk_sum_empty [simp]: "chunk_sum mempty = 0"
  by (simp add: chunk_sum_def)

lemma chunk_sum_put: "chunk_sum (mput k v m) = chunk_sum m + (v - mget0 m k)"
proof -
  have rest: "(\<Sum>j\<in>mdom m - {k}. mget0 (mput k v m) j) = (\<Sum>j\<in>mdom m - {k}. mget0 m j)"
    by (rule sum.cong) auto
  have "mdom (mput k v m) = insert k (mdom m - {k})" by auto
  then have "chunk_sum (mput k v m) = v + (\<Sum>j\<in>mdom m - {k}. mget0 m j)"
    unfolding chunk_sum_def using rest by (simp del: insert_Diff_single)
  moreover have "chunk_sum m = mget0 m k + (\<Sum>j\<in>mdom m - {k}. mget0 m j)"
    by (cases "k \<in> mdom m") (auto simp: chunk_sum_def sum.remove mget0_def domIff)
  ultimately show ?thesis by simp
qed

text \<open>
  The invariant of a transfer when the events so far carried \<open>n\<close> bytes: the start is not negative, the
  count is the sum over the chunks by offset, neither is near the end of \<open>int64\<close>, and a known total is
  never below what has arrived.
\<close>

definition wf_st :: "int \<Rightarrow> transferState \<Rightarrow> bool" where
  "wf_st n st =
     (0 \<le> ts_base st \<and> ts_base st < 2 ^ 62 \<and> ts_received st = chunk_sum (ts_chunks st) \<and>
      (\<forall>k\<in>mdom (ts_chunks st). 0 \<le> mget0 (ts_chunks st) k) \<and> chunk_sum (ts_chunks st) \<le> n \<and> n < 2 ^ 62 \<and> 0 \<le> ts_total st \<and>
      (0 < ts_total st \<longrightarrow> ts_done st \<le> ts_total st))"

lemma chunk_sum_nonneg: "\<forall>k\<in>mdom m. 0 \<le> mget0 m k \<Longrightarrow> 0 \<le> chunk_sum m"
  unfolding chunk_sum_def by (rule sum_nonneg) blast

lemma done_exact:
  "0 \<le> ts_base st \<Longrightarrow> ts_base st < 2 ^ 62 \<Longrightarrow> 0 \<le> ts_received st \<Longrightarrow> ts_received st < 2 ^ 62 \<Longrightarrow> ts_done st = ts_base st + ts_received st"
  unfolding ts_done_def by (rule wrap64_id) auto

lemma wf_st_exact: "wf_st n st \<Longrightarrow> ts_done st = ts_base st + ts_received st"
  using chunk_sum_nonneg [of "ts_chunks st"] by (intro done_exact) (auto simp: wf_st_def)

lemma wf_st_done: "wf_st n st \<Longrightarrow> 0 \<le> ts_done st"
  using chunk_sum_nonneg [of "ts_chunks st"] wf_st_exact [of n st] by (auto simp: wf_st_def)

lemma wf_st_mono: "wf_st n st \<Longrightarrow> n \<le> n' \<Longrightarrow> n' < 2 ^ 62 \<Longrightarrow> wf_st n' st"
  by (auto simp: wf_st_def)

lemma line_total:
  assumes "wf_st n st"
  shows "\<exists>l. line oor now cols stalled st = Some l"
proof (cases "0 < ts_total st")
  case True
  then obtain b where "progressBar oor (ts_done st) (ts_total st) barWidth = Some b"
    using progressBar_total [of "ts_done st" "ts_total st" oor] wf_st_done [OF assms] assms by (auto simp: wf_st_def)
  then show ?thesis by (simp add: line_def)
qed (simp add: line_def)

definition good_event :: "TransferEvent \<Rightarrow> bool" where
  "good_event ev = (0 \<le> te_Offset ev \<and> te_Offset ev < 2 ^ 62 \<and> 0 \<le> te_Bytes ev)"

lemma wf_new_transfer: "0 \<le> n \<Longrightarrow> n < 2 ^ 62 \<Longrightarrow> wf_st n (new_transfer ev now)"
  by (simp add: wf_st_def new_transfer_def)

text \<open>The count of a chunk alone: base and bytes by offset, before the total is adjusted.\<close>

definition count_chunk :: "TransferEvent \<Rightarrow> transferState \<Rightarrow> transferState" where
  "count_chunk ev st =
     (let st = (if \<not> ts_baseSet st \<or> te_Offset ev < ts_base st
                then st\<lparr>ts_base := te_Offset ev, ts_baseSet := True\<rparr> else st);
          prev = mget0 (ts_chunks st) (te_Offset ev)
      in if mget (ts_chunks st) (te_Offset ev) = None \<or> te_Bytes ev > prev
         then st\<lparr>ts_received := wrap64 (ts_received st + wrap64 (te_Bytes ev - prev)),
                 ts_chunks := mput (te_Offset ev) (te_Bytes ev) (ts_chunks st)\<rparr> else st)"

lemma record_chunk_count:
  "record_chunk ev st = (let c = (count_chunk ev st)\<lparr>ts_last := te_Offset ev\<rparr>
     in if ts_total c > 0 \<and> ts_done c > ts_total c then c\<lparr>ts_total := ts_done c\<rparr> else c)"
  by (simp add: record_chunk_def count_chunk_def Let_def)

lemma count_chunk_wf:
  assumes ev: "good_event ev" and t: "0 \<le> ts_base st" "ts_base st < 2 ^ 62" "n + te_Bytes ev < 2 ^ 62"
    and rc: "ts_received st = chunk_sum (ts_chunks st)" "chunk_sum (ts_chunks st) \<le> n"
    and nn: "\<forall>k\<in>mdom (ts_chunks st). 0 \<le> mget0 (ts_chunks st) k"
  defines "c \<equiv> count_chunk ev st"
  shows "0 \<le> ts_base c \<and> ts_base c < 2 ^ 62 \<and> ts_received c = chunk_sum (ts_chunks c) \<and> chunk_sum (ts_chunks c) \<le> n + te_Bytes ev \<and>
    (\<forall>k\<in>mdom (ts_chunks c). 0 \<le> mget0 (ts_chunks c) k) \<and> ts_total c = ts_total st"
proof -
  let ?m = "mput (te_Offset ev) (te_Bytes ev) (ts_chunks st)"
  have k: "\<forall>k\<in>mdom ?m. 0 \<le> mget0 ?m k" using nn ev by (auto simp: good_event_def)
  have prev: "0 \<le> mget0 (ts_chunks st) (te_Offset ev)" using nn by (cases "te_Offset ev \<in> mdom (ts_chunks st)") (auto simp: mget0_def domIff)
  then have sum: "chunk_sum ?m \<le> n + te_Bytes ev" using rc(2) by (simp add: chunk_sum_put)
  have "ts_received st + (te_Bytes ev - mget0 (ts_chunks st) (te_Offset ev)) = chunk_sum ?m" by (simp add: rc(1) chunk_sum_put)
  moreover have "wrap64 (chunk_sum ?m) = chunk_sum ?m" using sum t(3) chunk_sum_nonneg [OF k] by (intro wrap64_id) auto
  ultimately have w: "wrap64 (ts_received st + wrap64 (te_Bytes ev - mget0 (ts_chunks st) (te_Offset ev))) = chunk_sum ?m" by simp
  have base: "0 \<le> ts_base c" "ts_base c < 2 ^ 62" "ts_total c = ts_total st"
    using ev t unfolding c_def count_chunk_def Let_def good_event_def by auto
  show ?thesis
  proof (cases "mget (ts_chunks st) (te_Offset ev) = None \<or> te_Bytes ev > mget0 (ts_chunks st) (te_Offset ev)")
    case True
    then have "ts_chunks c = ?m" "ts_received c = chunk_sum ?m" using w unfolding c_def count_chunk_def Let_def by auto
    then show ?thesis using k sum base by simp
  next
    case False
    then have "ts_chunks c = ts_chunks st" "ts_received c = ts_received st" unfolding c_def count_chunk_def Let_def by auto
    then show ?thesis using nn rc ev base by (simp add: good_event_def)
  qed
qed

lemma wf_record_chunk:
  assumes ev: "good_event ev" and t: "0 \<le> ts_base st" "ts_base st < 2 ^ 62" "n + te_Bytes ev < 2 ^ 62" "0 \<le> ts_total st"
    and rc: "ts_received st = chunk_sum (ts_chunks st)" "chunk_sum (ts_chunks st) \<le> n"
    and nn: "\<forall>k\<in>mdom (ts_chunks st). 0 \<le> mget0 (ts_chunks st) k"
  shows "wf_st (n + te_Bytes ev) (record_chunk ev st)"
  using count_chunk_wf [OF ev t(1-3) rc nn] t(3,4) unfolding record_chunk_count Let_def
  by (auto simp: wf_st_def ts_done_def)

lemma wf_take_event:
  assumes "good_event ev" "wf_st n st" "n + te_Bytes ev < 2 ^ 62" "te_Start ev \<Longrightarrow> st = new_transfer ev now"
  shows "wf_st (n + te_Bytes ev) (take_event ev now st)"
proof -
  define s1 where "s1 = (if te_Total ev > 0 then st\<lparr>ts_total := te_Total ev\<rparr> else st)"
  define s2 where "s2 = (if te_Start ev then s1\<lparr>ts_base := 0, ts_baseSet := True\<rparr> else record_chunk ev s1)"
  have "wf_st (n + te_Bytes ev) s2"
  proof (cases "te_Start ev")
    case True
    have n: "0 \<le> n + te_Bytes ev" using assms(1,2) chunk_sum_nonneg [of "ts_chunks st"] by (auto simp: good_event_def wf_st_def)
    have "ts_done (new_transfer ev now) = 0" by (simp add: ts_done_def new_transfer_def wrap64_def)
    with True assms(3,4) n show ?thesis by (auto simp: s2_def s1_def new_transfer_def wf_st_def ts_done_def)
  next
    case False
    have "0 \<le> ts_base s1" "ts_base s1 < 2 ^ 62" "0 \<le> ts_total s1" "ts_received s1 = chunk_sum (ts_chunks s1)" "chunk_sum (ts_chunks s1) \<le> n"
      "\<forall>k\<in>mdom (ts_chunks s1). 0 \<le> mget0 (ts_chunks s1) k"
      using assms(2) by (auto simp: s1_def wf_st_def)
    with False show ?thesis using wf_record_chunk [OF assms(1) _ _ assms(3), of s1] by (simp add: s2_def)
  qed
  then show ?thesis
    using wf_st_done [of _ s2]
    by (auto simp: take_event_def s1_def [symmetric] s2_def [symmetric] Let_def trimSamples_def wf_st_def ts_done_def)
qed

text \<open>An event that does not overflow after events of \<open>n\<close> bytes.\<close>

definition fits :: "int \<Rightarrow> TransferEvent \<Rightarrow> bool" where
  "fits n ev = (good_event ev \<and> 0 \<le> n \<and> n + te_Bytes ev < 2 ^ 62)"

lemma fitsD: "fits n ev \<Longrightarrow> good_event ev \<and> 0 \<le> n \<and> n < 2 ^ 62 \<and> n \<le> n + te_Bytes ev \<and> n + te_Bytes ev < 2 ^ 62"
  by (auto simp: fits_def good_event_def)

lemma take_event_key [simp]:
  "ts_dir (take_event ev now st) = ts_dir st" "ts_path (take_event ev now st) = ts_path st"
  by (simp_all add: take_event_def record_chunk_def trimSamples_def Let_def)

section \<open>The tables\<close>

text \<open>
  The order lists the active transfers once each, a transfer is active or recent under its own key,
  and no audit line waits outside the lock.
\<close>

definition state_key :: "transferState \<Rightarrow> runes" where
  "state_key st = ts_dir st @ [0] @ ts_path st"

definition wf_map :: "int \<Rightarrow> (runes, transferState) gomap \<Rightarrow> bool" where
  "wf_map n m = (\<forall>k st. mget m k = Some st \<longrightarrow> wf_st n st \<and> state_key st = k)"

definition wf_tables :: "int \<Rightarrow> (runes, transferState) gomap \<Rightarrow> runes list \<Rightarrow> (runes, transferState) gomap \<Rightarrow> bool" where
  "wf_tables n act ord rec =
     (distinct ord \<and> set ord = mdom act \<and> mdom act \<inter> mdom rec = {} \<and> wf_map n act \<and> wf_map n rec)"

abbreviation wf_display :: "int \<Rightarrow> transferProgress \<Rightarrow> bool" where
  "wf_display n p \<equiv> wf_tables n (p_active p) (p_order p) (p_recent p)"

lemma wf_tables_mono: "wf_tables n act ord rec \<Longrightarrow> n \<le> n' \<Longrightarrow> n' < 2 ^ 62 \<Longrightarrow> wf_tables n' act ord rec"
  unfolding wf_tables_def wf_map_def using wf_st_mono by blast

lemma wf_map_put: "wf_map n m \<Longrightarrow> wf_st n st \<Longrightarrow> state_key st = k \<Longrightarrow> wf_map n (mput k st m)"
  by (auto simp: wf_map_def)

lemma wf_map_del: "wf_map n m \<Longrightarrow> wf_map n (mdel k m)"
  by (auto simp: wf_map_def)

lemma wf_tables_move:
  "wf_tables n act ord rec \<Longrightarrow> mget act k = Some st \<Longrightarrow> wf_tables n (mdel k act) (remove1 k ord) (mput k st rec)"
  by (auto simp: wf_tables_def intro: wf_map_del wf_map_put) (auto simp: wf_map_def)

lemma wf_tables_open:
  "wf_tables n act ord rec \<Longrightarrow> mget act k = None \<Longrightarrow> wf_st n st \<Longrightarrow> state_key st = k \<Longrightarrow>
   wf_tables n (mput k st act) (ord @ [k]) (mdel k rec)"
  by (auto simp: wf_tables_def domIff intro: wf_map_del wf_map_put)

lemma wf_tables_update:
  "wf_tables n act ord rec \<Longrightarrow> mget act k = Some old \<Longrightarrow> wf_st n st \<Longrightarrow> state_key st = k \<Longrightarrow>
   wf_tables n (mput k st act) ord rec"
  by (auto simp: wf_tables_def domIff intro: wf_map_put)

text \<open>What drawing and erasing leave alone.\<close>

lemma tables_clear [simp]:
  "p_active (clearLocked p) = p_active p" "p_order (clearLocked p) = p_order p" "p_recent (clearLocked p) = p_recent p"
  by (simp_all add: clearLocked_def maxCols_def fprint_def Let_def)

lemma draw_total:
  assumes "wf_display n p"
  shows "\<exists>p'. drawLocked p = Some p' \<and> p_active p' = p_active p \<and> p_order p' = p_order p \<and> p_recent p' = p_recent p"
proof (cases "\<not> p_tty p \<or> p_stopped p \<or> p_order p = []")
  case False
  then have "hd (p_order p) \<in> mdom (p_active p)" using assms by (metis hd_in_set wf_tables_def)
  then obtain st where st: "mget (p_active p) (hd (p_order p)) = Some st" by auto
  with assms have "wf_st n st" by (auto simp: wf_tables_def wf_map_def)
  then have "\<exists>l. lineLocked (Some st) now cols q = Some l" for now cols q
    by (simp add: lineLocked_def Let_def line_total)
  then obtain l where l: "\<And>now cols q. lineLocked (Some st) now cols q = Some (l now cols q)" by metis
  show ?thesis using False by (simp add: drawLocked_def maxCols_def call_now_def fprint_def Let_def st l split: prod.split)
qed (auto simp: drawLocked_def)

lemma tables_print [simp]:
  "p_active (fprintln s p) = p_active p" "p_order (fprintln s p) = p_order p" "p_recent (fprintln s p) = p_recent p"
  "p_active (fprint s p) = p_active p" "p_order (fprint s p) = p_order p" "p_recent (fprint s p) = p_recent p"
  "p_active (add_log s p) = p_active p" "p_order (add_log s p) = p_order p" "p_recent (add_log s p) = p_recent p"
  "p_active (logDuplicate ev p) = p_active p" "p_order (logDuplicate ev p) = p_order p"
  "p_recent (logDuplicate ev p) = p_recent p"
  "p_active (unlock p) = p_active p" "p_order (unlock p) = p_order p" "p_recent (unlock p) = p_recent p"
  by (simp_all add: fprintln_def fprint_def add_log_def logDuplicate_def unlock_def)

lemma finish_draws:
  assumes "mget (p_active p) key = Some st"
  shows "\<exists>r. finishLocked key p = drawLocked r \<and> p_active r = mdel key (p_active p) \<and>
     p_order r = remove1 key (p_order p) \<and> p_recent r = mput key st (p_recent p)"
  unfolding finishLocked_def Let_def assms option.case by (rule exI, rule conjI, rule refl) simp

lemma finish_total:
  assumes "wf_display n p"
  shows "\<exists>p'. finishLocked key p = Some p' \<and> wf_display n p' \<and> mget (p_active p') = (mget (p_active p))(key := None)"
proof (cases "mget (p_active p) key")
  case None
  then show ?thesis using assms by (simp add: finishLocked_def fun_upd_idem)
next
  case (Some st)
  obtain r where r: "finishLocked key p = drawLocked r" "p_active r = mdel key (p_active p)"
    "p_order r = remove1 key (p_order p)" "p_recent r = mput key st (p_recent p)"
    using finish_draws [of p, OF Some] by blast
  then have "wf_display n r" using wf_tables_move [OF assms Some] by simp
  from draw_total [OF this] show ?thesis using r \<open>wf_display n r\<close> by auto
qed

lemma wf_unlock: "wf_display n p \<Longrightarrow> wf_display n (unlock p)"
  by simp

lemma event_on_total:
  assumes wf: "wf_display n p" and ev: "fits n ev"
    and st: "mget (p_active p) (event_key ev) = Some st0" "wf_st n st" "state_key st = event_key ev"
    and start: "te_Start ev \<Longrightarrow> st = new_transfer ev now"
  shows "\<exists>p'. event_on ev now st p = Some p' \<and> wf_display (n + te_Bytes ev) p'"
proof -
  define q where "q = (if \<not> te_Start ev \<and> mget (ts_chunks st) (te_Offset ev) \<noteq> None then logDuplicate ev p else p)"
  define r where "r = q\<lparr>p_active := mput (event_key ev) (take_event ev now st) (p_active q)\<rparr>"
  have "wf_st (n + te_Bytes ev) (take_event ev now st)" using wf_take_event [OF _ st(2) _ start] fitsD [OF ev] by blast
  moreover have "wf_display (n + te_Bytes ev) p" using wf_tables_mono [OF wf] fitsD [OF ev] by blast
  ultimately have "wf_display (n + te_Bytes ev) r"
    using wf_tables_update [OF _ st(1)] st(3) by (auto simp: r_def q_def state_key_def)
  moreover have "event_on ev now st p = (if finished ev (take_event ev now st) then finishLocked (event_key ev) r else Some r)"
    by (simp only: event_on_def Let_def r_def q_def)
  ultimately show ?thesis using finish_total [of "n + te_Bytes ev" r "event_key ev"] by auto
qed

lemma open_total:
  assumes "wf_display n p" "fits n ev" "mget (p_active p) (event_key ev) = None"
  shows "\<exists>p'. event_on ev now (new_transfer ev now) (open_transfer ev now p) = Some p' \<and> wf_display (n + te_Bytes ev) p'"
proof (rule event_on_total)
  have k: "state_key (new_transfer ev now) = event_key ev" by (simp add: state_key_def new_transfer_def event_key_def)
  then show "wf_display n (open_transfer ev now p)"
    using wf_tables_open [OF assms(1,3) wf_new_transfer k] fitsD [OF assms(2)] by (cases "p_order p") (simp_all add: open_transfer_def Let_def)
  show "mget (p_active (open_transfer ev now p)) (event_key ev) = Some (new_transfer ev now)"
    by (simp add: open_transfer_def Let_def)
  show "state_key (new_transfer ev now) = event_key ev" by (rule k)
qed (use assms fitsD [OF assms(2)] in \<open>simp_all add: wf_new_transfer\<close>)

lemma reopen_total:
  assumes "wf_display n p" "fits n ev" "mget (p_active p) (event_key ev) = None" "\<not> te_Start ev"
    and old: "mget (p_recent p) (event_key ev) = Some old"
  shows "\<exists>p'. event_on ev now (old\<lparr>ts_grown := True\<rparr>) (reopen_transfer ev (old\<lparr>ts_grown := True\<rparr>) p) = Some p' \<and> wf_display (n + te_Bytes ev) p'"
proof (rule event_on_total)
  have "wf_st n old" "state_key old = event_key ev" using assms(1) old by (auto simp: wf_tables_def wf_map_def)
  then show st: "wf_st n (old\<lparr>ts_grown := True\<rparr>)" "state_key (old\<lparr>ts_grown := True\<rparr>) = event_key ev"
    by (auto simp: wf_st_def ts_done_def state_key_def)
  show "wf_display n (reopen_transfer ev (old\<lparr>ts_grown := True\<rparr>) p)"
    using wf_tables_open [OF assms(1,3) st] by (simp add: reopen_transfer_def Let_def)
qed (use assms in \<open>simp_all add: reopen_transfer_def Let_def\<close>)

lemma Event_total:
  assumes "wf_display n p" "fits n ev"
  shows "\<exists>p'. Event ev p = Some p' \<and> wf_display (n + te_Bytes ev) p'"
proof -
  define now q where "now = fst (call_now p)" and "q = snd (call_now p)"
  have q: "call_now p = (now, q)" "wf_display n q" using assms(1) by (simp_all add: now_def q_def call_now_def)
  have fresh: "\<exists>p'. event_on ev now (new_transfer ev now) (open_transfer ev now r) = Some p' \<and> wf_display (n + te_Bytes ev) p'"
    if "wf_display n r" "mget (p_active r) (event_key ev) = None" for r
    using open_total [OF that(1) assms(2) that(2)] .
  have "\<exists>p'. Event_locked ev p = Some p' \<and> wf_display (n + te_Bytes ev) p'"
  proof (cases "mget (p_active q) (event_key ev)")
    case None
    have "\<exists>p'. event_on ev now (old\<lparr>ts_grown := True\<rparr>) (reopen_transfer ev (old\<lparr>ts_grown := True\<rparr>) q) = Some p' \<and> wf_display (n + te_Bytes ev) p'"
      if "recent_transfer ev now q = Some old" for old
      using that reopen_total [OF q(2) assms(2) None] by (auto simp: recent_transfer_def split: if_splits option.splits)
    moreover have "wf_display (n + te_Bytes ev) q" using wf_tables_mono [OF q(2)] fitsD [OF assms(2)] by blast
    ultimately show ?thesis using None q fresh [OF q(2) None]
      by (auto simp: Event_locked_def Let_def split: option.split)
  next
    case (Some st)
    then have "wf_st n st" "state_key st = event_key ev" using q(2) by (auto simp: wf_tables_def wf_map_def)
    then have "\<exists>p'. event_on ev now st q = Some p' \<and> wf_display (n + te_Bytes ev) p'" if "\<not> te_Start ev"
      using event_on_total [OF q(2) assms(2) Some] that by blast
    moreover obtain r where "finishLocked (event_key ev) q = Some r" "wf_display n r" "mget (p_active r) (event_key ev) = None"
      using finish_total [OF q(2), of "event_key ev"] by auto
    ultimately show ?thesis using Some q(1) fresh [of r] by (simp add: Event_locked_def Let_def)
  qed
  then show ?thesis by (auto simp: Event_def)
qed

lemma finish_idle_total: "wf_display n p \<Longrightarrow> \<exists>p'. finish_idle now ks p = Some p' \<and> wf_display n p'"
proof (induction ks arbitrary: p)
  case (Cons k ks)
  obtain r where "finishLocked k p = Some r" "wf_display n r" using finish_total [OF Cons.prems] by blast
  with Cons show ?case by (auto split: option.split)
qed simp

lemma print_lines_total:
  "wf_display n p \<Longrightarrow> set ks \<subseteq> mdom (p_active p) \<Longrightarrow> \<exists>p'. print_lines now ks p = Some p' \<and> wf_display n p'"
proof (induction ks arbitrary: p)
  case (Cons k ks)
  then obtain st where st: "mget (p_active p) k = Some st" by auto
  with Cons.prems have "wf_st n st" by (auto simp: wf_tables_def wf_map_def)
  then obtain l where l: "lineLocked (Some st) now 0 p = Some l"
    using line_total [OF \<open>wf_st n st\<close>] unfolding lineLocked_def Let_def option.case by blast
  have "\<exists>p'. print_lines now ks (fprintln l p) = Some p' \<and> wf_display n p'"
    using Cons.prems by (intro Cons.IH) auto
  then show ?case by (simp add: st l)
qed simp

lemma forget_recent_sub:
  "mget (fold (\<lambda>k m. case mget m k of Some st \<Rightarrow> if P st then mdel k m else m | None \<Rightarrow> m) ks m) k = Some st \<Longrightarrow>
   mget m k = Some st"
proof (induction ks arbitrary: m)
  case (Cons j ks)
  from Cons.IH [OF Cons.prems [unfolded fold_simps]] show ?case by (auto split: option.splits if_splits)
qed simp

lemma wf_forget_recent:
  assumes "wf_display n p"
  shows "wf_display n (forget_recent now p)"
proof -
  have sub: "mget (p_recent (forget_recent now p)) k = Some st \<Longrightarrow> mget (p_recent p) k = Some st" for k st
    unfolding forget_recent_def by simp (erule forget_recent_sub)
  then have "mdom (p_recent (forget_recent now p)) \<subseteq> mdom (p_recent p)" by blast
  moreover have "wf_map n (p_recent (forget_recent now p))" using assms sub unfolding wf_tables_def wf_map_def by metis
  ultimately show ?thesis using assms by (auto simp: wf_tables_def forget_recent_def)
qed

lemma tick_total:
  assumes "wf_display n p"
  shows "\<exists>p'. tick p = Some p' \<and> wf_display n p'"
proof -
  obtain now p0 where c: "call_now p = (now, p0)" by fastforce
  define q where "q = forget_recent now p0"
  have "wf_display n p0" using assms c by (auto simp: call_now_def)
  then have q: "wf_display n q" unfolding q_def by (rule wf_forget_recent)
  obtain r where r: "finish_idle now (p_order q) q = Some r" "wf_display n r" using finish_idle_total [OF q] by blast
  have "wf_display n (r\<lparr>p_lastPlain := now\<rparr>)" "set (p_order r) \<subseteq> mdom (p_active r)"
    using r(2) by (auto simp: wf_tables_def)
  then have "\<exists>p'. print_lines now (p_order r) (r\<lparr>p_lastPlain := now\<rparr>) = Some p' \<and> wf_display n p'"
    by (intro print_lines_total) auto
  moreover have "\<exists>p'. drawLocked r = Some p' \<and> wf_display n p'" using draw_total [OF r(2)] r(2) by auto
  ultimately have "\<exists>p'. tick_locked p = Some p' \<and> wf_display n p'"
    using r(1) by (auto simp: tick_locked_def c q_def [symmetric] Let_def r(2))
  then show ?thesis by (auto simp: tick_def)
qed

section \<open>Runs of the display\<close>

datatype display_op = DEvent TransferEvent | DTick | DPrint runes | DWrite runes | DStop

fun display_step :: "display_op \<Rightarrow> transferProgress \<Rightarrow> transferProgress option" where
  "display_step (DEvent ev) p = Event ev p"
| "display_step DTick p = tick p"
| "display_step (DPrint t) p = Print t p"
| "display_step (DWrite b) p = passthrough_Write b p"
| "display_step DStop p = Some (Stop p)"

fun display_run :: "display_op list \<Rightarrow> transferProgress \<Rightarrow> transferProgress option" where
  "display_run [] p = Some p"
| "display_run (x # xs) p = Option.bind (display_step x p) (display_run xs)"

fun good_op :: "display_op \<Rightarrow> bool" where
  "good_op (DEvent ev) = good_event ev"
| "good_op _ = True"

fun op_bytes :: "display_op \<Rightarrow> int" where
  "op_bytes (DEvent ev) = te_Bytes ev"
| "op_bytes _ = 0"

lemma display_step_total:
  assumes "wf_display n p" "good_op x" "0 \<le> n" "n + op_bytes x < 2 ^ 62"
  shows "\<exists>p'. display_step x p = Some p' \<and> wf_display (n + op_bytes x) p'"
proof (cases x)
  case (DEvent ev)
  then show ?thesis using assms Event_total [of n p ev] by (simp add: fits_def)
next
  case DTick
  then show ?thesis using assms tick_total by simp
next
  case (DPrint t)
  have "wf_display n (fprint t (clearLocked p))" using assms by simp
  from draw_total [OF this] show ?thesis using DPrint assms by (auto simp: Print_def)
next
  case (DWrite b)
  have "wf_display n ((clearLocked p)\<lparr>p_out := p_out (clearLocked p) @ [Behind b]\<rparr>)" using assms by simp
  from draw_total [OF this] show ?thesis using DWrite assms by (auto simp: passthrough_Write_def Let_def)
next
  case DStop
  then show ?thesis using assms by (simp add: Stop_def Let_def fprintln_def fprint_def)
qed

lemma op_bytes_nonneg: "good_op x \<Longrightarrow> 0 \<le> op_bytes x"
  by (cases x) (simp_all add: good_event_def)

lemma display_run_total:
  "wf_display n p \<Longrightarrow> list_all good_op xs \<Longrightarrow> 0 \<le> n \<Longrightarrow> n + sum_list (map op_bytes xs) < 2 ^ 62 \<Longrightarrow>
   \<exists>p'. display_run xs p = Some p' \<and> wf_display (n + sum_list (map op_bytes xs)) p'"
proof (induction xs arbitrary: n p)
  case (Cons x xs)
  have b: "0 \<le> op_bytes x" "0 \<le> sum_list (map op_bytes xs)"
    using Cons.prems(2) op_bytes_nonneg by (auto intro!: sum_list_nonneg simp: list_all_iff)
  with Cons.prems obtain q where q: "display_step x p = Some q" "wf_display (n + op_bytes x) q"
    using display_step_total [of n p x] by auto
  from Cons.IH [OF q(2)] Cons.prems b q(1) show ?case by (auto simp: add.assoc)
qed simp

lemma wf_newTransferProgress: "wf_display n (newTransferProgress tty w now oor clock)"
  by (auto simp: newTransferProgress_def wf_tables_def wf_map_def)

text \<open>
  C38. The progress display never panics, whatever the order of events, ticks, printed lines and stops, the
  clock and the widths of the terminal, when every event has an offset from 0 to below \<open>2^62\<close> and a size that is
  not negative, and the sizes of all events of the run sum up to less than \<open>2^62\<close>: the \<open>int64\<close> counts
  then do not overflow, no bar is drawn with a negative length and no missing transfer is drawn. Its tables
  stay consistent: the order lists the active transfers once each, a transfer is active or recent but not both,
  under its own key, and every transfer counts exactly the bytes of its chunks from its smallest offset, never above its total.
\<close>

theorem progress_display_sound:
  assumes "list_all good_op xs" "sum_list (map op_bytes xs) < 2 ^ 62"
  shows "\<exists>p. display_run xs (newTransferProgress tty w now oor clock) = Some p \<and>
     distinct (p_order p) \<and> set (p_order p) = mdom (p_active p) \<and> mdom (p_active p) \<inter> mdom (p_recent p) = {} \<and>
     (\<forall>k st. mget (p_active p) k = Some st \<longrightarrow> k = ts_dir st @ [0] @ ts_path st \<and>
        ts_received st = chunk_sum (ts_chunks st) \<and> ts_done st = ts_base st + ts_received st \<and>
        0 \<le> ts_done st \<and> (0 < ts_total st \<longrightarrow> ts_done st \<le> ts_total st))"
proof -
  obtain p where p: "display_run xs (newTransferProgress tty w now oor clock) = Some p" "wf_display (sum_list (map op_bytes xs)) p"
    using display_run_total [OF wf_newTransferProgress [of 0 tty w now oor clock] assms(1)] assms(2) by auto
  have "mget (p_active p) k = Some st \<Longrightarrow> wf_st (sum_list (map op_bytes xs)) st \<and> state_key st = k" for k st
    using p(2) by (auto simp: wf_tables_def wf_map_def)
  then show ?thesis using p wf_st_done wf_st_exact by (fastforce simp: wf_tables_def wf_st_def state_key_def)
qed

theorem progress_display_sound_witness:
  "\<exists>p. display_run [DEvent (zero_event\<lparr>te_Dir := tx ''upload'', te_Path := tx ''a'', te_Total := 10, te_Start := True\<rparr>), DTick,
      DEvent (zero_event\<lparr>te_Dir := tx ''upload'', te_Path := tx ''a'', te_Total := 10, te_Bytes := 10\<rparr>)]
      (newTransferProgress True None (\<lambda>n. int n) (\<lambda>_. 0) (\<lambda>_. [])) = Some p \<and> distinct (p_order p)"
  using progress_display_sound [of "[DEvent (zero_event\<lparr>te_Dir := tx ''upload'', te_Path := tx ''a'', te_Total := 10, te_Start := True\<rparr>), DTick,
      DEvent (zero_event\<lparr>te_Dir := tx ''upload'', te_Path := tx ''a'', te_Total := 10, te_Bytes := 10\<rparr>)]"
      True None "\<lambda>n. int n" "\<lambda>_. 0" "\<lambda>_. []"]
  by (simp add: good_event_def zero_event_def del: display_run.simps) blast

section \<open>Counting is independent of order and repetition\<close>

text \<open>The chunks of a transfer as the pairs of offset and size that arrived.\<close>

definition arrived :: "(TransferEvent \<times> int) list \<Rightarrow> (int \<times> int) set" where
  "arrived xs = (\<lambda>(ev, _). (te_Offset ev, te_Bytes ev)) ` set xs"

definition take_all :: "(TransferEvent \<times> int) list \<Rightarrow> transferState \<Rightarrow> transferState" where
  "take_all xs st = fold (\<lambda>(ev, now). take_event ev now) xs st"

definition sizes_at :: "(int \<times> int) set \<Rightarrow> int \<Rightarrow> int set" where
  "sizes_at S k = {b. (k, b) \<in> S}"

lemma take_event_chunks:
  assumes "\<not> te_Start ev"
  shows "mget (ts_chunks (take_event ev now st)) =
     (mget (ts_chunks st))(te_Offset ev \<mapsto> (case mget (ts_chunks st) (te_Offset ev) of None \<Rightarrow> te_Bytes ev | Some b \<Rightarrow> max (te_Bytes ev) b))"
  using assms
  by (auto simp: take_event_def record_chunk_def trimSamples_def Let_def mget0_def max_def split: option.split intro!: ext)

lemma take_event_base:
  assumes "\<not> te_Start ev"
  shows "ts_baseSet (take_event ev now st)"
    "ts_base (take_event ev now st) = (if ts_baseSet st then min (ts_base st) (te_Offset ev) else te_Offset ev)"
  using assms by (auto simp: take_event_def record_chunk_def trimSamples_def Let_def)

lemma take_event_sum:
  assumes "\<not> te_Start ev" "ts_received st = wrap64 (chunk_sum (ts_chunks st))"
  shows "ts_received (take_event ev now st) = wrap64 (chunk_sum (ts_chunks (take_event ev now st)))"
  using assms by (auto simp: take_event_def record_chunk_def trimSamples_def Let_def chunk_sum_put)

lemma finite_sizes_at [simp]: "finite (sizes_at (arrived xs) k)"
proof -
  have "sizes_at (arrived xs) k \<subseteq> snd ` arrived xs" by (force simp: sizes_at_def)
  then show ?thesis by (rule finite_subset) (simp add: arrived_def)
qed

lemma arrived_snoc: "arrived (xs @ [(ev, now)]) = insert (te_Offset ev, te_Bytes ev) (arrived xs)"
  by (auto simp: arrived_def)

lemma take_all_snoc: "take_all (xs @ [(ev, now)]) st = take_event ev now (take_all xs st)"
  by (simp add: take_all_def)

lemma take_all_chunks:
  assumes "list_all (\<lambda>(ev, _). \<not> te_Start ev) xs" "ts_chunks st = mempty"
  shows "mget (ts_chunks (take_all xs st)) k =
     (if sizes_at (arrived xs) k = {} then None else Some (Max (sizes_at (arrived xs) k)))"
  using assms(1)
proof (induction xs rule: rev_induct)
  case Nil
  then show ?case by (simp add: take_all_def arrived_def sizes_at_def assms(2))
next
  case (snoc x xs)
  obtain ev now where x: "x = (ev, now)" by fastforce
  have ins: "sizes_at (arrived (xs @ [x])) k = (if k = te_Offset ev then insert (te_Bytes ev) (sizes_at (arrived xs) k) else sizes_at (arrived xs) k)"
    by (auto simp: x arrived_snoc sizes_at_def)
  have ih: "mget (ts_chunks (take_all xs st)) k = (if sizes_at (arrived xs) k = {} then None else Some (Max (sizes_at (arrived xs) k)))"
    using snoc by simp
  have "\<not> te_Start ev" using snoc.prems by (simp add: x)
  from take_event_chunks [OF this] show ?case
    using ih finite_sizes_at [of xs k] unfolding ins
    by (cases "sizes_at (arrived xs) k = {}"; cases "k = te_Offset ev") (simp_all add: x take_all_snoc)
qed

lemma take_all_sum:
  assumes "list_all (\<lambda>(ev, _). \<not> te_Start ev) xs" "ts_received st = wrap64 (chunk_sum (ts_chunks st))"
  shows "ts_received (take_all xs st) = wrap64 (chunk_sum (ts_chunks (take_all xs st)))"
  using assms
proof (induction xs rule: rev_induct)
  case (snoc x xs)
  then show ?case by (cases x) (simp add: take_all_snoc take_event_sum)
qed (simp add: take_all_def)

lemma take_all_base:
  assumes "list_all (\<lambda>(ev, _). \<not> te_Start ev) xs"
  shows "ts_baseSet (take_all xs st) = (ts_baseSet st \<or> xs \<noteq> []) \<and>
     (ts_baseSet st \<or> xs \<noteq> [] \<longrightarrow>
      ts_base (take_all xs st) = Min ((if ts_baseSet st then {ts_base st} else {}) \<union> fst ` arrived xs))"
  using assms
proof (induction xs rule: rev_induct)
  case (snoc x xs)
  obtain ev now where x: "x = (ev, now)" by fastforce
  have st: "\<not> te_Start ev" and xs: "list_all (\<lambda>(ev, _). \<not> te_Start ev) xs" using snoc.prems by (auto simp: x)
  have fin: "finite (fst ` arrived xs)" by (simp add: arrived_def)
  have ne: "fst ` arrived xs = {} \<longleftrightarrow> xs = []" by (simp add: arrived_def)
  show ?case
    using snoc.IH [OF xs] take_event_base [OF st, of now "take_all xs st"] fin ne
    by (auto simp: x take_all_snoc arrived_snoc min.commute)
qed (simp add: take_all_def arrived_def)

text \<open>
  The count of a transfer depends only on which chunks arrived: in whatever order, however often
  repeated and whenever they arrive, the bytes received are the sum (in \<open>int64\<close>) over the offsets of the
  largest chunk at each, and the start is the smallest offset (0 for a transfer announced from its
  beginning).
\<close>

theorem progress_counts_each_offset_once:
  assumes "list_all (\<lambda>(ev, _). \<not> te_Start ev) xs" "xs \<noteq> []"
  shows "ts_received (take_all xs (new_transfer ev0 t0)) = wrap64 (\<Sum>k\<in>fst ` arrived xs. Max (sizes_at (arrived xs) k)) \<and>
     ts_base (take_all xs (new_transfer ev0 t0)) = Min (fst ` arrived xs) \<and>
     (te_Start ev0 \<longrightarrow>
      ts_base (take_all xs (take_event ev0 t0 (new_transfer ev0 t0))) = Min (insert 0 (fst ` arrived xs)) \<and>
      ts_received (take_all xs (take_event ev0 t0 (new_transfer ev0 t0))) =
        wrap64 (\<Sum>k\<in>fst ` arrived xs. Max (sizes_at (arrived xs) k)))"
proof -
  have sum: "ts_received (take_all xs st) = wrap64 (\<Sum>k\<in>fst ` arrived xs. Max (sizes_at (arrived xs) k))"
    if st: "ts_chunks st = mempty" "ts_received st = 0" for st
  proof -
    have m: "mget (ts_chunks (take_all xs st)) k = (if sizes_at (arrived xs) k = {} then None else Some (Max (sizes_at (arrived xs) k)))" for k
      using take_all_chunks [OF assms(1) st(1)] .
    have k: "sizes_at (arrived xs) k \<noteq> {} \<longleftrightarrow> k \<in> fst ` arrived xs" for k by (force simp: sizes_at_def)
    then have "mdom (ts_chunks (take_all xs st)) = fst ` arrived xs" by (auto simp: dom_def m)
    moreover have "mget0 (ts_chunks (take_all xs st)) k = Max (sizes_at (arrived xs) k)" if "k \<in> fst ` arrived xs" for k
      using that k [of k] by (simp add: mget0_def m)
    ultimately show ?thesis
      using take_all_sum [OF assms(1), of st] st by (simp add: chunk_sum_def wrap64_def [of 0])
  qed
  have new: "ts_chunks (new_transfer ev0 t0) = mempty" "ts_received (new_transfer ev0 t0) = 0" "\<not> ts_baseSet (new_transfer ev0 t0)"
    by (simp_all add: new_transfer_def)
  have start: "ts_chunks (take_event ev0 t0 (new_transfer ev0 t0)) = mempty" "ts_received (take_event ev0 t0 (new_transfer ev0 t0)) = 0"
    "ts_baseSet (take_event ev0 t0 (new_transfer ev0 t0))" "ts_base (take_event ev0 t0 (new_transfer ev0 t0)) = 0" if "te_Start ev0"
    using that by (simp_all add: take_event_def new_transfer_def trimSamples_def Let_def)
  show ?thesis
    using sum [OF new(1,2)] sum [OF start(1,2)] take_all_base [OF assms(1)] new(3) start(3,4) assms(2) by auto
qed

theorem progress_counts_each_offset_once_witness:
  "ts_base (take_all [(zero_event\<lparr>te_Offset := 8, te_Bytes := 4\<rparr>, 2), (zero_event\<lparr>te_Offset := 4, te_Bytes := 4\<rparr>, 3),
      (zero_event\<lparr>te_Offset := 8, te_Bytes := 4\<rparr>, 4)] (new_transfer zero_event 1)) = 4"
  using progress_counts_each_offset_once [of "[(zero_event\<lparr>te_Offset := 8, te_Bytes := 4\<rparr>, 2),
      (zero_event\<lparr>te_Offset := 4, te_Bytes := 4\<rparr>, 3), (zero_event\<lparr>te_Offset := 8, te_Bytes := 4\<rparr>, 4)]" zero_event 1]
  by (simp add: zero_event_def arrived_def)

section \<open>A negative offset\<close>

lemma negative_bar:
  assumes d: "d \<le> - t" "0 < t" "- d \<le> 2 ^ 58 * t"
  shows "progressBar oor d t barWidth = None"
proof -
  define q where "q = float64 (- d) / float64 t"
  have t: "1 \<le> float64 t" "float64 t \<le> float64 (- d)"
  proof -
    show "1 \<le> float64 t" using d unfolding float64_def by (intro fl_ge_1) simp
    show "float64 t \<le> float64 (- d)" using d unfolding float64_def by (intro fl_mono) simp_all
  qed
  have ub: "float64 (- d) \<le> 2 ^ 58 * float64 t"
  proof -
    have "rat_of_int (- d) \<le> rat_of_int (2 ^ 58 * t)" unfolding of_int_le_iff by (rule d(3))
    then have "fl (of_int (- d)) \<le> fl (2 ^ 58 * of_int t)" using d by (intro fl_mono) simp_all
    also have "\<dots> = 2 ^ 58 * fl (of_int t)" using d by (intro fl_scale) simp
    finally show ?thesis by (simp add: float64_def)
  qed
  have q: "1 \<le> q" "q \<le> 2 ^ 58" using t ub by (auto simp: q_def le_divide_eq divide_le_eq)
  have f: "1 \<le> fl q" "fl q \<le> 2 ^ 58"
    using fl_ge_1 [OF q(1)] fl_mono [of q "2 ^ 58"] q fl_two_power [of 58] by auto
  define y where "y = fl (fl q * 20)"
  have "fl 20 \<le> y" unfolding y_def using f by (intro fl_mono) simp_all
  moreover have "y \<le> fl (2 ^ 58 * 20)" unfolding y_def using f by (intro fl_mono) simp_all
  ultimately have y: "20 \<le> y" "y < 2 ^ 63" using fl_scale [of 20 58] by simp_all
  have "fmul (fdiv (float64 d) (float64 t)) (float64 barWidth) = - y"
  proof -
    have "float64 d = - float64 (- d)" using fl_minus [of "of_int (- d)"] by (simp add: float64_def)
    then have "fdiv (float64 d) (float64 t) = - fl q" by (simp add: fdiv_def q_def)
    then show ?thesis by (simp add: fmul_def y_def float64_def barWidth_def)
  qed
  moreover obtain n where n: "\<lfloor>y\<rfloor> = n" "20 \<le> n" "n < 2 ^ 63" using y by (auto simp: le_floor_iff floor_less_iff)
  then have "int64_of oor (- y) < 0" using y(1) by (simp add: int64_of_def Let_def)
  ultimately show ?thesis by (auto simp: progressBar_def Let_def repeat_rune_def barWidth_def)
qed

lemma mdel_empty [simp]: "mdel k mempty = mempty"
  by transfer simp

lemma first_event:
  assumes ev: "\<not> te_Start ev" "\<not> te_EOF ev" "0 < te_Total ev" and d: "wrap64 (te_Offset ev + te_Bytes ev) < 0"
  shows "\<exists>st p. Event ev (newTransferProgress tty w now oor clock) = Some p \<and> p_order p = [event_key ev] \<and>
     mget (p_active p) (event_key ev) = Some st \<and> p_recent p = mempty \<and> p_tty p = tty \<and> \<not> p_stopped p \<and> p_now p = now \<and>
     p_nows p = 1 \<and> p_abandonAfter p = 120 * Second \<and> p_oor p = oor \<and>
     ts_total st = te_Total ev \<and> ts_done st = wrap64 (te_Offset ev + te_Bytes ev) \<and> \<not> ts_grown st \<and> ts_lastSeen st = now 0"
  using ev d
  by (simp add: Event_def Event_locked_def call_now_def newTransferProgress_def recent_transfer_def event_on_def
      open_transfer_def new_transfer_def take_event_def record_chunk_def trimSamples_def ts_done_def finished_def
      unlock_def add_log_def Let_def)

text \<open>
  C39. A helper can crash the share side. Take a chunk, parsed from a successful call of \<open>read_file\<close> or
  \<open>write_file\<close>, that is the first event of a display on a terminal, is not the end of the file and has a positive total: when
  its end, offset plus bytes in \<open>int64\<close>, is at or below minus the total (and not below \<open>-2^58\<close> totals, where
  the conversion of the quotient is left to the platform), the next tick within 120 seconds draws a bar of negative length and panics,
  outside any \<open>recover\<close>. A call of \<open>read_file\<close> gets there with a negative offset, which it treats as the
  beginning of the file; a call of \<open>write_file\<close> with an offset whose sum with the bytes overflows.
\<close>

theorem negative_offset_panics_display:
  assumes ev: "parseTransfer js tool args result = Some ev" "\<not> te_Start ev" "\<not> te_EOF ev" "0 < te_Total ev"
    and neg: "wrap64 (te_Offset ev + te_Bytes ev) \<le> - te_Total ev" "- (2 ^ 58 * te_Total ev) \<le> wrap64 (te_Offset ev + te_Bytes ev)"
    and soon: "now 1 - now 0 < 120 * Second"
  shows "(\<exists>p. Event ev (newTransferProgress True w now oor clock) = Some p \<and> tick p = None) \<and>
     (off < 0 \<longrightarrow> ReadFile_Run e (ra\<lparr>rf_Offset := off\<rparr>) f = ReadFile_Run e (ra\<lparr>rf_Offset := 0\<rparr>) f)"
proof
  show "off < 0 \<longrightarrow> ReadFile_Run e (ra\<lparr>rf_Offset := off\<rparr>) f = ReadFile_Run e (ra\<lparr>rf_Offset := 0\<rparr>) f"
    by (simp add: ReadFile_Run_def split: sum.split option.split)
next
  obtain st p where p: "Event ev (newTransferProgress True w now oor clock) = Some p" "p_order p = [event_key ev]"
    "mget (p_active p) (event_key ev) = Some st" "p_recent p = mempty" "p_tty p" "\<not> p_stopped p" "p_now p = now" "p_nows p = 1"
    "p_abandonAfter p = 120 * Second" "ts_total st = te_Total ev"
    "ts_done st = wrap64 (te_Offset ev + te_Bytes ev)" "\<not> ts_grown st" "ts_lastSeen st = now 0"
    using first_event [of ev True w now oor clock] ev neg by auto
  have "progressBar x (ts_done st) (ts_total st) barWidth = None" for x
    using ev neg p by (intro negative_bar) auto
  then have "lineLocked (Some st) t c q = None" for t c q
    using ev p by (simp add: lineLocked_def line_def Let_def)
  then have "tick p = None"
    using p soon ev
    by (simp add: tick_def tick_locked_def call_now_def forget_recent_def mkeys_def empty.rep_eq idleFinish_def drawLocked_def
        maxCols_def Let_def)
  with p(1) show "\<exists>p. Event ev (newTransferProgress True w now oor clock) = Some p \<and> tick p = None" by blast
qed

text \<open>A read at offset -200, and a write at \<open>2^63-1\<close> of four line breaks, which decode to nothing and are counted as 6 bytes.\<close>

definition demo_json :: transfer_json where
  "demo_json = \<lparr>tj_write = (\<lambda>_. Some \<lparr>wa_Path = tx ''log'', wa_Content = 34 # concat (replicate 4 [92, 110]) @ [34],
       wa_At = Some (2 ^ 63 - 1), wa_Total = 100\<rparr>),
     tj_read = (\<lambda>_. Some \<lparr>ra_Path = tx ''log'', ra_Offset = - 200, ra_Total = 100\<rparr>),
     tj_result = (\<lambda>_. Some \<lparr>tr_Bytes = 34 # bytes_of_string ''YWJj'' @ [34], tr_EOF = False\<rparr>)\<rparr>"

theorem negative_offset_panics_display_witness:
  "(\<exists>ev p. parseTransfer demo_json ''read_file'' [] [] = Some ev \<and>
      Event ev (newTransferProgress True None (\<lambda>n. int n * Second) (\<lambda>_. 0) (\<lambda>_. [])) = Some p \<and> tick p = None) \<and>
   (\<exists>ev p. parseTransfer demo_json ''write_file'' [] [] = Some ev \<and>
      Event ev (newTransferProgress True None (\<lambda>n. int n * Second) (\<lambda>_. 0) (\<lambda>_. [])) = Some p \<and> tick p = None)"
proof -
  have "base64JSONLen (34 # bytes_of_string ''YWJj'' @ [34]) = 3" by code_simp
  moreover have "base64JSONLen (34 # concat (replicate 4 [92, 110]) @ [34]) = 6" by code_simp
  ultimately obtain ev1 ev2 where ev: "parseTransfer demo_json ''read_file'' [] [] = Some ev1" "\<not> te_Start ev1" "\<not> te_EOF ev1"
      "te_Total ev1 = 100" "te_Offset ev1 + te_Bytes ev1 = - 197"
    "parseTransfer demo_json ''write_file'' [] [] = Some ev2" "\<not> te_Start ev2" "\<not> te_EOF ev2"
      "te_Total ev2 = 100" "te_Offset ev2 + te_Bytes ev2 = 2 ^ 63 + 5"
    by (simp add: parseTransfer_def demo_json_def zero_event_def positive_def)
  show ?thesis
    using negative_offset_panics_display [OF ev(1-3), of "\<lambda>n. int n * Second" None "\<lambda>_. 0" "\<lambda>_. []"]
      negative_offset_panics_display [OF ev(6-8), of "\<lambda>n. int n * Second" None "\<lambda>_. 0" "\<lambda>_. []"] ev
    by (auto simp: wrap64_def Second_def)
qed

end
