(* ===== verification/Transfer_Terminal.thy ===== *)
theory Transfer_Terminal
  imports Transfer_Progress_Props "HOL-Library.Sublist"
begin

text \<open>
  The order of what the progress display writes on a terminal. The display erases its line before anything
  else is written and draws it again afterwards; here is what that comes to: between a line that was drawn
  and any other text stands an erasure of exactly its columns, and a line is drawn over the one
  before only if it covers all its columns and fits the terminal.
\<close>

section \<open>Kinds of writes\<close>

text \<open>A line with the number of blanks after it, an erasure of some columns, another text, the line break of \<open>Stop\<close>.\<close>

datatype screen_write = Drawn runes nat | Erased nat | Printed written | Ended

fun write_text :: "screen_write \<Rightarrow> written" where
  "write_text (Drawn l n) = Out ([13] @ l @ replicate n 32)"
| "write_text (Erased n) = Out ([13] @ replicate n 32 @ [13])"
| "write_text (Printed w) = w"
| "write_text Ended = Out [10]"

text \<open>
  The columns that the progress line has on the current row after some writes, \<open>None\<close> when a write is out of place on a
  terminal of \<open>m\<close> usable columns: a line that does not fit or leaves columns of the one before, an erasure of
  other than the columns drawn, a text beside a line.
\<close>

fun row_columns :: "int \<Rightarrow> screen_write list \<Rightarrow> int \<Rightarrow> int option" where
  "row_columns m [] d = Some d"
| "row_columns m (Drawn l n # ws) d =
     (let c = displayWidth l + int n in if d \<le> c \<and> c \<le> m then row_columns m ws c else None)"
| "row_columns m (Erased n # ws) d = (if int n = d \<and> 0 < d then row_columns m ws 0 else None)"
| "row_columns m (Printed w # ws) d = (if d = 0 then row_columns m ws 0 else None)"
| "row_columns m (Ended # ws) d = (if 0 < d then row_columns m ws 0 else None)"

fun printed :: "screen_write list \<Rightarrow> written list" where
  "printed [] = []"
| "printed (Printed w # ws) = w # printed ws"
| "printed (_ # ws) = printed ws"

lemma row_columns_append: "row_columns m (ws @ us) d = Option.bind (row_columns m ws d) (row_columns m us)"
  by (induction m ws d rule: row_columns.induct) (auto simp: Let_def)

lemma printed_append [simp]: "printed (ws @ us) = printed ws @ printed us"
  by (induction ws rule: printed.induct) auto

section \<open>The operations of the display\<close>

definition fixed_cols :: "int \<Rightarrow> (nat \<Rightarrow> int) \<Rightarrow> bool" where
  "fixed_cols m w = (\<forall>n. m = (if w n > 1 then w n - 1 else 79))"

lemma maxCols_fixed: "fixed_cols m (p_width p) \<Longrightarrow> maxCols p = (m, p\<lparr>p_widths := Suc (p_widths p)\<rparr>)"
  by (auto simp: maxCols_def fixed_cols_def Let_def)

lemma fixed_cols_pos: "fixed_cols m w \<Longrightarrow> 0 < m"
  by (auto simp: fixed_cols_def split: if_splits)

text \<open>
  The display on a terminal of \<open>m\<close> columns: its writes \<open>ws\<close>; the texts printed are \<open>ts\<close> and summaries, which begin with a bracket.
\<close>

definition print_ok :: "written list \<Rightarrow> written \<Rightarrow> bool" where
  "print_ok ts w \<longleftrightarrow> w \<in> set ts \<or> (\<exists>t. w = Out (91 # t))"

definition tidy :: "int \<Rightarrow> written list \<Rightarrow> transferProgress \<Rightarrow> screen_write list \<Rightarrow> bool" where
  "tidy m ts p ws \<longleftrightarrow> p_out p = map write_text ws \<and> row_columns m ws 0 = Some (p_drawn p) \<and>
     0 \<le> p_drawn p \<and> p_drawn p \<le> m \<and> subseq ts (printed ws) \<and> list_all (print_ok ts) (printed ws)"

definition on_terminal :: "int \<Rightarrow> written list \<Rightarrow> transferProgress \<Rightarrow> bool" where
  "on_terminal m ts p \<longleftrightarrow> p_tty p \<and> fixed_cols m (p_width p) \<and> (\<exists>ws. tidy m ts p ws)"

lemma tidy_snoc:
  assumes "tidy m ts p ws" "p_out q = p_out p @ [write_text w]" "row_columns m [w] (p_drawn p) = Some (p_drawn q)"
    and "0 \<le> p_drawn q" "p_drawn q \<le> m" "subseq ts' (printed (ws @ [w]))" "list_all (print_ok ts') (printed (ws @ [w]))"
  shows "tidy m ts' q (ws @ [w])"
  using assms by (simp add: tidy_def row_columns_append)

lemma subseq_printed: "subseq ts (printed ws) \<Longrightarrow> subseq ts (printed (ws @ us))"
  using list_emb_append_mono [of "(=)" ts "printed ws" "[]" "printed us"] by simp

lemma clear_terminal:
  assumes t: "on_terminal m ts p"
  shows "on_terminal m ts (clearLocked p)" "p_drawn (clearLocked p) = 0"
proof -
  have m: "maxCols p = (m, p\<lparr>p_widths := Suc (p_widths p)\<rparr>)" using t by (simp add: on_terminal_def maxCols_fixed)
  obtain ws where ws: "tidy m ts p ws" using t by (auto simp: on_terminal_def)
  then have d: "0 \<le> p_drawn p" "p_drawn p \<le> m" by (auto simp: tidy_def)
  then show "p_drawn (clearLocked p) = 0" by (simp add: clearLocked_def m)
  have "tidy m ts (clearLocked p) (ws @ [Erased (nat (p_drawn p))])" if "0 < p_drawn p"
    using that d ws subseq_printed [of ts ws]
    by (intro tidy_snoc [OF ws]) (auto simp: clearLocked_def m fprint_def tidy_def)
  moreover have "clearLocked p = p" if "p_drawn p = 0" using that by (simp add: clearLocked_def)
  moreover have "p_tty (clearLocked p) = p_tty p" "p_width (clearLocked p) = p_width p" by (simp_all add: clearLocked_def m fprint_def)
  ultimately show "on_terminal m ts (clearLocked p)" using t d by (cases "p_drawn p = 0") (auto simp: on_terminal_def)
qed

lemma frame_fits:
  assumes "frame cols extra drawn l = (l1, pad)" "displayWidth l \<le> cols" "drawn \<le> cols"
  shows "\<exists>n. pad = replicate n 32 \<and> drawn \<le> displayWidth l1 + int n \<and> displayWidth l1 + int n \<le> cols"
proof -
  define more where "more = tx (''  (+'' @ show_int extra @ '')'')"
  define k where "k = min drawn cols - displayWidth l1"
  have l1: "l1 = (if extra > 0 \<and> displayWidth l + displayWidth more \<le> cols then l @ more else l)"
    and pad: "pad = (if 0 < k then replicate (nat k) 32 else [])"
    using assms(1) by (auto simp: frame_def Let_def more_def k_def)
  have "displayWidth l1 \<le> cols" using assms(2) by (simp add: l1)
  then show ?thesis using assms(3) pad by (intro exI [of _ "nat k"]) (auto simp: k_def)
qed

lemma draw_terminal:
  assumes t: "on_terminal m ts p" and d: "drawLocked p = Some q"
  shows "on_terminal m ts q"
proof (cases "p_stopped p \<or> p_order p = []")
  case False
  obtain ws where f: "fixed_cols m (p_width p)" "p_tty p" and ws: "tidy m ts p ws" using t by (auto simp: on_terminal_def)
  define p1 where "p1 = p\<lparr>p_widths := Suc (p_widths p), p_nows := Suc (p_nows p)\<rparr>"
  obtain l where l: "lineLocked (mget (p_active p) (hd (p_order p))) (p_now p (p_nows p)) m p1 = Some l"
    and q0: "q = (let (l1, pad) = frame m (int (length (p_order p)) - 1) (p_drawn p) l
      in (fprint ([13] @ l1 @ pad) p1)\<lparr>p_drawn := displayWidth l1 + int (length pad)\<rparr>)"
    using d False f
    by (auto simp: drawLocked_def maxCols_fixed call_now_def p1_def bind_eq_Some_conv Let_def case_prod_beta)
  obtain l1 pad where fr: "frame m (int (length (p_order p)) - 1) (p_drawn p) l = (l1, pad)" by fastforce
  with q0 have q: "q = (fprint ([13] @ l1 @ pad) p1)\<lparr>p_drawn := displayWidth l1 + int (length pad)\<rparr>" by simp
  have dm: "p_drawn p \<le> m" "subseq ts (printed ws)" "list_all (print_ok ts) (printed ws)" using ws by (auto simp: tidy_def)
  obtain n where n: "pad = replicate n 32" "p_drawn p \<le> displayWidth l1 + int n" "displayWidth l1 + int n \<le> m"
    using frame_fits [OF fr lineLocked_le [OF l fixed_cols_pos [OF f(1)]] dm(1)] by blast
  have "tidy m ts q (ws @ [Drawn l1 n])"
    using n dm(2,3) by (intro tidy_snoc [OF ws]) (simp_all add: q fprint_def p1_def)
  then show ?thesis using f by (auto simp: on_terminal_def q fprint_def p1_def)
qed (use t d in \<open>auto simp: drawLocked_def\<close>)

lemma print_terminal:
  assumes t: "on_terminal m ts p" "p_drawn p = 0"
  shows "on_terminal m ts (p\<lparr>p_out := p_out p @ [Out (91 # s)]\<rparr>)" "on_terminal m (ts @ [w]) (p\<lparr>p_out := p_out p @ [w]\<rparr>)"
proof -
  obtain ws where ws: "tidy m ts p ws" using t by (auto simp: on_terminal_def)
  then have s: "subseq ts (printed ws)" "0 \<le> m" "list_all (print_ok ts) (printed ws)" using t(2) by (auto simp: tidy_def)
  have ok: "list_all (print_ok (ts @ [w])) (printed ws)" using s(3) by (auto simp: list_all_iff print_ok_def)
  have "tidy m ts (p\<lparr>p_out := p_out p @ [Out (91 # s)]\<rparr>) (ws @ [Printed (Out (91 # s))])"
    using s(2,3) t(2) subseq_printed [OF s(1), of "[Printed (Out (91 # s))]"] by (intro tidy_snoc [OF ws]) (simp_all add: print_ok_def)
  moreover have "tidy m (ts @ [w]) (p\<lparr>p_out := p_out p @ [w]\<rparr>) (ws @ [Printed w])"
    using s t(2) ok by (intro tidy_snoc [OF ws]) (simp_all add: list_emb_append_mono print_ok_def)
  ultimately show "on_terminal m ts (p\<lparr>p_out := p_out p @ [Out (91 # s)]\<rparr>)" "on_terminal m (ts @ [w]) (p\<lparr>p_out := p_out p @ [w]\<rparr>)"
    using t by (auto simp: on_terminal_def)
qed

lemma terminal_cong:
  "on_terminal m ts p \<Longrightarrow> p_tty q = p_tty p \<Longrightarrow> p_width q = p_width p \<Longrightarrow> p_out q = p_out p \<Longrightarrow> p_drawn q = p_drawn p \<Longrightarrow>
   on_terminal m ts q"
  by (simp add: on_terminal_def tidy_def)

lemma finish_terminal:
  assumes t: "on_terminal m ts p" and f: "finishLocked key p = Some q"
  shows "on_terminal m ts q"
proof (cases "mget (p_active p) key")
  case (Some st)
  define p1 where "p1 = p\<lparr>p_active := mdel key (p_active p), p_recent := mput key st (p_recent p), p_order := remove1 key (p_order p)\<rparr>"
  define sum where "sum = summary (p_oor (clearLocked p1)) (p_clock (clearLocked p1)) st"
  define p2 where "p2 = fprintln sum (clearLocked p1)"
  have "on_terminal m ts p1" by (rule terminal_cong [OF t]) (simp_all add: p1_def)
  have "sum = 91 # tl sum" by (simp add: sum_def summary_def Let_def tx_def)
  with print_terminal(1) [OF clear_terminal [OF \<open>on_terminal m ts p1\<close>], of "tl sum @ [10]"] have "on_terminal m ts p2"
    by (metis append_Cons fprint_def fprintln_def p2_def)
  then have p3: "on_terminal m ts (if \<not> p_quietSummaryLogs p2 then add_log l p2 else p2)" for l
    by (auto simp: add_log_def intro: terminal_cong [of m ts p2])
  have "drawLocked (if \<not> p_quietSummaryLogs p2 then add_log (tx ''tool | transfer | '' @ sum) p2 else p2) = Some q"
    using f by (simp only: finishLocked_def Some option.case Let_def p1_def sum_def p2_def)
  from draw_terminal [OF p3 this] show ?thesis .
qed (use t f in \<open>simp add: finishLocked_def\<close>)

lemma event_on_terminal:
  assumes t: "on_terminal m ts p" and e: "event_on ev now st p = Some q"
  shows "on_terminal m ts q"
proof -
  define p1 where "p1 = (if \<not> te_Start ev \<and> mget (ts_chunks st) (te_Offset ev) \<noteq> None then logDuplicate ev p else p)"
  define p2 where "p2 = p1\<lparr>p_active := mput (event_key ev) (take_event ev now st) (p_active p1)\<rparr>"
  have "on_terminal m ts p2"
    by (rule terminal_cong [OF t]) (simp_all add: p2_def p1_def logDuplicate_def add_log_def)
  moreover have "(if finished ev (take_event ev now st) then finishLocked (event_key ev) p2 else Some p2) = Some q"
    using e by (simp only: event_on_def Let_def p1_def p2_def)
  ultimately show ?thesis using finish_terminal by (auto split: if_splits)
qed

lemma open_terminal: "on_terminal m ts p \<Longrightarrow> on_terminal m ts (open_transfer ev now p)"
  by (erule terminal_cong) (simp_all add: open_transfer_def add_log_def Let_def)

lemma reopen_terminal: "on_terminal m ts p \<Longrightarrow> on_terminal m ts (reopen_transfer ev old p)"
  by (erule terminal_cong) (simp_all add: reopen_transfer_def Let_def)

lemma unlock_terminal: "on_terminal m ts p \<Longrightarrow> on_terminal m ts (unlock p)"
  by (erule terminal_cong) (simp_all add: unlock_def)

lemma Event_terminal:
  assumes t: "on_terminal m ts p" and e: "Event ev p = Some q"
  shows "on_terminal m ts q"
proof -
  obtain now p0 where c: "call_now p = (now, p0)" by fastforce
  have t0: "on_terminal m ts p0" by (rule terminal_cong [OF t]) (use c in \<open>auto simp: call_now_def\<close>)
  obtain r where r: "Event_locked ev p = Some r" "q = unlock r" using e by (auto simp: Event_def)
  note steps = event_on_terminal [OF t0] event_on_terminal [OF open_terminal [OF t0]] event_on_terminal [OF reopen_terminal [OF t0]]
  have "on_terminal m ts r"
  proof (cases "mget (p_active p0) (event_key ev)")
    case (Some st)
    show ?thesis
    proof (cases "te_Start ev")
      case True
      then obtain y where y: "finishLocked (event_key ev) p0 = Some y"
        "event_on ev now (new_transfer ev now) (open_transfer ev now y) = Some r"
        using r(1) Some by (auto simp: Event_locked_def c Let_def bind_eq_Some_conv)
      from event_on_terminal [OF open_terminal [OF finish_terminal [OF t0 y(1)]] y(2)] show ?thesis .
    qed (use r(1) Some steps in \<open>simp add: Event_locked_def c Let_def\<close>)
  next
    case None
    have dup: "on_terminal m ts (logDuplicate ev p0)" by (rule terminal_cong [OF t0]) (simp_all add: logDuplicate_def add_log_def)
    then show ?thesis using r(1) None steps by (auto simp: Event_locked_def c Let_def split: option.splits if_splits)
  qed
  then show ?thesis unfolding r(2) by (rule unlock_terminal)
qed

lemma finish_idle_terminal: "on_terminal m ts p \<Longrightarrow> finish_idle now ks p = Some q \<Longrightarrow> on_terminal m ts q"
proof (induction ks arbitrary: p)
  case (Cons k ks)
  then show ?case using finish_terminal [OF Cons.prems(1)]
    by (auto simp: bind_eq_Some_conv split: option.splits if_splits)
qed simp

lemma tick_terminal:
  assumes t: "on_terminal m ts p" and e: "tick p = Some q"
  shows "on_terminal m ts q"
proof -
  obtain now p0 where c: "call_now p = (now, p0)" by fastforce
  have "on_terminal m ts (forget_recent now p0)"
    by (rule terminal_cong [OF t]) (use c in \<open>auto simp: call_now_def forget_recent_def\<close>)
  note f = finish_idle_terminal [OF this]
  obtain r where r: "tick_locked p = Some r" "q = unlock r" using e by (auto simp: tick_def)
  obtain p1 where p1: "finish_idle now (p_order (forget_recent now p0)) (forget_recent now p0) = Some p1"
    using r(1) by (auto simp: tick_locked_def c Let_def bind_eq_Some_conv)
  have "p_tty p1" using f [OF p1] by (simp add: on_terminal_def)
  then have "drawLocked p1 = Some r" using r(1) p1 by (simp add: tick_locked_def c Let_def)
  from draw_terminal [OF f [OF p1] this] show ?thesis unfolding r(2) by (rule unlock_terminal)
qed

lemma Stop_terminal:
  assumes "on_terminal m ts p" shows "on_terminal m ts (Stop p)"
proof (cases "\<not> p_stopped p \<and> 0 < p_drawn p")
  case True
  obtain ws where ws: "tidy m ts p ws" using assms by (auto simp: on_terminal_def)
  then have s: "subseq ts (printed ws)" "0 \<le> m" "list_all (print_ok ts) (printed ws)" using True by (auto simp: tidy_def)
  have "tidy m ts (Stop p) (ws @ [Ended])"
    using True s by (intro tidy_snoc [OF ws]) (simp_all add: Stop_def Let_def fprintln_def fprint_def)
  then show ?thesis using assms True by (auto simp: on_terminal_def Stop_def Let_def fprintln_def fprint_def)
qed (use assms in \<open>auto simp: Stop_def Let_def intro: terminal_cong\<close>)

section \<open>Runs on a terminal\<close>

fun op_writes :: "display_op \<Rightarrow> written list" where
  "op_writes (DPrint t) = [Out t]"
| "op_writes (DWrite b) = [Behind b]"
| "op_writes _ = []"

lemma step_terminal:
  assumes t: "on_terminal m ts p" and x: "display_step x p = Some q"
  shows "on_terminal m (ts @ op_writes x) q"
proof (cases x)
  case (DPrint s)
  from print_terminal(2) [OF clear_terminal [OF t], of "Out s"]
  have "on_terminal m (ts @ [Out s]) (fprint s (clearLocked p))" by (simp add: fprint_def)
  from draw_terminal [OF this] x DPrint show ?thesis by (simp add: Print_def)
next
  case (DWrite b)
  from draw_terminal [OF print_terminal(2) [OF clear_terminal [OF t], of "Behind b"]] x DWrite
  show ?thesis by (simp add: passthrough_Write_def Let_def)
qed (use t x Event_terminal [OF t] tick_terminal [OF t] Stop_terminal [OF t] in auto)

lemma run_terminal:
  "on_terminal m ts p \<Longrightarrow> display_run xs p = Some q \<Longrightarrow> on_terminal m (ts @ concat (map op_writes xs)) q"
proof (induction xs arbitrary: ts p)
  case (Cons x xs)
  then obtain r where r: "display_step x p = Some r" "display_run xs r = Some q" by (auto simp: bind_eq_Some_conv)
  have "on_terminal m (ts @ op_writes x) r" using Cons.prems step_terminal r(1) by simp
  from Cons.IH [OF this r(2)] show ?case by simp
qed simp

lemma new_terminal:
  "on_terminal (if w > 1 then w - 1 else 79) [] (newTransferProgress True (Some (\<lambda>_. w)) now oor clock)"
  by (auto simp: on_terminal_def newTransferProgress_def fixed_cols_def tidy_def intro!: exI [of _ "[]"])

text \<open>
  C40. On a terminal of constant width \<open>w\<close>, in any run of events, ticks, printed texts, log lines and stops whose offsets and
  sizes do not overflow (as in C38), the display does not panic and its writes are lines drawn, erasures,
  other texts and the line break of \<open>Stop\<close> in this order: a line is drawn at the start of the row, covers all columns
  of the line before and leaves the last column of the terminal free; an erasure covers exactly the columns of the
  line; and no other text is written before the line has been erased or ended. The other texts are everything
  that was printed, in order, and the summaries of transfers. Columns are those of the display's own table of widths.
\<close>

theorem progress_line_leaves_rows_intact:
  assumes "list_all good_op xs" "sum_list (map op_bytes xs) < 2 ^ 62" "m = (if w > 1 then w - 1 else 79)"
  shows "\<exists>p ws. display_run xs (newTransferProgress True (Some (\<lambda>_. w)) now oor clock) = Some p \<and>
     p_out p = map write_text ws \<and> row_columns m ws 0 = Some (p_drawn p) \<and> 0 \<le> p_drawn p \<and> p_drawn p \<le> m \<and>
     subseq (concat (map op_writes xs)) (printed ws) \<and> list_all (print_ok (concat (map op_writes xs))) (printed ws)"
proof -
  obtain p where p: "display_run xs (newTransferProgress True (Some (\<lambda>_. w)) now oor clock) = Some p"
    using display_run_total [OF wf_newTransferProgress [of 0 True "Some (\<lambda>_. w)" now oor clock] assms(1)] assms(2) by auto
  from run_terminal [OF new_terminal p] have "on_terminal m (concat (map op_writes xs)) p" unfolding assms(3) by simp
  then show ?thesis using p by (auto simp: on_terminal_def tidy_def)
qed

theorem progress_line_leaves_rows_intact_witness:
  "\<exists>p ws. display_run [DEvent (zero_event\<lparr>te_Dir := tx ''upload'', te_Path := tx ''a'', te_Total := 10, te_Start := True\<rparr>), DTick,
      DPrint (tx ''hello'' @ [10]), DTick, DStop] (newTransferProgress True (Some (\<lambda>_. 80)) (\<lambda>n. int n) (\<lambda>_. 0) (\<lambda>_. [])) = Some p \<and>
     p_out p = map write_text ws \<and> row_columns 79 ws 0 = Some (p_drawn p) \<and> subseq [Out (tx ''hello'' @ [10])] (printed ws)"
  using progress_line_leaves_rows_intact [of "[DEvent (zero_event\<lparr>te_Dir := tx ''upload'', te_Path := tx ''a'', te_Total := 10,
      te_Start := True\<rparr>), DTick, DPrint (tx ''hello'' @ [10]), DTick, DStop]" 79 80 "\<lambda>n. int n" "\<lambda>_. 0" "\<lambda>_. []"]
  by (simp add: good_event_def zero_event_def del: display_run.simps) blast

end
