(* ===== verification/Spec2Isabelle.thy ===== *)
theory Spec2Isabelle
  imports Ratelimit Replay Handshake Session_Props Stun_Server_Props Stun_Race Relay_Runs Tunnel_Props
    Truncate_Props Winargs Sandbox_Props Stream_Props Agent_Props File_Transfer_Props P2P_Props
    Stun_Discover Share_P2P_Props Tofu_Props Dial Transfer_Terminal
begin

text \<open>
  \<^bold>\<open>Remote assist: a relay, its two clients and the channels between them.\<close>

  The program lets a helper run tools on the machine of somebody who shares it. The \<^emph>\<open>share\<close> side
  registers with a relay and gets a short code; the \<^emph>\<open>help\<close> side joins with that code; the relay
  pairs the two connections and forwards frames between them. The two clients then negotiate a
  protocol version and a key, and every tool request travels sealed under it. A UDP path
  (STUN, hole punching, or the relay's UDP port) may replace the relayed path.

  \<^bold>\<open>Theories and sources\<close> (paths below \<^verbatim>\<open>src/internal/\<close>). Every theory keeps the names of the code;
  a struct is a record, a method a function from the old state to the new one and its results.

  \<^item> \<open>Prelude\<close>, \<open>Gostrings\<close>, \<open>Netaddr\<close>: Go maps, bytes and big-endian fields, the parts of
    \<^verbatim>\<open>strings\<close>, \<^verbatim>\<open>strconv\<close>, \<^verbatim>\<open>unicode/utf8\<close> and \<^verbatim>\<open>net\<close> that the code calls.
  \<^item> \<open>Ratelimit\<close> (\<^verbatim>\<open>ratelimit/ratelimit.go\<close>): token buckets and the keyed limiter. What any sequence
    of requests can obtain, the size of the table, and that a bucket recovers.
  \<^item> \<open>Replay\<close> (\<^verbatim>\<open>agent/replay.go\<close>): the sliding-window guard of call identifiers. No identifier is
    accepted twice; the bitmap implements the window over a set of identifiers; when it hangs.
  \<^item> \<open>Proto\<close>, \<open>Handshake\<close> (\<^verbatim>\<open>proto/tool.go\<close>, \<^verbatim>\<open>aad.go\<close>, \<^verbatim>\<open>aead.go\<close>, \<^verbatim>\<open>session.go\<close>, \<^verbatim>\<open>handshake.go\<close>,
    and the two ends of the handshake in \<^verbatim>\<open>client/help_mcp.go\<close> and \<^verbatim>\<open>client/share.go\<close>): frames,
    additional data, sealing, negotiation, key derivation. Sealed frames cannot be rebound;
    the best common version is chosen and tampering cannot lower it.
  \<^item> \<open>Session_Manager\<close>, \<open>Session_Inv\<close>, \<open>Session_Props\<close> (\<^verbatim>\<open>relay/session.go\<close>): the session table over an
    explicit store of sessions, with its indices, quotas, grace periods, takeovers, timers and
    data plane. \<open>sm_reach\<close> is the set of reachable tables; the invariant is proved by rule induction.
  \<^item> \<open>Stun\<close>, \<open>P2P_Limits\<close>, \<open>Stun_Server\<close>, \<open>Stun_Server_Props\<close>, \<open>Stun_Race\<close> (\<^verbatim>\<open>p2p/stun.go\<close>, \<^verbatim>\<open>limits.go\<close>,
    \<^verbatim>\<open>stun_server.go\<close>, the candidate list of \<^verbatim>\<open>stun_race.go\<close>): the codec, the server and its UDP relay.
  \<^item> \<open>Tunnel\<close>, \<open>Tunnel_Props\<close> (\<^verbatim>\<open>p2p/tunnel.go\<close>): the reliable UDP tunnel, and two of its ends over a
    network that delays, reorders, duplicates and loses datagrams.
  \<^item> \<open>Relay_Code\<close>, \<open>Relay_Limits\<close>, \<open>Update\<close>, \<open>Relay_Notice\<close> (\<^verbatim>\<open>relay/code.go\<close>, \<^verbatim>\<open>sanitize.go\<close>, \<^verbatim>\<open>limits.go\<close>,
    \<^verbatim>\<open>update/update.go\<close>, \<^verbatim>\<open>relay/update_info_file.go\<close>, \<^verbatim>\<open>update_notice.go\<close>): codes, display strings,
    limits, versions and the announcements of new versions.
  \<^item> \<open>Relay_Server\<close>, \<open>Relay_Server_Props\<close>, \<open>Relay_System\<close>, \<open>Relay_Runs\<close> (\<^verbatim>\<open>relay/server.go\<close>,
    \<^verbatim>\<open>quic_listener.go\<close>): the server around the table: admission, read loop, every message handler,
    the end of a connection, timers. \<open>Relay_System\<close> interleaves the control plane with the UDP
    workers at the granularity of their locks; \<open>Relay_Runs\<close> runs the whole server.
  \<^item> \<open>Punch\<close>, \<open>P2P_Manager\<close>, \<open>P2P_Handover\<close>, \<open>P2P_Props\<close> (\<^verbatim>\<open>proto/punch.go\<close>, \<^verbatim>\<open>p2p/manager.go\<close>, \<^verbatim>\<open>bypass.go\<close>, \<^verbatim>\<open>nat.go\<close>, the NAT
    verdict of \<^verbatim>\<open>stun_race.go\<close>): hole punching and its authentication, and the goroutines of the manager cut at
    their locks, channels and atomics. \<open>nstep\<close> is one step of one of them; four invariants give who owns the
    socket and that every negotiation answers. \<open>Stun_Discover\<close> has the race of \<^verbatim>\<open>stun_race.go\<close> for the public address.
  \<^item> \<open>Bridge\<close>, \<open>Bridge_Props\<close>, \<open>Stream_Props\<close> (\<^verbatim>\<open>mcp/bridge.go\<close>): calls of the helper, replies, streams and
    disconnection; \<open>brun\<close> is a run of calls, frames and disconnections in any order.
  \<^item> \<open>Agent\<close>, \<open>Agent_Props\<close> (\<^verbatim>\<open>agent/agent.go\<close>): the daemon: admission of a request, dispatch, streaming,
    responses, cancellation, change of session. \<open>Tool_Channel\<close> holds what both ends rely on of the
    sealed channel between them, \<open>Agent_Props\<close> the call from end to end.
  \<^item> \<open>Sandbox\<close>, \<open>Sandbox_Props\<close>, \<open>Winargs\<close> (\<^verbatim>\<open>agent/sandbox.go\<close>, \<^verbatim>\<open>winargs.go\<close>): paths are confined to the root over a
    model of \<^verbatim>\<open>path/filepath\<close>; a quoted Windows command line reads back as its arguments.
  \<^item> \<open>Truncate\<close>, \<open>Truncate_Props\<close> (\<^verbatim>\<open>agent/tools/truncate.go\<close>, \<^verbatim>\<open>exec_bounded.go\<close>, \<^verbatim>\<open>oemtext.go\<close>, parts of \<^verbatim>\<open>exec.go\<close>): bounded
    capture of output, equal to truncating the whole output at the end.
  \<^item> \<open>File_Tools\<close>, \<open>File_Transfer\<close>, \<open>File_Transfer_Props\<close> (\<^verbatim>\<open>agent/tools/file.go\<close>, \<^verbatim>\<open>fs.go\<close>, \<^verbatim>\<open>client/help_bootstrap.go\<close>): the
    file tools on regular files, and uploads and downloads on top of them with retries, lost calls
    and rebuilt tunnels.
  \<^item> \<open>Share_P2P\<close>, \<open>Share_P2P_Props\<close> (\<^verbatim>\<open>client/share.go\<close>): the main loop of the share side and the goroutines that move a
    session to a tunnel, on the state they share under one mutex, in every interleaving.
  \<^item> \<open>Tofu\<close>, \<open>Tofu_Props\<close>, \<open>Dial\<close> (\<^verbatim>\<open>crypto/tofu.go\<close>, \<^verbatim>\<open>client/server_addr.go\<close>, \<^verbatim>\<open>client/dial.go\<close>): pinning of the relay's certificate,
    relay addresses, and the race between TCP and QUIC.

  \<^item> \<open>Float64\<close>, \<open>Transfer_Progress\<close>, \<open>Transfer_Progress_Props\<close>, \<open>Transfer_Terminal\<close> (\<^verbatim>\<open>agent/transfer.go\<close>, \<^verbatim>\<open>client/transfer_progress.go\<close>): the
    chunks of a transfer as the share side sees them, and its progress display: counting, idle and
    interrupted transfers, and the text of the line down to the rounding of float64. The display does
    not panic and counts each offset once, unless an offset is negative, when it panics; on a model of
    a terminal the progress line leaves every other row as it was.

  \<^bold>\<open>Interaction.\<close> The server's handlers call the session table, the limiters and the STUN server;
  the STUN server asks the table whether a data session is active. Where a component relies on
  another through a contract, the contract is a locale (a Go map, a limiter, the windowed set of
  the replay guard, authenticated encryption) that is interpreted on the model's definitions.

  \<^bold>\<open>Choices.\<close> Machine integers are words where the code lets them wrap (sequence numbers, replay
  identifiers, counters); times are integers in nanoseconds. The balances of the limiters are
  rationals, so the rounding of their float64 values is not covered; the progress display rounds as
  float64 does (\<open>Float64\<close>). A loop that may not end returns an option
  (\<open>accept\<close>, \<open>download_loop\<close>, with theorems on when it returns) or takes the list of what it meets
  (the clock readings of \<open>toolWait\<close>, the fates of the calls of a transfer); all other loops are total
  functions with a termination proof, so no fuel is used. Random identifiers, the order in
  which a map is traversed, the choice of a \<open>select\<close> and the outcome of a system call are arguments,
  so theorems hold for all of them. Cryptography, JSON and DEFLATE are parameters, with what the
  code relies on as named hypotheses, each with a witness: \<open>unforged\<close> and \<open>trusted\<close> (what opens was
  sealed by the other end), \<open>mac_unforged\<close> (the same for punching packets), \<open>armor_visible\<close> (no two
  byte strings have the same printed form), \<open>argv_rules\<close> (how Windows splits a command line),
  \<open>symlinks_clean\<close> (what resolving links returns).

  \<^bold>\<open>Not modelled.\<close> Listeners, TLS and QUIC set-up, file I/O, other console output and log texts, the desktop GUI,
  the command-line programs and process control: they are glue around the operating system and
  third-party code.
\<close>

end
